(* ===== verification/Go_Base.thy ===== *)
theory Go_Base
  imports Main
begin

text \<open>
  The prelude shared by the component theories: the result type of fallible Go functions, slice
  expressions that can panic, index loops that search for the first hit, the decimal rendering of
  integers (\<open>%d\<close> of package fmt, strconv.Itoa), and the collections of lemmas that the
  component proofs hand to the simplifier.
\<close>

named_theorems go_string_simps \<open>computation rules for the model of package strings\<close>
named_theorems patch_simps \<open>unfolding rules of the apply\_patch component\<close>
named_theorems policy_simps \<open>unfolding rules of the exec policy component\<close>

section \<open>Results of fallible functions\<close>

text \<open>A Go function that returns \<open>(value, error)\<close>: \<open>Inl\<close> is a non-nil error.\<close>

type_synonym ('e, 'a) result = "'e + 'a"

definition bind_res :: "('e, 'a) result \<Rightarrow> ('a \<Rightarrow> ('e, 'b) result) \<Rightarrow> ('e, 'b) result" where
  "bind_res r f = (case r of Inl e \<Rightarrow> Inl e | Inr x \<Rightarrow> f x)"

lemma bind_res_simps [simp]:
  "bind_res (Inl e) f = Inl e"
  "bind_res (Inr x) f = f x"
  by (simp_all add: bind_res_def)

lemma bind_res_Inr_iff:
  "bind_res r f = Inr y \<longleftrightarrow> (\<exists>x. r = Inr x \<and> f x = Inr y)"
  by (cases r) auto

lemma bind_res_Inl_iff:
  "bind_res r f = Inl e \<longleftrightarrow> r = Inl e \<or> (\<exists>x. r = Inr x \<and> f x = Inl e)"
  by (cases r) auto

lemma bind_res_assoc: "bind_res (bind_res r f) g = bind_res r (\<lambda>x. bind_res (f x) g)"
  by (cases r) auto

section \<open>Index loops\<close>

text \<open>
  The loop \<open>for i := lo; i <= hi; i++ { if p(i) { return i, true } }; return 0, false\<close>, with the
  number of iterations \<open>hi + 1 - lo\<close> as the recursion argument.
\<close>

fun scan_up :: "(nat \<Rightarrow> bool) \<Rightarrow> nat \<Rightarrow> nat \<Rightarrow> nat option" where
  "scan_up p i 0 = None"
| "scan_up p i (Suc n) = (if p i then Some i else scan_up p (Suc i) n)"

definition for_first :: "nat \<Rightarrow> nat \<Rightarrow> (nat \<Rightarrow> bool) \<Rightarrow> nat option" where
  "for_first lo hi p = scan_up p lo (Suc hi - lo)"

lemma scan_up_Some_iff:
  "scan_up p i n = Some k \<longleftrightarrow> i \<le> k \<and> k < i + n \<and> p k \<and> (\<forall>j. i \<le> j \<and> j < k \<longrightarrow> \<not> p j)"
proof (induction n arbitrary: i)
  case 0
  then show ?case by simp
next
  case (Suc n)
  show ?case
  proof (cases "p i")
    case True
    then show ?thesis by (auto simp: Suc_le_eq intro: le_neq_implies_less)
  next
    case False
    then have "scan_up p i (Suc n) = scan_up p (Suc i) n" by simp
    with Suc.IH [of "Suc i"] False show ?thesis
      by (auto simp: Suc_le_eq) (metis le_neq_implies_less)+
  qed
qed

lemma scan_up_None_iff: "scan_up p i n = None \<longleftrightarrow> (\<forall>j. i \<le> j \<and> j < i + n \<longrightarrow> \<not> p j)"
proof (induction n arbitrary: i)
  case 0
  then show ?case by auto
next
  case (Suc n)
  have "(\<forall>j. i \<le> j \<and> j < i + Suc n \<longrightarrow> \<not> p j) \<longleftrightarrow>
    \<not> p i \<and> (\<forall>j. Suc i \<le> j \<and> j < Suc i + n \<longrightarrow> \<not> p j)"
    by (auto simp: Suc_le_eq) (metis le_neq_implies_less)
  with Suc.IH [of "Suc i"] show ?case by simp
qed

lemma for_first_Some_iff:
  "for_first lo hi p = Some k \<longleftrightarrow> lo \<le> k \<and> k \<le> hi \<and> p k \<and> (\<forall>j. lo \<le> j \<and> j < k \<longrightarrow> \<not> p j)"
  by (auto simp: for_first_def scan_up_Some_iff)

lemma for_first_None_iff:
  "for_first lo hi p = None \<longleftrightarrow> (\<forall>j. lo \<le> j \<and> j \<le> hi \<longrightarrow> \<not> p j)"
  by (auto simp: for_first_def scan_up_None_iff)

lemma scan_up_cong:
  "(\<And>j. i \<le> j \<Longrightarrow> j < i + n \<Longrightarrow> p j = q j) \<Longrightarrow> scan_up p i n = scan_up q i n"
  by (induction n arbitrary: i) auto

lemma for_first_cong:
  "(\<And>i. lo \<le> i \<Longrightarrow> i \<le> hi \<Longrightarrow> p i = q i) \<Longrightarrow> for_first lo hi p = for_first lo hi q"
  unfolding for_first_def by (rule scan_up_cong) auto

text \<open>The same loop with a condition that may panic, which is \<open>None\<close>; so is then the loop.\<close>

fun try_up :: "(nat \<Rightarrow> bool option) \<Rightarrow> nat \<Rightarrow> nat \<Rightarrow> nat option option" where
  "try_up p i 0 = Some None"
| "try_up p i (Suc n) =
     (case p i of None \<Rightarrow> None | Some b \<Rightarrow> if b then Some (Some i) else try_up p (Suc i) n)"

definition try_first :: "nat \<Rightarrow> nat \<Rightarrow> (nat \<Rightarrow> bool option) \<Rightarrow> nat option option" where
  "try_first lo hi p = try_up p lo (Suc hi - lo)"

lemma try_up_total:
  "(\<And>j. i \<le> j \<Longrightarrow> j < i + n \<Longrightarrow> p j = Some (q j)) \<Longrightarrow> try_up p i n = Some (scan_up q i n)"
  by (induction n arbitrary: i) auto

lemma try_first_total:
  "(\<And>i. lo \<le> i \<Longrightarrow> i \<le> hi \<Longrightarrow> p i = Some (q i)) \<Longrightarrow> try_first lo hi p = Some (for_first lo hi q)"
  unfolding try_first_def for_first_def by (rule try_up_total) auto

text \<open>A conjunction over a list that stops at the first false or panicking element.\<close>

fun try_all :: "('a \<Rightarrow> bool option) \<Rightarrow> 'a list \<Rightarrow> bool option" where
  "try_all p [] = Some True"
| "try_all p (x # xs) = (case p x of None \<Rightarrow> None | Some b \<Rightarrow> if b then try_all p xs else Some False)"

lemma try_all_total: "(\<And>x. x \<in> set xs \<Longrightarrow> p x = Some (q x)) \<Longrightarrow> try_all p xs = Some (list_all q xs)"
  by (induction xs) auto

section \<open>Slices\<close>

text \<open>The slice expression \<open>xs[lo:hi]\<close>; \<open>None\<close> is the run-time panic for bad bounds.\<close>

definition go_slice :: "'a list \<Rightarrow> nat \<Rightarrow> nat \<Rightarrow> 'a list option" where
  "go_slice xs lo hi = (if lo \<le> hi \<and> hi \<le> length xs then Some (take (hi - lo) (drop lo xs)) else None)"

text \<open>The slice \<open>xs[lo:]\<close> and the element \<open>xs[i]\<close>, which panic in the same way.\<close>

definition go_from :: "'a list \<Rightarrow> nat \<Rightarrow> 'a list option" where
  "go_from xs lo = go_slice xs lo (length xs)"

definition go_index :: "'a list \<Rightarrow> nat \<Rightarrow> 'a option" where
  "go_index xs i = (if i < length xs then Some (xs ! i) else None)"

lemma go_from_eq: "go_from xs lo = (if lo \<le> length xs then Some (drop lo xs) else None)"
  by (simp add: go_from_def go_slice_def)

lemma go_from_in_range [simp]: "lo \<le> length xs \<Longrightarrow> go_from xs lo = Some (drop lo xs)"
  by (simp add: go_from_eq)

lemma go_index_in_range [simp]: "i < length xs \<Longrightarrow> go_index xs i = Some (xs ! i)"
  by (simp add: go_index_def)

lemma go_slice_Some_length: "go_slice xs lo hi = Some ys \<Longrightarrow> length ys = hi - lo"
  by (auto simp: go_slice_def split: if_splits)

lemma take_drop_nth_eq_iff:
  "i + length ps \<le> length xs \<Longrightarrow>
    take (length ps) (drop i xs) = ps \<longleftrightarrow> (\<forall>k < length ps. xs ! (i + k) = ps ! k)"
  by (auto simp: list_eq_iff_nth_eq)

section \<open>Decimal rendering\<close>

definition digit_char :: "nat \<Rightarrow> char" where
  "digit_char d = char_of (48 + d)"

fun nat_digits :: "nat \<Rightarrow> string" where
  "nat_digits n = (if n < 10 then [digit_char n] else nat_digits (n div 10) @ [digit_char (n mod 10)])"

declare nat_digits.simps [simp del]

definition itoa :: "int \<Rightarrow> string" where
  "itoa i = (if i < 0 then CHR ''-'' # nat_digits (nat (- i)) else nat_digits (nat i))"

lemma nat_digits_nonempty: "nat_digits n \<noteq> []"
  by (subst nat_digits.simps) simp

end
