(* ===== verification/Go_Strings.thy ===== *)
theory Go_Strings
  imports Go_Base
begin

text \<open>
  The parts of Go's packages strings, unicode and unicode/utf8 that the modelled code calls.
  A Go string is a sequence of bytes, here a list of \<open>char\<close>; code points are natural numbers,
  obtained by UTF-8 decoding with Go's treatment of invalid bytes (U+FFFD, width 1).
\<close>

section \<open>UTF-8\<close>

type_synonym rune = nat

abbreviation byte :: "char \<Rightarrow> nat" where
  "byte c \<equiv> of_char c"

definition rune_error :: rune where
  "rune_error = 0xFFFD"

definition cont_byte :: "nat \<Rightarrow> nat \<Rightarrow> char \<Rightarrow> bool" where
  "cont_byte lo hi c \<longleftrightarrow> lo \<le> byte c \<and> byte c \<le> hi"

definition rune_start :: "char \<Rightarrow> bool" where
  "rune_start c \<longleftrightarrow> \<not> (0x80 \<le> byte c \<and> byte c \<le> 0xBF)"

text \<open>The accepted range of the second byte, by the first byte (the table of utf8.DecodeRune).\<close>

definition second_range :: "nat \<Rightarrow> nat \<times> nat" where
  "second_range b0 =
     (if b0 = 0xE0 then (0xA0, 0xBF)
      else if b0 = 0xED then (0x80, 0x9F)
      else if b0 = 0xF0 then (0x90, 0xBF)
      else if b0 = 0xF4 then (0x80, 0x8F)
      else (0x80, 0xBF))"

text \<open>utf8.DecodeRuneInString: the first code point and its width; width 0 for the empty string.\<close>

fun decode_rune :: "string \<Rightarrow> rune \<times> nat" where
  "decode_rune [] = (rune_error, 0)"
| "decode_rune (c0 # cs) =
     (let b0 = byte c0; (lo, hi) = second_range b0 in
      if b0 < 0x80 then (b0, 1)
      else if 0xC2 \<le> b0 \<and> b0 \<le> 0xDF then
        (case cs of c1 # _ \<Rightarrow>
           if cont_byte lo hi c1 then ((b0 - 0xC0) * 0x40 + (byte c1 - 0x80), 2) else (rune_error, 1)
         | _ \<Rightarrow> (rune_error, 1))
      else if 0xE0 \<le> b0 \<and> b0 \<le> 0xEF then
        (case cs of c1 # c2 # _ \<Rightarrow>
           if cont_byte lo hi c1 \<and> cont_byte 0x80 0xBF c2
           then ((b0 - 0xE0) * 0x1000 + (byte c1 - 0x80) * 0x40 + (byte c2 - 0x80), 3)
           else (rune_error, 1)
         | _ \<Rightarrow> (rune_error, 1))
      else if 0xF0 \<le> b0 \<and> b0 \<le> 0xF4 then
        (case cs of c1 # c2 # c3 # _ \<Rightarrow>
           if cont_byte lo hi c1 \<and> cont_byte 0x80 0xBF c2 \<and> cont_byte 0x80 0xBF c3
           then ((b0 - 0xF0) * 0x40000 + (byte c1 - 0x80) * 0x1000 + (byte c2 - 0x80) * 0x40
                   + (byte c3 - 0x80), 4)
           else (rune_error, 1)
         | _ \<Rightarrow> (rune_error, 1))
      else (rune_error, 1))"

text \<open>
  utf8.DecodeLastRuneInString: look back at most four bytes for a start byte and accept the code
  point decoded there only when it ends exactly at the end of the string.
\<close>

definition decode_last_rune :: "string \<Rightarrow> rune \<times> nat" where
  "decode_last_rune s =
     (if s = [] then (rune_error, 0)
      else if byte (last s) < 0x80 then (byte (last s), 1)
      else (case find (\<lambda>k. k \<le> length s \<and> rune_start (s ! (length s - k))) [2, 3, 4] of
              None \<Rightarrow> (rune_error, 1)
            | Some k \<Rightarrow>
                (case decode_rune (drop (length s - k) s) of
                   (r, w) \<Rightarrow> if w = k then (r, k) else (rune_error, 1))))"

text \<open>utf8.AppendRune; surrogates and values past U+10FFFF are written as U+FFFD.\<close>

definition encode_rune :: "rune \<Rightarrow> string" where
  "encode_rune r0 =
     (let r = (if (0xD800 \<le> r0 \<and> r0 \<le> 0xDFFF) \<or> 0x10FFFF < r0 then rune_error else r0) in
      if r < 0x80 then [char_of r]
      else if r < 0x800 then [char_of (0xC0 + r div 0x40), char_of (0x80 + r mod 0x40)]
      else if r < 0x10000 then
        [char_of (0xE0 + r div 0x1000), char_of (0x80 + r div 0x40 mod 0x40), char_of (0x80 + r mod 0x40)]
      else
        [char_of (0xF0 + r div 0x40000), char_of (0x80 + r div 0x1000 mod 0x40),
         char_of (0x80 + r div 0x40 mod 0x40), char_of (0x80 + r mod 0x40)])"

lemma decode_rune_width_pos: "s \<noteq> [] \<Longrightarrow> 0 < snd (decode_rune s)"
  by (cases s) (auto simp: Let_def split: prod.splits list.splits)

lemma decode_rune_width_le: "snd (decode_rune s) \<le> length s"
  by (cases s) (auto simp: Let_def split: prod.splits list.splits)

lemma decode_rune_ascii: "byte c < 0x80 \<Longrightarrow> decode_rune (c # cs) = (byte c, 1)"
  by (simp add: Let_def split: prod.splits)

declare decode_rune.simps(2) [simp del]

lemma find_SomeD: "find P xs = Some k \<Longrightarrow> P k \<and> k \<in> set xs"
  by (induction xs) (auto split: if_splits)

lemma decode_last_rune_width_pos: "s \<noteq> [] \<Longrightarrow> 0 < snd (decode_last_rune s)"
  by (auto simp: decode_last_rune_def split: option.splits prod.splits if_splits dest!: find_SomeD)

lemma decode_last_rune_width_le: "snd (decode_last_rune s) \<le> length s"
  by (auto simp: decode_last_rune_def Suc_le_eq split: option.splits prod.splits if_splits dest!: find_SomeD)

lemma decode_last_rune_ascii:
  "s \<noteq> [] \<Longrightarrow> byte (last s) < 0x80 \<Longrightarrow> decode_last_rune s = (byte (last s), 1)"
  by (simp add: decode_last_rune_def)

text \<open>The code points a \<open>range\<close> loop over the string visits.\<close>

function runes :: "string \<Rightarrow> rune list" where
  "runes s = (if s = [] then [] else fst (decode_rune s) # runes (drop (snd (decode_rune s)) s))"
  by pat_completeness auto
termination
  by (relation "measure length") (auto simp: decode_rune_width_pos)

declare runes.simps [simp del]

section \<open>White space and trimming\<close>

text \<open>unicode.IsSpace.\<close>

definition is_space :: "rune \<Rightarrow> bool" where
  "is_space r \<longleftrightarrow>
     r \<in> set [0x09, 0x0A, 0x0B, 0x0C, 0x0D, 0x20, 0x85, 0xA0, 0x1680,
       0x2000, 0x2001, 0x2002, 0x2003, 0x2004, 0x2005, 0x2006, 0x2007, 0x2008, 0x2009, 0x200A,
       0x2028, 0x2029, 0x202F, 0x205F, 0x3000]"

text \<open>strings.TrimLeftFunc and strings.TrimRightFunc.\<close>

function trim_left_func :: "(rune \<Rightarrow> bool) \<Rightarrow> string \<Rightarrow> string" where
  "trim_left_func f s =
     (if s = [] then []
      else (case decode_rune s of (r, w) \<Rightarrow> if f r then trim_left_func f (drop w s) else s))"
  by pat_completeness auto
termination
proof (relation "measure (\<lambda>(f, s). length s)", goal_cases)
  case 1
  then show ?case by simp
next
  case (2 f s r w)
  then show ?case using decode_rune_width_pos [of s]
    by (auto dest!: sym [of "(r, w)"])
qed

function trim_right_func :: "(rune \<Rightarrow> bool) \<Rightarrow> string \<Rightarrow> string" where
  "trim_right_func f s =
     (if s = [] then []
      else (case decode_last_rune s of
              (r, w) \<Rightarrow> if f r then trim_right_func f (take (length s - w) s) else s))"
  by pat_completeness auto
termination
proof (relation "measure (\<lambda>(f, s). length s)", goal_cases)
  case 1
  then show ?case by simp
next
  case (2 f s r w)
  then show ?case using decode_last_rune_width_pos [of s]
    by (auto dest!: sym [of "(r, w)"])
qed

declare trim_left_func.simps [simp del] trim_right_func.simps [simp del]

text \<open>strings.TrimSpace.\<close>

definition TrimSpace :: "string \<Rightarrow> string" where
  "TrimSpace s = trim_right_func is_space (trim_left_func is_space s)"

lemma trim_left_func_Nil [simp]: "trim_left_func f [] = []"
  by (simp add: trim_left_func.simps)

lemma trim_right_func_Nil [simp]: "trim_right_func f [] = []"
  by (simp add: trim_right_func.simps)

lemma TrimSpace_Nil [simp]: "TrimSpace [] = []"
  by (simp add: TrimSpace_def)

definition plain_char :: "char \<Rightarrow> bool" where
  "plain_char c \<longleftrightarrow> byte c < 0x80 \<and> \<not> is_space (byte c)"

lemma trim_left_func_plain: "plain_char c \<Longrightarrow> trim_left_func is_space (c # cs) = c # cs"
  by (subst trim_left_func.simps) (simp add: decode_rune_ascii plain_char_def)

lemma trim_right_func_plain:
  "s \<noteq> [] \<Longrightarrow> plain_char (last s) \<Longrightarrow> trim_right_func is_space s = s"
  by (subst trim_right_func.simps) (simp add: decode_last_rune_ascii plain_char_def)

text \<open>A string that starts and ends with printable ASCII is left alone.\<close>

lemma TrimSpace_plain:
  "plain_char c \<Longrightarrow> plain_char (last (c # cs)) \<Longrightarrow> TrimSpace (c # cs) = c # cs"
  by (simp add: TrimSpace_def trim_left_func_plain trim_right_func_plain)

lemma trim_right_func_prefix: "\<exists>t. s = trim_right_func f s @ t"
proof (induction "length s" arbitrary: s rule: less_induct)
  case less
  show ?case
  proof (cases "s \<noteq> [] \<and> f (fst (decode_last_rune s))")
    case True
    obtain r w where rw: "decode_last_rune s = (r, w)" by fastforce
    let ?s = "take (length s - w) s"
    have "length ?s < length s"
      using True rw decode_last_rune_width_pos [of s] by simp
    from less.hyps [OF this] obtain t where "?s = trim_right_func f ?s @ t" by blast
    moreover have "trim_right_func f s = trim_right_func f ?s"
      using True rw by (subst trim_right_func.simps) simp
    moreover have "s = ?s @ drop (length s - w) s" by simp
    ultimately show ?thesis by (metis append.assoc)
  next
    case False
    then have "trim_right_func f s = s"
      by (subst trim_right_func.simps) (auto split: prod.splits)
    then show ?thesis by auto
  qed
qed

section \<open>Prefixes, suffixes, splitting and joining\<close>

text \<open>strings.CutPrefix (\<open>None\<close> when the prefix is absent), HasPrefix and HasSuffix.\<close>

fun CutPrefix :: "string \<Rightarrow> string \<Rightarrow> string option" where
  "CutPrefix s [] = Some s"
| "CutPrefix [] (p # ps) = None"
| "CutPrefix (c # cs) (p # ps) = (if c = p then CutPrefix cs ps else None)"

definition HasPrefix :: "string \<Rightarrow> string \<Rightarrow> bool" where
  "HasPrefix s p \<longleftrightarrow> CutPrefix s p \<noteq> None"

definition HasSuffix :: "string \<Rightarrow> string \<Rightarrow> bool" where
  "HasSuffix s p \<longleftrightarrow> HasPrefix (rev s) (rev p)"

definition TrimPrefix :: "string \<Rightarrow> string \<Rightarrow> string" where
  "TrimPrefix s p = (case CutPrefix s p of None \<Rightarrow> s | Some r \<Rightarrow> r)"

definition TrimSuffix :: "string \<Rightarrow> string \<Rightarrow> string" where
  "TrimSuffix s p = (if HasSuffix s p then take (length s - length p) s else s)"

lemma CutPrefix_Some_iff: "CutPrefix s p = Some r \<longleftrightarrow> s = p @ r"
  by (induction s p rule: CutPrefix.induct) auto

lemma CutPrefix_append [simp]: "CutPrefix (p @ r) p = Some r"
  by (simp add: CutPrefix_Some_iff)

lemma CutPrefix_None_iff: "CutPrefix s p = None \<longleftrightarrow> (\<forall>r. s \<noteq> p @ r)"
  using CutPrefix_Some_iff [of s p] by (metis not_Some_eq)

lemma HasPrefix_iff: "HasPrefix s p \<longleftrightarrow> (\<exists>r. s = p @ r)"
  by (auto simp: HasPrefix_def CutPrefix_Some_iff)

lemma HasSuffix_iff: "HasSuffix s p \<longleftrightarrow> (\<exists>r. s = r @ p)"
proof
  assume "HasSuffix s p"
  then obtain r where "rev s = rev p @ r" by (auto simp: HasSuffix_def HasPrefix_iff)
  then have "s = rev r @ p" by (metis rev_append rev_rev_ident)
  then show "\<exists>r. s = r @ p" ..
next
  assume "\<exists>r. s = r @ p"
  then show "HasSuffix s p" by (auto simp: HasSuffix_def HasPrefix_iff)
qed

lemma TrimPrefix_append [simp]: "TrimPrefix (p @ r) p = r"
  by (simp add: TrimPrefix_def)

lemma TrimSuffix_append [simp]: "TrimSuffix (r @ p) p = r"
  by (auto simp: TrimSuffix_def HasSuffix_iff)

text \<open>strings.Split on a one-byte separator and strings.Join.\<close>

fun split_on :: "char \<Rightarrow> string \<Rightarrow> string list" where
  "split_on d [] = [[]]"
| "split_on d (c # cs) =
     (if c = d then [] # split_on d cs
      else (case split_on d cs of [] \<Rightarrow> [[c]] | x # xs \<Rightarrow> (c # x) # xs))"

fun join :: "string \<Rightarrow> string list \<Rightarrow> string" where
  "join d [] = []"
| "join d [x] = x"
| "join d (x # y # ys) = x @ d @ join d (y # ys)"

abbreviation newline :: char where
  "newline \<equiv> CHR 0x0A"

abbreviation nl :: string where
  "nl \<equiv> [newline]"

lemma split_on_nonempty [simp]: "split_on d s \<noteq> []"
  by (induction s) (auto split: list.splits)

lemma split_on_append_sep:
  "d \<notin> set x \<Longrightarrow> split_on d (x @ d # s) = x # split_on d s"
  by (induction x) auto

lemma split_on_no_sep: "d \<notin> set x \<Longrightarrow> split_on d x = [x]"
  by (induction x) auto

lemma split_on_append: "split_on d (s @ d # t) = split_on d s @ split_on d t"
  by (induction s) (auto split: list.splits)

lemma join_Cons: "xs \<noteq> [] \<Longrightarrow> join d (x # xs) = x @ d @ join d xs"
  by (cases xs) auto

text \<open>Splitting undoes joining when no piece holds the separator, and joining undoes splitting.\<close>

lemma split_on_join:
  "xs \<noteq> [] \<Longrightarrow> (\<forall>x \<in> set xs. d \<notin> set x) \<Longrightarrow> split_on d (join [d] xs) = xs"
proof (induction xs)
  case Nil
  then show ?case by simp
next
  case (Cons x xs)
  then show ?case
    by (cases xs) (simp_all add: split_on_no_sep split_on_append_sep)
qed

lemma join_split_on: "join [d] (split_on d s) = s"
proof (induction s)
  case Nil
  then show ?case by simp
next
  case (Cons c cs)
  show ?case
  proof (cases "split_on d cs")
    case Nil
    then show ?thesis using split_on_nonempty by blast
  next
    case (Cons x xs)
    with Cons.IH show ?thesis by (cases xs) auto
  qed
qed

lemma split_on_no_sep_elems: "x \<in> set (split_on d s) \<Longrightarrow> d \<notin> set x"
proof (induction s arbitrary: x)
  case Nil
  then show ?case by simp
next
  case (Cons c cs)
  then show ?case by (fastforce split: if_splits list.splits)
qed

lemmas [go_string_simps] =
  CutPrefix_Some_iff HasPrefix_iff HasSuffix_iff split_on_append_sep split_on_no_sep join_Cons

end
