(* ===== verification/Patch_Parser.thy ===== *)
theory Patch_Parser
  imports Go_Strings
begin

text \<open>
  The apply\_patch envelope parser: \<open>src/internal/applypatch/parser.go\<close>, \<open>hunk.go\<close>,
  \<open>markers.go\<close> and the parse errors of \<open>errors.go\<close>. Line counts and line numbers are
  natural numbers (the code only adds to them). A pointer that may be nil is an \<open>option\<close>.
\<close>

section \<open>Markers and data\<close>

definition beginPatchMarker :: string where "beginPatchMarker = ''*** Begin Patch''"
definition environmentIDMarker :: string where "environmentIDMarker = ''*** Environment ID: ''"
definition endPatchMarker :: string where "endPatchMarker = ''*** End Patch''"
definition addFileMarker :: string where "addFileMarker = ''*** Add File: ''"
definition deleteFileMarker :: string where "deleteFileMarker = ''*** Delete File: ''"
definition updateFileMarker :: string where "updateFileMarker = ''*** Update File: ''"
definition moveToMarker :: string where "moveToMarker = ''*** Move to: ''"
definition eofMarker :: string where "eofMarker = ''*** End of File''"
definition changeContextMarker :: string where "changeContextMarker = ''@@ ''"
definition emptyChangeContextMarker :: string where "emptyChangeContextMarker = ''@@''"

lemmas markers = beginPatchMarker_def environmentIDMarker_def endPatchMarker_def addFileMarker_def
  deleteFileMarker_def updateFileMarker_def moveToMarker_def eofMarker_def changeContextMarker_def
  emptyChangeContextMarker_def

text \<open>The kind \<open>RuntimePanic\<close> is none of the code: it marks a slice or index expression out of range.\<close>

datatype ParseErrorKind = InvalidPatch | InvalidHunk | RuntimePanic

record ParseError =
  peKind :: ParseErrorKind
  peMessage :: string
  peLineNumber :: nat

definition newInvalidPatchError :: "string \<Rightarrow> ParseError" where
  "newInvalidPatchError message = \<lparr>peKind = InvalidPatch, peMessage = message, peLineNumber = 0\<rparr>"

definition newInvalidHunkError :: "string \<Rightarrow> nat \<Rightarrow> ParseError" where
  "newInvalidHunkError message lineNumber =
     \<lparr>peKind = InvalidHunk, peMessage = message, peLineNumber = lineNumber\<rparr>"

definition parse_panic :: ParseError where
  "parse_panic = \<lparr>peKind = RuntimePanic, peMessage = [], peLineNumber = 0\<rparr>"

definition or_panic :: "'a option \<Rightarrow> (ParseError, 'a) result" where
  "or_panic x = (case x of None \<Rightarrow> Inl parse_panic | Some v \<Rightarrow> Inr v)"

lemma or_panic_simps [simp]: "or_panic None = Inl parse_panic" "or_panic (Some v) = Inr v"
  by (simp_all add: or_panic_def)

definition ParseError_Error :: "ParseError \<Rightarrow> string" where
  "ParseError_Error e =
     (case peKind e of
        InvalidHunk \<Rightarrow> ''invalid hunk at line '' @ itoa (int (peLineNumber e)) @ '', '' @ peMessage e
      | _ \<Rightarrow> ''invalid patch: '' @ peMessage e)"

datatype HunkKind = HunkAddFile | HunkDeleteFile | HunkUpdateFile

record UpdateFileChunk =
  ChangeContext :: string
  HasChangeContext :: bool
  OldLines :: "string list"
  NewLines :: "string list"
  IsEndOfFile :: bool

record Hunk =
  hunkKind :: HunkKind
  hunkPath :: string
  hunkContents :: string
  hunkMovePath :: string
  hunkHasMovePath :: bool
  hunkChunks :: "UpdateFileChunk list"

definition TargetPath :: "Hunk \<Rightarrow> string" where
  "TargetPath h = (if hunkKind h = HunkUpdateFile \<and> hunkHasMovePath h then hunkMovePath h else hunkPath h)"

definition displayPath :: "string \<Rightarrow> string" where
  "displayPath p = p"

record ParseResult =
  prPatch :: string
  prHunks :: "Hunk list"
  prWorkdir :: "string option"
  prEnvironmentID :: "string option"

datatype parseMode = parseModeStrict | parseModeLenient

abbreviation sq :: string where "sq \<equiv> [CHR 0x27]"
abbreviation dq :: string where "dq \<equiv> [CHR 0x22]"

section \<open>Lines and boundaries\<close>

definition drop_trailing_empty :: "string list \<Rightarrow> string list" where
  "drop_trailing_empty raw = (if raw \<noteq> [] \<and> last raw = [] then butlast raw else raw)"

definition splitLines :: "string \<Rightarrow> string list" where
  "splitLines s =
     (if s = [] then []
      else map (\<lambda>line. TrimSuffix line [CHR 0x0D]) (drop_trailing_empty (split_on newline s)))"

definition checkStartAndEndLinesStrict :: "string option \<Rightarrow> string option \<Rightarrow> ParseError option" where
  "checkStartAndEndLinesStrict firstLine lastLine =
     (let first = map_option TrimSpace firstLine; last = map_option TrimSpace lastLine in
      if first = Some beginPatchMarker \<and> last = Some endPatchMarker then None
      else if first \<noteq> None \<and> first \<noteq> Some beginPatchMarker then
        Some (newInvalidPatchError
          (''The first line of the patch must be '' @ sq @ ''*** Begin Patch'' @ sq))
      else Some (newInvalidPatchError
          (''The last line of the patch must be '' @ sq @ ''*** End Patch'' @ sq)))"

definition checkPatchBoundariesStrict ::
  "string list \<Rightarrow> (ParseError, string list \<times> string list) result" where
  "checkPatchBoundariesStrict lines =
     (let first = (if lines = [] then None else Some (hd lines));
          last = (if lines = [] then None else Some (last lines)) in
      case checkStartAndEndLinesStrict first last of
        Some err \<Rightarrow> Inl err
      | None \<Rightarrow> bind_res (or_panic (go_slice lines 1 (length lines - 1))) (\<lambda>inner. Inr (lines, inner)))"

definition heredoc_openers :: "string list" where
  "heredoc_openers = [''<<EOF'', ''<<'' @ sq @ ''EOF'' @ sq, ''<<'' @ dq @ ''EOF'' @ dq]"

definition checkPatchBoundariesLenient ::
  "string list \<Rightarrow> (ParseError, string list \<times> string list) result" where
  "checkPatchBoundariesLenient originalLines =
     (case checkPatchBoundariesStrict originalLines of
        Inr r \<Rightarrow> Inr r
      | Inl strictErr \<Rightarrow>
          if 2 \<le> length originalLines \<and> hd originalLines \<in> set heredoc_openers
             \<and> HasSuffix (last originalLines) ''EOF'' \<and> 4 \<le> length originalLines
          then bind_res (or_panic (go_slice originalLines 1 (length originalLines - 1))) checkPatchBoundariesStrict
          else Inl strictErr)"

definition parseEnvironmentIDPreamble ::
  "string list \<Rightarrow> (ParseError, string option \<times> string list \<times> nat) result" where
  "parseEnvironmentIDPreamble hunkLines =
     (case hunkLines of
        [] \<Rightarrow> Inr (None, hunkLines, 2)
      | l # rest_lines \<Rightarrow>
          (case CutPrefix (trim_left_func is_space l) environmentIDMarker of
             None \<Rightarrow> Inr (None, hunkLines, 2)
           | Some rest \<Rightarrow>
               let environmentID = TrimSpace rest in
               if environmentID = [] then
                 Inl (newInvalidPatchError ''apply_patch environment_id cannot be empty'')
               else Inr (Some environmentID, rest_lines, 3)))"

section \<open>Chunks and hunks\<close>

definition firstRune :: "string \<Rightarrow> rune option" where
  "firstRune s = (if s = [] then None else Some (fst (decode_rune s)))"

definition no_lines_error :: "nat \<Rightarrow> ParseError" where
  "no_lines_error lineNumber = newInvalidHunkError ''Update hunk does not contain any lines'' lineNumber"

text \<open>The line loop of parseUpdateFileChunk: \<open>parsedLines\<close> and the chunk under construction.\<close>

fun chunk_line_loop ::
  "string list \<Rightarrow> nat \<Rightarrow> nat \<Rightarrow> UpdateFileChunk \<Rightarrow> (ParseError, UpdateFileChunk \<times> nat) result" where
  "chunk_line_loop [] lineNumber parsedLines chunk = Inr (chunk, parsedLines)"
| "chunk_line_loop (line # rest) lineNumber parsedLines chunk =
     (if line = eofMarker then
        (if parsedLines = 0 then Inl (no_lines_error (lineNumber + 1))
         else Inr (chunk\<lparr>IsEndOfFile := True\<rparr>, parsedLines + 1))
      else
        (case firstRune line of
           None \<Rightarrow>
             chunk_line_loop rest lineNumber (parsedLines + 1)
               (chunk\<lparr>OldLines := OldLines chunk @ [[]], NewLines := NewLines chunk @ [[]]\<rparr>)
         | Some first \<Rightarrow>
             if first = 0x20 then
               (case go_from line 1 of
                  None \<Rightarrow> Inl parse_panic
                | Some t \<Rightarrow> chunk_line_loop rest lineNumber (parsedLines + 1)
                    (chunk\<lparr>OldLines := OldLines chunk @ [t], NewLines := NewLines chunk @ [t]\<rparr>))
             else if first = 0x2B then
               (case go_from line 1 of
                  None \<Rightarrow> Inl parse_panic
                | Some t \<Rightarrow> chunk_line_loop rest lineNumber (parsedLines + 1)
                    (chunk\<lparr>NewLines := NewLines chunk @ [t]\<rparr>))
             else if first = 0x2D then
               (case go_from line 1 of
                  None \<Rightarrow> Inl parse_panic
                | Some t \<Rightarrow> chunk_line_loop rest lineNumber (parsedLines + 1)
                    (chunk\<lparr>OldLines := OldLines chunk @ [t]\<rparr>))
             else if parsedLines = 0 then
               Inl (newInvalidHunkError
                 (''Unexpected line found in update hunk: '' @ sq @ line @ sq @
                  ''. Every line should start with '' @ sq @ '' '' @ sq @ '' (context line), '' @ sq @
                  ''+'' @ sq @ '' (added line), or '' @ sq @ ''-'' @ sq @ '' (removed line)'')
                 (lineNumber + 1))
             else Inr (chunk, parsedLines)))"

definition empty_chunk :: "string \<Rightarrow> bool \<Rightarrow> UpdateFileChunk" where
  "empty_chunk ctx hasCtx =
     \<lparr>ChangeContext = ctx, HasChangeContext = hasCtx, OldLines = [], NewLines = [], IsEndOfFile = False\<rparr>"

definition parseUpdateFileChunk ::
  "string list \<Rightarrow> nat \<Rightarrow> bool \<Rightarrow> (ParseError, UpdateFileChunk \<times> nat) result" where
  "parseUpdateFileChunk lines lineNumber allowMissingContext =
     (case lines of
        [] \<Rightarrow> Inl (no_lines_error lineNumber)
      | line0 # _ \<Rightarrow>
          bind_res
            (if line0 = emptyChangeContextMarker then Inr ([], False, 1)
             else if HasPrefix line0 changeContextMarker then
               Inr (TrimPrefix line0 changeContextMarker, True, 1)
             else if \<not> allowMissingContext then
               Inl (newInvalidHunkError
                 (''Expected update hunk to start with a @@ context marker, got: '' @ sq @ line0 @ sq)
                 lineNumber)
             else Inr ([], False, 0))
            (\<lambda>(changeContext, hasChangeContext, startIndex).
              if startIndex \<ge> length lines then Inl (no_lines_error (lineNumber + 1))
              else bind_res (or_panic (go_from lines startIndex))
                (\<lambda>rest. bind_res
                  (chunk_line_loop rest lineNumber 0 (empty_chunk changeContext hasChangeContext))
                  (\<lambda>(chunk, parsedLines). Inr (chunk, parsedLines + startIndex)))))"

fun add_line_loop :: "string list \<Rightarrow> string \<Rightarrow> nat \<Rightarrow> string \<times> nat" where
  "add_line_loop [] contents parsed = (contents, parsed)"
| "add_line_loop (addLine # rest) contents parsed =
     (case CutPrefix addLine ''+'' of
        None \<Rightarrow> (contents, parsed)
      | Some lineToAdd \<Rightarrow> add_line_loop rest (contents @ lineToAdd @ nl) (parsed + 1))"

lemma firstRune_tail: "firstRune line = Some r \<Longrightarrow> go_from line 1 = Some (drop 1 line)"
  by (cases line) (auto simp: firstRune_def)

lemma chunk_line_loop_parsed:
  "chunk_line_loop lines n p c = Inr (c', k) \<Longrightarrow>
    p \<le> k \<and> k \<le> p + length lines \<and> (p = 0 \<and> lines \<noteq> [] \<longrightarrow> 0 < k)"
proof (induction lines n p c rule: chunk_line_loop.induct)
  case (1 lineNumber parsedLines chunk)
  then show ?case by simp
next
  case (2 line rest lineNumber parsedLines chunk)
  show ?case
  proof (cases "line = eofMarker")
    case True
    with "2.prems" show ?thesis by (auto split: if_splits)
  next
    case False
    show ?thesis
    proof (cases "firstRune line")
      case None
      with False "2.prems" "2.IH"(1) show ?thesis by fastforce
    next
      case (Some r)
      note tail = firstRune_tail [OF Some]
      show ?thesis
        using False Some tail "2.prems" "2.IH"(2) [OF False Some] "2.IH"(3) [OF False Some] "2.IH"(4) [OF False Some]
        by (auto split: if_splits)
    qed
  qed
qed

declare chunk_line_loop.simps(2) [simp del]


lemma parseUpdateFileChunk_consumed:
  assumes "parseUpdateFileChunk lines n a = Inr (c, k)"
  shows "0 < k" and "k \<le> length lines"
proof -
  have "0 < k \<and> k \<le> length lines"
    using assms
    by (auto simp: parseUpdateFileChunk_def bind_res_Inr_iff dest!: chunk_line_loop_parsed
        split: list.splits if_splits)
  then show "0 < k" and "k \<le> length lines" by simp_all
qed

text \<open>
  The chunk loop of parseOneHunk: it stops at a line that starts with an asterisk, skips blank
  lines, and otherwise hands the remaining lines to parseUpdateFileChunk.
\<close>

function update_chunk_loop ::
  "string list \<Rightarrow> nat \<Rightarrow> nat \<Rightarrow> UpdateFileChunk list \<Rightarrow> (ParseError, UpdateFileChunk list \<times> nat) result" where
  "update_chunk_loop remaining lineNumber parsed chunks =
     (case remaining of
        [] \<Rightarrow> Inr (chunks, parsed)
      | l # rest \<Rightarrow>
          if TrimSpace l = [] then update_chunk_loop rest lineNumber (parsed + 1) chunks
          else if HasPrefix l ''*'' then Inr (chunks, parsed)
          else (case parseUpdateFileChunk remaining (lineNumber + parsed) (chunks = []) of
                  Inl err \<Rightarrow> Inl err
                | Inr (chunk, chunkLines) \<Rightarrow>
                    (case go_from remaining chunkLines of
                       None \<Rightarrow> Inl parse_panic
                     | Some remaining' \<Rightarrow>
                         update_chunk_loop remaining' lineNumber (parsed + chunkLines) (chunks @ [chunk]))))"
  by pat_completeness auto
termination
  by (relation "measure (\<lambda>(remaining, _). length remaining)")
    (auto simp: go_from_eq dest: parseUpdateFileChunk_consumed(1) split: if_splits)

declare update_chunk_loop.simps [simp del]

lemma update_chunk_loop_eq:
  "update_chunk_loop remaining lineNumber parsed chunks =
     (case remaining of
        [] \<Rightarrow> Inr (chunks, parsed)
      | l # rest \<Rightarrow>
          if TrimSpace l = [] then update_chunk_loop rest lineNumber (parsed + 1) chunks
          else if HasPrefix l ''*'' then Inr (chunks, parsed)
          else (case parseUpdateFileChunk remaining (lineNumber + parsed) (chunks = []) of
                  Inl err \<Rightarrow> Inl err
                | Inr (chunk, chunkLines) \<Rightarrow>
                    update_chunk_loop (drop chunkLines remaining) lineNumber (parsed + chunkLines) (chunks @ [chunk])))"
  by (subst update_chunk_loop.simps)
    (auto dest: parseUpdateFileChunk_consumed(2) split: list.split sum.split)

text \<open>parseOneHunk returns the hunk and the number of lines consumed; it reads the first line unconditionally.\<close>

definition parseOneHunk ::
  "string list \<Rightarrow> nat \<Rightarrow> (ParseError, Hunk \<times> nat) result" where
  "parseOneHunk lines lineNumber =
     (case lines of
        [] \<Rightarrow> Inl parse_panic
      | line0 # rest \<Rightarrow>
      let firstLine = TrimSpace line0 in
      case CutPrefix firstLine addFileMarker of
        Some path \<Rightarrow>
          (case add_line_loop rest [] 1 of
             (contents, parsed) \<Rightarrow>
               Inr (\<lparr>hunkKind = HunkAddFile, hunkPath = path, hunkContents = contents,
                     hunkMovePath = [], hunkHasMovePath = False, hunkChunks = []\<rparr>, parsed))
      | None \<Rightarrow>
      (case CutPrefix firstLine deleteFileMarker of
        Some path \<Rightarrow>
          Inr (\<lparr>hunkKind = HunkDeleteFile, hunkPath = path, hunkContents = [],
                hunkMovePath = [], hunkHasMovePath = False, hunkChunks = []\<rparr>, 1)
      | None \<Rightarrow>
      (case CutPrefix firstLine updateFileMarker of
        Some path \<Rightarrow>
          (let (movePath, hasMovePath, remaining, parsed) =
             (case rest of
                [] \<Rightarrow> ([], False, rest, 1)
              | r # rs \<Rightarrow>
                  (case CutPrefix r moveToMarker of
                     Some dest \<Rightarrow> (dest, True, rs, 2)
                   | None \<Rightarrow> ([], False, rest, 1))) in
           bind_res (update_chunk_loop remaining lineNumber parsed [])
             (\<lambda>(chunks, parsed').
               if chunks = [] then
                 Inl (newInvalidHunkError
                   (''Update file hunk for path '' @ sq @ displayPath path @ sq @ '' is empty'') lineNumber)
               else
                 Inr (\<lparr>hunkKind = HunkUpdateFile, hunkPath = path, hunkContents = [],
                       hunkMovePath = movePath, hunkHasMovePath = hasMovePath, hunkChunks = chunks\<rparr>,
                      parsed')))
      | None \<Rightarrow>
          Inl (newInvalidHunkError
            (sq @ firstLine @ sq @ '' is not a valid hunk header. Valid hunk headers: '' @
             sq @ ''*** Add File: {path}'' @ sq @ '', '' @ sq @ ''*** Delete File: {path}'' @ sq @ '', '' @
             sq @ ''*** Update File: {path}'' @ sq)
            lineNumber))))"

lemma add_line_loop_parsed:
  "add_line_loop lines c p = (c', k) \<Longrightarrow> p \<le> k \<and> k \<le> p + length lines"
  by (induction lines c p rule: add_line_loop.induct) (fastforce split: option.splits)+

lemma update_chunk_loop_parsed:
  "update_chunk_loop lines n p cs = Inr (cs', k) \<Longrightarrow> p \<le> k \<and> k \<le> p + length lines"
proof (induction lines n p cs rule: update_chunk_loop.induct)
  case (1 remaining lineNumber parsed chunks)
  show ?case
  proof (cases remaining)
    case Nil
    with "1.prems" show ?thesis by (simp add: update_chunk_loop.simps)
  next
    case (Cons l rest)
    note unfold = "1.prems" [unfolded update_chunk_loop_eq [of remaining]]
    show ?thesis
    proof (cases "TrimSpace l = []")
      case True
      with Cons unfold "1.IH"(1) show ?thesis by fastforce
    next
      case nonblank: False
      show ?thesis
      proof (cases "HasPrefix l ''*''")
        case True
        with Cons nonblank unfold show ?thesis by simp
      next
        case False
        with Cons nonblank unfold obtain c m where
          c: "parseUpdateFileChunk remaining (lineNumber + parsed) (chunks = []) = Inr (c, m)" and
          rec: "update_chunk_loop (drop m remaining) lineNumber (parsed + m) (chunks @ [c]) = Inr (cs', k)"
          by (auto split: sum.splits prod.splits)
        have "go_from remaining m = Some (drop m remaining)" using parseUpdateFileChunk_consumed(2) [OF c] by simp
        from "1.IH"(2) [OF Cons nonblank False c refl this rec] parseUpdateFileChunk_consumed [OF c]
        show ?thesis by auto
      qed
    qed
  qed
qed

lemma parseOneHunk_consumed:
  assumes "parseOneHunk lines n = Inr (h, k)"
  shows "0 < k" and "k \<le> length lines"
proof -
  have "0 < k \<and> k \<le> length lines"
    using assms
    by (auto simp: parseOneHunk_def Let_def bind_res_Inr_iff
        dest!: add_line_loop_parsed update_chunk_loop_parsed
        split: option.splits prod.splits if_splits list.splits)
  then show "0 < k" and "k \<le> length lines" by simp_all
qed

section \<open>The whole envelope\<close>

function hunk_loop :: "string list \<Rightarrow> nat \<Rightarrow> Hunk list \<Rightarrow> (ParseError, Hunk list) result" where
  "hunk_loop remaining lineNumber hunks =
     (case remaining of
        [] \<Rightarrow> Inr hunks
      | l # rest \<Rightarrow>
          (case parseOneHunk remaining lineNumber of
             Inl err \<Rightarrow> Inl err
           | Inr (hunk, consumed) \<Rightarrow>
               (case go_from remaining consumed of
                  None \<Rightarrow> Inl parse_panic
                | Some remaining' \<Rightarrow> hunk_loop remaining' (lineNumber + consumed) (hunks @ [hunk]))))"
  by pat_completeness auto
termination
  by (relation "measure (\<lambda>(remaining, _). length remaining)")
    (auto simp: go_from_eq dest: parseOneHunk_consumed(1) split: if_splits)

declare hunk_loop.simps [simp del]

lemma hunk_loop_eq:
  "hunk_loop remaining lineNumber hunks =
     (case remaining of
        [] \<Rightarrow> Inr hunks
      | l # rest \<Rightarrow>
          (case parseOneHunk remaining lineNumber of
             Inl err \<Rightarrow> Inl err
           | Inr (hunk, consumed) \<Rightarrow> hunk_loop (drop consumed remaining) (lineNumber + consumed) (hunks @ [hunk])))"
  by (subst hunk_loop.simps) (auto dest: parseOneHunk_consumed(2) split: list.split sum.split)

definition parsePatchText :: "string \<Rightarrow> parseMode \<Rightarrow> (ParseError, ParseResult) result" where
  "parsePatchText patch mode =
     (let lines = splitLines (TrimSpace patch) in
      bind_res
        (case mode of
           parseModeStrict \<Rightarrow> checkPatchBoundariesStrict lines
         | parseModeLenient \<Rightarrow> checkPatchBoundariesLenient lines)
        (\<lambda>(patchLines, hunkLines).
          bind_res (parseEnvironmentIDPreamble hunkLines)
            (\<lambda>(environmentID, remaining, lineNumber).
              bind_res (hunk_loop remaining lineNumber [])
                (\<lambda>hunks. Inr \<lparr>prPatch = join nl patchLines, prHunks = hunks, prWorkdir = None,
                               prEnvironmentID = environmentID\<rparr>))))"

definition ParsePatch :: "string \<Rightarrow> (ParseError, ParseResult) result" where
  "ParsePatch patch = parsePatchText patch parseModeLenient"

end
