(* ===== verification/Patch_Roundtrip.thy ===== *)
theory Patch_Roundtrip
  imports Patch_Parser
begin

text \<open>
  Correctness of the envelope parser of theory \<open>Patch_Parser\<close>: a printer for parsed patches with
  the round trip through ParsePatch, the range of reported line numbers, and the lenient heredoc
  mode.
\<close>

section \<open>Trimming keeps plain text\<close>

lemma decode_last_rune_full_width:
  assumes "plain_char c" and "snd (decode_last_rune (c # cs)) = length (c # cs)"
  shows "cs = []"
proof (rule ccontr)
  assume "cs \<noteq> []"
  then have "length (c # cs) \<ge> 2" by (cases cs) auto
  with assms(2) obtain k r where
    k: "k = length (c # cs)" and dec: "decode_rune (drop (length (c # cs) - k) (c # cs)) = (r, k)"
    by (auto simp: decode_last_rune_def split: if_splits option.splits prod.splits)
  from k dec have "decode_rune (c # cs) = (r, k)" by simp
  with assms(1) have "k = 1" by (simp add: plain_char_def decode_rune_ascii)
  with k \<open>cs \<noteq> []\<close> show False by simp
qed

lemma trim_right_func_plain_head: "plain_char c \<Longrightarrow> trim_right_func is_space (c # cs) \<noteq> []"
proof (induction "length cs" arbitrary: cs rule: less_induct)
  case less
  obtain r w where rw: "decode_last_rune (c # cs) = (r, w)" by fastforce
  show ?case
  proof (cases "is_space r")
    case True
    have "w \<noteq> length (c # cs)"
    proof
      assume "w = length (c # cs)"
      with rw decode_last_rune_full_width [OF less.prems, of cs] have "cs = []" by simp
      with rw less.prems have "r = byte c"
        by (simp add: decode_last_rune_def plain_char_def)
      with True less.prems show False by (simp add: plain_char_def)
    qed
    moreover have "0 < w" and "w \<le> length (c # cs)"
      using decode_last_rune_width_pos [of "c # cs"] decode_last_rune_width_le [of "c # cs"] rw
      by auto
    ultimately have take: "take (length (c # cs) - w) (c # cs) = c # take (length cs - w) cs"
      and less': "length (take (length cs - w) cs) < length cs"
      by (auto simp: take_Cons' Suc_diff_le)
    have "trim_right_func is_space (c # cs) = trim_right_func is_space (c # take (length cs - w) cs)"
      using rw True take by (subst trim_right_func.simps) simp
    with less.hyps [OF less' less.prems] show ?thesis by simp
  next
    case False
    with rw show ?thesis by (subst trim_right_func.simps) simp
  qed
qed

lemma TrimSpace_plain_head: "plain_char c \<Longrightarrow> TrimSpace (c # cs) \<noteq> []"
  by (simp add: TrimSpace_def trim_left_func_plain trim_right_func_plain_head)

lemma plain_star: "plain_char CHR ''*''" and plain_at: "plain_char CHR ''@''"
  and plain_h: "plain_char CHR ''h''"
  by (simp_all add: plain_char_def is_space_def)

section \<open>A printer for parsed patches\<close>

definition content_lines :: "string \<Rightarrow> string list" where
  "content_lines c = drop_trailing_empty (split_on newline c)"

text \<open>
  The lines of a chunk: what the old and the new lines start with in common is printed as context, an
  empty context line as an empty line, the rest as removed and added lines.
\<close>

fun body_lines :: "string list \<Rightarrow> string list \<Rightarrow> string list" where
  "body_lines (old # olds) (new # news) =
     (if old = new then (if old = [] then [] else CHR '' '' # old) # body_lines olds news
      else map ((#) CHR ''-'') (old # olds) @ map ((#) CHR ''+'') (new # news))"
| "body_lines olds news = map ((#) CHR ''-'') olds @ map ((#) CHR ''+'') news"

definition print_chunk :: "UpdateFileChunk \<Rightarrow> string list" where
  "print_chunk c =
     (if HasChangeContext c then changeContextMarker @ ChangeContext c else emptyChangeContextMarker)
     # body_lines (OldLines c) (NewLines c) @ (if IsEndOfFile c then [eofMarker] else [])"

definition print_hunk :: "Hunk \<Rightarrow> string list" where
  "print_hunk h =
     (case hunkKind h of
        HunkAddFile \<Rightarrow> (addFileMarker @ hunkPath h) # map ((#) CHR ''+'') (content_lines (hunkContents h))
      | HunkDeleteFile \<Rightarrow> [deleteFileMarker @ hunkPath h]
      | HunkUpdateFile \<Rightarrow>
          (updateFileMarker @ hunkPath h)
          # (if hunkHasMovePath h then [moveToMarker @ hunkMovePath h] else [])
          @ concat (map print_chunk (hunkChunks h)))"

definition print_lines :: "string option \<Rightarrow> Hunk list \<Rightarrow> string list" where
  "print_lines env hs =
     beginPatchMarker
     # (case env of None \<Rightarrow> [] | Some i \<Rightarrow> [environmentIDMarker @ i])
     @ concat (map print_hunk hs) @ [endPatchMarker]"

definition print_patch :: "string option \<Rightarrow> Hunk list \<Rightarrow> string" where
  "print_patch env hs = join nl (print_lines env hs)"

text \<open>The patches that have a textual form: every printed line is one line.\<close>

definition wf_line :: "string \<Rightarrow> bool" where
  "wf_line l \<longleftrightarrow> newline \<notin> set l \<and> \<not> HasSuffix l [CHR 0x0D]"

definition wf_path :: "string \<Rightarrow> string \<Rightarrow> bool" where
  "wf_path m p \<longleftrightarrow> wf_line p \<and> TrimSpace (m @ p) = m @ p"

definition wf_contents :: "string \<Rightarrow> bool" where
  "wf_contents c \<longleftrightarrow> (c = [] \<or> last c = newline) \<and> list_all wf_line (content_lines c)"

definition wf_chunk :: "UpdateFileChunk \<Rightarrow> bool" where
  "wf_chunk c \<longleftrightarrow>
     wf_line (ChangeContext c) \<and> (\<not> HasChangeContext c \<longrightarrow> ChangeContext c = [])
     \<and> list_all wf_line (OldLines c) \<and> list_all wf_line (NewLines c) \<and> OldLines c @ NewLines c \<noteq> []"

definition wf_hunk :: "Hunk \<Rightarrow> bool" where
  "wf_hunk h \<longleftrightarrow>
     (case hunkKind h of
        HunkAddFile \<Rightarrow>
          wf_path addFileMarker (hunkPath h) \<and> wf_contents (hunkContents h)
          \<and> hunkMovePath h = [] \<and> \<not> hunkHasMovePath h \<and> hunkChunks h = []
      | HunkDeleteFile \<Rightarrow>
          wf_path deleteFileMarker (hunkPath h) \<and> hunkContents h = []
          \<and> hunkMovePath h = [] \<and> \<not> hunkHasMovePath h \<and> hunkChunks h = []
      | HunkUpdateFile \<Rightarrow>
          wf_path updateFileMarker (hunkPath h) \<and> hunkContents h = []
          \<and> wf_line (hunkMovePath h) \<and> (\<not> hunkHasMovePath h \<longrightarrow> hunkMovePath h = [])
          \<and> hunkChunks h \<noteq> [] \<and> list_all wf_chunk (hunkChunks h))"

definition wf_env :: "string option \<Rightarrow> bool" where
  "wf_env env \<longleftrightarrow> (case env of None \<Rightarrow> True | Some i \<Rightarrow> i \<noteq> [] \<and> wf_line i \<and> TrimSpace i = i)"

section \<open>Parsing a printed chunk\<close>

lemma firstRune_empty: "firstRune [] = None"
  by (simp add: firstRune_def)

lemma firstRune_ascii: "byte c < 0x80 \<Longrightarrow> firstRune (c # cs) = Some (byte c)"
  by (simp add: firstRune_def decode_rune_ascii)

text \<open>Lines at which the chunk loop stops once it has read a line.\<close>

definition chunk_stop :: "string list \<Rightarrow> bool" where
  "chunk_stop rest \<longleftrightarrow>
     (case rest of [] \<Rightarrow> True
      | l # _ \<Rightarrow> l \<noteq> eofMarker \<and> (\<exists>cs. l = CHR ''*'' # cs \<or> l = CHR ''@'' # cs))"

lemma chunk_line_loop_old:
  "chunk_line_loop (map ((#) CHR ''-'') os @ rest) n p c =
   chunk_line_loop rest n (p + length os) (c\<lparr>OldLines := OldLines c @ os\<rparr>)"
  by (induction os arbitrary: p c) (simp_all add: chunk_line_loop.simps firstRune_ascii eofMarker_def)

lemma chunk_line_loop_new:
  "chunk_line_loop (map ((#) CHR ''+'') ns @ rest) n p c =
   chunk_line_loop rest n (p + length ns) (c\<lparr>NewLines := NewLines c @ ns\<rparr>)"
  by (induction ns arbitrary: p c) (simp_all add: chunk_line_loop.simps firstRune_ascii eofMarker_def)

lemma chunk_line_loop_body:
  "chunk_line_loop (body_lines os ns @ rest) n p c =
   chunk_line_loop rest n (p + length (body_lines os ns)) (c\<lparr>OldLines := OldLines c @ os, NewLines := NewLines c @ ns\<rparr>)"
proof (induction os ns arbitrary: p c rule: body_lines.induct)
  case (1 old olds new news)
  show ?case
  proof (cases "old = new")
    case True
    then show ?thesis
      using "1.IH" by (cases "new = []")
        (simp_all add: chunk_line_loop.simps firstRune_ascii firstRune_empty eofMarker_def)
  next
    case False
    then have body: "body_lines (old # olds) (new # news) =
        map ((#) CHR ''-'') (old # olds) @ map ((#) CHR ''+'') (new # news)" by (simp only: body_lines.simps if_False)
    show ?thesis unfolding body append_assoc chunk_line_loop_old chunk_line_loop_new by (simp add: add.assoc)
  qed
qed (simp_all only: body_lines.simps append_assoc chunk_line_loop_old chunk_line_loop_new, simp_all)

lemma body_lines_nonempty: "os @ ns \<noteq> [] \<Longrightarrow> body_lines os ns \<noteq> []"
  by (induction os ns rule: body_lines.induct) auto

lemma chunk_line_loop_eof:
  "0 < p \<Longrightarrow> chunk_line_loop (eofMarker # rest) n p c = Inr (c\<lparr>IsEndOfFile := True\<rparr>, p + 1)"
  by (simp add: chunk_line_loop.simps)

lemma chunk_line_loop_stop:
  "0 < p \<Longrightarrow> chunk_stop rest \<Longrightarrow> chunk_line_loop rest n p c = Inr (c, p)"
  by (cases rest) (auto simp: chunk_stop_def chunk_line_loop.simps firstRune_ascii)

lemma chunk_body_parses:
  assumes "OldLines c @ NewLines c \<noteq> []" and "chunk_stop rest"
  shows "chunk_line_loop (body_lines (OldLines c) (NewLines c)
           @ (if IsEndOfFile c then [eofMarker] else []) @ rest) n 0
           (empty_chunk (ChangeContext c) (HasChangeContext c)) =
         Inr (c, length (print_chunk c) - 1)"
proof -
  have pos: "0 < length (body_lines (OldLines c) (NewLines c))"
    using body_lines_nonempty [OF assms(1)] by simp
  show ?thesis
    using pos assms(2)
    by (cases c) (simp add: chunk_line_loop_body chunk_line_loop_eof
        chunk_line_loop_stop print_chunk_def empty_chunk_def)
qed

lemma parse_printed_chunk:
  assumes "wf_chunk c" and "chunk_stop rest"
  shows "parseUpdateFileChunk (print_chunk c @ rest) n a = Inr (c, length (print_chunk c))"
proof -
  let ?body = "body_lines (OldLines c) (NewLines c) @ (if IsEndOfFile c then [eofMarker] else []) @ rest"
  have ne: "OldLines c @ NewLines c \<noteq> []" and ctx: "\<not> HasChangeContext c \<Longrightarrow> ChangeContext c = []"
    using assms(1) by (auto simp: wf_chunk_def)
  have body: "chunk_line_loop ?body n 0 (empty_chunk (ChangeContext c) (HasChangeContext c)) =
      Inr (c, length (print_chunk c) - 1)"
    using chunk_body_parses [OF ne assms(2)] .
  have nonempty: "?body \<noteq> []" using body_lines_nonempty [OF ne] by auto
  have marker: "changeContextMarker @ x \<noteq> emptyChangeContextMarker" for x
    by (simp add: markers)
  have hasp: "HasPrefix (changeContextMarker @ x) changeContextMarker" for x
    by (auto simp: HasPrefix_iff)
  show ?thesis
    using body nonempty ctx
    by (cases "HasChangeContext c") (auto simp: parseUpdateFileChunk_def print_chunk_def marker hasp)
qed

section \<open>Parsing printed hunks\<close>

definition header_rest :: "string list \<Rightarrow> bool" where
  "header_rest rest \<longleftrightarrow>
     (case rest of [] \<Rightarrow> True
      | l # _ \<Rightarrow> \<exists>p. l = addFileMarker @ p \<or> l = deleteFileMarker @ p \<or> l = updateFileMarker @ p)"

lemma header_rest_stop: "header_rest rest \<Longrightarrow> chunk_stop rest"
  by (cases rest) (auto simp: header_rest_def chunk_stop_def markers)

lemma header_rest_star: "header_rest (l # ls) \<Longrightarrow> \<exists>cs. l = CHR ''*'' # cs"
  by (auto simp: header_rest_def markers)

lemma print_chunk_Cons: "\<exists>cs ls. print_chunk c = (CHR ''@'' # cs) # ls"
  by (simp add: print_chunk_def markers)

lemma chunk_stop_print_chunks:
  "header_rest rest \<Longrightarrow> chunk_stop (concat (map print_chunk cs) @ rest)"
proof (cases cs)
  case Nil
  then show "header_rest rest \<Longrightarrow> ?thesis" by (simp add: header_rest_stop)
next
  case (Cons c cs')
  obtain x ls where "print_chunk c = (CHR ''@'' # x) # ls" using print_chunk_Cons by blast
  with Cons show ?thesis by (simp add: chunk_stop_def eofMarker_def)
qed

lemma update_chunk_loop_printed:
  assumes "list_all wf_chunk cs" and "header_rest rest"
  shows "update_chunk_loop (concat (map print_chunk cs) @ rest) n p acc =
         Inr (acc @ cs, p + length (concat (map print_chunk cs)))"
  using assms(1)
proof (induction cs arbitrary: p acc)
  case Nil
  show ?case
  proof (cases rest)
    case Nil
    then show ?thesis by (simp add: update_chunk_loop_eq)
  next
    case (Cons l ls)
    with assms(2) header_rest_star obtain x where "l = CHR ''*'' # x" by blast
    with Cons show ?thesis
      by (simp add: update_chunk_loop_eq TrimSpace_plain_head plain_star HasPrefix_iff)
  qed
next
  case (Cons c cs)
  let ?rest = "concat (map print_chunk cs) @ rest"
  obtain x ls where pc: "print_chunk c = (CHR ''@'' # x) # ls" using print_chunk_Cons by blast
  have "parseUpdateFileChunk (print_chunk c @ ?rest) (n + p) (acc = []) = Inr (c, length (print_chunk c))"
    using Cons.prems assms(2) by (simp add: parse_printed_chunk chunk_stop_print_chunks)
  then have "update_chunk_loop (print_chunk c @ ?rest) n p acc =
      update_chunk_loop ?rest n (p + length (print_chunk c)) (acc @ [c])"
    using pc by (subst update_chunk_loop_eq)
      (simp add: TrimSpace_plain_head plain_at HasPrefix_iff)
  with Cons show ?case by simp
qed

lemma add_line_loop_printed:
  assumes "header_rest rest"
  shows "add_line_loop (map ((#) CHR ''+'') ls @ rest) c p =
         (c @ concat (map (\<lambda>l. l @ nl) ls), p + length ls)"
proof (induction ls arbitrary: c p)
  case Nil
  with assms show ?case
    by (cases rest) (auto simp: header_rest_def markers)
next
  case (Cons l ls)
  then show ?case by simp
qed

lemma content_lines_concat:
  assumes "c = [] \<or> last c = newline"
  shows "concat (map (\<lambda>l. l @ nl) (content_lines c)) = c"
proof -
  have key: "concat (map (\<lambda>l. l @ nl) xs) = join nl (xs @ [[]])" for xs :: "string list"
    by (induction xs) (simp_all add: join_Cons)
  have last_split: "c = [] \<or> last c = newline \<Longrightarrow> last (split_on newline c) = []" for c
  proof (induction c)
    case Nil
    then show ?case by simp
  next
    case (Cons a c)
    have "split_on newline c = [[]] \<Longrightarrow> c = []"
      by (metis join.simps(2) join_split_on)
    with Cons show ?case by (auto split: list.splits if_splits)
  qed
  have "split_on newline c = butlast (split_on newline c) @ [[]]"
    using last_split [OF assms] split_on_nonempty by (metis append_butlast_last_id)
  then have "content_lines c @ [[]] = split_on newline c"
    using last_split [OF assms] by (simp add: content_lines_def drop_trailing_empty_def)
  with key [of "content_lines c"] show ?thesis by (simp add: join_split_on)
qed

lemma print_hunk_Cons: "print_hunk h = hd (print_hunk h) # tl (print_hunk h)"
  by (simp add: print_hunk_def split: HunkKind.splits)

lemma header_rest_print_hunks: "header_rest (concat (map print_hunk hs))"
  by (cases hs) (auto simp: header_rest_def print_hunk_def split: HunkKind.splits)

lemma parse_printed_hunk:
  assumes "wf_hunk h" and "header_rest rest"
  shows "parseOneHunk (print_hunk h @ rest) n = Inr (h, length (print_hunk h))"
proof (cases "hunkKind h")
  case HunkAddFile
  with assms show ?thesis
    by (cases h) (simp add: parseOneHunk_def print_hunk_def wf_hunk_def wf_path_def wf_contents_def
        add_line_loop_printed content_lines_concat)
next
  case HunkDeleteFile
  then have t: "TrimSpace (deleteFileMarker @ hunkPath h) = deleteFileMarker @ hunkPath h"
    using assms(1) by (simp add: wf_hunk_def wf_path_def)
  have "CutPrefix (deleteFileMarker @ hunkPath h) addFileMarker = None" by (simp add: markers)
  with t HunkDeleteFile assms show ?thesis
    by (cases h) (simp add: parseOneHunk_def print_hunk_def wf_hunk_def)
next
  case HunkUpdateFile
  then have t: "TrimSpace (updateFileMarker @ hunkPath h) = updateFileMarker @ hunkPath h"
    using assms(1) by (simp add: wf_hunk_def wf_path_def)
  have not_add: "CutPrefix (updateFileMarker @ hunkPath h) addFileMarker = None"
    and not_del: "CutPrefix (updateFileMarker @ hunkPath h) deleteFileMarker = None"
    by (simp_all add: markers)
  have wf: "list_all wf_chunk (hunkChunks h)" "hunkChunks h \<noteq> []"
    using HunkUpdateFile assms(1) by (simp_all add: wf_hunk_def)
  note loop = update_chunk_loop_printed [OF wf(1) assms(2)]
  obtain c cs where "hunkChunks h = c # cs" using wf(2) by (cases "hunkChunks h") auto
  moreover obtain x ls where "print_chunk c = (CHR ''@'' # x) # ls" using print_chunk_Cons by blast
  ultimately have chunks: "concat (map print_chunk (hunkChunks h)) =
      (CHR ''@'' # x) # ls @ concat (map print_chunk cs)" by simp
  have not_move: "CutPrefix (CHR ''@'' # x) moveToMarker = None" by (simp add: markers)
  show ?thesis
  proof (cases "hunkHasMovePath h")
    case True
    with HunkUpdateFile assms t not_add not_del wf loop show ?thesis
      by (cases h) (simp add: parseOneHunk_def print_hunk_def wf_hunk_def)
  next
    case False
    with HunkUpdateFile assms t not_add not_del wf loop [of n 1 "[]"] chunks not_move show ?thesis
      by (cases h) (simp add: parseOneHunk_def print_hunk_def wf_hunk_def)
  qed
qed

lemma hunk_loop_printed:
  "list_all wf_hunk hs \<Longrightarrow> hunk_loop (concat (map print_hunk hs)) n acc = Inr (acc @ hs)"
proof (induction hs arbitrary: n acc)
  case Nil
  then show ?case by (simp add: hunk_loop_eq)
next
  case (Cons h hs)
  let ?rest = "concat (map print_hunk hs)"
  have p: "parseOneHunk (print_hunk h @ ?rest) n = Inr (h, length (print_hunk h))"
    using Cons.prems by (simp add: parse_printed_hunk header_rest_print_hunks)
  obtain x xs where ph: "print_hunk h = x # xs" using print_hunk_Cons by blast
  have "hunk_loop (print_hunk h @ ?rest) n acc =
      hunk_loop ?rest (n + length (print_hunk h)) (acc @ [h])"
    using p unfolding ph by (subst hunk_loop_eq) simp
  with Cons show ?case by simp
qed

section \<open>The round trip\<close>

lemma splitLines_join:
  assumes "list_all wf_line ls" and "ls \<noteq> []" and "last ls \<noteq> []"
  shows "splitLines (join nl ls) = ls"
proof -
  have nosep: "\<forall>x \<in> set ls. newline \<notin> set x"
    using assms(1) by (auto simp: list_all_iff wf_line_def)
  have ne: "join nl ls \<noteq> []"
  proof (cases ls)
    case (Cons x xs)
    with assms(3) show ?thesis by (cases xs) auto
  qed (simp add: assms(2))
  have trim: "map (\<lambda>line. TrimSuffix line [CHR 0x0D]) ls = ls"
    using assms(1) by (intro map_idI) (auto simp: list_all_iff wf_line_def TrimSuffix_def)
  show ?thesis
    using ne trim assms(2,3) split_on_join [OF assms(2) nosep]
    by (simp add: splitLines_def drop_trailing_empty_def)
qed

lemma wf_line_Cons: "c \<noteq> newline \<Longrightarrow> c \<noteq> CHR 0x0D \<Longrightarrow> wf_line l \<Longrightarrow> wf_line (c # l)"
  by (cases l rule: rev_cases) (auto simp: wf_line_def HasSuffix_iff)

lemma wf_line_marker:
  "wf_line l \<Longrightarrow> wf_line (addFileMarker @ l)"
  "wf_line l \<Longrightarrow> wf_line (deleteFileMarker @ l)"
  "wf_line l \<Longrightarrow> wf_line (updateFileMarker @ l)"
  "wf_line l \<Longrightarrow> wf_line (moveToMarker @ l)"
  "wf_line l \<Longrightarrow> wf_line (environmentIDMarker @ l)"
  "wf_line l \<Longrightarrow> wf_line (changeContextMarker @ l)"
  "wf_line l \<Longrightarrow> wf_line (CHR ''+'' # l)"
  "wf_line l \<Longrightarrow> wf_line (CHR ''-'' # l)"
  by (simp_all add: markers wf_line_Cons)

lemma wf_line_const:
  "wf_line beginPatchMarker" "wf_line endPatchMarker" "wf_line eofMarker"
  "wf_line emptyChangeContextMarker" "wf_line moveToMarker"
  by (simp_all add: wf_line_def markers HasSuffix_def HasPrefix_def)

lemma wf_line_body: "list_all wf_line os \<Longrightarrow> list_all wf_line ns \<Longrightarrow> list_all wf_line (body_lines os ns)"
  by (induction os ns rule: body_lines.induct) (auto simp: list_all_iff wf_line_Cons)

lemma wf_line_print_chunk: "wf_chunk c \<Longrightarrow> list_all wf_line (print_chunk c)"
  using wf_line_body [of "OldLines c" "NewLines c"]
  by (auto simp: wf_chunk_def print_chunk_def list_all_iff wf_line_marker wf_line_const)

lemma wf_line_print_hunk: "wf_hunk h \<Longrightarrow> list_all wf_line (print_hunk h)"
  using wf_line_print_chunk
  by (cases "hunkKind h")
    (auto simp: wf_hunk_def print_hunk_def list_all_iff wf_line_marker wf_line_const
      wf_path_def wf_contents_def)

lemma wf_line_print_lines:
  "wf_env env \<Longrightarrow> list_all wf_hunk hs \<Longrightarrow> list_all wf_line (print_lines env hs)"
  using wf_line_print_hunk
  by (auto simp: print_lines_def list_all_iff wf_line_const wf_line_marker wf_env_def split: option.splits)

lemma TrimSpace_print_patch: "TrimSpace (print_patch env hs) = print_patch env hs"
proof -
  let ?ls = "(case env of None \<Rightarrow> [] | Some i \<Rightarrow> [environmentIDMarker @ i]) @ concat (map print_hunk hs)"
  have "join nl (ls @ [endPatchMarker]) = concat (map (\<lambda>l. l @ nl) ls) @ endPatchMarker" for ls
    by (induction ls) (simp_all add: join_Cons)
  from this [of "beginPatchMarker # ?ls"]
  have "print_patch env hs = CHR ''*'' # (tl beginPatchMarker @ nl
      @ concat (map (\<lambda>l. l @ nl) ?ls) @ butlast endPatchMarker) @ ''h''"
    by (simp add: print_patch_def print_lines_def markers)
  then show ?thesis by (simp add: TrimSpace_plain plain_star plain_h)
qed

text \<open>The boundary checks leave at least two lines, so the slice between them is in range.\<close>

lemma go_slice_inner: "2 \<le> length ls \<Longrightarrow> go_slice ls 1 (length ls - 1) = Some (butlast (tl ls))"
  by (auto simp: go_slice_def butlast_conv_take drop_Suc take_tl)

lemma boundaries_two_lines:
  assumes "checkStartAndEndLinesStrict (if ls = [] then None else Some (hd ls))
     (if ls = [] then None else Some (last ls)) = None"
  shows "2 \<le> length ls"
proof -
  have "TrimSpace l = beginPatchMarker \<Longrightarrow> TrimSpace l \<noteq> endPatchMarker" for l by (simp add: markers)
  with assms show ?thesis
    by (cases ls; cases "tl ls") (auto simp: checkStartAndEndLinesStrict_def Let_def split: if_splits)
qed

lemma checkPatchBoundariesStrict_eq:
  "checkPatchBoundariesStrict ls =
     (case checkStartAndEndLinesStrict (if ls = [] then None else Some (hd ls))
        (if ls = [] then None else Some (last ls)) of
        Some err \<Rightarrow> Inl err
      | None \<Rightarrow> Inr (ls, butlast (tl ls)))"
proof (cases "checkStartAndEndLinesStrict (if ls = [] then None else Some (hd ls))
     (if ls = [] then None else Some (last ls))")
  case None
  from boundaries_two_lines [OF this] None show ?thesis
    by (simp add: checkPatchBoundariesStrict_def Let_def go_slice_inner del: One_nat_def)
qed (simp add: checkPatchBoundariesStrict_def Let_def)

lemma checkPatchBoundariesLenient_eq:
  "checkPatchBoundariesLenient ls =
     (case checkPatchBoundariesStrict ls of
        Inr r \<Rightarrow> Inr r
      | Inl strictErr \<Rightarrow>
          if hd ls \<in> set heredoc_openers \<and> HasSuffix (last ls) ''EOF'' \<and> 4 \<le> length ls
          then checkPatchBoundariesStrict (butlast (tl ls))
          else Inl strictErr)"
  by (auto simp: checkPatchBoundariesLenient_def go_slice_inner simp del: One_nat_def split: sum.split)

lemma boundaries_print_lines:
  "checkPatchBoundariesStrict (print_lines env hs) =
     Inr (print_lines env hs,
          (case env of None \<Rightarrow> [] | Some i \<Rightarrow> [environmentIDMarker @ i]) @ concat (map print_hunk hs))"
proof -
  have "TrimSpace beginPatchMarker = beginPatchMarker" and "TrimSpace endPatchMarker = endPatchMarker"
    by (simp_all add: markers TrimSpace_plain plain_star plain_h plain_char_def is_space_def)
  then show ?thesis
    by (simp add: checkPatchBoundariesStrict_eq checkStartAndEndLinesStrict_def print_lines_def
        butlast_append)
qed

lemma preamble_header_rest:
  assumes "header_rest rest"
  shows "parseEnvironmentIDPreamble rest = Inr (None, rest, 2)"
proof (cases rest)
  case (Cons l ls)
  with assms obtain p where
    "l = addFileMarker @ p \<or> l = deleteFileMarker @ p \<or> l = updateFileMarker @ p"
    by (auto simp: header_rest_def)
  then have "CutPrefix (trim_left_func is_space l) environmentIDMarker = None"
    by (auto simp: markers trim_left_func_plain plain_star)
  with Cons show ?thesis by (simp add: parseEnvironmentIDPreamble_def)
qed (simp add: parseEnvironmentIDPreamble_def)

lemma preamble_printed:
  assumes "wf_env env"
  shows "\<exists>n. parseEnvironmentIDPreamble
     ((case env of None \<Rightarrow> [] | Some i \<Rightarrow> [environmentIDMarker @ i]) @ concat (map print_hunk hs)) =
     Inr (env, concat (map print_hunk hs), n)"
proof (cases env)
  case (Some i)
  have "trim_left_func is_space (environmentIDMarker @ i) = environmentIDMarker @ i"
    by (simp add: environmentIDMarker_def trim_left_func_plain plain_star)
  with Some assms show ?thesis by (simp add: parseEnvironmentIDPreamble_def wf_env_def)
next
  case None
  then show ?thesis by (simp add: preamble_header_rest header_rest_print_hunks)
qed

lemma parsePatchText_printed:
  assumes "wf_env env" and "list_all wf_hunk hs"
  shows "parsePatchText (print_patch env hs) mode =
     Inr \<lparr>prPatch = print_patch env hs, prHunks = hs, prWorkdir = None, prEnvironmentID = env\<rparr>"
proof -
  have lines: "splitLines (TrimSpace (print_patch env hs)) = print_lines env hs"
    unfolding TrimSpace_print_patch unfolding print_patch_def
    using wf_line_print_lines [OF assms]
    by (rule splitLines_join) (simp_all add: print_lines_def endPatchMarker_def)
  obtain n where "parseEnvironmentIDPreamble
     ((case env of None \<Rightarrow> [] | Some i \<Rightarrow> [environmentIDMarker @ i]) @ concat (map print_hunk hs)) =
     Inr (env, concat (map print_hunk hs), n)"
    using preamble_printed [OF assms(1)] by blast
  with lines hunk_loop_printed [OF assms(2), of n "[]"] show ?thesis
    by (cases mode)
      (simp_all add: parsePatchText_def boundaries_print_lines checkPatchBoundariesLenient_eq print_patch_def)
qed

text \<open>
  C1. Round trip of the patch envelope: printing well-formed hunks (with an optional environment id)
  and parsing the text gives exactly these hunks, that environment id and the text itself, in both
  parse modes.
\<close>

theorem ParsePatch_print_patch:
  assumes "wf_env env" and "list_all wf_hunk hs"
  shows "parsePatchText (print_patch env hs) mode =
     Inr \<lparr>prPatch = print_patch env hs, prHunks = hs, prWorkdir = None, prEnvironmentID = env\<rparr>"
  using assms by (rule parsePatchText_printed)

text \<open>A patch with an addition, a deletion and a move with two chunks.\<close>

definition sample_hunks :: "Hunk list" where
  "sample_hunks =
     [\<lparr>hunkKind = HunkAddFile, hunkPath = ''a.txt'', hunkContents = ''hi'' @ nl, hunkMovePath = [],
       hunkHasMovePath = False, hunkChunks = []\<rparr>,
      \<lparr>hunkKind = HunkDeleteFile, hunkPath = ''b.txt'', hunkContents = [], hunkMovePath = [],
       hunkHasMovePath = False, hunkChunks = []\<rparr>,
      \<lparr>hunkKind = HunkUpdateFile, hunkPath = ''c.txt'', hunkContents = [], hunkMovePath = ''d.txt'',
       hunkHasMovePath = True,
       hunkChunks =
         [\<lparr>ChangeContext = ''f'', HasChangeContext = True, OldLines = [''x''], NewLines = [''y'', []],
           IsEndOfFile = False\<rparr>,
          \<lparr>ChangeContext = [], HasChangeContext = False, OldLines = [''z''], NewLines = [],
           IsEndOfFile = True\<rparr>]\<rparr>]"

lemma sample_env_wf: "wf_env (Some ''e1'')" "wf_env None"
  by (simp_all add: wf_env_def wf_line_def HasSuffix_def HasPrefix_def TrimSpace_plain plain_char_def
      is_space_def)

lemma sample_hunks_wf: "list_all wf_hunk sample_hunks"
  by (simp add: sample_hunks_def wf_hunk_def wf_path_def wf_contents_def wf_chunk_def wf_line_def
      content_lines_def drop_trailing_empty_def HasSuffix_def HasPrefix_def TrimSpace_plain
      plain_char_def is_space_def markers)

theorem ParsePatch_print_patch_witness:
  "wf_env (Some ''e1'') \<and> list_all wf_hunk sample_hunks \<and>
   parsePatchText (print_patch (Some ''e1'') sample_hunks) parseModeLenient =
     Inr \<lparr>prPatch = print_patch (Some ''e1'') sample_hunks, prHunks = sample_hunks, prWorkdir = None,
          prEnvironmentID = Some ''e1''\<rparr>"
  using sample_env_wf(1) sample_hunks_wf
    ParsePatch_print_patch [OF sample_env_wf(1) sample_hunks_wf, of parseModeLenient] by simp

section \<open>Reported line numbers\<close>

definition line_in :: "nat \<Rightarrow> nat \<Rightarrow> ParseError \<Rightarrow> bool" where
  "line_in lo hi e \<longleftrightarrow> peKind e = InvalidHunk \<and> lo \<le> peLineNumber e \<and> peLineNumber e \<le> hi"

lemma line_in_mono: "line_in lo hi e \<Longrightarrow> lo' \<le> lo \<Longrightarrow> hi \<le> hi' \<Longrightarrow> line_in lo' hi' e"
  by (auto simp: line_in_def)

lemma firstRune_go_from: "firstRune line = Some r \<Longrightarrow> go_from line (Suc 0) \<noteq> None"
  using firstRune_tail by simp

lemma chunk_line_loop_error:
  "chunk_line_loop lines n p c = Inl e \<Longrightarrow> line_in (n + 1) (n + 1) e"
proof (induction lines n p c rule: chunk_line_loop.induct)
  case (1 lineNumber parsedLines chunk)
  then show ?case by simp
next
  case (2 line rest lineNumber parsedLines chunk)
  then show ?case
    by (auto simp: chunk_line_loop.simps firstRune_go_from no_lines_error_def newInvalidHunkError_def line_in_def
        split: if_splits option.splits)
qed

lemma parseUpdateFileChunk_error:
  "parseUpdateFileChunk lines n a = Inl e \<Longrightarrow> line_in n (n + 1) e"
  by (auto simp: parseUpdateFileChunk_def bind_res_Inl_iff no_lines_error_def newInvalidHunkError_def
      line_in_def split: list.splits if_splits dest!: chunk_line_loop_error)

lemma update_chunk_loop_error:
  "update_chunk_loop lines n p cs = Inl e \<Longrightarrow> line_in (n + p) (n + p + length lines) e"
proof (induction lines n p cs rule: update_chunk_loop.induct)
  case (1 remaining lineNumber parsed chunks)
  show ?case
  proof (cases remaining)
    case Nil
    with "1.prems" show ?thesis by (simp add: update_chunk_loop_eq)
  next
    case (Cons l rest)
    note unfold = "1.prems" [unfolded update_chunk_loop_eq [of remaining]]
    show ?thesis
    proof (cases "TrimSpace l = []")
      case True
      with Cons unfold "1.IH"(1) [OF Cons True] show ?thesis by (auto intro: line_in_mono)
    next
      case nonblank: False
      with Cons unfold have nostar: "\<not> HasPrefix l ''*''" by (auto split: if_splits)
      show ?thesis
      proof (cases "parseUpdateFileChunk remaining (lineNumber + parsed) (chunks = [])")
        case (Inl e')
        with Cons nonblank nostar unfold have "e' = e" by simp
        with parseUpdateFileChunk_error [OF Inl] Cons show ?thesis by (auto intro: line_in_mono)
      next
        case (Inr cm)
        obtain c m where cm: "cm = (c, m)" by fastforce
        note c = Inr [unfolded cm]
        from Cons nonblank nostar unfold c have
          rec: "update_chunk_loop (drop m remaining) lineNumber (parsed + m) (chunks @ [c]) = Inl e" by simp
        have "go_from remaining m = Some (drop m remaining)" using parseUpdateFileChunk_consumed(2) [OF c] by simp
        from "1.IH"(2) [OF Cons nonblank nostar c refl this rec] parseUpdateFileChunk_consumed [OF c]
        show ?thesis by (auto intro: line_in_mono)
      qed
    qed
  qed
qed

lemma parseOneHunk_error:
  assumes "parseOneHunk lines n = Inl e" and "lines \<noteq> []"
  shows "line_in n (n + length lines) e"
  using assms
  by (auto simp: parseOneHunk_def Let_def bind_res_Inl_iff newInvalidHunkError_def line_in_def
      split: option.splits prod.splits if_splits list.splits)
    (auto dest!: update_chunk_loop_error simp: line_in_def)

lemma hunk_loop_error:
  "hunk_loop lines n hs = Inl e \<Longrightarrow> line_in n (n + length lines) e"
proof (induction lines n hs rule: hunk_loop.induct)
  case (1 remaining lineNumber hunks)
  show ?case
  proof (cases remaining)
    case Nil
    with "1.prems" show ?thesis by (simp add: hunk_loop_eq)
  next
    case (Cons l rest)
    note unfold = "1.prems" [unfolded hunk_loop_eq [of remaining]]
    show ?thesis
    proof (cases "parseOneHunk remaining lineNumber")
      case (Inl e')
      with Cons unfold have "e' = e" by simp
      with parseOneHunk_error [OF Inl] Cons show ?thesis by (auto intro: line_in_mono)
    next
      case (Inr hm)
      obtain h m where hm: "hm = (h, m)" by fastforce
      note h = Inr [unfolded hm]
      from Cons unfold h have rec: "hunk_loop (drop m remaining) (lineNumber + m) (hunks @ [h]) = Inl e" by simp
      have "go_from remaining m = Some (drop m remaining)" using parseOneHunk_consumed(2) [OF h] by simp
      from "1.IH" [OF Cons h refl this rec] parseOneHunk_consumed [OF h] Cons
      show ?thesis by (auto intro: line_in_mono)
    qed
  qed
qed

lemma preamble_cases:
  "parseEnvironmentIDPreamble ls = Inr (env, rest, n) \<Longrightarrow> 2 \<le> n \<and> n + length rest = 2 + length ls"
  by (auto simp: parseEnvironmentIDPreamble_def Let_def split: list.splits option.splits if_splits)

lemma boundaries_strict_lines:
  "checkPatchBoundariesStrict ls = Inr (pl, hl) \<Longrightarrow> pl = ls \<and> hl = butlast (tl ls) \<and> length pl = 2 + length hl"
proof -
  assume h: "checkPatchBoundariesStrict ls = Inr (pl, hl)"
  then have "2 \<le> length ls"
    by (auto simp: checkPatchBoundariesStrict_eq intro: boundaries_two_lines split: option.splits)
  with h show ?thesis
    by (auto simp: checkPatchBoundariesStrict_eq Let_def split: option.splits)
qed

lemma boundaries_strict_error: "checkPatchBoundariesStrict ls = Inl e \<Longrightarrow> peKind e = InvalidPatch"
  by (auto simp: checkPatchBoundariesStrict_eq checkStartAndEndLinesStrict_def Let_def
      newInvalidPatchError_def split: if_splits option.splits)

lemma boundaries_lines:
  assumes "(case mode of parseModeStrict \<Rightarrow> checkPatchBoundariesStrict ls
             | parseModeLenient \<Rightarrow> checkPatchBoundariesLenient ls) = Inr (pl, hl)"
  shows "2 + length hl \<le> length ls"
  using assms
  by (cases mode)
    (auto simp: checkPatchBoundariesLenient_eq dest!: boundaries_strict_lines split: sum.splits if_splits)

lemma boundaries_error:
  assumes "(case mode of parseModeStrict \<Rightarrow> checkPatchBoundariesStrict ls
             | parseModeLenient \<Rightarrow> checkPatchBoundariesLenient ls) = Inl e"
  shows "peKind e = InvalidPatch"
  using assms
  by (cases mode)
    (auto simp: checkPatchBoundariesLenient_eq dest: boundaries_strict_error split: sum.splits if_splits)

lemma parse_error_cases:
  assumes "parsePatchText patch mode = Inl e"
  shows "peKind e = InvalidPatch \<or>
    line_in 2 (length (splitLines (TrimSpace patch))) e"
proof -
  let ?ls = "splitLines (TrimSpace patch)"
  let ?b = "case mode of parseModeStrict \<Rightarrow> checkPatchBoundariesStrict ?ls
             | parseModeLenient \<Rightarrow> checkPatchBoundariesLenient ?ls"
  consider (boundary) e' where "?b = Inl e'"
    | (preamble) pl hl e' where "?b = Inr (pl, hl)" "parseEnvironmentIDPreamble hl = Inl e'"
    | (hunks) pl hl env rest n where "?b = Inr (pl, hl)" "parseEnvironmentIDPreamble hl = Inr (env, rest, n)"
    by (cases ?b; metis prod_cases3 surj_pair sum.exhaust)
  then show ?thesis
  proof cases
    case boundary
    with assms have "?b = Inl e" by (simp add: parsePatchText_def)
    then show ?thesis by (simp add: boundaries_error)
  next
    case preamble
    with assms have "e' = e" by (simp add: parsePatchText_def)
    with preamble(2) show ?thesis
      by (auto simp: parseEnvironmentIDPreamble_def newInvalidPatchError_def Let_def
          split: list.splits option.splits if_splits)
  next
    case hunks
    with assms have "hunk_loop rest n [] = Inl e" by (auto simp: parsePatchText_def bind_res_Inl_iff)
    from hunk_loop_error [OF this] preamble_cases [OF hunks(2)] boundaries_lines [OF hunks(1)]
    show ?thesis by (auto simp: line_in_def)
  qed
qed

lemma parse_no_panic: "parsePatchText patch mode = Inl e \<Longrightarrow> peKind e \<noteq> RuntimePanic"
  using parse_error_cases by (fastforce simp: line_in_def)

text \<open>
  C13. Parsing any text in either mode never panics, and it reports where it failed: the result is a
  patch, or an error about the envelope, or an error in a hunk whose 1-based line number points after
  the begin marker and not past the last line of the text. A slice out of range in the boundary
  checks, in the per-line cuts or in the consumption of lines by the chunk and hunk loops would be
  an error of the kind \<open>RuntimePanic\<close>.
\<close>

theorem parse_errors_located:
  assumes "parsePatchText patch mode = Inl e"
  shows "peKind e = InvalidPatch \<or>
    (peKind e = InvalidHunk \<and> 2 \<le> peLineNumber e \<and> peLineNumber e \<le> length (splitLines (TrimSpace patch)))"
  using parse_error_cases [OF assms] by (simp add: line_in_def)

text \<open>A patch whose update hunk ends right after the context marker.\<close>

definition bad_patch :: string where
  "bad_patch = join nl [beginPatchMarker, updateFileMarker @ ''f'', emptyChangeContextMarker, endPatchMarker]"

lemma bad_patch_lines:
  "splitLines (TrimSpace bad_patch) =
     [beginPatchMarker, updateFileMarker @ ''f'', emptyChangeContextMarker, endPatchMarker]"
proof -
  have "TrimSpace bad_patch = bad_patch"
    by (simp add: bad_patch_def markers TrimSpace_plain plain_char_def is_space_def)
  moreover have "splitLines bad_patch =
      [beginPatchMarker, updateFileMarker @ ''f'', emptyChangeContextMarker, endPatchMarker]"
    unfolding bad_patch_def
    by (rule splitLines_join)
      (simp_all add: wf_line_const wf_line_marker(3) wf_line_def HasSuffix_def HasPrefix_def markers)
  ultimately show ?thesis by simp
qed

theorem parse_errors_located_witness:
  "(\<exists>e. parsePatchText bad_patch parseModeStrict = Inl e \<and> peKind e = InvalidHunk
      \<and> 2 \<le> peLineNumber e \<and> peLineNumber e \<le> 4)"
proof -
  define e where "e = no_lines_error 4"
  have "TrimSpace beginPatchMarker = beginPatchMarker" "TrimSpace endPatchMarker = endPatchMarker"
    "TrimSpace (updateFileMarker @ ''f'') = updateFileMarker @ ''f''"
    "TrimSpace emptyChangeContextMarker \<noteq> []"
    by (simp_all add: markers TrimSpace_plain plain_char_def is_space_def)
  note trims = this
  have "parseUpdateFileChunk [emptyChangeContextMarker] 3 True = Inl e"
    by (simp add: parseUpdateFileChunk_def e_def)
  then have "update_chunk_loop [emptyChangeContextMarker] 2 1 [] = Inl e"
    using trims(4) by (simp add: update_chunk_loop_eq HasPrefix_def markers)
  then have "parseOneHunk [updateFileMarker @ ''f'', emptyChangeContextMarker] 2 = Inl e"
    by (simp add: parseOneHunk_def trims(3)) (simp add: markers)
  then have loop: "hunk_loop [updateFileMarker @ ''f'', emptyChangeContextMarker] 2 [] = Inl e"
    by (simp add: hunk_loop_eq)
  have pre: "parseEnvironmentIDPreamble [updateFileMarker @ ''f'', emptyChangeContextMarker] =
      Inr (None, [updateFileMarker @ ''f'', emptyChangeContextMarker], 2)"
    by (rule preamble_header_rest) (auto simp: header_rest_def)
  have e: "parsePatchText bad_patch parseModeStrict = Inl e"
    using trims loop pre
    by (simp add: parsePatchText_def bad_patch_lines checkPatchBoundariesStrict_eq
        checkStartAndEndLinesStrict_def)
  have k: "peKind e = InvalidHunk"
    by (simp add: e_def no_lines_error_def newInvalidHunkError_def)
  show ?thesis
    using e k parse_errors_located [OF e] by (auto simp: bad_patch_lines)
qed

section \<open>Lenient mode: the heredoc wrapper\<close>

lemma trim_right_func_length_le: "length (trim_right_func f s) \<le> length s"
  using trim_right_func_prefix [of s f] by (metis length_append le_add1)

lemma trim_right_func_last_space:
  assumes "s \<noteq> []" and "byte (last s) < 0x80" and "is_space (byte (last s))"
  shows "trim_right_func is_space s \<noteq> s"
proof -
  have "trim_right_func is_space s = trim_right_func is_space (take (length s - 1) s)"
    using assms by (subst trim_right_func.simps) (simp add: decode_last_rune_ascii)
  then have "length (trim_right_func is_space s) \<le> length s - 1"
    using trim_right_func_length_le [of is_space "take (length s - 1) s"] by simp
  with assms(1) show ?thesis by (cases s) auto
qed

lemma trim_left_func_suffix: "\<exists>t. s = t @ trim_left_func f s"
proof (induction "length s" arbitrary: s rule: less_induct)
  case less
  show ?case
  proof (cases "s \<noteq> [] \<and> f (fst (decode_rune s))")
    case True
    obtain r w where rw: "decode_rune s = (r, w)" by fastforce
    have "length (drop w s) < length s" using True rw decode_rune_width_pos [of s] by simp
    from less.hyps [OF this] obtain t where "drop w s = t @ trim_left_func f (drop w s)" by blast
    moreover have "trim_left_func f s = trim_left_func f (drop w s)"
      using True rw by (subst trim_left_func.simps) simp
    ultimately have "s = (take w s @ t) @ trim_left_func f s" by (metis append.assoc append_take_drop_id)
    then show ?thesis by blast
  next
    case False
    then have "trim_left_func f s = s" by (subst trim_left_func.simps) (auto split: prod.splits)
    then show ?thesis by auto
  qed
qed

lemma TrimSpace_fixed_last:
  assumes "TrimSpace s = s" and "s \<noteq> []"
  shows "last s \<noteq> newline"
proof
  assume "last s = newline"
  obtain t where t: "s = t @ trim_left_func is_space s" using trim_left_func_suffix by blast
  have "length (trim_right_func is_space (trim_left_func is_space s)) = length s"
    using assms(1) by (simp add: TrimSpace_def)
  with trim_right_func_length_le [of is_space "trim_left_func is_space s"] t have "t = []"
    by (metis add_le_same_cancel2 le_zero_eq length_0_conv length_append)
  with t have "trim_left_func is_space s = s" by simp
  with assms(1) have "trim_right_func is_space s = s" by (simp add: TrimSpace_def)
  with trim_right_func_last_space [of s] assms(2) \<open>last s = newline\<close> show False
    by (simp add: is_space_def)
qed

lemma last_split_on_nonempty: "s \<noteq> [] \<Longrightarrow> last s \<noteq> d \<Longrightarrow> last (split_on d s) \<noteq> []"
proof (induction s)
  case Nil
  then show ?case by simp
next
  case (Cons c cs)
  then show ?case by (cases cs) (auto split: list.splits if_splits)
qed

lemma splitLines_wrapped:
  assumes "TrimSpace p = p" and "p \<noteq> []" and "wf_line o1" and "wf_line o2" and "o2 \<noteq> []"
  shows "splitLines (o1 @ nl @ p @ nl @ o2) = o1 # splitLines p @ [o2]"
proof -
  have "newline \<notin> set o1" and "newline \<notin> set o2" using assms(3,4) by (simp_all add: wf_line_def)
  then have "split_on newline (o1 @ nl @ p @ nl @ o2) = o1 # split_on newline p @ [o2]"
    by (simp add: split_on_append_sep split_on_append split_on_no_sep)
  moreover have "last (split_on newline p) \<noteq> []"
    using assms(1,2) TrimSpace_fixed_last last_split_on_nonempty by blast
  ultimately show ?thesis
    using assms(2-5) by (simp add: splitLines_def drop_trailing_empty_def TrimSuffix_def wf_line_def)
qed

text \<open>
  Lenient mode accepts what strict mode accepts, with the same result, and it sees through a
  heredoc wrapper: a strictly valid patch between an opener line and a closing EOF line parses to
  the result of the patch alone.
\<close>

theorem lenient_heredoc:
  assumes "parsePatchText p parseModeStrict = Inr r" and "TrimSpace p = p" and "op \<in> set heredoc_openers"
  shows "ParsePatch p = Inr r \<and> ParsePatch (op @ nl @ p @ nl @ ''EOF'') = Inr r"
proof -
  let ?w = "op @ nl @ p @ nl @ ''EOF''"
  obtain pl hl where strict: "checkPatchBoundariesStrict (splitLines p) = Inr (pl, hl)"
    using assms(1,2) by (auto simp: parsePatchText_def bind_res_Inr_iff)
  have ne: "p \<noteq> []" using strict boundaries_strict_lines [OF strict] by (auto simp: splitLines_def)
  obtain x where op: "op = CHR ''<'' # x" and ops: "wf_line op" "TrimSpace op \<noteq> beginPatchMarker"
    using assms(3)
    by (auto simp: heredoc_openers_def wf_line_def HasSuffix_def HasPrefix_def TrimSpace_plain
        plain_char_def is_space_def markers)
  have trim: "TrimSpace ?w = ?w"
    by (simp add: op TrimSpace_plain plain_char_def is_space_def)
  have lines: "splitLines ?w = op # splitLines p @ [''EOF'']"
    using splitLines_wrapped [OF assms(2) ne ops(1), of "''EOF''"]
    by (simp add: wf_line_def HasSuffix_def HasPrefix_def)
  have "\<exists>e. checkPatchBoundariesStrict (op # splitLines p @ [''EOF'']) = Inl e"
    using ops(2) by (simp add: checkPatchBoundariesStrict_eq checkStartAndEndLinesStrict_def)
  then have "checkPatchBoundariesLenient (op # splitLines p @ [''EOF'']) = Inr (pl, hl)"
    using strict assms(3) boundaries_strict_lines [OF strict]
    by (auto simp: checkPatchBoundariesLenient_eq HasSuffix_iff)
  with strict assms(1,2) lines trim show ?thesis
    by (simp add: ParsePatch_def parsePatchText_def checkPatchBoundariesLenient_eq)
qed

theorem lenient_heredoc_witness:
  "ParsePatch (''<<EOF'' @ nl @ print_patch None sample_hunks @ nl @ ''EOF'') =
     Inr \<lparr>prPatch = print_patch None sample_hunks, prHunks = sample_hunks, prWorkdir = None,
          prEnvironmentID = None\<rparr>"
  using lenient_heredoc [OF parsePatchText_printed [OF sample_env_wf(2) sample_hunks_wf]
      TrimSpace_print_patch, of "''<<EOF''"]
  by (simp add: heredoc_openers_def)

end
