(* ===== verification/Patch_Replace.thy ===== *)
theory Patch_Replace
  imports Patch_Parser
begin

text \<open>
  Locating and replacing lines: \<open>src/internal/applypatch/seek_sequence.go\<close> and
  \<open>replacements.go\<close>. Indices are natural numbers. A slice or index expression out of range, a
  run-time panic in the code, is \<open>None\<close> in seekSequence and applyReplacements and the error
  \<open>ComputePanic\<close> above them; the theorems show that it does not happen. The only reads written
  with \<open>last\<close> and \<open>butlast\<close> are those of a last element right behind the test that there is one.
\<close>

section \<open>seekSequence\<close>

definition isUnicodeWhitespace :: "rune \<Rightarrow> bool" where
  "isUnicodeWhitespace r \<longleftrightarrow>
     r \<in> set [0x09, 0x0A, 0x0B, 0x0C, 0x0D, 0x20,
       0x85, 0xA0, 0x1680,
       0x2000, 0x2001, 0x2002, 0x2003, 0x2004, 0x2005, 0x2006, 0x2007,
       0x2008, 0x2009, 0x200A,
       0x2028, 0x2029, 0x202F, 0x205F, 0x3000]"

definition trimEnd :: "string \<Rightarrow> string" where
  "trimEnd s = trim_right_func isUnicodeWhitespace s"

definition normalise_rune :: "rune \<Rightarrow> string" where
  "normalise_rune c =
     (if c \<in> set [0x2010, 0x2011, 0x2012, 0x2013, 0x2014, 0x2015, 0x2212] then ''-''
      else if c \<in> set [0x2018, 0x2019, 0x201A, 0x201B] then sq
      else if c \<in> set [0x201C, 0x201D, 0x201E, 0x201F] then dq
      else if c \<in> set [0x00A0, 0x2002, 0x2003, 0x2004, 0x2005, 0x2006,
        0x2007, 0x2008, 0x2009, 0x200A, 0x202F, 0x205F, 0x3000] then '' ''
      else encode_rune c)"

definition normalisePunctuation :: "string \<Rightarrow> string" where
  "normalisePunctuation s = concat (map normalise_rune (runes (TrimSpace s)))"

definition equalLines :: "string list \<Rightarrow> string list \<Rightarrow> bool option" where
  "equalLines a b = try_all (\<lambda>i. map_option (\<lambda>y. a ! i = y) (go_index b i)) [0..<length a]"

definition matchWith ::
  "string list \<Rightarrow> string list \<Rightarrow> nat \<Rightarrow> nat \<Rightarrow> (string \<Rightarrow> string) \<Rightarrow> nat option option" where
  "matchWith lines pattern searchStart lastStart transform =
     try_first searchStart lastStart
       (\<lambda>i. try_all
          (\<lambda>pIdx. map_option (\<lambda>l. transform l = transform (pattern ! pIdx)) (go_index lines (i + pIdx)))
          [0..<length pattern])"

text \<open>The result of seekSequence: \<open>None\<close> is a panic, \<open>Some None\<close> not found, \<open>Some (Some i)\<close> the index.\<close>

definition seekSequence :: "string list \<Rightarrow> string list \<Rightarrow> nat \<Rightarrow> bool \<Rightarrow> nat option option" where
  "seekSequence lines pattern start eof =
     (if pattern = [] then Some (Some start)
      else if length pattern > length lines then Some None
      else
        let searchStart = (if eof \<and> length lines \<ge> length pattern
                           then length lines - length pattern else start);
            lastStart = length lines - length pattern in
        case try_first searchStart lastStart
               (\<lambda>i. Option.bind (go_slice lines i (i + length pattern)) (\<lambda>w. equalLines w pattern)) of
          Some None \<Rightarrow>
            (case matchWith lines pattern searchStart lastStart trimEnd of
               Some None \<Rightarrow>
                 (case matchWith lines pattern searchStart lastStart TrimSpace of
                    Some None \<Rightarrow> matchWith lines pattern searchStart lastStart normalisePunctuation
                  | r \<Rightarrow> r)
             | r \<Rightarrow> r)
        | r \<Rightarrow> r)"

text \<open>Specification: the pattern occurs at \<open>i\<close> up to a transformation of both sides.\<close>

definition occurs_at :: "(string \<Rightarrow> string) \<Rightarrow> string list \<Rightarrow> string list \<Rightarrow> nat \<Rightarrow> bool" where
  "occurs_at t lines pattern i \<longleftrightarrow>
     i + length pattern \<le> length lines \<and> map t (take (length pattern) (drop i lines)) = map t pattern"

definition seek_start :: "string list \<Rightarrow> string list \<Rightarrow> nat \<Rightarrow> bool \<Rightarrow> nat" where
  "seek_start lines pattern start eof = (if eof then length lines - length pattern else start)"

definition first_occurrence ::
  "(string \<Rightarrow> string) \<Rightarrow> string list \<Rightarrow> string list \<Rightarrow> nat \<Rightarrow> nat option" where
  "first_occurrence t lines pattern lo =
     for_first lo (length lines - length pattern) (occurs_at t lines pattern)"

lemma occurs_at_nth:
  "i + length pattern \<le> length lines \<Longrightarrow>
   occurs_at t lines pattern i \<longleftrightarrow> (\<forall>k < length pattern. t (lines ! (i + k)) = t (pattern ! k))"
  by (auto simp: occurs_at_def list_eq_iff_nth_eq)

text \<open>Both loops read inside the file as long as they stop at the last position where the pattern fits.\<close>

lemma matchWith_first_occurrence:
  assumes "length pattern \<le> length lines"
  shows "matchWith lines pattern lo (length lines - length pattern) t =
         Some (first_occurrence t lines pattern lo)"
  unfolding matchWith_def first_occurrence_def
proof (intro try_first_total)
  fix i
  assume "i \<le> length lines - length pattern"
  with assms have b: "i + length pattern \<le> length lines" by simp
  show "try_all (\<lambda>pIdx. map_option (\<lambda>l. t l = t (pattern ! pIdx)) (go_index lines (i + pIdx)))
      [0..<length pattern] = Some (occurs_at t lines pattern i)"
    unfolding occurs_at_nth [OF b]
    by (subst try_all_total [where q = "\<lambda>k. t (lines ! (i + k)) = t (pattern ! k)"])
      (use b in \<open>auto simp: list_all_iff\<close>)
qed

lemma equalLines_total: "length a \<le> length b \<Longrightarrow> equalLines a b = Some (\<forall>k < length a. a ! k = b ! k)"
  unfolding equalLines_def
  by (subst try_all_total [where q = "\<lambda>k. a ! k = b ! k"]) (auto simp: list_all_iff)

lemma exact_first_occurrence:
  assumes "length pattern \<le> length lines"
  shows "try_first lo (length lines - length pattern)
           (\<lambda>i. Option.bind (go_slice lines i (i + length pattern)) (\<lambda>w. equalLines w pattern)) =
         Some (first_occurrence id lines pattern lo)"
  unfolding first_occurrence_def
proof (intro try_first_total)
  fix i
  assume "i \<le> length lines - length pattern"
  with assms have b: "i + length pattern \<le> length lines" by simp
  then have s: "go_slice lines i (i + length pattern) = Some (take (length pattern) (drop i lines))"
    by (simp add: go_slice_def)
  show "Option.bind (go_slice lines i (i + length pattern)) (\<lambda>w. equalLines w pattern) =
      Some (occurs_at id lines pattern i)"
    using b by (auto simp: s equalLines_total occurs_at_nth)
qed

lemma first_occurrence_Some_iff:
  assumes "length pattern \<le> length lines"
  shows "first_occurrence t lines pattern lo = Some i \<longleftrightarrow>
    lo \<le> i \<and> occurs_at t lines pattern i \<and> (\<forall>j. lo \<le> j \<and> j < i \<longrightarrow> \<not> occurs_at t lines pattern j)"
  using assms by (auto simp: first_occurrence_def for_first_Some_iff occurs_at_def)

lemma first_occurrence_None_iff:
  assumes "length pattern \<le> length lines"
  shows "first_occurrence t lines pattern lo = None \<longleftrightarrow> (\<forall>i. lo \<le> i \<longrightarrow> \<not> occurs_at t lines pattern i)"
  using assms by (auto simp: first_occurrence_def for_first_None_iff occurs_at_def)

text \<open>The four passes in the order of the code.\<close>

definition passes :: "(string \<Rightarrow> string) list" where
  "passes = [id, trimEnd, TrimSpace, normalisePunctuation]"

fun first_pass :: "(string \<Rightarrow> string) list \<Rightarrow> string list \<Rightarrow> string list \<Rightarrow> nat \<Rightarrow> nat option" where
  "first_pass [] lines pattern lo = None"
| "first_pass (t # ts) lines pattern lo =
     (case first_occurrence t lines pattern lo of
        Some i \<Rightarrow> Some i | None \<Rightarrow> first_pass ts lines pattern lo)"

lemma seekSequence_first_pass:
  assumes "pattern \<noteq> []" and "length pattern \<le> length lines"
  shows "seekSequence lines pattern start eof =
         Some (first_pass passes lines pattern (seek_start lines pattern start eof))"
proof -
  have lo: "(if eof \<and> length lines \<ge> length pattern then length lines - length pattern else start) =
      seek_start lines pattern start eof"
    using assms(2) by (simp add: seek_start_def)
  define lo where "lo = seek_start lines pattern start eof"
  have "seekSequence lines pattern start eof =
     (case Some (first_occurrence id lines pattern lo) of
        Some None \<Rightarrow>
          (case Some (first_occurrence trimEnd lines pattern lo) of
             Some None \<Rightarrow>
               (case Some (first_occurrence TrimSpace lines pattern lo) of
                  Some None \<Rightarrow> Some (first_occurrence normalisePunctuation lines pattern lo)
                | r \<Rightarrow> r)
           | r \<Rightarrow> r)
      | r \<Rightarrow> r)"
    unfolding seekSequence_def Let_def lo exact_first_occurrence [OF assms(2)]
      matchWith_first_occurrence [OF assms(2)] lo_def
    using assms by simp
  also have "\<dots> = Some (first_pass passes lines pattern lo)"
    by (simp add: passes_def split: option.split)
  finally show ?thesis by (simp only: lo_def)
qed

lemma seekSequence_simps [simp]:
  "seekSequence lines [] start eof = Some (Some start)"
  "length pattern > length lines \<Longrightarrow> pattern \<noteq> [] \<Longrightarrow> seekSequence lines pattern start eof = Some None"
  by (simp_all add: seekSequence_def)

lemma seekSequence_no_panic: "seekSequence lines pattern start eof \<noteq> None"
  by (cases "pattern = []"; cases "length pattern \<le> length lines") (auto simp: seekSequence_first_pass)

lemma first_pass_Some:
  assumes "length pattern \<le> length lines" and "first_pass ts lines pattern lo = Some i"
  shows "lo \<le> i \<and> (\<exists>t \<in> set ts. occurs_at t lines pattern i)"
  using assms(2)
  by (induction ts) (auto simp: first_occurrence_Some_iff [OF assms(1)] split: option.splits)

lemma first_pass_None_iff:
  assumes "length pattern \<le> length lines"
  shows "first_pass ts lines pattern lo = None \<longleftrightarrow>
    (\<forall>t \<in> set ts. \<forall>i. lo \<le> i \<longrightarrow> \<not> occurs_at t lines pattern i)"
  by (induction ts) (auto simp: first_occurrence_Some_iff [OF assms] first_occurrence_None_iff [OF assms]
      split: option.splits)

lemma seekSequence_SomeD:
  assumes "seekSequence lines pattern start eof = Some (Some i)" and "pattern \<noteq> []"
  shows "i + length pattern \<le> length lines" and "seek_start lines pattern start eof \<le> i"
    and "\<exists>t \<in> set passes. occurs_at t lines pattern i"
proof -
  have len: "length pattern \<le> length lines"
    using assms by (auto simp: seekSequence_def split: if_splits)
  have fp: "first_pass passes lines pattern (seek_start lines pattern start eof) = Some i"
    using assms(1) by (simp add: seekSequence_first_pass [OF assms(2) len])
  from first_pass_Some [OF len fp] show "seek_start lines pattern start eof \<le> i"
    and "\<exists>t \<in> set passes. occurs_at t lines pattern i" by auto
  then show "i + length pattern \<le> length lines" by (auto simp: occurs_at_def)
qed

lemma seekSequence_bounds:
  assumes "seekSequence lines pattern start eof = Some (Some i)" and "start \<le> length lines"
  shows "i + length pattern \<le> length lines"
  using assms seekSequence_SomeD(1) [OF assms(1)]
  by (cases "pattern = []") (auto simp: seekSequence_def)

section \<open>computeReplacements\<close>

record replacement =
  startIndex :: nat
  oldLen :: nat
  rNewLines :: "string list"

text \<open>\<open>ComputePanic\<close> is none of the code: it marks an out-of-range expression in a call below.\<close>

datatype ComputeReplacementsError = ComputeReplacementsError string | ComputePanic

definition context_error :: "string \<Rightarrow> string \<Rightarrow> ComputeReplacementsError" where
  "context_error ctx path =
     ComputeReplacementsError (''Failed to find context '' @ sq @ ctx @ sq @ '' in '' @ displayPath path)"

definition lines_error :: "string \<Rightarrow> string list \<Rightarrow> ComputeReplacementsError" where
  "lines_error path oldLines =
     ComputeReplacementsError (''Failed to find expected lines in '' @ displayPath path @ '':'' @ nl @ join nl oldLines)"

text \<open>The insertion point of a chunk that only adds lines.\<close>

definition insertion_index :: "string list \<Rightarrow> nat" where
  "insertion_index originalLines =
     (if originalLines \<noteq> [] \<and> last originalLines = [] then length originalLines - 1
      else length originalLines)"

text \<open>
  Locating the old lines of a chunk: first as they are, then, if the pattern ends with an empty
  line, without it. The result is the index, the pattern used and the replacement lines.
\<close>

definition locate_old ::
  "string list \<Rightarrow> UpdateFileChunk \<Rightarrow> nat \<Rightarrow> (nat \<times> string list \<times> string list) option option" where
  "locate_old originalLines chunk lineIndex =
     (let pattern = OldLines chunk; newSlice = NewLines chunk in
      case seekSequence originalLines pattern lineIndex (IsEndOfFile chunk) of
        None \<Rightarrow> None
      | Some (Some found) \<Rightarrow> Some (Some (found, pattern, newSlice))
      | Some None \<Rightarrow>
          if pattern \<noteq> [] \<and> last pattern = [] then
            (let pattern' = butlast pattern;
                 newSlice' = (if newSlice \<noteq> [] \<and> last newSlice = [] then butlast newSlice else newSlice) in
             map_option (map_option (\<lambda>found. (found, pattern', newSlice')))
               (seekSequence originalLines pattern' lineIndex (IsEndOfFile chunk)))
          else Some None)"

text \<open>The position after a chunk's context line.\<close>

definition after_context ::
  "string list \<Rightarrow> string \<Rightarrow> UpdateFileChunk \<Rightarrow> nat \<Rightarrow> (ComputeReplacementsError, nat) result" where
  "after_context originalLines path chunk lineIndex =
     (if HasChangeContext chunk then
        (case seekSequence originalLines [ChangeContext chunk] lineIndex False of
           None \<Rightarrow> Inl ComputePanic
         | Some None \<Rightarrow> Inl (context_error (ChangeContext chunk) path)
         | Some (Some idx) \<Rightarrow> Inr (idx + 1))
      else Inr lineIndex)"

fun chunk_replacements ::
  "string list \<Rightarrow> string \<Rightarrow> UpdateFileChunk list \<Rightarrow> nat \<Rightarrow> replacement list \<Rightarrow>
   (ComputeReplacementsError, replacement list) result" where
  "chunk_replacements originalLines path [] lineIndex replacements = Inr replacements"
| "chunk_replacements originalLines path (chunk # chunks) lineIndex replacements =
     bind_res (after_context originalLines path chunk lineIndex)
       (\<lambda>lineIndex'.
         if OldLines chunk = [] then
           chunk_replacements originalLines path chunks lineIndex'
             (replacements @ [\<lparr>startIndex = insertion_index originalLines, oldLen = 0,
                               rNewLines = NewLines chunk\<rparr>])
         else
           (case locate_old originalLines chunk lineIndex' of
              None \<Rightarrow> Inl ComputePanic
            | Some (Some (found, pattern, newSlice)) \<Rightarrow>
                chunk_replacements originalLines path chunks (found + length pattern)
                  (replacements @ [\<lparr>startIndex = found, oldLen = length pattern, rNewLines = newSlice\<rparr>])
            | Some None \<Rightarrow> Inl (lines_error path (OldLines chunk))))"

definition computeReplacements ::
  "string list \<Rightarrow> string \<Rightarrow> UpdateFileChunk list \<Rightarrow> (ComputeReplacementsError, replacement list) result" where
  "computeReplacements originalLines path chunks =
     bind_res (chunk_replacements originalLines path chunks 0 [])
       (\<lambda>replacements. Inr (sort_key startIndex replacements))"

section \<open>applyReplacements\<close>

fun remove_loop :: "nat \<Rightarrow> nat \<Rightarrow> string list \<Rightarrow> string list option" where
  "remove_loop 0 startIdx out = Some out"
| "remove_loop (Suc k) startIdx out =
     (if startIdx < length out then
        Option.bind (go_slice out 0 startIdx) (\<lambda>front.
          Option.bind (go_from out (startIdx + 1)) (\<lambda>back. remove_loop k startIdx (front @ back)))
      else remove_loop k startIdx out)"

text \<open>
  One insertion: the slice grows by an empty line, the lines from \<open>pos\<close> on move up by one, which
  drops that empty line, and the new line is stored at \<open>pos\<close>.
\<close>

fun insert_loop :: "string list \<Rightarrow> nat \<Rightarrow> string list \<Rightarrow> string list option" where
  "insert_loop [] pos out = Some out"
| "insert_loop (newLine # rest) pos out =
     (let grown = out @ [[]] in
      Option.bind (go_from grown (pos + 1)) (\<lambda>dst.
        Option.bind (go_from grown pos) (\<lambda>src.
          insert_loop rest (pos + 1) (take pos grown @ newLine # take (length dst) src))))"

definition apply_one :: "replacement \<Rightarrow> string list \<Rightarrow> string list option" where
  "apply_one r out =
     Option.bind (remove_loop (oldLen r) (startIndex r) out) (insert_loop (rNewLines r) (startIndex r))"

fun applyReplacements :: "string list \<Rightarrow> replacement list \<Rightarrow> string list option" where
  "applyReplacements lines [] = Some lines"
| "applyReplacements lines (r # rs) = Option.bind (applyReplacements lines rs) (apply_one r)"

text \<open>
  The recursion applies the last replacement first, as the descending index loop does. The contents
  computation of deriveNewContentsFromChunks, after the file has been read:
\<close>

definition newContentsFromChunks ::
  "string \<Rightarrow> string \<Rightarrow> UpdateFileChunk list \<Rightarrow> (ComputeReplacementsError, string) result" where
  "newContentsFromChunks pathAbs original chunks =
     (let originalLines = drop_trailing_empty (split_on newline original) in
      bind_res (computeReplacements originalLines pathAbs chunks)
        (\<lambda>replacements.
          case applyReplacements originalLines replacements of
            None \<Rightarrow> Inl ComputePanic
          | Some newLines \<Rightarrow>
              Inr (join nl (if newLines = [] \<or> last newLines \<noteq> [] then newLines @ [[]] else newLines))))"

section \<open>Applying a replacement\<close>

lemma remove_loop_eq: "remove_loop n i out = Some (take i out @ drop (i + n) out)"
proof (induction n arbitrary: out)
  case 0
  then show ?case by simp
next
  case (Suc n)
  show ?case
  proof (cases "i < length out")
    case True
    with Suc.IH [of "take i out @ drop (i + 1) out"] show ?thesis by (simp add: go_slice_def add.commute)
  next
    case False
    with Suc.IH [of out] show ?thesis by simp
  qed
qed

lemma insert_loop_Cons:
  "pos \<le> length out \<Longrightarrow>
   insert_loop (x # xs) pos out = insert_loop xs (pos + 1) (take pos out @ x # drop pos out)"
  by (simp add: go_from_eq)

declare insert_loop.simps(2) [simp del]

lemma insert_loop_eq:
  "pos \<le> length out \<Longrightarrow> insert_loop xs pos out = Some (take pos out @ xs @ drop pos out)"
proof (induction xs arbitrary: pos out)
  case Nil
  then show ?case by simp
next
  case (Cons x xs)
  then have "insert_loop (x # xs) pos out = insert_loop xs (pos + 1) (take pos out @ x # drop pos out)"
    by (simp add: insert_loop_Cons)
  also have "\<dots> = Some (take (pos + 1) (take pos out @ x # drop pos out) @ xs
      @ drop (pos + 1) (take pos out @ x # drop pos out))"
    using Cons.prems by (intro Cons.IH) simp
  also have "\<dots> = Some (take pos out @ (x # xs) @ drop pos out)"
    using Cons.prems by simp
  finally show ?case .
qed

lemma apply_one_eq:
  "startIndex r \<le> length out \<Longrightarrow>
   apply_one r out = Some (take (startIndex r) out @ rNewLines r @ drop (startIndex r + oldLen r) out)"
  by (simp add: apply_one_def remove_loop_eq insert_loop_eq)


text \<open>
  What a list of replacements means: walk the lines once from \<open>pos\<close>, copying the lines before each
  replacement, then its new lines, and continuing after its old lines.
\<close>

fun splice :: "nat \<Rightarrow> string list \<Rightarrow> replacement list \<Rightarrow> string list" where
  "splice pos lines [] = drop pos lines"
| "splice pos lines (r # rs) =
     take (startIndex r - pos) (drop pos lines) @ rNewLines r @ splice (startIndex r + oldLen r) lines rs"

text \<open>Replacements in ascending order that do not overlap and lie inside the file.\<close>

fun disjoint_from :: "nat \<Rightarrow> string list \<Rightarrow> replacement list \<Rightarrow> bool" where
  "disjoint_from pos lines [] \<longleftrightarrow> pos \<le> length lines"
| "disjoint_from pos lines (r # rs) \<longleftrightarrow>
     pos \<le> startIndex r \<and> disjoint_from (startIndex r + oldLen r) lines rs"

lemma disjoint_from_le: "disjoint_from pos lines rs \<Longrightarrow> pos \<le> length lines"
  by (induction rs arbitrary: pos) (auto dest: order.trans, fastforce)

lemma applyReplacements_splice_from:
  "disjoint_from pos lines rs \<Longrightarrow>
   applyReplacements lines rs = Some (take pos lines @ splice pos lines rs)"
proof (induction rs arbitrary: pos)
  case Nil
  then show ?case by simp
next
  case (Cons r rs)
  let ?s = "startIndex r" and ?e = "startIndex r + oldLen r"
  have e: "?e \<le> length lines" using Cons.prems disjoint_from_le by auto
  have "applyReplacements lines rs = Some (take ?e lines @ splice ?e lines rs)"
    using Cons by simp
  then have "applyReplacements lines (r # rs) = apply_one r (take ?e lines @ splice ?e lines rs)"
    by simp
  also have "\<dots> = Some (take ?s lines @ rNewLines r @ splice ?e lines rs)"
    using e by (subst apply_one_eq) (simp_all add: min_def)
  also have "take ?s lines = take pos lines @ take (?s - pos) (drop pos lines)"
    using Cons.prems by (simp flip: take_add)
  finally show ?case by simp
qed

lemma applyReplacements_splice:
  "disjoint_from 0 lines rs \<Longrightarrow> applyReplacements lines rs = Some (splice 0 lines rs)"
  using applyReplacements_splice_from [of 0 lines rs] by simp

section \<open>Applying never panics\<close>

definition starts_ok :: "string list \<Rightarrow> replacement list \<Rightarrow> bool" where
  "starts_ok lines rs \<longleftrightarrow> list_all (\<lambda>r. startIndex r + oldLen r \<le> length lines) rs"

lemma insertion_index_le: "insertion_index lines \<le> length lines"
  by (auto simp: insertion_index_def)

lemma after_context_le:
  assumes "after_context lines path c i = Inr j" and "i \<le> length lines"
  shows "i \<le> j \<and> j \<le> length lines"
proof (cases "HasChangeContext c")
  case True
  with assms obtain k where k: "seekSequence lines [ChangeContext c] i False = Some (Some k)" "j = k + 1"
    by (auto simp: after_context_def split: option.splits)
  from seekSequence_SomeD(1,2) [OF k(1)] k(2) show ?thesis by (simp add: seek_start_def)
next
  case False
  with assms show ?thesis by (simp add: after_context_def)
qed

lemma locate_old_le:
  assumes "locate_old lines c i = Some (Some (found, pat, new))" and "i \<le> length lines"
  shows "found + length pat \<le> length lines"
  using assms
  by (auto simp: locate_old_def Let_def split: option.splits if_splits dest: seekSequence_bounds)

lemma chunk_replacements_starts_ok:
  "chunk_replacements lines path cs i acc = Inr rs \<Longrightarrow> i \<le> length lines \<Longrightarrow> starts_ok lines acc \<Longrightarrow>
   starts_ok lines rs"
proof (induction cs arbitrary: i acc)
  case Nil
  then show ?case by simp
next
  case (Cons c cs)
  from Cons.prems(1) obtain j where j: "after_context lines path c i = Inr j"
    by (auto simp: bind_res_Inr_iff)
  with Cons.prems(2) have jle: "j \<le> length lines" using after_context_le by blast
  show ?case
  proof (cases "OldLines c = []")
    case True
    with Cons.prems(1) j have rec: "chunk_replacements lines path cs j
        (acc @ [\<lparr>startIndex = insertion_index lines, oldLen = 0, rNewLines = NewLines c\<rparr>]) = Inr rs"
      by simp
    from jle Cons.prems(3) show ?thesis
      by (intro Cons.IH [OF rec]) (auto simp: starts_ok_def insertion_index_le)
  next
    case False
    with Cons.prems(1) j obtain f pat new where
      loc: "locate_old lines c j = Some (Some (f, pat, new))" and
      rec: "chunk_replacements lines path cs (f + length pat)
        (acc @ [\<lparr>startIndex = f, oldLen = length pat, rNewLines = new\<rparr>]) = Inr rs"
      by (auto split: option.splits)
    from locate_old_le [OF loc jle] rec Cons.prems(3) show ?thesis
      by (intro Cons.IH [OF rec]) (auto simp: starts_ok_def)
  qed
qed

lemma applyReplacements_total:
  assumes "sorted (map startIndex rs)" and "starts_ok lines rs"
  shows "\<exists>out. applyReplacements lines rs = Some out \<and> (rs \<noteq> [] \<longrightarrow> startIndex (hd rs) \<le> length out)"
  using assms
proof (induction rs)
  case Nil
  then show ?case by simp
next
  case (Cons r rs)
  then obtain out where out: "applyReplacements lines rs = Some out"
    and hd: "rs \<noteq> [] \<longrightarrow> startIndex (hd rs) \<le> length out"
    by (auto simp: starts_ok_def)
  have "startIndex r \<le> length out"
  proof (cases rs)
    case Nil
    with out Cons.prems(2) show ?thesis by (simp add: starts_ok_def)
  next
    case (Cons r' rs')
    with hd Cons.prems(1) show ?thesis by auto
  qed
  with out show ?case by (simp add: apply_one_eq)
qed

lemma computeReplacements_ok:
  assumes "computeReplacements lines path cs = Inr rs"
  shows "sorted (map startIndex rs)" and "starts_ok lines rs"
proof -
  from assms obtain rs' where rs': "chunk_replacements lines path cs 0 [] = Inr rs'"
    and rs: "rs = sort_key startIndex rs'"
    by (auto simp: computeReplacements_def bind_res_Inr_iff)
  show "sorted (map startIndex rs)" by (simp add: rs)
  show "starts_ok lines rs"
    using chunk_replacements_starts_ok [OF rs'] by (auto simp: rs starts_ok_def list_all_iff)
qed

lemma after_context_no_panic: "after_context lines path c i \<noteq> Inl ComputePanic"
  using seekSequence_no_panic [of lines "[ChangeContext c]" i False]
  by (auto simp: after_context_def context_error_def split: option.splits)

lemma locate_old_no_panic: "locate_old lines c i \<noteq> None"
  by (auto simp: locate_old_def Let_def seekSequence_no_panic simp del: not_None_eq split: option.splits if_splits)

lemma chunk_replacements_no_panic: "chunk_replacements lines path cs i acc \<noteq> Inl ComputePanic"
proof (induction cs arbitrary: i acc)
  case (Cons c cs)
  then show ?case
    by (auto simp: bind_res_Inl_iff lines_error_def after_context_no_panic locate_old_no_panic split: option.splits if_splits)
qed simp

lemma newContents_total: "newContentsFromChunks path original cs \<noteq> Inl ComputePanic"
proof
  let ?ls = "drop_trailing_empty (split_on newline original)"
  assume h: "newContentsFromChunks path original cs = Inl ComputePanic"
  have "computeReplacements ?ls path cs \<noteq> Inl ComputePanic"
    using chunk_replacements_no_panic by (auto simp: computeReplacements_def bind_res_Inl_iff)
  with h obtain rs where rs: "computeReplacements ?ls path cs = Inr rs" and none: "applyReplacements ?ls rs = None"
    by (auto simp: newContentsFromChunks_def Let_def bind_res_Inl_iff split: option.splits)
  from applyReplacements_total [OF computeReplacements_ok [OF rs]] none show False by auto
qed

section \<open>Disjointness of computed replacements\<close>

text \<open>
  A chunk that replaces lines in place: it names old lines and is not tied to the end of the file.
\<close>

definition in_place :: "UpdateFileChunk \<Rightarrow> bool" where
  "in_place c \<longleftrightarrow> OldLines c \<noteq> [] \<and> \<not> IsEndOfFile c"

lemma locate_old_ge:
  assumes "locate_old lines c i = Some (Some (found, pat, new))" and "\<not> IsEndOfFile c"
  shows "i \<le> found"
proof -
  have "seekSequence lines p i False = Some (Some f) \<Longrightarrow> i \<le> f" for p f
    using seekSequence_SomeD(2) [of lines p i False f]
    by (cases "p = []") (auto simp: seek_start_def)
  with assms show ?thesis
    by (auto simp: locate_old_def Let_def split: option.splits if_splits)
qed

lemma disjoint_from_append:
  "disjoint_from p lines (rs @ [r]) \<longleftrightarrow>
   disjoint_from p lines rs \<and> startIndex r + oldLen r \<le> length lines
   \<and> (if rs = [] then p else startIndex (last rs) + oldLen (last rs)) \<le> startIndex r"
  by (induction rs arbitrary: p) (auto dest: disjoint_from_le)

definition end_of :: "replacement list \<Rightarrow> nat" where
  "end_of rs = (if rs = [] then 0 else startIndex (last rs) + oldLen (last rs))"

lemma chunk_replacements_disjoint:
  "chunk_replacements lines path cs i acc = Inr rs \<Longrightarrow> list_all in_place cs \<Longrightarrow>
   i \<le> length lines \<Longrightarrow> disjoint_from 0 lines acc \<Longrightarrow> end_of acc \<le> i \<Longrightarrow> disjoint_from 0 lines rs"
proof (induction cs arbitrary: i acc)
  case Nil
  then show ?case by simp
next
  case (Cons c cs)
  from Cons.prems(1,2) obtain j f pat new where
    j: "after_context lines path c i = Inr j" and
    loc: "locate_old lines c j = Some (Some (f, pat, new))" and
    rec: "chunk_replacements lines path cs (f + length pat)
      (acc @ [\<lparr>startIndex = f, oldLen = length pat, rNewLines = new\<rparr>]) = Inr rs"
    by (auto simp: bind_res_Inr_iff in_place_def split: option.splits)
  have jle: "i \<le> j" "j \<le> length lines" using after_context_le [OF j] Cons.prems(3) by auto
  have f: "j \<le> f" "f + length pat \<le> length lines"
    using locate_old_ge [OF loc] locate_old_le [OF loc jle(2)] Cons.prems(2) by (auto simp: in_place_def)
  show ?case
  proof (rule Cons.IH [OF rec])
    show "list_all in_place cs" using Cons.prems(2) by simp
    show "f + length pat \<le> length lines" by (rule f)
    show "disjoint_from 0 lines (acc @ [\<lparr>startIndex = f, oldLen = length pat, rNewLines = new\<rparr>])"
      using Cons.prems(4,5) jle f by (auto simp: disjoint_from_append end_of_def split: if_splits)
    show "end_of (acc @ [\<lparr>startIndex = f, oldLen = length pat, rNewLines = new\<rparr>]) \<le> f + length pat"
      by (simp add: end_of_def)
  qed
qed

lemma disjoint_from_sorted: "disjoint_from p lines rs \<Longrightarrow> sorted (map startIndex rs) \<and> (\<forall>r \<in> set rs. p \<le> startIndex r)"
  by (induction rs arbitrary: p) (auto, fastforce+)

lemma computeReplacements_disjoint:
  assumes "computeReplacements lines path cs = Inr rs" and "list_all in_place cs"
  shows "disjoint_from 0 lines rs" and "chunk_replacements lines path cs 0 [] = Inr rs"
proof -
  from assms(1) obtain rs' where rs': "chunk_replacements lines path cs 0 [] = Inr rs'"
    and rs: "rs = sort_key startIndex rs'"
    by (auto simp: computeReplacements_def bind_res_Inr_iff)
  have dj: "disjoint_from 0 lines rs'"
    using chunk_replacements_disjoint [OF rs' assms(2)] by (simp add: end_of_def)
  then have "sort_key startIndex rs' = rs'"
    using disjoint_from_sorted by (blast intro: sort_key_id_if_sorted)
  with rs rs' dj show "disjoint_from 0 lines rs" and "chunk_replacements lines path cs 0 [] = Inr rs" by simp_all
qed

end
