(* ===== verification/Patch_Update_Props.thy ===== *)
theory Patch_Update_Props
  imports Patch_Replace
begin

text \<open>
  What the update step of apply\_patch promises: where a block of old lines is found, that applying
  the computed replacements never panics and equals a single forward pass over the file, and the
  resulting text of a one-chunk update. Two theorems record where the code loses lines.
\<close>

section \<open>Where a block is found\<close>

text \<open>
  C4. seekSequence on a non-empty pattern returns (no slice or index is out of range): a hit lies inside the file, not before the start of the
  search, and matches under one of the four passes; if the pattern occurs verbatim, the hit is the
  first verbatim occurrence; there is no hit only if no pass matches anywhere from the start on.
\<close>

theorem seekSequence_correct:
  assumes "pattern \<noteq> []"
  shows "(\<forall>i. seekSequence lines pattern start eof = Some (Some i) \<longrightarrow>
            seek_start lines pattern start eof \<le> i \<and> i + length pattern \<le> length lines \<and> (\<exists>t \<in> set passes. occurs_at t lines pattern i) \<and>
            (\<forall>j. seek_start lines pattern start eof \<le> j \<and> occurs_at id lines pattern j \<longrightarrow> i \<le> j \<and> occurs_at id lines pattern i))
         \<and> (seekSequence lines pattern start eof = Some None \<longleftrightarrow>
            (\<forall>t \<in> set passes. \<forall>i. seek_start lines pattern start eof \<le> i \<longrightarrow> \<not> occurs_at t lines pattern i))
         \<and> seekSequence lines pattern start eof \<noteq> None"
proof (cases "length pattern \<le> length lines")
  case True
  define lo where "lo = seek_start lines pattern start eof"
  note fp = seekSequence_first_pass [OF assms True, of start eof, folded lo_def]
  have exact: "i \<le> j \<and> occurs_at id lines pattern i"
    if "seekSequence lines pattern start eof = Some (Some i)" and "lo \<le> j" and "occurs_at id lines pattern j" for i j
  proof -
    have "first_occurrence id lines pattern lo \<noteq> None"
      using that(2,3) first_occurrence_None_iff [OF True] by metis
    then have "first_occurrence id lines pattern lo = Some i"
      using that(1) fp by (auto simp: passes_def)
    then show ?thesis
      using that(2,3) by (metis first_occurrence_Some_iff [OF True] not_less)
  qed
  have none: "seekSequence lines pattern start eof = Some None \<longleftrightarrow>
      (\<forall>t \<in> set passes. \<forall>i. lo \<le> i \<longrightarrow> \<not> occurs_at t lines pattern i)"
    using fp first_pass_None_iff [OF True, of passes lo] by simp
  have hit: "lo \<le> i \<and> i + length pattern \<le> length lines \<and> (\<exists>t \<in> set passes. occurs_at t lines pattern i)"
    if "seekSequence lines pattern start eof = Some (Some i)" for i
    using seekSequence_SomeD [OF that assms] by (simp add: lo_def)
  show ?thesis
    unfolding lo_def [symmetric] using exact none hit seekSequence_no_panic by blast
next
  case False
  then show ?thesis using assms by (auto simp: occurs_at_def)
qed

theorem seekSequence_correct_witness:
  "[''b''] \<noteq> ([] :: string list) \<and> seekSequence [''a'', ''b'', ''b''] [''b''] 0 False = Some (Some 1) \<and>
   occurs_at id [''a'', ''b'', ''b''] [''b''] 1"
proof -
  have ne: "[''b''] \<noteq> ([] :: string list)" by simp
  have s: "seekSequence [''a'', ''b'', ''b''] [''b''] 0 False = Some (Some 1)" by code_simp
  have o: "occurs_at id [''a'', ''b'', ''b''] [''b''] 1" by (simp add: occurs_at_def)
  from seekSequence_correct [OF ne, of "[''a'', ''b'', ''b'']" 0 False] s o ne show ?thesis by blast
qed

section \<open>Applying replacements\<close>

text \<open>
  C5. Computing the new contents of any file under any list of chunks never panics: it ends in the
  contents or in an error the code reports. A slice or index out of range anywhere in the four
  passes of seekSequence (the window of lines, the line read per pattern line, equalLines), in the
  removals or in the insertions of applyReplacements would be the third outcome \<open>ComputePanic\<close>.
\<close>

theorem newContents_never_panics:
  "(\<exists>message. newContentsFromChunks path original chunks = Inl (ComputeReplacementsError message))
   \<or> (\<exists>contents. newContentsFromChunks path original chunks = Inr contents)"
proof (cases "newContentsFromChunks path original chunks")
  case (Inl e)
  with newContents_total [of path original chunks] show ?thesis by (cases e) auto
qed simp

text \<open>
  C6. For chunks that replace lines in place, the replacements are disjoint and ascending, and the
  in-place removals and insertions from the last to the first compute the single forward pass
  \<open>splice\<close>: every line outside a replaced block is copied, every block becomes its new lines.
\<close>

theorem applyReplacements_refines_splice:
  assumes "computeReplacements lines path chunks = Inr rs" and "list_all in_place chunks"
  shows "disjoint_from 0 lines rs \<and> applyReplacements lines rs = Some (splice 0 lines rs)"
  using computeReplacements_disjoint(1) [OF assms] applyReplacements_splice by blast

definition sample_chunk :: "string list \<Rightarrow> string list \<Rightarrow> UpdateFileChunk" where
  "sample_chunk old new = (empty_chunk [] False)\<lparr>OldLines := old, NewLines := new\<rparr>"

theorem applyReplacements_refines_splice_witness:
  "\<exists>rs. computeReplacements [''a'', ''b'', ''c''] ''f''
          [sample_chunk [''a''] [''x'', ''y''], sample_chunk [''c''] []] = Inr rs
     \<and> applyReplacements [''a'', ''b'', ''c''] rs = Some [''x'', ''y'', ''b'']"
proof -
  let ?ls = "[''a'', ''b'', ''c'']"
  let ?cs = "[sample_chunk [''a''] [''x'', ''y''], sample_chunk [''c''] []]"
  let ?rs = "[\<lparr>startIndex = 0, oldLen = 1, rNewLines = [''x'', ''y'']\<rparr>,
              \<lparr>startIndex = 2, oldLen = 1, rNewLines = []\<rparr>]"
  have c: "computeReplacements ?ls ''f'' ?cs = Inr ?rs"
    by code_simp
  have p: "list_all in_place ?cs" by (simp add: in_place_def sample_chunk_def empty_chunk_def)
  from applyReplacements_refines_splice [OF c p] c show ?thesis by auto
qed

section \<open>The text of a one-chunk update\<close>

definition file_text :: "string list \<Rightarrow> string" where
  "file_text ls = concat (map (\<lambda>l. l @ nl) ls)"

lemma file_text_join: "file_text ls = join nl (ls @ [[]])"
  by (induction ls) (simp_all add: file_text_def join_Cons)

lemma file_text_lines:
  assumes "\<forall>l \<in> set ls. newline \<notin> set l"
  shows "drop_trailing_empty (split_on newline (file_text ls)) = ls"
proof -
  have "split_on newline (file_text ls) = ls @ [[]]"
    unfolding file_text_join using assms by (intro split_on_join) auto
  then show ?thesis by (simp add: drop_trailing_empty_def)
qed

lemma join_final_newline:
  "join nl (if ls = [] \<or> last ls \<noteq> [] then ls @ [[]] else ls) = file_text (drop_trailing_empty ls)"
  by (cases ls rule: rev_cases) (auto simp: file_text_join drop_trailing_empty_def)

text \<open>
  C7. One chunk that has old lines, no context line and no end-of-file mark, and whose old block
  occurs verbatim first after \<open>pre\<close>: the file with lines \<open>pre @ old @ post\<close> becomes the file with
  lines \<open>pre @ new @ post\<close>, each ended by a newline, except that a blank last line of these is lost.
\<close>

theorem one_chunk_update:
  assumes "\<forall>l \<in> set (pre @ OldLines c @ post). newline \<notin> set l"
    and "OldLines c \<noteq> []" and "\<not> HasChangeContext c" and "\<not> IsEndOfFile c"
    and "\<forall>j < length pre. \<not> occurs_at id (pre @ OldLines c @ post) (OldLines c) j"
  shows "newContentsFromChunks path (file_text (pre @ OldLines c @ post)) [c] =
         Inr (file_text (drop_trailing_empty (pre @ NewLines c @ post)))"
proof -
  let ?ls = "pre @ OldLines c @ post"
  let ?r = "\<lparr>startIndex = length pre, oldLen = length (OldLines c), rNewLines = NewLines c\<rparr>"
  have len: "length (OldLines c) \<le> length ?ls" by simp
  have "first_occurrence id ?ls (OldLines c) 0 = Some (length pre)"
    unfolding first_occurrence_Some_iff [OF len] using assms(5) by (simp add: occurs_at_def)
  then have "seekSequence ?ls (OldLines c) 0 False = Some (Some (length pre))"
    by (simp add: seekSequence_first_pass [OF assms(2) len] seek_start_def passes_def)
  then have "computeReplacements ?ls path [c] = Inr [?r]"
    using assms(2-4) by (simp add: computeReplacements_def after_context_def locate_old_def)
  moreover have "applyReplacements ?ls [?r] = Some (pre @ NewLines c @ post)"
    by (simp add: apply_one_eq)
  ultimately show ?thesis
    unfolding newContentsFromChunks_def file_text_lines [OF assms(1)]
    using join_final_newline [of "pre @ NewLines c @ post"] by simp
qed

theorem one_chunk_update_witness:
  "newContentsFromChunks ''f'' (file_text [''a'', ''b'', ''c'', []]) [sample_chunk [''b''] [''x'', ''y'']] =
   Inr (file_text [''a'', ''x'', ''y'', ''c''])"
  using one_chunk_update [of "[''a'']" "sample_chunk [''b''] [''x'', ''y'']" "[''c'', []]" "''f''"]
  by (simp add: sample_chunk_def empty_chunk_def occurs_at_def drop_trailing_empty_def)

section \<open>Lines the update loses\<close>

text \<open>
  A blank last line that no chunk touches is dropped: replacing the first line of the file
  a, (blank) gives a file without the blank line.
\<close>

theorem trailing_blank_line_lost:
  "newContentsFromChunks ''f'' (file_text [''a'', []]) [sample_chunk [''a''] [''b'']] =
   Inr (file_text [''b''])"
  by code_simp

text \<open>
  An addition after a replacement that reaches a blank last line is lost: the added line is
  inserted before the blank line and then removed together with the old block.
\<close>

theorem addition_lost_by_overlap:
  "newContentsFromChunks ''f'' (file_text [''a'', []])
     [sample_chunk [''a'', []] [''b''], sample_chunk [] [''x'']] =
   Inr (file_text [''b''])"
  by code_simp

end
