(* ===== verification/Go_Path.thy ===== *)
theory Go_Path
  imports Go_Strings
begin

text \<open>
  Lexical path functions of Go's standard library as the program uses them: \<open>path.Clean\<close>, \<open>path.Join\<close>
  and, for Unix, \<open>filepath.Dir\<close>, which is \<open>Clean\<close> of the text up to the last slash.
\<close>

section \<open>Clean and Join\<close>

definition clean_step :: "bool \<Rightarrow> string list \<Rightarrow> string \<Rightarrow> string list" where
  "clean_step rooted out seg =
     (if seg = [] \<or> seg = ''.'' then out
      else if seg = ''..'' then
        (if out \<noteq> [] \<and> last out \<noteq> ''..'' then butlast out
         else if rooted then out
         else out @ [seg])
      else out @ [seg])"

definition clean_segments :: "bool \<Rightarrow> string \<Rightarrow> string list" where
  "clean_segments rooted p = foldl (clean_step rooted) [] (split_on CHR ''/'' p)"

definition path_Clean :: "string \<Rightarrow> string" where
  "path_Clean p =
     (if p = [] then ''.''
      else if hd p = CHR ''/'' then CHR ''/'' # join ''/'' (clean_segments True p)
      else (let out = join ''/'' (clean_segments False p) in if out = [] then ''.'' else out))"

definition path_Join :: "string list \<Rightarrow> string" where
  "path_Join elems =
     (let es = filter (\<lambda>e. e \<noteq> []) elems in if es = [] then [] else path_Clean (join ''/'' es))"

definition filepath_Dir :: "string \<Rightarrow> string" where
  "filepath_Dir p = path_Clean (rev (dropWhile (\<lambda>c. c \<noteq> CHR ''/'') (rev p)))"

section \<open>Cleaning never lengthens a path\<close>

definition seg_weight :: "string list \<Rightarrow> nat" where
  "seg_weight xs = sum_list (map (\<lambda>x. length x + 1) xs)"

lemma seg_weight_simps [simp]:
  "seg_weight [] = 0" "seg_weight (x # xs) = Suc (length x + seg_weight xs)"
  "seg_weight (xs @ ys) = seg_weight xs + seg_weight ys"
  by (simp_all add: seg_weight_def)

lemma seg_weight_split_on: "seg_weight (split_on d s) = Suc (length s)"
  by (induction s) (auto split: list.split)

lemma length_join_slash: "xs \<noteq> [] \<Longrightarrow> Suc (length (join ''/'' xs)) = seg_weight xs"
proof (induction xs)
  case (Cons x xs)
  then show ?case by (cases xs) (auto simp: join_Cons)
qed simp

lemma clean_step_weight: "seg_weight (clean_step rooted out seg) \<le> seg_weight out + Suc (length seg)"
  by (cases out rule: rev_cases) (auto simp: clean_step_def)

lemma clean_fold_weight: "seg_weight (foldl (clean_step rooted) out segs) \<le> seg_weight out + seg_weight segs"
proof (induction segs arbitrary: out)
  case (Cons s segs)
  have "seg_weight (foldl (clean_step rooted) (clean_step rooted out s) segs)
      \<le> seg_weight (clean_step rooted out s) + seg_weight segs" by (rule Cons.IH)
  with clean_step_weight [of rooted out s] show ?case by simp
qed simp

lemma length_clean_segments: "length (join ''/'' (clean_segments rooted p)) \<le> length p"
  using clean_fold_weight [of rooted "[]" "split_on CHR ''/'' p"] length_join_slash [of "clean_segments rooted p"]
  by (cases "clean_segments rooted p = []") (auto simp: clean_segments_def seg_weight_split_on)

lemma clean_segments_slash: "clean_segments rooted (CHR ''/'' # p) = clean_segments rooted p"
  by (simp add: clean_segments_def clean_step_def)

lemma path_Clean_rooted: "path_Clean (CHR ''/'' # p) = CHR ''/'' # join ''/'' (clean_segments True p)"
  by (simp add: path_Clean_def clean_segments_slash)

lemma path_Clean_not_Nil [simp]: "path_Clean p \<noteq> []"
  by (simp add: path_Clean_def Let_def)

lemma length_path_Clean: "length (path_Clean p) \<le> max 1 (length p)"
proof (cases "p \<noteq> [] \<and> hd p = CHR ''/''")
  case True
  then obtain q where "p = CHR ''/'' # q" by (cases p) auto
  then show ?thesis using length_clean_segments [of True q] by (simp add: path_Clean_rooted)
next
  case False
  then show ?thesis using length_clean_segments [of False p] by (auto simp: path_Clean_def Let_def)
qed

lemma clean_segments_trailing_slash: "clean_segments rooted (p @ ''/'') = clean_segments rooted p"
  by (simp add: clean_segments_def split_on_append clean_step_def)

lemma length_path_Clean_trailing_slash:
  assumes "p @ ''/'' \<noteq> ''/''"
  shows "length (path_Clean (p @ ''/'')) < length (p @ ''/'')"
proof (cases p)
  case (Cons c q)
  then show ?thesis
    using length_clean_segments [of True q] length_clean_segments [of False p]
      clean_segments_trailing_slash [of True q] clean_segments_trailing_slash [of False p]
    by (cases "c = CHR ''/''") (auto simp: path_Clean_def Let_def clean_segments_slash)
qed (use assms in simp)

text \<open>Taking the directory shortens a path until it is stable.\<close>

definition dir_measure :: "string \<Rightarrow> nat" where
  "dir_measure p = (if p = ''.'' then 0 else if p = [] then 2 else length p + 1)"

lemma filepath_Dir_decreases:
  assumes "filepath_Dir p \<noteq> p"
  shows "dir_measure (filepath_Dir p) < dir_measure p"
proof (cases "CHR ''/'' \<in> set p")
  case True
  then obtain a b where p: "p = a @ CHR ''/'' # b" "CHR ''/'' \<notin> set b" by (meson split_list_last)
  then have dir: "filepath_Dir p = path_Clean (a @ ''/'')" by (auto simp: filepath_Dir_def dropWhile_append)
  have "length (path_Clean (a @ ''/'')) < length p"
  proof (cases "a = []")
    case True
    with assms p dir show ?thesis by (cases b) (auto simp: path_Clean_rooted clean_segments_def clean_step_def)
  next
    case False
    with length_path_Clean_trailing_slash [of a] p show ?thesis by simp
  qed
  moreover have "p \<noteq> []" "p \<noteq> ''.''" using True by auto
  ultimately show ?thesis using dir by (auto simp: dir_measure_def)
next
  case False
  then have "filepath_Dir p = ''.''" by (simp add: filepath_Dir_def dropWhile_eq_Nil_conv path_Clean_def)
  with assms show ?thesis by (auto simp: dir_measure_def)
qed

end
