(* ===== verification/Go_Text.thy ===== *)
theory Go_Text
  imports Go_Strings
begin

text \<open>
  More of Go's standard library: UTF-8 encoding as the inverse of decoding, strings.Cut, Contains,
  TrimRight and ToLower, strconv.Quote (the verb \<open>%q\<close>) and the file-name functions of path/filepath.

  What depends on the target platform or on the tables of package unicode is a field of the
  environment \<open>go_env\<close>: the target (\<open>runtime.GOOS == "windows"\<close>), the home directory, the length
  of a Windows volume name, the lower-case mapping beyond ASCII and the printable code points beyond
  Latin-1.
\<close>

record go_env =
  env_windows :: bool
  env_home :: "string option"
  env_volume_len :: "string \<Rightarrow> nat"
  env_to_lower :: "rune \<Rightarrow> rune"
  env_is_print :: "rune \<Rightarrow> bool"

text \<open>A Unix environment without non-ASCII tables, for evaluating examples.\<close>

definition posix_env :: go_env where
  "posix_env = \<lparr>env_windows = False, env_home = None, env_volume_len = (\<lambda>_. 0), env_to_lower = (\<lambda>r. r),
     env_is_print = (\<lambda>_. False)\<rparr>"

lemma posix_env_sel [simp]: "env_windows posix_env = False" "env_home posix_env = None"
  by (simp_all add: posix_env_def)

section \<open>Encoding and decoding\<close>

definition valid_rune :: "rune \<Rightarrow> bool" where
  "valid_rune r \<longleftrightarrow> r < 0xD800 \<or> (0xE000 \<le> r \<and> r \<le> 0x10FFFF)"

definition encode_runes :: "rune list \<Rightarrow> string" where
  "encode_runes rs = concat (map encode_rune rs)"

text \<open>A string that is the encoding of a list of code points, which is utf8.ValidString.\<close>

definition valid_utf8 :: "string \<Rightarrow> bool" where
  "valid_utf8 s \<longleftrightarrow> list_all valid_rune (runes s) \<and> encode_runes (runes s) = s"

lemma byte_char_of: "n < 256 \<Longrightarrow> byte (char_of n) = n"
  by (simp add: of_char_of)

lemma encode_rune_ascii: "r < 0x80 \<Longrightarrow> encode_rune r = [char_of r]"
  by (simp add: encode_rune_def Let_def)

lemma encode_byte_ascii: "byte c < 0x80 \<Longrightarrow> encode_rune (byte c) = [c]"
  by (simp add: encode_rune_ascii)

lemma encode_rune_not_Nil [simp]: "encode_rune r \<noteq> []"
  by (simp add: encode_rune_def Let_def)

lemma decode_encode_2:
  assumes "0x80 \<le> r" "r < 0x800"
  shows "decode_rune (encode_rune r @ s) = (r, length (encode_rune r))"
proof -
  have a: "r div 0x40 < 0x20" "2 \<le> r div 0x40" "r mod 0x40 < 0x40" using assms by auto
  have e: "encode_rune r = [char_of (0xC0 + r div 0x40), char_of (0x80 + r mod 0x40)]"
    using assms by (simp add: encode_rune_def Let_def)
  have s: "second_range (0xC0 + r div 0x40) = (0x80, 0xBF)"
    using a by (simp add: second_range_def)
  show ?thesis unfolding e using a s
    by (simp add: decode_rune.simps byte_char_of cont_byte_def Let_def)
qed

lemma mod_64_le: "n mod 0x40 \<le> 63" for n :: nat
  using mod_less_divisor [of "0x40" n] by linarith

lemma base64_3: "r = r div 0x1000 * 0x1000 + r div 0x40 mod 0x40 * 0x40 + r mod 0x40" for r :: nat
proof -
  have "r div 0x40 = r div 0x40 div 0x40 * 0x40 + r div 0x40 mod 0x40" by simp
  moreover have "r div 0x40 div 0x40 = r div 0x1000" by (simp flip: div_mult2_eq)
  moreover have "r = r div 0x40 * 0x40 + r mod 0x40" by simp
  ultimately show ?thesis by linarith
qed

lemma base64_4:
  "r = r div 0x40000 * 0x40000 + r div 0x1000 mod 0x40 * 0x1000 + r div 0x40 mod 0x40 * 0x40 + r mod 0x40"
  for r :: nat
proof -
  have "r div 0x1000 = r div 0x1000 div 0x40 * 0x40 + r div 0x1000 mod 0x40" by simp
  moreover have "r div 0x1000 div 0x40 = r div 0x40000" by (simp flip: div_mult2_eq)
  ultimately show ?thesis using base64_3 [of r] by linarith
qed

lemma decode_encode_3:
  assumes "0x800 \<le> r" "r < 0x10000" "valid_rune r"
  shows "decode_rune (encode_rune r @ s) = (r, length (encode_rune r))"
proof -
  let ?a = "r div 0x1000" and ?b = "r div 0x40 mod 0x40" and ?c = "r mod 0x40"
  have a: "?a < 0x10" "?b < 0x40" "?c < 0x40" using assms by auto
  have r: "r = ?a * 0x1000 + ?b * 0x40 + ?c" by (rule base64_3)
  have e: "encode_rune r = [char_of (0xE0 + ?a), char_of (0x80 + ?b), char_of (0x80 + ?c)]"
    using assms by (auto simp: encode_rune_def Let_def valid_rune_def)
  have "?b \<le> 31" if "?a = 13"
    using r a assms that unfolding valid_rune_def by linarith
  moreover have "32 \<le> ?b" if "?a = 0"
    using r a assms that by linarith
  ultimately
  have b: "cont_byte (fst (second_range (0xE0 + ?a))) (snd (second_range (0xE0 + ?a))) (char_of (0x80 + ?b))"
    using a by (auto simp: second_range_def cont_byte_def byte_char_of valid_rune_def)
  obtain lo hi where "second_range (0xE0 + ?a) = (lo, hi)" by fastforce
  with a b r show ?thesis unfolding e
    by (simp add: decode_rune.simps byte_char_of cont_byte_def Let_def)
qed

lemma decode_encode_4:
  assumes "0x10000 \<le> r" "r \<le> 0x10FFFF"
  shows "decode_rune (encode_rune r @ s) = (r, length (encode_rune r))"
proof -
  let ?a = "r div 0x40000" and ?b = "r div 0x1000 mod 0x40" and ?c = "r div 0x40 mod 0x40"
    and ?d = "r mod 0x40"
  have a: "?a < 5" "?b < 0x40" "?c < 0x40" "?d < 0x40" using assms by auto
  have r: "r = ?a * 0x40000 + ?b * 0x1000 + ?c * 0x40 + ?d" by (rule base64_4)
  have e: "encode_rune r = [char_of (0xF0 + ?a), char_of (0x80 + ?b), char_of (0x80 + ?c), char_of (0x80 + ?d)]"
    using assms by (simp add: encode_rune_def Let_def)
  have "?b \<le> 15" if "?a = 4" using r assms that by linarith
  then have b: "cont_byte (fst (second_range (0xF0 + ?a))) (snd (second_range (0xF0 + ?a))) (char_of (0x80 + ?b))"
    using a assms by (auto simp: second_range_def cont_byte_def byte_char_of)
  obtain lo hi where "second_range (0xF0 + ?a) = (lo, hi)" by fastforce
  with a b r show ?thesis unfolding e
    by (simp add: mod_64_le decode_rune.simps byte_char_of cont_byte_def Let_def)
qed

lemma decode_encode:
  assumes "valid_rune r"
  shows "decode_rune (encode_rune r @ s) = (r, length (encode_rune r))"
proof -
  consider "r < 0x80" | "0x80 \<le> r" "r < 0x800" | "0x800 \<le> r" "r < 0x10000"
    | "0x10000 \<le> r" "r \<le> 0x10FFFF"
    using assms unfolding valid_rune_def by linarith
  then show ?thesis
    using decode_encode_2 decode_encode_3 decode_encode_4 assms
    by cases (simp_all add: encode_rune_ascii decode_rune_ascii byte_char_of)
qed

lemma runes_Nil [simp]: "runes [] = []"
  by (simp add: runes.simps)

lemma runes_encode_Cons: "valid_rune r \<Longrightarrow> runes (encode_rune r @ s) = r # runes s"
  by (subst runes.simps) (simp add: decode_encode)

lemma runes_ascii_Cons: "byte c < 0x80 \<Longrightarrow> runes (c # s) = byte c # runes s"
  by (subst runes.simps) (simp add: decode_rune_ascii)

lemma runes_encode_append:
  "list_all valid_rune rs \<Longrightarrow> runes (encode_runes rs @ s) = rs @ runes s"
  by (induction rs) (simp_all add: encode_runes_def runes_encode_Cons)

lemma runes_encode: "list_all valid_rune rs \<Longrightarrow> runes (encode_runes rs) = rs"
  using runes_encode_append [of rs "[]"] by simp

lemma valid_utf8_iff: "valid_utf8 s \<longleftrightarrow> (\<exists>rs. list_all valid_rune rs \<and> s = encode_runes rs)"
  using runes_encode by (auto simp: valid_utf8_def)

lemma encode_runes_ascii: "list_all (\<lambda>c. byte c < 0x80) s \<Longrightarrow> encode_runes (map byte s) = s"
  by (induction s) (auto simp: encode_runes_def encode_byte_ascii)

section \<open>Searching and trimming\<close>

text \<open>strings.Contains.\<close>

fun Contains :: "string \<Rightarrow> string \<Rightarrow> bool" where
  "Contains [] sub = (sub = [])"
| "Contains (c # cs) sub = (HasPrefix (c # cs) sub \<or> Contains cs sub)"

text \<open>strings.Cut with a one-byte separator.\<close>

fun Cut :: "string \<Rightarrow> char \<Rightarrow> (string \<times> string) option" where
  "Cut [] d = None"
| "Cut (c # cs) d = (if c = d then Some ([], cs) else map_option (apfst ((#) c)) (Cut cs d))"

text \<open>strings.TrimRight with a one-byte cutset.\<close>

definition TrimRight :: "string \<Rightarrow> char \<Rightarrow> string" where
  "TrimRight s d = rev (dropWhile ((=) d) (rev s))"

text \<open>unicode.ToLower, and strings.ToLower with its byte-wise path for ASCII strings.\<close>

definition rune_to_lower :: "go_env \<Rightarrow> rune \<Rightarrow> rune" where
  "rune_to_lower env r =
     (if r < 0x80 then (if 0x41 \<le> r \<and> r \<le> 0x5A then r + 0x20 else r) else env_to_lower env r)"

definition ToLower :: "go_env \<Rightarrow> string \<Rightarrow> string" where
  "ToLower env s =
     (if list_all (\<lambda>c. byte c < 0x80) s then map (\<lambda>c. char_of (rune_to_lower env (byte c))) s
      else encode_runes (map (rune_to_lower env) (runes s)))"

lemma Cut_Some_iff: "Cut s d = Some (a, b) \<longleftrightarrow> s = a @ d # b \<and> d \<notin> set a"
proof (induction s arbitrary: a)
  case Nil
  then show ?case by simp
next
  case (Cons c cs)
  then show ?case by (cases a) (auto simp: apfst_def map_prod_def split: prod.splits)
qed

lemma Contains_iff: "Contains s sub \<longleftrightarrow> (\<exists>a b. s = a @ sub @ b)"
proof (induction s)
  case Nil
  then show ?case by auto
next
  case (Cons c cs)
  show ?case unfolding Contains.simps Cons.IH HasPrefix_iff
    by (metis append_Cons append_Nil list.exhaust list.sel(3))
qed

lemma Contains_char: "Contains s [c] \<longleftrightarrow> c \<in> set s"
  by (auto simp: Contains_iff in_set_conv_decomp)

section \<open>Quoting\<close>

definition hex_digit :: "nat \<Rightarrow> char" where
  "hex_digit d = (if d < 10 then char_of (48 + d) else char_of (87 + d))"

definition hex_digits :: "nat \<Rightarrow> nat \<Rightarrow> string" where
  "hex_digits k n = map (\<lambda>i. hex_digit (n div 16 ^ i mod 16)) (rev [0..<k])"

text \<open>strconv.IsPrint and the escapes of strconv.Quote.\<close>

definition IsPrint :: "go_env \<Rightarrow> rune \<Rightarrow> bool" where
  "IsPrint env r =
     (if r \<le> 0xFF then (0x20 \<le> r \<and> r < 0x7F) \<or> (0xA1 \<le> r \<and> r \<noteq> 0xAD) else env_is_print env r)"

definition escape_rune :: "go_env \<Rightarrow> rune \<Rightarrow> string" where
  "escape_rune env r =
     (if r = 0x22 \<or> r = 0x5C then [CHR 0x5C, char_of r]
      else if IsPrint env r then encode_rune r
      else if r = 0x07 then [CHR 0x5C, CHR ''a'']
      else if r = 0x08 then [CHR 0x5C, CHR ''b'']
      else if r = 0x0C then [CHR 0x5C, CHR ''f'']
      else if r = 0x0A then [CHR 0x5C, CHR ''n'']
      else if r = 0x0D then [CHR 0x5C, CHR ''r'']
      else if r = 0x09 then [CHR 0x5C, CHR ''t'']
      else if r = 0x0B then [CHR 0x5C, CHR ''v'']
      else if r < 0x20 \<or> r = 0x7F then [CHR 0x5C, CHR ''x''] @ hex_digits 2 r
      else if r < 0x10000 then [CHR 0x5C, CHR ''u''] @ hex_digits 4 r
      else [CHR 0x5C, CHR ''U''] @ hex_digits 8 r)"

function quote_body :: "go_env \<Rightarrow> string \<Rightarrow> string" where
  "quote_body env s =
     (if s = [] then []
      else (case decode_rune s of
              (r, w) \<Rightarrow>
                (if w = 1 \<and> r = rune_error then [CHR 0x5C, CHR ''x''] @ hex_digits 2 (byte (hd s))
                 else escape_rune env r) @ quote_body env (drop w s)))"
  by pat_completeness auto
termination
proof (relation "measure (\<lambda>(env, s). length s)", goal_cases)
  case 1
  then show ?case by simp
next
  case (2 env s r w)
  then show ?case using decode_rune_width_pos [of s]
    by (auto dest!: sym [of "(r, w)"])
qed

declare quote_body.simps [simp del]

definition Quote :: "go_env \<Rightarrow> string \<Rightarrow> string" where
  "Quote env s = [CHR 0x22] @ quote_body env s @ [CHR 0x22]"

section \<open>File names\<close>

definition path_separator :: "go_env \<Rightarrow> char" where
  "path_separator env = (if env_windows env then CHR 0x5C else CHR ''/'')"

definition IsPathSeparator :: "go_env \<Rightarrow> char \<Rightarrow> bool" where
  "IsPathSeparator env c \<longleftrightarrow> c = CHR ''/'' \<or> (env_windows env \<and> c = CHR 0x5C)"

definition volume_name_len :: "go_env \<Rightarrow> string \<Rightarrow> nat" where
  "volume_name_len env p = (if env_windows env then env_volume_len env p else 0)"

text \<open>filepath.Base: the text after the last separator, trailing separators and volume dropped.\<close>

definition filepath_Base :: "go_env \<Rightarrow> string \<Rightarrow> string" where
  "filepath_Base env path =
     (if path = [] then ''.''
      else
        let stripped = rev (dropWhile (IsPathSeparator env) (rev path));
            path' = drop (volume_name_len env stripped) stripped;
            base = rev (takeWhile (\<lambda>c. \<not> IsPathSeparator env c) (rev path')) in
        if base = [] then [path_separator env] else base)"

definition filepath_IsAbs :: "go_env \<Rightarrow> string \<Rightarrow> bool" where
  "filepath_IsAbs env p =
     (if env_windows env then
        (let l = volume_name_len env p in
         if l = 0 then False
         else if 2 \<le> length p \<and> IsPathSeparator env (p ! 0) \<and> IsPathSeparator env (p ! 1) then True
         else (case drop l p of [] \<Rightarrow> False | c # _ \<Rightarrow> IsPathSeparator env c))
      else HasPrefix p ''/'')"

end
