(* ===== verification/Abs_Path.thy ===== *)
theory Abs_Path
  imports Go_Path Go_Text
begin

text \<open>
  Absolute, lexically normalized paths: \<open>src/internal/utils/abspath\<close> (normalize.go, grammar.go,
  helpers.go, home.go, platform.go and the pure constructors of abspath.go). The package variable
  \<open>isWindows\<close> is the argument \<open>win\<close>, the package variable \<open>homeDir\<close> the argument \<open>home\<close>
  (\<open>None\<close> when the home directory is unknown), so both platforms' grammars are modelled.
\<close>

section \<open>Grammar\<close>

datatype compKind = compPrefix | compRootDir | compNormal

record component =
  compKind_of :: compKind
  compText :: string

abbreviation root_comp :: component where
  "root_comp \<equiv> \<lparr>compKind_of = compRootDir, compText = []\<rparr>"

abbreviation normal_comp :: "string \<Rightarrow> component" where
  "normal_comp t \<equiv> \<lparr>compKind_of = compNormal, compText = t\<rparr>"

abbreviation prefix_comp :: "string \<Rightarrow> component" where
  "prefix_comp t \<equiv> \<lparr>compKind_of = compPrefix, compText = t\<rparr>"

abbreviation slash :: char where "slash \<equiv> CHR ''/''"
abbreviation backslash :: char where "backslash \<equiv> CHR 0x5C"

definition isSeparator :: "bool \<Rightarrow> char \<Rightarrow> bool" where
  "isSeparator win b \<longleftrightarrow> b = slash \<or> (win \<and> b = backslash)"

definition nativeSeparator :: "bool \<Rightarrow> char" where
  "nativeSeparator win = (if win then backslash else slash)"

definition isASCIIAlpha :: "char \<Rightarrow> bool" where
  "isASCIIAlpha b \<longleftrightarrow>
     (byte CHR ''a'' \<le> byte b \<and> byte b \<le> byte CHR ''z'') \<or> (byte CHR ''A'' \<le> byte b \<and> byte b \<le> byte CHR ''Z'')"

fun splitOnSeparators :: "bool \<Rightarrow> string \<Rightarrow> string list" where
  "splitOnSeparators win [] = [[]]"
| "splitOnSeparators win (c # cs) =
     (if isSeparator win c then [] # splitOnSeparators win cs
      else (case splitOnSeparators win cs of [] \<Rightarrow> [[c]] | x # xs \<Rightarrow> (c # x) # xs))"

fun splitFirstSegment :: "bool \<Rightarrow> string \<Rightarrow> string \<times> string" where
  "splitFirstSegment win [] = ([], [])"
| "splitFirstSegment win (c # cs) =
     (if isSeparator win c then ([], cs)
      else (case splitFirstSegment win cs of (seg, rest) \<Rightarrow> (c # seg, rest)))"

definition trimLeftSeparators :: "bool \<Rightarrow> string \<Rightarrow> string" where
  "trimLeftSeparators win s = dropWhile (isSeparator win) s"

definition appendNormalSegments :: "bool \<Rightarrow> component list \<Rightarrow> string \<Rightarrow> component list" where
  "appendNormalSegments win out rest =
     out @ map normal_comp (filter (\<lambda>seg. seg \<noteq> []) (splitOnSeparators win rest))"

definition parseComponentsUnix :: "string \<Rightarrow> component list" where
  "parseComponentsUnix path =
     (let (out, rest) =
        (case path of c # _ \<Rightarrow> if c = slash then ([root_comp], dropWhile (\<lambda>b. b = slash) path) else ([], path)
         | [] \<Rightarrow> ([], path)) in
      out @ map normal_comp (filter (\<lambda>seg. seg \<noteq> []) (split_on slash rest)))"

definition parseComponentsWindows :: "string \<Rightarrow> component list" where
  "parseComponentsWindows path =
     (if 2 \<le> length path \<and> isSeparator True (path ! 0) \<and> isSeparator True (path ! 1) then
        (let (server, afterServer) = splitFirstSegment True (drop 2 path);
             (share, afterShare) = splitFirstSegment True afterServer in
         if server \<noteq> [] \<and> share \<noteq> [] then
           appendNormalSegments True
             [prefix_comp ([backslash, backslash] @ server @ [backslash] @ share), root_comp] afterShare
         else appendNormalSegments True [root_comp] (dropWhile (\<lambda>b. b = backslash \<or> b = slash) path))
      else if 2 \<le> length path \<and> isASCIIAlpha (path ! 0) \<and> path ! 1 = CHR '':'' then
        (let rest = drop 2 path; pre = prefix_comp (take 2 path) in
         if rest \<noteq> [] \<and> isSeparator True (hd rest)
         then appendNormalSegments True [pre, root_comp] (trimLeftSeparators True rest)
         else appendNormalSegments True [pre] rest)
      else if path \<noteq> [] \<and> isSeparator True (hd path)
        then appendNormalSegments True [root_comp] (trimLeftSeparators True path)
      else appendNormalSegments True [] path)"

definition parseComponents :: "bool \<Rightarrow> string \<Rightarrow> component list" where
  "parseComponents win path = (if win then parseComponentsWindows path else parseComponentsUnix path)"

fun render_loop :: "bool \<Rightarrow> bool \<Rightarrow> component list \<Rightarrow> string" where
  "render_loop win needSep [] = []"
| "render_loop win needSep (c # cs) =
     (case compKind_of c of
        compPrefix \<Rightarrow> compText c @ render_loop win False cs
      | compRootDir \<Rightarrow> nativeSeparator win # render_loop win False cs
      | compNormal \<Rightarrow> (if needSep then [nativeSeparator win] else []) @ compText c @ render_loop win True cs)"

definition renderComponents :: "bool \<Rightarrow> component list \<Rightarrow> string" where
  "renderComponents win comps = render_loop win False comps"

definition hasRoot :: "bool \<Rightarrow> string \<Rightarrow> bool" where
  "hasRoot win path \<longleftrightarrow> list_ex (\<lambda>c. compKind_of c = compRootDir) (parseComponents win path)"

definition pathHasPrefix :: "bool \<Rightarrow> string \<Rightarrow> bool" where
  "pathHasPrefix win path =
     (case parseComponents win path of c # _ \<Rightarrow> compKind_of c = compPrefix | [] \<Rightarrow> False)"

definition prefixOf :: "bool \<Rightarrow> string \<Rightarrow> string" where
  "prefixOf win path =
     (case parseComponents win path of
        c # _ \<Rightarrow> if compKind_of c = compPrefix then compText c else [] | [] \<Rightarrow> [])"

definition isAbsolute :: "bool \<Rightarrow> string \<Rightarrow> bool" where
  "isAbsolute win path =
     (if win then pathHasPrefix win path \<and> hasRoot win path else path \<noteq> [] \<and> hd path = slash)"

definition endsWithSeparator :: "bool \<Rightarrow> string \<Rightarrow> bool" where
  "endsWithSeparator win s \<longleftrightarrow> s \<noteq> [] \<and> isSeparator win (last s)"

definition joinUnix :: "string \<Rightarrow> string \<Rightarrow> string" where
  "joinUnix base path =
     (if isAbsolute False path then path
      else if base = [] then path
      else if HasSuffix base ''/'' then base @ path
      else base @ ''/'' @ path)"

definition joinWindows :: "string \<Rightarrow> string \<Rightarrow> string" where
  "joinWindows base path =
     (if isAbsolute True path \<or> pathHasPrefix True path then path
      else if base = [] then path
      else if hasRoot True path then prefixOf True base @ path
      else if endsWithSeparator True base then base @ path
      else base @ [backslash] @ path)"

section \<open>Normalization\<close>

definition popComponent :: "component list \<Rightarrow> component list" where
  "popComponent comps =
     (if comps = [] then comps
      else if compKind_of (last comps) = compNormal then butlast comps
      else comps)"

definition normalize_step :: "component list \<Rightarrow> component \<Rightarrow> component list" where
  "normalize_step out c =
     (case compKind_of c of
        compNormal \<Rightarrow>
          if compText c = ''.'' then out
          else if compText c = ''..'' then popComponent out
          else out @ [c]
      | _ \<Rightarrow> out @ [c])"

definition normalizePath :: "bool \<Rightarrow> string \<Rightarrow> string" where
  "normalizePath win path =
     (let out = foldl normalize_step [] (parseComponents win path) in
      if out = [] then ''.'' else renderComponents win out)"

definition pathWithBaseUnix :: "string \<Rightarrow> string \<Rightarrow> string" where
  "pathWithBaseUnix path base = (if isAbsolute False path then path else joinUnix base path)"

definition pathWithBaseWindows :: "string \<Rightarrow> string \<Rightarrow> string" where
  "pathWithBaseWindows path base =
     (if isAbsolute True path \<or> hasRoot True path then joinWindows base path
      else
        (case parseComponents True path of
           [] \<Rightarrow> joinWindows base path
         | prefix # rest \<Rightarrow>
             if compKind_of prefix \<noteq> compPrefix then joinWindows base path
             else if rest = [] then renderComponents True [prefix, root_comp]
             else
               let baseComps = parseComponents True base;
                   skip = (case baseComps of b # _ \<Rightarrow> if compKind_of b = compPrefix then 1 else 0 | [] \<Rightarrow> 0) in
               renderComponents True ([prefix] @ drop skip baseComps @ rest)))"

definition pathWithBase :: "bool \<Rightarrow> string \<Rightarrow> string \<Rightarrow> string" where
  "pathWithBase win path base = (if win then pathWithBaseWindows path base else pathWithBaseUnix path base)"

definition absolutizeFrom :: "bool \<Rightarrow> string \<Rightarrow> string \<Rightarrow> string" where
  "absolutizeFrom win path base = normalizePath win (pathWithBase win path base)"

definition rootPath :: "bool \<Rightarrow> string" where
  "rootPath win = (if win then [backslash] else ''/'')"

text \<open>The path without its last normal component; \<open>None\<close> at a root.\<close>

definition parentOf :: "bool \<Rightarrow> string \<Rightarrow> string option" where
  "parentOf win path =
     (case dropWhile (\<lambda>c. compKind_of c \<noteq> compNormal) (rev (parseComponents win path)) of
        [] \<Rightarrow> None
      | _ # before \<Rightarrow>
          let parent = rev before in
          if parent = [] then None else Some (renderComponents win parent))"

section \<open>Constructors\<close>

definition isWindowsDriveAbsolutePath :: "string \<Rightarrow> bool" where
  "isWindowsDriveAbsolutePath path \<longleftrightarrow>
     3 \<le> length path \<and> isASCIIAlpha (path ! 0) \<and> path ! 1 = CHR '':''
     \<and> (path ! 2 = backslash \<or> path ! 2 = slash)"

definition normalizeWindowsDevicePath :: "string \<Rightarrow> string option" where
  "normalizeWindowsDevicePath path =
     (let verbatim = [backslash, backslash] @ ''?'' @ [backslash];
          device = [backslash, backslash] @ ''.'' @ [backslash];
          unc = ''UNC'' @ [backslash] in
      case CutPrefix path (verbatim @ unc) of
        Some rest \<Rightarrow> Some ([backslash, backslash] @ rest)
      | None \<Rightarrow>
      (case CutPrefix path (device @ unc) of
        Some rest \<Rightarrow> Some ([backslash, backslash] @ rest)
      | None \<Rightarrow>
      (case CutPrefix path verbatim of
        Some rest \<Rightarrow>
          if isWindowsDriveAbsolutePath rest then Some rest
          else
            (case CutPrefix path device of
               Some rest' \<Rightarrow> if isWindowsDriveAbsolutePath rest' then Some rest' else None
             | None \<Rightarrow> None)
      | None \<Rightarrow>
          (case CutPrefix path device of
             Some rest' \<Rightarrow> if isWindowsDriveAbsolutePath rest' then Some rest' else None
           | None \<Rightarrow> None))))"

definition normalizePathForPlatform :: "bool \<Rightarrow> string \<Rightarrow> string" where
  "normalizePathForPlatform win path =
     (if win then (case normalizeWindowsDevicePath path of Some n \<Rightarrow> n | None \<Rightarrow> path) else path)"

definition joinHome :: "bool \<Rightarrow> string \<Rightarrow> string \<Rightarrow> string" where
  "joinHome win home rest = (if win then joinWindows home rest else joinUnix home rest)"

definition maybeExpandHomeDirectory :: "bool \<Rightarrow> string option \<Rightarrow> string \<Rightarrow> string" where
  "maybeExpandHomeDirectory win homeDir path =
     (case CutPrefix path ''~'' of
        None \<Rightarrow> path
      | Some rest \<Rightarrow>
          (case homeDir of
             None \<Rightarrow> path
           | Some home \<Rightarrow>
               if rest = [] then home
               else
                 (case CutPrefix rest ''/'' of
                    Some r \<Rightarrow> joinHome win home (dropWhile (\<lambda>b. b = slash) r)
                  | None \<Rightarrow>
                      (if win then
                         (case CutPrefix rest [backslash] of
                            Some r \<Rightarrow> joinHome win home (dropWhile (\<lambda>b. b = backslash) r)
                          | None \<Rightarrow> path)
                       else path))))"

definition ResolvePathAgainstBase :: "bool \<Rightarrow> string option \<Rightarrow> string \<Rightarrow> string \<Rightarrow> string" where
  "ResolvePathAgainstBase win homeDir path basePath =
     (let expanded = normalizePathForPlatform win (maybeExpandHomeDirectory win homeDir path);
          base = normalizePathForPlatform win basePath in
      absolutizeFrom win expanded base)"

datatype abspath_error = ErrNotAbsolute string

fun abspath_error_text :: "abspath_error \<Rightarrow> string" where
  "abspath_error_text (ErrNotAbsolute path) = ''path is not absolute: '' @ path"

definition FromAbsolutePathChecked :: "bool \<Rightarrow> string option \<Rightarrow> string \<Rightarrow> (abspath_error, string) result" where
  "FromAbsolutePathChecked win homeDir path =
     (let expanded = normalizePathForPlatform win (maybeExpandHomeDirectory win homeDir path) in
      if \<not> isAbsolute win expanded then Inl (ErrNotAbsolute path)
      else Inr (absolutizeFrom win expanded (rootPath win)))"

text \<open>
  The constructors that consult the working directory; the answer of os.Getwd is an argument, with the
  text of its error on the left.
\<close>

datatype cwd_error = ResolveRelativeError string string | ReadCurrentDirError string

fun cwd_error_text :: "go_env \<Rightarrow> cwd_error \<Rightarrow> string" where
  "cwd_error_text env (ResolveRelativeError path e) = ''abspath: resolve relative path '' @ Quote env path @ '': '' @ e"
| "cwd_error_text env (ReadCurrentDirError e) = ''abspath: read current dir: '' @ e"

definition FromAbsolutePath :: "bool \<Rightarrow> string option \<Rightarrow> (string, string) result \<Rightarrow> string \<Rightarrow> (cwd_error, string) result" where
  "FromAbsolutePath win homeDir getwd path =
     (let expanded = normalizePathForPlatform win (maybeExpandHomeDirectory win homeDir path) in
      if isAbsolute win expanded then Inr (normalizePath win expanded)
      else case getwd of
             Inl e \<Rightarrow> Inl (ResolveRelativeError path e)
           | Inr cwd \<Rightarrow> Inr (absolutizeFrom win expanded cwd))"

definition CurrentDir :: "bool \<Rightarrow> string option \<Rightarrow> (string, string) result \<Rightarrow> (cwd_error, string) result" where
  "CurrentDir win homeDir getwd =
     (case getwd of Inl e \<Rightarrow> Inl (ReadCurrentDirError e) | Inr cwd \<Rightarrow> FromAbsolutePath win homeDir getwd cwd)"

definition RelativeToCurrentDir :: "bool \<Rightarrow> string option \<Rightarrow> (string, string) result \<Rightarrow> string \<Rightarrow> (cwd_error, string) result" where
  "RelativeToCurrentDir win homeDir getwd path =
     (case getwd of Inl e \<Rightarrow> Inl (ReadCurrentDirError e) | Inr cwd \<Rightarrow> Inr (ResolvePathAgainstBase win homeDir path cwd))"

definition AbsolutePathBuf_Join :: "bool \<Rightarrow> string option \<Rightarrow> string \<Rightarrow> string \<Rightarrow> string" where
  "AbsolutePathBuf_Join win homeDir a path = ResolvePathAgainstBase win homeDir path a"

definition AbsolutePathBuf_Parent :: "bool \<Rightarrow> string \<Rightarrow> string option" where
  "AbsolutePathBuf_Parent win a = parentOf win a"

section \<open>Clean absolute paths (Unix)\<close>

text \<open>A path segment that normalization keeps, and the path made of such segments.\<close>

definition clean_seg :: "string \<Rightarrow> bool" where
  "clean_seg s \<longleftrightarrow> s \<noteq> [] \<and> s \<noteq> ''.'' \<and> s \<noteq> ''..'' \<and> slash \<notin> set s"

definition abs_path :: "string list \<Rightarrow> string" where
  "abs_path segs = slash # join ''/'' segs"

definition clean_abs :: "string \<Rightarrow> bool" where
  "clean_abs p \<longleftrightarrow> (\<exists>segs. list_all clean_seg segs \<and> p = abs_path segs)"

lemma render_normals:
  "render_loop False False (map normal_comp segs) = join ''/'' segs"
  "render_loop False True (map normal_comp segs) = (if segs = [] then [] else slash # join ''/'' segs)"
  by (induction segs) (auto simp: nativeSeparator_def join_Cons)

lemma render_abs: "renderComponents False (root_comp # map normal_comp segs) = abs_path segs"
  by (simp add: renderComponents_def nativeSeparator_def render_normals abs_path_def)

lemma split_on_join_slash:
  assumes "list_all clean_seg segs"
  shows "filter (\<lambda>seg. seg \<noteq> []) (split_on slash (join ''/'' segs)) = segs"
proof (cases "segs = []")
  case False
  have "\<forall>x \<in> set segs. slash \<notin> set x" using assms by (auto simp: list_all_iff clean_seg_def)
  with False have "split_on slash (join ''/'' segs) = segs" by (intro split_on_join) auto
  moreover have "filter (\<lambda>seg. seg \<noteq> []) segs = segs"
    using assms by (intro filter_True) (auto simp: list_all_iff clean_seg_def)
  ultimately show ?thesis by simp
qed simp

lemma dropWhile_join_slash:
  assumes "list_all clean_seg segs"
  shows "dropWhile (\<lambda>b. b = slash) (join ''/'' segs) = join ''/'' segs"
proof (cases segs)
  case (Cons s ss)
  with assms obtain c cs where "s = c # cs" "c \<noteq> slash"
    by (cases s) (auto simp: clean_seg_def)
  with Cons show ?thesis by (cases ss) auto
qed simp

lemma parse_abs_path:
  assumes "list_all clean_seg segs"
  shows "parseComponents False (abs_path segs) = root_comp # map normal_comp segs"
  using split_on_join_slash [OF assms] dropWhile_join_slash [OF assms]
  by (simp add: parseComponents_def parseComponentsUnix_def abs_path_def)

lemma parse_unix_absolute:
  assumes "isAbsolute False p"
  shows "\<exists>segs. parseComponents False p = root_comp # map normal_comp segs \<and>
           (\<forall>s \<in> set segs. s \<noteq> [] \<and> slash \<notin> set s)"
proof -
  from assms obtain cs where "p = slash # cs" by (cases p) (auto simp: isAbsolute_def)
  then show ?thesis
    by (auto simp: parseComponents_def parseComponentsUnix_def intro!: exI dest: split_on_no_sep_elems)
qed

lemma normalize_fold:
  assumes "\<forall>s \<in> set segs. s \<noteq> [] \<and> slash \<notin> set s" and "list_all clean_seg acc"
  shows "\<exists>segs'. list_all clean_seg segs' \<and>
    foldl normalize_step (root_comp # map normal_comp acc) (map normal_comp segs) =
    root_comp # map normal_comp segs'"
  using assms
proof (induction segs arbitrary: acc)
  case Nil
  then show ?case by auto
next
  case (Cons s segs)
  have "\<exists>acc'. list_all clean_seg acc' \<and>
      normalize_step (root_comp # map normal_comp acc) (normal_comp s) = root_comp # map normal_comp acc'"
  proof (cases "s = ''..''")
    case True
    show ?thesis
    proof (cases acc rule: rev_cases)
      case Nil
      with True Cons.prems show ?thesis by (simp add: normalize_step_def popComponent_def)
    next
      case (snoc ys y)
      with True Cons.prems show ?thesis
        by (intro exI [of _ ys]) (simp add: normalize_step_def popComponent_def butlast_append)
    qed
  next
    case False
    show ?thesis
    proof (cases "s = ''.''")
      case True
      with Cons.prems show ?thesis by (auto simp: normalize_step_def)
    next
      case dot: False
      with False Cons.prems show ?thesis
        by (intro exI [of _ "acc @ [s]"]) (auto simp: normalize_step_def clean_seg_def list_all_iff)
    qed
  qed
  with Cons show ?case by fastforce
qed

lemma normalize_fold_clean:
  "list_all clean_seg segs \<Longrightarrow>
   foldl normalize_step (root_comp # map normal_comp acc) (map normal_comp segs) =
   root_comp # map normal_comp (acc @ segs)"
proof (induction segs arbitrary: acc)
  case Nil
  then show ?case by simp
next
  case (Cons s segs)
  then have "normalize_step (root_comp # map normal_comp acc) (normal_comp s) =
      root_comp # map normal_comp (acc @ [s])"
    by (simp add: normalize_step_def clean_seg_def)
  with Cons.IH [of "acc @ [s]"] Cons.prems show ?case by simp
qed

lemma normalizePath_clean_abs: "isAbsolute False p \<Longrightarrow> clean_abs (normalizePath False p)"
proof -
  assume "isAbsolute False p"
  then obtain segs where segs: "parseComponents False p = root_comp # map normal_comp segs"
    "\<forall>s \<in> set segs. s \<noteq> [] \<and> slash \<notin> set s"
    using parse_unix_absolute by blast
  from normalize_fold [OF segs(2), of "[]"] obtain segs' where
    "list_all clean_seg segs'"
    "foldl normalize_step [root_comp] (map normal_comp segs) = root_comp # map normal_comp segs'"
    by auto
  with segs(1) show ?thesis
    by (auto simp: normalizePath_def normalize_step_def render_abs clean_abs_def)
qed

lemma normalizePath_abs_path:
  "list_all clean_seg segs \<Longrightarrow> normalizePath False (abs_path segs) = abs_path segs"
  using normalize_fold_clean [of segs "[]"]
  by (simp add: normalizePath_def parse_abs_path normalize_step_def render_abs)

lemma isAbsolute_abs_path [simp]: "isAbsolute False (abs_path segs)"
  by (simp add: isAbsolute_def abs_path_def)

lemma pathWithBase_absolute:
  "isAbsolute False base \<Longrightarrow> isAbsolute False (pathWithBase False p base)"
  by (cases base) (auto simp: pathWithBase_def pathWithBaseUnix_def joinUnix_def isAbsolute_def)

lemma FromAbsolutePathChecked_abs_path:
  "list_all clean_seg segs \<Longrightarrow> FromAbsolutePathChecked False homeDir (abs_path segs) = Inr (abs_path segs)"
proof -
  assume segs: "list_all clean_seg segs"
  have "maybeExpandHomeDirectory False homeDir (abs_path segs) = abs_path segs"
    by (simp add: maybeExpandHomeDirectory_def abs_path_def)
  with segs show ?thesis
    by (simp add: FromAbsolutePathChecked_def normalizePathForPlatform_def absolutizeFrom_def
        pathWithBase_def pathWithBaseUnix_def normalizePath_abs_path)
qed

text \<open>
  C10. On Unix, resolving any path against an absolute base gives an absolute, lexically normalized
  path: a slash followed by segments none of which is empty, a dot, a double dot or contains a
  slash; and resolving such a path again, against any base, returns it unchanged.
\<close>

theorem ResolvePathAgainstBase_clean:
  assumes "isAbsolute False base"
  shows "clean_abs (ResolvePathAgainstBase False homeDir path base)
       \<and> ResolvePathAgainstBase False homeDir' (ResolvePathAgainstBase False homeDir path base) base' =
         ResolvePathAgainstBase False homeDir path base"
proof -
  let ?r = "ResolvePathAgainstBase False homeDir path base"
  have clean: "clean_abs ?r"
    using assms
    by (simp add: ResolvePathAgainstBase_def normalizePathForPlatform_def absolutizeFrom_def
        normalizePath_clean_abs pathWithBase_absolute)
  then obtain segs where segs: "list_all clean_seg segs" "?r = abs_path segs"
    by (auto simp: clean_abs_def)
  have "ResolvePathAgainstBase False homeDir' (abs_path segs) base' = abs_path segs"
  proof -
    have "CutPrefix (abs_path segs) ''~'' = None" by (simp add: abs_path_def)
    with segs(1) show ?thesis
      by (simp add: ResolvePathAgainstBase_def normalizePathForPlatform_def maybeExpandHomeDirectory_def
          absolutizeFrom_def pathWithBase_def pathWithBaseUnix_def normalizePath_abs_path)
  qed
  with clean segs(2) show ?thesis by simp
qed

theorem ResolvePathAgainstBase_clean_witness:
  "clean_abs (ResolvePathAgainstBase False None ''../../../x'' ''/a/b'') \<and>
   ResolvePathAgainstBase False None ''../../../x'' ''/a/b'' = ''/x''"
proof -
  have a: "isAbsolute False ''/a/b''" by (simp add: isAbsolute_def)
  have "ResolvePathAgainstBase False None ''../../../x'' ''/a/b'' = ''/x''"
    by (simp add: ResolvePathAgainstBase_def normalizePathForPlatform_def maybeExpandHomeDirectory_def
        absolutizeFrom_def pathWithBase_def pathWithBaseUnix_def joinUnix_def isAbsolute_def HasSuffix_def
        HasPrefix_def normalizePath_def parseComponents_def parseComponentsUnix_def normalize_step_def
        popComponent_def renderComponents_def nativeSeparator_def)
  with ResolvePathAgainstBase_clean [OF a, of None "''../../../x''"] show ?thesis by blast
qed

text \<open>
  Parents of normalized paths: the parent of a path is the path without its last segment, and
  the root has no parent.
\<close>

theorem parentOf_abs_path:
  assumes "list_all clean_seg (segs @ [s])"
  shows "parentOf False (abs_path (segs @ [s])) = Some (abs_path segs) \<and> parentOf False ''/'' = None"
proof -
  have "parentOf False (abs_path (segs @ [s])) = Some (abs_path segs)"
    using parse_abs_path [OF assms] by (simp add: parentOf_def render_abs)
  moreover have "parentOf False ''/'' = None"
    using parse_abs_path [of "[]"] by (simp add: parentOf_def abs_path_def)
  ultimately show ?thesis by simp
qed

theorem parentOf_abs_path_witness: "parentOf False ''/a/b'' = Some ''/a''"
  using parentOf_abs_path [of "[''a'']" "''b''"] by (simp add: clean_seg_def abs_path_def)

section \<open>Ancestors (Unix)\<close>

lemma seg_weight_filter: "seg_weight (filter P xs) \<le> seg_weight xs"
  by (induction xs) auto

lemma length_join_butlast:
  "seg_weight (ss @ [s]) \<le> Suc n \<Longrightarrow> s \<noteq> [] \<Longrightarrow> length (join ''/'' ss) < n"
  using length_join_slash [of ss] by (cases "ss = []"; cases s) auto

lemma parse_unix_weight:
  "\<exists>rooted segs. parseComponents False p = (if rooted then [root_comp] else []) @ map normal_comp segs \<and>
     (\<forall>s \<in> set segs. s \<noteq> []) \<and> seg_weight segs + (if rooted then 1 else 0) \<le> Suc (length p)"
proof -
  have drop: "length (dropWhile (\<lambda>b. b = slash) (slash # cs)) \<le> length cs" for cs
    using length_dropWhile_le [of "\<lambda>b. b = slash" cs] by simp
  show ?thesis
  proof (cases "p \<noteq> [] \<and> hd p = slash")
    case True
    then obtain cs where p: "p = slash # cs" by (cases p) auto
    let ?rest = "dropWhile (\<lambda>b. b = slash) cs"
    let ?segs = "filter (\<lambda>seg. seg \<noteq> []) (split_on slash ?rest)"
    have "seg_weight ?segs \<le> Suc (length ?rest)"
      using seg_weight_filter [of "\<lambda>seg. seg \<noteq> []" "split_on slash ?rest"] by (simp add: seg_weight_split_on)
    moreover have "length ?rest \<le> length cs" by (rule length_dropWhile_le)
    ultimately show ?thesis using p
      by (intro exI [of _ True] exI [of _ ?segs]) (simp add: parseComponents_def parseComponentsUnix_def)
  next
    case False
    let ?segs = "filter (\<lambda>seg. seg \<noteq> []) (split_on slash p)"
    have "seg_weight ?segs \<le> Suc (length p)"
      using seg_weight_filter [of "\<lambda>seg. seg \<noteq> []" "split_on slash p"] by (simp add: seg_weight_split_on)
    with False show ?thesis
      by (intro exI [of _ False] exI [of _ ?segs])
        (cases p; simp add: parseComponents_def parseComponentsUnix_def)
  qed
qed

lemma parentOf_shorter: "parentOf False p = Some q \<Longrightarrow> length q < length p"
proof -
  assume q: "parentOf False p = Some q"
  obtain rooted segs where parse: "parseComponents False p = (if rooted then [root_comp] else []) @ map normal_comp segs"
    and ne: "\<forall>s \<in> set segs. s \<noteq> []" and w: "seg_weight segs + (if rooted then 1 else 0) \<le> Suc (length p)"
    using parse_unix_weight by blast
  show ?thesis
  proof (cases segs rule: rev_cases)
    case Nil
    with q parse show ?thesis by (simp add: parentOf_def split: if_splits)
  next
    case (snoc ss s)
    show ?thesis
    proof (cases rooted)
      case True
      with q parse snoc have "q = abs_path ss" by (simp add: parentOf_def render_abs)
      with length_join_butlast [of ss s "length p - 1"] w ne snoc True show ?thesis
        by (cases "length p") (auto simp: abs_path_def)
    next
      case False
      with q parse snoc have "q = join ''/'' ss"
        by (auto simp: parentOf_def renderComponents_def render_normals Let_def split: if_splits)
      with length_join_butlast [of ss s "length p"] w ne snoc False show ?thesis by simp
    qed
  qed
qed

function AbsolutePathBuf_Ancestors :: "string \<Rightarrow> string list" where
  "AbsolutePathBuf_Ancestors cur =
     cur # (case parentOf False cur of None \<Rightarrow> [] | Some parent \<Rightarrow> AbsolutePathBuf_Ancestors parent)"
  by auto
termination by (relation "measure length") (auto intro: parentOf_shorter)

declare AbsolutePathBuf_Ancestors.simps [simp del]

lemma parentOf_abs_snoc:
  "list_all clean_seg (segs @ [s]) \<Longrightarrow> parentOf False (abs_path (segs @ [s])) = Some (abs_path segs)"
  by (simp add: parse_abs_path parentOf_def render_abs)

lemma parentOf_abs_Nil: "parentOf False (abs_path []) = None"
  by (simp add: parse_abs_path parentOf_def)

lemma last_Ancestors: "list_all clean_seg segs \<Longrightarrow> last (AbsolutePathBuf_Ancestors (abs_path segs)) = ''/''"
proof (induction segs rule: rev_induct)
  case Nil
  then show ?case by (subst AbsolutePathBuf_Ancestors.simps) (simp add: parentOf_abs_Nil, simp add: abs_path_def)
next
  case (snoc s segs)
  moreover have "AbsolutePathBuf_Ancestors p \<noteq> []" for p by (subst AbsolutePathBuf_Ancestors.simps) simp
  ultimately show ?case
    by (subst AbsolutePathBuf_Ancestors.simps) (simp add: parentOf_abs_snoc)
qed

end
