(* ===== verification/Patch_Apply.thy ===== *)
theory Patch_Apply
  imports Patch_Replace Abs_Path
begin

text \<open>
  Applying parsed hunks to a file system: \<open>src/internal/applypatch/apply.go\<close>,
  \<open>apply_types.go\<close>, the FileSystem interface of \<open>filesystem.go\<close> and the reading half of
  deriveNewContentsFromChunks in \<open>replacements.go\<close>. The file system is a record of operations over
  a state, as the Go interface is; writers are functions over a writer state that may fail. A
  run-time panic would be the error value \<open>ErrPanic\<close>.
\<close>

section \<open>The FileSystem interface\<close>

text \<open>An error value: whether it is fs.ErrNotExist, and its text.\<close>

datatype io_error = NotExist string | OtherIO string

fun io_text :: "io_error \<Rightarrow> string" where
  "io_text (NotExist t) = t"
| "io_text (OtherIO t) = t"

fun isNotFound :: "io_error \<Rightarrow> bool" where
  "isNotFound (NotExist _) = True"
| "isNotFound (OtherIO _) = False"

record FileMetadata =
  IsFile :: bool
  IsDirectory :: bool
  IsSymlink :: bool

record 's FileSystem =
  ReadFileText :: "'s \<Rightarrow> string \<Rightarrow> (io_error, string) result"
  WriteFile :: "'s \<Rightarrow> string \<Rightarrow> string \<Rightarrow> 's \<times> io_error option"
  Remove :: "'s \<Rightarrow> string \<Rightarrow> 's \<times> io_error option"
  Metadata :: "'s \<Rightarrow> string \<Rightarrow> (io_error, FileMetadata) result"
  CreateDirAll :: "'s \<Rightarrow> string \<Rightarrow> 's \<times> io_error option"

section \<open>Deltas and errors\<close>

datatype AppliedFileChangeKind = AppliedAdd | AppliedDelete | AppliedUpdate

record AppliedPatchFileChange =
  acKind :: AppliedFileChangeKind
  acContent :: string
  acOverwrittenContent :: string
  acHasOverwrittenContent :: bool
  acMovePath :: string
  acHasMovePath :: bool
  acOldContent :: string
  acOverwrittenMoveContent :: string
  acHasOverwrittenMoveContent :: bool
  acNewContent :: string

record AppliedPatchChange =
  chPath :: string
  chChange :: AppliedPatchFileChange

record AppliedPatchDelta =
  changes :: "AppliedPatchChange list"
  exact :: bool

definition emptyAppliedPatchDelta :: AppliedPatchDelta where
  "emptyAppliedPatchDelta = \<lparr>changes = [], exact = True\<rparr>"

record AffectedPaths =
  apAdded :: "string list"
  apModified :: "string list"
  apDeleted :: "string list"

definition zero_change :: AppliedPatchFileChange where
  "zero_change =
     \<lparr>acKind = AppliedAdd, acContent = [], acOverwrittenContent = [], acHasOverwrittenContent = False,
      acMovePath = [], acHasMovePath = False, acOldContent = [], acOverwrittenMoveContent = [],
      acHasOverwrittenMoveContent = False, acNewContent = []\<rparr>"

datatype ApplyError =
    ErrParse ParseError
  | ErrCompute ComputeReplacementsError
  | IOError string io_error
  | ErrMsg string
  | ErrPanic

fun apply_error_text :: "ApplyError \<Rightarrow> string" where
  "apply_error_text (ErrParse e) = ParseError_Error e"
| "apply_error_text (ErrCompute (ComputeReplacementsError m)) = m"
| "apply_error_text (ErrCompute ComputePanic) = []"
| "apply_error_text (IOError ctx e) = ctx @ '': '' @ io_text e"
| "apply_error_text (ErrMsg m) = m"
| "apply_error_text ErrPanic = []"

record ApplyFailure =
  afErr :: ApplyError
  afDelta :: AppliedPatchDelta

definition applyFailureWithoutDelta :: "ApplyError \<Rightarrow> ApplyFailure" where
  "applyFailureWithoutDelta err = \<lparr>afErr = err, afDelta = emptyAppliedPatchDelta\<rparr>"

definition wrapIOError :: "io_error \<Rightarrow> ApplyError" where
  "wrapIOError err = IOError ''I/O error'' err"

section \<open>Reading and writing helpers\<close>

definition ensureNotDirectory :: "'s FileSystem \<Rightarrow> string \<Rightarrow> 's \<Rightarrow> io_error option" where
  "ensureNotDirectory fsys path s =
     (case Metadata fsys s path of
        Inl err \<Rightarrow> Some err
      | Inr meta \<Rightarrow> if IsDirectory meta then Some (OtherIO ''path is a directory'') else None)"

definition removeFailureWasSideEffectFree ::
  "'s FileSystem \<Rightarrow> string \<Rightarrow> string \<Rightarrow> bool \<Rightarrow> 's \<Rightarrow> bool" where
  "removeFailureWasSideEffectFree fsys path expected hasExpected s =
     (if \<not> hasExpected then False
      else (case ReadFileText fsys s path of Inl _ \<Rightarrow> False | Inr content \<Rightarrow> content = expected))"

text \<open>The helpers that take \<open>exact *bool\<close> return its new value.\<close>

definition noteExistingPathDeltaSupport :: "'s FileSystem \<Rightarrow> string \<Rightarrow> 's \<Rightarrow> bool \<Rightarrow> bool" where
  "noteExistingPathDeltaSupport fsys path s ex =
     (case Metadata fsys s path of
        Inr meta \<Rightarrow> if IsFile meta \<and> \<not> IsSymlink meta then ex else False
      | Inl err \<Rightarrow> if isNotFound err then ex else False)"

definition readOptionalFileTextForDelta ::
  "'s FileSystem \<Rightarrow> string \<Rightarrow> 's \<Rightarrow> bool \<Rightarrow> string option \<times> bool" where
  "readOptionalFileTextForDelta fsys path s ex =
     (let ex' = noteExistingPathDeltaSupport fsys path s ex in
      case ReadFileText fsys s path of
        Inr content \<Rightarrow> (Some content, ex')
      | Inl err \<Rightarrow> if isNotFound err then (None, ex') else (None, False))"

definition readFileTextOK :: "'s FileSystem \<Rightarrow> string \<Rightarrow> 's \<Rightarrow> string option" where
  "readFileTextOK fsys path s = (case ReadFileText fsys s path of Inl _ \<Rightarrow> None | Inr content \<Rightarrow> Some content)"

definition parentDir :: "string \<Rightarrow> string option" where
  "parentDir path = (let dir = filepath_Dir path in if dir = path \<or> dir = [] then None else Some dir)"

definition writeFileWithMissingParentRetry ::
  "'s FileSystem \<Rightarrow> string \<Rightarrow> string \<Rightarrow> 's \<Rightarrow> 's \<times> ApplyError option" where
  "writeFileWithMissingParentRetry fsys pathAbs contents s =
     (case WriteFile fsys s pathAbs contents of
        (s1, None) \<Rightarrow> (s1, None)
      | (s1, Some err) \<Rightarrow>
          if isNotFound err then
            (let (s2, mk) = (case parentDir pathAbs of
                               Some parent \<Rightarrow> CreateDirAll fsys s1 parent | None \<Rightarrow> (s1, None)) in
             case mk of
               Some mkErr \<Rightarrow>
                 (s2, Some (ErrMsg (''Failed to create parent directories for '' @ displayPath pathAbs @ '': '' @ io_text mkErr)))
             | None \<Rightarrow>
                 (case WriteFile fsys s2 pathAbs contents of
                    (s3, Some werr) \<Rightarrow>
                      (s3, Some (ErrMsg (''Failed to write file '' @ displayPath pathAbs @ '': '' @ io_text werr)))
                  | (s3, None) \<Rightarrow> (s3, None)))
          else (s1, Some (ErrMsg (''Failed to write file '' @ displayPath pathAbs @ '': '' @ io_text err))))"

definition deriveNewContentsFromChunks ::
  "'s FileSystem \<Rightarrow> string \<Rightarrow> UpdateFileChunk list \<Rightarrow> 's \<Rightarrow> (ApplyError, string \<times> string) result" where
  "deriveNewContentsFromChunks fsys pathAbs chunks s =
     (case ReadFileText fsys s pathAbs of
        Inl err \<Rightarrow> Inl (IOError (''Failed to read file to update '' @ displayPath pathAbs) err)
      | Inr original \<Rightarrow>
          (case newContentsFromChunks pathAbs original chunks of
             Inl ComputePanic \<Rightarrow> Inl ErrPanic
           | Inl err \<Rightarrow> Inl (ErrCompute err)
           | Inr newContents \<Rightarrow> Inr (original, newContents)))"

section \<open>One hunk\<close>

text \<open>
  The three cases of the hunk loop. Each returns the file system state, the delta and the error, if
  any.
\<close>

definition add_change :: "string \<Rightarrow> string \<Rightarrow> string option \<Rightarrow> AppliedPatchChange" where
  "add_change path content overwritten =
     \<lparr>chPath = path,
      chChange = zero_change\<lparr>acKind := AppliedAdd, acContent := content,
        acOverwrittenContent := (case overwritten of None \<Rightarrow> [] | Some c \<Rightarrow> c),
        acHasOverwrittenContent := (overwritten \<noteq> None)\<rparr>\<rparr>"

definition delete_change :: "string \<Rightarrow> string \<Rightarrow> AppliedPatchChange" where
  "delete_change path content =
     \<lparr>chPath = path, chChange = zero_change\<lparr>acKind := AppliedDelete, acContent := content\<rparr>\<rparr>"

definition update_change :: "string \<Rightarrow> string \<Rightarrow> string \<Rightarrow> AppliedPatchChange" where
  "update_change path old new =
     \<lparr>chPath = path,
      chChange = zero_change\<lparr>acKind := AppliedUpdate, acHasMovePath := False, acOldContent := old,
        acNewContent := new\<rparr>\<rparr>"

definition move_change ::
  "string \<Rightarrow> string \<Rightarrow> string \<Rightarrow> string option \<Rightarrow> string \<Rightarrow> AppliedPatchChange" where
  "move_change path dest old overwritten new =
     \<lparr>chPath = path,
      chChange = zero_change\<lparr>acKind := AppliedUpdate, acMovePath := dest, acHasMovePath := True,
        acOldContent := old,
        acOverwrittenMoveContent := (case overwritten of None \<Rightarrow> [] | Some c \<Rightarrow> c),
        acHasOverwrittenMoveContent := (overwritten \<noteq> None), acNewContent := new\<rparr>\<rparr>"

definition apply_add ::
  "'s FileSystem \<Rightarrow> string \<Rightarrow> string \<Rightarrow> 's \<Rightarrow> AppliedPatchDelta \<Rightarrow> 's \<times> AppliedPatchDelta \<times> ApplyError option" where
  "apply_add fsys pathAbs contents s delta =
     (let (overwritten, ex) = readOptionalFileTextForDelta fsys pathAbs s (exact delta) in
      case writeFileWithMissingParentRetry fsys pathAbs contents s of
        (s1, Some err) \<Rightarrow> (s1, delta\<lparr>exact := False\<rparr>, Some err)
      | (s1, None) \<Rightarrow>
          (s1, \<lparr>changes = changes delta @ [add_change pathAbs contents overwritten], exact = ex\<rparr>, None))"

definition apply_delete ::
  "'s FileSystem \<Rightarrow> string \<Rightarrow> 's \<Rightarrow> AppliedPatchDelta \<Rightarrow> 's \<times> AppliedPatchDelta \<times> ApplyError option" where
  "apply_delete fsys pathAbs s delta =
     (let ex0 = noteExistingPathDeltaSupport fsys pathAbs s (exact delta);
          deleted = readFileTextOK fsys pathAbs s;
          ex1 = (if deleted = None then False else ex0) in
      case ensureNotDirectory fsys pathAbs s of
        Some err \<Rightarrow>
          (s, delta\<lparr>exact := ex1\<rparr>,
           Some (ErrMsg (''Failed to delete file '' @ displayPath pathAbs @ '': '' @ io_text err)))
      | None \<Rightarrow>
          (case Remove fsys s pathAbs of
             (s1, Some err) \<Rightarrow>
               (s1,
                delta\<lparr>exact := ex1 \<and> removeFailureWasSideEffectFree fsys pathAbs
                  (case deleted of None \<Rightarrow> [] | Some c \<Rightarrow> c) (deleted \<noteq> None) s1\<rparr>,
                Some (ErrMsg (''Failed to delete file '' @ displayPath pathAbs @ '': '' @ io_text err)))
           | (s1, None) \<Rightarrow>
               (s1,
                \<lparr>changes = changes delta @ (case deleted of None \<Rightarrow> [] | Some c \<Rightarrow> [delete_change pathAbs c]),
                 exact = ex1\<rparr>,
                None)))"

definition apply_move ::
  "'s FileSystem \<Rightarrow> string \<Rightarrow> string \<Rightarrow> string \<Rightarrow> string \<Rightarrow> 's \<Rightarrow> AppliedPatchDelta \<Rightarrow>
   's \<times> AppliedPatchDelta \<times> ApplyError option" where
  "apply_move fsys pathAbs destAbs original new s delta =
     (let (overwrittenMove, ex) = readOptionalFileTextForDelta fsys destAbs s (exact delta) in
      case writeFileWithMissingParentRetry fsys destAbs new s of
        (s1, Some err) \<Rightarrow> (s1, delta\<lparr>exact := False\<rparr>, Some err)
      | (s1, None) \<Rightarrow>
          (let destWriteIdx = length (changes delta);
               delta1 = \<lparr>changes = changes delta @ [add_change destAbs new overwrittenMove], exact = ex\<rparr> in
           case ensureNotDirectory fsys pathAbs s1 of
             Some err \<Rightarrow>
               (s1, delta1,
                Some (ErrMsg (''Failed to remove original '' @ displayPath pathAbs @ '': '' @ io_text err)))
           | None \<Rightarrow>
               (case Remove fsys s1 pathAbs of
                  (s2, Some err) \<Rightarrow>
                    (s2,
                     delta1\<lparr>exact := ex \<and> removeFailureWasSideEffectFree fsys pathAbs original True s2\<rparr>,
                     Some (ErrMsg (''Failed to remove original '' @ displayPath pathAbs @ '': '' @ io_text err)))
                | (s2, None) \<Rightarrow>
                    (s2,
                     delta1\<lparr>changes := (changes delta1)[destWriteIdx :=
                       move_change pathAbs destAbs original overwrittenMove new]\<rparr>,
                     None))))"

definition apply_update ::
  "'s FileSystem \<Rightarrow> string \<Rightarrow> string option \<Rightarrow> UpdateFileChunk list \<Rightarrow> 's \<Rightarrow> AppliedPatchDelta \<Rightarrow>
   's \<times> AppliedPatchDelta \<times> ApplyError option" where
  "apply_update fsys pathAbs destAbs chunks s delta =
     (let delta0 = delta\<lparr>exact := noteExistingPathDeltaSupport fsys pathAbs s (exact delta)\<rparr> in
      case deriveNewContentsFromChunks fsys pathAbs chunks s of
        Inl err \<Rightarrow> (s, delta0, Some err)
      | Inr (original, new) \<Rightarrow>
          (case destAbs of
             Some dest \<Rightarrow> apply_move fsys pathAbs dest original new s delta0
           | None \<Rightarrow>
               (case WriteFile fsys s pathAbs new of
                  (s1, Some err) \<Rightarrow>
                    (s1, delta0\<lparr>exact := False\<rparr>,
                     Some (ErrMsg (''Failed to write file '' @ displayPath pathAbs @ '': '' @ io_text err)))
                | (s1, None) \<Rightarrow>
                    (s1, delta0\<lparr>changes := changes delta0 @ [update_change pathAbs original new]\<rparr>, None))))"

section \<open>The hunk loop\<close>

text \<open>\<open>resolve\<close> is abspath.ResolvePathAgainstBase with the working directory.\<close>

definition apply_hunk ::
  "'s FileSystem \<Rightarrow> (string \<Rightarrow> string) \<Rightarrow> Hunk \<Rightarrow> 's \<Rightarrow> AppliedPatchDelta \<Rightarrow>
   's \<times> AppliedPatchDelta \<times> ApplyError option" where
  "apply_hunk fsys resolve hunk s delta =
     (case hunkKind hunk of
        HunkAddFile \<Rightarrow> apply_add fsys (resolve (TargetPath hunk)) (hunkContents hunk) s delta
      | HunkDeleteFile \<Rightarrow> apply_delete fsys (resolve (TargetPath hunk)) s delta
      | HunkUpdateFile \<Rightarrow>
          apply_update fsys (resolve (hunkPath hunk))
            (if hunkHasMovePath hunk then Some (resolve (hunkMovePath hunk)) else None)
            (hunkChunks hunk) s delta)"

definition note_affected :: "Hunk \<Rightarrow> AffectedPaths \<Rightarrow> AffectedPaths" where
  "note_affected hunk aff =
     (case hunkKind hunk of
        HunkAddFile \<Rightarrow> aff\<lparr>apAdded := apAdded aff @ [TargetPath hunk]\<rparr>
      | HunkDeleteFile \<Rightarrow> aff\<lparr>apDeleted := apDeleted aff @ [TargetPath hunk]\<rparr>
      | HunkUpdateFile \<Rightarrow> aff\<lparr>apModified := apModified aff @ [TargetPath hunk]\<rparr>)"

fun apply_hunk_loop ::
  "'s FileSystem \<Rightarrow> (string \<Rightarrow> string) \<Rightarrow> Hunk list \<Rightarrow> 's \<Rightarrow> AppliedPatchDelta \<Rightarrow> AffectedPaths \<Rightarrow>
   's \<times> AppliedPatchDelta \<times> (ApplyError, AffectedPaths) result" where
  "apply_hunk_loop fsys resolve [] s delta aff = (s, delta, Inr aff)"
| "apply_hunk_loop fsys resolve (hunk # hunks) s delta aff =
     (case apply_hunk fsys resolve hunk s delta of
        (s1, delta1, Some err) \<Rightarrow> (s1, delta1, Inl err)
      | (s1, delta1, None) \<Rightarrow> apply_hunk_loop fsys resolve hunks s1 delta1 (note_affected hunk aff))"

definition applyHunksToFiles ::
  "'s FileSystem \<Rightarrow> (string \<Rightarrow> string) \<Rightarrow> Hunk list \<Rightarrow> 's \<Rightarrow> AppliedPatchDelta \<Rightarrow>
   's \<times> AppliedPatchDelta \<times> (ApplyError, AffectedPaths) result" where
  "applyHunksToFiles fsys resolve hunks s delta =
     (if hunks = [] then (s, delta, Inl (ErrMsg ''No files were modified.''))
      else apply_hunk_loop fsys resolve hunks s delta \<lparr>apAdded = [], apModified = [], apDeleted = []\<rparr>)"

section \<open>Entry points\<close>

text \<open>An io.Writer: the writer state after the write and the error, if any.\<close>

type_synonym 'w writer = "'w \<Rightarrow> string \<Rightarrow> 'w \<times> io_error option"

fun write_all :: "'w writer \<Rightarrow> string list \<Rightarrow> 'w \<Rightarrow> 'w \<times> io_error option" where
  "write_all wr [] w = (w, None)"
| "write_all wr (x # xs) w =
     (case wr w x of (w1, Some err) \<Rightarrow> (w1, Some err) | (w1, None) \<Rightarrow> write_all wr xs w1)"

definition summary_lines :: "AffectedPaths \<Rightarrow> string list" where
  "summary_lines affected =
     [''Success. Updated the following files:'' @ nl]
     @ map (\<lambda>p. ''A '' @ displayPath p @ nl) (apAdded affected)
     @ map (\<lambda>p. ''M '' @ displayPath p @ nl) (apModified affected)
     @ map (\<lambda>p. ''D '' @ displayPath p @ nl) (apDeleted affected)"

definition PrintSummary :: "'w writer \<Rightarrow> AffectedPaths \<Rightarrow> 'w \<Rightarrow> 'w \<times> io_error option" where
  "PrintSummary wr affected out = write_all wr (summary_lines affected) out"

text \<open>The result: file system, stdout, stderr, and the failure or the committed delta.\<close>

definition ApplyHunks ::
  "'s FileSystem \<Rightarrow> (string \<Rightarrow> string) \<Rightarrow> 'w writer \<Rightarrow> Hunk list \<Rightarrow> 's \<Rightarrow> 'w \<Rightarrow> 'w \<Rightarrow>
   's \<times> 'w \<times> 'w \<times> (ApplyFailure, AppliedPatchDelta) result" where
  "ApplyHunks fsys resolve wr hunks s stdout stderr =
     (case applyHunksToFiles fsys resolve hunks s emptyAppliedPatchDelta of
        (s1, delta, Inr affected) \<Rightarrow>
          (case PrintSummary wr affected stdout of
             (stdout1, Some err) \<Rightarrow> (s1, stdout1, stderr, Inl \<lparr>afErr = wrapIOError err, afDelta = delta\<rparr>)
           | (stdout1, None) \<Rightarrow> (s1, stdout1, stderr, Inr delta))
      | (s1, delta, Inl applyErr) \<Rightarrow>
          (case wr stderr (apply_error_text applyErr @ nl) of
             (stderr1, Some werr) \<Rightarrow> (s1, stdout, stderr1, Inl \<lparr>afErr = wrapIOError werr, afDelta = delta\<rparr>)
           | (stderr1, None) \<Rightarrow> (s1, stdout, stderr1, Inl \<lparr>afErr = applyErr, afDelta = delta\<rparr>)))"

definition ApplyPatch ::
  "'s FileSystem \<Rightarrow> (string \<Rightarrow> string) \<Rightarrow> 'w writer \<Rightarrow> string \<Rightarrow> 's \<Rightarrow> 'w \<Rightarrow> 'w \<Rightarrow>
   's \<times> 'w \<times> 'w \<times> (ApplyFailure, AppliedPatchDelta) result" where
  "ApplyPatch fsys resolve wr patch s stdout stderr =
     (case ParsePatch patch of
        Inl pe \<Rightarrow>
          if peKind pe = RuntimePanic then (s, stdout, stderr, Inl (applyFailureWithoutDelta ErrPanic)) else
          (let msg = (case peKind pe of
                        InvalidHunk \<Rightarrow>
                          ''Invalid patch hunk on line '' @ itoa (int (peLineNumber pe)) @ '': '' @ peMessage pe @ nl
                      | _ \<Rightarrow> ''Invalid patch: '' @ peMessage pe @ nl) in
           case wr stderr msg of
             (stderr1, Some werr) \<Rightarrow> (s, stdout, stderr1, Inl (applyFailureWithoutDelta (wrapIOError werr)))
           | (stderr1, None) \<Rightarrow> (s, stdout, stderr1, Inl (applyFailureWithoutDelta (ErrParse pe))))
      | Inr result \<Rightarrow> ApplyHunks fsys resolve wr (prHunks result) s stdout stderr)"

end
