(* ===== verification/Patch_Delta.thy ===== *)
theory Patch_Delta
  imports Patch_Apply
begin

text \<open>
  The contract of the FileSystem interface as a locale, and what applying hunks promises over it:
  an exact delta describes every mutation, so replaying it on the old files gives the new files and
  undoing it restores the old ones, also when the application failed half way. The contract is
  interpreted on OSFileSystem, the implementation of \<open>filesystem.go\<close>, over a model of the calls of
  package os it makes (entries by path, final symbolic links followed on reading and writing,
  permission failures). Symbolic links among the parent directories are not modelled.
\<close>

section \<open>What a delta means\<close>

type_synonym files = "string \<Rightarrow> string option"

definition overwritten_content :: "AppliedPatchFileChange \<Rightarrow> string option" where
  "overwritten_content c = (if acHasOverwrittenContent c then Some (acOverwrittenContent c) else None)"

definition overwritten_move :: "AppliedPatchFileChange \<Rightarrow> string option" where
  "overwritten_move c = (if acHasOverwrittenMoveContent c then Some (acOverwrittenMoveContent c) else None)"

definition replay_change :: "AppliedPatchChange \<Rightarrow> files \<Rightarrow> files" where
  "replay_change ch v =
     (let c = chChange ch; p = chPath ch in
      case acKind c of
        AppliedAdd \<Rightarrow> v(p := Some (acContent c))
      | AppliedDelete \<Rightarrow> v(p := None)
      | AppliedUpdate \<Rightarrow>
          if acHasMovePath c then v(acMovePath c := Some (acNewContent c), p := None)
          else v(p := Some (acNewContent c)))"

definition undo_change :: "AppliedPatchChange \<Rightarrow> files \<Rightarrow> files" where
  "undo_change ch v =
     (let c = chChange ch; p = chPath ch in
      case acKind c of
        AppliedAdd \<Rightarrow> v(p := overwritten_content c)
      | AppliedDelete \<Rightarrow> v(p := Some (acContent c))
      | AppliedUpdate \<Rightarrow>
          if acHasMovePath c then v(p := Some (acOldContent c), acMovePath c := overwritten_move c)
          else v(p := Some (acOldContent c)))"

definition replay :: "AppliedPatchChange list \<Rightarrow> files \<Rightarrow> files" where
  "replay cs v = fold replay_change cs v"

definition undo :: "AppliedPatchChange list \<Rightarrow> files \<Rightarrow> files" where
  "undo cs v = foldr undo_change cs v"

lemma replay_append [simp]: "replay (xs @ ys) v = replay ys (replay xs v)"
  by (simp add: replay_def)

lemma undo_append [simp]: "undo (xs @ ys) v = undo xs (undo ys v)"
  by (simp add: undo_def)

lemma replay_Nil [simp]: "replay [] v = v" and replay_single [simp]: "replay [c] v = replay_change c v"
  by (simp_all add: replay_def)

lemma undo_Nil [simp]: "undo [] v = v" and undo_single [simp]: "undo [c] v = undo_change c v"
  by (simp_all add: undo_def)

lemmas change_defs = replay_change_def undo_change_def overwritten_content_def overwritten_move_def
  add_change_def delete_change_def update_change_def move_change_def zero_change_def

section \<open>The contract\<close>

definition plain_at :: "'s FileSystem \<Rightarrow> 's \<Rightarrow> string \<Rightarrow> bool" where
  "plain_at fsys s p =
     (case Metadata fsys s p of Inr m \<Rightarrow> IsFile m \<and> \<not> IsSymlink m | Inl _ \<Rightarrow> False)"

definition missing_at :: "'s FileSystem \<Rightarrow> 's \<Rightarrow> string \<Rightarrow> bool" where
  "missing_at fsys s p = (case Metadata fsys s p of Inr _ \<Rightarrow> False | Inl e \<Rightarrow> isNotFound e)"

definition no_symlink :: "'s FileSystem \<Rightarrow> 's \<Rightarrow> string \<Rightarrow> bool" where
  "no_symlink fsys s p = (case Metadata fsys s p of Inr m \<Rightarrow> \<not> IsSymlink m | Inl _ \<Rightarrow> True)"

definition same_entries :: "'s FileSystem \<Rightarrow> ('s \<Rightarrow> files) \<Rightarrow> 's \<Rightarrow> 's \<Rightarrow> bool" where
  "same_entries fsys view s s' \<longleftrightarrow>
     view s' = view s \<and> plain_at fsys s' = plain_at fsys s
     \<and> (\<forall>q. no_symlink fsys s q \<longrightarrow> no_symlink fsys s' q)"

text \<open>What a step adds to an exact delta.\<close>

definition step_ok :: "('s \<Rightarrow> files) \<Rightarrow> 's \<Rightarrow> AppliedPatchDelta \<Rightarrow> 's \<Rightarrow> AppliedPatchDelta \<Rightarrow> bool" where
  "step_ok view s d s' d' \<longleftrightarrow>
     (exact d' \<longrightarrow> exact d \<and>
        (\<exists>cs. changes d' = changes d @ cs \<and> view s' = replay cs (view s) \<and> view s = undo cs (view s')))"

lemma step_ok_refl: "(exact d' \<Longrightarrow> exact d) \<Longrightarrow> changes d' = changes d \<Longrightarrow> view s' = view s \<Longrightarrow> step_ok view s d s' d'"
  by (auto simp: step_ok_def)

lemma step_ok_trans:
  assumes "step_ok view s d s1 d1" and "step_ok view s1 d1 s2 d2"
  shows "step_ok view s d s2 d2"
  unfolding step_ok_def
proof
  assume "exact d2"
  then obtain cs2 where 2: "exact d1" "changes d2 = changes d1 @ cs2" "view s2 = replay cs2 (view s1)"
    "view s1 = undo cs2 (view s2)"
    using assms(2) unfolding step_ok_def by blast
  then obtain cs1 where 1: "exact d" "changes d1 = changes d @ cs1" "view s1 = replay cs1 (view s)"
    "view s = undo cs1 (view s1)"
    using assms(1) unfolding step_ok_def by blast
  have "changes d2 = changes d @ (cs1 @ cs2)" using 1(2) 2(2) by simp
  moreover have "view s2 = replay (cs1 @ cs2) (view s)" using 1(3) 2(3) by simp
  moreover have "view s = undo (cs1 @ cs2) (view s2)" using 1(4) 2(4) by simp
  ultimately show "exact d \<and> (\<exists>cs. changes d2 = changes d @ cs \<and> view s2 = replay cs (view s) \<and>
      view s = undo cs (view s2))" using 1(1) by blast
qed

locale file_system =
  fixes fsys :: "'s FileSystem" and view :: "'s \<Rightarrow> files"
  assumes plain_read: "plain_at fsys s p \<Longrightarrow>
      \<exists>c. view s p = Some c \<and>
        (ReadFileText fsys s p = Inr c \<or> (\<exists>e. ReadFileText fsys s p = Inl e \<and> \<not> isNotFound e))"
    and missing_read: "missing_at fsys s p \<Longrightarrow>
      view s p = None \<and> (\<exists>e. ReadFileText fsys s p = Inl e \<and> isNotFound e)"
    and write_ok: "WriteFile fsys s p c = (s', None) \<Longrightarrow> no_symlink fsys s p \<Longrightarrow>
      view s' = (view s)(p := Some c) \<and> (\<forall>q. plain_at fsys s' q \<longleftrightarrow> q = p \<or> plain_at fsys s q)"
    and write_not_found: "WriteFile fsys s p c = (s', Some e) \<Longrightarrow> isNotFound e \<Longrightarrow> same_entries fsys view s s'"
    and mkdir: "CreateDirAll fsys s p = (s', r) \<Longrightarrow> same_entries fsys view s s'"
    and remove_ok: "Remove fsys s p = (s', None) \<Longrightarrow> plain_at fsys s p \<Longrightarrow> view s' = (view s)(p := None)"
    and remove_failed: "Remove fsys s p = (s', Some e) \<Longrightarrow> plain_at fsys s p \<Longrightarrow>
      (\<forall>q. q \<noteq> p \<longrightarrow> view s' q = view s q) \<and> view s' p \<in> {view s p, None} \<and>
      (\<forall>c. ReadFileText fsys s' p = Inr c \<longrightarrow> view s' p = Some c)"
begin

lemma note_exact:
  "noteExistingPathDeltaSupport fsys p s ex \<Longrightarrow>
   ex \<and> no_symlink fsys s p \<and> (plain_at fsys s p \<or> missing_at fsys s p)"
  by (auto simp: noteExistingPathDeltaSupport_def plain_at_def missing_at_def no_symlink_def
      split: sum.splits if_splits)

lemma plain_no_symlink: "plain_at fsys s p \<Longrightarrow> no_symlink fsys s p"
  by (auto simp: plain_at_def no_symlink_def split: sum.splits)

lemma read_view:
  assumes "plain_at fsys s p \<or> missing_at fsys s p" and "ReadFileText fsys s p = Inr c"
  shows "plain_at fsys s p" and "view s p = Some c"
  using assms plain_read [of s p] missing_read [of s p] by auto

lemma read_optional_exact:
  assumes "readOptionalFileTextForDelta fsys p s ex = (ow, True)"
  shows "ex \<and> no_symlink fsys s p \<and> ow = view s p"
proof -
  have n: "noteExistingPathDeltaSupport fsys p s ex"
    using assms by (auto simp: readOptionalFileTextForDelta_def Let_def split: sum.splits if_splits)
  note e = note_exact [OF n]
  show ?thesis
  proof (cases "ReadFileText fsys s p")
    case (Inl err)
    with assms have "isNotFound err" "ow = None"
      by (auto simp: readOptionalFileTextForDelta_def Let_def split: if_splits)
    with e Inl show ?thesis using plain_read [of s p] missing_read [of s p] by auto
  next
    case (Inr c)
    with assms have "ow = Some c" by (simp add: readOptionalFileTextForDelta_def Let_def)
    with e read_view(2) [OF _ Inr] show ?thesis by simp
  qed
qed

lemma write_retry_ok:
  assumes "writeFileWithMissingParentRetry fsys p c s = (s', None)" and "no_symlink fsys s p"
  shows "view s' = (view s)(p := Some c) \<and> (\<forall>q. plain_at fsys s' q \<longleftrightarrow> q = p \<or> plain_at fsys s q)"
proof -
  obtain s1 r1 where w1: "WriteFile fsys s p c = (s1, r1)" by fastforce
  show ?thesis
  proof (cases r1)
    case None
    with w1 assms write_ok show ?thesis by (auto simp: writeFileWithMissingParentRetry_def)
  next
    case (Some e)
    with w1 assms(1) have nf: "isNotFound e"
      by (auto simp: writeFileWithMissingParentRetry_def split: if_splits)
    have same1: "same_entries fsys view s s1" using write_not_found [OF w1 [unfolded Some] nf] .
    obtain s2 where same2: "same_entries fsys view s1 s2" and w3: "WriteFile fsys s2 p c = (s', None)"
    proof (cases "parentDir p")
      case None
      with w1 Some nf assms(1) have "WriteFile fsys s1 p c = (s', None)"
        by (auto simp: writeFileWithMissingParentRetry_def split: prod.splits option.splits)
      then show ?thesis using that [of s1] by (simp add: same_entries_def)
    next
      case (Some par)
      obtain s2 mk where m: "CreateDirAll fsys s1 par = (s2, mk)" by fastforce
      with Some w1 \<open>r1 = Some e\<close> nf assms(1) have "WriteFile fsys s2 p c = (s', None)"
        by (auto simp: writeFileWithMissingParentRetry_def split: prod.splits option.splits)
      then show ?thesis using that [of s2] mkdir [OF m] by simp
    qed
    have "no_symlink fsys s2 p" using assms(2) same1 same2 by (simp add: same_entries_def)
    from write_ok [OF w3 this] same1 same2 show ?thesis by (simp add: same_entries_def)
  qed
qed

lemma apply_add_ok: "apply_add fsys p c s d = (s', d', r) \<Longrightarrow> step_ok view s d s' d'"
proof -
  assume h: "apply_add fsys p c s d = (s', d', r)"
  obtain ow ex where ro: "readOptionalFileTextForDelta fsys p s (exact d) = (ow, ex)" by fastforce
  obtain s1 e where w: "writeFileWithMissingParentRetry fsys p c s = (s1, e)" by fastforce
  show ?thesis
  proof (cases "e = None \<and> ex")
    case True
    with h ro w have d': "s' = s1" "d' = \<lparr>changes = changes d @ [add_change p c ow], exact = True\<rparr>"
      by (auto simp: apply_add_def)
    from True ro read_optional_exact have re: "exact d" "no_symlink fsys s p" "ow = view s p" by auto
    have "view s1 = (view s)(p := Some c)" using write_retry_ok [of p c s s1] w True re(2) by simp
    with d' re show ?thesis
      by (cases "view s p") (auto simp: step_ok_def change_defs fun_eq_iff)
  next
    case False
    with h ro w have "\<not> exact d'" by (auto simp: apply_add_def split: option.splits)
    then show ?thesis by (simp add: step_ok_def)
  qed
qed

lemma apply_delete_ok: "apply_delete fsys p s d = (s', d', r) \<Longrightarrow> step_ok view s d s' d'"
proof (cases "exact d'")
  case False
  then show ?thesis by (simp add: step_ok_def)
next
  case True
  assume h: "apply_delete fsys p s d = (s', d', r)"
  have "readFileTextOK fsys p s \<noteq> None"
    using h True by (auto simp: apply_delete_def Let_def split: option.splits prod.splits if_splits)
  then obtain c where rd: "ReadFileText fsys s p = Inr c" and ok: "readFileTextOK fsys p s = Some c"
    by (auto simp: readFileTextOK_def split: sum.splits)
  have n: "noteExistingPathDeltaSupport fsys p s (exact d)"
    using h True ok by (auto simp: apply_delete_def Let_def split: option.splits prod.splits)
  note e = note_exact [OF n]
  have plain: "plain_at fsys s p" and v: "view s p = Some c" using read_view [OF _ rd] e by auto
  show ?thesis
  proof (cases "ensureNotDirectory fsys p s")
    case (Some err)
    with h have "s' = s" "changes d' = changes d" by (auto simp: apply_delete_def Let_def)
    with e show ?thesis by (intro step_ok_refl) auto
  next
    case None
    obtain s1 re where rm: "Remove fsys s p = (s1, re)" by fastforce
    show ?thesis
    proof (cases re)
      case (Some err)
      with h None ok rm True have s': "s' = s1" "changes d' = changes d"
        and free: "removeFailureWasSideEffectFree fsys p c True s1"
        by (auto simp: apply_delete_def Let_def)
      have "view s1 p = Some c"
        using free remove_failed [OF rm [unfolded Some] plain]
        by (auto simp: removeFailureWasSideEffectFree_def split: sum.splits)
      with v remove_failed [OF rm [unfolded Some] plain] have "view s1 = view s"
        by (intro ext) metis
      with s' e show ?thesis by (intro step_ok_refl) auto
    next
      case None': None
      with h None ok rm True have s': "s' = s1" "changes d' = changes d @ [delete_change p c]"
        by (auto simp: apply_delete_def Let_def)
      have "view s1 = (view s)(p := None)" using remove_ok [OF rm [unfolded None'] plain] .
      with s' e v show ?thesis by (auto simp: step_ok_def change_defs fun_eq_iff)
    qed
  qed
qed

lemma apply_move_ok:
  assumes h: "apply_move fsys p dest old new s d = (s', d', r)"
    and plain: "plain_at fsys s p" and v: "view s p = Some old"
  shows "step_ok view s d s' d'"
proof (cases "exact d'")
  case False
  then show ?thesis by (simp add: step_ok_def)
next
  case True
  obtain ow ex where ro: "readOptionalFileTextForDelta fsys dest s (exact d) = (ow, ex)" by fastforce
  obtain s1 e where w: "writeFileWithMissingParentRetry fsys dest new s = (s1, e)" by fastforce
  have "e = None" "ex"
    using h True ro w by (auto simp: apply_move_def Let_def split: option.splits prod.splits)
  note w = w [unfolded \<open>e = None\<close>]
  from ro \<open>ex\<close> read_optional_exact have re: "exact d" "no_symlink fsys s dest" "ow = view s dest" by auto
  from write_retry_ok [OF w re(2)] have v1: "view s1 = (view s)(dest := Some new)"
    and plain1: "plain_at fsys s1 p" using plain by auto
  have add: "step_ok view s d s1 \<lparr>changes = changes d @ [add_change dest new ow], exact = ex'\<rparr>" for ex'
    using re v1 by (cases "view s dest") (auto simp: step_ok_def change_defs fun_eq_iff)
  show ?thesis
  proof (cases "ensureNotDirectory fsys p s1")
    case (Some err)
    with h ro w have "s' = s1" "d' = \<lparr>changes = changes d @ [add_change dest new ow], exact = ex\<rparr>"
      by (auto simp: apply_move_def Let_def)
    with add show ?thesis by simp
  next
    case None
    obtain s2 rr where rm: "Remove fsys s1 p = (s2, rr)" by fastforce
    show ?thesis
    proof (cases rr)
      case (Some err)
      with h ro w None rm have s': "s' = s2" "changes d' = changes d @ [add_change dest new ow]"
        and ex': "exact d' = (ex \<and> removeFailureWasSideEffectFree fsys p old True s2)"
        by (auto simp: apply_move_def Let_def)
      have "view s2 p = Some old"
        using ex' True remove_failed [OF rm [unfolded Some] plain1]
        by (auto simp: removeFailureWasSideEffectFree_def split: sum.splits)
      with remove_failed [OF rm [unfolded Some] plain1] have "view s2 = view s1"
        by (intro ext) (metis insertE option.distinct(1) singletonD)
      with s' have "step_ok view s1 \<lparr>changes = changes d @ [add_change dest new ow], exact = ex\<rparr> s' d'"
        using \<open>ex\<close> by (intro step_ok_refl) auto
      with add [of ex] show ?thesis by (rule step_ok_trans)
    next
      case None': None
      with h ro w None rm have s': "s' = s2"
        "changes d' = changes d @ [move_change p dest old ow new]"
        by (auto simp: apply_move_def Let_def)
      have "view s2 = (view s)(dest := Some new, p := None)"
        using remove_ok [OF rm [unfolded None'] plain1] v1 by simp
      with s' re v show ?thesis
        by (cases "view s dest") (auto simp: step_ok_def change_defs fun_eq_iff)
    qed
  qed
qed

lemma apply_update_ok: "apply_update fsys p dest cs s d = (s', d', r) \<Longrightarrow> step_ok view s d s' d'"
proof (cases "exact d'")
  case False
  then show ?thesis by (simp add: step_ok_def)
next
  case True
  assume h: "apply_update fsys p dest cs s d = (s', d', r)"
  let ?n = "noteExistingPathDeltaSupport fsys p s (exact d)"
  let ?d0 = "d\<lparr>exact := ?n\<rparr>"
  have d0: "step_ok view s d s ?d0" using note_exact [of p s "exact d"] by (intro step_ok_refl) auto
  show ?thesis
  proof (cases "deriveNewContentsFromChunks fsys p cs s")
    case (Inl err)
    with h have "s' = s" "d' = ?d0" by (auto simp: apply_update_def Let_def)
    with d0 show ?thesis by simp
  next
    case (Inr on)
    obtain old new where on: "on = (old, new)" by fastforce
    have rd: "ReadFileText fsys s p = Inr old"
      using Inr on by (auto simp: deriveNewContentsFromChunks_def split: ComputeReplacementsError.splits sum.splits option.splits)
    show ?thesis
    proof (cases ?n)
      case n: True
      note e = note_exact [OF n]
      have plain: "plain_at fsys s p" and v: "view s p = Some old" using read_view [OF _ rd] e by auto
      show ?thesis
      proof (cases dest)
        case (Some q)
        with h Inr on have "apply_move fsys p q old new s ?d0 = (s', d', r)"
          by (simp add: apply_update_def Let_def)
        from step_ok_trans [OF d0 apply_move_ok [OF this plain v]] show ?thesis .
      next
        case None
        obtain s1 we where w: "WriteFile fsys s p new = (s1, we)" by fastforce
        with h Inr on None True have "we = None" "s' = s1"
          "changes d' = changes d @ [update_change p old new]"
          by (auto simp: apply_update_def Let_def split: option.splits)
        moreover from this w e write_ok have "view s1 = (view s)(p := Some new)" by blast
        ultimately show ?thesis using e v by (auto simp: step_ok_def change_defs fun_eq_iff)
      qed
    next
      case False
      have "\<not> exact d'"
        using h Inr on False read_optional_exact
        by (fastforce simp: apply_update_def apply_move_def readOptionalFileTextForDelta_def
            noteExistingPathDeltaSupport_def Let_def split: option.splits prod.splits sum.splits if_splits)
      with True show ?thesis by simp
    qed
  qed
qed

lemma apply_hunk_ok: "apply_hunk fsys resolve h s d = (s', d', r) \<Longrightarrow> step_ok view s d s' d'"
  by (auto simp: apply_hunk_def split: HunkKind.splits
      intro: apply_add_ok apply_delete_ok apply_update_ok)

lemma apply_hunk_loop_ok:
  "apply_hunk_loop fsys resolve hs s d aff = (s', d', r) \<Longrightarrow> step_ok view s d s' d'"
proof (induction hs arbitrary: s d aff)
  case Nil
  then show ?case by (auto intro: step_ok_refl)
next
  case (Cons h hs)
  obtain s1 d1 e where h1: "apply_hunk fsys resolve h s d = (s1, d1, e)" by (metis prod_cases3)
  note ok = apply_hunk_ok [OF h1]
  show ?case
  proof (cases e)
    case None
    with Cons.prems h1 have "apply_hunk_loop fsys resolve hs s1 d1 (note_affected h aff) = (s', d', r)" by simp
    from step_ok_trans [OF ok Cons.IH [OF this]] show ?thesis .
  next
    case (Some err)
    with Cons.prems h1 ok show ?thesis by simp
  qed
qed

lemma delta_describes_mutations:
  assumes "applyHunksToFiles fsys resolve hs s emptyAppliedPatchDelta = (s', d, r)" and "exact d"
  shows "view s' = replay (changes d) (view s) \<and> undo (changes d) (view s') = view s"
proof -
  have "step_ok view s emptyAppliedPatchDelta s' d"
    using assms(1) by (auto simp: applyHunksToFiles_def intro: apply_hunk_loop_ok step_ok_refl split: if_splits)
  then obtain cs where "changes d = changes emptyAppliedPatchDelta @ cs"
    "view s' = replay cs (view s)" "view s = undo cs (view s')"
    using assms(2) unfolding step_ok_def by blast
  moreover from this(1) have "changes d = cs" by (simp add: emptyAppliedPatchDelta_def)
  ultimately show ?thesis by metis
qed

end

end
