(* ===== verification/Patch_OS.thy ===== *)
theory Patch_OS
  imports Patch_Delta Patch_Roundtrip
begin

text \<open>
  OSFileSystem of \<open>src/internal/applypatch/filesystem.go\<close> over a model of the disk, its
  interpretation of the FileSystem contract, and the properties of applying a patch on it.
\<close>

section \<open>The calls of package os\<close>

datatype node = NFile string | NDir | NSymlink string

text \<open>Entries by absolute path, and the paths whose permissions deny reading or changing them.\<close>

record disk =
  nodes :: "(string \<times> node) list"
  unreadable :: "string list"
  readonly :: "string list"

definition lookup_node :: "disk \<Rightarrow> string \<Rightarrow> (io_error, node) result" where
  "lookup_node d p =
     (case map_of (nodes d) p of
        Some n \<Rightarrow> Inr n
      | None \<Rightarrow>
          (case parentDir p of
             Some q \<Rightarrow>
               (case map_of (nodes d) q of
                  Some (NFile _) \<Rightarrow> Inl (OtherIO ''not a directory'')
                | _ \<Rightarrow> Inl (NotExist ''no such file or directory''))
           | None \<Rightarrow> Inl (NotExist ''no such file or directory'')))"

fun follow_links :: "nat \<Rightarrow> disk \<Rightarrow> string \<Rightarrow> string option" where
  "follow_links 0 d p = None"
| "follow_links (Suc n) d p =
     (case map_of (nodes d) p of Some (NSymlink t) \<Rightarrow> follow_links n d t | _ \<Rightarrow> Some p)"

definition os_ReadFile :: "disk \<Rightarrow> string \<Rightarrow> (io_error, string) result" where
  "os_ReadFile d p =
     (case follow_links 40 d p of
        None \<Rightarrow> Inl (OtherIO ''too many levels of symbolic links'')
      | Some q \<Rightarrow>
          (case lookup_node d q of
             Inl e \<Rightarrow> Inl e
           | Inr (NFile c) \<Rightarrow> if q \<in> set (unreadable d) then Inl (OtherIO ''permission denied'') else Inr c
           | Inr _ \<Rightarrow> Inl (OtherIO ''is a directory'')))"

definition os_WriteFile :: "disk \<Rightarrow> string \<Rightarrow> string \<Rightarrow> disk \<times> io_error option" where
  "os_WriteFile d p c =
     (case follow_links 40 d p of
        None \<Rightarrow> (d, Some (OtherIO ''too many levels of symbolic links''))
      | Some q \<Rightarrow>
          (case lookup_node d q of
             Inr (NFile _) \<Rightarrow>
               if q \<in> set (readonly d) then (d, Some (OtherIO ''permission denied''))
               else (d\<lparr>nodes := (q, NFile c) # nodes d\<rparr>, None)
           | Inr _ \<Rightarrow> (d, Some (OtherIO ''is a directory''))
           | Inl (OtherIO t) \<Rightarrow> (d, Some (OtherIO t))
           | Inl (NotExist t) \<Rightarrow>
               (case parentDir q of
                  None \<Rightarrow> (d, Some (OtherIO ''is a directory''))
                | Some r \<Rightarrow>
                    (case map_of (nodes d) r of
                       Some NDir \<Rightarrow>
                         if r \<in> set (readonly d) then (d, Some (OtherIO ''permission denied''))
                         else (d\<lparr>nodes := (q, NFile c) # nodes d\<rparr>, None)
                     | Some _ \<Rightarrow> (d, Some (OtherIO ''not a directory''))
                     | None \<Rightarrow> (d, Some (NotExist t))))))"

definition delete_node :: "disk \<Rightarrow> string \<Rightarrow> disk" where
  "delete_node d p = d\<lparr>nodes := filter (\<lambda>e. fst e \<noteq> p) (nodes d)\<rparr>"

definition os_Remove :: "disk \<Rightarrow> string \<Rightarrow> disk \<times> io_error option" where
  "os_Remove d p =
     (case lookup_node d p of
        Inl e \<Rightarrow> (d, Some e)
      | Inr n \<Rightarrow>
          if (case parentDir p of Some r \<Rightarrow> r \<in> set (readonly d) | None \<Rightarrow> True)
          then (d, Some (OtherIO ''permission denied''))
          else if n = NDir \<and> list_ex (\<lambda>e. parentDir (fst e) = Some p) (nodes d)
          then (d, Some (OtherIO ''directory not empty''))
          else (delete_node d p, None))"

definition os_Lstat :: "disk \<Rightarrow> string \<Rightarrow> (io_error, FileMetadata) result" where
  "os_Lstat d p =
     (case lookup_node d p of
        Inl e \<Rightarrow> Inl e
      | Inr (NFile _) \<Rightarrow> Inr \<lparr>IsFile = True, IsDirectory = False, IsSymlink = False\<rparr>
      | Inr NDir \<Rightarrow> Inr \<lparr>IsFile = False, IsDirectory = True, IsSymlink = False\<rparr>
      | Inr (NSymlink _) \<Rightarrow> Inr \<lparr>IsFile = False, IsDirectory = False, IsSymlink = True\<rparr>)"

text \<open>The fuel is the length of the path: each parent is shorter than its child.\<close>

fun mkdir_all :: "nat \<Rightarrow> disk \<Rightarrow> string \<Rightarrow> disk \<times> io_error option" where
  "mkdir_all 0 d p = (d, None)"
| "mkdir_all (Suc n) d p =
     (case map_of (nodes d) p of
        Some NDir \<Rightarrow> (d, None)
      | Some _ \<Rightarrow> (d, Some (OtherIO ''not a directory''))
      | None \<Rightarrow>
          (case (case parentDir p of None \<Rightarrow> (d, None) | Some q \<Rightarrow> mkdir_all n d q) of
             (d1, Some e) \<Rightarrow> (d1, Some e)
           | (d1, None) \<Rightarrow>
               if map_of (nodes d1) p = None then (d1\<lparr>nodes := (p, NDir) # nodes d1\<rparr>, None) else (d1, None)))"

definition os_MkdirAll :: "disk \<Rightarrow> string \<Rightarrow> disk \<times> io_error option" where
  "os_MkdirAll d p = mkdir_all (length p + 1) d p"

text \<open>utf8.Valid.\<close>

function utf8_Valid :: "string \<Rightarrow> bool" where
  "utf8_Valid s =
     (if s = [] then True
      else if decode_rune s = (rune_error, 1) then False
      else utf8_Valid (drop (snd (decode_rune s)) s))"
  by pat_completeness auto
termination
  by (relation "measure length") (auto simp: decode_rune_width_pos)

declare utf8_Valid.simps [simp del]

section \<open>OSFileSystem\<close>

definition OSFileSystem_ReadFileText :: "disk \<Rightarrow> string \<Rightarrow> (io_error, string) result" where
  "OSFileSystem_ReadFileText d path =
     (case os_ReadFile d path of
        Inl err \<Rightarrow> Inl err
      | Inr data \<Rightarrow>
          if \<not> utf8_Valid data then Inl (OtherIO (''read file '' @ path @ '': invalid UTF-8 contents''))
          else Inr data)"

definition OSFileSystem :: "disk FileSystem" where
  "OSFileSystem =
     \<lparr>ReadFileText = OSFileSystem_ReadFileText, WriteFile = os_WriteFile, Remove = os_Remove,
      Metadata = os_Lstat, CreateDirAll = os_MkdirAll\<rparr>"

text \<open>The contents of the plain files.\<close>

definition disk_files :: "disk \<Rightarrow> files" where
  "disk_files d p = (case map_of (nodes d) p of Some (NFile c) \<Rightarrow> Some c | _ \<Rightarrow> None)"

definition is_plain :: "disk \<Rightarrow> string \<Rightarrow> bool" where
  "is_plain d p = (case map_of (nodes d) p of Some (NFile _) \<Rightarrow> True | _ \<Rightarrow> False)"

lemma map_of_filter_key: "map_of (filter (\<lambda>e. fst e \<noteq> p) xs) = (map_of xs)(p := None)"
  by (induction xs) (auto simp: fun_eq_iff)

lemma plain_at_os: "plain_at OSFileSystem d p = is_plain d p"
  by (auto simp: plain_at_def OSFileSystem_def os_Lstat_def lookup_node_def is_plain_def
      split: option.splits node.splits sum.splits)

lemma no_symlink_os: "no_symlink OSFileSystem d p \<longleftrightarrow> (\<forall>t. map_of (nodes d) p \<noteq> Some (NSymlink t))"
  by (auto simp: no_symlink_def OSFileSystem_def os_Lstat_def lookup_node_def
      split: option.splits node.splits sum.splits)

lemma missing_at_os: "missing_at OSFileSystem d p \<Longrightarrow>
    map_of (nodes d) p = None \<and> (\<exists>t. lookup_node d p = Inl (NotExist t))"
  by (auto simp: missing_at_def OSFileSystem_def os_Lstat_def lookup_node_def
      split: option.splits node.splits sum.splits)

lemma follow_no_symlink: "(\<And>t. map_of (nodes d) p \<noteq> Some (NSymlink t)) \<Longrightarrow> follow_links (Suc n) d p = Some p"
  by (auto split: option.splits node.splits)

lemma follow_40: "(\<And>t. map_of (nodes d) p \<noteq> Some (NSymlink t)) \<Longrightarrow> follow_links 40 d p = Some p"
  using follow_no_symlink [of d p 39] by simp

lemma os_read_plain:
  assumes "is_plain d p"
  shows "\<exists>c. disk_files d p = Some c \<and>
    (OSFileSystem_ReadFileText d p = Inr c \<or> (\<exists>e. OSFileSystem_ReadFileText d p = Inl e \<and> \<not> isNotFound e))"
proof -
  from assms obtain c where c: "map_of (nodes d) p = Some (NFile c)"
    by (auto simp: is_plain_def split: option.splits node.splits)
  then have "follow_links 40 d p = Some p" by (intro follow_40) auto
  with c show ?thesis
    by (auto simp: disk_files_def OSFileSystem_ReadFileText_def os_ReadFile_def lookup_node_def)
qed

lemma os_read_missing:
  assumes "missing_at OSFileSystem d p"
  shows "disk_files d p = None \<and> (\<exists>e. OSFileSystem_ReadFileText d p = Inl e \<and> isNotFound e)"
proof -
  from missing_at_os [OF assms] obtain t where t: "map_of (nodes d) p = None" "lookup_node d p = Inl (NotExist t)"
    by auto
  then have "follow_links 40 d p = Some p" by (intro follow_40) auto
  with t show ?thesis by (auto simp: disk_files_def OSFileSystem_ReadFileText_def os_ReadFile_def)
qed

lemma os_write_ok:
  assumes "os_WriteFile d p c = (d', None)" and "no_symlink OSFileSystem d p"
  shows "nodes d' = (p, NFile c) # nodes d"
proof -
  have "follow_links 40 d p = Some p" using assms(2) by (intro follow_40) (simp add: no_symlink_os)
  with assms(1) show ?thesis
    by (auto simp: os_WriteFile_def split: sum.splits node.splits io_error.splits option.splits if_splits)
qed

lemma os_write_not_found: "os_WriteFile d p c = (d', Some e) \<Longrightarrow> d' = d"
  by (auto simp: os_WriteFile_def split: sum.splits node.splits io_error.splits option.splits if_splits)

definition dirs_added :: "disk \<Rightarrow> disk \<Rightarrow> bool" where
  "dirs_added d d' \<longleftrightarrow>
     (\<forall>p. map_of (nodes d') p = map_of (nodes d) p
        \<or> (map_of (nodes d) p = None \<and> map_of (nodes d') p = Some NDir))"

lemma mkdir_all_dirs_added: "mkdir_all n d p = (d', r) \<Longrightarrow> dirs_added d d'"
proof (induction n arbitrary: d p d' r)
  case 0
  then show ?case by (simp add: dirs_added_def)
next
  case (Suc n)
  obtain d1 r1 where d1: "(case parentDir p of None \<Rightarrow> (d, None) | Some q \<Rightarrow> mkdir_all n d q) = (d1, r1)"
    by fastforce
  have a: "dirs_added d d1"
    using d1 Suc.IH by (auto simp: dirs_added_def split: option.splits)
  show ?case
  proof (cases "map_of (nodes d) p")
    case None
    with Suc.prems d1 a show ?thesis
      by (auto simp: dirs_added_def split: option.splits if_splits)
  next
    case (Some x)
    with Suc.prems show ?thesis by (cases x) (auto simp: dirs_added_def)
  qed
qed

lemma dirs_added_same_entries:
  assumes "dirs_added d d'"
  shows "same_entries OSFileSystem disk_files d d'"
proof -
  have "disk_files d' p = disk_files d p" "is_plain d' p = is_plain d p"
    "map_of (nodes d') p = Some (NSymlink t) \<Longrightarrow> map_of (nodes d) p = Some (NSymlink t)" for p t
    using spec [OF assms [unfolded dirs_added_def], of p] by (auto simp: disk_files_def is_plain_def)
  then show ?thesis
    by (auto simp: same_entries_def plain_at_os no_symlink_os fun_eq_iff)
qed

interpretation os_fs: file_system OSFileSystem disk_files
proof
  fix s p
  assume "plain_at OSFileSystem s p"
  then show "\<exists>c. disk_files s p = Some c \<and> (ReadFileText OSFileSystem s p = Inr c
      \<or> (\<exists>e. ReadFileText OSFileSystem s p = Inl e \<and> \<not> isNotFound e))"
    using os_read_plain [of s p] by (simp add: plain_at_os) (simp add: OSFileSystem_def)
next
  fix s p
  assume "missing_at OSFileSystem s p"
  then show "disk_files s p = None \<and> (\<exists>e. ReadFileText OSFileSystem s p = Inl e \<and> isNotFound e)"
    using os_read_missing [of s p] by (simp add: OSFileSystem_def)
next
  fix s p c s'
  assume "WriteFile OSFileSystem s p c = (s', None)" and "no_symlink OSFileSystem s p"
  then have "nodes s' = (p, NFile c) # nodes s"
    using os_write_ok [of s p c s'] by (simp add: OSFileSystem_def)
  then show "disk_files s' = (disk_files s)(p := Some c) \<and>
      (\<forall>q. plain_at OSFileSystem s' q \<longleftrightarrow> q = p \<or> plain_at OSFileSystem s q)"
    by (auto simp: plain_at_os disk_files_def is_plain_def fun_eq_iff)
next
  fix s p c s' e
  assume "WriteFile OSFileSystem s p c = (s', Some e)"
  then have "s' = s" using os_write_not_found [of s p c s' e] by (simp add: OSFileSystem_def)
  then show "same_entries OSFileSystem disk_files s s'" by (simp add: same_entries_def)
next
  fix s p s' r
  assume "CreateDirAll OSFileSystem s p = (s', r)"
  then have "mkdir_all (length p + 1) s p = (s', r)" by (simp add: OSFileSystem_def os_MkdirAll_def)
  then show "same_entries OSFileSystem disk_files s s'"
    by (blast intro: dirs_added_same_entries mkdir_all_dirs_added)
next
  fix s p s'
  assume "Remove OSFileSystem s p = (s', None)"
  then have "s' = delete_node s p"
    by (auto simp: OSFileSystem_def os_Remove_def split: sum.splits option.splits if_splits)
  then show "disk_files s' = (disk_files s)(p := None)"
    by (auto simp: disk_files_def delete_node_def map_of_filter_key fun_eq_iff)
next
  fix s p s' e
  assume r: "Remove OSFileSystem s p = (s', Some e)" and pl: "plain_at OSFileSystem s p"
  from r have s': "s' = s"
    by (auto simp: OSFileSystem_def os_Remove_def split: sum.splits option.splits if_splits)
  have "\<forall>c. ReadFileText OSFileSystem s p = Inr c \<longrightarrow> disk_files s p = Some c"
    using os_read_plain [of s p] pl unfolding plain_at_os by (auto simp: OSFileSystem_def)
  with s' show "(\<forall>q. q \<noteq> p \<longrightarrow> disk_files s' q = disk_files s q) \<and>
      disk_files s' p \<in> {disk_files s p, None} \<and>
      (\<forall>c. ReadFileText OSFileSystem s' p = Inr c \<longrightarrow> disk_files s' p = Some c)" by simp
qed


section \<open>Properties of applying a patch\<close>

text \<open>
  C12. An exact delta is a complete description of what was committed, also after a failure: on the
  operating system's files, replaying it on the files before gives the files after, and undoing it
  restores the files before.
\<close>

theorem exact_delta_describes_mutations:
  assumes "applyHunksToFiles OSFileSystem resolve hunks s emptyAppliedPatchDelta = (s', d, r)" and "exact d"
  shows "disk_files s' = replay (changes d) (disk_files s) \<and> undo (changes d) (disk_files s') = disk_files s"
  using assms by (rule os_fs.delta_describes_mutations)

definition sample_disk :: disk where
  "sample_disk = \<lparr>nodes = [(''/'', NDir), (''/a'', NFile ''x'')], unreadable = [], readonly = []\<rparr>"

definition sample_patch_hunks :: "Hunk list" where
  "sample_patch_hunks =
     [\<lparr>hunkKind = HunkDeleteFile, hunkPath = ''/a'', hunkContents = [], hunkMovePath = [],
       hunkHasMovePath = False, hunkChunks = []\<rparr>,
      \<lparr>hunkKind = HunkAddFile, hunkPath = ''/b'', hunkContents = ''y'', hunkMovePath = [],
       hunkHasMovePath = False, hunkChunks = []\<rparr>]"

lemma sample_parents: "parentDir ''/a'' = Some ''/''" "parentDir ''/b'' = Some ''/''"
  by (simp_all add: parentDir_def filepath_Dir_def path_Clean_def clean_segments_def clean_step_def)

lemma utf8_Valid_ascii: "byte c < 0x80 \<Longrightarrow> utf8_Valid (c # cs) = utf8_Valid cs"
  by (subst utf8_Valid.simps) (simp add: decode_rune_ascii rune_error_def)

lemma utf8_Valid_Nil [simp]: "utf8_Valid []"
  by (simp add: utf8_Valid.simps)

lemma sample_apply:
  "applyHunksToFiles OSFileSystem id sample_patch_hunks sample_disk emptyAppliedPatchDelta =
     (sample_disk\<lparr>nodes := [(''/b'', NFile ''y''), (''/'', NDir)]\<rparr>,
      \<lparr>changes = [delete_change ''/a'' ''x'', add_change ''/b'' ''y'' None], exact = True\<rparr>,
      Inr \<lparr>apAdded = [''/b''], apModified = [], apDeleted = [''/a'']\<rparr>)"
  by (simp add: applyHunksToFiles_def sample_patch_hunks_def apply_hunk_def apply_delete_def apply_add_def
      note_affected_def TargetPath_def emptyAppliedPatchDelta_def noteExistingPathDeltaSupport_def
      readFileTextOK_def ensureNotDirectory_def readOptionalFileTextForDelta_def
      writeFileWithMissingParentRetry_def OSFileSystem_def os_Lstat_def lookup_node_def sample_disk_def
      OSFileSystem_ReadFileText_def os_ReadFile_def follow_links.simps os_Remove_def os_WriteFile_def
      delete_node_def sample_parents utf8_Valid_ascii numeral_eq_Suc Let_def)

theorem exact_delta_describes_mutations_witness:
  "\<exists>s' d r. applyHunksToFiles OSFileSystem id sample_patch_hunks sample_disk emptyAppliedPatchDelta = (s', d, r)
     \<and> exact d \<and> changes d \<noteq> [] \<and> undo (changes d) (disk_files s') = disk_files sample_disk"
proof -
  have "exact \<lparr>changes = [delete_change ''/a'' ''x'', add_change ''/b'' ''y'' None], exact = True\<rparr>" by simp
  from exact_delta_describes_mutations [OF sample_apply this] sample_apply show ?thesis by auto
qed

text \<open>
  The outcomes \<open>RuntimePanic\<close> of the parser and \<open>ComputePanic\<close> of the update step do not occur, so
  no failure of ApplyPatch is a panic, whatever the patch, the file system and the writers do.
\<close>

lemma apply_hunk_no_panic: "apply_hunk fsys resolve h s d = (s', d', Some e) \<Longrightarrow> e \<noteq> ErrPanic"
  using newContents_total
  by (auto simp: apply_hunk_def apply_add_def apply_delete_def apply_update_def apply_move_def
      writeFileWithMissingParentRetry_def deriveNewContentsFromChunks_def Let_def
      split: ComputeReplacementsError.splits HunkKind.splits prod.splits option.splits sum.splits if_splits)

lemma apply_hunk_loop_no_panic:
  "apply_hunk_loop fsys resolve hs s d aff = (s', d', Inl e) \<Longrightarrow> e \<noteq> ErrPanic"
  by (induction hs arbitrary: s d aff) (auto split: prod.splits option.splits dest: apply_hunk_no_panic)

lemma ApplyPatch_never_panics:
  assumes "ApplyPatch fsys resolve wr patch s out err = (s', out', err', Inl failure)"
  shows "afErr failure \<noteq> ErrPanic"
proof -
  have hunks: "afErr failure \<noteq> ErrPanic" if "ApplyHunks fsys resolve wr hs s out err = (s', out', err', Inl failure)" for hs
    using that
    by (auto simp: ApplyHunks_def applyHunksToFiles_def wrapIOError_def
        split: prod.splits sum.splits option.splits if_splits dest: apply_hunk_loop_no_panic)
  show ?thesis
    using assms hunks parse_no_panic
    by (auto simp: ApplyPatch_def ParsePatch_def applyFailureWithoutDelta_def wrapIOError_def Let_def
        split: sum.splits prod.splits option.splits if_splits)
qed

text \<open>A writer that appends to a string.\<close>

definition buffer_writer :: "string writer" where
  "buffer_writer w x = (w @ x, None)"

lemma ParsePatch_empty:
  "ParsePatch [] =
     Inl (newInvalidPatchError (''The last line of the patch must be '' @ sq @ ''*** End Patch'' @ sq))"
  by (simp add: ParsePatch_def parsePatchText_def splitLines_def checkPatchBoundariesLenient_eq
      checkPatchBoundariesStrict_eq checkStartAndEndLinesStrict_def)

text \<open>
  Moving an updated file onto itself deletes it: the new contents are written and then the
  original path, the same one, is removed, and the hunk reports success.
\<close>

theorem move_onto_itself_deletes:
  assumes "apply_move OSFileSystem p p old new s d = (s', d', None)"
  shows "disk_files s' p = None"
proof -
  obtain s1 where r: "Remove OSFileSystem s1 p = (s', None)"
    using assms by (auto simp: apply_move_def Let_def split: prod.splits option.splits)
  then have "s' = delete_node s1 p"
    by (auto simp: OSFileSystem_def os_Remove_def split: sum.splits option.splits if_splits)
  then show ?thesis by (simp add: disk_files_def delete_node_def map_of_filter_key)
qed

theorem move_onto_itself_deletes_witness:
  "\<exists>s' d'. apply_move OSFileSystem ''/a'' ''/a'' ''x'' ''z'' sample_disk emptyAppliedPatchDelta = (s', d', None)
     \<and> disk_files sample_disk ''/a'' = Some ''x'' \<and> disk_files s' ''/a'' = None"
proof -
  have f: "disk_files sample_disk ''/a'' = Some ''x''"
    by (simp add: disk_files_def sample_disk_def)
  have "\<exists>s' d'. apply_move OSFileSystem ''/a'' ''/a'' ''x'' ''z'' sample_disk emptyAppliedPatchDelta = (s', d', None)"
    by (simp add: apply_move_def emptyAppliedPatchDelta_def noteExistingPathDeltaSupport_def
        ensureNotDirectory_def readOptionalFileTextForDelta_def writeFileWithMissingParentRetry_def
        OSFileSystem_def os_Lstat_def lookup_node_def sample_disk_def OSFileSystem_ReadFileText_def
        os_ReadFile_def follow_links.simps os_Remove_def os_WriteFile_def delete_node_def sample_parents
        utf8_Valid_ascii numeral_eq_Suc Let_def)
  with move_onto_itself_deletes f show ?thesis by blast
qed

text \<open>
  A patch that does not parse changes nothing: the file system is untouched and the failure
  carries the empty, exact delta.
\<close>

theorem parse_failure_changes_nothing:
  assumes "ParsePatch patch = Inl e" and "ApplyPatch fsys resolve wr patch s out err = (s', out', err', r)"
  shows "s' = s \<and> out' = out \<and> (\<exists>failure. r = Inl failure \<and> afDelta failure = emptyAppliedPatchDelta)"
  using assms
  by (auto simp: ApplyPatch_def applyFailureWithoutDelta_def Let_def split: prod.splits option.splits if_splits)

theorem parse_failure_changes_nothing_witness:
  "\<exists>e. ParsePatch [] = Inl e \<and>
     (\<exists>s' out' err' r. ApplyPatch OSFileSystem id buffer_writer [] sample_disk [] [] = (s', out', err', r)
        \<and> s' = sample_disk \<and> out' = [])"
proof -
  obtain s' out' err' r where
    a: "ApplyPatch OSFileSystem id buffer_writer [] sample_disk [] [] = (s', out', err', r)"
    by (metis prod_cases4)
  from parse_failure_changes_nothing [OF ParsePatch_empty a] ParsePatch_empty a show ?thesis by blast
qed

end
