(* ===== verification/Exec_Rules.thy ===== *)
theory Exec_Rules
  imports Go_Text Abs_Path
begin

text \<open>
  Decisions, rules and matches of the command policy engine: \<open>src/internal/execpolicy\<close>, files
  decision.go, error.go, rule.go, network\_rule.go and executable\_name.go.
\<close>

section \<open>Decisions (decision.go)\<close>

datatype Decision = DecisionAllow | DecisionPrompt | DecisionForbidden

fun decision_rank :: "Decision \<Rightarrow> nat" where
  "decision_rank DecisionAllow = 0"
| "decision_rank DecisionPrompt = 1"
| "decision_rank DecisionForbidden = 2"

lemma decision_rank_eq_iff [simp]: "decision_rank a = decision_rank b \<longleftrightarrow> a = b"
  by (cases a; cases b) simp_all

text \<open>The constants are declared in increasing severity, so the order is that of the iota values.\<close>

instantiation Decision :: linorder
begin

definition less_eq_Decision :: "Decision \<Rightarrow> Decision \<Rightarrow> bool" where
  "less_eq_Decision a b \<longleftrightarrow> decision_rank a \<le> decision_rank b"

definition less_Decision :: "Decision \<Rightarrow> Decision \<Rightarrow> bool" where
  "less_Decision a b \<longleftrightarrow> decision_rank a < decision_rank b"

instance
  by standard (auto simp: less_eq_Decision_def less_Decision_def)

end

lemma Decision_bounds [simp]: "DecisionAllow \<le> d" "d \<le> DecisionForbidden"
  by (cases d; simp add: less_eq_Decision_def)+

lemma le_DecisionAllow_iff [simp]: "d \<le> DecisionAllow \<longleftrightarrow> d = DecisionAllow"
  by (cases d) (simp_all add: less_eq_Decision_def)

lemma DecisionForbidden_le_iff [simp]: "DecisionForbidden \<le> d \<longleftrightarrow> d = DecisionForbidden"
  by (cases d) (simp_all add: less_eq_Decision_def)

lemma le_DecisionPrompt_iff [simp]: "d \<le> DecisionPrompt \<longleftrightarrow> d \<noteq> DecisionForbidden"
  by (cases d) (simp_all add: less_eq_Decision_def)

definition decision_max :: "Decision \<Rightarrow> Decision \<Rightarrow> Decision" where
  "decision_max d other = (if other > d then other else d)"

lemma decision_max_eq [policy_simps]: "decision_max d other = max d other"
  by (auto simp: decision_max_def max_def)

section \<open>Errors (error.go)\<close>

datatype ErrorKind = ErrInvalidDecision | ErrInvalidPattern | ErrInvalidExample | ErrInvalidRule
  | ErrExampleDidNotMatch | ErrExampleDidMatch | ErrStarlark

record TextPosition =
  pos_Line :: int
  pos_Column :: int

record TextRange =
  range_Start :: TextPosition
  range_End :: TextPosition

record ErrorLocation =
  loc_Path :: string
  loc_Range :: TextRange

text \<open>\<open>err_Wrapped\<close> is the text of the wrapped Starlark error, \<open>None\<close> for nil.\<close>

record policy_error =
  err_Kind :: ErrorKind
  err_Message :: string
  err_Rules :: "string list"
  err_Examples :: "string list"
  err_Rule :: string
  err_Example :: string
  err_Location :: "ErrorLocation option"
  err_Wrapped :: "string option"

definition mk_error :: "ErrorKind \<Rightarrow> string \<Rightarrow> policy_error" where
  "mk_error k msg = \<lparr>err_Kind = k, err_Message = msg, err_Rules = [], err_Examples = [], err_Rule = [],
     err_Example = [], err_Location = None, err_Wrapped = None\<rparr>"

definition errString :: "string option \<Rightarrow> string" where
  "errString err = (case err of None \<Rightarrow> ''<nil>'' | Some s \<Rightarrow> s)"

definition renderStringSlice :: "go_env \<Rightarrow> string list \<Rightarrow> string" where
  "renderStringSlice env values = ''['' @ join '', '' (map (Quote env) values) @ '']''"

definition Error_Error :: "go_env \<Rightarrow> policy_error \<Rightarrow> string" where
  "Error_Error env e =
     (case err_Kind e of
        ErrInvalidDecision \<Rightarrow> ''invalid decision: '' @ err_Message e
      | ErrInvalidPattern \<Rightarrow> ''invalid pattern element: '' @ err_Message e
      | ErrInvalidExample \<Rightarrow> ''invalid example: '' @ err_Message e
      | ErrInvalidRule \<Rightarrow> ''invalid rule: '' @ err_Message e
      | ErrExampleDidNotMatch \<Rightarrow>
          ''expected every example to match at least one rule. rules: '' @ renderStringSlice env (err_Rules e)
            @ ''; unmatched examples: '' @ renderStringSlice env (err_Examples e)
      | ErrExampleDidMatch \<Rightarrow>
          ''expected example to not match rule '' @ [CHR 0x60] @ err_Rule e @ [CHR 0x60] @ '': '' @ err_Example e
      | ErrStarlark \<Rightarrow> ''starlark error: '' @ errString (err_Wrapped e))"

definition withLocation :: "policy_error \<Rightarrow> ErrorLocation \<Rightarrow> policy_error" where
  "withLocation e location =
     (case err_Kind e of
        ErrExampleDidNotMatch \<Rightarrow> (if err_Location e \<noteq> None then e else e\<lparr>err_Location := Some location\<rparr>)
      | ErrExampleDidMatch \<Rightarrow> (if err_Location e \<noteq> None then e else e\<lparr>err_Location := Some location\<rparr>)
      | _ \<Rightarrow> e)"

section \<open>Decision strings (decision.go)\<close>

definition ParseDecision :: "string \<Rightarrow> (policy_error, Decision) result" where
  "ParseDecision raw =
     (if raw = ''allow'' then Inr DecisionAllow
      else if raw = ''prompt'' then Inr DecisionPrompt
      else if raw = ''forbidden'' then Inr DecisionForbidden
      else Inl (mk_error ErrInvalidDecision raw))"

definition Decision_String :: "Decision \<Rightarrow> string" where
  "Decision_String d =
     (case d of DecisionAllow \<Rightarrow> ''allow'' | DecisionPrompt \<Rightarrow> ''prompt'' | DecisionForbidden \<Rightarrow> ''forbidden'')"

definition Decision_MarshalJSON :: "Decision \<Rightarrow> string" where
  "Decision_MarshalJSON d = [CHR 0x22] @ Decision_String d @ [CHR 0x22]"

text \<open>The error of a value that is not a JSON string is \<open>Inl None\<close>.\<close>

definition Decision_UnmarshalJSON :: "string \<Rightarrow> (policy_error option, Decision) result" where
  "Decision_UnmarshalJSON data =
     (if length data < 2 \<or> data ! 0 \<noteq> CHR 0x22 \<or> data ! (length data - 1) \<noteq> CHR 0x22 then Inl None
      else (case ParseDecision (take (length data - 2) (drop 1 data)) of
              Inl e \<Rightarrow> Inl (Some e) | Inr d \<Rightarrow> Inr d))"

definition decisionDebug :: "Decision \<Rightarrow> string" where
  "decisionDebug d =
     (case d of DecisionAllow \<Rightarrow> ''Allow'' | DecisionPrompt \<Rightarrow> ''Prompt'' | DecisionForbidden \<Rightarrow> ''Forbidden'')"

lemma ParseDecision_String: "ParseDecision (Decision_String d) = Inr d"
  by (cases d) (simp_all add: ParseDecision_def Decision_String_def)

lemma ParseDecision_Inr_iff: "ParseDecision raw = Inr d \<longleftrightarrow> raw = Decision_String d"
  by (cases d) (auto simp: ParseDecision_def Decision_String_def)

section \<open>Rules and matches (rule.go)\<close>

datatype PatternToken = PatternTokenSingle string | PatternTokenAlts "string list"

fun token_matches :: "PatternToken \<Rightarrow> string \<Rightarrow> bool" where
  "token_matches (PatternTokenSingle v) token = (v = token)"
| "token_matches (PatternTokenAlts alts) token = list_ex (\<lambda>alt. alt = token) alts"

fun Alternatives :: "PatternToken \<Rightarrow> string list" where
  "Alternatives (PatternTokenSingle v) = [v]"
| "Alternatives (PatternTokenAlts alts) = alts"

record PrefixPattern =
  pat_first :: string
  pat_rest :: "PatternToken list"

text \<open>The loop over the tokens after the first; \<open>cmd[i+1]\<close> is in range by the length guard.\<close>

fun rest_matches :: "PatternToken list \<Rightarrow> string list \<Rightarrow> bool" where
  "rest_matches [] cmd = True"
| "rest_matches (t # ts) [] = False"
| "rest_matches (t # ts) (c # cmd) = (token_matches t c \<and> rest_matches ts cmd)"

definition matchesPrefix :: "PrefixPattern \<Rightarrow> string list \<Rightarrow> string list option" where
  "matchesPrefix p cmd =
     (let patternLength = length (pat_rest p) + 1 in
      if length cmd < patternLength \<or> cmd ! 0 \<noteq> pat_first p then None
      else if \<not> rest_matches (pat_rest p) (tl cmd) then None
      else Some (take patternLength cmd))"

record PrefixRule =
  rule_Pattern :: PrefixPattern
  rule_Decision :: Decision
  rule_Justification :: string
  rule_HasJustification :: bool

definition Program :: "PrefixRule \<Rightarrow> string" where
  "Program r = pat_first (rule_Pattern r)"

datatype ruleMatchKind = ruleMatchPrefix | ruleMatchHeuristics

record RuleMatch =
  match_kind :: ruleMatchKind
  match_matchedPrefix :: "string list"
  match_decision :: Decision
  match_resolvedProgram :: string
  match_hasResolvedProgram :: bool
  match_justification :: string
  match_hasJustification :: bool
  match_command :: "string list"

definition rule_matches :: "PrefixRule \<Rightarrow> string list \<Rightarrow> RuleMatch option" where
  "rule_matches r cmd =
     (case matchesPrefix (rule_Pattern r) cmd of
        None \<Rightarrow> None
      | Some matched \<Rightarrow>
          Some \<lparr>match_kind = ruleMatchPrefix, match_matchedPrefix = matched, match_decision = rule_Decision r,
            match_resolvedProgram = [], match_hasResolvedProgram = False,
            match_justification = rule_Justification r, match_hasJustification = rule_HasJustification r,
            match_command = []\<rparr>)"

definition withResolvedProgram :: "RuleMatch \<Rightarrow> string \<Rightarrow> RuleMatch" where
  "withResolvedProgram m resolved =
     (if match_kind m \<noteq> ruleMatchPrefix then m
      else m\<lparr>match_resolvedProgram := resolved, match_hasResolvedProgram := True\<rparr>)"

definition IsHeuristics :: "RuleMatch \<Rightarrow> bool" where
  "IsHeuristics m \<longleftrightarrow> match_kind m = ruleMatchHeuristics"

fun token_debug :: "go_env \<Rightarrow> PatternToken \<Rightarrow> string" where
  "token_debug env (PatternTokenSingle v) = ''Single('' @ Quote env v @ '')''"
| "token_debug env (PatternTokenAlts alts) = ''Alts(['' @ join '', '' (map (Quote env) alts) @ ''])''"

definition option_debug :: "go_env \<Rightarrow> bool \<Rightarrow> string \<Rightarrow> string" where
  "option_debug env present v = (if present then ''Some('' @ Quote env v @ '')'' else ''None'')"

definition rule_debug :: "go_env \<Rightarrow> PrefixRule \<Rightarrow> string" where
  "rule_debug env r =
     ''PrefixRule { pattern: PrefixPattern { first: '' @ Quote env (pat_first (rule_Pattern r)) @ '', rest: [''
       @ join '', '' (map (token_debug env) (pat_rest (rule_Pattern r))) @ ''] }, decision: ''
       @ decisionDebug (rule_Decision r) @ '', justification: ''
       @ option_debug env (rule_HasJustification r) (rule_Justification r) @ '' }''"

definition debugStringSlice :: "go_env \<Rightarrow> string list \<Rightarrow> string" where
  "debugStringSlice env values = ''['' @ join '', '' (map (Quote env) values) @ '']''"

definition match_debug :: "go_env \<Rightarrow> RuleMatch \<Rightarrow> string" where
  "match_debug env m =
     (if match_kind m = ruleMatchHeuristics then
        ''HeuristicsRuleMatch { command: '' @ debugStringSlice env (match_command m) @ '', decision: ''
          @ decisionDebug (match_decision m) @ '' }''
      else
        ''PrefixRuleMatch { matched_prefix: '' @ debugStringSlice env (match_matchedPrefix m) @ '', decision: ''
          @ decisionDebug (match_decision m) @ '', resolved_program: ''
          @ option_debug env (match_hasResolvedProgram m) (match_resolvedProgram m) @ '', justification: ''
          @ option_debug env (match_hasJustification m) (match_justification m) @ '' }'')"

lemma token_matches_iff: "token_matches t c \<longleftrightarrow> c \<in> set (Alternatives t)"
  by (cases t) (auto simp: list_ex_iff)

lemma rest_matches_iff:
  "rest_matches ts cmd \<longleftrightarrow> length ts \<le> length cmd \<and> list_all2 token_matches ts (take (length ts) cmd)"
  by (induction ts cmd rule: rest_matches.induct) auto

text \<open>What a prefix pattern matches: the tokens after the first, one alternative each.\<close>

definition pattern_denotes :: "PrefixPattern \<Rightarrow> string list \<Rightarrow> bool" where
  "pattern_denotes p pre \<longleftrightarrow>
     (case pre of [] \<Rightarrow> False | c # cs \<Rightarrow> c = pat_first p \<and> list_all2 token_matches (pat_rest p) cs)"

lemma pattern_denotes_iff:
  "pattern_denotes p pre \<longleftrightarrow> (\<exists>cs. pre = pat_first p # cs \<and> list_all2 token_matches (pat_rest p) cs)"
  by (cases pre) (auto simp: pattern_denotes_def)

lemma pattern_denotes_length: "pattern_denotes p pre \<Longrightarrow> length pre = Suc (length (pat_rest p))"
  by (auto simp: pattern_denotes_def dest: list_all2_lengthD split: list.splits)

lemma matchesPrefix_take:
  "matchesPrefix p cmd = Some pre \<longleftrightarrow> pattern_denotes p pre \<and> pre = take (Suc (length (pat_rest p))) cmd"
  by (cases cmd) (auto simp: matchesPrefix_def pattern_denotes_def rest_matches_iff Let_def
      dest: list_all2_lengthD)

lemma matchesPrefix_iff:
  "matchesPrefix p cmd = Some pre \<longleftrightarrow> pattern_denotes p pre \<and> (\<exists>ext. cmd = pre @ ext)"
proof
  assume "matchesPrefix p cmd = Some pre"
  then show "pattern_denotes p pre \<and> (\<exists>ext. cmd = pre @ ext)"
    unfolding matchesPrefix_take by (metis append_take_drop_id)
next
  assume "pattern_denotes p pre \<and> (\<exists>ext. cmd = pre @ ext)"
  then show "matchesPrefix p cmd = Some pre"
    unfolding matchesPrefix_take by (auto simp: pattern_denotes_length)
qed

lemma rule_matches_iff:
  "rule_matches r cmd = Some m \<longleftrightarrow>
     (\<exists>pre ext. cmd = pre @ ext \<and> pattern_denotes (rule_Pattern r) pre \<and>
        m = \<lparr>match_kind = ruleMatchPrefix, match_matchedPrefix = pre, match_decision = rule_Decision r,
            match_resolvedProgram = [], match_hasResolvedProgram = False,
            match_justification = rule_Justification r, match_hasJustification = rule_HasJustification r,
            match_command = []\<rparr>)"
  by (auto simp: rule_matches_def matchesPrefix_iff split: option.splits)
     (metis matchesPrefix_iff not_None_eq option.inject)+

section \<open>Network rules (network\_rule.go)\<close>

datatype NetworkRuleProtocol = NetworkRuleProtocolHTTP | NetworkRuleProtocolHTTPS
  | NetworkRuleProtocolSocks5TCP | NetworkRuleProtocolSocks5UDP

definition ParseNetworkRuleProtocol :: "string \<Rightarrow> (policy_error, NetworkRuleProtocol) result" where
  "ParseNetworkRuleProtocol raw =
     (if raw = ''http'' then Inr NetworkRuleProtocolHTTP
      else if raw = ''https'' \<or> raw = ''https_connect'' \<or> raw = ''http-connect'' then Inr NetworkRuleProtocolHTTPS
      else if raw = ''socks5_tcp'' then Inr NetworkRuleProtocolSocks5TCP
      else if raw = ''socks5_udp'' then Inr NetworkRuleProtocolSocks5UDP
      else Inl (mk_error ErrInvalidRule
        (''network_rule protocol must be one of http, https, socks5_tcp, socks5_udp (got '' @ raw @ '')'')))"

definition AsPolicyString :: "NetworkRuleProtocol \<Rightarrow> string" where
  "AsPolicyString p =
     (case p of NetworkRuleProtocolHTTP \<Rightarrow> ''http'' | NetworkRuleProtocolHTTPS \<Rightarrow> ''https''
      | NetworkRuleProtocolSocks5TCP \<Rightarrow> ''socks5_tcp'' | NetworkRuleProtocolSocks5UDP \<Rightarrow> ''socks5_udp'')"

record NetworkRule =
  net_Host :: string
  net_Protocol :: NetworkRuleProtocol
  net_Decision :: Decision
  net_Justification :: string
  net_HasJustification :: bool

definition parseNetworkRuleDecision :: "string \<Rightarrow> (policy_error, Decision) result" where
  "parseNetworkRuleDecision raw = (if raw = ''deny'' then Inr DecisionForbidden else ParseDecision raw)"

definition isWhitespace :: "rune \<Rightarrow> bool" where
  "isWhitespace r \<longleftrightarrow>
     r \<in> {0x20, 0x09, 0x0A, 0x0D, 0x0B, 0x0C} \<or> r = 0x85 \<or> r = 0xA0 \<or> is_space r"

definition isBlank :: "string \<Rightarrow> bool" where
  "isBlank s \<longleftrightarrow> list_all isWhitespace (runes s)"

definition containsWhitespace :: "string \<Rightarrow> bool" where
  "containsWhitespace s \<longleftrightarrow> list_ex isWhitespace (runes s)"

definition allASCIIDigits :: "string \<Rightarrow> bool" where
  "allASCIIDigits s \<longleftrightarrow> list_all (\<lambda>c. \<not> (byte c < 0x30 \<or> byte c > 0x39)) s"

text \<open>The bracketed-literal and port handling that selects the host part.\<close>

definition host_part :: "string \<Rightarrow> string \<Rightarrow> (policy_error, string) result" where
  "host_part raw host =
     (case CutPrefix host ''['' of
        Some stripped \<Rightarrow>
          (case Cut stripped (CHR '']'') of
             None \<Rightarrow> Inl (mk_error ErrInvalidRule ''network_rule host has an invalid bracketed IPv6 literal'')
           | Some (inside, rest) \<Rightarrow>
               (let portOK = (case CutPrefix rest '':'' of
                                Some port \<Rightarrow> port \<noteq> [] \<and> allASCIIDigits port | None \<Rightarrow> False) in
                if rest \<noteq> [] \<and> \<not> portOK
                then Inl (mk_error ErrInvalidRule (''network_rule host contains an unsupported suffix: '' @ raw))
                else Inr inside))
      | None \<Rightarrow>
          (if count_list host (CHR '':'') = 1 then
             (case Cut host (CHR '':'') of
                Some (candidate, port) \<Rightarrow>
                  if candidate \<noteq> [] \<and> port \<noteq> [] \<and> allASCIIDigits port then Inr candidate else Inr host
              | None \<Rightarrow> Inr host)
           else Inr host))"

definition normalizeNetworkRuleHost :: "go_env \<Rightarrow> string \<Rightarrow> (policy_error, string) result" where
  "normalizeNetworkRuleHost env raw =
     (let host = TrimSpace raw in
      if host = [] then Inl (mk_error ErrInvalidRule ''network_rule host cannot be empty'')
      else if Contains host ''://'' \<or> Contains host ''/'' \<or> Contains host ''?'' \<or> Contains host ''#''
      then Inl (mk_error ErrInvalidRule
             ''network_rule host must be a hostname or IP literal (without scheme or path)'')
      else
        bind_res (host_part raw host) (\<lambda>host.
          let normalized = ToLower env (TrimSpace (TrimRight host (CHR ''.''))) in
          if normalized = [] then Inl (mk_error ErrInvalidRule ''network_rule host cannot be empty'')
          else if Contains normalized ''*''
          then Inl (mk_error ErrInvalidRule
                 ''network_rule host must be a specific host; wildcards are not allowed'')
          else if containsWhitespace normalized
          then Inl (mk_error ErrInvalidRule ''network_rule host cannot contain whitespace'')
          else Inr normalized))"

section \<open>Executable names (executable\_name.go)\<close>

definition windowsExecutableSuffixes :: "string list" where
  "windowsExecutableSuffixes = [''.exe'', ''.cmd'', ''.bat'', ''.com'']"

definition executableLookupKey :: "go_env \<Rightarrow> string \<Rightarrow> string" where
  "executableLookupKey env raw =
     (if \<not> env_windows env then raw
      else
        let lower = ToLower env raw in
        (case find (HasSuffix lower) windowsExecutableSuffixes of
           Some suffix \<Rightarrow> take (length lower - length suffix) lower
         | None \<Rightarrow> lower))"

definition executablePathLookupKey :: "go_env \<Rightarrow> string \<Rightarrow> string option" where
  "executablePathLookupKey env path =
     (let name = filepath_Base env path in
      if name = ''.'' \<or> name = [path_separator env] \<or> name = [] then None
      else Some (executableLookupKey env name))"

section \<open>Round trips\<close>

lemma JSON_string_shape:
  "\<not> (length data < 2 \<or> data ! 0 \<noteq> q \<or> data ! (length data - 1) \<noteq> q) \<longleftrightarrow>
     (\<exists>body. data = [q] @ body @ [q])"
proof
  assume a: "\<not> (length data < 2 \<or> data ! 0 \<noteq> q \<or> data ! (length data - 1) \<noteq> q)"
  then obtain x xs where d: "data = x # xs" "xs \<noteq> []" by (cases data) (auto simp: Suc_le_eq)
  then have "xs = butlast xs @ [last xs]" by simp
  moreover have "last xs = q" "x = q" using a d by (auto simp: last_conv_nth)
  ultimately show "\<exists>body. data = [q] @ body @ [q]" using d by auto
qed auto

text \<open>
  Decisions and protocols survive their textual forms: the JSON form of a decision is read back
  as that decision and is the only JSON text that is, and the policy spelling of a protocol is
  parsed as that protocol.
\<close>

theorem decision_protocol_roundtrip:
  "(\<forall>data. Decision_UnmarshalJSON data = Inr d \<longleftrightarrow> data = Decision_MarshalJSON d) \<and>
   ParseNetworkRuleProtocol (AsPolicyString protocol) = Inr protocol \<and>
   parseNetworkRuleDecision (Decision_String d) = Inr d"
proof -
  have "Decision_UnmarshalJSON data = Inr d \<longleftrightarrow> data = Decision_MarshalJSON d" for data
  proof (cases "\<exists>body. data = [CHR 0x22] @ body @ [CHR 0x22]")
    case True
    then obtain body where "data = [CHR 0x22] @ body @ [CHR 0x22]" by blast
    then show ?thesis
      by (auto simp: Decision_UnmarshalJSON_def Decision_MarshalJSON_def ParseDecision_Inr_iff
          split: sum.splits) (metis ParseDecision_String sum.inject(2) sum.distinct(1))+
  next
    case False
    then show ?thesis using JSON_string_shape [of data "CHR 0x22"]
      by (auto simp: Decision_UnmarshalJSON_def Decision_MarshalJSON_def)
  qed
  moreover have "ParseNetworkRuleProtocol (AsPolicyString protocol) = Inr protocol"
    by (cases protocol) (simp_all add: ParseNetworkRuleProtocol_def AsPolicyString_def)
  moreover have "parseNetworkRuleDecision (Decision_String d) = Inr d"
    by (cases d) (simp_all add: parseNetworkRuleDecision_def ParseDecision_def Decision_String_def)
  ultimately show ?thesis by blast
qed

end
