(* ===== verification/Exec_Policy.thy ===== *)
theory Exec_Policy
  imports Exec_Rules
begin

text \<open>
  The command policy: \<open>src/internal/execpolicy/policy.go\<close>. A policy maps the first token of a command
  to the rules declared for it; checking a command collects the matches and takes the strictest
  decision. The locale \<open>policy_rule\<close> is the Go interface \<open>Rule\<close> with the laws the engine relies on;
  \<open>PrefixRule\<close>, its only implementation, interprets it.
\<close>

section \<open>State and construction\<close>

record Policy =
  rulesByProgram :: "string \<rightharpoonup> PrefixRule list"
  networkRules :: "NetworkRule list"
  hostExecutablesByName :: "string \<rightharpoonup> string list"

text \<open>\<open>orderedRuleMap.insert\<close>: append to the slice of the key, a missing key being the nil slice.\<close>

definition rule_map_insert :: "(string \<rightharpoonup> PrefixRule list) \<Rightarrow> string \<Rightarrow> PrefixRule \<Rightarrow> (string \<rightharpoonup> PrefixRule list)" where
  "rule_map_insert m program rule =
     m(program \<mapsto> (case m program of None \<Rightarrow> [] | Some rules \<Rightarrow> rules) @ [rule])"

definition EmptyPolicy :: Policy where
  "EmptyPolicy = \<lparr>rulesByProgram = Map.empty, networkRules = [], hostExecutablesByName = Map.empty\<rparr>"

definition AddPrefixRule :: "Policy \<Rightarrow> string list \<Rightarrow> Decision \<Rightarrow> (policy_error, Policy) result" where
  "AddPrefixRule p prefix decision =
     (case prefix of
        [] \<Rightarrow> Inl (mk_error ErrInvalidPattern ''prefix cannot be empty'')
      | first # others \<Rightarrow>
          (let rule = \<lparr>rule_Pattern = \<lparr>pat_first = first, pat_rest = map PatternTokenSingle others\<rparr>,
                 rule_Decision = decision, rule_Justification = [], rule_HasJustification = False\<rparr> in
           Inr (p\<lparr>rulesByProgram := rule_map_insert (rulesByProgram p) first rule\<rparr>)))"

definition AddNetworkRule ::
    "go_env \<Rightarrow> Policy \<Rightarrow> string \<Rightarrow> NetworkRuleProtocol \<Rightarrow> Decision \<Rightarrow> string option \<Rightarrow> (policy_error, Policy) result" where
  "AddNetworkRule env p host protocol decision justification =
     bind_res (normalizeNetworkRuleHost env host) (\<lambda>normalizedHost.
       if (case justification of Some j \<Rightarrow> isBlank j | None \<Rightarrow> False)
       then Inl (mk_error ErrInvalidRule ''justification cannot be empty'')
       else
         let rule = \<lparr>net_Host = normalizedHost, net_Protocol = protocol, net_Decision = decision,
               net_Justification = (case justification of Some j \<Rightarrow> j | None \<Rightarrow> []),
               net_HasJustification = (justification \<noteq> None)\<rparr> in
         Inr (p\<lparr>networkRules := networkRules p @ [rule]\<rparr>))"

text \<open>
  The Go code ranges over the overlay's map and inserts rule by rule; the keys do not interact, so the
  unspecified iteration order is not observable and each key can be described on its own.
\<close>

definition MergeOverlay :: "Policy \<Rightarrow> Policy \<Rightarrow> Policy" where
  "MergeOverlay p overlay =
     \<lparr>rulesByProgram =
        (\<lambda>program.
           case rulesByProgram overlay program of
             None \<Rightarrow> rulesByProgram p program
           | Some rules \<Rightarrow> foldl (\<lambda>m rule. rule_map_insert m program rule) (rulesByProgram p) rules program),
      networkRules = networkRules p @ networkRules overlay,
      hostExecutablesByName = hostExecutablesByName p ++ hostExecutablesByName overlay\<rparr>"

section \<open>Network domains\<close>

definition removeDomain :: "string list \<Rightarrow> string \<Rightarrow> string list" where
  "removeDomain entries host = filter (\<lambda>entry. entry \<noteq> host) entries"

definition upsertDomain :: "string list \<Rightarrow> string \<Rightarrow> string list" where
  "upsertDomain entries host = removeDomain entries host @ [host]"

fun compile_domains :: "NetworkRule list \<Rightarrow> string list \<Rightarrow> string list \<Rightarrow> string list \<times> string list" where
  "compile_domains [] allowed denied = (allowed, denied)"
| "compile_domains (rule # rules) allowed denied =
     (case net_Decision rule of
        DecisionAllow \<Rightarrow> compile_domains rules (upsertDomain allowed (net_Host rule)) (removeDomain denied (net_Host rule))
      | DecisionForbidden \<Rightarrow> compile_domains rules (removeDomain allowed (net_Host rule)) (upsertDomain denied (net_Host rule))
      | DecisionPrompt \<Rightarrow> compile_domains rules allowed denied)"

definition CompiledNetworkDomains :: "Policy \<Rightarrow> string list \<times> string list" where
  "CompiledNetworkDomains p = compile_domains (networkRules p) [] []"

section \<open>Matching and evaluation\<close>

text \<open>\<open>None\<close> is the nil heuristics callback.\<close>

type_synonym HeuristicsFallback = "(string list \<Rightarrow> Decision) option"

record MatchOptions =
  ResolveHostExecutables :: bool

definition matchExactRules :: "Policy \<Rightarrow> string list \<Rightarrow> RuleMatch list" where
  "matchExactRules p cmd =
     (case cmd of
        [] \<Rightarrow> []
      | program # _ \<Rightarrow>
          (case rulesByProgram p program of
             None \<Rightarrow> []
           | Some rules \<Rightarrow> List.map_filter (\<lambda>rule. rule_matches rule cmd) rules))"

definition containsPath :: "string list \<Rightarrow> string \<Rightarrow> bool" where
  "containsPath paths target = list_ex (\<lambda>path. path = target) paths"

definition matchHostExecutableRules :: "go_env \<Rightarrow> Policy \<Rightarrow> string list \<Rightarrow> RuleMatch list" where
  "matchHostExecutableRules env p cmd =
     (case cmd of
        [] \<Rightarrow> []
      | arg0 # args \<Rightarrow>
          (case FromAbsolutePathChecked (env_windows env) (env_home env) arg0 of
             Inl _ \<Rightarrow> []
           | Inr program \<Rightarrow>
               (case executablePathLookupKey env program of
                  None \<Rightarrow> []
                | Some basename \<Rightarrow>
                    (case rulesByProgram p basename of
                       None \<Rightarrow> []
                     | Some rules \<Rightarrow>
                         if (case hostExecutablesByName p basename of
                               Some paths \<Rightarrow> \<not> containsPath paths program | None \<Rightarrow> False)
                         then []
                         else List.map_filter
                                (\<lambda>rule. map_option (\<lambda>m. withResolvedProgram m program)
                                          (rule_matches rule (basename # args))) rules))))"

definition heuristics_match :: "(string list \<Rightarrow> Decision) \<Rightarrow> string list \<Rightarrow> RuleMatch" where
  "heuristics_match fallback cmd =
     \<lparr>match_kind = ruleMatchHeuristics, match_matchedPrefix = [], match_decision = fallback cmd,
      match_resolvedProgram = [], match_hasResolvedProgram = False, match_justification = [],
      match_hasJustification = False, match_command = cmd\<rparr>"

definition MatchesForCommand ::
    "go_env \<Rightarrow> Policy \<Rightarrow> string list \<Rightarrow> HeuristicsFallback \<Rightarrow> MatchOptions \<Rightarrow> RuleMatch list" where
  "MatchesForCommand env p cmd heuristicsFallback options =
     (let exact = matchExactRules p cmd;
          matched = (if exact = [] \<and> ResolveHostExecutables options then matchHostExecutableRules env p cmd
                     else exact) in
      case heuristicsFallback of
        Some fallback \<Rightarrow> if matched = [] then [heuristics_match fallback cmd] else matched
      | None \<Rightarrow> matched)"

record Evaluation =
  eval_Decision :: Decision
  eval_MatchedRules :: "RuleMatch list"

definition IsMatch :: "Evaluation \<Rightarrow> bool" where
  "IsMatch e = list_ex (\<lambda>m. \<not> IsHeuristics m) (eval_MatchedRules e)"

definition evaluationFromMatches :: "RuleMatch list \<Rightarrow> Evaluation" where
  "evaluationFromMatches matched =
     \<lparr>eval_Decision =
        (case matched of
           [] \<Rightarrow> DecisionAllow
         | m # ms \<Rightarrow> foldl (\<lambda>d m'. decision_max d (match_decision m')) (match_decision m) ms),
      eval_MatchedRules = matched\<rparr>"

definition CheckWithOptions :: "go_env \<Rightarrow> Policy \<Rightarrow> string list \<Rightarrow> HeuristicsFallback \<Rightarrow> MatchOptions \<Rightarrow> Evaluation" where
  "CheckWithOptions env p cmd heuristicsFallback options =
     evaluationFromMatches (MatchesForCommand env p cmd heuristicsFallback options)"

definition Check :: "go_env \<Rightarrow> Policy \<Rightarrow> string list \<Rightarrow> HeuristicsFallback \<Rightarrow> Evaluation" where
  "Check env p cmd heuristicsFallback =
     evaluationFromMatches (MatchesForCommand env p cmd heuristicsFallback \<lparr>ResolveHostExecutables = False\<rparr>)"

definition CheckMultipleWithOptions ::
    "go_env \<Rightarrow> Policy \<Rightarrow> string list list \<Rightarrow> HeuristicsFallback \<Rightarrow> MatchOptions \<Rightarrow> Evaluation" where
  "CheckMultipleWithOptions env p commands heuristicsFallback options =
     evaluationFromMatches
       (foldl (\<lambda>matched command. matched @ MatchesForCommand env p command heuristicsFallback options) [] commands)"

definition CheckMultiple :: "go_env \<Rightarrow> Policy \<Rightarrow> string list list \<Rightarrow> HeuristicsFallback \<Rightarrow> Evaluation" where
  "CheckMultiple env p commands heuristicsFallback =
     CheckMultipleWithOptions env p commands heuristicsFallback \<lparr>ResolveHostExecutables = False\<rparr>"

section \<open>The rule interface\<close>

text \<open>
  What the engine needs of a rule: it matches only commands whose first token is its program, and
  a match stays the same match when arguments are appended to the command.
\<close>

locale policy_rule =
  fixes program :: "'r \<Rightarrow> string"
    and matches :: "'r \<Rightarrow> string list \<Rightarrow> 'm option"
  assumes match_program: "matches r cmd = Some m \<Longrightarrow> cmd \<noteq> [] \<and> hd cmd = program r"
    and match_extend: "matches r cmd = Some m \<Longrightarrow> matches r (cmd @ ext) = Some m"
begin

lemma matched_extend:
  "set (List.map_filter (\<lambda>r. matches r cmd) rules) \<subseteq> set (List.map_filter (\<lambda>r. matches r (cmd @ ext)) rules)"
proof
  fix m
  assume "m \<in> set (List.map_filter (\<lambda>r. matches r cmd) rules)"
  then obtain r where "r \<in> set rules" "matches r cmd = Some m" by (auto simp: map_filter_def)
  then show "m \<in> set (List.map_filter (\<lambda>r. matches r (cmd @ ext)) rules)"
    using match_extend by (force simp: map_filter_def)
qed

lemma scan_by_program:
  "List.map_filter (\<lambda>r. matches r (c # cmd)) rules
     = List.map_filter (\<lambda>r. matches r (c # cmd)) (filter (\<lambda>r. program r = c) rules)"
proof (induction rules)
  case Nil
  then show ?case by simp
next
  case (Cons r rules)
  show ?case
  proof (cases "matches r (c # cmd)")
    case None
    with Cons show ?thesis by (simp add: List.map_filter_simps)
  next
    case (Some m)
    then have "program r = c" using match_program by force
    with Some Cons show ?thesis by (simp add: List.map_filter_simps)
  qed
qed

end

interpretation prefix_rule: policy_rule Program rule_matches
proof
  show "cmd \<noteq> [] \<and> hd cmd = Program r" if "rule_matches r cmd = Some m" for r cmd m
    using that by (auto simp: rule_matches_iff pattern_denotes_iff Program_def)
  show "rule_matches r (cmd @ ext) = Some m" if "rule_matches r cmd = Some m" for r cmd m ext
    using that unfolding rule_matches_iff by (metis append.assoc)
qed

section \<open>The strictest decision wins\<close>

lemma foldl_max_Max:
  "foldl (\<lambda>d x. max d (f x)) d xs = Max (insert d (f ` set xs))" for f :: "'a \<Rightarrow> 'b::linorder"
proof (induction xs arbitrary: d)
  case Nil
  then show ?case by simp
next
  case (Cons x xs)
  have "Max (insert (max d (f x)) (f ` set xs)) = Max (insert d (insert (f x) (f ` set xs)))"
    by (cases "xs = []") (simp_all add: max.assoc)
  with Cons show ?case by simp
qed

lemma evaluation_Max:
  "matched \<noteq> [] \<Longrightarrow> eval_Decision (evaluationFromMatches matched) = Max (match_decision ` set matched)"
  by (cases matched) (simp_all add: evaluationFromMatches_def policy_simps foldl_max_Max)

lemma evaluation_matched [simp]: "eval_MatchedRules (evaluationFromMatches matched) = matched"
  by (simp add: evaluationFromMatches_def)

lemma evaluation_upper: "m \<in> set matched \<Longrightarrow> match_decision m \<le> eval_Decision (evaluationFromMatches matched)"
  by (cases "matched = []") (auto simp: evaluation_Max)

lemma evaluation_le_iff:
  "eval_Decision (evaluationFromMatches matched) \<le> d \<longleftrightarrow> (\<forall>m \<in> set matched. match_decision m \<le> d)"
  by (cases "matched = []") (auto simp: evaluation_Max, simp add: evaluationFromMatches_def)

lemma evaluation_mono:
  "set ms \<subseteq> set ms' \<Longrightarrow> eval_Decision (evaluationFromMatches ms) \<le> eval_Decision (evaluationFromMatches ms')"
  by (auto simp: evaluation_le_iff intro: evaluation_upper)

lemma evaluation_Forbidden_iff:
  "eval_Decision (evaluationFromMatches ms) = DecisionForbidden \<longleftrightarrow>
     (\<exists>m \<in> set ms. match_decision m = DecisionForbidden)"
  using evaluation_le_iff [of ms DecisionPrompt] by auto

lemma foldl_append_concat: "foldl (\<lambda>acc x. acc @ f x) acc xs = acc @ concat (map f xs)"
  by (induction xs arbitrary: acc) auto

lemma MatchesForCommand_fallback: "MatchesForCommand env p cmd (Some f) options \<noteq> []"
  by (simp add: MatchesForCommand_def Let_def)

text \<open>
  C18. Checking several commands with a heuristics fallback always reports at least one match, and
  its decision is exactly the strictest of the decisions of all matches of all commands; in particular
  one forbidden command makes the whole check forbidden, whatever the other commands are.
\<close>

theorem CheckMultiple_strictest:
  assumes "commands \<noteq> []"
  shows "eval_MatchedRules (CheckMultipleWithOptions env p commands (Some f) options) \<noteq> [] \<and>
    eval_Decision (CheckMultipleWithOptions env p commands (Some f) options)
      = Max (match_decision ` (\<Union>cmd \<in> set commands. set (MatchesForCommand env p cmd (Some f) options))) \<and>
    (eval_Decision (CheckMultipleWithOptions env p commands (Some f) options) = DecisionForbidden \<longleftrightarrow>
      (\<exists>cmd \<in> set commands. eval_Decision (CheckWithOptions env p cmd (Some f) options) = DecisionForbidden))"
proof -
  let ?M = "\<lambda>cmd. MatchesForCommand env p cmd (Some f) options"
  let ?all = "concat (map ?M commands)"
  have all: "CheckMultipleWithOptions env p commands (Some f) options = evaluationFromMatches ?all"
    by (simp add: CheckMultipleWithOptions_def foldl_append_concat)
  have ne: "?all \<noteq> []" using assms MatchesForCommand_fallback by (cases commands) auto
  have "eval_Decision (evaluationFromMatches ?all) = Max (match_decision ` set ?all)"
    using ne by (rule evaluation_Max)
  moreover have "eval_Decision (evaluationFromMatches ?all) = DecisionForbidden \<longleftrightarrow>
      (\<exists>cmd \<in> set commands. eval_Decision (CheckWithOptions env p cmd (Some f) options) = DecisionForbidden)"
    by (auto simp: CheckWithOptions_def evaluation_Forbidden_iff)
  ultimately show ?thesis unfolding all using ne by simp
qed

lemma CheckMultiple_strictest_witness:
  "eval_Decision (CheckMultipleWithOptions posix_env EmptyPolicy [[''ls''], [''rm'', ''-rf'']]
      (Some (\<lambda>cmd. if hd cmd = ''rm'' then DecisionForbidden else DecisionAllow)) \<lparr>ResolveHostExecutables = False\<rparr>)
    = DecisionForbidden"
proof (rule CheckMultiple_strictest [THEN conjunct2, THEN conjunct2, THEN iffD2])
  show "[[''ls''], [''rm'', ''-rf'']] \<noteq> []" by simp
  show "\<exists>cmd \<in> set [[''ls''], [''rm'', ''-rf'']].
      eval_Decision (CheckWithOptions posix_env EmptyPolicy cmd
        (Some (\<lambda>cmd. if hd cmd = ''rm'' then DecisionForbidden else DecisionAllow)) \<lparr>ResolveHostExecutables = False\<rparr>)
      = DecisionForbidden"
    by (simp add: CheckWithOptions_def MatchesForCommand_def matchExactRules_def EmptyPolicy_def
        heuristics_match_def evaluationFromMatches_def)
qed

section \<open>Which rules match\<close>

lemma set_map_filter_iff: "m \<in> set (List.map_filter f xs) \<longleftrightarrow> (\<exists>x \<in> set xs. f x = Some m)"
  by (force simp: map_filter_def)

lemma matchExactRules_iff:
  "m \<in> set (matchExactRules p cmd) \<longleftrightarrow>
     (\<exists>rules r. cmd \<noteq> [] \<and> rulesByProgram p (hd cmd) = Some rules \<and> r \<in> set rules \<and> rule_matches r cmd = Some m)"
proof (cases cmd)
  case (Cons c cs)
  then show ?thesis
    by (cases "rulesByProgram p c") (auto simp: matchExactRules_def set_map_filter_iff)
qed (simp add: matchExactRules_def)

lemma rule_map_insert_get:
  "rule_map_insert m k r k' = (if k' = k then Some ((case m k of None \<Rightarrow> [] | Some rs \<Rightarrow> rs) @ [r]) else m k')"
  by (simp add: rule_map_insert_def)

lemma foldl_rule_map_insert:
  "foldl (\<lambda>m rule. rule_map_insert m k rule) m rules k =
     (if rules = [] then m k else Some ((case m k of None \<Rightarrow> [] | Some rs \<Rightarrow> rs) @ rules))"
  by (induction rules arbitrary: m) (auto simp: rule_map_insert_get)

lemma matchExactRules_merge:
  "matchExactRules (MergeOverlay p overlay) cmd = matchExactRules p cmd @ matchExactRules overlay cmd"
  by (cases cmd)
     (auto simp: matchExactRules_def MergeOverlay_def foldl_rule_map_insert map_filter_def split: option.splits)

lemma Check_exact:
  "matchExactRules p cmd \<noteq> [] \<Longrightarrow> Check env p cmd f = evaluationFromMatches (matchExactRules p cmd)"
  by (simp add: Check_def MatchesForCommand_def Let_def split: option.splits)

lemma evaluation_append:
  "ms \<noteq> [] \<Longrightarrow> ms' \<noteq> [] \<Longrightarrow> eval_Decision (evaluationFromMatches (ms @ ms')) =
     max (eval_Decision (evaluationFromMatches ms)) (eval_Decision (evaluationFromMatches ms'))"
  by (simp add: evaluation_Max image_Un Max_Un)

text \<open>
  C19. Overlaying a policy on another never loosens a decision: a command that has matching rules in
  both is decided by the stricter of the two policies, one that only the base has rules for keeps the
  base's decision, and one that only the overlay has rules for gets the overlay's.
\<close>

theorem MergeOverlay_strictest:
  assumes "matchExactRules base cmd \<noteq> [] \<or> matchExactRules overlay cmd \<noteq> []"
  shows "eval_Decision (Check env (MergeOverlay base overlay) cmd f) =
    (if matchExactRules overlay cmd = [] then eval_Decision (Check env base cmd f)
     else if matchExactRules base cmd = [] then eval_Decision (Check env overlay cmd f)
     else max (eval_Decision (Check env base cmd f)) (eval_Decision (Check env overlay cmd f)))"
  using assms by (auto simp: Check_exact matchExactRules_merge evaluation_append)

text \<open>A policy of one rule, for the examples below.\<close>

definition one_rule_policy :: "string \<Rightarrow> string list \<Rightarrow> Decision \<Rightarrow> Policy" where
  "one_rule_policy first others d = EmptyPolicy\<lparr>rulesByProgram := [first \<mapsto>
     [\<lparr>rule_Pattern = \<lparr>pat_first = first, pat_rest = map PatternTokenSingle others\<rparr>, rule_Decision = d,
       rule_Justification = [], rule_HasJustification = False\<rparr>]]\<rparr>"

lemmas policy_eval_simps =
  one_rule_policy_def EmptyPolicy_def matchExactRules_def List.map_filter_simps rule_matches_def
  matchesPrefix_def evaluationFromMatches_def decision_max_def less_Decision_def max_def

lemma MergeOverlay_strictest_witness:
  "eval_Decision (Check posix_env (MergeOverlay (one_rule_policy ''git'' [] DecisionForbidden)
      (one_rule_policy ''git'' [''status''] DecisionAllow)) [''git'', ''status''] None) = DecisionForbidden"
  by (subst MergeOverlay_strictest)
     (simp_all add: policy_eval_simps Check_def MatchesForCommand_def less_eq_Decision_def)

text \<open>
  C20. Appending arguments to a command that has a matching rule never loosens its decision: every
  rule that matches the shorter command matches the longer one.
\<close>

theorem more_arguments_not_looser:
  assumes "matchExactRules p cmd \<noteq> []"
  shows "eval_Decision (Check env p cmd f) \<le> eval_Decision (Check env p (cmd @ ext) f)"
proof -
  have "set (matchExactRules p cmd) \<subseteq> set (matchExactRules p (cmd @ ext))"
    using prefix_rule.match_extend by (fastforce simp: matchExactRules_iff)
  moreover from this assms have "matchExactRules p (cmd @ ext) \<noteq> []" by auto
  ultimately show ?thesis using assms by (simp add: Check_exact evaluation_mono)
qed

lemma more_arguments_not_looser_witness:
  "DecisionPrompt \<le> eval_Decision (Check posix_env (one_rule_policy ''git'' [''push''] DecisionPrompt)
     ([''git'', ''push''] @ [''--force'']) None)"
proof -
  let ?p = "one_rule_policy ''git'' [''push''] DecisionPrompt"
  have "matchExactRules ?p [''git'', ''push''] \<noteq> []" by (simp add: policy_eval_simps)
  from more_arguments_not_looser [OF this, of posix_env None "[''--force'']"]
  show ?thesis by (simp add: policy_eval_simps Check_def MatchesForCommand_def)
qed

text \<open>
  C21. AddPrefixRule does what it says: every command that starts with the added prefix is decided at
  least as strictly as the added decision, and the rules that match any other command are unchanged.
\<close>

theorem AddPrefixRule_effect:
  assumes "AddPrefixRule p prefix d = Inr p'"
  shows "(\<forall>ext. d \<le> eval_Decision (Check env p' (prefix @ ext) f)) \<and>
    (\<forall>cmd. (\<forall>ext. cmd \<noteq> prefix @ ext) \<longrightarrow> matchExactRules p' cmd = matchExactRules p cmd)"
proof -
  obtain c cs where prefix: "prefix = c # cs" using assms by (cases prefix) (auto simp: AddPrefixRule_def)
  define r where "r = \<lparr>rule_Pattern = \<lparr>pat_first = c, pat_rest = map PatternTokenSingle cs\<rparr>,
    rule_Decision = d, rule_Justification = [], rule_HasJustification = False\<rparr>"
  have p': "p' = p\<lparr>rulesByProgram := rule_map_insert (rulesByProgram p) c r\<rparr>"
    using assms by (simp add: AddPrefixRule_def prefix r_def)
  have exact: "matchExactRules p' cmd = matchExactRules p cmd @ List.map_filter (\<lambda>r. rule_matches r cmd) [r]" for cmd
  proof (cases cmd)
    case (Cons a as)
    then show ?thesis
      using prefix_rule.scan_by_program [of a as "[r]"]
      by (auto simp: p' matchExactRules_def rule_map_insert_get map_filter_def Program_def r_def split: option.splits)
  qed (simp add: matchExactRules_def rule_matches_def matchesPrefix_def List.map_filter_simps)
  have singles: "list_all2 token_matches (map PatternTokenSingle cs) as \<longleftrightarrow> as = cs" for as
    by (induction cs arbitrary: as) (auto simp: list_all2_Cons1)
  have r: "rule_matches r cmd \<noteq> None \<longleftrightarrow> (\<exists>ext. cmd = prefix @ ext)" for cmd
    by (simp add: not_None_eq rule_matches_iff pattern_denotes_iff) (auto simp: r_def singles prefix)
  have "d \<le> eval_Decision (Check env p' (prefix @ ext) f)" for ext
  proof -
    obtain m where m: "rule_matches r (prefix @ ext) = Some m" using r [of "prefix @ ext"] by auto
    then have "match_decision m = d" by (auto simp: rule_matches_iff r_def)
    moreover have "m \<in> set (matchExactRules p' (prefix @ ext))" using m by (simp add: exact List.map_filter_simps)
    ultimately show ?thesis using Check_exact evaluation_upper by (metis empty_iff empty_set)
  qed
  moreover have "matchExactRules p' cmd = matchExactRules p cmd" if "\<forall>ext. cmd \<noteq> prefix @ ext" for cmd
    using r [of cmd] that by (simp add: exact List.map_filter_simps)
  ultimately show ?thesis by blast
qed

lemma AddPrefixRule_effect_witness:
  "DecisionForbidden \<le> eval_Decision (Check posix_env
     (one_rule_policy ''rm'' [] DecisionForbidden) ([''rm''] @ [''-rf'', ''/'']) None)"
proof -
  have "AddPrefixRule EmptyPolicy [''rm''] DecisionForbidden = Inr (one_rule_policy ''rm'' [] DecisionForbidden)"
    by (simp add: AddPrefixRule_def one_rule_policy_def EmptyPolicy_def rule_map_insert_def)
  from AddPrefixRule_effect [OF this, of posix_env None] show ?thesis by blast
qed

section \<open>Basename fallback\<close>

lemma matchHostExecutableRules_D:
  assumes "m \<in> set (matchHostExecutableRules env p cmd)"
  shows "\<exists>arg0 args program basename rules r m0.
    cmd = arg0 # args \<and>
    FromAbsolutePathChecked (env_windows env) (env_home env) arg0 = Inr program \<and>
    executablePathLookupKey env program = Some basename \<and>
    rulesByProgram p basename = Some rules \<and>
    (\<forall>paths. hostExecutablesByName p basename = Some paths \<longrightarrow> program \<in> set paths) \<and>
    r \<in> set rules \<and> rule_matches r (basename # args) = Some m0 \<and> m = withResolvedProgram m0 program"
proof -
  obtain arg0 args where cmd: "cmd = arg0 # args"
    using assms by (cases cmd) (auto simp: matchHostExecutableRules_def)
  obtain program where prog: "FromAbsolutePathChecked (env_windows env) (env_home env) arg0 = Inr program"
    using assms by (cases "FromAbsolutePathChecked (env_windows env) (env_home env) arg0")
      (auto simp: matchHostExecutableRules_def cmd)
  obtain basename where base: "executablePathLookupKey env program = Some basename"
    using assms by (cases "executablePathLookupKey env program") (auto simp: matchHostExecutableRules_def cmd prog)
  obtain rules where rules: "rulesByProgram p basename = Some rules"
    using assms by (cases "rulesByProgram p basename") (auto simp: matchHostExecutableRules_def cmd prog base)
  have gate: "program \<in> set paths" if "hostExecutablesByName p basename = Some paths" for paths
    using assms that
    by (auto simp: matchHostExecutableRules_def cmd prog base rules containsPath_def list_ex_iff split: if_splits)
  obtain r m0 where "r \<in> set rules" "rule_matches r (basename # args) = Some m0" "m = withResolvedProgram m0 program"
    using assms
    by (auto simp: matchHostExecutableRules_def cmd prog base rules set_map_filter_iff
        split: if_splits option.splits)
  with cmd prog base rules gate show ?thesis by blast
qed

text \<open>
  C22. A rule matches a command whose first token has no rule of its own only through the basename
  fallback: the fallback is switched on, the token is an absolute path, the path is on the
  host-executable allowlist of its basename whenever there is one, the reported program is that
  path, and the rule matches the command with the basename in place of the path.
\<close>

theorem host_executable_gate:
  assumes "matchExactRules p cmd = []" "m \<in> set (MatchesForCommand env p cmd None options)"
  shows "ResolveHostExecutables options \<and>
    (\<exists>arg0 args program basename rules r. cmd = arg0 # args \<and>
       FromAbsolutePathChecked (env_windows env) (env_home env) arg0 = Inr program \<and>
       executablePathLookupKey env program = Some basename \<and>
       (\<forall>paths. hostExecutablesByName p basename = Some paths \<longrightarrow> program \<in> set paths) \<and>
       match_hasResolvedProgram m \<and> match_resolvedProgram m = program \<and>
       rulesByProgram p basename = Some rules \<and> r \<in> set rules \<and> match_decision m = rule_Decision r \<and>
       pattern_denotes (rule_Pattern r) (match_matchedPrefix m) \<and>
       (\<exists>ext. basename # args = match_matchedPrefix m @ ext))"
proof -
  have "ResolveHostExecutables options \<and> m \<in> set (matchHostExecutableRules env p cmd)"
    using assms by (auto simp: MatchesForCommand_def split: if_splits)
  then have "ResolveHostExecutables options" and D: "m \<in> set (matchHostExecutableRules env p cmd)" by auto
  moreover from matchHostExecutableRules_D [OF D] obtain arg0 args program basename rules r m0 where
    "cmd = arg0 # args" "FromAbsolutePathChecked (env_windows env) (env_home env) arg0 = Inr program"
    "executablePathLookupKey env program = Some basename" "rulesByProgram p basename = Some rules"
    "\<forall>paths. hostExecutablesByName p basename = Some paths \<longrightarrow> program \<in> set paths" "r \<in> set rules"
    and m0: "rule_matches r (basename # args) = Some m0" "m = withResolvedProgram m0 program"
    by blast
  moreover from m0 have "match_hasResolvedProgram m \<and> match_resolvedProgram m = program \<and>
      match_decision m = rule_Decision r \<and> pattern_denotes (rule_Pattern r) (match_matchedPrefix m) \<and>
      (\<exists>ext. basename # args = match_matchedPrefix m @ ext)"
    by (auto simp: rule_matches_iff withResolvedProgram_def)
  ultimately show ?thesis by blast
qed

definition git_host_policy :: Policy where
  "git_host_policy = (one_rule_policy ''git'' [''status''] DecisionAllow)
     \<lparr>hostExecutablesByName := [''git'' \<mapsto> [''/usr/bin/git'']]\<rparr>"

lemma host_executable_gate_witness:
  "\<exists>m program. m \<in> set (MatchesForCommand posix_env git_host_policy [''/usr/bin/git'', ''status''] None
       \<lparr>ResolveHostExecutables = True\<rparr>) \<and>
     match_resolvedProgram m = program \<and>
     FromAbsolutePathChecked False None ''/usr/bin/git'' = Inr program \<and> program \<in> set [''/usr/bin/git'']"
proof -
  let ?cmd = "[''/usr/bin/git'', ''status'']" and ?o = "\<lparr>ResolveHostExecutables = True\<rparr>"
  have path: "FromAbsolutePathChecked False None ''/usr/bin/git'' = Inr ''/usr/bin/git''"
    using FromAbsolutePathChecked_abs_path [of "[''usr'', ''bin'', ''git'']" None]
    by (simp add: clean_seg_def abs_path_def)
  have key: "executablePathLookupKey posix_env ''/usr/bin/git'' = Some ''git''"
    by (simp add: executablePathLookupKey_def filepath_Base_def IsPathSeparator_def volume_name_len_def
        executableLookupKey_def path_separator_def)
  have exact: "matchExactRules git_host_policy ?cmd = []"
    by (simp add: git_host_policy_def policy_eval_simps)
  obtain m where m: "m \<in> set (MatchesForCommand posix_env git_host_policy ?cmd None ?o)"
    by (simp add: MatchesForCommand_def exact matchHostExecutableRules_def path key)
       (simp add: git_host_policy_def policy_eval_simps containsPath_def)
  from host_executable_gate [OF exact m] m path show ?thesis
    by (auto simp: git_host_policy_def)
qed

section \<open>Compiled network domains\<close>

text \<open>The specification: the last rule for the host that is not a prompt decides.\<close>

fun host_verdict :: "NetworkRule list \<Rightarrow> string \<Rightarrow> Decision option" where
  "host_verdict [] h = None"
| "host_verdict (r # rs) h =
     (case host_verdict rs h of
        Some d \<Rightarrow> Some d
      | None \<Rightarrow> if net_Host r = h \<and> net_Decision r \<noteq> DecisionPrompt then Some (net_Decision r) else None)"

lemma host_verdict_not_prompt: "host_verdict rs h \<noteq> Some DecisionPrompt"
  by (induction rs) (auto split: option.splits)

lemma compile_domains_spec:
  assumes "distinct allowed" "distinct denied" "set allowed \<inter> set denied = {}"
  shows "distinct (fst (compile_domains rs allowed denied)) \<and> distinct (snd (compile_domains rs allowed denied)) \<and>
    (\<forall>h. h \<in> set (fst (compile_domains rs allowed denied)) \<longleftrightarrow>
       host_verdict rs h = Some DecisionAllow \<or> (host_verdict rs h = None \<and> h \<in> set allowed)) \<and>
    (\<forall>h. h \<in> set (snd (compile_domains rs allowed denied)) \<longleftrightarrow>
       host_verdict rs h = Some DecisionForbidden \<or> (host_verdict rs h = None \<and> h \<in> set denied))"
  using assms
proof (induction rs arbitrary: allowed denied)
  case Nil
  then show ?case by simp
next
  case (Cons r rs)
  show ?case
  proof (cases "net_Decision r")
    case DecisionAllow
    have "distinct (upsertDomain allowed (net_Host r))" "distinct (removeDomain denied (net_Host r))"
      "set (upsertDomain allowed (net_Host r)) \<inter> set (removeDomain denied (net_Host r)) = {}"
      using Cons.prems by (auto simp: upsertDomain_def removeDomain_def)
    from Cons.IH [OF this] DecisionAllow show ?thesis
      by (auto simp: upsertDomain_def removeDomain_def split: option.splits if_splits)
  next
    case DecisionPrompt
    with Cons.IH [OF Cons.prems] show ?thesis by (auto split: option.splits)
  next
    case DecisionForbidden
    have "distinct (removeDomain allowed (net_Host r))" "distinct (upsertDomain denied (net_Host r))"
      "set (removeDomain allowed (net_Host r)) \<inter> set (upsertDomain denied (net_Host r)) = {}"
      using Cons.prems by (auto simp: upsertDomain_def removeDomain_def)
    from Cons.IH [OF this] DecisionForbidden show ?thesis
      by (auto simp: upsertDomain_def removeDomain_def split: option.splits if_splits)
  qed
qed

text \<open>
  The compiled domain lists implement "the last allow or forbidden rule for a host decides,
  prompts do not count": a host is on the allow list exactly when that rule allows it, on the deny
  list exactly when it forbids it, and no list holds a host twice.
\<close>

theorem CompiledNetworkDomains_refines:
  "distinct (fst (CompiledNetworkDomains p)) \<and> distinct (snd (CompiledNetworkDomains p)) \<and>
   (\<forall>h. h \<in> set (fst (CompiledNetworkDomains p)) \<longleftrightarrow> host_verdict (networkRules p) h = Some DecisionAllow) \<and>
   (\<forall>h. h \<in> set (snd (CompiledNetworkDomains p)) \<longleftrightarrow> host_verdict (networkRules p) h = Some DecisionForbidden)"
  using compile_domains_spec [of "[]" "[]" "networkRules p"] by (simp add: CompiledNetworkDomains_def)

end
