(* ===== verification/Exec_Shlex.thy ===== *)
theory Exec_Shlex
  imports Go_Text
begin

text \<open>
  The POSIX shell tokenizer and quoter of \<open>src/internal/execpolicy/shlex.go\<close>, over the code points
  the Go code iterates over, and the round trip between them.
\<close>

section \<open>Splitting\<close>

abbreviation squote :: nat where "squote \<equiv> 0x27"
abbreviation dquote :: nat where "dquote \<equiv> 0x22"
abbreviation bslash :: nat where "bslash \<equiv> 0x5C"

text \<open>The inner loops over a quoted section: the text so far and the code points left, \<open>None\<close> when
  the closing quote is missing.\<close>

fun single_quoted :: "rune list \<Rightarrow> string \<Rightarrow> (string \<times> rune list) option" where
  "single_quoted [] cur = None"
| "single_quoted (r # rs) cur = (if r = squote then Some (cur, rs) else single_quoted rs (cur @ encode_rune r))"

fun double_quoted :: "rune list \<Rightarrow> string \<Rightarrow> (string \<times> rune list) option" where
  "double_quoted [] cur = None"
| "double_quoted [ch] cur = (if ch = dquote then Some (cur, []) else double_quoted [] (cur @ encode_rune ch))"
| "double_quoted (ch # nxt # rs) cur =
     (if ch = dquote then Some (cur, nxt # rs)
      else if ch = bslash \<and> (nxt = 0x24 \<or> nxt = 0x60 \<or> nxt = dquote \<or> nxt = bslash)
      then double_quoted rs (cur @ encode_rune nxt)
      else if ch = bslash \<and> nxt = 0x0A then double_quoted rs cur
      else double_quoted (nxt # rs) (cur @ encode_rune ch))"

lemma single_quoted_shrinks: "single_quoted rs cur = Some (s, rs') \<Longrightarrow> length rs' < length rs"
  by (induction rs cur rule: single_quoted.induct) (fastforce split: if_splits)+

lemma double_quoted_shrinks: "double_quoted rs cur = Some (s, rs') \<Longrightarrow> length rs' < length rs"
  by (induction rs cur rule: double_quoted.induct) (auto split: if_splits)

function split_loop :: "rune list \<Rightarrow> string list \<Rightarrow> string \<Rightarrow> bool \<Rightarrow> string list option" where
  "split_loop [] ws cur hasWord = Some (if hasWord then ws @ [cur] else ws)"
| "split_loop (c # rs) ws cur hasWord =
     (if c = 0x20 \<or> c = 0x09 \<or> c = 0x0A \<or> c = 0x0D then
        (if hasWord then split_loop rs (ws @ [cur]) [] False else split_loop rs ws cur False)
      else if c = squote then
        (case single_quoted rs cur of None \<Rightarrow> None | Some (cur', rs') \<Rightarrow> split_loop rs' ws cur' True)
      else if c = dquote then
        (case double_quoted rs cur of None \<Rightarrow> None | Some (cur', rs') \<Rightarrow> split_loop rs' ws cur' True)
      else if c = bslash then
        (case rs of
           [] \<Rightarrow> None
         | nxt # rs' \<Rightarrow>
             if nxt = 0x0A then split_loop rs' ws cur hasWord
             else split_loop rs' ws (cur @ encode_rune nxt) True)
      else split_loop rs ws (cur @ encode_rune c) True)"
  by pat_completeness auto
termination
  by (relation "measure (length \<circ> fst)") (auto dest: single_quoted_shrinks double_quoted_shrinks)

definition shlexSplit :: "string \<Rightarrow> string list option" where
  "shlexSplit input = split_loop (runes input) [] [] False"

section \<open>Quoting\<close>

definition shlexSafePunct :: string where
  "shlexSafePunct = '',._+:@%/-''"

definition isShlexSafeByte :: "char \<Rightarrow> bool" where
  "isShlexSafeByte c \<longleftrightarrow>
     (0x61 \<le> byte c \<and> byte c \<le> 0x7A) \<or> (0x41 \<le> byte c \<and> byte c \<le> 0x5A) \<or>
     (0x30 \<le> byte c \<and> byte c \<le> 0x39) \<or> c \<in> set shlexSafePunct"

definition isAllShlexSafe :: "string \<Rightarrow> bool" where
  "isAllShlexSafe s \<longleftrightarrow> list_all isShlexSafeByte s"

definition quote_byte :: "char \<Rightarrow> string" where
  "quote_byte c =
     (if c = CHR ''$'' \<or> c = CHR 0x60 \<or> c = CHR 0x22 \<or> c = CHR 0x5C \<or> c = CHR ''!''
      then [CHR 0x5C, c] else [c])"

definition shlexTryQuote :: "string \<Rightarrow> string option" where
  "shlexTryQuote s =
     (if s = [] then Some [CHR 0x27, CHR 0x27]
      else if CHR 0x00 \<in> set s then None
      else if isAllShlexSafe s then Some s
      else if CHR 0x27 \<notin> set s then Some ([CHR 0x27] @ s @ [CHR 0x27])
      else Some ([CHR 0x22] @ concat (map quote_byte s) @ [CHR 0x22]))"

fun quote_all :: "string list \<Rightarrow> string list \<Rightarrow> string list option" where
  "quote_all [] quoted = Some quoted"
| "quote_all (tok # toks) quoted =
     (case shlexTryQuote tok of None \<Rightarrow> None | Some q \<Rightarrow> quote_all toks (quoted @ [q]))"

definition shlexTryJoin :: "string list \<Rightarrow> string option" where
  "shlexTryJoin tokens = map_option (join '' '') (quote_all tokens [])"

section \<open>Code points of a quoted token\<close>

lemma encode_rune_high: "0x80 \<le> r \<Longrightarrow> c \<in> set (encode_rune r) \<Longrightarrow> 0x80 \<le> byte c"
proof (goal_cases)
  case 1
  define r' where "r' = (if (0xD800 \<le> r \<and> r \<le> 0xDFFF) \<or> 0x10FFFF < r then rune_error else r)"
  have r': "0x80 \<le> r'" "r' \<le> 0x10FFFF" using 1 by (auto simp: r'_def rune_error_def)
  have "r' div 0x40 < 0x20" if "r' < 0x800" using that by simp
  moreover have "r' div 0x1000 < 0x10" if "r' < 0x10000" using that by simp
  moreover have "r' div 0x40000 < 5" using r' by simp
  ultimately show ?case using 1 r' mod_64_le [of "r' div 0x40"] mod_64_le [of r'] mod_64_le [of "r' div 0x1000"]
    by (auto simp: encode_rune_def Let_def byte_char_of simp flip: r'_def split: if_splits)
qed

lemma ascii_in_encode_rune:
  assumes "byte c < 0x80"
  shows "c \<in> set (encode_rune r) \<longleftrightarrow> r = byte c"
proof (cases "r < 0x80")
  case True
  then show ?thesis by (auto simp: encode_rune_ascii byte_char_of)
next
  case False
  then show ?thesis using assms encode_rune_high [of r c] by auto
qed

lemma ascii_in_encode_runes: "byte c < 0x80 \<Longrightarrow> c \<in> set (encode_runes rs) \<longleftrightarrow> byte c \<in> set rs"
  by (auto simp: encode_runes_def ascii_in_encode_rune)

definition quote_rune :: "rune \<Rightarrow> rune list" where
  "quote_rune r = (if r \<in> {0x24, 0x60, dquote, bslash, 0x21} then [bslash, r] else [r])"

lemma quote_byte_ascii: "r < 0x80 \<Longrightarrow> quote_byte (char_of r) = encode_runes (quote_rune r)"
proof -
  assume r: "r < 0x80"
  have *: "char_of r = c \<longleftrightarrow> r = byte c" for c
    using r by (auto simp: byte_char_of)
  have "char_of bslash = CHR 0x5C" using char_of_char [of "CHR 0x5C", where 'a = nat] by simp
  with r show ?thesis
    by (auto simp: quote_byte_def quote_rune_def encode_runes_def encode_rune_ascii *)
qed

lemma quote_byte_high: "0x80 \<le> byte c \<Longrightarrow> quote_byte c = [c]"
  by (auto simp: quote_byte_def)

lemma quote_bytes_encode_rune: "concat (map quote_byte (encode_rune r)) = encode_runes (quote_rune r)"
proof (cases "r < 0x80")
  case True
  then show ?thesis by (simp add: encode_rune_ascii quote_byte_ascii)
next
  case False
  then have "map quote_byte (encode_rune r) = map (\<lambda>c. [c]) (encode_rune r)"
    using encode_rune_high [of r] by (intro map_cong) (auto intro!: quote_byte_high)
  moreover have "quote_rune r = [r]" using False by (auto simp: quote_rune_def)
  ultimately show ?thesis unfolding encode_runes_def
    by (simp only: list.map concat.simps append_Nil2 concat_map_singleton list.map_ident)
qed

lemma encode_runes_append: "encode_runes (a @ b) = encode_runes a @ encode_runes b"
  by (simp add: encode_runes_def)

lemma quote_bytes_encode_runes:
  "concat (map quote_byte (encode_runes rs)) = encode_runes (concat (map quote_rune rs))"
proof (induction rs)
  case Nil
  then show ?case by (simp add: encode_runes_def)
next
  case (Cons r rs)
  have "encode_runes (r # rs) = encode_rune r @ encode_runes rs" by (simp add: encode_runes_def)
  with Cons show ?case by (simp add: quote_bytes_encode_rune encode_runes_append)
qed

section \<open>Round trip\<close>

lemma single_quoted_verbatim:
  "squote \<notin> set rs \<Longrightarrow> single_quoted (rs @ squote # rest) cur = Some (cur @ encode_runes rs, rest)"
  by (induction rs arbitrary: cur) (auto simp: encode_runes_def)

lemma double_quoted_plain:
  "ch \<noteq> dquote \<Longrightarrow> ch \<noteq> bslash \<Longrightarrow> double_quoted (ch # rs) cur = double_quoted rs (cur @ encode_rune ch)"
  by (cases rs) auto

lemma double_quoted_escaped:
  "0x21 \<notin> set rs \<Longrightarrow>
    double_quoted (concat (map quote_rune rs) @ dquote # rest) cur = Some (cur @ encode_runes rs, rest)"
proof (induction rs arbitrary: cur)
  case Nil
  then show ?case by (cases rest) (auto simp: encode_runes_def)
next
  case (Cons r rs)
  then show ?case
    by (auto simp: quote_rune_def double_quoted_plain encode_runes_def)
qed

lemma split_loop_safe:
  "isAllShlexSafe s \<Longrightarrow>
    split_loop (map byte s @ rest) ws cur hw = split_loop rest ws (cur @ s) (hw \<or> s \<noteq> [])"
proof (induction s arbitrary: cur hw)
  case Nil
  then show ?case by simp
next
  case (Cons c s)
  then have c: "isShlexSafeByte c" and s: "isAllShlexSafe s" by (auto simp: isAllShlexSafe_def)
  from c have "byte c < 0x80 \<and> byte c \<notin> {0x20, 0x09, 0x0A, 0x0D, squote, dquote, bslash}"
    by (auto simp: isShlexSafeByte_def shlexSafePunct_def)
  then show ?case using Cons.IH [OF s] by (simp add: encode_byte_ascii)
qed

lemma safe_runes:
  assumes "isAllShlexSafe s" shows "runes (s @ t) = map byte s @ runes t"
  using assms
proof (induction s)
  case Nil
  then show ?case by simp
next
  case (Cons c s)
  then have "byte c < 0x80" by (auto simp: isAllShlexSafe_def isShlexSafeByte_def shlexSafePunct_def)
  then show ?case using Cons by (simp add: runes_ascii_Cons isAllShlexSafe_def)
qed

lemma valid_quote_runes: "list_all valid_rune rs \<Longrightarrow> list_all valid_rune (concat (map quote_rune rs))"
  by (induction rs) (auto simp: quote_rune_def valid_rune_def)

text \<open>The tokens the quoting is exact for: valid UTF-8, without both a single quote and \<open>!\<close>.\<close>

definition quotable :: "string \<Rightarrow> bool" where
  "quotable t \<longleftrightarrow> valid_utf8 t \<and> \<not> (CHR 0x27 \<in> set t \<and> CHR ''!'' \<in> set t)"

text \<open>Reading back one quoted token leaves exactly that token as the current word.\<close>

lemma split_quoted_token:
  assumes "quotable t" "shlexTryQuote t = Some q"
  shows "split_loop (runes (q @ rest)) ws [] False = split_loop (runes rest) ws t True"
proof -
  obtain rs where rs: "list_all valid_rune rs" "t = encode_runes rs"
    using assms(1) by (auto simp: quotable_def valid_utf8_iff)
  have sq: "CHR 0x27 \<in> set t \<longleftrightarrow> squote \<in> set rs" and ex: "CHR ''!'' \<in> set t \<longleftrightarrow> 0x21 \<in> set rs"
    unfolding rs by (simp_all add: ascii_in_encode_runes)
  consider "t = []" | "t \<noteq> []" "isAllShlexSafe t" | "t \<noteq> []" "\<not> isAllShlexSafe t" "squote \<notin> set rs"
    | "t \<noteq> []" "\<not> isAllShlexSafe t" "squote \<in> set rs" by blast
  then show ?thesis
  proof cases
    case 1
    then show ?thesis using assms by (auto simp: shlexTryQuote_def runes_ascii_Cons)
  next
    case 2
    then show ?thesis using assms by (auto simp: shlexTryQuote_def safe_runes split_loop_safe split: if_splits)
  next
    case 3
    then have "q = CHR 0x27 # encode_runes rs @ [CHR 0x27]"
      using assms(2) sq rs(2) by (auto simp: shlexTryQuote_def split: if_splits)
    then have "runes (q @ rest) = squote # rs @ squote # runes rest"
      using rs(1) by (simp add: runes_ascii_Cons runes_encode_append)
    then show ?thesis using 3 rs by (simp add: single_quoted_verbatim)
  next
    case 4
    then have "q = CHR 0x22 # encode_runes (concat (map quote_rune rs)) @ [CHR 0x22]"
      using assms(2) sq rs(2) by (auto simp: shlexTryQuote_def quote_bytes_encode_runes split: if_splits)
    then have "runes (q @ rest) = dquote # concat (map quote_rune rs) @ dquote # runes rest"
      using rs(1) by (simp add: runes_ascii_Cons runes_encode_append valid_quote_runes)
    moreover have "0x21 \<notin> set rs" using assms(1) 4 sq ex by (auto simp: quotable_def)
    ultimately show ?thesis using rs by (simp add: double_quoted_escaped)
  qed
qed

lemma quote_all_append:
  "quote_all toks acc = Some qs \<Longrightarrow> \<exists>qs'. qs = acc @ qs' \<and> list_all2 (\<lambda>t q. shlexTryQuote t = Some q) toks qs'"
proof (induction toks arbitrary: acc)
  case Nil
  then show ?case by simp
next
  case (Cons t toks)
  then obtain q where "shlexTryQuote t = Some q" "quote_all toks (acc @ [q]) = Some qs"
    by (auto split: option.splits)
  with Cons.IH show ?case by fastforce
qed

lemma split_joined_tokens:
  assumes "list_all2 (\<lambda>t q. shlexTryQuote t = Some q) toks qs" "list_all quotable toks"
  shows "split_loop (runes (join '' '' qs)) ws [] False = Some (ws @ toks)"
  using assms
proof (induction toks qs arbitrary: ws rule: list_all2_induct)
  case Nil
  then show ?case by simp
next
  case (Cons t toks q qs)
  then have q: "split_loop (runes (q @ rest)) ws [] False = split_loop (runes rest) ws t True" for rest
    using split_quoted_token by simp
  show ?case
  proof (cases qs)
    case Nil
    then show ?thesis using q [of "[]"] Cons.hyps by simp
  next
    case (Cons q' qs')
    then have j: "join '' '' (q # qs) = q @ CHR '' '' # join '' '' qs" by simp
    show ?thesis unfolding j q using Cons.IH Cons.prems by (simp add: runes_ascii_Cons)
  qed
qed

lemma shlexTryQuote_defined: "CHR 0x00 \<notin> set t \<Longrightarrow> \<exists>q. shlexTryQuote t = Some q"
  by (simp add: shlexTryQuote_def)

lemma quote_all_defined: "list_all (\<lambda>t. CHR 0x00 \<notin> set t) toks \<Longrightarrow> \<exists>qs. quote_all toks acc = Some qs"
proof (induction toks arbitrary: acc)
  case Nil
  then show ?case by simp
next
  case (Cons t toks)
  then show ?case using shlexTryQuote_defined [of t] by fastforce
qed

lemma ascii_valid_utf8:
  assumes "list_all (\<lambda>c. byte c < 0x80) s" shows "valid_utf8 s"
  unfolding valid_utf8_iff
  using assms encode_runes_ascii [OF assms]
  by (intro exI [of _ "map byte s"]) (auto simp: list_all_iff valid_rune_def)

text \<open>
  C16. A command line of NUL-free tokens can always be rendered by shlexTryJoin, and tokenizing the
  rendering with shlexSplit gives exactly the tokens back, for any list of valid UTF-8 tokens in which
  no token holds both a single quote and an exclamation mark.
\<close>

theorem shlexSplit_shlexTryJoin:
  assumes "list_all (\<lambda>t. CHR 0x00 \<notin> set t) tokens" "list_all quotable tokens"
  shows "\<exists>s. shlexTryJoin tokens = Some s \<and> shlexSplit s = Some tokens"
proof -
  obtain qs where qs: "quote_all tokens [] = Some qs" using quote_all_defined assms(1) by blast
  then have "shlexTryJoin tokens = Some (join '' '' qs)" by (simp add: shlexTryJoin_def)
  moreover have "shlexSplit (join '' '' qs) = Some tokens"
    using quote_all_append [OF qs] split_joined_tokens [OF _ assms(2)] by (auto simp: shlexSplit_def)
  ultimately show ?thesis by blast
qed

lemma shlexSplit_shlexTryJoin_witness:
  "\<exists>s. shlexTryJoin [''git'', ''a b'', ''it'' @ [CHR 0x27] @ ''s $5'', []] = Some s \<and>
     shlexSplit s = Some [''git'', ''a b'', ''it'' @ [CHR 0x27] @ ''s $5'', []]"
  by (rule shlexSplit_shlexTryJoin) (simp_all add: quotable_def ascii_valid_utf8)

text \<open>
  The exception of the round trip is real: the quoter escapes an exclamation mark inside double quotes with
  a backslash that the tokenizer keeps, so the token \<open>don't!\<close> comes back with a backslash in it.
\<close>

theorem exclamation_mark_not_read_back:
  "shlexTryJoin [''don'' @ [CHR 0x27] @ ''t!''] = Some ([CHR 0x22] @ ''don'' @ [CHR 0x27] @ ''t'' @ [CHR 0x5C] @ ''!'' @ [CHR 0x22]) \<and>
   shlexSplit ([CHR 0x22] @ ''don'' @ [CHR 0x27] @ ''t'' @ [CHR 0x5C] @ ''!'' @ [CHR 0x22]) =
     Some [''don'' @ [CHR 0x27] @ ''t'' @ [CHR 0x5C] @ ''!'']"
  by (simp add: shlexTryJoin_def shlexTryQuote_def isAllShlexSafe_def isShlexSafeByte_def shlexSafePunct_def
      quote_byte_def shlexSplit_def runes_ascii_Cons encode_byte_ascii encode_rune_ascii char_of_def bit_0)

end
