(* ===== verification/Exec_Builder.thy ===== *)
theory Exec_Builder
  imports Exec_Policy Exec_Shlex
begin

text \<open>
  Building a policy: \<open>src/internal/execpolicy\<close>, files parse\_helpers.go, parser.go, builder.go and
  validate.go. Starlark itself (go.starlark.net) is a parameter: the observers the code calls on
  a Starlark value are the record \<open>starlark\<close>, a builtin receives its unpacked arguments together with the
  names passed by keyword, and the evaluation of a file is a function on the builder. The calls of the
  builtins form the step relation \<open>builder_step\<close>.
\<close>

section \<open>Starlark values (parse\_helpers.go)\<close>

text \<open>\<open>starlark.AsString\<close>, the assertion to \<open>*starlark.List\<close> with its elements, and \<open>Type()\<close>.\<close>

record 'v starlark =
  AsString :: "'v \<Rightarrow> string option"
  AsList :: "'v \<Rightarrow> 'v list option"
  TypeName :: "'v \<Rightarrow> string"

definition listElements :: "'v list option \<Rightarrow> 'v list" where
  "listElements xs = (case xs of None \<Rightarrow> [] | Some elems \<Rightarrow> elems)"

text \<open>The loops that convert each element or stop at the first failure.\<close>

fun map_res :: "('a \<Rightarrow> ('e, 'b) result) \<Rightarrow> 'a list \<Rightarrow> ('e, 'b list) result" where
  "map_res f [] = Inr []"
| "map_res f (x # xs) = bind_res (f x) (\<lambda>y. bind_res (map_res f xs) (\<lambda>ys. Inr (y # ys)))"

definition string_elem :: "'v starlark \<Rightarrow> ErrorKind \<Rightarrow> string \<Rightarrow> 'v \<Rightarrow> (policy_error, string) result" where
  "string_elem sv k what v =
     (case AsString sv v of
        Some s \<Rightarrow> Inr s
      | None \<Rightarrow> Inl (mk_error k (what @ '' (got '' @ TypeName sv v @ '')'')))"

definition parsePatternToken :: "'v starlark \<Rightarrow> 'v \<Rightarrow> (policy_error, PatternToken) result" where
  "parsePatternToken sv value =
     (case AsString sv value of
        Some s \<Rightarrow> Inr (PatternTokenSingle s)
      | None \<Rightarrow>
          (case AsList sv value of
             None \<Rightarrow> Inl (mk_error ErrInvalidPattern
               (''pattern element must be a string or list of strings (got '' @ TypeName sv value @ '')''))
           | Some elems \<Rightarrow>
               bind_res (map_res (string_elem sv ErrInvalidPattern ''pattern alternative must be a string'') elems)
                 (\<lambda>tokens.
                    case tokens of
                      [] \<Rightarrow> Inl (mk_error ErrInvalidPattern ''pattern alternatives cannot be empty'')
                    | [t] \<Rightarrow> Inr (PatternTokenSingle t)
                    | _ \<Rightarrow> Inr (PatternTokenAlts tokens))))"

definition parsePattern :: "'v starlark \<Rightarrow> 'v list option \<Rightarrow> (policy_error, PatternToken list) result" where
  "parsePattern sv pattern =
     bind_res (map_res (parsePatternToken sv) (listElements pattern)) (\<lambda>tokens.
       if tokens = [] then Inl (mk_error ErrInvalidPattern ''pattern cannot be empty'') else Inr tokens)"

definition parseStringExample :: "string \<Rightarrow> (policy_error, string list) result" where
  "parseStringExample raw =
     (case shlexSplit raw of
        None \<Rightarrow> Inl (mk_error ErrInvalidExample ''example string has invalid shell syntax'')
      | Some tokens \<Rightarrow>
          if tokens = [] then Inl (mk_error ErrInvalidExample ''example cannot be an empty string'') else Inr tokens)"

definition parseListExample :: "'v starlark \<Rightarrow> 'v list \<Rightarrow> (policy_error, string list) result" where
  "parseListExample sv elems =
     bind_res (map_res (string_elem sv ErrInvalidExample ''example tokens must be strings'') elems) (\<lambda>tokens.
       if tokens = [] then Inl (mk_error ErrInvalidExample ''example cannot be an empty list'') else Inr tokens)"

definition parseExample :: "'v starlark \<Rightarrow> 'v \<Rightarrow> (policy_error, string list) result" where
  "parseExample sv value =
     (case AsString sv value of
        Some s \<Rightarrow> parseStringExample s
      | None \<Rightarrow>
          (case AsList sv value of
             None \<Rightarrow> Inl (mk_error ErrInvalidExample
               (''example must be a string or list of strings (got '' @ TypeName sv value @ '')''))
           | Some elems \<Rightarrow> parseListExample sv elems))"

definition parseExamples :: "'v starlark \<Rightarrow> 'v list option \<Rightarrow> (policy_error, string list list) result" where
  "parseExamples sv examples = map_res (parseExample sv) (listElements examples)"

section \<open>The builder (builder.go)\<close>

record pendingExampleValidation =
  pend_rules :: "PrefixRule list"
  pend_matches :: "string list list"
  pend_notMatches :: "string list list"
  pend_location :: "ErrorLocation option"

record policyBuilder =
  b_rulesByProgram :: "string \<rightharpoonup> PrefixRule list"
  b_networkRules :: "NetworkRule list"
  b_hostExecutablesByName :: "string \<rightharpoonup> string list"
  b_pending :: "pendingExampleValidation list"

definition newPolicyBuilder :: policyBuilder where
  "newPolicyBuilder = \<lparr>b_rulesByProgram = Map.empty, b_networkRules = [],
     b_hostExecutablesByName = Map.empty, b_pending = []\<rparr>"

definition addRule :: "policyBuilder \<Rightarrow> PrefixRule \<Rightarrow> policyBuilder" where
  "addRule b rule = b\<lparr>b_rulesByProgram := rule_map_insert (b_rulesByProgram b) (Program rule) rule\<rparr>"

definition addNetworkRule :: "policyBuilder \<Rightarrow> NetworkRule \<Rightarrow> policyBuilder" where
  "addNetworkRule b rule = b\<lparr>b_networkRules := b_networkRules b @ [rule]\<rparr>"

definition addHostExecutable :: "policyBuilder \<Rightarrow> string \<Rightarrow> string list \<Rightarrow> policyBuilder" where
  "addHostExecutable b name paths = b\<lparr>b_hostExecutablesByName := (b_hostExecutablesByName b)(name \<mapsto> paths)\<rparr>"

definition addPendingExampleValidation ::
    "policyBuilder \<Rightarrow> PrefixRule list \<Rightarrow> string list list \<Rightarrow> string list list \<Rightarrow> ErrorLocation option \<Rightarrow> policyBuilder" where
  "addPendingExampleValidation b rules matches notMatches location =
     b\<lparr>b_pending := b_pending b @ [\<lparr>pend_rules = rules, pend_matches = matches, pend_notMatches = notMatches,
         pend_location = location\<rparr>]\<rparr>"

definition build :: "policyBuilder \<Rightarrow> Policy" where
  "build b = \<lparr>rulesByProgram = b_rulesByProgram b, networkRules = b_networkRules b,
     hostExecutablesByName = b_hostExecutablesByName b\<rparr>"

section \<open>Example validation (validate.go)\<close>

definition renderExample :: "string list \<Rightarrow> string" where
  "renderExample ex = (case shlexTryJoin ex of Some rendered \<Rightarrow> rendered | None \<Rightarrow> ''unable to render example'')"

definition renderRules :: "go_env \<Rightarrow> PrefixRule list \<Rightarrow> string list" where
  "renderRules env rules = map (rule_debug env) rules"

definition validateMatchExamples ::
    "go_env \<Rightarrow> Policy \<Rightarrow> PrefixRule list \<Rightarrow> string list list \<Rightarrow> policy_error option" where
  "validateMatchExamples env policy rules matches =
     (let unmatched = map renderExample
            (filter (\<lambda>ex. MatchesForCommand env policy ex None \<lparr>ResolveHostExecutables = True\<rparr> = []) matches) in
      if unmatched = [] then None
      else Some ((mk_error ErrExampleDidNotMatch [])\<lparr>err_Rules := renderRules env rules, err_Examples := unmatched\<rparr>))"

fun validateNotMatchExamples :: "go_env \<Rightarrow> Policy \<Rightarrow> string list list \<Rightarrow> policy_error option" where
  "validateNotMatchExamples env policy [] = None"
| "validateNotMatchExamples env policy (ex # exs) =
     (case MatchesForCommand env policy ex None \<lparr>ResolveHostExecutables = True\<rparr> of
        [] \<Rightarrow> validateNotMatchExamples env policy exs
      | m # _ \<Rightarrow> Some ((mk_error ErrExampleDidMatch [])\<lparr>err_Rule := match_debug env m, err_Example := renderExample ex\<rparr>))"

definition attachValidationLocation :: "policy_error \<Rightarrow> ErrorLocation option \<Rightarrow> policy_error" where
  "attachValidationLocation err location =
     (case location of None \<Rightarrow> err | Some loc \<Rightarrow> withLocation err loc)"

definition scratch_policy :: "policyBuilder \<Rightarrow> pendingExampleValidation \<Rightarrow> Policy" where
  "scratch_policy b v =
     \<lparr>rulesByProgram = foldl (\<lambda>m rule. rule_map_insert m (Program rule) rule) Map.empty (pend_rules v),
      networkRules = [], hostExecutablesByName = b_hostExecutablesByName b\<rparr>"

definition validate_pending :: "go_env \<Rightarrow> policyBuilder \<Rightarrow> pendingExampleValidation \<Rightarrow> policy_error option" where
  "validate_pending env b v =
     (let scratch = scratch_policy b v in
      case validateNotMatchExamples env scratch (pend_notMatches v) of
        Some err \<Rightarrow> Some (attachValidationLocation err (pend_location v))
      | None \<Rightarrow>
          (case validateMatchExamples env scratch (pend_rules v) (pend_matches v) of
             Some err \<Rightarrow> Some (attachValidationLocation err (pend_location v))
           | None \<Rightarrow> None))"

fun validate_all :: "go_env \<Rightarrow> policyBuilder \<Rightarrow> pendingExampleValidation list \<Rightarrow> policy_error option" where
  "validate_all env b [] = None"
| "validate_all env b (v # vs) =
     (case validate_pending env b v of Some err \<Rightarrow> Some err | None \<Rightarrow> validate_all env b vs)"

definition validatePendingExamplesFrom :: "go_env \<Rightarrow> policyBuilder \<Rightarrow> nat \<Rightarrow> policy_error option" where
  "validatePendingExamplesFrom env b start = validate_all env b (drop start (b_pending b))"

section \<open>The builtins (parser.go)\<close>

text \<open>
  The arguments after \<open>starlark.UnpackArgs\<close>; an omitted optional string is the empty string, an
  omitted optional list is \<open>None\<close>, and \<open>kw\<close> lists the names that were passed by keyword.
\<close>

record 'v prefix_rule_args =
  pr_pattern :: "'v list option"
  pr_decision :: string
  pr_match :: "'v list option"
  pr_not_match :: "'v list option"
  pr_justification :: string
  pr_kw :: "string list"

record network_rule_args =
  nr_host :: string
  nr_protocol :: string
  nr_decision :: string
  nr_justification :: string
  nr_kw :: "string list"

definition hasKeyword :: "string list \<Rightarrow> string \<Rightarrow> bool" where
  "hasKeyword kwargs name \<longleftrightarrow> name \<in> set kwargs"

definition prefixRuleBuiltin ::
    "'v starlark \<Rightarrow> ErrorLocation option \<Rightarrow> 'v prefix_rule_args \<Rightarrow> policyBuilder \<Rightarrow> (policy_error, policyBuilder) result" where
  "prefixRuleBuiltin sv location args b =
     bind_res (if hasKeyword (pr_kw args) ''decision'' then ParseDecision (pr_decision args) else Inr DecisionAllow)
       (\<lambda>decision.
          let justificationSet = hasKeyword (pr_kw args) ''justification'' in
          if justificationSet \<and> isBlank (pr_justification args)
          then Inl (mk_error ErrInvalidRule ''justification cannot be empty'')
          else
            bind_res (parsePattern sv (pr_pattern args)) (\<lambda>patternTokens.
            bind_res (parseExamples sv (pr_match args)) (\<lambda>matches.
            bind_res (parseExamples sv (pr_not_match args)) (\<lambda>notMatches.
              let rules = map (\<lambda>head. \<lparr>rule_Pattern = \<lparr>pat_first = head, pat_rest = tl patternTokens\<rparr>,
                            rule_Decision = decision, rule_Justification = pr_justification args,
                            rule_HasJustification = justificationSet\<rparr>) (Alternatives (hd patternTokens)) in
              Inr (foldl addRule (addPendingExampleValidation b rules matches notMatches location) rules)))))"

definition networkRuleBuiltin :: "go_env \<Rightarrow> network_rule_args \<Rightarrow> policyBuilder \<Rightarrow> (policy_error, policyBuilder) result" where
  "networkRuleBuiltin env args b =
     bind_res (ParseNetworkRuleProtocol (nr_protocol args)) (\<lambda>protocol.
     bind_res (parseNetworkRuleDecision (nr_decision args)) (\<lambda>decision.
       let justificationSet = hasKeyword (nr_kw args) ''justification'' in
       if justificationSet \<and> isBlank (nr_justification args)
       then Inl (mk_error ErrInvalidRule ''justification cannot be empty'')
       else
         bind_res (normalizeNetworkRuleHost env (nr_host args)) (\<lambda>normalizedHost.
           Inr (addNetworkRule b \<lparr>net_Host = normalizedHost, net_Protocol = protocol, net_Decision = decision,
             net_Justification = (if justificationSet then nr_justification args else []),
             net_HasJustification = justificationSet\<rparr>))))"

definition parseLiteralAbsolutePath :: "go_env \<Rightarrow> string \<Rightarrow> (policy_error, string) result" where
  "parseLiteralAbsolutePath env raw =
     (if \<not> filepath_IsAbs env raw
      then Inl (mk_error ErrInvalidRule (''host_executable paths must be absolute (got '' @ raw @ '')''))
      else
        (case FromAbsolutePathChecked (env_windows env) (env_home env) raw of
           Inl err \<Rightarrow> Inl (mk_error ErrInvalidRule
             (''invalid absolute path '' @ [CHR 0x60] @ raw @ [CHR 0x60] @ '': '' @ abspath_error_text err))
         | Inr path \<Rightarrow> Inr path))"

fun host_paths_loop ::
    "go_env \<Rightarrow> 'v starlark \<Rightarrow> string \<Rightarrow> 'v list \<Rightarrow> string list \<Rightarrow> (policy_error, string list) result" where
  "host_paths_loop env sv name [] parsed = Inr parsed"
| "host_paths_loop env sv name (value # values) parsed =
     bind_res (string_elem sv ErrInvalidRule ''host_executable paths must be strings'' value) (\<lambda>raw.
     bind_res (parseLiteralAbsolutePath env raw) (\<lambda>path.
       if executablePathLookupKey env path \<noteq> Some (executableLookupKey env name)
       then Inl (mk_error ErrInvalidRule
              (''host_executable path '' @ [CHR 0x60] @ raw @ [CHR 0x60] @ '' must have basename ''
                @ [CHR 0x60] @ name @ [CHR 0x60]))
       else host_paths_loop env sv name values
              (if containsPath parsed path then parsed else parsed @ [path])))"

definition parseHostExecutablePaths ::
    "go_env \<Rightarrow> 'v starlark \<Rightarrow> string \<Rightarrow> 'v list option \<Rightarrow> (policy_error, string list) result" where
  "parseHostExecutablePaths env sv name pathsList =
     host_paths_loop env sv name (listElements pathsList) []"

definition containsPathSeparator :: "go_env \<Rightarrow> string \<Rightarrow> bool" where
  "containsPathSeparator env name = list_ex (\<lambda>c. c = CHR ''/'' \<or> c = path_separator env) name"

definition validateHostExecutableName :: "go_env \<Rightarrow> string \<Rightarrow> policy_error option" where
  "validateHostExecutableName env name =
     (if name = [] then Some (mk_error ErrInvalidRule ''host_executable name cannot be empty'')
      else if filepath_Base env name \<noteq> name \<or> containsPathSeparator env name \<or> name = ''.'' \<or> name = ''..''
      then Some (mk_error ErrInvalidRule
             (''host_executable name must be a bare executable name (got '' @ name @ '')''))
      else None)"

definition hostExecutableBuiltin ::
    "go_env \<Rightarrow> 'v starlark \<Rightarrow> string \<Rightarrow> 'v list option \<Rightarrow> policyBuilder \<Rightarrow> (policy_error, policyBuilder) result" where
  "hostExecutableBuiltin env sv name pathsList b =
     (case validateHostExecutableName env name of
        Some err \<Rightarrow> Inl err
      | None \<Rightarrow>
          bind_res (parseHostExecutablePaths env sv name pathsList) (\<lambda>parsedPaths.
            Inr (addHostExecutable b (executableLookupKey env name) parsedPaths)))"

text \<open>The error chain an evaluation returns, and the search for a policy error in it.\<close>

datatype go_error = PolicyFailure policy_error | WrappedFailure string go_error | OtherFailure string

fun unwrapPolicyError :: "go_error \<Rightarrow> policy_error option" where
  "unwrapPolicyError (PolicyFailure e) = Some e"
| "unwrapPolicyError (WrappedFailure msg e) = unwrapPolicyError e"
| "unwrapPolicyError (OtherFailure msg) = None"

fun go_error_text :: "(policy_error \<Rightarrow> string) \<Rightarrow> go_error \<Rightarrow> string" where
  "go_error_text f (PolicyFailure e) = f e"
| "go_error_text f (WrappedFailure msg e) = msg"
| "go_error_text f (OtherFailure msg) = msg"

text \<open>
  \<open>PolicyParser.Parse\<close>. The evaluation of the file by Starlark is the parameter \<open>exec\<close>: from the
  builder it returns the builder the builtins left behind, and the error with its location, if any.
\<close>

definition Parse ::
    "go_env \<Rightarrow> (string \<Rightarrow> string \<Rightarrow> policyBuilder \<Rightarrow> policyBuilder \<times> (go_error \<times> ErrorLocation option) option)
     \<Rightarrow> policyBuilder \<Rightarrow> string \<Rightarrow> string \<Rightarrow> policyBuilder \<times> policy_error option" where
  "Parse env exec b policyIdentifier policyFileContents =
     (let pendingValidationCount = length (b_pending b);
          (b', outcome) = exec policyIdentifier policyFileContents b in
      case outcome of
        Some (err, location) \<Rightarrow>
          (case unwrapPolicyError err of
             Some policyErr \<Rightarrow> (b', Some policyErr)
           | None \<Rightarrow> (b', Some ((mk_error ErrStarlark [])\<lparr>err_Location := location,
                       err_Wrapped := Some (go_error_text (Error_Error env) err)\<rparr>)))
      | None \<Rightarrow> (b', validatePendingExamplesFrom env b' pendingValidationCount))"

section \<open>Indexing by program is exact\<close>

lemma foldl_rule_map_insert_get:
  "(case foldl (\<lambda>m rule. rule_map_insert m (Program rule) rule) m rules k of None \<Rightarrow> [] | Some rs \<Rightarrow> rs)
     = (case m k of None \<Rightarrow> [] | Some rs \<Rightarrow> rs) @ filter (\<lambda>r. Program r = k) rules"
  by (induction rules arbitrary: m) (auto simp: rule_map_insert_get split: option.splits)

lemma foldl_addRule:
  "foldl addRule b rules =
     b\<lparr>b_rulesByProgram := foldl (\<lambda>m rule. rule_map_insert m (Program rule) rule) (b_rulesByProgram b) rules\<rparr>"
  by (induction rules arbitrary: b) (simp_all add: addRule_def)

lemma matchExactRules_lookup:
  "matchExactRules p (c # cs) =
     List.map_filter (\<lambda>r. rule_matches r (c # cs)) (case rulesByProgram p c of None \<Rightarrow> [] | Some rs \<Rightarrow> rs)"
  by (simp add: matchExactRules_def List.map_filter_simps split: option.splits)

text \<open>
  The index by first token is only an optimisation: a policy built by adding rules one after the
  other matches a command with exactly the matches, in the same order, that scanning all the added
  rules in declaration order would find.
\<close>

theorem indexed_matching_equals_scan:
  "matchExactRules (build (foldl addRule newPolicyBuilder rules)) cmd = List.map_filter (\<lambda>r. rule_matches r cmd) rules"
proof (cases cmd)
  case Nil
  have "rule_matches r [] = None" for r by (simp add: rule_matches_def matchesPrefix_def)
  then show ?thesis using Nil by (simp add: matchExactRules_def map_filter_def)
next
  case (Cons c cs)
  then show ?thesis
    using prefix_rule.scan_by_program [of c cs rules]
    by (simp add: matchExactRules_lookup foldl_addRule build_def foldl_rule_map_insert_get newPolicyBuilder_def)
qed

section \<open>Example self-tests\<close>

lemma validateNotMatchExamples_None_iff:
  "validateNotMatchExamples env p exs = None \<longleftrightarrow>
     (\<forall>ex \<in> set exs. MatchesForCommand env p ex None \<lparr>ResolveHostExecutables = True\<rparr> = [])"
  by (induction exs) (auto split: list.splits)

lemma validateMatchExamples_None_iff:
  "validateMatchExamples env p rules exs = None \<longleftrightarrow>
     (\<forall>ex \<in> set exs. MatchesForCommand env p ex None \<lparr>ResolveHostExecutables = True\<rparr> \<noteq> [])"
  by (auto simp: validateMatchExamples_def Let_def filter_empty_conv)

lemma validate_pending_None_iff:
  "validate_pending env b v = None \<longleftrightarrow>
     (\<forall>ex \<in> set (pend_notMatches v).
        MatchesForCommand env (scratch_policy b v) ex None \<lparr>ResolveHostExecutables = True\<rparr> = []) \<and>
     (\<forall>ex \<in> set (pend_matches v).
        MatchesForCommand env (scratch_policy b v) ex None \<lparr>ResolveHostExecutables = True\<rparr> \<noteq> [])"
  unfolding validate_pending_def Let_def validateNotMatchExamples_None_iff [symmetric]
    validateMatchExamples_None_iff [where rules = "pend_rules v", symmetric]
  by (auto split: option.splits)

lemma validate_all_None_iff:
  "validate_all env b vs = None \<longleftrightarrow> (\<forall>v \<in> set vs. validate_pending env b v = None)"
  by (induction vs) (auto split: option.splits)


text \<open>A Starlark universe of strings only, for evaluating examples.\<close>

definition string_values :: "string starlark" where
  "string_values = \<lparr>AsString = Some, AsList = (\<lambda>_. None), TypeName = (\<lambda>_. ''string'')\<rparr>"

section \<open>Reachable builders\<close>

text \<open>One call of a builtin that succeeds.\<close>

inductive builder_step :: "go_env \<Rightarrow> 'v starlark \<Rightarrow> policyBuilder \<Rightarrow> policyBuilder \<Rightarrow> bool"
  for env :: go_env and sv :: "'v starlark" where
  prefix_rule: "prefixRuleBuiltin sv location args b = Inr b' \<Longrightarrow> builder_step env sv b b'"
| network_rule: "networkRuleBuiltin env nargs b = Inr b' \<Longrightarrow> builder_step env sv b b'"
| host_executable: "hostExecutableBuiltin env sv name paths b = Inr b' \<Longrightarrow> builder_step env sv b b'"

text \<open>
  What every reachable builder satisfies: a rule is stored under its own program, a network host is
  normalized text without wildcard or white space, and an allowlist holds, without repetition,
  only paths whose executable name is the key it is stored under.
\<close>

definition rules_ok :: "policyBuilder \<Rightarrow> bool" where
  "rules_ok b \<longleftrightarrow> (\<forall>k rules. b_rulesByProgram b k = Some rules \<longrightarrow> rules \<noteq> [] \<and> (\<forall>r \<in> set rules. Program r = k))"

definition hosts_ok :: "policyBuilder \<Rightarrow> bool" where
  "hosts_ok b \<longleftrightarrow> (\<forall>r \<in> set (b_networkRules b).
     net_Host r \<noteq> [] \<and> CHR ''*'' \<notin> set (net_Host r) \<and> \<not> containsWhitespace (net_Host r))"

definition allowlists_ok :: "go_env \<Rightarrow> policyBuilder \<Rightarrow> bool" where
  "allowlists_ok env b \<longleftrightarrow> (\<forall>k paths. b_hostExecutablesByName b k = Some paths \<longrightarrow>
     distinct paths \<and> (\<forall>path \<in> set paths. executablePathLookupKey env path = Some k))"

lemma rules_ok_addRule: "rules_ok b \<Longrightarrow> rules_ok (addRule b r)"
  by (cases "b_rulesByProgram b (Program r)")
     (auto simp: rules_ok_def addRule_def rule_map_insert_get split: if_splits)

lemma rules_ok_foldl_addRule: "rules_ok b \<Longrightarrow> rules_ok (foldl addRule b rs)"
  by (induction rs arbitrary: b) (simp_all add: rules_ok_addRule)

lemma prefixRuleBuiltin_effect:
  assumes "prefixRuleBuiltin sv location args b = Inr b'"
  shows "\<exists>rules matches notMatches.
    b' = foldl addRule (addPendingExampleValidation b rules matches notMatches location) rules"
  using assms by (auto simp: prefixRuleBuiltin_def bind_res_Inr_iff Let_def split: if_splits)

lemma host_paths_loop_ok:
  assumes "host_paths_loop env sv name vals parsed = Inr paths"
    and "distinct parsed" "\<forall>path \<in> set parsed. executablePathLookupKey env path = Some (executableLookupKey env name)"
  shows "distinct paths \<and> (\<forall>path \<in> set paths. executablePathLookupKey env path = Some (executableLookupKey env name))"
  using assms
proof (induction vals arbitrary: parsed)
  case Nil
  then show ?case by simp
next
  case (Cons v vs)
  from Cons.prems(1) obtain path where path: "executablePathLookupKey env path = Some (executableLookupKey env name)"
      "host_paths_loop env sv name vs (if containsPath parsed path then parsed else parsed @ [path]) = Inr paths"
    by (auto simp: bind_res_Inr_iff split: if_splits)
  show ?case
    by (rule Cons.IH [OF path(2)]) (use Cons.prems path(1) in \<open>auto simp: containsPath_def list_ex_iff\<close>)
qed

lemma hosts_ok_networkRuleBuiltin:
  assumes "networkRuleBuiltin env args b = Inr b'" "hosts_ok b"
  shows "hosts_ok b'"
proof -
  have host: "h \<noteq> [] \<and> CHR ''*'' \<notin> set h \<and> \<not> containsWhitespace h"
    if "normalizeNetworkRuleHost env raw = Inr h" for raw h
    using that
    by (auto simp: normalizeNetworkRuleHost_def bind_res_Inr_iff Let_def Contains_char split: if_splits)
  from assms show ?thesis
    by (auto simp: networkRuleBuiltin_def bind_res_Inr_iff Let_def hosts_ok_def addNetworkRule_def
        dest!: host split: if_splits)
qed

lemma builder_step_preserves:
  assumes "builder_step env sv b b'" "rules_ok b \<and> hosts_ok b \<and> allowlists_ok env b"
  shows "rules_ok b' \<and> hosts_ok b' \<and> allowlists_ok env b'"
  using assms(1)
proof (cases rule: builder_step.cases)
  case (prefix_rule location args)
  then obtain rules ms ns where b': "b' = foldl addRule (addPendingExampleValidation b rules ms ns location) rules"
    using prefixRuleBuiltin_effect by blast
  have "rules_ok (addPendingExampleValidation b rules ms ns location)"
    using assms(2) by (simp add: rules_ok_def addPendingExampleValidation_def)
  then have "rules_ok b'" unfolding b' by (rule rules_ok_foldl_addRule)
  then show ?thesis using assms(2)
    by (simp add: b' foldl_addRule addPendingExampleValidation_def hosts_ok_def allowlists_ok_def)
next
  case (network_rule nargs)
  then have "b_rulesByProgram b' = b_rulesByProgram b \<and> b_hostExecutablesByName b' = b_hostExecutablesByName b"
    by (auto simp: networkRuleBuiltin_def bind_res_Inr_iff Let_def addNetworkRule_def split: if_splits)
  then show ?thesis
    using hosts_ok_networkRuleBuiltin [OF network_rule] assms(2) by (simp add: rules_ok_def allowlists_ok_def)
next
  case (host_executable name paths)
  then obtain ps where ps: "parseHostExecutablePaths env sv name paths = Inr ps"
      "b' = addHostExecutable b (executableLookupKey env name) ps"
    by (auto simp: hostExecutableBuiltin_def bind_res_Inr_iff split: option.splits)
  have "distinct ps \<and> (\<forall>path \<in> set ps. executablePathLookupKey env path = Some (executableLookupKey env name))"
    using ps(1) host_paths_loop_ok by (fastforce simp: parseHostExecutablePaths_def)
  then show ?thesis using assms(2)
    by (auto simp: ps(2) addHostExecutable_def rules_ok_def hosts_ok_def allowlists_ok_def)
qed

lemma builder_steps_preserve:
  assumes "(builder_step env sv)\<^sup>*\<^sup>* b b'" "rules_ok b \<and> hosts_ok b \<and> allowlists_ok env b"
  shows "rules_ok b' \<and> hosts_ok b' \<and> allowlists_ok env b'"
  using assms by (induction rule: rtranclp_induct) (blast dest: builder_step_preserves)+

text \<open>
  C26. Every policy a parser can build is well formed. If evaluating a file changes the builder only
  through calls of the three builtins, then after parsing any list of files, failing ones included,
  every rule is filed under its own first token, every network host is non-empty and free of
  wildcards and white space, and every host-executable allowlist holds, without repetition, only paths
  whose executable name is the key of the list.
\<close>

theorem parsed_policies_well_formed:
  assumes "\<forall>ident contents b. (builder_step env sv)\<^sup>*\<^sup>* b (fst (exec ident contents b))"
  shows "let b = foldl (\<lambda>b (ident, contents). fst (Parse env exec b ident contents)) newPolicyBuilder files in
    rules_ok b \<and> hosts_ok b \<and> allowlists_ok env b"
proof -
  have parse: "fst (Parse env exec b ident contents) = fst (exec ident contents b)" for b ident contents
    by (simp add: Parse_def Let_def split: option.splits prod.splits)
  have "(builder_step env sv)\<^sup>*\<^sup>* b0 (foldl (\<lambda>b (ident, contents). fst (Parse env exec b ident contents)) b0 files)" for b0
  proof (induction files arbitrary: b0)
    case Nil
    then show ?case by simp
  next
    case (Cons f files)
    obtain ident contents where f: "f = (ident, contents)" by fastforce
    have "(builder_step env sv)\<^sup>*\<^sup>* b0 (fst (exec ident contents b0))" using assms by blast
    with Cons [of "fst (exec ident contents b0)"] show ?case by (simp add: f parse)
  qed
  then show ?thesis unfolding Let_def
    by (rule builder_steps_preserve)
       (simp add: newPolicyBuilder_def rules_ok_def hosts_ok_def allowlists_ok_def)
qed

text \<open>
  An evaluator for examples: the file is a list of comma-separated tokens and stands for one call
  \<open>prefix_rule(pattern = tokens, decision = "forbidden", match = [first token])\<close>.
\<close>

definition example_args :: "string \<Rightarrow> string prefix_rule_args" where
  "example_args contents = \<lparr>pr_pattern = Some (split_on (CHR '','') contents), pr_decision = ''forbidden'',
     pr_match = None, pr_not_match = None, pr_justification = [], pr_kw = [''pattern'', ''decision'']\<rparr>"

definition example_exec ::
    "string \<Rightarrow> string \<Rightarrow> policyBuilder \<Rightarrow> policyBuilder \<times> (go_error \<times> ErrorLocation option) option" where
  "example_exec ident contents b =
     (case prefixRuleBuiltin string_values None (example_args contents) b of
        Inl e \<Rightarrow> (b, Some (WrappedFailure ident (PolicyFailure e), None))
      | Inr b' \<Rightarrow> (b', None))"

lemma parsed_policies_well_formed_witness:
  "let b = foldl (\<lambda>b (ident, contents). fst (Parse posix_env example_exec b ident contents)) newPolicyBuilder
             [(''a'', ''git,push''), (''b'', ''rm'')] in
    rules_ok b \<and> hosts_ok b \<and> allowlists_ok posix_env b"
proof (rule parsed_policies_well_formed [where sv = string_values])
  show "\<forall>ident contents b. (builder_step posix_env string_values)\<^sup>*\<^sup>* b (fst (example_exec ident contents b))"
    by (auto simp: example_exec_def split: sum.splits intro: builder_step.prefix_rule)
qed

text \<open>A file with the rule git push, a match example and a not-match example.\<close>

definition git_push_rule :: PrefixRule where
  "git_push_rule = \<lparr>rule_Pattern = \<lparr>pat_first = ''git'', pat_rest = [PatternTokenSingle ''push'']\<rparr>,
     rule_Decision = DecisionForbidden, rule_Justification = [], rule_HasJustification = False\<rparr>"

definition declare_rule ::
    "PrefixRule \<Rightarrow> string list list \<Rightarrow> string list list \<Rightarrow> policyBuilder \<Rightarrow> policyBuilder" where
  "declare_rule r matches notMatches b = addRule (addPendingExampleValidation b [r] matches notMatches None) r"


text \<open>
  A match example that only an earlier rule matches is an error, although the rules accumulated so
  far match it.
\<close>

definition two_rules :: policyBuilder where
  "two_rules = declare_rule (git_push_rule\<lparr>rule_Pattern := \<lparr>pat_first = ''ls'', pat_rest = []\<rparr>\<rparr>) [[''git'', ''push'']] []
     (declare_rule git_push_rule [] [] newPolicyBuilder)"

lemma example_of_other_rule_fails:
  "MatchesForCommand posix_env (build two_rules) [''git'', ''push''] None \<lparr>ResolveHostExecutables = True\<rparr> \<noteq> []"
  "validatePendingExamplesFrom posix_env two_rules 0 \<noteq> None"
proof -
  show "MatchesForCommand posix_env (build two_rules) [''git'', ''push''] None \<lparr>ResolveHostExecutables = True\<rparr> \<noteq> []"
    by code_simp
  let ?v = "\<lparr>pend_rules = [git_push_rule\<lparr>rule_Pattern := \<lparr>pat_first = ''ls'', pat_rest = []\<rparr>\<rparr>],
    pend_matches = [[''git'', ''push'']], pend_notMatches = [], pend_location = None\<rparr>"
  have "?v \<in> set (b_pending two_rules)"
    by (simp add: two_rules_def declare_rule_def addRule_def addPendingExampleValidation_def)
  moreover have "MatchesForCommand posix_env (scratch_policy two_rules ?v) [''git'', ''push''] None
      \<lparr>ResolveHostExecutables = True\<rparr> = []"
    by code_simp
  then have "validate_pending posix_env two_rules ?v \<noteq> None" using validate_pending_None_iff by fastforce
  ultimately show "validatePendingExamplesFrom posix_env two_rules 0 \<noteq> None"
    unfolding validatePendingExamplesFrom_def drop_0 validate_all_None_iff by metis
qed

section \<open>Decisions passed by position\<close>

text \<open>
  A decision that a policy file passes by position is ignored: the call
  \<open>prefix_rule([prog], "forbidden")\<close> registers a rule that allows every command of that program, because
  only the keyword names are consulted.
\<close>

theorem positional_decision_ignored:
  assumes "AsString sv v = Some prog"
  shows "\<exists>b'. prefixRuleBuiltin sv location
      \<lparr>pr_pattern = Some [v], pr_decision = ''forbidden'', pr_match = None, pr_not_match = None,
       pr_justification = [], pr_kw = []\<rparr> newPolicyBuilder = Inr b' \<and>
    eval_Decision (Check env (build b') (prog # arguments) f) = DecisionAllow"
proof -
  define r where "r = \<lparr>rule_Pattern = \<lparr>pat_first = prog, pat_rest = []\<rparr>, rule_Decision = DecisionAllow,
    rule_Justification = [], rule_HasJustification = False\<rparr>"
  define b' where "b' = addRule (addPendingExampleValidation newPolicyBuilder [r] [] [] location) r"
  have "matchExactRules (build b') (prog # arguments) = List.map_filter (\<lambda>r. rule_matches r (prog # arguments)) [r]"
    by (simp add: matchExactRules_def b'_def addRule_def addPendingExampleValidation_def newPolicyBuilder_def
        build_def rule_map_insert_def Program_def r_def)
  moreover obtain m where "rule_matches r (prog # arguments) = Some m" "match_decision m = DecisionAllow"
    by (auto simp: rule_matches_def matchesPrefix_def r_def)
  ultimately have "eval_Decision (Check env (build b') (prog # arguments) f) = DecisionAllow"
    by (simp add: Check_exact List.map_filter_simps evaluationFromMatches_def)
  moreover have "prefixRuleBuiltin sv location
      \<lparr>pr_pattern = Some [v], pr_decision = ''forbidden'', pr_match = None, pr_not_match = None,
       pr_justification = [], pr_kw = []\<rparr> newPolicyBuilder = Inr b'"
    using assms by (simp add: prefixRuleBuiltin_def hasKeyword_def parsePattern_def parsePatternToken_def
        listElements_def parseExamples_def b'_def r_def Let_def)
  ultimately show ?thesis by blast
qed

lemma positional_decision_ignored_witness:
  "\<exists>b'. prefixRuleBuiltin string_values None
      \<lparr>pr_pattern = Some [''rm''], pr_decision = ''forbidden'', pr_match = None, pr_not_match = None,
       pr_justification = [], pr_kw = []\<rparr> newPolicyBuilder = Inr b' \<and>
    eval_Decision (Check posix_env (build b') (''rm'' # [''-rf'', ''/'']) None) = DecisionAllow"
  by (rule positional_decision_ignored) (simp add: string_values_def)

section \<open>Host normalization\<close>

text \<open>
  Normalizing a network host is not idempotent: a trailing dot hides the port from the port check
  and is removed only afterwards, so \<open>Example.com:443.\<close> is stored with its port, while normalizing the stored
  host again would remove it.
\<close>

theorem trailing_dot_hides_port:
  "normalizeNetworkRuleHost posix_env ''Example.com:443.'' = Inr ''example.com:443'' \<and>
   normalizeNetworkRuleHost posix_env ''example.com:443'' = Inr ''example.com''"
  by (simp add: normalizeNetworkRuleHost_def host_part_def TrimSpace_plain plain_char_def is_space_def HasPrefix_def
      allASCIIDigits_def TrimRight_def ToLower_def rune_to_lower_def containsWhitespace_def
      runes_ascii_Cons isWhitespace_def apfst_def char_of_def bit_0)

end
