(* ===== verification/Agent_Path.thy ===== *)
theory Agent_Path
  imports Go_Text
begin

text \<open>
  Agent paths: the validated paths of \<open>src/internal/protocol/ids.go\<close> (AgentPath) and their resolution
  and prefix test in \<open>src/internal/multiagent/agentpath.go\<close>. An AgentPath is represented by its string.
\<close>

section \<open>Validation and construction (ids.go)\<close>

type_synonym AgentPath = string

definition AgentPathRoot :: AgentPath where
  "AgentPathRoot = ''/root''"

definition AgentPathMorpheus :: AgentPath where
  "AgentPathMorpheus = ''/morpheus''"

definition agentPathRootSeg :: string where
  "agentPathRootSeg = ''root''"

definition agent_name_rune :: "rune \<Rightarrow> bool" where
  "agent_name_rune ch \<longleftrightarrow> (0x61 \<le> ch \<and> ch \<le> 0x7A) \<or> (0x30 \<le> ch \<and> ch \<le> 0x39) \<or> ch = 0x5F"

text \<open>\<open>None\<close> is the nil error.\<close>

definition validateAgentName :: "string \<Rightarrow> string option" where
  "validateAgentName agentName =
     (if agentName = [] then Some ''agent_name must not be empty''
      else if agentName = agentPathRootSeg
      then Some (''agent_name '' @ [CHR 0x60] @ ''root'' @ [CHR 0x60] @ '' is reserved'')
      else if agentName = ''.'' \<or> agentName = ''..''
      then Some (''agent_name '' @ [CHR 0x60] @ agentName @ [CHR 0x60] @ '' is reserved'')
      else if Contains agentName ''/''
      then Some (''agent_name must not contain '' @ [CHR 0x60] @ ''/'' @ [CHR 0x60])
      else if \<not> list_all agent_name_rune (runes agentName)
      then Some ''agent_name must use only lowercase letters, digits, and underscores''
      else None)"

definition absolute_start_error :: string where
  "absolute_start_error = ''absolute agent paths must start with '' @ [CHR 0x60] @ ''/root'' @ [CHR 0x60]
     @ '' or be '' @ [CHR 0x60] @ ''/morpheus'' @ [CHR 0x60]"

fun validate_names :: "string list \<Rightarrow> string option" where
  "validate_names [] = None"
| "validate_names (seg # segs) = (case validateAgentName seg of Some err \<Rightarrow> Some err | None \<Rightarrow> validate_names segs)"

definition validateAbsoluteAgentPath :: "string \<Rightarrow> string option" where
  "validateAbsoluteAgentPath path =
     (if path = AgentPathMorpheus then None
      else
        (case CutPrefix path ''/'' of
           None \<Rightarrow> Some absolute_start_error
         | Some stripped \<Rightarrow>
             (case split_on (CHR ''/'') stripped of
                [] \<Rightarrow> Some absolute_start_error
              | seg # segs \<Rightarrow>
                  if seg \<noteq> agentPathRootSeg then Some absolute_start_error
                  else if HasSuffix stripped ''/''
                  then Some (''absolute agent path must not end with '' @ [CHR 0x60] @ ''/'' @ [CHR 0x60])
                  else validate_names segs)))"

definition NewAgentPath :: "string \<Rightarrow> (string, AgentPath) result" where
  "NewAgentPath path = (case validateAbsoluteAgentPath path of Some err \<Rightarrow> Inl err | None \<Rightarrow> Inr path)"

definition IsRoot :: "AgentPath \<Rightarrow> bool" where
  "IsRoot a \<longleftrightarrow> a = AgentPathRoot"

text \<open>The segment after the last slash; a path without slash, or ending in one, is named root.\<close>

definition Name :: "AgentPath \<Rightarrow> string" where
  "Name a =
     (if IsRoot a then agentPathRootSeg
      else if CHR ''/'' \<in> set a \<and> last (split_on (CHR ''/'') a) \<noteq> [] then last (split_on (CHR ''/'') a)
      else agentPathRootSeg)"

definition Join :: "AgentPath \<Rightarrow> string \<Rightarrow> (string, AgentPath) result" where
  "Join a agentName =
     (case validateAgentName agentName of
        Some err \<Rightarrow> Inl err
      | None \<Rightarrow> NewAgentPath (a @ ''/'' @ agentName))"

section \<open>Resolution (multiagent/agentpath.go)\<close>

definition unsupportedOperationf :: "string \<Rightarrow> string" where
  "unsupportedOperationf detail = ''multiagent: unsupported operation: '' @ detail"

definition validateRelativeReference :: "string \<Rightarrow> string option" where
  "validateRelativeReference reference =
     (if HasSuffix reference ''/''
      then Some (unsupportedOperationf (''relative agent path must not end with '' @ [CHR 0x60] @ ''/'' @ [CHR 0x60]))
      else None)"

fun join_segments :: "AgentPath \<Rightarrow> string list \<Rightarrow> (string, AgentPath) result" where
  "join_segments resolved [] = Inr resolved"
| "join_segments resolved (segment # segments) =
     (case Join resolved segment of
        Inl err \<Rightarrow> Inl (unsupportedOperationf err)
      | Inr next \<Rightarrow> join_segments next segments)"

definition resolveAgentPath :: "AgentPath \<Rightarrow> string \<Rightarrow> (string, AgentPath) result" where
  "resolveAgentPath base reference =
     (if reference = [] then Inl (unsupportedOperationf ''agent path must not be empty'')
      else if reference = AgentPathRoot then Inr AgentPathRoot
      else if HasPrefix reference ''/'' then
        (case NewAgentPath reference of Inl err \<Rightarrow> Inl (unsupportedOperationf err) | Inr path \<Rightarrow> Inr path)
      else
        (case validateRelativeReference reference of
           Some err \<Rightarrow> Inl err
         | None \<Rightarrow> join_segments base (split_on (CHR ''/'') reference)))"

definition agentMatchesPrefix :: "AgentPath option \<Rightarrow> AgentPath \<Rightarrow> bool" where
  "agentMatchesPrefix agentPath prefix =
     (if IsRoot prefix then True
      else
        (case agentPath of
           None \<Rightarrow> False
         | Some a \<Rightarrow>
             if a = prefix then True
             else (case CutPrefix a prefix of Some suffix \<Rightarrow> HasPrefix suffix ''/'' | None \<Rightarrow> False)))"

section \<open>Paths as lists of names\<close>

definition agent_name :: "string \<Rightarrow> bool" where
  "agent_name n \<longleftrightarrow> n \<noteq> [] \<and> n \<noteq> ''root'' \<and> list_all (\<lambda>c. agent_name_rune (byte c)) n"

definition root_path :: "string list \<Rightarrow> AgentPath" where
  "root_path names = ''/root'' @ concat (map (\<lambda>n. ''/'' @ n) names)"

lemma decode_rune_low:
  assumes "s \<noteq> []" "fst (decode_rune s) < 0x80"
  shows "byte (hd s) < 0x80"
proof -
  obtain c cs where s: "s = c # cs" using assms(1) by (cases s) auto
  show ?thesis
  proof (rule ccontr)
    assume "\<not> byte (hd s) < 0x80"
    then show False using assms(2) unfolding s
      by (auto simp: decode_rune.simps Let_def second_range_def cont_byte_def rune_error_def
          split: prod.splits list.splits if_splits)
  qed
qed

lemma list_all_runes_ascii:
  assumes "\<And>r. P r \<Longrightarrow> r < 0x80"
  shows "list_all P (runes s) \<longleftrightarrow> list_all (\<lambda>c. P (byte c)) s"
proof (induction "length s" arbitrary: s rule: less_induct)
  case less
  show ?case
  proof (cases s)
    case Nil
    then show ?thesis by simp
  next
    case (Cons c cs)
    show ?thesis
    proof (cases "byte c < 0x80")
      case True
      then show ?thesis using less [of cs] by (simp add: Cons runes_ascii_Cons)
    next
      case False
      then have "\<not> fst (decode_rune s) < 0x80" using decode_rune_low [of s] Cons by auto
      then have "\<not> P (fst (decode_rune s))" and "\<not> P (byte c)" using assms False by blast+
      then show ?thesis by (subst runes.simps) (simp add: Cons)
    qed
  qed
qed

lemma agent_name_rune_ascii: "agent_name_rune r \<Longrightarrow> r < 0x80"
  by (auto simp: agent_name_rune_def)

lemma agent_name_no_slash: "agent_name n \<Longrightarrow> CHR ''/'' \<notin> set n \<and> CHR ''.'' \<notin> set n"
  by (auto simp: agent_name_def list_all_iff agent_name_rune_def)

lemma validateAgentName_iff: "validateAgentName n = None \<longleftrightarrow> agent_name n"
  using agent_name_no_slash [of n]
  by (auto simp: validateAgentName_def agent_name_def agentPathRootSeg_def Contains_char
      list_all_runes_ascii [OF agent_name_rune_ascii])

lemma validate_names_iff: "validate_names segs = None \<longleftrightarrow> list_all agent_name segs"
  by (induction segs) (auto simp: validateAgentName_iff [symmetric] split: option.splits)

lemma root_path_join: "root_path names = CHR ''/'' # join ''/'' (''root'' # names)"
proof -
  have "join ''/'' (x # names) = x @ concat (map (\<lambda>n. ''/'' @ n) names)" for x
    by (induction names arbitrary: x) simp_all
  then show ?thesis by (simp add: root_path_def)
qed

lemma split_root_path:
  assumes "list_all agent_name names"
  shows "split_on (CHR ''/'') (tl (root_path names)) = ''root'' # names"
  unfolding root_path_join list.sel
  by (rule split_on_join) (use assms agent_name_no_slash in \<open>auto simp: list_all_iff\<close>)

lemma validateAbsoluteAgentPath_iff:
  "validateAbsoluteAgentPath p = None \<longleftrightarrow>
     p = AgentPathMorpheus \<or> (\<exists>names. list_all agent_name names \<and> p = root_path names)"
proof
  assume a: "validateAbsoluteAgentPath p = None"
  show "p = AgentPathMorpheus \<or> (\<exists>names. list_all agent_name names \<and> p = root_path names)"
  proof (cases "p = AgentPathMorpheus")
    case False
    with a obtain stripped segs where p: "CutPrefix p ''/'' = Some stripped"
      and s: "split_on (CHR ''/'') stripped = ''root'' # segs" "validate_names segs = None"
      by (auto simp: validateAbsoluteAgentPath_def agentPathRootSeg_def split: option.splits list.splits if_splits)
    from p have "p = CHR ''/'' # stripped" by (simp add: CutPrefix_Some_iff)
    also have "stripped = join ''/'' (''root'' # segs)" using join_split_on [of "CHR ''/''" stripped] s(1) by simp
    finally show ?thesis using s(2) by (auto simp: root_path_join validate_names_iff)
  qed simp
next
  assume "p = AgentPathMorpheus \<or> (\<exists>names. list_all agent_name names \<and> p = root_path names)"
  then show "validateAbsoluteAgentPath p = None"
  proof
    assume "\<exists>names. list_all agent_name names \<and> p = root_path names"
    then obtain names where n: "list_all agent_name names" "p = root_path names" by blast
    have cut: "CutPrefix p ''/'' = Some (tl p)" by (simp add: n root_path_def)
    have "\<not> HasSuffix (tl p) ''/''"
    proof
      assume "HasSuffix (tl p) ''/''"
      then obtain r where "tl p = r @ ''/''" by (auto simp: HasSuffix_iff)
      then have "''root'' # names = split_on (CHR ''/'') r @ [[]]"
        using split_root_path [OF n(1)] n(2) split_on_append [of "CHR ''/''" r "[]"] by simp
      then have "[] \<in> set (''root'' # names)" by simp
      then show False using n(1) by (auto simp: list_all_iff agent_name_def)
    qed
    moreover have "split_on (CHR ''/'') (tl p) = ''root'' # names" using n split_root_path by simp
    ultimately show ?thesis
      using n(1) by (simp add: validateAbsoluteAgentPath_def cut agentPathRootSeg_def validate_names_iff)
  qed (simp add: validateAbsoluteAgentPath_def)
qed

lemma NewAgentPath_root_path: "list_all agent_name names \<Longrightarrow> NewAgentPath (root_path names) = Inr (root_path names)"
  using validateAbsoluteAgentPath_iff [of "root_path names"] by (auto simp: NewAgentPath_def)

lemma Join_root_path:
  "list_all agent_name names \<Longrightarrow>
    Join (root_path names) n = Inr p \<longleftrightarrow> agent_name n \<and> p = root_path (names @ [n])"
  using NewAgentPath_root_path [of "names @ [n]"] validateAgentName_iff [of n]
  by (auto simp: Join_def root_path_def split: option.splits)

lemma Join_root_path_Inl:
  "list_all agent_name names \<Longrightarrow> (\<exists>e. Join (root_path names) n = Inl e) \<longleftrightarrow> \<not> agent_name n"
  using Join_root_path [of names n] by (cases "Join (root_path names) n") auto

lemma join_segments_root_path:
  "list_all agent_name names \<Longrightarrow>
    join_segments (root_path names) segs = Inr p \<longleftrightarrow> list_all agent_name segs \<and> p = root_path (names @ segs)"
proof (induction segs arbitrary: names)
  case Nil
  then show ?case by auto
next
  case (Cons n segs)
  show ?case
  proof (cases "agent_name n")
    case True
    then have "Join (root_path names) n = Inr (root_path (names @ [n]))" using Join_root_path Cons.prems by blast
    then show ?thesis using Cons.IH [of "names @ [n]"] Cons.prems True by simp
  next
    case False
    then obtain e where "Join (root_path names) n = Inl e" using Join_root_path_Inl [OF Cons.prems] by blast
    with False show ?thesis by simp
  qed
qed

lemma agent_prefix_iff:
  assumes "list_all agent_name as" "list_all agent_name ps"
  shows "agentMatchesPrefix (Some (root_path as)) (root_path ps) \<longleftrightarrow> (\<exists>ext. as = ps @ ext)"
proof
  assume "\<exists>ext. as = ps @ ext"
  then obtain ext where "as = ps @ ext" by blast
  then have "root_path as = root_path ps @ concat (map (\<lambda>n. ''/'' @ n) ext)" by (simp add: root_path_def)
  then show "agentMatchesPrefix (Some (root_path as)) (root_path ps)"
    by (cases ext) (auto simp: agentMatchesPrefix_def HasPrefix_def)
next
  assume m: "agentMatchesPrefix (Some (root_path as)) (root_path ps)"
  show "\<exists>ext. as = ps @ ext"
  proof (cases "IsRoot (root_path ps) \<or> root_path as = root_path ps")
    case True
    then show ?thesis
    proof
      assume "IsRoot (root_path ps)"
      then have "root_path ps = root_path []" by (simp add: IsRoot_def AgentPathRoot_def root_path_def)
      then have "''root'' # ps = [''root'']"
        using split_root_path [OF assms(2)] split_root_path [of "[]"] by simp
      then show ?thesis by simp
    next
      assume "root_path as = root_path ps"
      then have "''root'' # as = ''root'' # ps"
        using split_root_path [OF assms(1)] split_root_path [OF assms(2)] by (metis (no_types))
      then show ?thesis by simp
    qed
  next
    case False
    with m obtain t where t: "root_path as = root_path ps @ CHR ''/'' # t"
      by (auto simp: agentMatchesPrefix_def HasPrefix_iff CutPrefix_Some_iff split: option.splits)
    then have "tl (root_path as) = tl (root_path ps) @ CHR ''/'' # t" by (simp add: root_path_def)
    then have "''root'' # as = (''root'' # ps) @ split_on (CHR ''/'') t"
      using split_root_path [OF assms(1)] split_root_path [OF assms(2)] by (simp add: split_on_append)
    then show ?thesis by simp
  qed
qed

text \<open>
  Agent paths are trees of names. The accepted absolute paths are \<open>/morpheus\<close> and \<open>/root\<close> followed
  by valid names; resolving a relative reference against such a path succeeds exactly when all its
  segments are valid names and then appends them; and a path is under a prefix exactly when the
  prefix's names are an initial part of its names, so siblings with a common textual prefix are kept apart.
\<close>

theorem agent_paths_are_name_lists:
  assumes "list_all agent_name base" "list_all agent_name prefix"
    and "reference \<noteq> []" "\<not> HasPrefix reference ''/''" "\<not> HasSuffix reference ''/''"
  shows "(\<forall>p. NewAgentPath p = Inr p \<longleftrightarrow>
      p = AgentPathMorpheus \<or> (\<exists>names. list_all agent_name names \<and> p = root_path names)) \<and>
    (\<forall>p. resolveAgentPath (root_path base) reference = Inr p \<longleftrightarrow>
      list_all agent_name (split_on (CHR ''/'') reference) \<and>
      p = root_path (base @ split_on (CHR ''/'') reference)) \<and>
    (agentMatchesPrefix (Some (root_path base)) (root_path prefix) \<longleftrightarrow> (\<exists>ext. base = prefix @ ext))"
proof -
  have "NewAgentPath p = Inr p \<longleftrightarrow>
      p = AgentPathMorpheus \<or> (\<exists>names. list_all agent_name names \<and> p = root_path names)" for p
    using validateAbsoluteAgentPath_iff [of p] by (auto simp: NewAgentPath_def split: option.splits)
  moreover have "resolveAgentPath (root_path base) reference =
      join_segments (root_path base) (split_on (CHR ''/'') reference)"
    using assms(3-5)
    by (auto simp: resolveAgentPath_def validateRelativeReference_def AgentPathRoot_def HasPrefix_iff)
  ultimately show ?thesis
    using join_segments_root_path [OF assms(1)] agent_prefix_iff [OF assms(1,2)] by simp
qed

lemma agent_paths_are_name_lists_witness:
  "resolveAgentPath (root_path [''a'']) ''b/c'' = Inr (root_path [''a'', ''b'', ''c'']) \<and>
   \<not> agentMatchesPrefix (Some (root_path [''a''])) (root_path [''ab''])"
proof -
  have "list_all agent_name [''a'']" "list_all agent_name [''ab'']" "''b/c'' \<noteq> []"
    "\<not> HasPrefix ''b/c'' ''/''" "\<not> HasSuffix ''b/c'' ''/''"
    "list_all agent_name (split_on (CHR ''/'') ''b/c'')"
    by (simp_all add: agent_name_def agent_name_rune_def HasPrefix_def HasSuffix_def)
  with agent_paths_are_name_lists [of "[''a'']" "[''ab'']" "''b/c''"] show ?thesis by simp
qed

end
