(* ===== verification/Agent_Registry.thy ===== *)
theory Agent_Registry
  imports Agent_Path "HOL-Library.Word"
begin

text \<open>
  The registry of spawned agents: \<open>src/internal/multiagent\<close>, files registry.go and metadata.go. The
  registry bounds the number of sub-agents of a session, tracks their metadata by agent path and
  reserves nicknames. The methods of the registry hold the mutex for their whole body. Commit and
  Release of a reservation also change the handle: its flag has no lock of its own, and Release takes
  the mutex twice, for the path and for the counter. They are one step each here, which is right as long
  as a handle is used by one goroutine, as the callers do; between the two sections of a Release the counter
  is only larger. So concurrent use is an interleaving of the operations below: \<open>registry_step\<close> is that
  interleaving, over the registry and the reservation handles, with a limit given to each reservation
  (a nil limit, which asks for no bound, is an operation here but no step). Where the Go code ranges over the map until it finds an entry, the operation
  takes the iteration order as an argument.
\<close>

section \<open>Metadata (metadata.go)\<close>

type_synonym ThreadID = string

record AgentMetadata =
  AgentID :: "ThreadID option"
  AgentPath_of :: "AgentPath option"
  AgentNickname :: "string option"
  AgentRole :: "string option"
  LastTaskMessage :: "string option"

definition pathString :: "AgentMetadata \<Rightarrow> string" where
  "pathString m = (case AgentPath_of m of None \<Rightarrow> [] | Some p \<Rightarrow> p)"

text \<open>The depth of a child; \<open>int32\<close>, saturating at its maximum.\<close>

definition next_spawn_depth :: "32 word \<Rightarrow> 32 word" where
  "next_spawn_depth depth = (if depth = 0x7FFFFFFF then depth else depth + 1)"

definition ExceedsThreadSpawnDepthLimit :: "32 word \<Rightarrow> 32 word \<Rightarrow> bool" where
  "ExceedsThreadSpawnDepthLimit depth maxDepth \<longleftrightarrow> sint depth > sint maxDepth"

section \<open>The registry (registry.go)\<close>

record Registry =
  agentTree :: "string \<rightharpoonup> AgentMetadata"
  usedNicknames :: "string set"
  nicknameResetCount :: int
  totalCount :: "64 word"

record SpawnReservation =
  res_active :: bool
  reservedNickname :: "string option"
  reservedPath :: "AgentPath option"

definition NewRegistry :: Registry where
  "NewRegistry = \<lparr>agentTree = Map.empty, usedNicknames = {}, nicknameResetCount = 0, totalCount = 0\<rparr>"

definition isRootPath :: "AgentPath option \<Rightarrow> bool" where
  "isRootPath path = (case path of None \<Rightarrow> False | Some p \<Rightarrow> IsRoot p)"

definition tryIncrementSpawned :: "Registry \<Rightarrow> 64 word \<Rightarrow> Registry option" where
  "tryIncrementSpawned r maxThreads =
     (if totalCount r \<ge> maxThreads then None else Some (r\<lparr>totalCount := totalCount r + 1\<rparr>))"

datatype registry_error = AgentLimitError "64 word" | UnsupportedOperation string

definition ReserveSpawnSlot :: "Registry \<Rightarrow> 64 word option \<Rightarrow> (registry_error, Registry \<times> SpawnReservation) result" where
  "ReserveSpawnSlot r maxThreads =
     (let reservation = \<lparr>res_active = True, reservedNickname = None, reservedPath = None\<rparr> in
      case maxThreads of
        Some limit \<Rightarrow>
          (case tryIncrementSpawned r limit of
             None \<Rightarrow> Inl (AgentLimitError limit)
           | Some r' \<Rightarrow> Inr (r', reservation))
      | None \<Rightarrow> Inr (r\<lparr>totalCount := totalCount r + 1\<rparr>, reservation))"

definition find_thread :: "string list \<Rightarrow> Registry \<Rightarrow> ThreadID \<Rightarrow> string option" where
  "find_thread order r threadID =
     find (\<lambda>key. case agentTree r key of Some m \<Rightarrow> AgentID m = Some threadID | None \<Rightarrow> False) order"

definition decrement_count :: "Registry \<Rightarrow> Registry" where
  "decrement_count r = (if totalCount r > 0 then r\<lparr>totalCount := totalCount r - 1\<rparr> else r)"

definition ReleaseSpawnedThread :: "string list \<Rightarrow> Registry \<Rightarrow> ThreadID \<Rightarrow> Registry" where
  "ReleaseSpawnedThread order r threadID =
     (case find_thread order r threadID of
        None \<Rightarrow> r
      | Some removedKey \<Rightarrow>
          (case agentTree r removedKey of
             None \<Rightarrow> r
           | Some metadata \<Rightarrow>
               (let r' = r\<lparr>agentTree := (agentTree r)(removedKey := None)\<rparr> in
                if \<not> isRootPath (AgentPath_of metadata) then decrement_count r' else r')))"

definition RegisterRootThread :: "Registry \<Rightarrow> ThreadID \<Rightarrow> Registry" where
  "RegisterRootThread r threadID =
     (if agentTree r AgentPathRoot \<noteq> None then r
      else r\<lparr>agentTree := (agentTree r)(AgentPathRoot \<mapsto>
        \<lparr>AgentID = Some threadID, AgentPath_of = Some AgentPathRoot, AgentNickname = None, AgentRole = None,
         LastTaskMessage = None\<rparr>)\<rparr>)"

definition AgentIDForPath :: "Registry \<Rightarrow> AgentPath \<Rightarrow> ThreadID option" where
  "AgentIDForPath r path = (case agentTree r path of None \<Rightarrow> None | Some m \<Rightarrow> AgentID m)"

definition AgentMetadataForThread :: "string list \<Rightarrow> Registry \<Rightarrow> ThreadID \<Rightarrow> AgentMetadata option" where
  "AgentMetadataForThread order r threadID =
     (case find_thread order r threadID of None \<Rightarrow> None | Some key \<Rightarrow> agentTree r key)"

definition LiveAgents :: "string list \<Rightarrow> Registry \<Rightarrow> AgentMetadata list" where
  "LiveAgents order r =
     filter (\<lambda>m. AgentID m \<noteq> None \<and> \<not> isRootPath (AgentPath_of m)) (List.map_filter (agentTree r) order)"

definition UpdateLastTaskMessage :: "string list \<Rightarrow> Registry \<Rightarrow> ThreadID \<Rightarrow> string \<Rightarrow> Registry" where
  "UpdateLastTaskMessage order r threadID message =
     (case find_thread order r threadID of
        None \<Rightarrow> r
      | Some key \<Rightarrow>
          (case agentTree r key of
             None \<Rightarrow> r
           | Some m \<Rightarrow> r\<lparr>agentTree := (agentTree r)(key \<mapsto> m\<lparr>LastTaskMessage := Some message\<rparr>)\<rparr>))"

definition registerSpawnedThread :: "Registry \<Rightarrow> AgentMetadata \<Rightarrow> Registry" where
  "registerSpawnedThread r metadata =
     (case AgentID metadata of
        None \<Rightarrow> r
      | Some tid \<Rightarrow>
          (let key = (if pathString metadata = [] then ''thread:'' @ tid else pathString metadata);
               used = (case AgentNickname metadata of
                         None \<Rightarrow> usedNicknames r | Some n \<Rightarrow> insert n (usedNicknames r)) in
           r\<lparr>usedNicknames := used, agentTree := (agentTree r)(key \<mapsto> metadata)\<rparr>))"

definition ordinalSuffix :: "int \<Rightarrow> string" where
  "ordinalSuffix v =
     (if v mod 100 = 11 \<or> v mod 100 = 12 \<or> v mod 100 = 13 then ''th''
      else if v mod 10 = 1 then ''st''
      else if v mod 10 = 2 then ''nd''
      else if v mod 10 = 3 then ''rd''
      else ''th'')"

definition formatAgentNickname :: "string \<Rightarrow> int \<Rightarrow> string" where
  "formatAgentNickname name resetCount =
     (if resetCount = 0 then name
      else name @ '' the '' @ itoa (resetCount + 1) @ ordinalSuffix (resetCount + 1))"

text \<open>The result is the empty string when no nickname could be chosen; \<open>picker\<close> is the random choice.\<close>

definition reserveAgentNickname ::
    "(string list \<Rightarrow> string) \<Rightarrow> Registry \<Rightarrow> string list \<Rightarrow> string \<Rightarrow> Registry \<times> string" where
  "reserveAgentNickname picker r names preferred =
     (let take_name = (\<lambda>r nickname. (r\<lparr>usedNicknames := insert nickname (usedNicknames r)\<rparr>, nickname)) in
      if preferred \<noteq> [] then take_name r preferred
      else if names = [] then (r, [])
      else
        let available = filter (\<lambda>candidate. candidate \<notin> usedNicknames r)
              (map (\<lambda>name. formatAgentNickname name (nicknameResetCount r)) names) in
        if available \<noteq> [] then take_name r (picker available)
        else
          let r' = r\<lparr>usedNicknames := {}, nicknameResetCount := nicknameResetCount r + 1\<rparr>;
              base = picker names in
          if base = [] then (r', []) else take_name r' (formatAgentNickname base (nicknameResetCount r')))"

definition reserveAgentPath :: "Registry \<Rightarrow> AgentPath \<Rightarrow> (registry_error, Registry) result" where
  "reserveAgentPath r path =
     (if agentTree r path \<noteq> None
      then Inl (UnsupportedOperation (''agent path '' @ [CHR 0x60] @ path @ [CHR 0x60] @ '' already exists''))
      else Inr (r\<lparr>agentTree := (agentTree r)(path \<mapsto>
        \<lparr>AgentID = None, AgentPath_of = Some path, AgentNickname = None, AgentRole = None,
         LastTaskMessage = None\<rparr>)\<rparr>))"

definition releaseReservedAgentPath :: "Registry \<Rightarrow> AgentPath \<Rightarrow> Registry" where
  "releaseReservedAgentPath r path =
     (case agentTree r path of
        Some m \<Rightarrow> if AgentID m = None then r\<lparr>agentTree := (agentTree r)(path := None)\<rparr> else r
      | None \<Rightarrow> r)"

section \<open>Reservations (registry.go)\<close>

definition ReserveAgentNicknameWithPreference ::
    "(string list \<Rightarrow> string) \<Rightarrow> Registry \<Rightarrow> SpawnReservation \<Rightarrow> string list \<Rightarrow> string
     \<Rightarrow> Registry \<times> SpawnReservation \<times> (registry_error, string) result" where
  "ReserveAgentNicknameWithPreference picker r s names preferred =
     (case reserveAgentNickname picker r names preferred of
        (r', nickname) \<Rightarrow>
          if nickname = [] then (r', s, Inl (UnsupportedOperation ''no available agent nicknames''))
          else (r', s\<lparr>reservedNickname := Some nickname\<rparr>, Inr nickname))"

definition ReserveAgentPath ::
    "Registry \<Rightarrow> SpawnReservation \<Rightarrow> AgentPath \<Rightarrow> (registry_error, Registry \<times> SpawnReservation) result" where
  "ReserveAgentPath r s path =
     bind_res (reserveAgentPath r path) (\<lambda>r'. Inr (r', s\<lparr>reservedPath := Some path\<rparr>))"

definition Commit :: "Registry \<Rightarrow> SpawnReservation \<Rightarrow> AgentMetadata \<Rightarrow> Registry \<times> SpawnReservation" where
  "Commit r s metadata =
     (if \<not> res_active s then (r, s)
      else (registerSpawnedThread r metadata, \<lparr>res_active = False, reservedNickname = None, reservedPath = None\<rparr>))"

definition Release :: "Registry \<Rightarrow> SpawnReservation \<Rightarrow> Registry \<times> SpawnReservation" where
  "Release r s =
     (if \<not> res_active s then (r, s)
      else
        let s' = s\<lparr>res_active := False\<rparr>;
            (r', s'') = (case reservedPath s of
                           Some p \<Rightarrow> (releaseReservedAgentPath r p, s'\<lparr>reservedPath := None\<rparr>)
                         | None \<Rightarrow> (r, s')) in
        (decrement_count r', s''))"

section \<open>Interleavings\<close>

text \<open>
  The registry with the reservation handles that were given out. A step is one operation of one
  goroutine, on any handle; slots are reserved under a limit of at most \<open>bound\<close>.
\<close>

type_synonym world = "Registry \<times> (nat \<rightharpoonup> SpawnReservation)"

inductive registry_step :: "64 word \<Rightarrow> world \<Rightarrow> world \<Rightarrow> bool" for bound :: "64 word" where
  reserve: "ReserveSpawnSlot r (Some limit) = Inr (r', s) \<Longrightarrow> limit \<le> bound \<Longrightarrow> rs i = None \<Longrightarrow>
    registry_step bound (r, rs) (r', rs(i \<mapsto> s))"
| nickname: "rs i = Some s \<Longrightarrow> ReserveAgentNicknameWithPreference picker r s names preferred = (r', s', res) \<Longrightarrow>
    registry_step bound (r, rs) (r', rs(i \<mapsto> s'))"
| path: "rs i = Some s \<Longrightarrow> ReserveAgentPath r s p = Inr (r', s') \<Longrightarrow>
    registry_step bound (r, rs) (r', rs(i \<mapsto> s'))"
| commit: "rs i = Some s \<Longrightarrow> Commit r s m = (r', s') \<Longrightarrow> registry_step bound (r, rs) (r', rs(i \<mapsto> s'))"
| release: "rs i = Some s \<Longrightarrow> Release r s = (r', s') \<Longrightarrow> registry_step bound (r, rs) (r', rs(i \<mapsto> s'))"
| release_thread: "registry_step bound (r, rs) (ReleaseSpawnedThread order r tid, rs)"
| root_thread: "registry_step bound (r, rs) (RegisterRootThread r tid, rs)"
| task_message: "registry_step bound (r, rs) (UpdateLastTaskMessage order r tid msg, rs)"

section \<open>The bound on agents\<close>

definition counted :: "AgentMetadata \<Rightarrow> bool" where
  "counted m \<longleftrightarrow> AgentID m \<noteq> None \<and> \<not> isRootPath (AgentPath_of m)"

definition live_keys :: "(string \<rightharpoonup> AgentMetadata) \<Rightarrow> string set" where
  "live_keys t = {k. \<exists>m. t k = Some m \<and> counted m}"

definition active_handles :: "(nat \<rightharpoonup> SpawnReservation) \<Rightarrow> nat set" where
  "active_handles rs = {i. \<exists>s. rs i = Some s \<and> res_active s}"

text \<open>Every counted agent and every open reservation holds a slot, and the slots stay within the bound.\<close>

definition slots_ok :: "64 word \<Rightarrow> world \<Rightarrow> bool" where
  "slots_ok bound w \<longleftrightarrow> finite (live_keys (agentTree (fst w))) \<and> finite (active_handles (snd w)) \<and>
     card (live_keys (agentTree (fst w))) + card (active_handles (snd w)) \<le> unat (totalCount (fst w)) \<and>
     totalCount (fst w) \<le> bound"

lemma live_keys_upd:
  "live_keys (t(k := v)) = (if \<exists>m. v = Some m \<and> counted m then insert k (live_keys t) else live_keys t - {k})"
  by (auto simp: live_keys_def)

lemma active_handles_upd:
  "active_handles (rs(i \<mapsto> s)) = (if res_active s then insert i (active_handles rs) else active_handles rs - {i})"
  by (auto simp: active_handles_def)

lemma active_handles_same:
  "rs i = Some s \<Longrightarrow> res_active s' = res_active s \<Longrightarrow> active_handles (rs(i \<mapsto> s')) = active_handles rs"
  by (auto simp: active_handles_def)

lemma decrement_count_sel [simp]: "agentTree (decrement_count r) = agentTree r"
  by (simp add: decrement_count_def)

lemma unat_decrement: "0 < unat (totalCount r) \<Longrightarrow> unat (totalCount (decrement_count r)) = unat (totalCount r) - 1"
  by (simp add: decrement_count_def word_less_nat_alt unat_minus_one unat_gt_0)

lemma decrement_le: "totalCount r \<le> bound \<Longrightarrow> totalCount (decrement_count r) \<le> bound"
  by (auto simp: decrement_count_def word_le_nat_alt word_less_nat_alt unat_minus_one unat_gt_0)

lemma unat_increment:
  fixes n :: "64 word"
  assumes "n < limit"
  shows "unat (n + 1) = Suc (unat n) \<and> n + 1 \<le> limit"
proof -
  have "n + 1 \<noteq> 0"
  proof
    assume "n + 1 = 0"
    then have "n = - 1" by (simp add: eq_neg_iff_add_eq_0)
    with assms show False using word_n1_ge [of limit] by simp
  qed
  then have "unat (n + 1) = Suc (unat n)" using unatSuc [of n] by (simp add: add.commute)
  moreover from this assms have "n + 1 \<le> limit" by (simp add: word_le_nat_alt word_less_nat_alt)
  ultimately show ?thesis by simp
qed

lemma slots_ok_reserve:
  assumes "slots_ok bound (r, rs)" "ReserveSpawnSlot r (Some limit) = Inr (r', s)" "limit \<le> bound" "rs i = None"
  shows "slots_ok bound (r', rs(i \<mapsto> s))"
proof -
  have s: "totalCount r < limit" "r' = r\<lparr>totalCount := totalCount r + 1\<rparr>" "res_active s"
    using assms(2) by (auto simp: ReserveSpawnSlot_def tryIncrementSpawned_def Let_def split: option.splits if_splits)
  have new: "i \<notin> active_handles rs" using assms(4) by (simp add: active_handles_def)
  have "live_keys (agentTree r') = live_keys (agentTree r)" by (simp add: s)
  moreover have "totalCount r' \<le> bound" "unat (totalCount r') = Suc (unat (totalCount r))"
    using unat_increment [OF s(1)] assms(3) order_trans by (auto simp: s)
  ultimately show ?thesis
    using assms(1) new s(3) by (simp add: slots_ok_def active_handles_upd)
qed

lemma slots_ok_same_active:
  assumes "slots_ok bound (r, rs)" "rs i = Some s" "res_active s' = res_active s"
    and "live_keys (agentTree r') = live_keys (agentTree r)" "totalCount r' = totalCount r"
  shows "slots_ok bound (r', rs(i \<mapsto> s'))"
  using assms by (simp add: slots_ok_def active_handles_same)

lemma slots_ok_nickname:
  assumes "slots_ok bound (r, rs)" "rs i = Some s"
    "ReserveAgentNicknameWithPreference picker r s names preferred = (r', s', res)"
  shows "slots_ok bound (r', rs(i \<mapsto> s'))"
proof -
  obtain n where n: "reserveAgentNickname picker r names preferred = (r', n)"
    using assms(3) by (auto simp: ReserveAgentNicknameWithPreference_def split: prod.splits if_splits)
  have "agentTree (fst (reserveAgentNickname picker r names preferred)) = agentTree r \<and>
      totalCount (fst (reserveAgentNickname picker r names preferred)) = totalCount r"
    by (simp add: reserveAgentNickname_def Let_def)
  moreover have "res_active s' = res_active s"
    using assms(3) n by (auto simp: ReserveAgentNicknameWithPreference_def split: if_splits)
  ultimately have "agentTree r' = agentTree r \<and> totalCount r' = totalCount r \<and> res_active s' = res_active s"
    by (simp add: n)
  then show ?thesis using assms(1,2) by (intro slots_ok_same_active) auto
qed

lemma slots_ok_path:
  assumes "slots_ok bound (r, rs)" "rs i = Some s" "ReserveAgentPath r s p = Inr (r', s')"
  shows "slots_ok bound (r', rs(i \<mapsto> s'))"
proof -
  have "agentTree r p = None" "r' = r\<lparr>agentTree := (agentTree r)(p \<mapsto> \<lparr>AgentID = None, AgentPath_of = Some p,
      AgentNickname = None, AgentRole = None, LastTaskMessage = None\<rparr>)\<rparr>" "res_active s' = res_active s"
    using assms(3) by (auto simp: ReserveAgentPath_def reserveAgentPath_def bind_res_Inr_iff split: if_splits)
  moreover from this have "live_keys (agentTree r') = live_keys (agentTree r)" by (auto simp: live_keys_def counted_def)
  ultimately show ?thesis using assms(1,2) by (intro slots_ok_same_active) auto
qed

lemma slots_ok_commit:
  assumes "slots_ok bound (r, rs)" "rs i = Some s" "Commit r s m = (r', s')"
  shows "slots_ok bound (r', rs(i \<mapsto> s'))"
proof (cases "res_active s")
  case False
  then show ?thesis using assms by (auto simp: Commit_def intro: slots_ok_same_active)
next
  case True
  have r': "r' = registerSpawnedThread r m" and s': "\<not> res_active s'"
    using assms(3) True by (auto simp: Commit_def)
  obtain k where k: "live_keys (agentTree r') \<subseteq> insert k (live_keys (agentTree r))" and t: "totalCount r' = totalCount r"
  proof (cases "AgentID m")
    case None
    then show ?thesis using that [of "[]"] by (auto simp: r' registerSpawnedThread_def)
  next
    case (Some tid)
    let ?k = "if pathString m = [] then ''thread:'' @ tid else pathString m"
    have "agentTree r' = (agentTree r)(?k \<mapsto> m)" "totalCount r' = totalCount r"
      using Some by (simp_all add: r' registerSpawnedThread_def Let_def)
    then show ?thesis using that [of ?k] by (simp add: live_keys_upd subset_insertI2)
  qed
  have fin: "finite (live_keys (agentTree r))" "finite (active_handles rs)" using assms(1) by (auto simp: slots_ok_def)
  have "card (live_keys (agentTree r')) \<le> Suc (card (live_keys (agentTree r)))"
    using card_mono [OF _ k] fin(1) by (auto simp: card_insert_if split: if_splits)
  moreover have "i \<in> active_handles rs" using assms(2) True by (auto simp: active_handles_def)
  then have "Suc (card (active_handles rs - {i})) = card (active_handles rs)"
    using fin(2) by (simp only: card_Suc_Diff1)
  ultimately show ?thesis
    using assms(1) fin k t s' finite_subset [OF k]
    by (simp add: slots_ok_def active_handles_upd)
qed

lemma slots_ok_release:
  assumes "slots_ok bound (r, rs)" "rs i = Some s" "Release r s = (r', s')"
  shows "slots_ok bound (r', rs(i \<mapsto> s'))"
proof (cases "res_active s")
  case False
  then show ?thesis using assms by (auto simp: Release_def intro: slots_ok_same_active)
next
  case True
  obtain r1 where r1: "r' = decrement_count r1" "live_keys (agentTree r1) = live_keys (agentTree r)"
      "totalCount r1 = totalCount r" and s': "\<not> res_active s'"
  proof (cases "reservedPath s")
    case None
    then show ?thesis using that [of r] assms(3) True by (auto simp: Release_def)
  next
    case (Some p)
    have "live_keys (agentTree (releaseReservedAgentPath r p)) = live_keys (agentTree r) \<and>
        totalCount (releaseReservedAgentPath r p) = totalCount r"
      by (auto simp: releaseReservedAgentPath_def live_keys_upd live_keys_def counted_def split: option.splits)
    then show ?thesis using that [of "releaseReservedAgentPath r p"] Some assms(3) True by (auto simp: Release_def)
  qed
  have fin: "finite (active_handles rs)" using assms(1) by (simp add: slots_ok_def)
  have i: "i \<in> active_handles rs" using assms(2) True by (auto simp: active_handles_def)
  then have "Suc (card (active_handles rs - {i})) = card (active_handles rs)"
    using fin by (simp only: card_Suc_Diff1)
  then show ?thesis
    using assms(1) s' r1 unat_decrement [of r1] decrement_le [of r1 bound]
    by (auto simp: slots_ok_def active_handles_upd)
qed

lemma find_thread_Some:
  assumes "find_thread order r tid = Some k"
  shows "\<exists>m. agentTree r k = Some m \<and> AgentID m = Some tid"
  using assms find_SomeD by (fastforce simp: find_thread_def split: option.splits)

lemma slots_ok_release_thread:
  assumes "slots_ok bound (r, rs)"
  shows "slots_ok bound (ReleaseSpawnedThread order r tid, rs)"
proof (cases "find_thread order r tid")
  case None
  then show ?thesis using assms by (simp add: ReleaseSpawnedThread_def)
next
  case (Some k)
  then obtain m where m: "agentTree r k = Some m" "AgentID m = Some tid" using find_thread_Some by blast
  define r1 where "r1 = r\<lparr>agentTree := (agentTree r)(k := None)\<rparr>"
  have live: "live_keys (agentTree r1) = live_keys (agentTree r) - {k}" by (simp add: r1_def live_keys_upd)
  show ?thesis
  proof (cases "isRootPath (AgentPath_of m)")
    case True
    then have "k \<notin> live_keys (agentTree r)" using m by (auto simp: live_keys_def counted_def)
    then show ?thesis using assms Some m True live
      by (simp add: ReleaseSpawnedThread_def slots_ok_def Let_def live_keys_upd)
  next
    case False
    then have k: "k \<in> live_keys (agentTree r)" using m by (auto simp: live_keys_def counted_def)
    have fin: "finite (live_keys (agentTree r))" using assms by (simp add: slots_ok_def)
    then have "Suc (card (live_keys (agentTree r) - {k})) = card (live_keys (agentTree r))"
      using k by (simp only: card_Suc_Diff1)
    moreover have "ReleaseSpawnedThread order r tid = decrement_count r1"
      using Some m False by (simp add: ReleaseSpawnedThread_def r1_def)
    moreover have "totalCount r1 = totalCount r" by (simp add: r1_def)
    moreover have "0 < unat (totalCount r)" "totalCount r \<le> bound"
      using assms calculation(1) by (auto simp: slots_ok_def)
    ultimately show ?thesis
      using assms fin live unat_decrement [of r1] decrement_le [of r1 bound] by (simp add: slots_ok_def) linarith
  qed
qed

lemma slots_ok_root_thread:
  "slots_ok bound (r, rs) \<Longrightarrow> slots_ok bound (RegisterRootThread r tid, rs)"
proof (cases "agentTree r AgentPathRoot")
  case None
  then have "AgentPathRoot \<notin> live_keys (agentTree r)" by (simp add: live_keys_def)
  then show "slots_ok bound (r, rs) \<Longrightarrow> ?thesis"
    using None by (simp add: RegisterRootThread_def slots_ok_def live_keys_upd counted_def isRootPath_def IsRoot_def)
qed (simp add: RegisterRootThread_def)

lemma slots_ok_task_message:
  assumes "slots_ok bound (r, rs)"
  shows "slots_ok bound (UpdateLastTaskMessage order r tid msg, rs)"
proof (cases "find_thread order r tid")
  case None
  then show ?thesis using assms by (simp add: UpdateLastTaskMessage_def)
next
  case (Some k)
  then obtain m where m: "agentTree r k = Some m" using find_thread_Some by blast
  have "live_keys ((agentTree r)(k \<mapsto> m\<lparr>LastTaskMessage := Some msg\<rparr>)) = live_keys (agentTree r)"
    using m by (auto simp: live_keys_def counted_def)
  then show ?thesis using assms Some m by (simp add: UpdateLastTaskMessage_def slots_ok_def)
qed

lemmas slots_ok_steps =
  slots_ok_reserve slots_ok_nickname slots_ok_path slots_ok_commit slots_ok_release slots_ok_release_thread
  slots_ok_root_thread slots_ok_task_message

lemma registry_step_slots_ok: "registry_step bound w w' \<Longrightarrow> slots_ok bound w \<Longrightarrow> slots_ok bound w'"
  by (induction rule: registry_step.induct) (blast intro: slots_ok_steps)+

lemma registry_steps_slots_ok: "(registry_step bound)\<^sup>*\<^sup>* w w' \<Longrightarrow> slots_ok bound w \<Longrightarrow> slots_ok bound w'"
  by (induction rule: rtranclp_induct) (blast intro: registry_step_slots_ok)+

text \<open>
  C31. The sub-agent limit holds under every interleaving: starting from an empty registry, after any
  sequence of operations on any number of reservation handles, with slots reserved under limits of at
  most \<open>bound\<close>, the live sub-agents together with the open reservations number at most the slot
  counter, which is at most \<open>bound\<close>; once the counter has reached a limit, reserving under that limit is refused.
\<close>

theorem spawn_limit_respected:
  assumes "(registry_step bound)\<^sup>*\<^sup>* (NewRegistry, Map.empty) (r, rs)"
  shows "card {k. \<exists>m. agentTree r k = Some m \<and> AgentID m \<noteq> None \<and> \<not> isRootPath (AgentPath_of m)}
      + card {i. \<exists>s. rs i = Some s \<and> res_active s} \<le> unat (totalCount r) \<and>
    totalCount r \<le> bound \<and>
    ReserveSpawnSlot r (Some (totalCount r)) = Inl (AgentLimitError (totalCount r))"
proof -
  have "slots_ok bound (NewRegistry, Map.empty)"
    by (simp add: slots_ok_def NewRegistry_def live_keys_def active_handles_def)
  then have "slots_ok bound (r, rs)" using registry_steps_slots_ok [OF assms] by blast
  then show ?thesis
    by (simp add: slots_ok_def live_keys_def counted_def active_handles_def ReserveSpawnSlot_def
        tryIncrementSpawned_def)
qed

lemma spawn_limit_respected_witness:
  "\<exists>r rs. (registry_step 1)\<^sup>*\<^sup>* (NewRegistry, Map.empty) (r, rs) \<and> totalCount r = 1 \<and>
     ReserveSpawnSlot r (Some 1) = Inl (AgentLimitError 1)"
proof -
  let ?r = "NewRegistry\<lparr>totalCount := 1\<rparr>"
  let ?s = "\<lparr>res_active = True, reservedNickname = None, reservedPath = None\<rparr>"
  have "ReserveSpawnSlot NewRegistry (Some 1) = Inr (?r, ?s)"
    by (simp add: ReserveSpawnSlot_def tryIncrementSpawned_def NewRegistry_def)
  then have "registry_step 1 (NewRegistry, Map.empty) (?r, [0 \<mapsto> ?s])"
    by (rule registry_step.reserve) simp_all
  then have run: "(registry_step 1)\<^sup>*\<^sup>* (NewRegistry, Map.empty) (?r, [0 \<mapsto> ?s])" by blast
  from spawn_limit_respected [OF run] run show ?thesis by (intro exI [of _ ?r] exI) auto
qed

section \<open>Nicknames\<close>

lemma usedNicknames_Release [simp]: "usedNicknames (fst (Release r s)) = usedNicknames r"
  by (simp add: Release_def releaseReservedAgentPath_def decrement_count_def Let_def split: option.splits)

text \<open>
  Nicknames are not handed out twice: without a preferred name, and with a picker that picks from
  the list it is given, a reserved nickname was not in use before unless the whole pool was in use, in
  which case the pool is reset and the nickname carries the next ordinal; in both cases it is in use
  afterwards. Releasing the reservation does not give the nickname back.
\<close>

theorem nickname_reservation:
  assumes "\<forall>xs. xs \<noteq> [] \<longrightarrow> picker xs \<in> set xs"
    and "ReserveAgentNicknameWithPreference picker r s names [] = (r', s', Inr n)"
  shows "n \<in> usedNicknames r' \<and> n \<in> usedNicknames (fst (Release r' s')) \<and>
    (n \<notin> usedNicknames r \<and> nicknameResetCount r' = nicknameResetCount r \<or>
     (\<forall>name \<in> set names. formatAgentNickname name (nicknameResetCount r) \<in> usedNicknames r) \<and>
     usedNicknames r' = {n} \<and> nicknameResetCount r' = nicknameResetCount r + 1 \<and>
     (\<exists>name \<in> set names. n = formatAgentNickname name (nicknameResetCount r + 1)))"
proof -
  let ?avail = "filter (\<lambda>c. c \<notin> usedNicknames r) (map (\<lambda>name. formatAgentNickname name (nicknameResetCount r)) names)"
  have res: "reserveAgentNickname picker r names [] = (r', n)" and names: "names \<noteq> []"
    using assms(2)
    by (auto simp: ReserveAgentNicknameWithPreference_def reserveAgentNickname_def Let_def split: if_splits prod.splits)
  show ?thesis
  proof (cases "?avail = []")
    case False
    then have "picker ?avail \<in> set ?avail" using assms(1) by blast
    moreover have "n = picker ?avail" "r' = r\<lparr>usedNicknames := insert n (usedNicknames r)\<rparr>"
      using res False names by (auto simp: reserveAgentNickname_def Let_def)
    ultimately show ?thesis by auto
  next
    case True
    then have used: "\<forall>name \<in> set names. formatAgentNickname name (nicknameResetCount r) \<in> usedNicknames r"
      by (auto simp: filter_empty_conv)
    have base: "picker names \<in> set names" using assms(1) names by blast
    have "n \<noteq> []" using assms(2)
      by (auto simp: ReserveAgentNicknameWithPreference_def split: if_splits prod.splits)
    then have "n = formatAgentNickname (picker names) (nicknameResetCount r + 1)"
        "r' = r\<lparr>usedNicknames := {n}, nicknameResetCount := nicknameResetCount r + 1\<rparr>"
      using res True names by (auto simp: reserveAgentNickname_def Let_def split: if_splits)
    then show ?thesis using used base by auto
  qed
qed

lemma nickname_reservation_witness:
  "\<exists>r' s'. ReserveAgentNicknameWithPreference hd NewRegistry
      \<lparr>res_active = True, reservedNickname = None, reservedPath = None\<rparr> [''Ada'', ''Bob''] [] = (r', s', Inr ''Ada'') \<and>
    ''Ada'' \<in> usedNicknames (fst (Release r' s'))"
proof -
  let ?s = "\<lparr>res_active = True, reservedNickname = None, reservedPath = None\<rparr>"
  have res: "ReserveAgentNicknameWithPreference hd NewRegistry ?s [''Ada'', ''Bob''] [] =
      (NewRegistry\<lparr>usedNicknames := {''Ada''}\<rparr>, ?s\<lparr>reservedNickname := Some ''Ada''\<rparr>, Inr ''Ada'')"
    by (simp add: ReserveAgentNicknameWithPreference_def reserveAgentNickname_def NewRegistry_def
        formatAgentNickname_def)
  have "\<forall>xs :: string list. xs \<noteq> [] \<longrightarrow> hd xs \<in> set xs" by simp
  from nickname_reservation [OF this res, THEN conjunct2, THEN conjunct1] res show ?thesis by fastforce
qed

end
