(* ===== verification/Agent_Graph.thy ===== *)
theory Agent_Graph
  imports Go_Base "HOL-Library.AList" "HOL-Library.Char_ord" "HOL-Library.List_Lexorder"
begin

text \<open>
  The parent/child graph of spawned threads: \<open>src/internal/agentgraph\<close>, agentgraph.go and inmemory.go.
  The Go map of edges is an association list whose order stands for the unspecified iteration order
  of the map; the results are shown not to depend on it. Strings are ordered byte-wise, as in sort.Strings.
  The locale \<open>agent_graph_store\<close> is the Go interface \<open>AgentGraphStore\<close>.
\<close>

section \<open>The store (inmemory.go)\<close>

type_synonym ThreadSpawnEdgeStatus = string

definition ThreadSpawnEdgeStatusOpen :: ThreadSpawnEdgeStatus where
  "ThreadSpawnEdgeStatusOpen = ''open''"

definition ThreadSpawnEdgeStatusClosed :: ThreadSpawnEdgeStatus where
  "ThreadSpawnEdgeStatusClosed = ''closed''"

definition status_IsValid :: "ThreadSpawnEdgeStatus \<Rightarrow> bool" where
  "status_IsValid s \<longleftrightarrow> s = ThreadSpawnEdgeStatusOpen \<or> s = ThreadSpawnEdgeStatusClosed"

record edge =
  edge_parent :: string
  edge_status :: ThreadSpawnEdgeStatus

type_synonym graph = "(string \<times> edge) list"

definition UpsertThreadSpawnEdge :: "graph \<Rightarrow> string \<Rightarrow> string \<Rightarrow> ThreadSpawnEdgeStatus \<Rightarrow> graph" where
  "UpsertThreadSpawnEdge g parentID childID status =
     AList.update childID \<lparr>edge_parent = parentID, edge_status = status\<rparr> g"

definition SetThreadSpawnEdgeStatus :: "graph \<Rightarrow> string \<Rightarrow> ThreadSpawnEdgeStatus \<Rightarrow> graph" where
  "SetThreadSpawnEdgeStatus g childID status =
     (case map_of g childID of
        Some existing \<Rightarrow> AList.update childID (existing\<lparr>edge_status := status\<rparr>) g
      | None \<Rightarrow> g)"

definition edge_selected :: "ThreadSpawnEdgeStatus option \<Rightarrow> edge \<Rightarrow> bool" where
  "edge_selected statusFilter e = (case statusFilter of Some s \<Rightarrow> edge_status e = s | None \<Rightarrow> True)"

text \<open>The children of a thread in iteration order, the entries of \<open>childrenByParent\<close>.\<close>

definition children_in_order :: "graph \<Rightarrow> ThreadSpawnEdgeStatus option \<Rightarrow> string \<Rightarrow> string list" where
  "children_in_order g statusFilter parentID =
     map fst (filter (\<lambda>(child, e). edge_parent e = parentID \<and> edge_selected statusFilter e) g)"

definition ListThreadSpawnChildren :: "graph \<Rightarrow> string \<Rightarrow> ThreadSpawnEdgeStatus option \<Rightarrow> string list" where
  "ListThreadSpawnChildren g parentID statusFilter = sort (children_in_order g statusFilter parentID)"

text \<open>One pass over the frontier: the visited set and the new level, in order of discovery.\<close>

fun visit_children :: "string list \<Rightarrow> string set \<Rightarrow> string list \<Rightarrow> string set \<times> string list" where
  "visit_children [] visited level = (visited, level)"
| "visit_children (child # children) visited level =
     (if child \<in> visited then visit_children children visited level
      else visit_children children (insert child visited) (level @ [child]))"

fun visit_frontier ::
    "graph \<Rightarrow> ThreadSpawnEdgeStatus option \<Rightarrow> string list \<Rightarrow> string set \<Rightarrow> string list \<Rightarrow> string set \<times> string list" where
  "visit_frontier g f [] visited level = (visited, level)"
| "visit_frontier g f (parent # frontier) visited level =
     (case visit_children (children_in_order g f parent) visited level of
        (visited', level') \<Rightarrow> visit_frontier g f frontier visited' level')"

lemma visit_children_spec:
  "visit_children cs visited level = (visited', level') \<Longrightarrow>
    visited' = visited \<union> set cs \<and>
    (\<exists>new. level' = level @ new \<and> distinct new \<and> set new = set cs - visited)"
proof (induction cs arbitrary: visited level)
  case Nil
  then show ?case by simp
next
  case (Cons c cs)
  show ?case
  proof (cases "c \<in> visited")
    case True
    with Cons.IH [of visited level] Cons.prems show ?thesis by auto
  next
    case False
    with Cons.prems have "visit_children cs (insert c visited) (level @ [c]) = (visited', level')" by simp
    from Cons.IH [OF this] obtain new where
      new: "visited' = insert c visited \<union> set cs" "level' = (level @ [c]) @ new" "distinct new"
        "set new = set cs - insert c visited" by blast
    have "level' = level @ (c # new)" using new(2) by simp
    moreover have "distinct (c # new)" using new(3,4) by simp
    moreover have "set (c # new) = set (c # cs) - visited" unfolding list.set new(4) using False by blast
    moreover have "visited' = visited \<union> set (c # cs)" using new(1) by simp
    ultimately show ?thesis by blast
  qed
qed

lemma visit_frontier_spec:
  "visit_frontier g f fr visited level = (visited', level') \<Longrightarrow>
    visited' = visited \<union> (\<Union>p \<in> set fr. set (children_in_order g f p)) \<and>
    (\<exists>new. level' = level @ new \<and> distinct new \<and>
       set new = (\<Union>p \<in> set fr. set (children_in_order g f p)) - visited)"
proof (induction fr arbitrary: visited level)
  case Nil
  then show ?case by simp
next
  case (Cons p fr)
  obtain v1 l1 where step: "visit_children (children_in_order g f p) visited level = (v1, l1)" by fastforce
  from visit_children_spec [OF step] obtain n1 where
    n1: "v1 = visited \<union> set (children_in_order g f p)" "l1 = level @ n1" "distinct n1"
      "set n1 = set (children_in_order g f p) - visited" by blast
  from Cons.prems step have "visit_frontier g f fr v1 l1 = (visited', level')" by simp
  from Cons.IH [OF this] obtain n2 where
    n2: "visited' = v1 \<union> (\<Union>p \<in> set fr. set (children_in_order g f p))" "level' = l1 @ n2" "distinct n2"
      "set n2 = (\<Union>p \<in> set fr. set (children_in_order g f p)) - v1" by blast
  have "level' = level @ (n1 @ n2)" "distinct (n1 @ n2)" using n1 n2 by auto
  moreover have "set (n1 @ n2) = (\<Union>p \<in> set (p # fr). set (children_in_order g f p)) - visited"
    using n1 n2 by auto
  ultimately show ?case using n1(1) n2(1) by auto
qed

lemma children_are_keys: "set (children_in_order g f p) \<subseteq> fst ` set g"
  by (auto simp: children_in_order_def)

text \<open>The breadth-first walk; a level that discovers nothing leaves an empty frontier.\<close>

function walk :: "graph \<Rightarrow> ThreadSpawnEdgeStatus option \<Rightarrow> string list \<Rightarrow> string set \<Rightarrow> string list \<Rightarrow> string list" where
  "walk g f frontier visited ordered =
     (if frontier = [] then ordered
      else (case visit_frontier g f frontier visited [] of
              (visited', level) \<Rightarrow> walk g f level visited' (ordered @ sort level)))"
  by pat_completeness auto
termination
proof (relation "measures [\<lambda>(g, f, fr, visited, ord). card (fst ` set g - visited),
    \<lambda>(g, f, fr, visited, ord). length fr]", goal_cases)
  case 1
  then show ?case by simp
next
  case (2 g f fr visited ord visited' level)
  then have step: "visit_frontier g f fr visited [] = (visited', level)" by simp
  let ?C = "\<Union>p \<in> set fr. set (children_in_order g f p)"
  have v: "visited' = visited \<union> ?C" and l: "set level = ?C - visited"
    using visit_frontier_spec [OF step] by auto
  have C: "?C \<subseteq> fst ` set g" using children_are_keys by fast
  show ?case
  proof (cases "level = []")
    case True
    then have "?C \<subseteq> visited" using l by simp
    then have "fst ` set g - visited' = fst ` set g - visited" using v by blast
    then show ?thesis using True 2(1) by simp
  next
    case False
    then obtain x where "x \<in> ?C - visited" using l by (metis ex_in_conv set_empty)
    then have "x \<in> fst ` set g - visited" "x \<notin> fst ` set g - visited'" using C v by auto
    moreover have "fst ` set g - visited' \<subseteq> fst ` set g - visited" using v by blast
    ultimately have "card (fst ` set g - visited') < card (fst ` set g - visited)"
      by (intro psubset_card_mono) auto
    then show ?thesis by simp
  qed
qed

declare walk.simps [simp del]

definition ListThreadSpawnDescendants :: "graph \<Rightarrow> string \<Rightarrow> ThreadSpawnEdgeStatus option \<Rightarrow> string list" where
  "ListThreadSpawnDescendants g rootID statusFilter = walk g statusFilter [rootID] {} []"

section \<open>Breadth-first order\<close>

text \<open>The selected edges as a relation from parent to child, and the threads within \<open>n\<close> edges of the root.\<close>

definition edges_of :: "graph \<Rightarrow> ThreadSpawnEdgeStatus option \<Rightarrow> (string \<times> string) set" where
  "edges_of g f = {(p, c). \<exists>e. (c, e) \<in> set g \<and> edge_parent e = p \<and> edge_selected f e}"

fun within :: "(string \<times> string) set \<Rightarrow> string \<Rightarrow> nat \<Rightarrow> string set" where
  "within E root 0 = {}"
| "within E root (Suc n) = within E root n \<union> E `` (insert root (within E root n))"

definition depth_level :: "(string \<times> string) set \<Rightarrow> string \<Rightarrow> nat \<Rightarrow> string set" where
  "depth_level E root n = within E root (Suc n) - within E root n"

lemma set_children: "set (children_in_order g f p) = edges_of g f `` {p}"
  by (force simp: children_in_order_def edges_of_def)

lemma children_Union: "(\<Union>p \<in> A. set (children_in_order g f p)) = edges_of g f `` A"
  by (auto simp: set_children)

lemma finite_edges: "finite (edges_of g f `` A)"
  by (rule finite_subset [of _ "fst ` set g"]) (force simp: edges_of_def)+

lemma within_mono: "m \<le> n \<Longrightarrow> within E root m \<subseteq> within E root n"
  by (induction n) (auto simp: le_Suc_eq)

text \<open>Only the last level can lead to unvisited threads.\<close>

lemma level_from_frontier:
  "E `` depth_level E root n - within E root (Suc n) = depth_level E root (Suc n)"
proof -
  have "E `` (insert root (within E root n)) \<subseteq> within E root (Suc n)" by simp
  moreover have "within E root (Suc n) = within E root n \<union> depth_level E root n"
    by (auto simp: depth_level_def)
  ultimately show ?thesis unfolding depth_level_def [of E root "Suc n"] within.simps(2) [of E root "Suc n"]
    by (auto simp del: within.simps)
qed

lemma sort_eq_sorted_list: "distinct xs \<Longrightarrow> sort xs = sorted_list_of_set (set xs)"
  by (simp add: sorted_list_of_set_sort_remdups distinct_remdups_id)

text \<open>When a level is empty all later ones are.\<close>

lemma empty_levels: "depth_level E root n = {} \<Longrightarrow> n \<le> m \<Longrightarrow> depth_level E root m = {}"
proof (induction m)
  case (Suc m)
  then show ?case using level_from_frontier [of E root m] by (cases "n = Suc m") auto
qed simp

lemma walk_levels:
  assumes "distinct frontier" "set frontier = depth_level (edges_of g f) root n"
    and "visited = within (edges_of g f) root (Suc n)"
  shows "\<exists>N. walk g f frontier visited ordered =
      ordered @ concat (map (\<lambda>k. sorted_list_of_set (depth_level (edges_of g f) root k)) [Suc n ..< N]) \<and>
    n < N \<and> depth_level (edges_of g f) root N = {}"
  using assms
proof (induction g f frontier visited ordered arbitrary: n rule: walk.induct)
  case (1 g f frontier visited ordered)
  let ?E = "edges_of g f"
  show ?case
  proof (cases "frontier = []")
    case True
    then have "depth_level ?E root (Suc n) = {}" using 1(3) empty_levels [of ?E root n "Suc n"] by simp
    then show ?thesis using True by (intro exI [of _ "Suc n"]) (simp add: walk.simps)
  next
    case False
    obtain visited' level where step: "visit_frontier g f frontier visited [] = (visited', level)" by fastforce
    have v: "visited' = visited \<union> ?E `` set frontier" and d: "distinct level"
      and l: "set level = ?E `` set frontier - visited"
      using visit_frontier_spec [OF step] by (auto simp: children_Union)
    have l': "set level = depth_level ?E root (Suc n)" using l 1(3,4) level_from_frontier by simp
    moreover have "visited' = within ?E root (Suc (Suc n))"
    proof -
      have "visited' = visited \<union> set level" unfolding v l by blast
      also have "\<dots> = within ?E root (Suc n) \<union> depth_level ?E root (Suc n)" by (simp only: 1(4) l')
      also have "\<dots> = within ?E root (Suc (Suc n))"
        using within_mono [OF le_SucI [OF order_refl], of ?E root "Suc n"] unfolding depth_level_def by blast
      finally show ?thesis .
    qed
    ultimately obtain N where N: "walk g f level visited' (ordered @ sort level) =
        (ordered @ sort level) @ concat (map (\<lambda>k. sorted_list_of_set (depth_level ?E root k)) [Suc (Suc n) ..< N])"
        "Suc n < N" "depth_level ?E root N = {}"
      using "1.IH" [OF False step [symmetric] d, of "Suc n"] by blast
    have "[Suc n ..< N] = Suc n # [Suc (Suc n) ..< N]" using N(2) by (simp add: upt_conv_Cons)
    moreover have "sort level = sorted_list_of_set (depth_level ?E root (Suc n))"
      using sort_eq_sorted_list [OF d] l' by simp
    moreover have "walk g f frontier visited ordered = walk g f level visited' (ordered @ sort level)"
      using False step by (subst walk.simps) simp
    ultimately show ?thesis using N by (intro exI [of _ N]) simp
  qed
qed

lemma finite_level: "finite (depth_level (edges_of g f) root n)"
  by (rule finite_subset [OF _ finite_edges [of g f "insert root (within (edges_of g f) root n)"]])
     (auto simp: depth_level_def)

lemma levels_upto:
  fixes g f root
  defines "E \<equiv> edges_of g f"
  defines "L \<equiv> \<lambda>n. concat (map (\<lambda>k. sorted_list_of_set (depth_level E root k)) [0 ..< n])"
  shows "set (L n) = within E root n \<and> distinct (L n)"
proof (induction n)
  case 0
  then show ?case by (simp add: L_def)
next
  case (Suc n)
  have "L (Suc n) = L n @ sorted_list_of_set (depth_level E root n)" by (simp add: L_def)
  moreover have "set (sorted_list_of_set (depth_level E root n)) = depth_level E root n"
    unfolding E_def using finite_level by simp
  ultimately show ?case
    using Suc within_mono [OF le_SucI [OF order_refl], of E root n] by (auto simp: depth_level_def simp del: within.simps)
qed

lemma within_reachable: "within E root n \<subseteq> E\<^sup>+ `` {root}"
proof (induction n)
  case (Suc n)
  have "x \<in> E\<^sup>+ `` {root}" if "(y, x) \<in> E" "y = root \<or> y \<in> within E root n" for x y
    using that Suc by (auto intro: trancl_into_trancl)
  then show ?case using Suc by auto
qed simp

lemma reachable_within:
  assumes "depth_level E root N = {}"
  shows "E\<^sup>+ `` {root} \<subseteq> within E root N"
proof -
  have closed: "E `` (insert root (within E root N)) \<subseteq> within E root N"
    using assms by (auto simp: depth_level_def)
  have "x \<in> within E root N" if "(root, x) \<in> E\<^sup>+" for x
    using that by (induction rule: trancl_induct) (use closed in blast)+
  then show ?thesis by blast
qed

text \<open>
  C36. The descendants of a thread are listed breadth first: level by level, each level sorted by
  thread id, where level \<open>n\<close> holds the threads first reached after \<open>n + 1\<close> edges that pass the status
  filter; the list holds exactly the threads reachable along such edges, each once, whatever the
  iteration order of the edge map, and also when the recorded edges form a cycle.
\<close>

theorem descendants_breadth_first:
  fixes g f root
  defines "E \<equiv> edges_of g f"
  shows "(\<exists>N. ListThreadSpawnDescendants g root f =
        concat (map (\<lambda>k. sorted_list_of_set (depth_level E root k)) [0 ..< N]) \<and> depth_level E root N = {}) \<and>
    set (ListThreadSpawnDescendants g root f) = E\<^sup>+ `` {root} \<and>
    distinct (ListThreadSpawnDescendants g root f)"
proof -
  obtain visited level where step: "visit_frontier g f [root] {} [] = (visited, level)" by fastforce
  have v: "visited = within E root (Suc 0)" and d: "distinct level" and l: "set level = depth_level E root 0"
    using visit_frontier_spec [OF step] by (auto simp: set_children E_def depth_level_def)
  obtain N where N: "walk g f level visited ([] @ sort level) = sort level
      @ concat (map (\<lambda>k. sorted_list_of_set (depth_level E root k)) [Suc 0 ..< N])" "0 < N" "depth_level E root N = {}"
    using walk_levels [OF d, of g f root 0 visited "sort level"] l v by (auto simp: E_def)
  have "ListThreadSpawnDescendants g root f = walk g f level visited ([] @ sort level)"
    using step by (simp add: ListThreadSpawnDescendants_def walk.simps [of g f "[root]"])
  also have "\<dots> = concat (map (\<lambda>k. sorted_list_of_set (depth_level E root k)) [0 ..< N])"
    using N(1,2) sort_eq_sorted_list [OF d] l by (simp add: upt_conv_Cons [of 0])
  finally have list: "ListThreadSpawnDescendants g root f =
      concat (map (\<lambda>k. sorted_list_of_set (depth_level E root k)) [0 ..< N])" .
  moreover have "set (ListThreadSpawnDescendants g root f) = within E root N \<and> distinct (ListThreadSpawnDescendants g root f)"
    unfolding list using levels_upto [of g f root N] by (simp add: E_def)
  moreover have "within E root N = E\<^sup>+ `` {root}"
    using within_reachable reachable_within [OF N(3)] by blast
  ultimately show ?thesis using N(3) by blast
qed

section \<open>The store interface\<close>

text \<open>What the interface documents: the incoming edge of a child, and the lists of children.\<close>

locale agent_graph_store =
  fixes inv :: "'s \<Rightarrow> bool"
    and incoming :: "'s \<Rightarrow> string \<Rightarrow> edge option"
    and upsert :: "'s \<Rightarrow> string \<Rightarrow> string \<Rightarrow> ThreadSpawnEdgeStatus \<Rightarrow> 's"
    and set_status :: "'s \<Rightarrow> string \<Rightarrow> ThreadSpawnEdgeStatus \<Rightarrow> 's"
    and list_children :: "'s \<Rightarrow> string \<Rightarrow> ThreadSpawnEdgeStatus option \<Rightarrow> string list"
  assumes upsert: "inv s \<Longrightarrow> inv (upsert s p c st) \<and>
      incoming (upsert s p c st) = (incoming s)(c \<mapsto> \<lparr>edge_parent = p, edge_status = st\<rparr>)"
    and set_status: "inv s \<Longrightarrow> inv (set_status s c st) \<and>
      incoming (set_status s c st) = (incoming s)(c := map_option (edge_status_update (\<lambda>_. st)) (incoming s c))"
    and list_children: "inv s \<Longrightarrow> sorted (list_children s p f) \<and> distinct (list_children s p f) \<and>
      set (list_children s p f) = {c. \<exists>e. incoming s c = Some e \<and> edge_parent e = p \<and> edge_selected f e}"
begin

lemma one_parent:
  "inv s \<Longrightarrow> c \<in> set (list_children s p f) \<Longrightarrow> c \<in> set (list_children s p' f') \<Longrightarrow> p = p'"
  by (auto simp: list_children)

lemma reparent:
  assumes "inv s" "p \<noteq> p'"
  shows "c \<in> set (list_children (upsert s p c st) p None) \<and> c \<notin> set (list_children (upsert s p c st) p' f)"
  using assms upsert [OF assms(1), of p c st] by (auto simp: list_children edge_selected_def)

lemma close_child:
  assumes "inv s" "st \<noteq> st'"
  shows "c \<notin> set (list_children (set_status s c st) p (Some st'))"
  using assms set_status [OF assms(1), of c st] by (auto simp: list_children edge_selected_def)

end

definition graph_ok :: "graph \<Rightarrow> bool" where
  "graph_ok g \<longleftrightarrow> distinct (map fst g)"

interpretation in_memory: agent_graph_store graph_ok map_of UpsertThreadSpawnEdge SetThreadSpawnEdgeStatus
  ListThreadSpawnChildren
proof
  fix s p c st f
  assume s: "graph_ok s"
  show "graph_ok (UpsertThreadSpawnEdge s p c st) \<and>
      map_of (UpsertThreadSpawnEdge s p c st) = (map_of s)(c \<mapsto> \<lparr>edge_parent = p, edge_status = st\<rparr>)"
    using s by (simp add: UpsertThreadSpawnEdge_def graph_ok_def update_conv' distinct_update)
  show "graph_ok (SetThreadSpawnEdgeStatus s c st) \<and> map_of (SetThreadSpawnEdgeStatus s c st) =
      (map_of s)(c := map_option (edge_status_update (\<lambda>_. st)) (map_of s c))"
    using s by (auto simp: SetThreadSpawnEdgeStatus_def graph_ok_def update_conv' distinct_update fun_upd_idem
        split: option.splits)
  have "distinct (children_in_order s f p)"
    using s by (simp add: children_in_order_def graph_ok_def distinct_map_filter)
  then show "sorted (ListThreadSpawnChildren s p f) \<and> distinct (ListThreadSpawnChildren s p f) \<and>
      set (ListThreadSpawnChildren s p f) = {c. \<exists>e. map_of s c = Some e \<and> edge_parent e = p \<and> edge_selected f e}"
    using s by (auto simp: ListThreadSpawnChildren_def set_children edges_of_def graph_ok_def)
qed

text \<open>
  A spawned thread has one parent: the children of a thread are listed sorted and once each, a
  thread is never listed under two parents, recording it under a new parent moves it there, and once
  its edge has another status a listing filtered by the old status no longer shows it.
\<close>

theorem children_have_one_parent:
  assumes "graph_ok g" "p \<noteq> p'" "st \<noteq> st'"
  shows "sorted (ListThreadSpawnChildren g p f) \<and> distinct (ListThreadSpawnChildren g p f) \<and>
    set (ListThreadSpawnChildren g p f) \<inter> set (ListThreadSpawnChildren g p' f') = {} \<and>
    c \<in> set (ListThreadSpawnChildren (UpsertThreadSpawnEdge g p c st) p None) \<and>
    c \<notin> set (ListThreadSpawnChildren (UpsertThreadSpawnEdge g p c st) p' f) \<and>
    c \<notin> set (ListThreadSpawnChildren (SetThreadSpawnEdgeStatus g c st) p (Some st'))"
  using in_memory.list_children [OF assms(1), of p f] in_memory.one_parent [OF assms(1)]
    in_memory.reparent [OF assms(1,2)] in_memory.close_child [OF assms(1,3)] assms(2)
  by blast

lemma children_have_one_parent_witness:
  "''c'' \<in> set (ListThreadSpawnChildren (UpsertThreadSpawnEdge [] ''p'' ''c'' ''open'') ''p'' None) \<and>
   ''c'' \<notin> set (ListThreadSpawnChildren (UpsertThreadSpawnEdge [] ''p'' ''c'' ''open'') ''q'' None)"
proof -
  have "graph_ok []" "''p'' \<noteq> ''q''" "''open'' \<noteq> ''closed''" by (simp_all add: graph_ok_def)
  from children_have_one_parent [OF this, where f = None and c = "''c''"] show ?thesis by blast
qed

end
