(* ===== verification/Head_Tail.thy ===== *)
theory Head_Tail
  imports Go_Base
begin

text \<open>
  The capped output buffer of the unified exec tool: \<open>src/internal/unifiedexec/headtail.go\<close>. It keeps
  a prefix and a suffix of the output and drops the middle. The counters are \<open>int\<close>: they count bytes
  that were written, so the 64-bit integers of the code wrap around only past \<open>2 ^ 63\<close> bytes of output.
\<close>

section \<open>The buffer\<close>

type_synonym bytes = "char list"

record HeadTailBuffer =
  maxBytes :: int
  headBudget :: int
  tailBudget :: int
  ht_head :: "bytes list"
  ht_tail :: "bytes list"
  headBytes :: int
  tailBytes :: int
  omittedSize :: int

text \<open>Go's integer division truncates toward zero.\<close>

definition go_half :: "int \<Rightarrow> int" where
  "go_half m = (if m < 0 then - ((- m) div 2) else m div 2)"

definition NewHeadTailBuffer :: "int \<Rightarrow> HeadTailBuffer" where
  "NewHeadTailBuffer m =
     (let hb = go_half m; tb = (if m - hb < 0 then 0 else m - hb) in
      \<lparr>maxBytes = m, headBudget = hb, tailBudget = tb, ht_head = [], ht_tail = [], headBytes = 0, tailBytes = 0,
       omittedSize = 0\<rparr>)"

definition RetainedBytes :: "HeadTailBuffer \<Rightarrow> int" where
  "RetainedBytes b = headBytes b + tailBytes b"

definition OmittedBytes :: "HeadTailBuffer \<Rightarrow> int" where
  "OmittedBytes b = omittedSize b"

abbreviation len :: "'a list \<Rightarrow> int" where
  "len xs \<equiv> int (length xs)"

text \<open>The loop of trimTailToBudget: the tail chunks, its size and the omitted count.\<close>

fun trim_loop :: "bytes list \<Rightarrow> int \<Rightarrow> int \<Rightarrow> int \<Rightarrow> bytes list \<times> int \<times> int" where
  "trim_loop [] excess tb om = ([], tb, om)"
| "trim_loop (front # rest) excess tb om =
     (if excess \<le> 0 then (front # rest, tb, om)
      else if excess \<ge> len front then trim_loop rest (excess - len front) (tb - len front) (om + len front)
      else (drop (nat excess) front # rest, tb - excess, om + excess))"

definition trimTailToBudget :: "HeadTailBuffer \<Rightarrow> HeadTailBuffer" where
  "trimTailToBudget b =
     (case trim_loop (ht_tail b) (tailBytes b - tailBudget b) (tailBytes b) (omittedSize b) of
        (t, tb, om) \<Rightarrow> b\<lparr>ht_tail := t, tailBytes := tb, omittedSize := om\<rparr>)"

definition pushToTail :: "HeadTailBuffer \<Rightarrow> bytes \<Rightarrow> HeadTailBuffer" where
  "pushToTail b chunk =
     (if tailBudget b = 0 then b\<lparr>omittedSize := omittedSize b + len chunk\<rparr>
      else if len chunk \<ge> tailBudget b then
        (let start = len chunk - tailBudget b; kept = drop (nat start) chunk; dropped = len chunk - len kept in
         b\<lparr>omittedSize := omittedSize b + (tailBytes b + dropped), ht_tail := [kept], tailBytes := len kept\<rparr>)
      else trimTailToBudget (b\<lparr>tailBytes := tailBytes b + len chunk, ht_tail := ht_tail b @ [chunk]\<rparr>))"

definition PushChunk :: "HeadTailBuffer \<Rightarrow> bytes \<Rightarrow> HeadTailBuffer" where
  "PushChunk b chunk =
     (if maxBytes b = 0 then b\<lparr>omittedSize := omittedSize b + len chunk\<rparr>
      else if headBytes b < headBudget b then
        (let remainingHead = headBudget b - headBytes b in
         if len chunk \<le> remainingHead
         then b\<lparr>headBytes := headBytes b + len chunk, ht_head := ht_head b @ [chunk]\<rparr>
         else
           let headPart = take (nat remainingHead) chunk; tailPart = drop (nat remainingHead) chunk;
               b' = (if headPart \<noteq> []
                     then b\<lparr>headBytes := headBytes b + len headPart, ht_head := ht_head b @ [headPart]\<rparr> else b) in
           pushToTail b' tailPart)
      else pushToTail b chunk)"

definition SnapshotChunks :: "HeadTailBuffer \<Rightarrow> bytes list" where
  "SnapshotChunks b = ht_head b @ ht_tail b"

definition ToBytes :: "HeadTailBuffer \<Rightarrow> bytes" where
  "ToBytes b = concat (ht_head b) @ concat (ht_tail b)"

definition DrainChunks :: "HeadTailBuffer \<Rightarrow> bytes list \<times> HeadTailBuffer" where
  "DrainChunks b =
     (ht_head b @ ht_tail b,
      b\<lparr>ht_head := [], ht_tail := [], headBytes := 0, tailBytes := 0, omittedSize := 0\<rparr>)"

section \<open>Abstraction\<close>

definition last_n :: "nat \<Rightarrow> 'a list \<Rightarrow> 'a list" where
  "last_n n xs = drop (length xs - n) xs"

lemma length_last_n [simp]: "length (last_n n xs) = min n (length xs)"
  by (simp add: last_n_def)

lemma last_n_all: "length xs \<le> n \<Longrightarrow> last_n n xs = xs"
  by (simp add: last_n_def)

lemma last_n_append_long: "n \<le> length ys \<Longrightarrow> last_n n (xs @ ys) = last_n n ys"
  by (simp add: last_n_def)

lemma last_n_last_n: "last_n n (last_n n xs @ ys) = last_n n (xs @ ys)"
proof (cases "length xs \<le> n")
  case False
  then have xs: "xs = take (length xs - n) xs @ last_n n xs" by (simp add: last_n_def)
  show ?thesis using False by (simp add: last_n_def add.commute)
qed (simp add: last_n_all)

text \<open>A buffer that holds what is to be kept of the output \<open>s\<close>.\<close>

definition holds :: "nat \<Rightarrow> nat \<Rightarrow> bytes \<Rightarrow> HeadTailBuffer \<Rightarrow> bool" where
  "holds hb tb s b \<longleftrightarrow>
     maxBytes b = int (hb + tb) \<and> headBudget b = int hb \<and> tailBudget b = int tb \<and>
     concat (ht_head b) = take hb s \<and> concat (ht_tail b) = last_n tb (drop hb s) \<and>
     headBytes b = len (concat (ht_head b)) \<and> tailBytes b = len (concat (ht_tail b)) \<and>
     omittedSize b = len s - headBytes b - tailBytes b"

lemma trim_loop_spec:
  assumes "0 \<le> excess" "excess \<le> len (concat t)"
  shows "\<exists>t'. trim_loop t excess tb om = (t', tb - excess, om + excess) \<and> concat t' = drop (nat excess) (concat t)"
  using assms
proof (induction t arbitrary: excess tb om)
  case Nil
  then show ?case by simp
next
  case (Cons front rest)
  consider "excess \<le> 0" | "0 < excess" "excess < len front" | "0 < excess" "len front \<le> excess" by linarith
  then show ?case
  proof cases
    case 3
    from Cons.IH [of "excess - len front" "tb - len front" "om + len front"] 3 Cons.prems
    obtain t' where "trim_loop rest (excess - len front) (tb - len front) (om + len front) =
        (t', tb - excess, om + excess)" "concat t' = drop (nat (excess - len front)) (concat rest)"
      by auto
    with 3 show ?thesis by (simp add: nat_diff_distrib)
  qed (use Cons.prems in auto)
qed

lemma holds_pushToTail:
  assumes "holds hb tb s b" "0 < tb" "hb \<le> length s"
  shows "holds hb tb (s @ chunk) (pushToTail b chunk)"
proof (cases "tb \<le> length chunk")
  case True
  then show ?thesis
    using assms by (auto simp: holds_def pushToTail_def Let_def last_n_append_long last_n_def nat_diff_distrib)
next
  case False
  let ?t = "ht_tail b @ [chunk]"
  have t: "concat ?t = last_n tb (drop hb s) @ chunk" using assms(1) by (simp add: holds_def)
  have tb: "tailBytes b + len chunk = len (concat ?t)" "tailBudget b = int tb"
    using assms(1) by (simp_all add: holds_def)
  show ?thesis
  proof (cases "length (concat ?t) \<le> tb")
    case True
    have "trim_loop ?t (tailBytes b + len chunk - tailBudget b) (tailBytes b + len chunk) (omittedSize b)
        = (?t, tailBytes b + len chunk, omittedSize b)"
      using True tb by (cases "ht_tail b") auto
    moreover have "last_n tb (drop hb s @ chunk) = last_n tb (drop hb s) @ chunk"
      using True t last_n_last_n [of tb "drop hb s" chunk] by (simp add: last_n_all)
    ultimately show ?thesis
      using assms False by (auto simp: holds_def pushToTail_def trimTailToBudget_def)
  next
    case False': False
    define e where "e = tailBytes b + len chunk - tailBudget b"
    have e: "0 \<le> e" "e \<le> len (concat ?t)" "nat e = length (concat ?t) - tb"
      using False' tb unfolding e_def by linarith+
    from trim_loop_spec [OF e(1,2)] obtain t' where
      l: "trim_loop ?t e (tailBytes b + len chunk) (omittedSize b) =
        (t', tailBytes b + len chunk - e, omittedSize b + e)" and c: "concat t' = drop (nat e) (concat ?t)"
      by blast
    have "concat t' = last_n tb (drop hb s @ chunk)"
      unfolding c e(3) t last_n_def [symmetric] by (rule last_n_last_n)
    moreover have "len (concat t') = tailBytes b + len chunk - e" using c e tb by simp
    moreover have "pushToTail b chunk =
        b\<lparr>ht_tail := t', tailBytes := tailBytes b + len chunk - e, omittedSize := omittedSize b + e\<rparr>"
      using l tb(2) False assms(2) unfolding e_def by (simp add: pushToTail_def trimTailToBudget_def)
    ultimately show ?thesis using assms unfolding holds_def by simp
  qed
qed

lemma holds_PushChunk:
  assumes "holds hb tb s b" "0 < tb"
  shows "holds hb tb (s @ chunk) (PushChunk b chunk)"
proof (cases "hb \<le> length s")
  case True
  then have "\<not> headBytes b < headBudget b" "maxBytes b \<noteq> 0" using assms by (auto simp: holds_def)
  then have "PushChunk b chunk = pushToTail b chunk" by (simp add: PushChunk_def)
  then show ?thesis using holds_pushToTail [OF assms True] by simp
next
  case False
  then have b: "headBytes b = len s" "headBudget b = int hb" "concat (ht_tail b) = []" "maxBytes b \<noteq> 0"
    using assms by (auto simp: holds_def last_n_def)
  show ?thesis
  proof (cases "length s + length chunk \<le> hb")
    case True
    then have "PushChunk b chunk = b\<lparr>headBytes := headBytes b + len chunk, ht_head := ht_head b @ [chunk]\<rparr>"
      using b False by (simp add: PushChunk_def)
    then show ?thesis using True False assms(1) unfolding holds_def by (simp add: last_n_def)
  next
    case big: False
    define k where "k = hb - length s"
    have k: "nat (headBudget b - headBytes b) = k" "k < length chunk" "0 < k" "length s + k = hb"
      using False big b by (auto simp: k_def)
    let ?b = "b\<lparr>headBytes := headBytes b + len (take k chunk), ht_head := ht_head b @ [take k chunk]\<rparr>"
    have "take hb (s @ take k chunk) = s @ take k chunk" "drop hb (s @ take k chunk) = []"
      "take hb s = s" "drop hb s = []" using k by (auto simp: k_def)
    then have "holds hb tb (s @ take k chunk) ?b"
      using assms(1) unfolding holds_def by (simp add: last_n_def)
    then have "holds hb tb ((s @ take k chunk) @ drop k chunk) (pushToTail ?b (drop k chunk))"
      using assms(2) k by (intro holds_pushToTail) auto
    moreover have "headBytes b < headBudget b" "\<not> len chunk \<le> headBudget b - headBytes b" "take k chunk \<noteq> []"
      using b False big k by auto
    then have "PushChunk b chunk = pushToTail ?b (drop k chunk)"
      using b(4) k(1) unfolding PushChunk_def by (simp only: Let_def if_True if_False simp_thms)
    ultimately show ?thesis by simp
  qed
qed

lemma holds_New: "0 \<le> m \<Longrightarrow> holds (nat (m div 2)) (nat (m - m div 2)) [] (NewHeadTailBuffer m)"
  by (auto simp: holds_def NewHeadTailBuffer_def go_half_def Let_def last_n_def)

lemma holds_foldl:
  "holds hb tb s b \<Longrightarrow> 0 < tb \<Longrightarrow> holds hb tb (s @ concat chunks) (foldl PushChunk b chunks)"
proof (induction chunks arbitrary: s b)
  case Nil
  then show ?case by simp
next
  case (Cons c chunks)
  then show ?case using Cons.IH [OF holds_PushChunk] by fastforce
qed

text \<open>
  C33. The output buffer keeps exactly what it promises. After pushing any chunks into a buffer of
  positive capacity, its contents are the first half-capacity bytes of the whole output followed by the
  last bytes of the rest, as many as the other half of the capacity holds, however the output was cut into
  chunks; the retained and omitted counts add up to the length of the output, at most the capacity is retained,
  and nothing is omitted while the output fits.
\<close>

theorem HeadTailBuffer_keeps_head_and_tail:
  assumes "0 < m"
  shows "let b = foldl PushChunk (NewHeadTailBuffer m) chunks; s = concat chunks; hb = nat (m div 2) in
    ToBytes b = take hb s @ last_n (nat (m - m div 2)) (drop hb s) \<and>
    concat (SnapshotChunks b) = ToBytes b \<and>
    RetainedBytes b = len (ToBytes b) \<and> RetainedBytes b + OmittedBytes b = len s \<and>
    RetainedBytes b \<le> m \<and> (len s \<le> m \<longrightarrow> ToBytes b = s \<and> OmittedBytes b = 0)"
proof -
  let ?hb = "nat (m div 2)" and ?tb = "nat (m - m div 2)" and ?s = "concat chunks"
  let ?b = "foldl PushChunk (NewHeadTailBuffer m) chunks"
  have "0 < ?tb" using assms by linarith
  with holds_foldl [OF holds_New] assms have h: "holds ?hb ?tb ?s ?b" by fastforce
  then have bytes: "ToBytes ?b = take ?hb ?s @ last_n ?tb (drop ?hb ?s)" by (simp add: ToBytes_def holds_def)
  have ret: "RetainedBytes ?b = len (ToBytes ?b)" "RetainedBytes ?b + OmittedBytes ?b = len ?s"
    using h by (auto simp: ToBytes_def RetainedBytes_def OmittedBytes_def holds_def)
  have "length (ToBytes ?b) \<le> ?hb + ?tb" unfolding bytes by (simp add: add_mono)
  moreover have "int (?hb + ?tb) = m" using assms by simp
  moreover have "ToBytes ?b = ?s" if "len ?s \<le> m"
  proof -
    have "length (drop ?hb ?s) \<le> ?tb" using that assms by simp
    then show ?thesis unfolding bytes by (simp only: last_n_all append_take_drop_id)
  qed
  moreover have "concat (SnapshotChunks ?b) = ToBytes ?b" by (simp add: SnapshotChunks_def ToBytes_def)
  moreover have "OmittedBytes ?b = 0" if "len ?s \<le> m"
    using ret calculation(3) [OF that] by simp
  moreover have "RetainedBytes ?b \<le> m" using ret(1) calculation(1,2) by linarith
  ultimately show ?thesis unfolding Let_def using bytes ret by blast
qed

lemma HeadTailBuffer_keeps_head_and_tail_witness:
  "ToBytes (foldl PushChunk (NewHeadTailBuffer 4) [''abc'', ''defg'']) = ''abfg''"
proof -
  have "(0::int) < 4" by simp
  from HeadTailBuffer_keeps_head_and_tail [OF this, of "[''abc'', ''defg'']"] show ?thesis
    by (simp add: Let_def last_n_def numeral_eq_Suc)
qed

end
