(* ===== verification/Lru_Cache.thy ===== *)
theory Lru_Cache
  imports Go_Base "HOL-Library.AList"
begin

text \<open>
  The LRU cache of \<open>src/internal/utils/cache\<close> (lru.go, cache.go). The Go cache keeps a doubly linked
  list of entries, most recently used first, and a map from keys to list elements; here the list holds
  an element identity with each entry and the map leads to identities, so that the two structures can
  disagree unless the invariant \<open>lru_ok\<close> is proved. The specification is a plain list of key-value
  pairs in order of use. The locale \<open>cache\<close> is what \<open>BlockingLruCache\<close> needs of the cache it wraps.
\<close>

section \<open>The cache (lru.go)\<close>

record ('k, 'v) LruCache =
  lru_capacity :: nat
  lru_unbounded :: bool
  lru_order :: "(nat \<times> 'k \<times> 'v) list"
  lru_items :: "('k \<times> nat) list"
  lru_next :: nat

definition newLruCache :: "nat \<Rightarrow> ('k, 'v) LruCache" where
  "newLruCache cap = \<lparr>lru_capacity = cap, lru_unbounded = False, lru_order = [], lru_items = [], lru_next = 0\<rparr>"

definition newUnboundedLruCache :: "('k, 'v) LruCache" where
  "newUnboundedLruCache =
     \<lparr>lru_capacity = 0, lru_unbounded = True, lru_order = [], lru_items = [], lru_next = 0\<rparr>"

definition Len :: "('k, 'v) LruCache \<Rightarrow> nat" where
  "Len c = length (lru_items c)"

definition Cap :: "('k, 'v) LruCache \<Rightarrow> nat" where
  "Cap c = (if lru_unbounded c then 0 else lru_capacity c)"

text \<open>The list operations of container/list on an element identity.\<close>

definition element :: "('k, 'v) LruCache \<Rightarrow> nat \<Rightarrow> (nat \<times> 'k \<times> 'v) option" where
  "element c el = find (\<lambda>e. fst e = el) (lru_order c)"

definition list_remove :: "(nat \<times> 'k \<times> 'v) list \<Rightarrow> nat \<Rightarrow> (nat \<times> 'k \<times> 'v) list" where
  "list_remove xs el = filter (\<lambda>e. fst e \<noteq> el) xs"

definition Get :: "('k, 'v) LruCache \<Rightarrow> 'k \<Rightarrow> 'v option \<times> ('k, 'v) LruCache" where
  "Get c key =
     (case map_of (lru_items c) key of
        None \<Rightarrow> (None, c)
      | Some el \<Rightarrow>
          (case element c el of
             None \<Rightarrow> (None, c)
           | Some (_, k, v) \<Rightarrow> (Some v, c\<lparr>lru_order := (el, k, v) # list_remove (lru_order c) el\<rparr>)))"

definition evictOldest :: "('k, 'v) LruCache \<Rightarrow> ('k, 'v) LruCache" where
  "evictOldest c =
     (if lru_order c = [] then c
      else (case last (lru_order c) of
              (el, k, _) \<Rightarrow>
                c\<lparr>lru_order := list_remove (lru_order c) el, lru_items := AList.delete k (lru_items c)\<rparr>))"

definition Put :: "('k, 'v) LruCache \<Rightarrow> 'k \<Rightarrow> 'v \<Rightarrow> 'v option \<times> ('k, 'v) LruCache" where
  "Put c key v =
     (case map_of (lru_items c) key of
        Some el \<Rightarrow>
          (case element c el of
             None \<Rightarrow> (None, c)
           | Some (_, k, prev) \<Rightarrow> (Some prev, c\<lparr>lru_order := (el, k, v) # list_remove (lru_order c) el\<rparr>))
      | None \<Rightarrow>
          (let el = lru_next c;
               c' = c\<lparr>lru_order := (el, key, v) # lru_order c, lru_items := AList.update key el (lru_items c),
                      lru_next := Suc el\<rparr> in
           (None, if \<not> lru_unbounded c' \<and> length (lru_items c') > lru_capacity c' then evictOldest c' else c')))"

definition Pop :: "('k, 'v) LruCache \<Rightarrow> 'k \<Rightarrow> 'v option \<times> ('k, 'v) LruCache" where
  "Pop c key =
     (case map_of (lru_items c) key of
        None \<Rightarrow> (None, c)
      | Some el \<Rightarrow>
          (case element c el of
             None \<Rightarrow> (None, c)
           | Some (_, _, v) \<Rightarrow>
               (Some v, c\<lparr>lru_order := list_remove (lru_order c) el, lru_items := AList.delete key (lru_items c)\<rparr>)))"

definition Clear :: "('k, 'v) LruCache \<Rightarrow> ('k, 'v) LruCache" where
  "Clear c = c\<lparr>lru_order := [], lru_items := []\<rparr>"

section \<open>Specification and invariant\<close>

definition uses :: "('k, 'v) LruCache \<Rightarrow> ('k \<times> 'v) list" where
  "uses c = map snd (lru_order c)"

text \<open>The list and the map agree: identities and keys are unique and determine each other.\<close>

definition lru_core :: "('k, 'v) LruCache \<Rightarrow> bool" where
  "lru_core c \<longleftrightarrow>
     distinct (map fst (lru_order c)) \<and> distinct (map fst (uses c)) \<and> distinct (map fst (lru_items c)) \<and>
     (\<forall>k el. map_of (lru_items c) k = Some el \<longleftrightarrow> (\<exists>v. (el, k, v) \<in> set (lru_order c))) \<and>
     (\<forall>e \<in> set (lru_order c). fst e < lru_next c)"

definition lru_ok :: "('k, 'v) LruCache \<Rightarrow> bool" where
  "lru_ok c \<longleftrightarrow> lru_core c \<and> (lru_unbounded c \<or> (0 < lru_capacity c \<and> length (lru_order c) \<le> lru_capacity c))"

definition without :: "'k \<Rightarrow> ('k \<times> 'v) list \<Rightarrow> ('k \<times> 'v) list" where
  "without k xs = filter (\<lambda>kv. fst kv \<noteq> k) xs"

text \<open>The specification: a touched pair moves to the front, a new pair pushes out the last one.\<close>

definition spec_get :: "('k \<times> 'v) list \<Rightarrow> 'k \<Rightarrow> 'v option \<times> ('k \<times> 'v) list" where
  "spec_get xs k = (map_of xs k, case map_of xs k of None \<Rightarrow> xs | Some v \<Rightarrow> (k, v) # without k xs)"

definition spec_put :: "nat option \<Rightarrow> ('k \<times> 'v) list \<Rightarrow> 'k \<Rightarrow> 'v \<Rightarrow> 'v option \<times> ('k \<times> 'v) list" where
  "spec_put limit xs k v =
     (map_of xs k,
      let ys = (k, v) # without k xs in case limit of None \<Rightarrow> ys | Some n \<Rightarrow> take n ys)"

definition spec_pop :: "('k \<times> 'v) list \<Rightarrow> 'k \<Rightarrow> 'v option \<times> ('k \<times> 'v) list" where
  "spec_pop xs k = (map_of xs k, without k xs)"

definition limit_of :: "('k, 'v) LruCache \<Rightarrow> nat option" where
  "limit_of c = (if lru_unbounded c then None else Some (lru_capacity c))"

section \<open>Refinement\<close>

lemma lru_coreD:
  assumes "lru_core c"
  shows "distinct (map fst (lru_order c))" "distinct (map fst (uses c))" "distinct (map fst (lru_items c))"
    and "map_of (lru_items c) k = Some el \<longleftrightarrow> (\<exists>v. (el, k, v) \<in> set (lru_order c))"
    and "e \<in> set (lru_order c) \<Longrightarrow> fst e < lru_next c"
  using assms unfolding lru_core_def by blast+

lemma core_ids:
  assumes "lru_core c" "(el, k, v) \<in> set (lru_order c)" "(el, k', v') \<in> set (lru_order c)"
  shows "k' = k \<and> v' = v"
proof -
  have "inj_on fst (set (lru_order c))" using lru_coreD(1) [OF assms(1)] by (simp add: distinct_map)
  from inj_onD [OF this _ assms(2,3)] show ?thesis by simp
qed

lemma core_keys:
  assumes "lru_core c" "(el, k, v) \<in> set (lru_order c)" "(el', k, v') \<in> set (lru_order c)"
  shows "el' = el \<and> v' = v"
proof -
  have "inj_on (fst \<circ> snd) (set (lru_order c))"
    using lru_coreD(2) [OF assms(1)] by (simp only: uses_def map_map distinct_map)
  from inj_onD [OF this _ assms(2,3)] show ?thesis by simp
qed

lemma find_unique: "x \<in> set xs \<Longrightarrow> P x \<Longrightarrow> (\<And>y. y \<in> set xs \<Longrightarrow> P y \<Longrightarrow> y = x) \<Longrightarrow> find P xs = Some x"
proof (induction xs)
  case (Cons a xs)
  show ?case
  proof (cases "P a")
    case True
    then have "a = x" using Cons.prems(3) by simp
    with True show ?thesis by simp
  next
    case False
    then have "x \<in> set xs" using Cons.prems(1,2) by auto
    moreover have "y = x" if "y \<in> set xs" "P y" for y using that Cons.prems(3) by simp
    ultimately have "find P xs = Some x" using Cons.IH Cons.prems(2) by blast
    with False show ?thesis by simp
  qed
qed simp

lemma core_absent:
  assumes "lru_core c" "map_of (lru_items c) k = None"
  shows "map_of (uses c) k = None \<and> without k (uses c) = uses c"
proof -
  have "k \<notin> fst ` set (uses c)"
  proof
    assume "k \<in> fst ` set (uses c)"
    then obtain el v where "(el, k, v) \<in> set (lru_order c)" by (auto simp: uses_def)
    then show False using assms lru_coreD(4) [OF assms(1)] by (metis option.distinct(1))
  qed
  then show ?thesis by (force simp: map_of_eq_None_iff without_def filter_id_conv)
qed

lemma core_present:
  assumes "lru_core c" "map_of (lru_items c) k = Some el"
  obtains v where "element c el = Some (el, k, v)" "map_of (uses c) k = Some v"
    "(el, k, v) \<in> set (lru_order c)" "map snd (list_remove (lru_order c) el) = without k (uses c)"
proof -
  obtain v where v: "(el, k, v) \<in> set (lru_order c)" using assms lru_coreD(4) by metis
  have iff: "fst e = el \<longleftrightarrow> fst (snd e) = k" if "e \<in> set (lru_order c)" for e
    using that core_ids [OF assms(1) v] core_keys [OF assms(1) v] by (metis prod.collapse)
  have "element c el = Some (el, k, v)" unfolding element_def
  proof (rule find_unique [OF v])
    show "y = (el, k, v)" if "y \<in> set (lru_order c)" "fst y = el" for y
      using that core_ids [OF assms(1) v, of "fst (snd y)" "snd (snd y)"] by (metis prod.collapse)
  qed simp
  moreover have "map_of (uses c) k = Some v"
    using v lru_coreD(2) [OF assms(1)] by (force simp: uses_def intro: map_of_is_SomeI)
  moreover have "filter (\<lambda>e. fst e \<noteq> el) (lru_order c) = filter (\<lambda>e. fst (snd e) \<noteq> k) (lru_order c)"
    by (rule filter_cong) (simp_all add: iff)
  then have "map snd (list_remove (lru_order c) el) = without k (uses c)"
    by (simp add: list_remove_def without_def uses_def filter_map comp_def)
  ultimately show ?thesis using that v by blast
qed

lemma distinct_fst_without: "distinct (map fst xs) \<Longrightarrow> distinct (map fst (without k xs))"
  by (simp add: without_def distinct_map_filter)

lemma key_without: "k \<notin> fst ` set (without k xs)"
  by (auto simp: without_def)

lemma in_list_remove: "e \<in> set (list_remove xs el) \<longleftrightarrow> e \<in> set xs \<and> fst e \<noteq> el"
  by (auto simp: list_remove_def)

lemma distinct_list_remove: "distinct (map fst xs) \<Longrightarrow> distinct (map fst (list_remove xs el))"
  by (simp add: list_remove_def distinct_map_filter)

lemma core_move_front:
  assumes "lru_core c" "map_of (lru_items c) k = Some el"
  shows "lru_core (c\<lparr>lru_order := (el, k, v') # list_remove (lru_order c) el\<rparr>)" (is "lru_core ?c")
proof -
  obtain v where v: "(el, k, v) \<in> set (lru_order c)"
    "map snd (list_remove (lru_order c) el) = without k (uses c)"
    using core_present [OF assms] by metis
  have "distinct (map fst (lru_order ?c))"
    using distinct_list_remove [OF lru_coreD(1) [OF assms(1)]] by (auto simp: in_list_remove)
  moreover have "distinct (map fst (uses ?c))"
    using distinct_fst_without [OF lru_coreD(2) [OF assms(1)]] key_without [of k] v(2)
    by (simp add: uses_def [of ?c])
  moreover have "map_of (lru_items c) k' = Some el' \<longleftrightarrow> (\<exists>w. (el', k', w) \<in> set (lru_order ?c))" for k' el'
  proof (cases "el' = el")
    case True
    then show ?thesis
      using lru_coreD(4) [OF assms(1), of k' el'] v(1) core_ids [OF assms(1) v(1), of k']
      by (auto simp: in_list_remove dest: core_ids [OF assms(1) v(1)])
  next
    case False
    then show ?thesis using lru_coreD(4) [OF assms(1), of k' el'] by (auto simp: in_list_remove)
  qed
  moreover have "fst e < lru_next c" if "e \<in> set (lru_order ?c)" for e
    using that lru_coreD(5) [OF assms(1)] lru_coreD(5) [OF assms(1) v(1)] by (fastforce simp: in_list_remove)
  ultimately show ?thesis using lru_coreD(3) [OF assms(1)] unfolding lru_core_def by simp
qed

lemma core_remove:
  assumes "lru_core c" "map_of (lru_items c) k = Some el"
  shows "lru_core (c\<lparr>lru_order := list_remove (lru_order c) el, lru_items := AList.delete k (lru_items c)\<rparr>)"
    (is "lru_core ?c")
proof -
  obtain v where v: "(el, k, v) \<in> set (lru_order c)"
    "map snd (list_remove (lru_order c) el) = without k (uses c)"
    using core_present [OF assms] by metis
  have "distinct (map fst (lru_order ?c))"
    using distinct_list_remove [OF lru_coreD(1) [OF assms(1)]] by simp
  moreover have "distinct (map fst (uses ?c))"
    using distinct_fst_without [OF lru_coreD(2) [OF assms(1)]] v(2) by (simp add: uses_def [of ?c])
  moreover have "map_of (lru_items ?c) k' = Some el' \<longleftrightarrow> (\<exists>w. (el', k', w) \<in> set (lru_order ?c))" for k' el'
  proof (cases "k' = k")
    case True
    then show ?thesis using core_keys [OF assms(1) v(1)] by (auto simp: in_list_remove delete_conv')
  next
    case False
    moreover from False have "(el', k', w) \<in> set (lru_order ?c) \<longleftrightarrow> (el', k', w) \<in> set (lru_order c)" for w
      using core_ids [OF assms(1) v(1), of k' w] by (auto simp: in_list_remove)
    ultimately show ?thesis using lru_coreD(4) [OF assms(1), of k' el'] by (simp add: delete_conv')
  qed
  moreover have "fst e < lru_next c" if "e \<in> set (lru_order ?c)" for e
    using that lru_coreD(5) [OF assms(1)] by (auto simp: in_list_remove)
  moreover have "distinct (map fst (lru_items ?c))" using lru_coreD(3) [OF assms(1)] by (simp add: distinct_delete)
  ultimately show ?thesis unfolding lru_core_def by simp
qed

lemma core_insert:
  assumes "lru_core c" "map_of (lru_items c) k = None"
  shows "lru_core (c\<lparr>lru_order := (lru_next c, k, v) # lru_order c,
    lru_items := AList.update k (lru_next c) (lru_items c), lru_next := Suc (lru_next c)\<rparr>)" (is "lru_core ?c")
proof -
  have fresh: "lru_next c \<notin> fst ` set (lru_order c)" using lru_coreD(5) [OF assms(1)] by fastforce
  have "distinct (map fst (lru_order ?c))" using fresh lru_coreD(1) [OF assms(1)] by simp
  moreover have "distinct (map fst (uses ?c))"
    using core_absent [OF assms] lru_coreD(2) [OF assms(1)] by (simp add: uses_def map_of_eq_None_iff image_image)
  moreover have "map_of (lru_items ?c) k' = Some el' \<longleftrightarrow> (\<exists>w. (el', k', w) \<in> set (lru_order ?c))" for k' el'
  proof (cases "k' = k")
    case True
    then have "(el', k', w) \<notin> set (lru_order c)" for w
      using lru_coreD(4) [OF assms(1), of k el'] assms(2) by auto
    then show ?thesis using True by (auto simp: update_conv')
  next
    case False
    then show ?thesis using lru_coreD(4) [OF assms(1), of k' el'] by (simp add: update_conv')
  qed
  moreover have "fst e < Suc (lru_next c)" if "e \<in> set (lru_order ?c)" for e
    using that lru_coreD(5) [OF assms(1), of e] by (auto intro: less_SucI)
  moreover have "distinct (map fst (lru_items ?c))" using lru_coreD(3) [OF assms(1)] by (simp add: distinct_update)
  ultimately show ?thesis unfolding lru_core_def by simp
qed

lemma core_lengths: "lru_core c \<Longrightarrow> length (lru_items c) = length (lru_order c)"
proof -
  assume c: "lru_core c"
  have "k \<in> fst ` set (lru_items c) \<longleftrightarrow> k \<in> fst ` set (uses c)" for k
  proof -
    have "k \<in> fst ` set (lru_items c) \<longleftrightarrow> (\<exists>el. map_of (lru_items c) k = Some el)"
      by (metis map_of_eq_None_iff not_None_eq)
    also have "\<dots> \<longleftrightarrow> (\<exists>el v. (el, k, v) \<in> set (lru_order c))" by (simp only: lru_coreD(4) [OF c])
    also have "\<dots> \<longleftrightarrow> k \<in> fst ` set (uses c)" by (force simp: uses_def)
    finally show ?thesis .
  qed
  then have "fst ` set (lru_items c) = fst ` set (uses c)" by blast
  moreover have "card (fst ` set (lru_items c)) = length (lru_items c)"
    using distinct_card [OF lru_coreD(3) [OF c]] by simp
  moreover have "card (fst ` set (uses c)) = length (lru_order c)"
    using distinct_card [OF lru_coreD(2) [OF c]] by (simp add: uses_def image_image)
  ultimately show ?thesis by simp
qed

lemma list_remove_last:
  assumes "xs \<noteq> []" "distinct (map fst xs)"
  shows "list_remove xs (fst (last xs)) = butlast xs"
proof (cases xs rule: rev_cases)
  case (snoc ys x)
  then have "fst x \<notin> fst ` set ys" using assms(2) by auto
  then have "filter (\<lambda>e. fst e \<noteq> fst x) ys = ys"
    by (intro filter_True ballI) (metis imageI)
  then show ?thesis by (simp add: snoc list_remove_def)
qed (use assms(1) in simp)

text \<open>Every operation keeps the invariant and computes what the specification computes.\<close>

lemma Get_refines:
  assumes "lru_ok c"
  shows "lru_ok (snd (Get c k)) \<and> (fst (Get c k), uses (snd (Get c k))) = spec_get (uses c) k \<and>
    limit_of (snd (Get c k)) = limit_of c"
proof (cases "map_of (lru_items c) k")
  case None
  then show ?thesis using assms core_absent [of c k] by (simp add: Get_def spec_get_def lru_ok_def)
next
  case (Some el)
  have core: "lru_core c" using assms by (simp add: lru_ok_def)
  obtain v where v: "element c el = Some (el, k, v)" "map_of (uses c) k = Some v"
    "(el, k, v) \<in> set (lru_order c)" "map snd (list_remove (lru_order c) el) = without k (uses c)"
    using core_present [OF core Some] by metis
  let ?c = "c\<lparr>lru_order := (el, k, v) # list_remove (lru_order c) el\<rparr>"
  have "length (lru_order ?c) = length (lru_order c)"
    using core_lengths [OF core] core_lengths [OF core_move_front [OF core Some, of v]] by simp
  then have "lru_ok ?c" using assms core_move_front [OF core Some, of v] by (simp add: lru_ok_def)
  then show ?thesis using Some v by (simp add: Get_def spec_get_def uses_def [of ?c] limit_of_def)
qed

lemma Pop_refines:
  assumes "lru_ok c"
  shows "lru_ok (snd (Pop c k)) \<and> (fst (Pop c k), uses (snd (Pop c k))) = spec_pop (uses c) k \<and>
    limit_of (snd (Pop c k)) = limit_of c"
proof (cases "map_of (lru_items c) k")
  case None
  then show ?thesis using assms core_absent [of c k] by (simp add: Pop_def spec_pop_def lru_ok_def)
next
  case (Some el)
  have core: "lru_core c" using assms by (simp add: lru_ok_def)
  obtain v where v: "element c el = Some (el, k, v)" "map_of (uses c) k = Some v"
    "map snd (list_remove (lru_order c) el) = without k (uses c)"
    using core_present [OF core Some] by metis
  let ?c = "c\<lparr>lru_order := list_remove (lru_order c) el, lru_items := AList.delete k (lru_items c)\<rparr>"
  have "length (lru_order ?c) \<le> length (lru_order c)" by (simp add: list_remove_def)
  then have "lru_ok ?c" using assms core_remove [OF core Some] by (auto simp: lru_ok_def)
  then show ?thesis using Some v by (simp add: Pop_def spec_pop_def uses_def [of ?c] limit_of_def)
qed

lemma Put_refines:
  assumes "lru_ok c"
  shows "lru_ok (snd (Put c k v)) \<and> (fst (Put c k v), uses (snd (Put c k v))) = spec_put (limit_of c) (uses c) k v \<and>
    limit_of (snd (Put c k v)) = limit_of c"
proof (cases "map_of (lru_items c) k")
  case (Some el)
  have core: "lru_core c" using assms by (simp add: lru_ok_def)
  obtain w where w: "element c el = Some (el, k, w)" "map_of (uses c) k = Some w"
    "map snd (list_remove (lru_order c) el) = without k (uses c)"
    using core_present [OF core Some] by metis
  let ?c = "c\<lparr>lru_order := (el, k, v) # list_remove (lru_order c) el\<rparr>"
  have len: "length (lru_order ?c) = length (lru_order c)"
    using core_lengths [OF core] core_lengths [OF core_move_front [OF core Some, of v]] by simp
  then have "lru_ok ?c" using assms core_move_front [OF core Some, of v] by (simp add: lru_ok_def)
  moreover have uses: "uses ?c = (k, v) # without k (uses c)" by (simp add: uses_def [of ?c] w(3))
  moreover have "take (lru_capacity c) (uses ?c) = uses ?c" if "\<not> lru_unbounded c"
    using that assms len by (simp add: lru_ok_def uses_def [of ?c])
  ultimately show ?thesis using Some w
    by (auto simp: Put_def spec_put_def limit_of_def Let_def)
next
  case None
  have core: "lru_core c" using assms by (simp add: lru_ok_def)
  let ?c = "c\<lparr>lru_order := (lru_next c, k, v) # lru_order c,
    lru_items := AList.update k (lru_next c) (lru_items c), lru_next := Suc (lru_next c)\<rparr>"
  have core': "lru_core ?c" by (rule core_insert [OF core None])
  have len: "length (lru_items ?c) = Suc (length (lru_order c))" using core_lengths [OF core'] by simp
  have spec: "spec_put (limit_of c) (uses c) k v =
      (None, case limit_of c of None \<Rightarrow> uses ?c | Some n \<Rightarrow> take n (uses ?c))"
    using core_absent [OF core None] by (simp add: spec_put_def Let_def uses_def split: option.split)
  show ?thesis
  proof (cases "\<not> lru_unbounded c \<and> lru_capacity c < Suc (length (lru_order c))")
    case False
    then have "lru_ok ?c" using assms core' by (auto simp: lru_ok_def)
    moreover have "Put c k v = (None, ?c)" using None False len by (auto simp: Put_def Let_def)
    ultimately show ?thesis using spec False by (auto simp: limit_of_def uses_def)
  next
    case True
    then have full: "lru_capacity c = length (lru_order c)" "0 < lru_capacity c" "limit_of c = Some (lru_capacity c)"
      using assms by (auto simp: lru_ok_def limit_of_def)
    obtain el k' w where l: "last (lru_order ?c) = (el, k', w)" by (metis prod_cases3)
    then have "(el, k', w) \<in> set (lru_order ?c)" by (metis last_in_set lru_coreD(1) list.distinct(1) LruCache.select_convs(3) LruCache.update_convs(3,4,5) LruCache.surjective)
    then have el: "map_of (lru_items ?c) k' = Some el" using lru_coreD(4) [OF core'] by blast
    have rem: "list_remove (lru_order ?c) el = butlast (lru_order ?c)"
      using list_remove_last [of "lru_order ?c"] lru_coreD(1) [OF core'] l by simp
    let ?e = "?c\<lparr>lru_order := list_remove (lru_order ?c) el, lru_items := AList.delete k' (lru_items ?c)\<rparr>"
    have put: "Put c k v = (None, ?e)" using None True len l by (simp add: Put_def evictOldest_def Let_def)
    have "uses ?e = take (lru_capacity c) (uses ?c)"
    proof -
      have "uses ?e = map snd (butlast (lru_order ?c))" unfolding uses_def rem [symmetric] by simp
      also have "\<dots> = butlast (uses ?c)" by (simp only: map_butlast uses_def)
      also have "\<dots> = take (lru_capacity c) (uses ?c)" using full by (simp add: butlast_conv_take uses_def)
      finally show ?thesis .
    qed
    moreover have "lru_ok ?e" using core_remove [OF core' el] full rem by (simp add: lru_ok_def)
    ultimately show ?thesis using put spec full True by (simp add: limit_of_def)
  qed
qed

section \<open>Runs of operations\<close>

datatype ('k, 'v) cache_op = OpGet 'k | OpPut 'k 'v | OpPop 'k | OpClear

fun cache_step :: "('k, 'v) LruCache \<Rightarrow> ('k, 'v) cache_op \<Rightarrow> 'v option \<times> ('k, 'v) LruCache" where
  "cache_step c (OpGet k) = Get c k"
| "cache_step c (OpPut k v) = Put c k v"
| "cache_step c (OpPop k) = Pop c k"
| "cache_step c OpClear = (None, Clear c)"

fun spec_step :: "nat option \<Rightarrow> ('k \<times> 'v) list \<Rightarrow> ('k, 'v) cache_op \<Rightarrow> 'v option \<times> ('k \<times> 'v) list" where
  "spec_step limit xs (OpGet k) = spec_get xs k"
| "spec_step limit xs (OpPut k v) = spec_put limit xs k v"
| "spec_step limit xs (OpPop k) = spec_pop xs k"
| "spec_step limit xs OpClear = (None, [])"

fun run_ops :: "('s \<Rightarrow> 'o \<Rightarrow> 'r \<times> 's) \<Rightarrow> 's \<Rightarrow> 'o list \<Rightarrow> 'r list \<times> 's" where
  "run_ops step s [] = ([], s)"
| "run_ops step s (x # xs) =
     (case step s x of (r, s') \<Rightarrow> case run_ops step s' xs of (rs, s'') \<Rightarrow> (r # rs, s''))"

lemma Clear_refines: "lru_ok c \<Longrightarrow> lru_ok (Clear c) \<and> uses (Clear c) = [] \<and> limit_of (Clear c) = limit_of c"
  by (auto simp: Clear_def lru_ok_def lru_core_def uses_def limit_of_def)

lemma cache_step_refines:
  assumes "lru_ok c"
  shows "lru_ok (snd (cache_step c x)) \<and>
    (fst (cache_step c x), uses (snd (cache_step c x))) = spec_step (limit_of c) (uses c) x \<and>
    limit_of (snd (cache_step c x)) = limit_of c"
  using Get_refines [OF assms] Put_refines [OF assms] Pop_refines [OF assms] Clear_refines [OF assms]
  by (cases x) simp_all

lemma run_refines:
  assumes "lru_ok c"
  shows "lru_ok (snd (run_ops cache_step c xs)) \<and>
    (fst (run_ops cache_step c xs), uses (snd (run_ops cache_step c xs)))
      = run_ops (spec_step (limit_of c)) (uses c) xs \<and>
    limit_of (snd (run_ops cache_step c xs)) = limit_of c"
  using assms
proof (induction xs arbitrary: c)
  case Nil
  then show ?case by simp
next
  case (Cons x xs)
  obtain r c' where step: "cache_step c x = (r, c')" by fastforce
  have c': "lru_ok c'" "spec_step (limit_of c) (uses c) x = (r, uses c')" "limit_of c' = limit_of c"
    using cache_step_refines [OF Cons.prems, of x] step by simp_all
  from Cons.IH [OF c'(1)] show ?case
    by (auto simp: step c' split: prod.splits)
qed

lemma newLruCache_ok: "0 < cap \<Longrightarrow> lru_ok (newLruCache cap) \<and> uses (newLruCache cap) = [] \<and> limit_of (newLruCache cap) = Some cap"
  by (simp add: newLruCache_def lru_ok_def lru_core_def uses_def limit_of_def)

text \<open>
  C34. The linked list with its index is an LRU cache: for any capacity above zero and any sequence of
  gets, puts, pops and clears, the cache returns exactly what a plain list in order of use returns,
  where a touched pair moves to the front and a new pair pushes the last one out, and it never holds
  more entries than its capacity.
\<close>

theorem LruCache_refines_use_list:
  fixes xs :: "('k, 'v) cache_op list"
  assumes "0 < cap"
  shows "fst (run_ops cache_step (newLruCache cap) xs) = fst (run_ops (spec_step (Some cap)) [] xs) \<and>
    uses (snd (run_ops cache_step (newLruCache cap) xs)) = snd (run_ops (spec_step (Some cap)) [] xs) \<and>
    Len (snd (run_ops cache_step (newLruCache cap) xs)) \<le> cap"
proof -
  let ?c = "newLruCache cap :: ('k, 'v) LruCache" and ?run = "run_ops cache_step (newLruCache cap) xs"
  have c: "lru_ok ?c \<and> uses ?c = [] \<and> limit_of ?c = Some cap" by (rule newLruCache_ok [OF assms])
  have "lru_ok (snd ?run)" "(fst ?run, uses (snd ?run)) = run_ops (spec_step (Some cap)) [] xs"
      "limit_of (snd ?run) = Some cap"
    using run_refines [of ?c xs] c by simp_all
  moreover from this have "Len (snd ?run) \<le> cap"
    using core_lengths [of "snd ?run"] by (auto simp: lru_ok_def limit_of_def Len_def split: if_splits)
  ultimately show ?thesis by (metis fst_conv snd_conv)
qed

lemma LruCache_refines_use_list_witness:
  "fst (run_ops cache_step (newLruCache 2)
      [OpPut ''a'' (1::nat), OpPut ''b'' 2, OpGet ''a'', OpPut ''c'' 3, OpGet ''b'', OpGet ''a'']) =
    [None, None, Some 1, None, None, Some 1]"
proof -
  have "(0::nat) < 2" by simp
  from LruCache_refines_use_list [OF this, of
      "[OpPut ''a'' (1::nat), OpPut ''b'' 2, OpGet ''a'', OpPut ''c'' 3, OpGet ''b'', OpGet ''a'']"]
  show ?thesis by (simp add: spec_put_def spec_get_def without_def numeral_2_eq_2)
qed

section \<open>The blocking cache (cache.go)\<close>

text \<open>What the wrapper relies on: lookups do not change the contents, and a put is found again.\<close>

locale cache =
  fixes get :: "'c \<Rightarrow> 'k \<Rightarrow> 'v option \<times> 'c"
    and put :: "'c \<Rightarrow> 'k \<Rightarrow> 'v \<Rightarrow> 'v option \<times> 'c"
    and contents :: "'c \<Rightarrow> 'k \<Rightarrow> 'v option"
    and inv :: "'c \<Rightarrow> bool"
  assumes get_ok: "inv c \<Longrightarrow> fst (get c k) = contents c k \<and> contents (snd (get c k)) = contents c \<and> inv (snd (get c k))"
    and put_ok: "inv c \<Longrightarrow> contents (snd (put c k v)) k = Some v \<and> inv (snd (put c k v))"
begin

lemma get_or_put:
  assumes "inv c" "(case get c k of (Some v, c') \<Rightarrow> (v, c') | (None, c') \<Rightarrow> (new, snd (put c' k new))) = (r, c')"
  shows "inv c' \<and> contents c' k = Some r \<and> (r = (case contents c k of Some v \<Rightarrow> v | None \<Rightarrow> new))"
  using assms get_ok [OF assms(1), of k] put_ok [of "snd (get c k)" k new]
  by (cases "get c k") (auto split: option.splits)

end

lemma map_of_without: "map_of (without k xs) = (map_of xs)(k := None)"
  by (induction xs) (auto simp: without_def fun_upd_def)

interpretation lru: cache Get Put "\<lambda>c. map_of (uses c)" lru_ok
proof
  fix c :: "('k, 'v) LruCache" and k v
  assume c: "lru_ok c"
  show "fst (Get c k) = map_of (uses c) k \<and> map_of (uses (snd (Get c k))) = map_of (uses c) \<and> lru_ok (snd (Get c k))"
    using Get_refines [OF c, of k] by (auto simp: spec_get_def map_of_without fun_upd_idem split: option.splits)
  show "map_of (uses (snd (Put c k v))) k = Some v \<and> lru_ok (snd (Put c k v))"
    using Put_refines [OF c, of k v] c
    by (auto simp: spec_put_def limit_of_def lru_ok_def Let_def take_Cons' split: if_splits)
qed

record ('k, 'v) BlockingLruCache =
  blk_inner :: "('k, 'v) LruCache"
  blk_enabled :: bool

text \<open>\<open>None\<close> is \<open>ErrZeroCapacity\<close>.\<close>

definition NewBlockingLruCache :: "nat \<Rightarrow> ('k, 'v) BlockingLruCache option" where
  "NewBlockingLruCache cap =
     (if cap = 0 then None else Some \<lparr>blk_inner = newLruCache cap, blk_enabled = True\<rparr>)"

definition NewDisabledBlockingLruCache :: "nat \<Rightarrow> ('k, 'v) BlockingLruCache option" where
  "NewDisabledBlockingLruCache cap =
     (if cap = 0 then None else Some \<lparr>blk_inner = newLruCache cap, blk_enabled = False\<rparr>)"

definition SetEnabled :: "('k, 'v) BlockingLruCache \<Rightarrow> bool \<Rightarrow> ('k, 'v) BlockingLruCache" where
  "SetEnabled c enabled = c\<lparr>blk_enabled := enabled\<rparr>"

text \<open>The factory is a function of no argument: it is called where its result is used.\<close>

definition GetOrInsertWith ::
    "('k, 'v) BlockingLruCache \<Rightarrow> 'k \<Rightarrow> (unit \<Rightarrow> 'v) \<Rightarrow> 'v \<times> ('k, 'v) BlockingLruCache" where
  "GetOrInsertWith c key new =
     (if \<not> blk_enabled c then (new (), c)
      else
        (case Get (blk_inner c) key of
           (Some v, inner) \<Rightarrow> (v, c\<lparr>blk_inner := inner\<rparr>)
         | (None, inner) \<Rightarrow> (let v = new () in (v, c\<lparr>blk_inner := snd (Put inner key v)\<rparr>))))"

definition GetOrTryInsertWith ::
    "('k, 'v) BlockingLruCache \<Rightarrow> 'k \<Rightarrow> (unit \<Rightarrow> ('e, 'v) result) \<Rightarrow> ('e, 'v) result \<times> ('k, 'v) BlockingLruCache" where
  "GetOrTryInsertWith c key new =
     (if \<not> blk_enabled c then (new (), c)
      else
        (case Get (blk_inner c) key of
           (Some v, inner) \<Rightarrow> (Inr v, c\<lparr>blk_inner := inner\<rparr>)
         | (None, inner) \<Rightarrow>
             (case new () of
                Inl e \<Rightarrow> (Inl e, c\<lparr>blk_inner := inner\<rparr>)
              | Inr v \<Rightarrow> (Inr v, c\<lparr>blk_inner := snd (Put inner key v)\<rparr>))))"

definition blk_Get :: "('k, 'v) BlockingLruCache \<Rightarrow> 'k \<Rightarrow> 'v option \<times> ('k, 'v) BlockingLruCache" where
  "blk_Get c key =
     (if \<not> blk_enabled c then (None, c)
      else (case Get (blk_inner c) key of (r, inner) \<Rightarrow> (r, c\<lparr>blk_inner := inner\<rparr>)))"

definition Insert :: "('k, 'v) BlockingLruCache \<Rightarrow> 'k \<Rightarrow> 'v \<Rightarrow> 'v option \<times> ('k, 'v) BlockingLruCache" where
  "Insert c key v =
     (if \<not> blk_enabled c then (None, c)
      else (case Put (blk_inner c) key v of (r, inner) \<Rightarrow> (r, c\<lparr>blk_inner := inner\<rparr>)))"

definition Remove :: "('k, 'v) BlockingLruCache \<Rightarrow> 'k \<Rightarrow> 'v option \<times> ('k, 'v) BlockingLruCache" where
  "Remove c key =
     (if \<not> blk_enabled c then (None, c)
      else (case Pop (blk_inner c) key of (r, inner) \<Rightarrow> (r, c\<lparr>blk_inner := inner\<rparr>)))"

definition blk_Clear :: "('k, 'v) BlockingLruCache \<Rightarrow> ('k, 'v) BlockingLruCache" where
  "blk_Clear c = (if \<not> blk_enabled c then c else c\<lparr>blk_inner := Clear (blk_inner c)\<rparr>)"

definition WithMut ::
    "('k, 'v) BlockingLruCache \<Rightarrow> (('k, 'v) LruCache \<Rightarrow> 'r \<times> ('k, 'v) LruCache) \<Rightarrow> 'r \<times> ('k, 'v) BlockingLruCache" where
  "WithMut c callback =
     (if \<not> blk_enabled c then (fst (callback newUnboundedLruCache), c)
      else (case callback (blk_inner c) of (r, inner) \<Rightarrow> (r, c\<lparr>blk_inner := inner\<rparr>)))"

text \<open>
  Memoization: on an enabled cache, GetOrInsertWith returns the cached value if there is one and
  otherwise the factory's, and from then on the key is cached, so that the next call returns the same
  value whatever its factory would compute. A failing factory of GetOrTryInsertWith stores nothing.
\<close>

theorem GetOrInsertWith_memoizes:
  assumes "blk_enabled c" "lru_ok (blk_inner c)" "GetOrInsertWith c k new = (r, c')"
  shows "r = (case map_of (uses (blk_inner c)) k of Some v \<Rightarrow> v | None \<Rightarrow> new ()) \<and>
    fst (GetOrInsertWith c' k new') = r \<and>
    (map_of (uses (blk_inner c)) k = None \<longrightarrow>
       fst (GetOrTryInsertWith c k (\<lambda>_. Inl e)) = Inl e \<and>
       map_of (uses (blk_inner (snd (GetOrTryInsertWith c k (\<lambda>_. Inl e))))) = map_of (uses (blk_inner c)))"
proof -
  let ?i = "blk_inner c"
  have c': "blk_enabled c'"
    using assms(1,3) by (auto simp: GetOrInsertWith_def Let_def split: prod.splits option.splits)
  have "(case Get ?i k of (Some v, c') \<Rightarrow> (v, c') | (None, c') \<Rightarrow> (new (), snd (Put c' k (new ())))) = (r, blk_inner c')"
    using assms(1,3) by (auto simp: GetOrInsertWith_def Let_def split: prod.splits option.splits)
  from lru.get_or_put [OF assms(2) this]
  have i': "lru_ok (blk_inner c')" "map_of (uses (blk_inner c')) k = Some r"
    and r: "r = (case map_of (uses ?i) k of Some v \<Rightarrow> v | None \<Rightarrow> new ())" by blast+
  have "fst (Get (blk_inner c') k) = Some r" using lru.get_ok [OF i'(1), of k] i'(2) by simp
  then have "fst (GetOrInsertWith c' k new') = r"
    using c' by (auto simp: GetOrInsertWith_def split: prod.splits option.splits)
  moreover have "fst (GetOrTryInsertWith c k (\<lambda>_. Inl e)) = Inl e \<and>
      map_of (uses (blk_inner (snd (GetOrTryInsertWith c k (\<lambda>_. Inl e))))) = map_of (uses ?i)"
    if "map_of (uses ?i) k = None"
    using that lru.get_ok [OF assms(2), of k] assms(1)
    by (auto simp: GetOrTryInsertWith_def split: prod.splits option.splits)
  ultimately show ?thesis using r by blast
qed

lemma GetOrInsertWith_memoizes_witness:
  "\<exists>c c' :: (string, nat) BlockingLruCache. NewBlockingLruCache 1 = Some c \<and> GetOrInsertWith c ''k'' (\<lambda>_. 7) = (7, c') \<and>
     fst (GetOrInsertWith c' ''k'' (\<lambda>_. 8)) = 7"
proof -
  let ?c = "\<lparr>blk_inner = newLruCache 1, blk_enabled = True\<rparr> :: (string, nat) BlockingLruCache"
  obtain c' where c': "GetOrInsertWith ?c ''k'' (\<lambda>_. 7) = (7, c')"
    by (simp add: GetOrInsertWith_def Get_def newLruCache_def)
  have "lru_ok (blk_inner ?c)" by (simp add: newLruCache_ok)
  then have "fst (GetOrInsertWith c' ''k'' (\<lambda>_. 8)) = 7"
    by (rule GetOrInsertWith_memoizes [OF _ _ c', THEN conjunct2, THEN conjunct1, rotated]) simp
  moreover have "NewBlockingLruCache 1 = Some ?c" by (simp add: NewBlockingLruCache_def)
  ultimately show ?thesis using c' by blast
qed

end
