(* ===== verification/Go_Scan.thy ===== *)
theory Go_Scan
  imports Go_Text
begin

text \<open>
  Searching in strings (strings.Index) and the correspondence between byte-level and
  code-point-level views of encoded text: prefixes, the last code point, and trimming.
\<close>

section \<open>strings.Index\<close>

fun Index :: "string \<Rightarrow> string \<Rightarrow> nat option" where
  "Index [] sub = (if sub = [] then Some 0 else None)"
| "Index (c # cs) sub = (if HasPrefix (c # cs) sub then Some 0 else map_option Suc (Index cs sub))"

lemma HasPrefix_Nil_iff [simp]: "HasPrefix [] p \<longleftrightarrow> p = []"
  by (auto simp: HasPrefix_iff)

lemma HasPrefix_length: "HasPrefix s p \<Longrightarrow> length p \<le> length s"
  by (auto simp: HasPrefix_iff)

lemma HasPrefix_appendI: "HasPrefix s p \<Longrightarrow> HasPrefix (s @ t) p"
  by (auto simp: HasPrefix_iff)

lemma HasPrefix_append_long: "length p \<le> length s \<Longrightarrow> HasPrefix (s @ t) p \<longleftrightarrow> HasPrefix s p"
  by (auto simp: HasPrefix_iff append_eq_append_conv2)

lemma HasPrefix_take: "HasPrefix s p \<longleftrightarrow> take (length p) s = p"
  unfolding HasPrefix_iff by (metis append_eq_conv_conj append_take_drop_id)

lemma Index_None_iff: "Index s sub = None \<longleftrightarrow> (\<forall>j < Suc (length s). \<not> HasPrefix (drop j s) sub)"
  by (induction s) (auto simp: All_less_Suc2)

lemma Index_Some_iff:
  "Index s sub = Some k \<longleftrightarrow>
     k \<le> length s \<and> HasPrefix (drop k s) sub \<and> (\<forall>j < k. \<not> HasPrefix (drop j s) sub)"
proof (induction s arbitrary: k)
  case Nil
  then show ?case by auto
next
  case (Cons c s)
  show ?case by (cases k) (auto simp: Cons All_less_Suc2)
qed

lemma Index_split: "Index s sub = Some k \<Longrightarrow> s = take k s @ sub @ drop (k + length sub) s"
  unfolding Index_Some_iff HasPrefix_take
  by (metis add.commute append_take_drop_id drop_drop)

lemma Index_le: "Index s sub = Some k \<Longrightarrow> k + length sub \<le> length s"
  using HasPrefix_length [of "drop k s" sub] by (auto simp: Index_Some_iff)

lemma not_HasPrefix_drop_of_Index:
  assumes "Index s sub = None" and "sub \<noteq> []"
  shows "\<not> HasPrefix (drop j s) sub"
  using assms by (cases "j < Suc (length s)") (auto simp: Index_None_iff)

section \<open>Encoded text\<close>

lemma encode_runes_Nil [simp]: "encode_runes [] = []"
  and encode_runes_Cons: "encode_runes (r # rs) = encode_rune r @ encode_runes rs"
  and encode_runes_append: "encode_runes (rs @ qs) = encode_runes rs @ encode_runes qs"
  by (simp_all add: encode_runes_def)

lemma encode_runes_eq_Nil [simp]: "encode_runes rs = [] \<longleftrightarrow> rs = []"
  by (cases rs) (simp_all add: encode_runes_Cons)

lemma encode_runes_prefix:
  assumes "list_all valid_rune rs" and "list_all valid_rune qs"
  shows "HasPrefix (encode_runes qs) (encode_runes rs) \<longleftrightarrow> (\<exists>us. qs = rs @ us)"
proof
  assume "HasPrefix (encode_runes qs) (encode_runes rs)"
  then obtain t where "encode_runes qs = encode_runes rs @ t" by (auto simp: HasPrefix_iff)
  then have "runes (encode_runes qs) = runes (encode_runes rs @ t)" by simp
  then show "\<exists>us. qs = rs @ us" using assms by (auto simp: runes_encode_append runes_encode)
qed (auto simp: HasPrefix_iff encode_runes_append)

lemma encode_runes_inj:
  "list_all valid_rune rs \<Longrightarrow> list_all valid_rune qs \<Longrightarrow> encode_runes rs = encode_runes qs \<longleftrightarrow> rs = qs"
  using runes_encode by metis

lemma valid_utf8_encode [simp]: "list_all valid_rune rs \<Longrightarrow> valid_utf8 (encode_runes rs)"
  by (auto simp: valid_utf8_iff)

lemma valid_utf8_append: "valid_utf8 s \<Longrightarrow> valid_utf8 t \<Longrightarrow> valid_utf8 (s @ t)"
  unfolding valid_utf8_iff by (metis encode_runes_append list_all_append)

lemma runes_append: "valid_utf8 s \<Longrightarrow> runes (s @ t) = runes s @ runes t"
  by (auto simp: valid_utf8_iff runes_encode_append runes_encode)

lemma valid_utf8_ascii: "list_all (\<lambda>c. byte c < 0x80) s \<Longrightarrow> valid_utf8 s"
proof -
  assume a: "list_all (\<lambda>c. byte c < 0x80) s"
  then have "list_all valid_rune (map byte s)" by (induction s) (auto simp: valid_rune_def)
  then show ?thesis using valid_utf8_encode encode_runes_ascii [OF a] by metis
qed

lemma valid_utf8_Nil [simp]: "valid_utf8 []"
  by (simp add: valid_utf8_def)

lemma last_byte_multi:
  assumes "valid_rune r" and "0x80 \<le> r"
  shows "0x80 \<le> byte (last (encode_rune r))"
  using assms mod_64_le [of r]
  by (auto simp: encode_rune_def Let_def byte_char_of valid_rune_def)

lemma start_bytes_multi:
  assumes "valid_rune r" and "0x80 \<le> r"
  shows "find (\<lambda>k. k \<le> length (s @ encode_rune r) \<and>
            rune_start ((s @ encode_rune r) ! (length (s @ encode_rune r) - k))) [2, 3, 4] =
         Some (length (encode_rune r))"
proof -
  have nth: "(s @ xs) ! (length s + length xs - k) = xs ! (length xs - k)" if "k \<le> length xs" for k and xs :: string
    using that by (metis Nat.add_diff_assoc nth_append_length_plus)
  have cont: "\<not> rune_start (char_of (0x80 + n mod 0x40))" for n :: nat
    using mod_64_le [of n] by (simp add: rune_start_def byte_char_of)
  consider "r < 0x800" | "0x800 \<le> r" "r < 0x10000" | "0x10000 \<le> r" "r \<le> 0x10FFFF"
    using assms unfolding valid_rune_def by linarith
  then show ?thesis
  proof cases
    case 1
    with assms have enc: "encode_rune r = [char_of (0xC0 + r div 0x40), char_of (0x80 + r mod 0x40)]"
      by (auto simp: encode_rune_def Let_def valid_rune_def)
    have "rune_start (char_of (0xC0 + r div 0x40))"
      using 1 by (simp add: rune_start_def byte_char_of)
    then show ?thesis by (simp add: enc nth)
  next
    case 2
    with assms have enc: "encode_rune r =
        [char_of (0xE0 + r div 0x1000), char_of (0x80 + r div 0x40 mod 0x40), char_of (0x80 + r mod 0x40)]"
      by (auto simp: encode_rune_def Let_def valid_rune_def)
    have "r div 0x1000 < 0x10" using 2 by auto
    then have "rune_start (char_of (0xE0 + r div 0x1000))" by (simp add: rune_start_def byte_char_of)
    then show ?thesis
      using nth [of 2 "encode_rune r"] nth [of 3 "encode_rune r"] cont [of "r div 0x40"] by (simp add: enc)
  next
    case 3
    with assms have enc: "encode_rune r =
        [char_of (0xF0 + r div 0x40000), char_of (0x80 + r div 0x1000 mod 0x40),
         char_of (0x80 + r div 0x40 mod 0x40), char_of (0x80 + r mod 0x40)]"
      by (auto simp: encode_rune_def Let_def valid_rune_def)
    have "r div 0x40000 < 0x5" using 3 by auto
    then have "rune_start (char_of (0xF0 + r div 0x40000))" by (simp add: rune_start_def byte_char_of)
    then show ?thesis
      using nth [of 2 "encode_rune r"] nth [of 3 "encode_rune r"] nth [of 4 "encode_rune r"]
        cont [of "r div 0x40"] cont [of "r div 0x1000"] by (simp add: enc)
  qed
qed

lemma decode_last_encode:
  assumes "valid_rune r"
  shows "decode_last_rune (s @ encode_rune r) = (r, length (encode_rune r))"
proof (cases "r < 0x80")
  case True
  then show ?thesis by (simp add: encode_rune_ascii decode_last_rune_ascii byte_char_of)
next
  case False
  then have "0x80 \<le> byte (last (s @ encode_rune r))" using last_byte_multi assms by simp
  moreover have "find (\<lambda>k. k \<le> length (s @ encode_rune r) \<and>
            rune_start ((s @ encode_rune r) ! (length (s @ encode_rune r) - k))) [2, 3, 4] =
         Some (length (encode_rune r))"
    using start_bytes_multi assms False by simp
  moreover have "decode_rune (drop (length (s @ encode_rune r) - length (encode_rune r)) (s @ encode_rune r))
      = (r, length (encode_rune r))"
    using decode_encode [OF assms, of "[]"] by simp
  ultimately show ?thesis unfolding decode_last_rune_def by simp
qed

lemma trim_left_encode:
  "list_all valid_rune rs \<Longrightarrow> trim_left_func f (encode_runes rs) = encode_runes (dropWhile f rs)"
  by (induction rs) (simp, subst trim_left_func.simps, simp add: encode_runes_Cons decode_encode)

definition drop_end :: "(rune \<Rightarrow> bool) \<Rightarrow> rune list \<Rightarrow> rune list" where
  "drop_end f rs = rev (dropWhile f (rev rs))"

lemma drop_end_simps [simp]: "drop_end f [] = []" "drop_end f (rs @ [r]) = (if f r then drop_end f rs else rs @ [r])"
  by (simp_all add: drop_end_def)

lemma trim_right_encode:
  "list_all valid_rune rs \<Longrightarrow> trim_right_func f (encode_runes rs) = encode_runes (drop_end f rs)"
proof (induction rs rule: rev_induct)
  case Nil
  then show ?case by simp
next
  case (snoc r rs)
  then show ?case
    by (subst trim_right_func.simps) (simp add: encode_runes_append encode_runes_Cons decode_last_encode)
qed

lemma drop_end_prefix: "\<exists>us. rs = drop_end f rs @ us \<and> list_all f us"
  using takeWhile_dropWhile_id [of f "rev rs"] set_takeWhileD [of _ f "rev rs"]
  by (intro exI [of _ "rev (takeWhile f (rev rs))"]) (metis drop_end_def list_all_iff rev_append rev_rev_ident set_rev)

end
