(* ===== verification/Stream_Text.thy ===== *)
theory Stream_Text
  imports Go_Scan
begin

text \<open>
  The interface of the incremental text parsers (utils/streamparser/stream\_text.go). A parser is fed
  chunks of streamed text and hands out visible text and extracted payloads; at the end it is flushed.

  The locale states what the interface promises: for every state there is an output still to be
  produced on a given remaining text, each push hands out a part of it, and flushing hands out the rest.
  Inside the locale it follows that the total output depends on the text alone, not on its division
  into chunks. A push may fail to return, which is the value \<open>None\<close>. Payloads are compared up to
  the function \<open>norm\<close>, for parsers that may hand out one piece of text in several payloads, and chunks
  may be restricted by \<open>ok\<close>, for parsers that need each chunk to be valid UTF-8.
\<close>

record 'x StreamTextChunk =
  VisibleText :: string
  Extracted :: "'x list"

definition empty_stream_chunk :: "'x StreamTextChunk" where
  "empty_stream_chunk = \<lparr>VisibleText = [], Extracted = []\<rparr>"

definition StreamTextChunk_IsEmpty :: "'x StreamTextChunk \<Rightarrow> bool" where
  "StreamTextChunk_IsEmpty c \<longleftrightarrow> VisibleText c = [] \<and> Extracted c = []"

text \<open>Accumulating one output after another, as the callers of the parsers do.\<close>

definition chunk_append :: "'x StreamTextChunk \<Rightarrow> 'x StreamTextChunk \<Rightarrow> 'x StreamTextChunk" where
  "chunk_append c d = \<lparr>VisibleText = VisibleText c @ VisibleText d, Extracted = Extracted c @ Extracted d\<rparr>"

lemma chunk_append_sel [simp]:
  "VisibleText (chunk_append c d) = VisibleText c @ VisibleText d"
  "Extracted (chunk_append c d) = Extracted c @ Extracted d"
  by (simp_all add: chunk_append_def)

lemma empty_stream_chunk_sel [simp]: "VisibleText empty_stream_chunk = []" "Extracted empty_stream_chunk = []"
  by (simp_all add: empty_stream_chunk_def)

lemma chunk_append_empty [simp]: "chunk_append empty_stream_chunk c = c" "chunk_append c empty_stream_chunk = c"
  by (simp_all add: chunk_append_def)

lemma chunk_append_assoc: "chunk_append (chunk_append a b) c = chunk_append a (chunk_append b c)"
  by (simp add: chunk_append_def)

fun push_all :: "('s \<Rightarrow> string \<Rightarrow> ('x StreamTextChunk \<times> 's) option) \<Rightarrow> 's \<Rightarrow> string list
    \<Rightarrow> ('x StreamTextChunk \<times> 's) option" where
  "push_all push s [] = Some (empty_stream_chunk, s)"
| "push_all push s (t # ts) =
     Option.bind (push s t) (\<lambda>(c, s').
       map_option (\<lambda>(d, s''). (chunk_append c d, s'')) (push_all push s' ts))"

definition feed :: "('s \<Rightarrow> string \<Rightarrow> ('x StreamTextChunk \<times> 's) option) \<Rightarrow> ('s \<Rightarrow> 'x StreamTextChunk \<times> 's)
    \<Rightarrow> 's \<Rightarrow> string list \<Rightarrow> 'x StreamTextChunk option" where
  "feed push finish s ts = map_option (\<lambda>(c, s'). chunk_append c (fst (finish s'))) (push_all push s ts)"

locale stream_text_parser =
  fixes push :: "'s \<Rightarrow> string \<Rightarrow> ('x StreamTextChunk \<times> 's) option"
    and finish :: "'s \<Rightarrow> 'x StreamTextChunk \<times> 's"
    and inv :: "'s \<Rightarrow> bool"
    and meaning :: "'s \<Rightarrow> string \<Rightarrow> 'x StreamTextChunk"
    and norm :: "'x list \<Rightarrow> 'x list"
    and ok :: "string \<Rightarrow> bool"
  assumes push_meaning:
      "inv s \<Longrightarrow> ok t \<Longrightarrow>
       \<exists>c s'. push s t = Some (c, s') \<and> inv s' \<and>
         (\<forall>rest. ok rest \<longrightarrow>
            VisibleText (meaning s (t @ rest)) = VisibleText c @ VisibleText (meaning s' rest) \<and>
            norm (Extracted (meaning s (t @ rest))) = norm (Extracted c @ Extracted (meaning s' rest)))"
    and finish_meaning:
      "inv s \<Longrightarrow> VisibleText (fst (finish s)) = VisibleText (meaning s []) \<and>
         norm (Extracted (fst (finish s))) = norm (Extracted (meaning s []))"
    and ok_Nil: "ok []"
    and ok_append: "ok s' \<Longrightarrow> ok t' \<Longrightarrow> ok (s' @ t')"
    and norm_right: "norm (xs @ norm ys) = norm (xs @ ys)"
begin

lemma norm_append_cong: "norm ys = norm zs \<Longrightarrow> norm (xs @ ys) = norm (xs @ zs)"
  by (metis norm_right)

lemma push_all_meaning:
  "inv s \<Longrightarrow> list_all ok ts \<Longrightarrow>
   \<exists>c s'. push_all push s ts = Some (c, s') \<and> inv s' \<and>
     (\<forall>rest. ok rest \<longrightarrow>
        VisibleText (meaning s (concat ts @ rest)) = VisibleText c @ VisibleText (meaning s' rest) \<and>
        norm (Extracted (meaning s (concat ts @ rest))) = norm (Extracted c @ Extracted (meaning s' rest)))"
proof (induction ts arbitrary: s)
  case Nil
  then show ?case by simp
next
  case (Cons t ts)
  then obtain c s' where c: "push s t = Some (c, s')" "inv s'"
    and mc: "\<And>rest. ok rest \<Longrightarrow>
        VisibleText (meaning s (t @ rest)) = VisibleText c @ VisibleText (meaning s' rest) \<and>
        norm (Extracted (meaning s (t @ rest))) = norm (Extracted c @ Extracted (meaning s' rest))"
    using push_meaning [of s t] by auto
  from Cons.IH [OF c(2)] Cons.prems obtain d s'' where d: "push_all push s' ts = Some (d, s'')" "inv s''"
    and md: "\<And>rest. ok rest \<Longrightarrow>
        VisibleText (meaning s' (concat ts @ rest)) = VisibleText d @ VisibleText (meaning s'' rest) \<and>
        norm (Extracted (meaning s' (concat ts @ rest))) = norm (Extracted d @ Extracted (meaning s'' rest))"
    by auto
  have "ok (concat ts @ rest)" if "ok rest" for rest
    using Cons.prems(2) that by (induction ts) (auto intro: ok_append)
  moreover have "norm (Extracted c @ Extracted (meaning s' (concat ts @ rest))) =
      norm (Extracted c @ Extracted d @ Extracted (meaning s'' rest))" if "ok rest" for rest
    using md [OF that] norm_append_cong by blast
  ultimately show ?case using c d mc md by simp
qed

text \<open>The total output is a function of the streamed text.\<close>

lemma feed_meaning:
  assumes "inv s" and "list_all ok ts"
  shows "\<exists>c. feed push finish s ts = Some c \<and> VisibleText c = VisibleText (meaning s (concat ts)) \<and>
           norm (Extracted c) = norm (Extracted (meaning s (concat ts)))"
proof -
  from push_all_meaning [OF assms] obtain c s' where c: "push_all push s ts = Some (c, s')" "inv s'"
    and m: "\<And>rest. ok rest \<Longrightarrow>
        VisibleText (meaning s (concat ts @ rest)) = VisibleText c @ VisibleText (meaning s' rest) \<and>
        norm (Extracted (meaning s (concat ts @ rest))) = norm (Extracted c @ Extracted (meaning s' rest))"
    by auto
  have "norm (Extracted c @ Extracted (fst (finish s'))) = norm (Extracted c @ Extracted (meaning s' []))"
    using finish_meaning [OF c(2)] norm_append_cong by blast
  then show ?thesis
    using c m [OF ok_Nil] finish_meaning [OF c(2)] by (simp add: feed_def)
qed

end

end
