(* ===== verification/Stream_Inline.thy ===== *)
theory Stream_Inline
  imports Stream_Text
begin

text \<open>
  The parser for hidden inline tags (utils/streamparser/inline\_hidden\_tag.go) and the citation parser
  on top of it (citation.go). A reference definition \<open>hide\<close> reads the whole text once, from left to
  right; the streaming parser is proved to compute it for every division of the text into chunks, for
  delimiters none of which contains another opening delimiter. Since the loop of PushStr ends only
  if the delimiters are not empty, it is a partial function, and that it returns is part of
  the results.
\<close>

section \<open>Data\<close>

record 't ExtractedInlineTag =
  extractedTag :: 't
  extractedContent :: string

record 't InlineTagSpec =
  specTag :: 't
  specOpen :: string
  specClose :: string

record 't activeTag =
  activeTag :: 't
  activeClose :: string
  activeContent :: string

record 't InlineHiddenTagParser =
  ihSpecs :: "'t InlineTagSpec list"
  ihPending :: string
  ihActive :: "'t activeTag option"

section \<open>Operations\<close>

text \<open>The constructor panics (\<open>None\<close>) without specs or with an empty delimiter.\<close>

definition NewInlineHiddenTagParser :: "'t InlineTagSpec list \<Rightarrow> 't InlineHiddenTagParser option" where
  "NewInlineHiddenTagParser specs =
     (if specs = [] then None
      else if \<exists>spec \<in> set specs. specOpen spec = [] \<or> specClose spec = [] then None
      else Some \<lparr>ihSpecs = specs, ihPending = [], ihActive = None\<rparr>)"

text \<open>An index is a character boundary when the byte there is not a continuation byte.\<close>

definition isCharBoundary :: "string \<Rightarrow> nat \<Rightarrow> bool" where
  "isCharBoundary s i =
     (if i = 0 \<or> i = length s then True else if length s < i then False else rune_start (s ! i))"

definition longestSuffixPrefixLen :: "string \<Rightarrow> string \<Rightarrow> nat" where
  "longestSuffixPrefixLen s needle =
     (case find (\<lambda>k. isCharBoundary needle k \<and> HasSuffix s (take k needle))
             (rev [1 ..< Suc (min (length s) (length needle - 1))]) of
        Some k \<Rightarrow> k | None \<Rightarrow> 0)"

text \<open>One iteration of the loop of findNextOpen: position, length and index of the best opener so far.\<close>

definition better_open :: "string \<Rightarrow> nat \<times> 't InlineTagSpec \<Rightarrow> (nat \<times> nat \<times> nat) option \<Rightarrow> (nat \<times> nat \<times> nat) option" where
  "better_open pending = (\<lambda>(idx, spec) best.
     case Index pending (specOpen spec) of
       None \<Rightarrow> best
     | Some at \<Rightarrow>
         let candLen = length (specOpen spec) in
         (case best of
            None \<Rightarrow> Some (at, candLen, idx)
          | Some (bestPos, bestLen, bestIdx) \<Rightarrow>
              if at < bestPos \<or> (at = bestPos \<and> bestLen < candLen)
                 \<or> (at = bestPos \<and> candLen = bestLen \<and> idx < bestIdx)
              then Some (at, candLen, idx) else best))"

definition findNextOpen :: "'t InlineTagSpec list \<Rightarrow> string \<Rightarrow> (nat \<times> nat) option" where
  "findNextOpen specs pending =
     map_option (\<lambda>(pos, len, idx). (pos, idx)) (fold (better_open pending) (enumerate 0 specs) None)"

definition maxOpenPrefixSuffixLen :: "'t InlineTagSpec list \<Rightarrow> string \<Rightarrow> nat" where
  "maxOpenPrefixSuffixLen specs pending =
     fold (\<lambda>spec m. let l = longestSuffixPrefixLen pending (specOpen spec) in if m < l then l else m) specs 0"

definition drainVisibleToSuffixMatch :: "string \<Rightarrow> 'x StreamTextChunk \<Rightarrow> nat \<Rightarrow> string \<times> 'x StreamTextChunk" where
  "drainVisibleToSuffixMatch pending out keep =
     (let n = length pending - keep in
      if n = 0 then (pending, out)
      else (drop n pending, out\<lparr>VisibleText := VisibleText out @ take n pending\<rparr>))"

text \<open>The loop of PushStr.\<close>

partial_function (option) push_loop ::
  "'t InlineTagSpec list \<Rightarrow> string \<Rightarrow> 't activeTag option \<Rightarrow> 't ExtractedInlineTag StreamTextChunk
   \<Rightarrow> (string \<times> 't activeTag option \<times> 't ExtractedInlineTag StreamTextChunk) option" where
  [code]: "push_loop specs pending active out =
     (case active of
        Some a \<Rightarrow>
          (case Index pending (activeClose a) of
             Some closeIdx \<Rightarrow>
               push_loop specs (drop (closeIdx + length (activeClose a)) pending) None
                 (out\<lparr>Extracted := Extracted out
                    @ [\<lparr>extractedTag = activeTag a, extractedContent = activeContent a @ take closeIdx pending\<rparr>]\<rparr>)
           | None \<Rightarrow>
               (let n = length pending - longestSuffixPrefixLen pending (activeClose a) in
                if 0 < n
                then Some (drop n pending, Some (a\<lparr>activeContent := activeContent a @ take n pending\<rparr>), out)
                else Some (pending, Some a, out)))
      | None \<Rightarrow>
          (case findNextOpen specs pending of
             Some (openIdx, specIdx) \<Rightarrow>
               (let spec = specs ! specIdx in
                push_loop specs (drop (openIdx + length (specOpen spec)) pending)
                  (Some \<lparr>activeTag = specTag spec, activeClose = specClose spec, activeContent = []\<rparr>)
                  (out\<lparr>VisibleText := VisibleText out @ take openIdx pending\<rparr>))
           | None \<Rightarrow>
               (case drainVisibleToSuffixMatch pending out (maxOpenPrefixSuffixLen specs pending) of
                  (pending', out') \<Rightarrow> Some (pending', None, out'))))"

definition InlineHiddenTagParser_PushStr :: "'t InlineHiddenTagParser \<Rightarrow> string
    \<Rightarrow> ('t ExtractedInlineTag StreamTextChunk \<times> 't InlineHiddenTagParser) option" where
  "InlineHiddenTagParser_PushStr p chunk =
     map_option (\<lambda>(pending, active, out). (out, p\<lparr>ihPending := pending, ihActive := active\<rparr>))
       (push_loop (ihSpecs p) (ihPending p @ chunk) (ihActive p) empty_stream_chunk)"

definition InlineHiddenTagParser_Finish :: "'t InlineHiddenTagParser
    \<Rightarrow> 't ExtractedInlineTag StreamTextChunk \<times> 't InlineHiddenTagParser" where
  "InlineHiddenTagParser_Finish p =
     (case ihActive p of
        Some a \<Rightarrow>
          (\<lparr>VisibleText = [],
            Extracted = [\<lparr>extractedTag = activeTag a, extractedContent = activeContent a @ ihPending p\<rparr>]\<rparr>,
           p\<lparr>ihPending := [], ihActive := None\<rparr>)
      | None \<Rightarrow> (\<lparr>VisibleText = ihPending p, Extracted = []\<rparr>, p\<lparr>ihPending := []\<rparr>))"

section \<open>Reference: one pass over the whole text\<close>

text \<open>
  Outside a tag a byte is visible unless an opening delimiter starts there; inside, a byte belongs to
  the payload unless the closing delimiter starts there; an open tag is closed by the end of the text.
\<close>

definition visible :: "string \<Rightarrow> 'x StreamTextChunk" where
  "visible s = \<lparr>VisibleText = s, Extracted = []\<rparr>"

definition payload :: "'x \<Rightarrow> 'x StreamTextChunk" where
  "payload x = \<lparr>VisibleText = [], Extracted = [x]\<rparr>"

definition opener_at :: "'t InlineTagSpec list \<Rightarrow> string \<Rightarrow> 't InlineTagSpec option" where
  "opener_at specs text = find (\<lambda>spec. HasPrefix text (specOpen spec)) specs"

function hide :: "'t InlineTagSpec list \<Rightarrow> 't activeTag option \<Rightarrow> string \<Rightarrow> 't ExtractedInlineTag StreamTextChunk" where
  "hide specs None [] = empty_stream_chunk"
| "hide specs (Some a) [] = payload \<lparr>extractedTag = activeTag a, extractedContent = activeContent a\<rparr>"
| "hide specs None (c # s) =
     (case opener_at specs (c # s) of
        Some spec \<Rightarrow>
          hide specs (Some \<lparr>activeTag = specTag spec, activeClose = specClose spec, activeContent = []\<rparr>)
            (drop (length (specOpen spec) - 1) s)
      | None \<Rightarrow> chunk_append (visible [c]) (hide specs None s))"
| "hide specs (Some a) (c # s) =
     (if HasPrefix (c # s) (activeClose a)
      then chunk_append (payload \<lparr>extractedTag = activeTag a, extractedContent = activeContent a\<rparr>)
             (hide specs None (drop (length (activeClose a) - 1) s))
      else hide specs (Some (a\<lparr>activeContent := activeContent a @ [c]\<rparr>)) s)"
  by pat_completeness auto
termination
  by (relation "measure (\<lambda>(specs, a, s). length s)") auto


section \<open>Delimiters the streaming parser can handle\<close>

text \<open>
  Delimiters are not empty and consist of bytes that start characters, and no opening delimiter occurs
  inside another one.
\<close>

definition good_delim :: "string \<Rightarrow> bool" where
  "good_delim d \<longleftrightarrow> d \<noteq> [] \<and> list_all rune_start d"

definition good_specs :: "'t InlineTagSpec list \<Rightarrow> bool" where
  "good_specs specs \<longleftrightarrow>
     specs \<noteq> [] \<and> (\<forall>spec \<in> set specs. good_delim (specOpen spec) \<and> good_delim (specClose spec)) \<and>
     (\<forall>spec \<in> set specs. \<forall>spec' \<in> set specs.
        Contains (specOpen spec') (specOpen spec) \<longrightarrow> specOpen spec = specOpen spec')"

definition good_active :: "'t activeTag option \<Rightarrow> bool" where
  "good_active act \<longleftrightarrow> (\<forall>a. act = Some a \<longrightarrow> good_delim (activeClose a))"

definition settled :: "'t InlineTagSpec list \<Rightarrow> 't activeTag option \<Rightarrow> string \<Rightarrow> bool" where
  "settled specs act pending \<longleftrightarrow>
     (case act of
        None \<Rightarrow> (\<forall>spec \<in> set specs. Index pending (specOpen spec) = None)
      | Some a \<Rightarrow> Index pending (activeClose a) = None)"

lemma good_delimD: "good_delim d \<Longrightarrow> d \<noteq> []"
  by (simp add: good_delim_def)

lemma good_specsD:
  assumes "good_specs specs" and "spec \<in> set specs"
  shows "good_delim (specOpen spec)" and "good_delim (specClose spec)"
    and "spec' \<in> set specs \<Longrightarrow> Contains (specOpen spec') (specOpen spec) \<Longrightarrow> specOpen spec = specOpen spec'"
  using assms unfolding good_specs_def by blast+

section \<open>The longest suffix that may still grow into a delimiter\<close>

lemma longestSuffixPrefixLen_le: "longestSuffixPrefixLen s d \<le> length s"
  by (auto simp: longestSuffixPrefixLen_def split: option.splits dest!: find_SomeD)

lemma find_rev_upt_None:
  "find P (rev [1 ..< Suc m]) = None \<longleftrightarrow> (\<forall>k. 1 \<le> k \<and> k \<le> m \<longrightarrow> \<not> P k)"
  by (auto simp: find_None_iff)

lemma find_rev_upt_max: "find P (rev [1 ..< Suc m]) = Some k \<Longrightarrow> l \<le> m \<Longrightarrow> k < l \<Longrightarrow> \<not> P l"
proof (induction m)
  case 0
  then show ?case by simp
next
  case (Suc m)
  then show ?case by (auto simp: le_Suc_eq split: if_splits)
qed

lemma longestSuffixPrefixLen_max:
  assumes "good_delim d" and "HasSuffix s (take l d)" and "l < length d" and "l \<le> length s"
  shows "l \<le> longestSuffixPrefixLen s d"
proof (rule ccontr)
  assume less: "\<not> l \<le> longestSuffixPrefixLen s d"
  have "isCharBoundary d l" using assms(1,3) by (auto simp: isCharBoundary_def good_delim_def list_all_length)
  then have P: "isCharBoundary d l \<and> HasSuffix s (take l d)" using assms(2) by blast
  have l: "l \<le> min (length s) (length d - 1)" using assms(3,4) by simp
  have "0 < l" using less by simp
  show False
  proof (cases "find (\<lambda>k. isCharBoundary d k \<and> HasSuffix s (take k d)) (rev [1 ..< Suc (min (length s) (length d - 1))])")
    case None
    then show False using P l \<open>0 < l\<close> unfolding find_rev_upt_None by auto
  next
    case (Some k)
    then have "longestSuffixPrefixLen s d = k" by (simp add: longestSuffixPrefixLen_def)
    with less find_rev_upt_max [OF Some l] P show False by simp
  qed
qed

lemma fold_max_ge:
  fixes f :: "'a \<Rightarrow> nat"
  shows "m \<le> fold (\<lambda>x m. let l = f x in if m < l then l else m) xs m"
    and "x \<in> set xs \<Longrightarrow> f x \<le> fold (\<lambda>x m. let l = f x in if m < l then l else m) xs m"
proof (induction xs arbitrary: m)
  case (Cons y ys)
  {
    case 1
    show ?case using Cons(1) [of "max m (f y)"] by (auto simp: max_def Let_def split: if_splits)
  next
    case 2
    have "f y \<le> fold (\<lambda>x m. let l = f x in if m < l then l else m) ys (if m < f y then f y else m)"
      using Cons(1) [of "if m < f y then f y else m"] by (auto split: if_splits)
    with 2 Cons(2) show ?case by (auto simp: Let_def)
  }
qed simp_all

lemma maxOpenPrefixSuffixLen_ge:
  "spec \<in> set specs \<Longrightarrow> longestSuffixPrefixLen s (specOpen spec) \<le> maxOpenPrefixSuffixLen specs s"
  unfolding maxOpenPrefixSuffixLen_def by (rule fold_max_ge)

lemma HasPrefix_beyond: "HasPrefix (a @ b) d \<Longrightarrow> length a < length d \<Longrightarrow> \<exists>y. d = a @ y"
  by (auto simp: HasPrefix_iff append_eq_append_conv2)

text \<open>A delimiter that starts in the buffer but does not end there starts in the kept suffix.\<close>

lemma crossing_delim_kept:
  assumes "good_delim d" and "HasPrefix (drop j (p @ rest)) d" and "\<not> HasPrefix (drop j p) d" and "j \<le> length p"
  shows "length p - j \<le> longestSuffixPrefixLen p d" and "length p - j < length d"
proof -
  have drop: "drop j (p @ rest) = drop j p @ rest" using assms(4) by simp
  then show len: "length p - j < length d"
    using assms(2,3) HasPrefix_append_long [of d "drop j p" rest] by fastforce
  have "take (length p - j) d = drop j p"
    using HasPrefix_beyond [of "drop j p" rest d] assms(2) len unfolding drop by auto
  then have "HasSuffix p (take (length p - j) d)"
    by (metis HasSuffix_iff append_take_drop_id)
  then show "length p - j \<le> longestSuffixPrefixLen p d"
    using longestSuffixPrefixLen_max [OF assms(1)] len by simp
qed


section \<open>The best opener\<close>

definition best_inv :: "'t InlineTagSpec list \<Rightarrow> string \<Rightarrow> (nat \<times> nat \<times> nat) option \<Rightarrow> bool" where
  "best_inv specs p best \<longleftrightarrow>
     (case best of
        None \<Rightarrow> \<forall>spec \<in> set specs. Index p (specOpen spec) = None
      | Some (pos, len, idx) \<Rightarrow>
          idx < length specs \<and> Index p (specOpen (specs ! idx)) = Some pos \<and> len = length (specOpen (specs ! idx)) \<and>
          (\<forall>j < length specs. \<forall>q. Index p (specOpen (specs ! j)) = Some q \<longrightarrow>
             pos < q \<or> pos = q \<and> (length (specOpen (specs ! j)) < len \<or> length (specOpen (specs ! j)) = len \<and> idx \<le> j)))"

lemma better_open_inv:
  assumes "best_inv specs p best"
  shows "best_inv (specs @ [spec]) p (better_open p (length specs, spec) best)"
proof (cases "Index p (specOpen spec)")
  case None
  then show ?thesis using assms
    by (auto simp: best_inv_def better_open_def nth_append less_Suc_eq split: option.splits)
next
  case (Some at)
  show ?thesis
  proof (cases best)
    case None
    with Some assms show ?thesis
      by (auto simp: best_inv_def better_open_def Let_def nth_append less_Suc_eq)
  next
    case (Some b)
    obtain pos len idx where "b = (pos, len, idx)" by (cases b)
    with Some \<open>Index p (specOpen spec) = Some at\<close> assms show ?thesis
      by (fastforce simp: best_inv_def better_open_def Let_def nth_append less_Suc_eq)
  qed
qed

lemma best_open_inv: "best_inv specs p (fold (better_open p) (enumerate 0 specs) None)"
proof (induction specs rule: rev_induct)
  case Nil
  then show ?case by (simp add: best_inv_def)
next
  case (snoc spec specs)
  then show ?case using better_open_inv by (simp add: enumerate_append_eq)
qed

lemma findNextOpen_None_iff:
  "findNextOpen specs p = None \<longleftrightarrow> (\<forall>spec \<in> set specs. Index p (specOpen spec) = None)"
  using best_open_inv [of specs p]
  by (fastforce simp: findNextOpen_def best_inv_def split: option.splits)

lemma findNextOpen_SomeD:
  assumes "findNextOpen specs p = Some (pos, idx)"
  shows "idx < length specs" and "Index p (specOpen (specs ! idx)) = Some pos"
    and "j < length specs \<Longrightarrow> Index p (specOpen (specs ! j)) = Some q \<Longrightarrow>
      pos < q \<or> pos = q \<and> (length (specOpen (specs ! j)) < length (specOpen (specs ! idx)) \<or>
         length (specOpen (specs ! j)) = length (specOpen (specs ! idx)) \<and> idx \<le> j)"
  using assms best_open_inv [of specs p]
  by (auto simp: findNextOpen_def best_inv_def split: option.splits)

section \<open>Reading past text without delimiters\<close>

lemma chunk_append_visible [simp]: "chunk_append (visible s) (visible t) = visible (s @ t)"
  by (simp add: chunk_append_def visible_def)

lemma visible_Nil [simp]: "visible [] = empty_stream_chunk"
  by (simp add: visible_def empty_stream_chunk_def)

lemma hide_skip_visible:
  "(\<And>j. j < k \<Longrightarrow> opener_at specs (drop j s) = None) \<Longrightarrow> k \<le> length s \<Longrightarrow>
   hide specs None s = chunk_append (visible (take k s)) (hide specs None (drop k s))"
proof (induction k arbitrary: s)
  case 0
  then show ?case by simp
next
  case (Suc k)
  then obtain c s' where s: "s = c # s'" by (cases s) auto
  have "opener_at specs (drop j s') = None" if "j < k" for j
    using Suc.prems(1) [of "Suc j"] that s by simp
  then have "hide specs None s' = chunk_append (visible (take k s')) (hide specs None (drop k s'))"
    using Suc.IH [of s'] Suc.prems(2) s by simp
  moreover have "opener_at specs (c # s') = None" using Suc.prems(1) [of 0] s by simp
  ultimately show ?case
    by (simp add: s chunk_append_assoc [symmetric])
qed

lemma hide_skip_content:
  "(\<And>j. j < k \<Longrightarrow> \<not> HasPrefix (drop j s) (activeClose a)) \<Longrightarrow> k \<le> length s \<Longrightarrow>
   hide specs (Some a) s = hide specs (Some (a\<lparr>activeContent := activeContent a @ take k s\<rparr>)) (drop k s)"
proof (induction k arbitrary: s a)
  case 0
  then show ?case by simp
next
  case (Suc k)
  then obtain c s' where s: "s = c # s'" by (cases s) auto
  let ?a = "a\<lparr>activeContent := activeContent a @ [c]\<rparr>"
  have "\<not> HasPrefix (drop j s') (activeClose ?a)" if "j < k" for j
    using Suc.prems(1) [of "Suc j"] that s by simp
  then have "hide specs (Some ?a) s' = hide specs (Some (?a\<lparr>activeContent := activeContent ?a @ take k s'\<rparr>)) (drop k s')"
    using Suc.IH [of s' ?a] Suc.prems(2) s by simp
  moreover have "\<not> HasPrefix (c # s') (activeClose a)" using Suc.prems(1) [of 0] s by simp
  ultimately show ?case by (simp add: s)
qed

lemma hide_close:
  "activeClose a \<noteq> [] \<Longrightarrow> hide specs (Some a) (activeClose a @ s) =
   chunk_append (payload \<lparr>extractedTag = activeTag a, extractedContent = activeContent a\<rparr>) (hide specs None s)"
  by (cases "activeClose a") (auto simp: HasPrefix_iff)

lemma hide_open:
  "opener_at specs (specOpen spec @ s) = Some spec \<Longrightarrow> specOpen spec \<noteq> [] \<Longrightarrow>
   hide specs None (specOpen spec @ s) =
   hide specs (Some \<lparr>activeTag = specTag spec, activeClose = specClose spec, activeContent = []\<rparr>) s"
  by (cases "specOpen spec") auto


section \<open>Openers in a buffer that may be continued\<close>

lemma opener_at_None_iff: "opener_at specs s = None \<longleftrightarrow> (\<forall>spec \<in> set specs. \<not> HasPrefix s (specOpen spec))"
  by (auto simp: opener_at_def find_None_iff)

text \<open>An opener that starts no later than one found in the buffer ends in the buffer too.\<close>

lemma opener_ends_in_buffer:
  assumes good: "good_specs specs" "spec \<in> set specs" "spec' \<in> set specs"
    and found: "HasPrefix (drop pos p) (specOpen spec)" "pos \<le> length p"
    and "j \<le> pos" and "HasPrefix (drop j (p @ rest)) (specOpen spec')"
  shows "HasPrefix (drop j p) (specOpen spec')"
proof (rule ccontr)
  let ?o = "specOpen spec" and ?o' = "specOpen spec'"
  assume not: "\<not> HasPrefix (drop j p) ?o'"
  have j: "j \<le> length p" using assms(5,6) by simp
  have len: "length p - j < length ?o'"
    using crossing_delim_kept(2) [OF good_specsD(1) [OF good(1,3)] assms(7) not j] .
  have drop: "drop j (p @ rest) = drop j p @ rest" using j by simp
  obtain y where y: "?o' = drop j p @ y"
    using HasPrefix_beyond [of "drop j p" rest ?o'] assms(7) len unfolding drop by auto
  obtain x where x: "drop pos p = ?o @ x" using found(1) by (auto simp: HasPrefix_iff)
  obtain u where u: "drop j p = u @ drop pos p"
    using assms(6) by (metis append_take_drop_id drop_drop le_add_diff_inverse2)
  have "?o' = u @ ?o @ (x @ y)" unfolding y u x by simp
  then have "Contains ?o' ?o" unfolding Contains_iff by blast
  then have "?o = ?o'" using good_specsD(3) [OF good] by blast
  moreover have "length ?o \<le> length p - pos" using HasPrefix_length [OF found(1)] by simp
  ultimately show False using len assms(6) by simp
qed

lemma no_opener_before:
  assumes "good_specs specs" and "findNextOpen specs p = Some (pos, idx)" and "j < pos"
  shows "opener_at specs (drop j (p @ rest)) = None"
proof (rule ccontr)
  note f = findNextOpen_SomeD [OF assms(2)]
  assume "opener_at specs (drop j (p @ rest)) \<noteq> None"
  then obtain spec' where s': "spec' \<in> set specs" "HasPrefix (drop j (p @ rest)) (specOpen spec')"
    by (auto simp: opener_at_None_iff)
  then obtain i where i: "i < length specs" "spec' = specs ! i" by (auto simp: in_set_conv_nth)
  have "HasPrefix (drop j p) (specOpen spec')"
    using opener_ends_in_buffer [OF assms(1) _ s'(1) _ _ _ s'(2), of "specs ! idx" pos] f(1,2) assms(3)
    by (auto simp: Index_Some_iff)
  moreover have "j < Suc (length p)" using assms(3) f(2) by (simp add: Index_Some_iff)
  ultimately have "Index p (specOpen spec') \<noteq> None" unfolding Index_None_iff by blast
  then obtain q where q: "Index p (specOpen spec') = Some q" by blast
  then have "q \<le> j" using \<open>HasPrefix (drop j p) (specOpen spec')\<close> by (meson Index_Some_iff not_le)
  with f(3) [OF i(1)] q i(2) assms(3) show False by fastforce
qed

lemma opener_at_found:
  assumes "good_specs specs" and "findNextOpen specs p = Some (pos, idx)"
  shows "opener_at specs (drop pos (p @ rest)) = Some (specs ! idx)"
proof -
  note f = findNextOpen_SomeD [OF assms(2)]
  have pos: "pos \<le> length p" "HasPrefix (drop pos p) (specOpen (specs ! idx))"
    using f(2) by (auto simp: Index_Some_iff)
  have same: "specOpen (specs ! j) = specOpen (specs ! idx)" and le: "idx \<le> j"
    if "j < length specs" "HasPrefix (drop pos (p @ rest)) (specOpen (specs ! j))" for j
  proof -
    have pre: "HasPrefix (drop pos p) (specOpen (specs ! j))"
      using opener_ends_in_buffer [OF assms(1) _ _ pos(2,1) order_refl that(2)] f(1) that(1) by simp
    with pos obtain x y where "specOpen (specs ! j) @ x = specOpen (specs ! idx) @ y"
      by (auto simp: HasPrefix_iff)
    then have "Contains (specOpen (specs ! idx)) (specOpen (specs ! j)) \<or> Contains (specOpen (specs ! j)) (specOpen (specs ! idx))"
      unfolding append_eq_append_conv2 Contains_iff by (metis append_Nil)
    then show same: "specOpen (specs ! j) = specOpen (specs ! idx)"
      using good_specsD(3) [OF assms(1)] that(1) f(1) by (metis nth_mem)
    show "idx \<le> j" using f(3) [OF that(1), of pos] f(2) same by simp
  qed
  have "HasPrefix (drop pos (p @ rest)) (specOpen (specs ! idx))"
    using pos by (simp add: HasPrefix_appendI)
  moreover have "\<not> HasPrefix (drop pos (p @ rest)) (specOpen (specs ! j))" if "j < idx" for j
    using le [of j] that f(1) by fastforce
  ultimately show ?thesis
    unfolding opener_at_def find_Some_iff using f(1) by blast
qed

lemma no_opener_drained:
  assumes "good_specs specs" and "findNextOpen specs p = None" and "j < length p - maxOpenPrefixSuffixLen specs p"
  shows "opener_at specs (drop j (p @ rest)) = None"
  unfolding opener_at_None_iff
proof (intro ballI notI)
  fix spec
  assume s: "spec \<in> set specs" "HasPrefix (drop j (p @ rest)) (specOpen spec)"
  have good: "good_delim (specOpen spec)" using good_specsD(1) [OF assms(1) s(1)] .
  have "\<not> HasPrefix (drop j p) (specOpen spec)"
    using assms(2) s(1) not_HasPrefix_drop_of_Index good_delimD [OF good] unfolding findNextOpen_None_iff by blast
  from crossing_delim_kept(1) [OF good s(2) this] assms(3) maxOpenPrefixSuffixLen_ge [OF s(1), of p]
  show False by linarith
qed

lemma no_close_before:
  assumes "good_delim d" and "Index p d = Some pos" and "j < pos"
  shows "\<not> HasPrefix (drop j (p @ rest)) d"
proof
  assume a: "HasPrefix (drop j (p @ rest)) d"
  have "\<not> HasPrefix (drop j p) d" using assms(2,3) by (auto simp: Index_Some_iff)
  from crossing_delim_kept(2) [OF assms(1) a this] Index_le [OF assms(2)] assms(3) show False by simp
qed

lemma no_close_drained:
  assumes "good_delim d" and "Index p d = None" and "j < length p - longestSuffixPrefixLen p d"
  shows "\<not> HasPrefix (drop j (p @ rest)) d"
proof
  assume a: "HasPrefix (drop j (p @ rest)) d"
  have "\<not> HasPrefix (drop j p) d" using not_HasPrefix_drop_of_Index [OF assms(2) good_delimD [OF assms(1)]] .
  from crossing_delim_kept(1) [OF assms(1) a this] assms(3) show False by linarith
qed

lemma Index_None_drop: "Index p d = None \<Longrightarrow> d \<noteq> [] \<Longrightarrow> Index (drop n p) d = None"
  using not_HasPrefix_drop_of_Index [of p d] by (auto simp: Index_None_iff)


section \<open>The loop computes the reference\<close>

lemma Index_rest_shorter: "Index p d = Some i \<Longrightarrow> d \<noteq> [] \<Longrightarrow> length (drop (i + length d) p) < length p"
  using Index_le [of p d i] by (cases d) auto

lemma Index_drop: "Index p d = Some i \<Longrightarrow> drop i (p @ rest) = d @ drop (i + length d) p @ rest"
  using Index_le [of p d i] Index_split [of p d i]
  by (metis add_leD1 append.assoc append_eq_conv_conj length_take min.absorb2)

lemma hide_through_close:
  assumes good: "good_delim (activeClose a)" and i: "Index p (activeClose a) = Some i"
  shows "hide specs (Some a) (p @ rest) =
    chunk_append (payload \<lparr>extractedTag = activeTag a, extractedContent = activeContent a @ take i p\<rparr>)
      (hide specs None (drop (i + length (activeClose a)) p @ rest))"
proof -
  let ?a = "a\<lparr>activeContent := activeContent a @ take i p\<rparr>"
  have "i \<le> length p" using Index_le [OF i] by simp
  then have "hide specs (Some a) (p @ rest) = hide specs (Some ?a) (drop i (p @ rest))"
    using hide_skip_content [of i "p @ rest" a specs] no_close_before [OF good i] by simp
  also have "\<dots> = hide specs (Some ?a) (activeClose ?a @ drop (i + length (activeClose a)) p @ rest)"
    unfolding Index_drop [OF i] by simp
  finally show ?thesis using hide_close [of ?a] good_delimD [OF good] by simp
qed

lemma hide_through_open:
  assumes good: "good_specs specs" and f: "findNextOpen specs p = Some (pos, idx)"
  shows "hide specs None (p @ rest) =
    chunk_append (visible (take pos p))
      (hide specs (Some \<lparr>activeTag = specTag (specs ! idx), activeClose = specClose (specs ! idx), activeContent = []\<rparr>)
        (drop (pos + length (specOpen (specs ! idx))) p @ rest))"
proof -
  note d = findNextOpen_SomeD [OF f]
  have "pos \<le> length p" using Index_le [OF d(2)] by simp
  then have "hide specs None (p @ rest) = chunk_append (visible (take pos p)) (hide specs None (drop pos (p @ rest)))"
    using hide_skip_visible [of pos specs "p @ rest"] no_opener_before [OF good f] by simp
  moreover have "specOpen (specs ! idx) \<noteq> []" using good_specsD(1) [OF good] good_delimD d(1) by simp
  ultimately show ?thesis
    using opener_at_found [OF good f, of rest] unfolding Index_drop [OF d(2)] by (simp add: hide_open)
qed

text \<open>
  What the loop guarantees from a buffer \<open>p\<close>: it returns, and the text still to come means the same to the
  old state as the output produced plus the meaning to the new state.
\<close>

definition loop_ok :: "'t InlineTagSpec list \<Rightarrow> string \<Rightarrow> 't activeTag option \<Rightarrow> 't ExtractedInlineTag StreamTextChunk \<Rightarrow> bool" where
  "loop_ok specs p act out \<longleftrightarrow>
     (\<exists>p' act' out'. push_loop specs p act out = Some (p', act', out') \<and> good_active act' \<and> settled specs act' p' \<and>
        (\<forall>rest. chunk_append out (hide specs act (p @ rest)) = chunk_append out' (hide specs act' (p' @ rest))))"

lemma loop_ok_step:
  assumes "loop_ok specs q act2 out2" and "push_loop specs p act out = push_loop specs q act2 out2"
    and "\<And>rest. chunk_append out (hide specs act (p @ rest)) = chunk_append out2 (hide specs act2 (q @ rest))"
  shows "loop_ok specs p act out"
  using assms unfolding loop_ok_def by presburger

lemma loop_ok_drain_content:
  assumes good: "good_delim (activeClose a)" and none: "Index p (activeClose a) = None"
  shows "loop_ok specs p (Some a) out"
proof -
  let ?n = "length p - longestSuffixPrefixLen p (activeClose a)"
  let ?a = "a\<lparr>activeContent := activeContent a @ take ?n p\<rparr>"
  have "push_loop specs p (Some a) out = Some (drop ?n p, Some ?a, out)"
    using none by (subst push_loop.simps) (auto simp: Let_def)
  moreover have "hide specs (Some a) (p @ rest) = hide specs (Some ?a) (drop ?n p @ rest)" for rest
    using hide_skip_content [of ?n "p @ rest" a specs] no_close_drained [OF good none] by simp
  ultimately show ?thesis
    using good Index_None_drop [OF none good_delimD [OF good]]
    by (simp add: loop_ok_def good_active_def settled_def)
qed

lemma loop_ok_drain_visible:
  assumes good: "good_specs specs" and none: "findNextOpen specs p = None"
  shows "loop_ok specs p None out"
proof -
  let ?n = "length p - maxOpenPrefixSuffixLen specs p"
  have "push_loop specs p None out = Some (drop ?n p, None, out\<lparr>VisibleText := VisibleText out @ take ?n p\<rparr>)"
    using none by (subst push_loop.simps) (auto simp: Let_def drainVisibleToSuffixMatch_def)
  moreover have "hide specs None (p @ rest) = chunk_append (visible (take ?n p)) (hide specs None (drop ?n p @ rest))" for rest
    using hide_skip_visible [of ?n specs "p @ rest"] no_opener_drained [OF good none] by simp
  moreover have "settled specs None (drop ?n p)"
    using none good_specsD(1) [OF good] Index_None_drop good_delimD
    unfolding findNextOpen_None_iff settled_def by fastforce
  ultimately show ?thesis by (simp add: loop_ok_def good_active_def chunk_append_def visible_def)
qed

lemma push_loop_hide:
  assumes "good_specs specs" and "good_active act"
  shows "loop_ok specs p act out"
  using assms(2)
proof (induction "length p" arbitrary: p act out rule: less_induct)
  case (less p act out)
  show ?case
  proof (cases act)
    case (Some a)
    then have good: "good_delim (activeClose a)" using less.prems by (simp add: good_active_def)
    show ?thesis
    proof (cases "Index p (activeClose a)")
      case (Some i)
      let ?p = "drop (i + length (activeClose a)) p"
      let ?out = "out\<lparr>Extracted := Extracted out @
        [\<lparr>extractedTag = activeTag a, extractedContent = activeContent a @ take i p\<rparr>]\<rparr>"
      have "loop_ok specs ?p None ?out"
        using less.hyps Index_rest_shorter [OF Some good_delimD [OF good]] by (simp add: good_active_def)
      moreover have "push_loop specs p act out = push_loop specs ?p None ?out"
        using \<open>act = Some a\<close> Some by (subst push_loop.simps) simp
      moreover have "chunk_append out (hide specs act (p @ rest)) = chunk_append ?out (hide specs None (?p @ rest))" for rest
        using \<open>act = Some a\<close> hide_through_close [OF good Some, of specs rest]
        by (simp add: chunk_append_def payload_def)
      ultimately show ?thesis by (rule loop_ok_step)
    qed (use \<open>act = Some a\<close> loop_ok_drain_content good in simp)
  next
    case None
    show ?thesis
    proof (cases "findNextOpen specs p")
      case (Some f)
      obtain pos idx where f: "findNextOpen specs p = Some (pos, idx)" using Some by (cases f) auto
      note d = findNextOpen_SomeD [OF f]
      let ?spec = "specs ! idx"
      let ?p = "drop (pos + length (specOpen ?spec)) p"
      let ?act = "Some \<lparr>activeTag = specTag ?spec, activeClose = specClose ?spec, activeContent = []\<rparr>"
      let ?out = "out\<lparr>VisibleText := VisibleText out @ take pos p\<rparr>"
      have spec: "good_delim (specOpen ?spec)" "good_active ?act"
        using good_specsD [OF assms(1)] d(1) by (auto simp: good_active_def)
      have "loop_ok specs ?p ?act ?out"
        using less.hyps [OF Index_rest_shorter [OF d(2) good_delimD [OF spec(1)]] spec(2)] .
      moreover have "push_loop specs p act out = push_loop specs ?p ?act ?out"
        using \<open>act = None\<close> f by (subst push_loop.simps) (simp add: Let_def)
      moreover have "chunk_append out (hide specs act (p @ rest)) = chunk_append ?out (hide specs ?act (?p @ rest))" for rest
        using \<open>act = None\<close> hide_through_open [OF assms(1) f, of rest]
        by (simp add: chunk_append_def visible_def)
      ultimately show ?thesis by (rule loop_ok_step)
    qed (use \<open>act = None\<close> loop_ok_drain_visible assms(1) in simp)
  qed
qed


section \<open>The parser implements the interface\<close>

definition inline_inv :: "'t InlineHiddenTagParser \<Rightarrow> bool" where
  "inline_inv p \<longleftrightarrow> good_specs (ihSpecs p) \<and> good_active (ihActive p) \<and> settled (ihSpecs p) (ihActive p) (ihPending p)"

definition inline_meaning :: "'t InlineHiddenTagParser \<Rightarrow> string \<Rightarrow> 't ExtractedInlineTag StreamTextChunk" where
  "inline_meaning p t = hide (ihSpecs p) (ihActive p) (ihPending p @ t)"

lemma inline_push:
  assumes "inline_inv p"
  shows "\<exists>c p'. InlineHiddenTagParser_PushStr p t = Some (c, p') \<and> inline_inv p' \<and>
           (\<forall>rest. inline_meaning p (t @ rest) = chunk_append c (inline_meaning p' rest))"
  using push_loop_hide [of "ihSpecs p" "ihActive p" "ihPending p @ t" empty_stream_chunk] assms
  by (fastforce simp: inline_inv_def inline_meaning_def InlineHiddenTagParser_PushStr_def loop_ok_def)

lemma hide_settled:
  assumes "inline_inv p"
  shows "inline_meaning p [] = fst (InlineHiddenTagParser_Finish p)"
proof (cases "ihActive p")
  case None
  have "opener_at (ihSpecs p) (drop j (ihPending p)) = None" for j
    using assms None not_HasPrefix_drop_of_Index good_specsD(1) good_delimD
    unfolding opener_at_None_iff by (fastforce simp: inline_inv_def settled_def)
  then show ?thesis
    using None hide_skip_visible [of "length (ihPending p)" "ihSpecs p" "ihPending p"]
    by (simp add: inline_meaning_def InlineHiddenTagParser_Finish_def visible_def)
next
  case (Some a)
  have "\<not> HasPrefix (drop j (ihPending p)) (activeClose a)" for j
    using assms Some not_HasPrefix_drop_of_Index good_delimD
    by (fastforce simp: inline_inv_def settled_def good_active_def)
  then show ?thesis
    using Some hide_skip_content [of "length (ihPending p)" "ihPending p" a "ihSpecs p"]
    by (simp add: inline_meaning_def InlineHiddenTagParser_Finish_def payload_def)
qed

interpretation inline: stream_text_parser InlineHiddenTagParser_PushStr InlineHiddenTagParser_Finish
  inline_inv inline_meaning "\<lambda>xs. xs" "\<lambda>_. True"
proof unfold_locales
  fix p :: "'t InlineHiddenTagParser" and t
  assume "inline_inv p"
  from inline_push [OF this, of t]
  show "\<exists>c s'. InlineHiddenTagParser_PushStr p t = Some (c, s') \<and> inline_inv s' \<and>
         (\<forall>rest. True \<longrightarrow>
            VisibleText (inline_meaning p (t @ rest)) = VisibleText c @ VisibleText (inline_meaning s' rest) \<and>
            Extracted (inline_meaning p (t @ rest)) = Extracted c @ Extracted (inline_meaning s' rest))"
    by fastforce
qed (simp_all add: hide_settled)

lemma NewInlineHiddenTagParser_good:
  "good_specs specs \<Longrightarrow> NewInlineHiddenTagParser specs = Some \<lparr>ihSpecs = specs, ihPending = [], ihActive = None\<rparr>"
  by (auto simp: NewInlineHiddenTagParser_def good_specs_def good_delim_def)

lemma inline_inv_new: "good_specs specs \<Longrightarrow> inline_inv \<lparr>ihSpecs = specs, ihPending = [], ihActive = None\<rparr>"
  by (auto simp: inline_inv_def good_active_def settled_def good_specs_def good_delim_def)

text \<open>
  C8. Streaming parser for hidden inline tags: if the delimiters are non-empty ASCII-like strings
  (no UTF-8 continuation bytes) and no opening delimiter occurs inside another one, then the constructor
  succeeds and, for every division of a text into chunks, feeding the chunks and finishing returns and
  yields exactly the visible text and the payloads of one left-to-right pass over the whole text, also when
  delimiters are split across chunks or the last tag is never closed.
\<close>

theorem inline_stream_correct:
  assumes "good_specs specs"
  shows "\<exists>p. NewInlineHiddenTagParser specs = Some p \<and>
    feed InlineHiddenTagParser_PushStr InlineHiddenTagParser_Finish p chunks = Some (hide specs None (concat chunks))"
proof -
  let ?p = "\<lparr>ihSpecs = specs, ihPending = [], ihActive = None\<rparr>"
  obtain c where "feed InlineHiddenTagParser_PushStr InlineHiddenTagParser_Finish ?p chunks = Some c"
    and "VisibleText c = VisibleText (inline_meaning ?p (concat chunks))"
    and "Extracted c = Extracted (inline_meaning ?p (concat chunks))"
    using inline.feed_meaning [OF inline_inv_new [OF assms], of chunks] by (auto simp: list_all_iff)
  then show ?thesis using NewInlineHiddenTagParser_good [OF assms] by (simp add: inline_meaning_def)
qed

definition sample_specs :: "nat InlineTagSpec list" where
  "sample_specs = [\<lparr>specTag = 1, specOpen = ''<a>'', specClose = ''</a>''\<rparr>, \<lparr>specTag = 2, specOpen = ''<b>'', specClose = ''</>''\<rparr>]"

theorem inline_stream_correct_witness:
  "good_specs sample_specs \<and>
   (\<exists>p. NewInlineHiddenTagParser sample_specs = Some p \<and>
     feed InlineHiddenTagParser_PushStr InlineHiddenTagParser_Finish p [''x<'', ''a>u</'', ''a>y<b>v''] =
       Some \<lparr>VisibleText = ''xy'', Extracted = [\<lparr>extractedTag = 1, extractedContent = ''u''\<rparr>,
         \<lparr>extractedTag = 2, extractedContent = ''v''\<rparr>]\<rparr>)"
proof -
  have good: "good_specs sample_specs"
    by (simp add: good_specs_def sample_specs_def good_delim_def rune_start_def HasPrefix_def)
  have "hide sample_specs None (concat [''x<'', ''a>u</'', ''a>y<b>v'']) =
      \<lparr>VisibleText = ''xy'', Extracted = [\<lparr>extractedTag = 1, extractedContent = ''u''\<rparr>,
         \<lparr>extractedTag = 2, extractedContent = ''v''\<rparr>]\<rparr>"
    by (simp add: sample_specs_def opener_at_def HasPrefix_def chunk_append_def visible_def payload_def)
  with inline_stream_correct [OF good, of "[''x<'', ''a>u</'', ''a>y<b>v'']"] good show ?thesis by simp
qed

section \<open>The citation parser\<close>

datatype citationTag = citationTagCitation

definition citationOpen :: string where "citationOpen = ''<oai-mem-citation>''"

definition citationClose :: string where "citationClose = ''</oai-mem-citation>''"

record CitationStreamParser =
  citationInner :: "citationTag InlineHiddenTagParser"

definition citationSpecs :: "citationTag InlineTagSpec list" where
  "citationSpecs = [\<lparr>specTag = citationTagCitation, specOpen = citationOpen, specClose = citationClose\<rparr>]"

definition NewCitationStreamParser :: "CitationStreamParser option" where
  "NewCitationStreamParser = map_option (\<lambda>i. \<lparr>citationInner = i\<rparr>) (NewInlineHiddenTagParser citationSpecs)"

definition mapExtractedToContent :: "citationTag ExtractedInlineTag StreamTextChunk \<Rightarrow> string StreamTextChunk" where
  "mapExtractedToContent c = \<lparr>VisibleText = VisibleText c, Extracted = map extractedContent (Extracted c)\<rparr>"

definition CitationStreamParser_PushStr :: "CitationStreamParser \<Rightarrow> string \<Rightarrow> (string StreamTextChunk \<times> CitationStreamParser) option" where
  "CitationStreamParser_PushStr p chunk =
     map_option (\<lambda>(c, i). (mapExtractedToContent c, p\<lparr>citationInner := i\<rparr>))
       (InlineHiddenTagParser_PushStr (citationInner p) chunk)"

definition CitationStreamParser_Finish :: "CitationStreamParser \<Rightarrow> string StreamTextChunk \<times> CitationStreamParser" where
  "CitationStreamParser_Finish p =
     (case InlineHiddenTagParser_Finish (citationInner p) of
        (c, i) \<Rightarrow> (mapExtractedToContent c, p\<lparr>citationInner := i\<rparr>))"

definition StripCitations :: "string \<Rightarrow> (string \<times> string list) option" where
  "StripCitations text =
     Option.bind NewCitationStreamParser (\<lambda>parser.
       Option.bind (CitationStreamParser_PushStr parser text) (\<lambda>(out, parser').
         let tail = fst (CitationStreamParser_Finish parser') in
         Some (VisibleText out @ VisibleText tail, Extracted out @ Extracted tail)))"

definition citation_inv :: "CitationStreamParser \<Rightarrow> bool" where
  "citation_inv p \<longleftrightarrow> inline_inv (citationInner p)"

definition citation_meaning :: "CitationStreamParser \<Rightarrow> string \<Rightarrow> string StreamTextChunk" where
  "citation_meaning p t = mapExtractedToContent (inline_meaning (citationInner p) t)"

lemma good_citationSpecs: "good_specs citationSpecs"
  by (simp add: good_specs_def citationSpecs_def good_delim_def citationOpen_def citationClose_def rune_start_def)

interpretation citation: stream_text_parser CitationStreamParser_PushStr CitationStreamParser_Finish
  citation_inv citation_meaning "\<lambda>xs. xs" "\<lambda>_. True"
proof unfold_locales
  fix p t
  assume "citation_inv p"
  then have "inline_inv (citationInner p)" by (simp add: citation_inv_def)
  from inline_push [OF this, of t]
  show "\<exists>c s'. CitationStreamParser_PushStr p t = Some (c, s') \<and> citation_inv s' \<and>
         (\<forall>rest. True \<longrightarrow>
            VisibleText (citation_meaning p (t @ rest)) = VisibleText c @ VisibleText (citation_meaning s' rest) \<and>
            Extracted (citation_meaning p (t @ rest)) = Extracted c @ Extracted (citation_meaning s' rest))"
    by (fastforce simp: CitationStreamParser_PushStr_def citation_inv_def citation_meaning_def mapExtractedToContent_def)
next
  fix p
  assume "citation_inv p"
  then show "VisibleText (fst (CitationStreamParser_Finish p)) = VisibleText (citation_meaning p []) \<and>
         Extracted (fst (CitationStreamParser_Finish p)) = Extracted (citation_meaning p [])"
    by (simp add: citation_inv_def citation_meaning_def hide_settled CitationStreamParser_Finish_def case_prod_beta)
qed simp_all

text \<open>The one-shot helper and the streaming use agree with the reference.\<close>

lemma citation_parser_new:
  "\<exists>p. NewCitationStreamParser = Some p \<and> citation_inv p \<and>
     (\<forall>t. citation_meaning p t = mapExtractedToContent (hide citationSpecs None t))"
  using NewInlineHiddenTagParser_good [OF good_citationSpecs] inline_inv_new [OF good_citationSpecs]
  by (simp add: NewCitationStreamParser_def citation_inv_def citation_meaning_def inline_meaning_def)

lemma StripCitations_correct:
  "StripCitations text =
     Some (VisibleText (hide citationSpecs None text), map extractedContent (Extracted (hide citationSpecs None text)))"
proof -
  obtain p where p: "NewCitationStreamParser = Some p" "citation_inv p"
    "\<And>t. citation_meaning p t = mapExtractedToContent (hide citationSpecs None t)"
    using citation_parser_new by blast
  from citation.feed_meaning [OF p(2), of "[text]"] p(1,3) show ?thesis
    by (auto simp: StripCitations_def feed_def mapExtractedToContent_def bind_eq_Some_conv Let_def)
qed

end
