(* ===== verification/Stream_Lines.thy ===== *)
theory Stream_Lines
  imports Stream_Text
begin

text \<open>
  Tags that stand alone on a line: the line parser (utils/streamparser/tagged\_line\_parser.go) and the
  parser of proposed plans built on it (proposed\_plan.go). The reference \<open>line_segments\<close> cuts the
  whole text into lines and classifies each line on its own; the streaming parser, which shows a line
  as soon as it cannot become a tag any rest, is proved to produce the same segments up to the merging of
  adjacent pieces of text.
\<close>

section \<open>Data\<close>

record 't tagSpec =
  tsOpen :: string
  tsClose :: string
  tsTag :: 't

datatype 't taggedLineSegment =
  segNormal string | segTagStart 't | segTagDelta 't string | segTagEnd 't

record 't taggedLineParser =
  tlSpecs :: "'t tagSpec list"
  tlActive :: "'t option"
  tlDetect :: bool
  tlLine :: string

section \<open>Operations\<close>

definition newTaggedLineParser :: "'t tagSpec list \<Rightarrow> 't taggedLineParser" where
  "newTaggedLineParser specs = \<lparr>tlSpecs = specs, tlActive = None, tlDetect = True, tlLine = []\<rparr>"

definition trimStart :: "string \<Rightarrow> string" where
  "trimStart s = trim_left_func is_space s"

definition trimEnd_space :: "string \<Rightarrow> string" where
  "trimEnd_space s = trim_right_func is_space s"

definition pushSegment :: "'t taggedLineSegment list \<Rightarrow> 't taggedLineSegment \<Rightarrow> 't taggedLineSegment list" where
  "pushSegment segments seg =
     (case seg of
        segNormal text \<Rightarrow>
          if text = [] then segments
          else (case rev segments of
                  segNormal u # r \<Rightarrow> rev r @ [segNormal (u @ text)]
                | _ \<Rightarrow> segments @ [seg])
      | segTagDelta tag text \<Rightarrow>
          if text = [] then segments
          else (case rev segments of
                  segTagDelta tag' u # r \<Rightarrow>
                    if tag' = tag then rev r @ [segTagDelta tag' (u @ text)] else segments @ [seg]
                | _ \<Rightarrow> segments @ [seg])
      | _ \<Rightarrow> segments @ [seg])"

definition text_segment :: "'t option \<Rightarrow> string \<Rightarrow> 't taggedLineSegment" where
  "text_segment active text = (case active of Some tag \<Rightarrow> segTagDelta tag text | None \<Rightarrow> segNormal text)"

definition pushText :: "'t taggedLineParser \<Rightarrow> string \<Rightarrow> 't taggedLineSegment list \<Rightarrow> 't taggedLineSegment list" where
  "pushText p text segments = pushSegment segments (text_segment (tlActive p) text)"

definition isTagPrefix :: "'t tagSpec list \<Rightarrow> string \<Rightarrow> bool" where
  "isTagPrefix specs slug \<longleftrightarrow>
     (let slug' = trimEnd_space slug in
      list_ex (\<lambda>spec. HasPrefix (tsOpen spec) slug' \<or> HasPrefix (tsClose spec) slug') specs)"

definition matchOpen :: "'t tagSpec list \<Rightarrow> string \<Rightarrow> 't option" where
  "matchOpen specs slug = map_option tsTag (find (\<lambda>spec. tsOpen spec = slug) specs)"

definition matchClose :: "'t tagSpec list \<Rightarrow> string \<Rightarrow> 't option" where
  "matchClose specs slug = map_option tsTag (find (\<lambda>spec. tsClose spec = slug) specs)"

text \<open>
  The decision on a buffered line that finishLine and finish share: the segment to push and the
  tag that is open afterwards. The conditions stand in the order of the code.
\<close>

definition decide_line :: "'t tagSpec list \<Rightarrow> 't option \<Rightarrow> string \<Rightarrow> 't taggedLineSegment \<times> 't option" where
  "decide_line specs active line =
     (let slug = trimEnd_space (trimStart (TrimSuffix line nl)) in
      if matchOpen specs slug \<noteq> None \<and> active = None
      then (segTagStart (the (matchOpen specs slug)), matchOpen specs slug)
      else if matchClose specs slug \<noteq> None \<and> active \<noteq> None \<and> active = matchClose specs slug
      then (segTagEnd (the (matchClose specs slug)), None)
      else (text_segment active line, active))"

definition finishLine :: "'t taggedLineParser \<Rightarrow> 't taggedLineSegment list \<Rightarrow> 't taggedLineParser \<times> 't taggedLineSegment list" where
  "finishLine p segments =
     (case decide_line (tlSpecs p) (tlActive p) (tlLine p) of
        (seg, active) \<Rightarrow> (p\<lparr>tlLine := [], tlActive := active, tlDetect := True\<rparr>, pushSegment segments seg))"

text \<open>The body of the loop of parse, on the parser, the current run of text and the segments.\<close>

definition parse_rune :: "rune \<Rightarrow> 't taggedLineParser \<times> string \<times> 't taggedLineSegment list
    \<Rightarrow> 't taggedLineParser \<times> string \<times> 't taggedLineSegment list" where
  "parse_rune ch = (\<lambda>(p, run, segments).
     if tlDetect p then
       let segments' = (if run \<noteq> [] then pushText p run segments else segments);
           line = tlLine p @ encode_rune ch;
           p' = p\<lparr>tlLine := line\<rparr> in
       if ch = 0x0A then (case finishLine p' segments' of (p'', segments'') \<Rightarrow> (p'', [], segments''))
       else
         let slug = trimStart line in
         if slug = [] \<or> isTagPrefix (tlSpecs p) slug then (p', [], segments')
         else (p\<lparr>tlLine := [], tlDetect := False\<rparr>, [], pushText p line segments')
     else
       let run' = run @ encode_rune ch in
       if ch = 0x0A then (p\<lparr>tlDetect := True\<rparr>, [], pushText p run' segments)
       else (p, run', segments))"

definition taggedLineParser_parse :: "'t taggedLineParser \<Rightarrow> string \<Rightarrow> 't taggedLineSegment list \<times> 't taggedLineParser" where
  "taggedLineParser_parse p delta =
     (case fold parse_rune (runes delta) (p, [], []) of
        (p', run, segments) \<Rightarrow> (if run \<noteq> [] then pushText p' run segments else segments, p'))"

definition taggedLineParser_finish :: "'t taggedLineParser \<Rightarrow> 't taggedLineSegment list \<times> 't taggedLineParser" where
  "taggedLineParser_finish p =
     (let (segments, active) =
            (if tlLine p \<noteq> []
             then (case decide_line (tlSpecs p) (tlActive p) (tlLine p) of (seg, active) \<Rightarrow> (pushSegment [] seg, active))
             else ([], tlActive p));
          segments' = (case active of Some tag \<Rightarrow> pushSegment segments (segTagEnd tag) | None \<Rightarrow> segments) in
      (segments', p\<lparr>tlLine := [], tlActive := None, tlDetect := True\<rparr>))"

section \<open>Reference: classifying whole lines\<close>

definition first_line :: "rune list \<Rightarrow> rune list" where
  "first_line rs = takeWhile (\<lambda>r. r \<noteq> 0x0A) rs @ (if 0x0A \<in> set rs then [0x0A] else [])"

definition after_line :: "rune list \<Rightarrow> rune list" where
  "after_line rs = drop 1 (dropWhile (\<lambda>r. r \<noteq> 0x0A) rs)"

text \<open>
  A line is a delimiter if it equals one after trimming white space: an opening one starts a block when
  none is open, the closing one of the open block ends it, and every other line is text.
\<close>

definition classify_line :: "'t tagSpec list \<Rightarrow> 't option \<Rightarrow> string \<Rightarrow> 't taggedLineSegment \<times> 't option" where
  "classify_line specs active line =
     (case (active, matchOpen specs (TrimSpace line), matchClose specs (TrimSpace line)) of
        (None, Some tag, _) \<Rightarrow> (segTagStart tag, Some tag)
      | (Some tag, _, Some tag') \<Rightarrow> if tag = tag' then (segTagEnd tag, None) else (segTagDelta tag line, active)
      | _ \<Rightarrow> (text_segment active line, active))"

function line_segments :: "'t tagSpec list \<Rightarrow> 't option \<Rightarrow> rune list \<Rightarrow> 't taggedLineSegment list" where
  "line_segments specs active rs =
     (if rs = [] then (case active of None \<Rightarrow> [] | Some tag \<Rightarrow> [segTagEnd tag])
      else
        (case classify_line specs active (encode_runes (first_line rs)) of
           (seg, active') \<Rightarrow> seg # line_segments specs active' (after_line rs)))"
  by pat_completeness auto
termination
proof (relation "measure (\<lambda>(specs, active, rs). length rs)", simp, goal_cases)
  case (1 specs active rs)
  then show ?case using length_dropWhile_le [of "\<lambda>r. r \<noteq> 0x0A" rs]
    by (cases rs) (auto simp: after_line_def less_Suc_eq_le)
qed

declare line_segments.simps [simp del]

text \<open>Merging adjacent pieces of text.\<close>

definition coalesce :: "'t taggedLineSegment list \<Rightarrow> 't taggedLineSegment list" where
  "coalesce segs = foldl pushSegment [] segs"


section \<open>Merging\<close>

lemma pushSegment_tag [simp]:
  "pushSegment segs (segTagStart t) = segs @ [segTagStart t]"
  "pushSegment segs (segTagEnd t) = segs @ [segTagEnd t]"
  by (simp_all add: pushSegment_def)

lemma pushSegment_text_empty [simp]: "pushSegment segs (text_segment act []) = segs"
  by (simp add: pushSegment_def text_segment_def split: option.splits)

lemma pushSegment_text:
  "pushSegment (pushSegment segs (text_segment act s)) (text_segment act t) = pushSegment segs (text_segment act (s @ t))"
  by (cases act; cases "rev segs" rule: list.exhaust; cases "hd (rev segs)")
    (auto simp: pushSegment_def text_segment_def)

lemma foldl_pushSegment:
  "foldl pushSegment acc (pushSegment zs y) = pushSegment (foldl pushSegment acc zs) y"
proof (cases "pushSegment zs y = zs @ [y]")
  case True
  then show ?thesis by simp
next
  case False
  then consider
      (empty) act where "y = text_segment act []"
    | (merge) act u r t where "y = text_segment act t" "zs = r @ [text_segment act u]" "pushSegment zs y = r @ [text_segment act (u @ t)]"
  proof (cases y)
    case (segNormal t)
    with False show ?thesis
      using empty [of None] merge [of None t "rev (tl (rev zs))"]
      by (auto simp: pushSegment_def text_segment_def split: if_splits list.splits taggedLineSegment.splits)
  next
    case (segTagDelta a t)
    with False show ?thesis
      using empty [of "Some a"] merge [of "Some a" t "rev (tl (rev zs))"]
      by (auto simp: pushSegment_def text_segment_def split: if_splits list.splits taggedLineSegment.splits)
  qed (auto simp: pushSegment_def)
  then show ?thesis
    by cases (simp_all add: pushSegment_text)
qed

lemma foldl_coalesce: "foldl pushSegment acc (coalesce ys) = foldl pushSegment acc ys"
  unfolding coalesce_def by (induction ys rule: rev_induct) (simp_all add: foldl_pushSegment)

lemma coalesce_pushSegment: "coalesce (pushSegment segs seg) = pushSegment (coalesce segs) seg"
  by (simp add: coalesce_def foldl_pushSegment)

lemma coalesce_Nil [simp]: "coalesce [] = []"
  by (simp add: coalesce_def)

lemma coalesce_append: "coalesce (xs @ ys) = foldl pushSegment (coalesce xs) ys"
  by (simp add: coalesce_def)

lemma coalesce_right: "coalesce (xs @ coalesce ys) = coalesce (xs @ ys)"
  by (simp add: coalesce_append foldl_coalesce)


section \<open>Trimming lines\<close>

lemma drop_end_append: "drop_end f (a @ b) = (if list_all f b then drop_end f a else a @ drop_end f b)"
proof (cases "list_all f b")
  case True
  then have "dropWhile f (rev b @ rev a) = dropWhile f (rev a)"
    by (intro dropWhile_append2) (auto simp: list_all_iff)
  with True show ?thesis by (simp add: drop_end_def)
next
  case False
  then obtain x where "x \<in> set (rev b)" "\<not> f x" by (auto simp: list_all_iff)
  then have "dropWhile f (rev b @ rev a) = dropWhile f (rev b) @ rev a" by (rule dropWhile_append1)
  with False show ?thesis by (simp add: drop_end_def)
qed

lemma drop_end_append_extends: "\<exists>us. drop_end f (a @ b) = drop_end f a @ us"
  using drop_end_prefix [of a f] unfolding drop_end_append by (metis append.assoc append_Nil2)

lemma TrimSpace_encode:
  "list_all valid_rune rs \<Longrightarrow> TrimSpace (encode_runes rs) = encode_runes (drop_end is_space (dropWhile is_space rs))"
  using trim_right_encode [of "dropWhile is_space rs" is_space] set_dropWhileD [of _ is_space rs]
  by (simp add: TrimSpace_def trim_left_encode list_all_iff)

lemma encode_newline: "encode_rune 0x0A = nl"
proof -
  have "encode_rune (byte newline) = [newline]" by (rule encode_byte_ascii) simp
  then show ?thesis by simp
qed

lemma last_encode_newline:
  assumes "valid_rune r" and "r \<noteq> 0x0A"
  shows "\<not> HasSuffix (s @ encode_rune r) nl"
proof
  assume "HasSuffix (s @ encode_rune r) nl"
  then have l: "last (encode_rune r) = newline" unfolding HasSuffix_iff by (metis encode_rune_not_Nil last_appendR last_snoc)
  show False
  proof (cases "r < 0x80")
    case True
    then have "byte (last (encode_rune r)) = r" by (simp add: encode_rune_ascii byte_char_of)
    with l assms(2) show False by simp
  next
    case False
    with last_byte_multi [OF assms(1)] l show False by simp
  qed
qed

text \<open>Removing the newline first makes no difference.\<close>

lemma trim_line:
  assumes "list_all valid_rune rs" and "0x0A \<notin> set rs" and "line = encode_runes (rs @ ns)" and "ns \<in> {[], [0x0A]}"
  shows "trimEnd_space (trimStart (TrimSuffix line nl)) = TrimSpace line"
proof (cases "ns = []")
  case True
  then have "\<not> HasSuffix line nl"
    using assms last_encode_newline
    by (cases rs rule: rev_cases) (auto simp: encode_runes_append encode_runes_Cons HasSuffix_iff)
  then have "TrimSuffix line nl = line" by (auto simp: TrimSuffix_def HasSuffix_def split: option.splits)
  then show ?thesis by (simp add: trimEnd_space_def trimStart_def TrimSpace_def)
next
  case False
  with assms(4) have ns: "ns = [0x0A]" by simp
  have sp: "is_space 0x0A" by (simp add: is_space_def)
  have line: "line = encode_runes rs @ nl"
    using assms(3) by (simp add: ns encode_runes_append encode_runes_Cons encode_newline)
  have "list_all valid_rune (rs @ [0x0A])" using assms(1) by (simp add: valid_rune_def)
  then have "TrimSpace line = encode_runes (drop_end is_space (dropWhile is_space (rs @ [0x0A])))"
    using TrimSpace_encode assms(3) ns by simp
  also have "drop_end is_space (dropWhile is_space (rs @ [0x0A])) = drop_end is_space (dropWhile is_space rs)"
  proof (cases "dropWhile is_space rs = []")
    case True
    then have all: "dropWhile is_space (rs @ [0x0A]) = []" using sp by simp
    show ?thesis unfolding all True by simp
  next
    case False
    then have "dropWhile is_space (rs @ [0x0A]) = dropWhile is_space rs @ [0x0A]"
      by (auto simp: dropWhile_append1)
    then show ?thesis using sp by simp
  qed
  also have "encode_runes \<dots> = TrimSpace (encode_runes rs)" using TrimSpace_encode [OF assms(1)] by simp
  finally show ?thesis by (simp add: line trimEnd_space_def trimStart_def TrimSpace_def)
qed

lemma decide_line_classify:
  assumes "list_all valid_rune rs" and "0x0A \<notin> set rs" and "line = encode_runes (rs @ ns)" and "ns \<in> {[], [0x0A]}"
  shows "decide_line specs act line = classify_line specs act line"
  unfolding decide_line_def classify_line_def trim_line [OF assms]
  by (auto simp: text_segment_def Let_def split: option.splits)

text \<open>A line whose beginning cannot grow into a delimiter is not one.\<close>

lemma not_delimiter:
  assumes valid: "list_all valid_rune rs" "list_all valid_rune rest"
    and "trimStart (encode_runes rs) \<noteq> []" and "\<not> isTagPrefix specs (trimStart (encode_runes rs))"
    and "spec \<in> set specs"
  shows "tsOpen spec \<noteq> TrimSpace (encode_runes (rs @ rest))" and "tsClose spec \<noteq> TrimSpace (encode_runes (rs @ rest))"
proof -
  let ?slug = "drop_end is_space (dropWhile is_space rs)"
  have "dropWhile is_space rs \<noteq> []" using assms(3) valid(1) by (simp add: trimStart_def trim_left_encode)
  then have "dropWhile is_space (rs @ rest) = dropWhile is_space rs @ rest"
    by (auto simp: dropWhile_append1)
  then obtain us where us: "drop_end is_space (dropWhile is_space (rs @ rest)) = ?slug @ us"
    using drop_end_append_extends [of is_space "dropWhile is_space rs" rest] by auto
  have "list_all valid_rune (dropWhile is_space rs)"
    using valid(1) set_dropWhileD [of _ is_space rs] by (auto simp: list_all_iff)
  then have "trimEnd_space (trimStart (encode_runes rs)) = encode_runes ?slug"
    using valid(1) by (simp add: trimEnd_space_def trimStart_def trim_left_encode trim_right_encode)
  moreover have "TrimSpace (encode_runes (rs @ rest)) = encode_runes ?slug @ encode_runes us"
    using TrimSpace_encode [of "rs @ rest"] valid us by (simp add: encode_runes_append)
  ultimately have "HasPrefix (TrimSpace (encode_runes (rs @ rest))) (trimEnd_space (trimStart (encode_runes rs)))"
    by (auto simp: HasPrefix_iff)
  with assms(4,5) show "tsOpen spec \<noteq> TrimSpace (encode_runes (rs @ rest))" and "tsClose spec \<noteq> TrimSpace (encode_runes (rs @ rest))"
    by (auto simp: isTagPrefix_def Let_def list_ex_iff)
qed

lemma classify_not_delimiter:
  assumes "\<And>spec. spec \<in> set specs \<Longrightarrow> tsOpen spec \<noteq> TrimSpace line \<and> tsClose spec \<noteq> TrimSpace line"
  shows "classify_line specs act line = (text_segment act line, act)"
proof -
  have "matchOpen specs (TrimSpace line) = None" "matchClose specs (TrimSpace line) = None"
    using assms by (auto simp: matchOpen_def matchClose_def find_None_iff)
  then show ?thesis by (simp add: classify_line_def split: option.splits)
qed

section \<open>One step of the parser\<close>

definition tl_inv :: "'t taggedLineParser \<Rightarrow> bool" where
  "tl_inv p \<longleftrightarrow> valid_utf8 (tlLine p) \<and> 0x0A \<notin> set (runes (tlLine p)) \<and> (\<not> tlDetect p \<longrightarrow> tlLine p = [])"

text \<open>The segments a parser still has to produce when the code points \<open>rs\<close> follow.\<close>

definition rest_segments :: "'t taggedLineParser \<Rightarrow> rune list \<Rightarrow> 't taggedLineSegment list" where
  "rest_segments p rs =
     (if tlDetect p then line_segments (tlSpecs p) (tlActive p) (runes (tlLine p) @ rs)
      else text_segment (tlActive p) (encode_runes (first_line rs)) # line_segments (tlSpecs p) (tlActive p) (after_line rs))"

definition all_segments :: "'t taggedLineParser \<times> string \<times> 't taggedLineSegment list \<Rightarrow> rune list \<Rightarrow> 't taggedLineSegment list" where
  "all_segments = (\<lambda>(p, run, segs) rs. foldl pushSegment segs (text_segment (tlActive p) run # rest_segments p rs))"

definition step_inv :: "'t taggedLineParser \<times> string \<times> 't taggedLineSegment list \<Rightarrow> bool" where
  "step_inv = (\<lambda>(p, run, segs). tl_inv p \<and> (tlDetect p \<longrightarrow> run = []) \<and> coalesce segs = segs)"

lemma first_line_simps [simp]:
  "first_line [] = []" "first_line (0x0A # rs) = [0x0A]" "r \<noteq> 0x0A \<Longrightarrow> first_line (r # rs) = r # first_line rs"
  by (simp_all add: first_line_def)

lemma after_line_simps [simp]:
  "after_line [] = []" "after_line (0x0A # rs) = rs" "r \<noteq> 0x0A \<Longrightarrow> after_line (r # rs) = after_line rs"
  by (simp_all add: after_line_def)

lemma first_line_append: "0x0A \<notin> set bs \<Longrightarrow> first_line (bs @ rs) = bs @ first_line rs"
  and after_line_append: "0x0A \<notin> set bs \<Longrightarrow> after_line (bs @ rs) = after_line rs"
  by (induction bs) auto

lemma first_line_valid: "list_all valid_rune rs \<Longrightarrow> list_all valid_rune (first_line rs)"
  by (auto simp: first_line_def list_all_iff valid_rune_def dest: set_takeWhileD)


lemma line_segments_line:
  assumes "classify_line specs act (encode_runes (first_line rs)) = (seg, act')" and "rs \<noteq> []"
  shows "line_segments specs act rs = seg # line_segments specs act' (after_line rs)"
  using assms by (subst line_segments.simps) simp

lemma tl_inv_line:
  assumes "tl_inv p"
  obtains bs where "list_all valid_rune bs" "tlLine p = encode_runes bs" "runes (tlLine p) = bs" "0x0A \<notin> set bs"
  using assms that [of "runes (tlLine p)"] by (simp add: tl_inv_def valid_utf8_def)

lemma parse_rune_newline:
  assumes "step_inv (p, run, segs)" and "tlDetect p"
  shows "step_inv (parse_rune 0x0A (p, run, segs)) \<and>
         all_segments (parse_rune 0x0A (p, run, segs)) rs = all_segments (p, run, segs) (0x0A # rs)"
proof -
  have "tl_inv p" "run = []" "coalesce segs = segs" using assms by (auto simp: step_inv_def)
  from tl_inv_line [OF this(1)] obtain bs where
    bs: "list_all valid_rune bs" "tlLine p = encode_runes bs" "runes (tlLine p) = bs" "0x0A \<notin> set bs" .
  let ?line = "encode_runes (bs @ [0x0A])"
  obtain seg act where c: "classify_line (tlSpecs p) (tlActive p) ?line = (seg, act)" by fastforce
  have "decide_line (tlSpecs p) (tlActive p) ?line = (seg, act)"
    using decide_line_classify [OF bs(1,4), of ?line "[0x0A]" "tlSpecs p" "tlActive p"] c by simp
  then have "parse_rune 0x0A (p, run, segs) = (p\<lparr>tlLine := [], tlActive := act, tlDetect := True\<rparr>, [], pushSegment segs seg)"
    using assms(2) bs \<open>run = []\<close>
    by (simp add: parse_rune_def finishLine_def encode_runes_append encode_runes_Cons Let_def)
  moreover have "line_segments (tlSpecs p) (tlActive p) (bs @ 0x0A # rs) = seg # line_segments (tlSpecs p) act rs"
    using line_segments_line [of "tlSpecs p" "tlActive p" "bs @ 0x0A # rs"] c bs(4)
    by (simp add: first_line_append after_line_append)
  ultimately show ?thesis
    using assms(2) bs \<open>run = []\<close> \<open>coalesce segs = segs\<close> by (simp add: step_inv_def tl_inv_def all_segments_def coalesce_pushSegment rest_segments_def)
qed

lemma parse_rune_detect:
  assumes "step_inv (p, run, segs)" and "tlDetect p" and "valid_rune ch" and "ch \<noteq> 0x0A" and "list_all valid_rune rs"
  shows "step_inv (parse_rune ch (p, run, segs)) \<and>
         all_segments (parse_rune ch (p, run, segs)) rs = all_segments (p, run, segs) (ch # rs)"
proof -
  have "tl_inv p" "run = []" "coalesce segs = segs" using assms by (auto simp: step_inv_def)
  from tl_inv_line [OF this(1)] obtain bs where
    bs: "list_all valid_rune bs" "tlLine p = encode_runes bs" "runes (tlLine p) = bs" "0x0A \<notin> set bs" .
  let ?bs = "bs @ [ch]"
  have valid: "list_all valid_rune ?bs" using bs(1) assms(3) by simp
  have line: "tlLine p @ encode_rune ch = encode_runes ?bs" using bs(2) by (simp add: encode_runes_append encode_runes_Cons)
  show ?thesis
  proof (cases "trimStart (encode_runes ?bs) = [] \<or> isTagPrefix (tlSpecs p) (trimStart (encode_runes ?bs))")
    case True
    then have "parse_rune ch (p, run, segs) = (p\<lparr>tlLine := encode_runes ?bs\<rparr>, [], segs)"
      using assms(2,4) \<open>run = []\<close> by (simp add: parse_rune_def line Let_def)
    then show ?thesis
      using valid assms(2,4) bs \<open>run = []\<close> \<open>coalesce segs = segs\<close>
      by (simp add: step_inv_def tl_inv_def all_segments_def coalesce_pushSegment rest_segments_def runes_encode)
  next
    case False
    then have "parse_rune ch (p, run, segs) =
        (p\<lparr>tlLine := [], tlDetect := False\<rparr>, [], pushText p (encode_runes ?bs) segs)"
      using assms(2,4) \<open>run = []\<close> by (simp add: parse_rune_def line Let_def)
    moreover have "classify_line (tlSpecs p) (tlActive p) (encode_runes (?bs @ first_line rs)) =
        (text_segment (tlActive p) (encode_runes (?bs @ first_line rs)), tlActive p)"
      using classify_not_delimiter not_delimiter [OF valid first_line_valid [OF assms(5)]] False by metis
    then have "line_segments (tlSpecs p) (tlActive p) (bs @ ch # rs) =
        text_segment (tlActive p) (encode_runes ?bs @ encode_runes (first_line rs)) # line_segments (tlSpecs p) (tlActive p) (after_line rs)"
      using line_segments_line [of "tlSpecs p" "tlActive p" "bs @ ch # rs"] bs(4) assms(4)
      by (simp add: first_line_append after_line_append encode_runes_append encode_runes_Cons)
    ultimately show ?thesis
      using assms(2) bs \<open>run = []\<close> \<open>coalesce segs = segs\<close>
      by (simp add: step_inv_def tl_inv_def all_segments_def coalesce_pushSegment rest_segments_def pushText_def pushSegment_text)
  qed
qed

lemma parse_rune_text:
  assumes "step_inv (p, run, segs)" and "\<not> tlDetect p"
  shows "step_inv (parse_rune ch (p, run, segs)) \<and>
         all_segments (parse_rune ch (p, run, segs)) rs = all_segments (p, run, segs) (ch # rs)"
  using assms
  by (cases "ch = 0x0A")
    (auto simp: parse_rune_def step_inv_def tl_inv_def all_segments_def coalesce_pushSegment rest_segments_def pushText_def pushSegment_text
      encode_runes_Cons Let_def)

lemma parse_rune_step:
  assumes "step_inv st" and "valid_rune ch" and "list_all valid_rune rs"
  shows "step_inv (parse_rune ch st) \<and> all_segments (parse_rune ch st) rs = all_segments st (ch # rs)"
proof -
  obtain p run segs where "st = (p, run, segs)" by (cases st)
  with assms show ?thesis
    using parse_rune_newline [of p run segs rs] parse_rune_detect [of p run segs ch rs] parse_rune_text [of p run segs ch rs]
    by blast
qed

lemma parse_runes:
  "step_inv st \<Longrightarrow> list_all valid_rune qs \<Longrightarrow> list_all valid_rune rs \<Longrightarrow>
   step_inv (fold parse_rune qs st) \<and> all_segments (fold parse_rune qs st) rs = all_segments st (qs @ rs)"
proof (induction qs arbitrary: st)
  case Nil
  then show ?case by simp
next
  case (Cons q qs)
  then have "step_inv (parse_rune q st)" and "all_segments (parse_rune q st) (qs @ rs) = all_segments st (q # qs @ rs)"
    using parse_rune_step [of st q "qs @ rs"] by simp_all
  with Cons show ?case by simp
qed

text \<open>Parsing a chunk hands out the segments up to a point, and finishing hands out the rest.\<close>

lemma parse_correct:
  assumes "tl_inv p" and "valid_utf8 t" and "taggedLineParser_parse p t = (segs, p')"
  shows "tl_inv p'"
    and "list_all valid_rune rs \<Longrightarrow> coalesce (rest_segments p (runes t @ rs)) = coalesce (segs @ rest_segments p' rs)"
proof -
  obtain q run segs' where f: "fold parse_rune (runes t) (p, [], []) = (q, run, segs')" by (metis prod_cases3)
  have eq: "p' = q" "segs = pushSegment segs' (text_segment (tlActive q) run)"
    using assms(3) f by (auto simp: taggedLineParser_parse_def pushText_def split: if_splits)
  have valid: "list_all valid_rune (runes t)" using assms(2) by (simp add: valid_utf8_def)
  have "step_inv (p, [], [])" using assms(1) by (simp add: step_inv_def)
  note steps = parse_runes [OF this valid]
  show "tl_inv p'" using steps [of "[]"] f eq(1) by (simp add: step_inv_def)
  show "coalesce (rest_segments p (runes t @ rs)) = coalesce (segs @ rest_segments p' rs)"
    if "list_all valid_rune rs"
  proof -
    have "foldl pushSegment segs (rest_segments q rs) = foldl pushSegment [] (rest_segments p (runes t @ rs))"
      using steps [OF that] f eq(2) by (simp add: all_segments_def)
    moreover have "coalesce segs = segs"
      using steps [of "[]"] f eq(2) by (simp add: step_inv_def coalesce_pushSegment)
    ultimately show ?thesis by (simp add: eq(1) coalesce_append) (simp add: coalesce_def)
  qed
qed


lemma finish_correct:
  assumes "tl_inv p" and "taggedLineParser_finish p = (segs, p')"
  shows "coalesce segs = coalesce (rest_segments p [])"
proof (cases "tlLine p = []")
  case True
  then have "segs = (case tlActive p of Some tag \<Rightarrow> [segTagEnd tag] | None \<Rightarrow> [])"
    using assms(2) by (auto simp: taggedLineParser_finish_def split: option.splits)
  moreover have "coalesce (rest_segments p []) = coalesce (line_segments (tlSpecs p) (tlActive p) [])"
    using True by (auto simp: rest_segments_def coalesce_def)
  ultimately show ?thesis by (simp add: line_segments.simps split: option.splits)
next
  case False
  from tl_inv_line [OF assms(1)] obtain bs where
    bs: "list_all valid_rune bs" "tlLine p = encode_runes bs" "runes (tlLine p) = bs" "0x0A \<notin> set bs" .
  obtain seg act where c: "classify_line (tlSpecs p) (tlActive p) (tlLine p) = (seg, act)" by fastforce
  then have d: "decide_line (tlSpecs p) (tlActive p) (tlLine p) = (seg, act)"
    using decide_line_classify [OF bs(1,4), of "tlLine p" "[]" "tlSpecs p" "tlActive p"] bs(2) by simp
  have "tlDetect p" "bs \<noteq> []" using assms(1) False bs(2) by (auto simp: tl_inv_def)
  then have "rest_segments p [] = seg # line_segments (tlSpecs p) act []"
    using line_segments_line [of "tlSpecs p" "tlActive p" bs seg act] c bs
      first_line_append [OF bs(4), of "[]"] after_line_append [OF bs(4), of "[]"]
    by (simp add: rest_segments_def)
  moreover have "segs = pushSegment [] seg @ (case act of Some tag \<Rightarrow> [segTagEnd tag] | None \<Rightarrow> [])"
    using assms(2) False d by (auto simp: taggedLineParser_finish_def split: option.splits)
  moreover have "coalesce (seg # xs) = foldl pushSegment (pushSegment [] seg) xs" for xs
    by (simp add: coalesce_def)
  ultimately show ?thesis
    by (cases act) (simp_all add: line_segments.simps coalesce_append coalesce_pushSegment)
qed

lemma tl_inv_new: "tl_inv (newTaggedLineParser specs)"
  by (simp add: tl_inv_def newTaggedLineParser_def)

lemma rest_segments_new: "rest_segments (newTaggedLineParser specs) rs = line_segments specs None rs"
  by (simp add: rest_segments_def newTaggedLineParser_def)

section \<open>The parser of proposed plans\<close>

datatype planTag = planTagProposedPlan

definition proposedPlanOpenTag :: string where "proposedPlanOpenTag = ''<proposed_plan>''"

definition proposedPlanCloseTag :: string where "proposedPlanCloseTag = ''</proposed_plan>''"

datatype ProposedPlanSegment =
  ProposedPlanNormal string | ProposedPlanStart | ProposedPlanDelta string | ProposedPlanEnd

record ProposedPlanParser =
  planInner :: "planTag taggedLineParser"

definition planSpecs :: "planTag tagSpec list" where
  "planSpecs = [\<lparr>tsOpen = proposedPlanOpenTag, tsClose = proposedPlanCloseTag, tsTag = planTagProposedPlan\<rparr>]"

definition NewProposedPlanParser :: ProposedPlanParser where
  "NewProposedPlanParser = \<lparr>planInner = newTaggedLineParser planSpecs\<rparr>"

fun plan_segment :: "planTag taggedLineSegment \<Rightarrow> ProposedPlanSegment" where
  "plan_segment (segNormal text) = ProposedPlanNormal text"
| "plan_segment (segTagStart _) = ProposedPlanStart"
| "plan_segment (segTagDelta _ text) = ProposedPlanDelta text"
| "plan_segment (segTagEnd _) = ProposedPlanEnd"

fun plan_visible :: "ProposedPlanSegment \<Rightarrow> string" where
  "plan_visible (ProposedPlanNormal text) = text"
| "plan_visible _ = []"

definition mapPlanSegments :: "planTag taggedLineSegment list \<Rightarrow> ProposedPlanSegment StreamTextChunk" where
  "mapPlanSegments segments =
     (let mapped = map plan_segment segments in
      \<lparr>VisibleText = concat (map plan_visible mapped), Extracted = mapped\<rparr>)"

definition ProposedPlanParser_PushStr :: "ProposedPlanParser \<Rightarrow> string \<Rightarrow> ProposedPlanSegment StreamTextChunk \<times> ProposedPlanParser" where
  "ProposedPlanParser_PushStr p chunk =
     (case taggedLineParser_parse (planInner p) chunk of (segs, i) \<Rightarrow> (mapPlanSegments segs, p\<lparr>planInner := i\<rparr>))"

definition ProposedPlanParser_Finish :: "ProposedPlanParser \<Rightarrow> ProposedPlanSegment StreamTextChunk \<times> ProposedPlanParser" where
  "ProposedPlanParser_Finish p =
     (case taggedLineParser_finish (planInner p) of (segs, i) \<Rightarrow> (mapPlanSegments segs, p\<lparr>planInner := i\<rparr>))"

definition StripProposedPlanBlocks :: "string \<Rightarrow> string" where
  "StripProposedPlanBlocks text =
     (case ProposedPlanParser_PushStr NewProposedPlanParser text of
        (c, p) \<Rightarrow> VisibleText c @ VisibleText (fst (ProposedPlanParser_Finish p)))"

text \<open>The loop of ExtractProposedPlanText over the segments: whether a block was seen, and its text.\<close>

fun plan_text_step :: "ProposedPlanSegment \<Rightarrow> bool \<times> string \<Rightarrow> bool \<times> string" where
  "plan_text_step ProposedPlanStart (saw, text) = (True, [])"
| "plan_text_step (ProposedPlanDelta delta) (saw, text) = (saw, text @ delta)"
| "plan_text_step _ st = st"

definition ExtractProposedPlanText :: "string \<Rightarrow> string option" where
  "ExtractProposedPlanText text =
     (case ProposedPlanParser_PushStr NewProposedPlanParser text of
        (c, p) \<Rightarrow>
          (case fold plan_text_step (Extracted c @ Extracted (fst (ProposedPlanParser_Finish p))) (False, []) of
             (saw, planText) \<Rightarrow> if saw then Some planText else None))"

text \<open>Plan segments up to merging of adjacent text.\<close>

fun line_segment_of :: "ProposedPlanSegment \<Rightarrow> planTag taggedLineSegment" where
  "line_segment_of (ProposedPlanNormal text) = segNormal text"
| "line_segment_of ProposedPlanStart = segTagStart planTagProposedPlan"
| "line_segment_of (ProposedPlanDelta text) = segTagDelta planTagProposedPlan text"
| "line_segment_of ProposedPlanEnd = segTagEnd planTagProposedPlan"

definition plan_norm :: "ProposedPlanSegment list \<Rightarrow> ProposedPlanSegment list" where
  "plan_norm xs = map plan_segment (coalesce (map line_segment_of xs))"

lemma line_segment_of_plan_segment [simp]: "line_segment_of (plan_segment s) = s"
  by (cases s) (simp_all, metis planTag.exhaust, metis planTag.exhaust, metis planTag.exhaust)

lemma map_line_segment_of [simp]: "map line_segment_of (map plan_segment segs) = segs"
  by (induction segs) auto

lemma plan_norm_map: "plan_norm (map plan_segment xs @ map plan_segment ys) = map plan_segment (coalesce (xs @ ys))"
  unfolding plan_norm_def by (simp del: map_map)

lemma visible_coalesce:
  "concat (map (plan_visible \<circ> plan_segment) (coalesce segs)) = concat (map (plan_visible \<circ> plan_segment) segs)"
proof (induction segs rule: rev_induct)
  case Nil
  then show ?case by simp
next
  case (snoc s segs)
  have "concat (map (\<lambda>x. plan_visible (plan_segment x)) (pushSegment zs s)) =
      concat (map (\<lambda>x. plan_visible (plan_segment x)) zs) @ plan_visible (plan_segment s)" for zs
    by (cases s; cases zs rule: rev_cases) (auto simp: pushSegment_def split: taggedLineSegment.splits)
  with snoc show ?case by (simp add: coalesce_append comp_def)
qed

definition plan_inv :: "ProposedPlanParser \<Rightarrow> bool" where
  "plan_inv p \<longleftrightarrow> tl_inv (planInner p)"

definition plan_meaning :: "ProposedPlanParser \<Rightarrow> string \<Rightarrow> ProposedPlanSegment StreamTextChunk" where
  "plan_meaning p t = mapPlanSegments (rest_segments (planInner p) (runes t))"

lemma mapPlanSegments_coalesce:
  assumes "coalesce xs = coalesce (ys @ zs)"
  shows "VisibleText (mapPlanSegments xs) = VisibleText (mapPlanSegments ys) @ VisibleText (mapPlanSegments zs)"
    and "plan_norm (Extracted (mapPlanSegments xs)) = plan_norm (Extracted (mapPlanSegments ys) @ Extracted (mapPlanSegments zs))"
proof -
  have "concat (map (plan_visible \<circ> plan_segment) xs) = concat (map (plan_visible \<circ> plan_segment) (ys @ zs))"
    using visible_coalesce [of xs] visible_coalesce [of "ys @ zs"] assms by simp
  then show "VisibleText (mapPlanSegments xs) = VisibleText (mapPlanSegments ys) @ VisibleText (mapPlanSegments zs)"
    by (simp add: mapPlanSegments_def)
  show "plan_norm (Extracted (mapPlanSegments xs)) = plan_norm (Extracted (mapPlanSegments ys) @ Extracted (mapPlanSegments zs))"
    using plan_norm_map [of xs "[]"] plan_norm_map [of ys zs] assms by (simp add: mapPlanSegments_def)
qed

lemma plan_norm_right: "plan_norm (xs @ plan_norm ys) = plan_norm (xs @ ys)"
  unfolding plan_norm_def map_append map_line_segment_of coalesce_right ..

interpretation plan: stream_text_parser "\<lambda>p t. Some (ProposedPlanParser_PushStr p t)" ProposedPlanParser_Finish
  plan_inv plan_meaning plan_norm valid_utf8
proof unfold_locales
  fix p t
  assume p: "plan_inv p" and t: "valid_utf8 t"
  obtain segs i where parse: "taggedLineParser_parse (planInner p) t = (segs, i)" by fastforce
  have inv: "tl_inv (planInner p)" using p by (simp add: plan_inv_def)
  have "coalesce (rest_segments (planInner p) (runes (t @ rest))) = coalesce (segs @ rest_segments i (runes rest))"
    if "valid_utf8 rest" for rest
    using parse_correct(2) [OF inv t parse] that runes_append [OF t] by (simp add: valid_utf8_def)
  then show "\<exists>c s'. Some (ProposedPlanParser_PushStr p t) = Some (c, s') \<and> plan_inv s' \<and>
      (\<forall>rest. valid_utf8 rest \<longrightarrow>
         VisibleText (plan_meaning p (t @ rest)) = VisibleText c @ VisibleText (plan_meaning s' rest) \<and>
         plan_norm (Extracted (plan_meaning p (t @ rest))) = plan_norm (Extracted c @ Extracted (plan_meaning s' rest)))"
    using parse parse_correct(1) [OF inv t parse] mapPlanSegments_coalesce
    by (simp add: ProposedPlanParser_PushStr_def plan_inv_def plan_meaning_def)
next
  fix p
  assume "plan_inv p"
  obtain segs i where fin: "taggedLineParser_finish (planInner p) = (segs, i)" by fastforce
  have "coalesce segs = coalesce (rest_segments (planInner p) [] @ [])"
    using finish_correct [OF _ fin] \<open>plan_inv p\<close> by (simp add: plan_inv_def)
  from mapPlanSegments_coalesce [OF this] show
    "VisibleText (fst (ProposedPlanParser_Finish p)) = VisibleText (plan_meaning p []) \<and>
     plan_norm (Extracted (fst (ProposedPlanParser_Finish p))) = plan_norm (Extracted (plan_meaning p []))"
    by (simp add: ProposedPlanParser_Finish_def fin plan_meaning_def mapPlanSegments_def)
qed (auto simp: valid_utf8_append plan_norm_right)

end
