(* ===== verification/Stream_Assistant.thy ===== *)
theory Stream_Assistant
  imports Stream_Inline Stream_Lines
begin

text \<open>
  The parser of assistant text (utils/streamparser/assistant\_text.go): citations are stripped first, and
  in plan mode the visible remainder goes through the plan parser. The two component parsers are used
  through the results of their interface; what is added here is that stripping citations from valid
  UTF-8 hands the plan parser valid UTF-8 in every chunk, so that no code point is torn apart.
\<close>

section \<open>Cutting valid UTF-8 at ASCII characters\<close>

lemma encode_rune_tl: "c \<in> set (tl (encode_rune r)) \<Longrightarrow> 0x80 \<le> byte c"
  using mod_64_le by (auto simp: encode_rune_def Let_def byte_char_of rune_error_def split: if_splits)

lemma valid_utf8_cut:
  assumes "valid_utf8 (u @ c # v)" and "byte c < 0x80"
  shows "valid_utf8 u" and "valid_utf8 (c # v)"
proof -
  from assms(1) obtain rs where "list_all valid_rune rs" "u @ c # v = encode_runes rs"
    by (auto simp: valid_utf8_iff)
  then have "valid_utf8 u \<and> valid_utf8 (c # v)"
  proof (induction rs arbitrary: u)
    case Nil
    then show ?case by simp
  next
    case (Cons r rs)
    show ?case
    proof (cases "length (encode_rune r) \<le> length u")
      case True
      have eq: "u @ c # v = encode_rune r @ encode_runes rs" using Cons.prems(2) by (simp add: encode_runes_Cons)
      then have "take (length (encode_rune r)) u = encode_rune r"
        using True by (metis append_eq_conv_conj take_append diff_is_0_eq' take0 append_Nil2)
      then obtain u' where u: "u = encode_rune r @ u'" by (metis append_take_drop_id)
      with eq have u': "u = encode_rune r @ u'" "u' @ c # v = encode_runes rs" by simp_all
      with Cons.IH [OF _ u'(2)] Cons.prems(1) have "valid_utf8 u'" "valid_utf8 (c # v)" by auto
      moreover have "valid_utf8 (encode_rune r)"
        using valid_utf8_encode [of "[r]"] Cons.prems(1) by (simp add: encode_runes_Cons)
      ultimately show ?thesis using u'(1) valid_utf8_append by simp
    next
      case False
      with Cons.prems(2) have "\<exists>w. u @ c # w = encode_rune r"
        by (auto simp: encode_runes_Cons append_eq_append_conv2 Cons_eq_append_conv)
      then obtain w where w: "encode_rune r = u @ c # w" by metis
      have "u = []"
      proof (rule ccontr)
        assume "u \<noteq> []"
        with w have "c \<in> set (tl (encode_rune r))" by (cases u) auto
        with encode_rune_tl assms(2) show False by (metis not_less)
      qed
      then show ?thesis
        using Cons.prems valid_utf8_encode [of "r # rs"] by simp
    qed
  qed
  then show "valid_utf8 u" and "valid_utf8 (c # v)" by auto
qed

lemma valid_utf8_ascii_Cons: "valid_utf8 (c # v) \<Longrightarrow> byte c < 0x80 \<Longrightarrow> valid_utf8 v"
  by (auto simp: valid_utf8_def runes_ascii_Cons encode_runes_Cons encode_byte_ascii)

lemma valid_utf8_cut_ascii:
  assumes "valid_utf8 (u @ d @ v)" and "list_all (\<lambda>c. byte c < 0x80) d" and "d \<noteq> []"
  shows "valid_utf8 u" and "valid_utf8 v"
proof -
  obtain c d' where d: "d = c # d'" using assms(3) by (cases d) auto
  show "valid_utf8 u" using valid_utf8_cut [of u c "d' @ v"] assms d by simp
  have "valid_utf8 (d @ v)" using valid_utf8_cut [of u c "d' @ v"] assms d by simp
  then show "valid_utf8 v" using assms(2) by (induction d) (auto dest: valid_utf8_ascii_Cons)
qed

section \<open>Stripping citations keeps text valid\<close>

definition ascii_delims :: "'t InlineTagSpec list \<Rightarrow> 't activeTag option \<Rightarrow> bool" where
  "ascii_delims specs act \<longleftrightarrow>
     (\<forall>spec \<in> set specs. specOpen spec \<noteq> [] \<and> specClose spec \<noteq> [] \<and>
        list_all (\<lambda>c. byte c < 0x80) (specOpen spec @ specClose spec)) \<and>
     (\<forall>a. act = Some a \<longrightarrow> activeClose a \<noteq> [] \<and> list_all (\<lambda>c. byte c < 0x80) (activeClose a))"

lemma longestSuffixPrefixLen_suffix:
  "HasSuffix s (take (longestSuffixPrefixLen s d) d) \<and> longestSuffixPrefixLen s d \<le> length d"
  by (auto simp: longestSuffixPrefixLen_def HasSuffix_iff split: option.splits dest!: find_SomeD)

lemma valid_utf8_drain:
  assumes "valid_utf8 p" and "list_all (\<lambda>c. byte c < 0x80) d" and "k = longestSuffixPrefixLen p d"
  shows "valid_utf8 (take (length p - k) p)" and "valid_utf8 (drop (length p - k) p)"
proof -
  from longestSuffixPrefixLen_suffix [of p d] assms(3) obtain u where u: "p = u @ take k d" "k \<le> length d"
    by (auto simp: HasSuffix_iff)
  have ascii: "list_all (\<lambda>c. byte c < 0x80) (take k d)"
    using assms(2) by (auto simp: list_all_iff dest: in_set_takeD)
  have "valid_utf8 u" using u(1) valid_utf8_cut_ascii(1) [of u "take k d" "[]"] ascii assms(1)
    by (cases "take k d = []") auto
  then show "valid_utf8 (take (length p - k) p)" and "valid_utf8 (drop (length p - k) p)"
    using u valid_utf8_ascii [OF ascii] by simp_all
qed

lemma maxOpenPrefixSuffixLen_cases:
  "maxOpenPrefixSuffixLen specs p = 0 \<or> (\<exists>spec \<in> set specs. maxOpenPrefixSuffixLen specs p = longestSuffixPrefixLen p (specOpen spec))"
  unfolding maxOpenPrefixSuffixLen_def
  by (induction specs rule: rev_induct) (auto simp: Let_def)

lemma Index_cut:
  assumes "valid_utf8 p" and "Index p d = Some i" and "list_all (\<lambda>c. byte c < 0x80) d" and "d \<noteq> []"
  shows "valid_utf8 (take i p)" and "valid_utf8 (drop (i + length d) p)"
  using valid_utf8_cut_ascii [of "take i p" d "drop (i + length d) p"] assms Index_split [OF assms(2)] by simp_all

lemma ascii_delimsD:
  "ascii_delims specs act \<Longrightarrow> spec \<in> set specs \<Longrightarrow> list_all (\<lambda>c. byte c < 0x80) (specOpen spec) \<and> specOpen spec \<noteq> []"
  "ascii_delims specs (Some a) \<Longrightarrow> list_all (\<lambda>c. byte c < 0x80) (activeClose a) \<and> activeClose a \<noteq> []"
  by (auto simp: ascii_delims_def)

lemma push_loop_valid:
  "push_loop specs p act out = Some (p', act', out') \<Longrightarrow> ascii_delims specs act \<Longrightarrow> valid_utf8 p \<Longrightarrow>
   valid_utf8 (VisibleText out) \<Longrightarrow> ascii_delims specs act' \<and> valid_utf8 p' \<and> valid_utf8 (VisibleText out')"
proof (induction "length p" arbitrary: p act out rule: less_induct)
  case (less p act out)
  show ?case
  proof (cases act)
    case (Some a)
    then have d: "list_all (\<lambda>c. byte c < 0x80) (activeClose a)" "activeClose a \<noteq> []"
      using ascii_delimsD(2) less.prems(2) by blast+
    show ?thesis
    proof (cases "Index p (activeClose a)")
      case None
      then show ?thesis
        using less.prems \<open>act = Some a\<close> valid_utf8_drain [OF less.prems(3) d(1) refl]
        by (subst (asm) push_loop.simps) (auto simp: Let_def ascii_delims_def split: if_splits)
    next
      case (Some i)
      have "ascii_delims specs None" using less.prems(2) by (simp add: ascii_delims_def)
      moreover have "push_loop specs (drop (i + length (activeClose a)) p) None
          (out\<lparr>Extracted := Extracted out @ [\<lparr>extractedTag = activeTag a, extractedContent = activeContent a @ take i p\<rparr>]\<rparr>) =
          Some (p', act', out')"
        using less.prems(1) \<open>act = Some a\<close> Some by (subst (asm) push_loop.simps) simp
      ultimately show ?thesis
        using less.hyps [OF Index_rest_shorter [OF Some d(2)]] Index_cut(2) [OF less.prems(3) Some d] less.prems(4)
        by simp
    qed
  next
    case None
    show ?thesis
    proof (cases "findNextOpen specs p")
      case none: None
      have "valid_utf8 (take (length p - k) p) \<and> valid_utf8 (drop (length p - k) p)" if "k = maxOpenPrefixSuffixLen specs p" for k
        using maxOpenPrefixSuffixLen_cases [of specs p] valid_utf8_drain [OF less.prems(3)]
          ascii_delimsD(1) [OF less.prems(2)] less.prems(3) that by fastforce
      then show ?thesis
        using less.prems None none valid_utf8_append
        by (subst (asm) push_loop.simps) (auto simp: drainVisibleToSuffixMatch_def Let_def split: if_splits)
    next
      case (Some f)
      obtain pos idx where f: "findNextOpen specs p = Some (pos, idx)" using Some by (cases f) auto
      note o = findNextOpen_SomeD [OF f]
      have d: "list_all (\<lambda>c. byte c < 0x80) (specOpen (specs ! idx))" "specOpen (specs ! idx) \<noteq> []"
        using ascii_delimsD(1) [OF less.prems(2)] o(1) by auto
      let ?act = "Some \<lparr>activeTag = specTag (specs ! idx), activeClose = specClose (specs ! idx), activeContent = []\<rparr>"
      have "ascii_delims specs ?act" using less.prems(2) o(1) by (auto simp: ascii_delims_def)
      moreover have "push_loop specs (drop (pos + length (specOpen (specs ! idx))) p) ?act
          (out\<lparr>VisibleText := VisibleText out @ take pos p\<rparr>) = Some (p', act', out')"
        using less.prems(1) None f by (subst (asm) push_loop.simps) (simp add: Let_def)
      ultimately show ?thesis
        using less.hyps [OF Index_rest_shorter [OF o(2) d(2)]] Index_cut [OF less.prems(3) o(2) d]
          valid_utf8_append [OF less.prems(4)] by simp
    qed
  qed
qed


section \<open>The parser\<close>

record AssistantTextChunk =
  atVisibleText :: string
  atCitations :: "string list"
  atPlanSegments :: "ProposedPlanSegment list"

definition AssistantTextChunk_IsEmpty :: "AssistantTextChunk \<Rightarrow> bool" where
  "AssistantTextChunk_IsEmpty c \<longleftrightarrow> atVisibleText c = [] \<and> atCitations c = [] \<and> atPlanSegments c = []"

record AssistantTextStreamParser =
  planMode :: bool
  atCitationParser :: CitationStreamParser
  atPlanParser :: ProposedPlanParser

definition NewAssistantTextStreamParser :: "bool \<Rightarrow> AssistantTextStreamParser option" where
  "NewAssistantTextStreamParser mode =
     map_option (\<lambda>c. \<lparr>planMode = mode, atCitationParser = c, atPlanParser = NewProposedPlanParser\<rparr>) NewCitationStreamParser"

definition parseVisibleText :: "AssistantTextStreamParser \<Rightarrow> string \<Rightarrow> AssistantTextChunk \<times> AssistantTextStreamParser" where
  "parseVisibleText a text =
     (if \<not> planMode a then (\<lparr>atVisibleText = text, atCitations = [], atPlanSegments = []\<rparr>, a)
      else (case ProposedPlanParser_PushStr (atPlanParser a) text of
              (c, plan) \<Rightarrow>
                (\<lparr>atVisibleText = VisibleText c, atCitations = [], atPlanSegments = Extracted c\<rparr>, a\<lparr>atPlanParser := plan\<rparr>)))"

definition AssistantTextStreamParser_PushStr :: "AssistantTextStreamParser \<Rightarrow> string \<Rightarrow> (AssistantTextChunk \<times> AssistantTextStreamParser) option" where
  "AssistantTextStreamParser_PushStr a chunk =
     map_option (\<lambda>(citationChunk, citations).
         case parseVisibleText (a\<lparr>atCitationParser := citations\<rparr>) (VisibleText citationChunk) of
           (out, a') \<Rightarrow> (out\<lparr>atCitations := Extracted citationChunk\<rparr>, a'))
       (CitationStreamParser_PushStr (atCitationParser a) chunk)"

definition AssistantTextStreamParser_Finish :: "AssistantTextStreamParser \<Rightarrow> AssistantTextChunk \<times> AssistantTextStreamParser" where
  "AssistantTextStreamParser_Finish a =
     (case CitationStreamParser_Finish (atCitationParser a) of
        (citationChunk, citations) \<Rightarrow>
          (case parseVisibleText (a\<lparr>atCitationParser := citations\<rparr>) (VisibleText citationChunk) of
             (out, a') \<Rightarrow>
               if planMode a' then
                 (case ProposedPlanParser_Finish (atPlanParser a') of
                    (tail, plan) \<Rightarrow>
                      let tailChunk = \<lparr>atVisibleText = VisibleText tail, atCitations = [], atPlanSegments = Extracted tail\<rparr>;
                          out' = (if AssistantTextChunk_IsEmpty tailChunk then out
                                  else out\<lparr>atVisibleText := atVisibleText out @ atVisibleText tailChunk,
                                           atPlanSegments := atPlanSegments out @ atPlanSegments tailChunk\<rparr>) in
                      (out'\<lparr>atCitations := Extracted citationChunk\<rparr>, a'\<lparr>atPlanParser := plan\<rparr>))
               else (out\<lparr>atCitations := Extracted citationChunk\<rparr>, a')))"

definition assistant_append :: "AssistantTextChunk \<Rightarrow> AssistantTextChunk \<Rightarrow> AssistantTextChunk" where
  "assistant_append c d =
     \<lparr>atVisibleText = atVisibleText c @ atVisibleText d, atCitations = atCitations c @ atCitations d,
      atPlanSegments = atPlanSegments c @ atPlanSegments d\<rparr>"

text \<open>Feeding chunks and flushing, with the outputs accumulated.\<close>

fun assistant_feed :: "AssistantTextStreamParser \<Rightarrow> string list \<Rightarrow> AssistantTextChunk option" where
  "assistant_feed a [] = Some (fst (AssistantTextStreamParser_Finish a))"
| "assistant_feed a (t # ts) =
     Option.bind (AssistantTextStreamParser_PushStr a t) (\<lambda>(c, a'). map_option (assistant_append c) (assistant_feed a' ts))"

section \<open>Correctness\<close>

text \<open>What assistant text means: the reference passes for citations and for plan lines, in this order.\<close>

definition assistant_text :: "bool \<Rightarrow> string \<Rightarrow> AssistantTextChunk" where
  "assistant_text mode text =
     (let stripped = hide citationSpecs None text;
          segs = map plan_segment (line_segments planSpecs None (runes (VisibleText stripped))) in
      \<lparr>atVisibleText = (if mode then concat (map plan_visible segs) else VisibleText stripped),
       atCitations = map extractedContent (Extracted stripped),
       atPlanSegments = (if mode then segs else [])\<rparr>)"

definition assistant_inv :: "AssistantTextStreamParser \<Rightarrow> bool" where
  "assistant_inv a \<longleftrightarrow>
     citation_inv (atCitationParser a) \<and> plan_inv (atPlanParser a) \<and>
     (case citationInner (atCitationParser a) of i \<Rightarrow> ascii_delims (ihSpecs i) (ihActive i) \<and> valid_utf8 (ihPending i))"

definition assistant_meaning :: "AssistantTextStreamParser \<Rightarrow> string \<Rightarrow> AssistantTextChunk" where
  "assistant_meaning a t =
     (let c = citation_meaning (atCitationParser a) t; d = plan_meaning (atPlanParser a) (VisibleText c) in
      \<lparr>atVisibleText = (if planMode a then VisibleText d else VisibleText c), atCitations = Extracted c,
       atPlanSegments = (if planMode a then Extracted d else [])\<rparr>)"

definition same_output :: "AssistantTextChunk \<Rightarrow> AssistantTextChunk \<Rightarrow> bool" where
  "same_output c d \<longleftrightarrow> atVisibleText c = atVisibleText d \<and> atCitations c = atCitations d \<and>
     plan_norm (atPlanSegments c) = plan_norm (atPlanSegments d)"

lemma CitationStreamParser_PushStr_valid:
  assumes "CitationStreamParser_PushStr p t = Some (c, p')" and "valid_utf8 t"
    and "ascii_delims (ihSpecs (citationInner p)) (ihActive (citationInner p))" and "valid_utf8 (ihPending (citationInner p))"
  shows "valid_utf8 (VisibleText c)"
    and "ascii_delims (ihSpecs (citationInner p')) (ihActive (citationInner p'))" and "valid_utf8 (ihPending (citationInner p'))"
  using assms push_loop_valid [of "ihSpecs (citationInner p)" "ihPending (citationInner p) @ t" "ihActive (citationInner p)" empty_stream_chunk]
  by (auto simp: CitationStreamParser_PushStr_def InlineHiddenTagParser_PushStr_def mapExtractedToContent_def valid_utf8_append)

lemma CitationStreamParser_Finish_valid:
  assumes "valid_utf8 (ihPending (citationInner p))"
  shows "valid_utf8 (VisibleText (fst (CitationStreamParser_Finish p)))"
  using assms by (auto simp: CitationStreamParser_Finish_def InlineHiddenTagParser_Finish_def mapExtractedToContent_def split: option.splits)


lemma citation_push:
  assumes "citation_inv p" and "ascii_delims (ihSpecs (citationInner p)) (ihActive (citationInner p))"
    and "valid_utf8 (ihPending (citationInner p))" and "valid_utf8 t"
  shows "\<exists>c p'. CitationStreamParser_PushStr p t = Some (c, p') \<and> citation_inv p' \<and> valid_utf8 (VisibleText c) \<and>
    ascii_delims (ihSpecs (citationInner p')) (ihActive (citationInner p')) \<and> valid_utf8 (ihPending (citationInner p')) \<and>
    (\<forall>rest. VisibleText (citation_meaning p (t @ rest)) = VisibleText c @ VisibleText (citation_meaning p' rest)) \<and>
    (\<forall>rest. Extracted (citation_meaning p (t @ rest)) = Extracted c @ Extracted (citation_meaning p' rest))"
proof -
  obtain c p' where r: "CitationStreamParser_PushStr p t = Some (c, p')" "citation_inv p'"
    "\<forall>rest. VisibleText (citation_meaning p (t @ rest)) = VisibleText c @ VisibleText (citation_meaning p' rest) \<and>
       Extracted (citation_meaning p (t @ rest)) = Extracted c @ Extracted (citation_meaning p' rest)"
    using citation.push_meaning [OF assms(1), of t] by auto
  with CitationStreamParser_PushStr_valid [OF r(1) assms(4,2,3)] show ?thesis by blast
qed

lemma citation_finish:
  assumes "citation_inv p"
  shows "VisibleText (fst (CitationStreamParser_Finish p)) = VisibleText (citation_meaning p [])"
    and "Extracted (fst (CitationStreamParser_Finish p)) = Extracted (citation_meaning p [])"
  using citation.finish_meaning [OF assms] by auto

lemma citation_meaning_valid:
  assumes "citation_inv p" and "ascii_delims (ihSpecs (citationInner p)) (ihActive (citationInner p))"
    and "valid_utf8 (ihPending (citationInner p))" and "valid_utf8 t"
  shows "valid_utf8 (VisibleText (citation_meaning p t))"
proof -
  from citation_push [OF assms] obtain c p' where
    r: "CitationStreamParser_PushStr p t = Some (c, p')" "citation_inv p'" "valid_utf8 (VisibleText c)"
    "ascii_delims (ihSpecs (citationInner p')) (ihActive (citationInner p'))" "valid_utf8 (ihPending (citationInner p'))"
    and m: "\<forall>rest. VisibleText (citation_meaning p (t @ rest)) = VisibleText c @ VisibleText (citation_meaning p' rest)"
    by blast
  have "VisibleText (citation_meaning p t) = VisibleText c @ VisibleText (fst (CitationStreamParser_Finish p'))"
    using m [rule_format, of "[]"] citation_finish(1) [OF r(2)] by simp
  then show ?thesis using valid_utf8_append [OF r(3) CitationStreamParser_Finish_valid [OF r(5)]] by simp
qed

lemma plan_push:
  assumes "plan_inv p" and "valid_utf8 t" and "ProposedPlanParser_PushStr p t = (c, p')"
  shows "plan_inv p'"
    and "valid_utf8 rest \<Longrightarrow> VisibleText (plan_meaning p (t @ rest)) = VisibleText c @ VisibleText (plan_meaning p' rest)"
    and "valid_utf8 rest \<Longrightarrow>
      plan_norm (Extracted (plan_meaning p (t @ rest))) = plan_norm (Extracted c @ Extracted (plan_meaning p' rest))"
  using plan.push_meaning [OF assms(1,2)] assms(3) by auto

lemma assistant_push:
  assumes "assistant_inv a" and "valid_utf8 t"
  shows "\<exists>c a'. AssistantTextStreamParser_PushStr a t = Some (c, a') \<and> assistant_inv a' \<and>
    (\<forall>rest. valid_utf8 rest \<longrightarrow> same_output (assistant_meaning a (t @ rest)) (assistant_append c (assistant_meaning a' rest)))"
proof -
  have inv: "citation_inv (atCitationParser a)" "plan_inv (atPlanParser a)"
    "ascii_delims (ihSpecs (citationInner (atCitationParser a))) (ihActive (citationInner (atCitationParser a)))"
    "valid_utf8 (ihPending (citationInner (atCitationParser a)))"
    using assms(1) by (simp_all add: assistant_inv_def)
  from citation_push [OF inv(1,3,4) assms(2)] obtain c p' where r:
    "CitationStreamParser_PushStr (atCitationParser a) t = Some (c, p')" "citation_inv p'" "valid_utf8 (VisibleText c)"
    "ascii_delims (ihSpecs (citationInner p')) (ihActive (citationInner p'))" "valid_utf8 (ihPending (citationInner p'))"
    and m: "\<forall>rest. VisibleText (citation_meaning (atCitationParser a) (t @ rest)) = VisibleText c @ VisibleText (citation_meaning p' rest)"
    "\<forall>rest. Extracted (citation_meaning (atCitationParser a) (t @ rest)) = Extracted c @ Extracted (citation_meaning p' rest)"
    by blast
  obtain d q where q: "ProposedPlanParser_PushStr (atPlanParser a) (VisibleText c) = (d, q)" by fastforce
  note plan = plan_push [OF inv(2) r(3) q]
  show ?thesis
    using r m q inv(2) plan citation_meaning_valid [OF r(2,4,5)]
    by (cases "planMode a")
      (auto simp: AssistantTextStreamParser_PushStr_def parseVisibleText_def assistant_inv_def assistant_meaning_def
        assistant_append_def same_output_def Let_def)
qed

lemma assistant_finish:
  assumes "assistant_inv a"
  shows "same_output (fst (AssistantTextStreamParser_Finish a)) (assistant_meaning a [])"
proof -
  have inv: "citation_inv (atCitationParser a)" "plan_inv (atPlanParser a)"
    "valid_utf8 (ihPending (citationInner (atCitationParser a)))"
    using assms(1) by (simp_all add: assistant_inv_def)
  let ?c = "fst (CitationStreamParser_Finish (atCitationParser a))"
  obtain d q where q: "ProposedPlanParser_PushStr (atPlanParser a) (VisibleText ?c) = (d, q)" by fastforce
  note plan = plan_push [OF inv(2) CitationStreamParser_Finish_valid [OF inv(3)] q]
  note fin = plan.finish_meaning [OF plan(1)]
  have "plan_norm (Extracted d @ Extracted (fst (ProposedPlanParser_Finish q))) =
      plan_norm (Extracted d @ Extracted (plan_meaning q []))"
    using fin plan.norm_append_cong by blast
  with plan(2,3) [of "[]"] fin q show ?thesis
    using citation_finish [OF inv(1)]
    by (auto simp: AssistantTextStreamParser_Finish_def parseVisibleText_def assistant_meaning_def same_output_def
        AssistantTextChunk_IsEmpty_def Let_def case_prod_beta)
qed

lemma same_output_append:
  "same_output c d \<Longrightarrow> same_output (assistant_append b c) (assistant_append b d)"
  using plan.norm_append_cong [of "atPlanSegments c" "atPlanSegments d" "atPlanSegments b"]
  by (simp add: same_output_def assistant_append_def)

lemma assistant_feed_meaning:
  "assistant_inv a \<Longrightarrow> list_all valid_utf8 ts \<Longrightarrow>
   \<exists>c. assistant_feed a ts = Some c \<and> same_output c (assistant_meaning a (concat ts))"
proof (induction ts arbitrary: a)
  case Nil
  then show ?case using assistant_finish by simp
next
  case (Cons t ts)
  then obtain c a' where c: "AssistantTextStreamParser_PushStr a t = Some (c, a')" "assistant_inv a'"
    and m: "\<And>rest. valid_utf8 rest \<Longrightarrow> same_output (assistant_meaning a (t @ rest)) (assistant_append c (assistant_meaning a' rest))"
    using assistant_push [of a t] by auto
  from Cons.IH [OF c(2)] Cons.prems obtain d where d: "assistant_feed a' ts = Some d"
    "same_output d (assistant_meaning a' (concat ts))" by auto
  have "valid_utf8 (concat ts)" using Cons.prems(2) by (induction ts) (auto intro: valid_utf8_append)
  with m same_output_append [OF d(2), of c] have "same_output (assistant_append c d) (assistant_meaning a (t @ concat ts))"
    by (auto simp: same_output_def)
  then show ?case using c d by simp
qed

text \<open>
  C9. Streaming parser of assistant text: for every division of a text into chunks that are valid
  UTF-8, and in both modes, feeding the chunks and finishing returns, and the accumulated visible
  text, citations and plan segments are those of the reference passes over the whole text: citations are
  stripped, and in plan mode the remaining lines are classified one by one (plan segments are
  compared up to merging adjacent text).
\<close>

theorem assistant_stream_correct:
  assumes "list_all valid_utf8 chunks"
  shows "\<exists>a c. NewAssistantTextStreamParser mode = Some a \<and> assistant_feed a chunks = Some c \<and>
           same_output c (assistant_text mode (concat chunks))"
proof -
  obtain p where p: "NewCitationStreamParser = Some p" "citation_inv p"
    "\<And>t. citation_meaning p t = mapExtractedToContent (hide citationSpecs None t)"
    using citation_parser_new by blast
  then have i: "citationInner p = \<lparr>ihSpecs = citationSpecs, ihPending = [], ihActive = None\<rparr>"
    using NewInlineHiddenTagParser_good [OF good_citationSpecs] by (auto simp: NewCitationStreamParser_def)
  let ?a = "\<lparr>planMode = mode, atCitationParser = p, atPlanParser = NewProposedPlanParser\<rparr>"
  have "ascii_delims citationSpecs None"
    by (simp add: ascii_delims_def citationSpecs_def citationOpen_def citationClose_def)
  then have "assistant_inv ?a"
    using p(2) tl_inv_new by (simp add: assistant_inv_def i plan_inv_def NewProposedPlanParser_def)
  moreover have "assistant_meaning ?a t = assistant_text mode t" for t
    by (simp add: assistant_meaning_def assistant_text_def p(3) mapExtractedToContent_def plan_meaning_def
        NewProposedPlanParser_def rest_segments_new mapPlanSegments_def Let_def)
  moreover have "NewAssistantTextStreamParser mode = Some ?a" by (simp add: NewAssistantTextStreamParser_def p(1))
  ultimately show ?thesis using assistant_feed_meaning [of ?a chunks] assms by auto
qed

theorem assistant_stream_correct_witness:
  "list_all valid_utf8 [''x<oai-mem-ci'', ''tation>u</oai-mem'', ''-citation>y''] \<and>
   (\<exists>a c. NewAssistantTextStreamParser False = Some a \<and>
      assistant_feed a [''x<oai-mem-ci'', ''tation>u</oai-mem'', ''-citation>y''] = Some c \<and>
      atVisibleText c = ''xy'' \<and> atCitations c = [''u''])"
proof -
  let ?chunks = "[''x<oai-mem-ci'', ''tation>u</oai-mem'', ''-citation>y'']"
  have valid: "list_all valid_utf8 ?chunks" by (simp add: valid_utf8_ascii)
  have "hide citationSpecs None (concat ?chunks) =
      \<lparr>VisibleText = ''xy'', Extracted = [\<lparr>extractedTag = citationTagCitation, extractedContent = ''u''\<rparr>]\<rparr>"
    by (simp add: citationSpecs_def citationOpen_def citationClose_def opener_at_def HasPrefix_def chunk_append_def
        visible_def payload_def)
  then have "atVisibleText (assistant_text False (concat ?chunks)) = ''xy''"
    and "atCitations (assistant_text False (concat ?chunks)) = [''u'']"
    by (simp_all only: assistant_text_def Let_def) simp_all
  with assistant_stream_correct [OF valid, of False] valid show ?thesis
    unfolding same_output_def by metis
qed

end
