(* ===== verification/Stream_Utf8.thy ===== *)
theory Stream_Utf8
  imports Stream_Assistant
begin

text \<open>
  Raw byte streams: the UTF-8 validator (utils/streamparser/utf8\_validate.go) and the adapter that feeds a text
  parser with bytes (utf8\_stream.go). The adapter is a client of the parser interface: inside an extension
  of the locale it is proved that any division of valid UTF-8 into byte chunks, also in the middle of
  a code point, gives the output of the wrapped parser on the whole text.
\<close>

section \<open>Validation\<close>

record utf8DecodeResult =
  u8ok :: bool
  u8validUpTo :: nat
  u8errorLen :: nat

text \<open>The size announced by a leading byte; \<open>None\<close> for a byte that cannot start a sequence.\<close>

definition lead_size :: "nat \<Rightarrow> nat option" where
  "lead_size first =
     (if 0xC2 \<le> first \<and> first \<le> 0xDF then Some 2
      else if 0xE0 \<le> first \<and> first \<le> 0xEF then Some 3
      else if 0xF0 \<le> first \<and> first \<le> 0xF4 then Some 4
      else None)"

text \<open>The inner loop over the continuation bytes: \<open>None\<close> if all are accepted, else the error length.\<close>

function check_cont :: "nat \<Rightarrow> nat \<Rightarrow> nat \<Rightarrow> string \<Rightarrow> nat option" where
  "check_cont first j n bs =
     (if n \<le> j then None
      else (case bs of
              [] \<Rightarrow> Some 0
            | c # cs \<Rightarrow>
                if j = 1 then
                  (case second_range first of (lo, hi) \<Rightarrow>
                     if byte c < lo \<or> hi < byte c then Some 1 else check_cont first (j + 1) n cs)
                else if byte c < 0x80 \<or> 0xBF < byte c then Some j
                else check_cont first (j + 1) n cs))"
  by pat_completeness auto
termination
  by (relation "measure (\<lambda>(first, j, n, bs). n - j)") auto

declare check_cont.simps [simp del]

function validate_loop :: "nat \<Rightarrow> string \<Rightarrow> utf8DecodeResult" where
  "validate_loop i [] = \<lparr>u8ok = True, u8validUpTo = i, u8errorLen = 0\<rparr>"
| "validate_loop i (c # cs) =
     (if byte c < 0x80 then validate_loop (i + 1) cs
      else (case lead_size (byte c) of
              None \<Rightarrow> \<lparr>u8ok = False, u8validUpTo = i, u8errorLen = 1\<rparr>
            | Some n \<Rightarrow>
                (case check_cont (byte c) 1 n cs of
                   Some e \<Rightarrow> \<lparr>u8ok = False, u8validUpTo = i, u8errorLen = e\<rparr>
                 | None \<Rightarrow> validate_loop (i + n) (drop (n - 1) cs))))"
  by pat_completeness auto
termination
  by (relation "measure (\<lambda>(i, s). length s)") auto

definition validateUTF8 :: "string \<Rightarrow> utf8DecodeResult" where
  "validateUTF8 b = validate_loop 0 b"

section \<open>The adapter\<close>

datatype Utf8StreamParserError = Utf8InvalidUtf8 nat nat | Utf8IncompleteAtEof

fun Utf8StreamParserError_Error :: "Utf8StreamParserError \<Rightarrow> string" where
  "Utf8StreamParserError_Error (Utf8InvalidUtf8 validUpTo errorLen) =
     ''invalid UTF-8 in streamed bytes at offset '' @ itoa (int validUpTo) @ '' (error length '' @ itoa (int errorLen) @ '')''"
| "Utf8StreamParserError_Error Utf8IncompleteAtEof = ''incomplete UTF-8 code point at end of stream''"

record 's Utf8StreamParser =
  u8Inner :: 's
  u8Pending :: string

definition NewUtf8StreamParser :: "'s \<Rightarrow> 's Utf8StreamParser" where
  "NewUtf8StreamParser s = \<lparr>u8Inner = s, u8Pending = []\<rparr>"

type_synonym ('s, 'x) push_fun = "'s \<Rightarrow> string \<Rightarrow> ('x StreamTextChunk \<times> 's) option"

definition Utf8StreamParser_PushBytes :: "('s, 'x) push_fun \<Rightarrow> 's Utf8StreamParser \<Rightarrow> string
    \<Rightarrow> ((Utf8StreamParserError + 'x StreamTextChunk) \<times> 's Utf8StreamParser) option" where
  "Utf8StreamParser_PushBytes push u chunk =
     (let buf = u8Pending u @ chunk; res = validateUTF8 buf; validUpTo = u8validUpTo res in
      if u8ok res then
        map_option (\<lambda>(out, s). (Inr out, \<lparr>u8Inner = s, u8Pending = []\<rparr>)) (push (u8Inner u) buf)
      else if 0 < u8errorLen res then Some (Inl (Utf8InvalidUtf8 validUpTo (u8errorLen res)), u)
      else if validUpTo = 0 then Some (Inr empty_stream_chunk, u\<lparr>u8Pending := buf\<rparr>)
      else
        let prefix = take validUpTo buf; pres = validateUTF8 prefix in
        if \<not> u8ok pres then Some (Inl (Utf8InvalidUtf8 (u8validUpTo pres) (u8errorLen pres)), u)
        else map_option (\<lambda>(out, s). (Inr out, \<lparr>u8Inner = s, u8Pending = drop validUpTo buf\<rparr>)) (push (u8Inner u) prefix))"

definition Utf8StreamParser_Finish :: "('s, 'x) push_fun \<Rightarrow> ('s \<Rightarrow> 'x StreamTextChunk \<times> 's) \<Rightarrow> 's Utf8StreamParser
    \<Rightarrow> ((Utf8StreamParserError + 'x StreamTextChunk) \<times> 's Utf8StreamParser) option" where
  "Utf8StreamParser_Finish push finish u =
     (let res = validateUTF8 (u8Pending u) in
      if u8Pending u \<noteq> [] \<and> \<not> u8ok res then
        Some (Inl (if 0 < u8errorLen res then Utf8InvalidUtf8 (u8validUpTo res) (u8errorLen res) else Utf8IncompleteAtEof), u)
      else
        map_option (\<lambda>(out, s). case finish s of (tail, s') \<Rightarrow> (Inr (chunk_append out tail), \<lparr>u8Inner = s', u8Pending = []\<rparr>))
          (if u8Pending u \<noteq> [] then push (u8Inner u) (u8Pending u) else Some (empty_stream_chunk, u8Inner u)))"

definition Utf8StreamParser_IntoInner :: "'s Utf8StreamParser \<Rightarrow> Utf8StreamParserError + 's" where
  "Utf8StreamParser_IntoInner u =
     (let res = validateUTF8 (u8Pending u) in
      if u8Pending u = [] \<or> u8ok res then Inr (u8Inner u)
      else if 0 < u8errorLen res then Inl (Utf8InvalidUtf8 (u8validUpTo res) (u8errorLen res))
      else Inl Utf8IncompleteAtEof)"

definition Utf8StreamParser_IntoInnerLossy :: "'s Utf8StreamParser \<Rightarrow> 's" where
  "Utf8StreamParser_IntoInnerLossy u = u8Inner u"

text \<open>Feeding byte chunks up to the first error, then finishing.\<close>

fun byte_feed :: "('s, 'x) push_fun \<Rightarrow> ('s \<Rightarrow> 'x StreamTextChunk \<times> 's) \<Rightarrow> 's Utf8StreamParser \<Rightarrow> string list
    \<Rightarrow> (Utf8StreamParserError + 'x StreamTextChunk) option" where
  "byte_feed push finish u [] = map_option fst (Utf8StreamParser_Finish push finish u)"
| "byte_feed push finish u (b # bs) =
     Option.bind (Utf8StreamParser_PushBytes push u b) (\<lambda>(r, u').
       case r of Inl e \<Rightarrow> Some (Inl e)
       | Inr c \<Rightarrow> map_option (map_sum (\<lambda>e. e) (chunk_append c)) (byte_feed push finish u' bs))"

section \<open>The validator accepts exactly valid UTF-8\<close>

lemma lead_size_SomeD: "lead_size b = Some n \<Longrightarrow> 0x80 \<le> b \<and> n \<in> {2, 3, 4}"
  by (auto simp: lead_size_def split: if_splits)

lemma check_cont_two: "check_cont b 1 2 cs = None \<longleftrightarrow>
    (\<exists>c1 r. cs = c1 # r \<and> cont_byte (fst (second_range b)) (snd (second_range b)) c1)"
  by (simp add: check_cont.simps cont_byte_def case_prod_beta not_less conj_commute split: list.splits)

lemma check_cont_from_two:
  "check_cont b (Suc (Suc 0)) 3 cs = None \<longleftrightarrow> (\<exists>c2 r. cs = c2 # r \<and> cont_byte 0x80 0xBF c2)"
  "check_cont b (Suc (Suc 0)) 4 cs = None \<longleftrightarrow> (\<exists>c2 c3 r. cs = c2 # c3 # r \<and> cont_byte 0x80 0xBF c2 \<and> cont_byte 0x80 0xBF c3)"
  by (auto simp: check_cont.simps cont_byte_def not_less split: list.splits)

lemma check_cont_more:
  "check_cont b 1 3 cs = None \<longleftrightarrow>
    (\<exists>c1 c2 r. cs = c1 # c2 # r \<and> cont_byte (fst (second_range b)) (snd (second_range b)) c1 \<and> cont_byte 0x80 0xBF c2)"
  "check_cont b 1 4 cs = None \<longleftrightarrow>
    (\<exists>c1 c2 c3 r. cs = c1 # c2 # c3 # r \<and> cont_byte (fst (second_range b)) (snd (second_range b)) c1 \<and>
       cont_byte 0x80 0xBF c2 \<and> cont_byte 0x80 0xBF c3)"
  using check_cont.simps [of b 1 3 cs] check_cont.simps [of b 1 4 cs]
  by (cases cs; auto simp: check_cont_from_two case_prod_beta cont_byte_def not_less)+

text \<open>The loop accepts a sequence exactly if utf8.DecodeRune does.\<close>

lemma check_cont_decode:
  assumes "lead_size (byte c) = Some n"
  shows "check_cont (byte c) 1 n cs = None \<longleftrightarrow> snd (decode_rune (c # cs)) = n"
proof -
  obtain lo hi where sr: "second_range (byte c) = (lo, hi)" by fastforce
  from assms consider "n = 2" "0xC2 \<le> byte c \<and> byte c \<le> 0xDF" | "n = 3" "0xE0 \<le> byte c \<and> byte c \<le> 0xEF"
    | "n = 4" "0xF0 \<le> byte c \<and> byte c \<le> 0xF4"
    by (auto simp: lead_size_def split: if_splits)
  then show ?thesis
  proof cases
    case 1
    then show ?thesis unfolding 1(1) check_cont_two
      by (auto simp: decode_rune.simps Let_def sr split: list.splits)
  next
    case 2
    then show ?thesis unfolding 2(1) check_cont_more
      by (auto simp: decode_rune.simps Let_def sr split: list.splits)
  next
    case 3
    then show ?thesis unfolding 3(1) check_cont_more
      by (auto simp: decode_rune.simps Let_def sr split: list.splits)
  qed
qed

lemma decode_wide:
  assumes "decode_rune (c # cs) = (r, w)" and "w \<noteq> 1"
  shows "lead_size (byte c) = Some w"
  using assms by (auto simp: decode_rune.simps lead_size_def Let_def case_prod_beta split: if_splits list.splits)

lemma validate_encode_rune:
  assumes "valid_rune r"
  shows "validate_loop i (encode_rune r @ s) = validate_loop (i + length (encode_rune r)) s"
proof (cases "r < 0x80")
  case True
  then show ?thesis by (simp add: encode_rune_ascii byte_char_of)
next
  case False
  obtain c cs where e: "encode_rune r = c # cs" by (cases "encode_rune r") auto
  have "cs \<noteq> []" using False e by (auto simp: encode_rune_def Let_def rune_error_def split: if_splits)
  have dec: "decode_rune (c # cs @ s) = (r, length (encode_rune r))" using decode_encode [OF assms, of s] e by simp
  moreover have w: "length (encode_rune r) \<noteq> 1" using e \<open>cs \<noteq> []\<close> by simp
  ultimately have lead: "lead_size (byte c) = Some (length (encode_rune r))" by (rule decode_wide)
  have "check_cont (byte c) 1 (length (encode_rune r)) (cs @ s) = None"
    using check_cont_decode [OF lead, of "cs @ s"] dec by simp
  then show ?thesis using lead lead_size_SomeD [OF lead] e by simp
qed

lemma validate_encode_runes:
  "list_all valid_rune rs \<Longrightarrow> validate_loop i (encode_runes rs @ s) = validate_loop (i + length (encode_runes rs)) s"
  by (induction rs arbitrary: i) (simp_all add: encode_runes_Cons validate_encode_rune add.assoc)

lemma check_cont_accept:
  assumes "check_cont b j n (c # ys) = None" and "j < n"
  shows "check_cont b j n (c # zs) = check_cont b (Suc j) n zs"
  using assms check_cont.simps [of b j n "c # ys"] check_cont.simps [of b j n "c # zs"]
  by (simp add: case_prod_beta split: if_splits)

lemma check_cont_truncated:
  "check_cont b j n (xs @ ys) = None \<Longrightarrow> length xs < n - j \<Longrightarrow> check_cont b j n xs = Some 0"
proof (induction xs arbitrary: j)
  case Nil
  then show ?case by (simp add: check_cont.simps)
next
  case (Cons c xs)
  then have "check_cont b j n (c # zs) = check_cont b (Suc j) n zs" for zs
    using check_cont_accept [of b j n c "xs @ ys"] by simp
  with Cons show ?case by simp
qed

text \<open>A sequence cut short is reported as incomplete.\<close>

lemma validate_truncated:
  assumes "valid_rune r" and "encode_rune r = t @ u" and "t \<noteq> []" and "u \<noteq> []"
  shows "validate_loop i t = \<lparr>u8ok = False, u8validUpTo = i, u8errorLen = 0\<rparr>"
proof -
  obtain c cs where t: "t = c # cs" using assms(3) by (cases t) auto
  have dec: "decode_rune (c # cs @ u) = (r, length (encode_rune r))"
    using decode_encode [OF assms(1), of "[]"] assms(2) t by simp
  moreover have "length (encode_rune r) \<noteq> 1" using assms(2,4) t by simp
  ultimately have lead: "lead_size (byte c) = Some (length (encode_rune r))" by (rule decode_wide)
  have "check_cont (byte c) 1 (length (encode_rune r)) (cs @ u) = None"
    using check_cont_decode [OF lead, of "cs @ u"] dec by simp
  then have "check_cont (byte c) 1 (length (encode_rune r)) cs = Some 0"
    using check_cont_truncated assms(2,4) t by fastforce
  then show ?thesis using lead lead_size_SomeD [OF lead] t by simp
qed


text \<open>What decodes with more than one byte, or is ASCII, is the encoding of a code point.\<close>

lemma digits64: "z < 0x40 \<Longrightarrow> (x * 0x40 + z) div 0x40 = x" "z < 0x40 \<Longrightarrow> (x * 0x40 + z) mod 0x40 = z" for x z :: nat
  by auto

lemma encode_two:
  assumes "0xC2 \<le> byte c" "byte c \<le> 0xDF" and "cont_byte 0x80 0xBF c1" and "r = (byte c - 0xC0) * 0x40 + (byte c1 - 0x80)"
  shows "valid_rune r \<and> encode_rune r = [c, c1]"
proof -
  have y: "byte c1 - 0x80 < 0x40" and b: "0x80 \<le> byte c1" using assms(3) by (auto simp: cont_byte_def)
  have d: "r div 0x40 = byte c - 0xC0" "r mod 0x40 = byte c1 - 0x80" using digits64 [OF y] assms(4) by simp_all
  have r: "0x80 \<le> r" "r < 0x800" using assms(1,2,4) y by auto
  then have "encode_rune r = [char_of (0xC0 + r div 0x40), char_of (0x80 + r mod 0x40)]"
    by (simp add: encode_rune_def Let_def)
  then show ?thesis using r b assms(1) by (simp add: d valid_rune_def)
qed

lemma three_byte_range:
  fixes x y z :: nat
  assumes "x < 0x10" "y < 0x40" "z < 0x40" and "x = 0 \<Longrightarrow> 0x20 \<le> y" and "x = 13 \<Longrightarrow> y < 0x20"
  shows "0x800 \<le> x * 0x1000 + y * 0x40 + z \<and> x * 0x1000 + y * 0x40 + z < 0x10000 \<and>
    (x * 0x1000 + y * 0x40 + z < 0xD800 \<or> 0xE000 \<le> x * 0x1000 + y * 0x40 + z)"
proof -
  consider "x = 0" | "1 \<le> x" "x \<le> 12" | "x = 13" | "14 \<le> x" by linarith
  then show ?thesis
  proof cases
    case 1
    then show ?thesis using assms(2,3) assms(4) [OF 1] by simp
  next
    case 3
    then show ?thesis using assms(2,3) assms(5) [OF 3] by simp
  qed (use assms(1,2,3) in linarith)+
qed

lemma encode_three:
  assumes "0xE0 \<le> byte c" "byte c \<le> 0xEF" and "second_range (byte c) = (lo, hi)"
    and "cont_byte lo hi c1" "cont_byte 0x80 0xBF c2"
    and r_def: "r = (byte c - 0xE0) * 0x1000 + (byte c1 - 0x80) * 0x40 + (byte c2 - 0x80)"
  shows "valid_rune r \<and> encode_rune r = [c, c1, c2]"
proof -
  let ?x = "byte c - 0xE0" and ?y = "byte c1 - 0x80" and ?z = "byte c2 - 0x80"
  have c1: "0x80 \<le> byte c1" "byte c1 \<le> 0xBF" "byte c = 0xE0 \<Longrightarrow> 0xA0 \<le> byte c1" "byte c = 0xED \<Longrightarrow> byte c1 \<le> 0x9F"
    using assms(3,4) by (auto simp: second_range_def cont_byte_def split: if_splits)
  have yz: "?y < 0x40" "?z < 0x40" "0x80 \<le> byte c2" using c1(1,2) assms(5) by (auto simp: cont_byte_def)
  have r: "r = (?x * 0x40 + ?y) * 0x40 + ?z" using r_def by simp
  have d: "r mod 0x40 = ?z" "r div 0x40 = ?x * 0x40 + ?y" by (simp_all only: r digits64 [OF yz(2)])
  have "r div 0x1000 = r div 0x40 div 0x40" by (simp flip: div_mult2_eq)
  then have d2: "r div 0x40 mod 0x40 = ?y" "r div 0x1000 = ?x" by (simp_all only: d(2) digits64 [OF yz(1)])
  have "0x20 \<le> ?y" if "?x = 0" using that assms(1) c1(1,3) by auto
  moreover have "?y < 0x20" if "?x = 13"
  proof -
    from that have "byte c = 0xED" by simp
    with c1(4) show ?thesis by fastforce
  qed
  moreover have "?x < 0x10" using assms(2) by simp
  ultimately have rb: "0x800 \<le> r \<and> r < 0x10000 \<and> (r < 0xD800 \<or> 0xE000 \<le> r)"
    using three_byte_range [of ?x ?y ?z] yz(1,2) r_def by simp
  then have "encode_rune r = [char_of (0xE0 + r div 0x1000), char_of (0x80 + r div 0x40 mod 0x40), char_of (0x80 + r mod 0x40)]"
    by (auto simp: encode_rune_def Let_def)
  moreover have "valid_rune r" using rb by (auto simp: valid_rune_def)
  moreover have "0xE0 + ?x = byte c" "0x80 + ?y = byte c1" "0x80 + ?z = byte c2" using assms(1) c1(1) yz(3) by simp_all
  ultimately show ?thesis by (simp only: d(1) d2) simp
qed

lemma encode_four:
  assumes "0xF0 \<le> byte c" "byte c \<le> 0xF4" and "second_range (byte c) = (lo, hi)"
    and "cont_byte lo hi c1" "cont_byte 0x80 0xBF c2" "cont_byte 0x80 0xBF c3"
    and r_def: "r = (byte c - 0xF0) * 0x40000 + (byte c1 - 0x80) * 0x1000 + (byte c2 - 0x80) * 0x40 + (byte c3 - 0x80)"
  shows "valid_rune r \<and> encode_rune r = [c, c1, c2, c3]"
proof -
  let ?x = "byte c - 0xF0" and ?y = "byte c1 - 0x80" and ?z = "byte c2 - 0x80" and ?w = "byte c3 - 0x80"
  have c1: "0x80 \<le> byte c1" "byte c1 \<le> 0xBF" "byte c = 0xF0 \<Longrightarrow> 0x90 \<le> byte c1" "byte c = 0xF4 \<Longrightarrow> byte c1 \<le> 0x8F"
    using assms(3,4) by (auto simp: second_range_def cont_byte_def split: if_splits)
  have b: "?y < 0x40" "?z < 0x40" "?w < 0x40" "0x80 \<le> byte c2" "0x80 \<le> byte c3"
    using c1(1,2) assms(5,6) by (auto simp: cont_byte_def)
  have r: "r = ((?x * 0x40 + ?y) * 0x40 + ?z) * 0x40 + ?w" using r_def by simp
  have d: "r mod 0x40 = ?w" "r div 0x40 = (?x * 0x40 + ?y) * 0x40 + ?z" by (simp_all only: r digits64 [OF b(3)])
  have "r div 0x1000 = r div 0x40 div 0x40" "r div 0x40000 = r div 0x1000 div 0x40" by (simp_all flip: div_mult2_eq)
  then have d2: "r div 0x40 mod 0x40 = ?z" "r div 0x1000 mod 0x40 = ?y" "r div 0x40000 = ?x"
    by (simp_all only: d(2) digits64 [OF b(2)] digits64 [OF b(1)])
  have "0x10 \<le> ?y" if "?x = 0" using that assms(1) c1(1,3) by auto
  moreover have "?y < 0x10" if "?x = 4"
  proof -
    from that have "byte c = 0xF4" by simp
    with c1(4) show ?thesis by fastforce
  qed
  ultimately have rb: "0x10000 \<le> r" "r \<le> 0x10FFFF"
    using b assms(1,2) unfolding r_def by linarith+
  then have "encode_rune r = [char_of (0xF0 + r div 0x40000), char_of (0x80 + r div 0x1000 mod 0x40),
      char_of (0x80 + r div 0x40 mod 0x40), char_of (0x80 + r mod 0x40)]"
    by (auto simp: encode_rune_def Let_def)
  moreover have "valid_rune r" using rb by (auto simp: valid_rune_def)
  moreover have "0xF0 + ?x = byte c" "0x80 + ?y = byte c1" "0x80 + ?z = byte c2" "0x80 + ?w = byte c3"
    using assms(1) c1(1) b(4,5) by simp_all
  ultimately show ?thesis by (simp only: d(1) d2) simp
qed

lemma encode_decode:
  assumes "decode_rune (c # cs) = (r, w)" and "w \<noteq> 1"
  shows "valid_rune r \<and> encode_rune r = take w (c # cs)"
proof -
  obtain lo hi where sr: "second_range (byte c) = (lo, hi)" by fastforce
  note dec = assms(1) [unfolded decode_rune.simps Let_def sr]
  from decode_wide [OF assms] consider "0xC2 \<le> byte c \<and> byte c \<le> 0xDF" | "0xE0 \<le> byte c \<and> byte c \<le> 0xEF"
    | "0xF0 \<le> byte c \<and> byte c \<le> 0xF4"
    by (auto simp: lead_size_def split: if_splits)
  then show ?thesis
  proof cases
    case 1
    then have "lo = 0x80 \<and> hi = 0xBF" using sr by (auto simp: second_range_def)
    with 1 dec assms(2) show ?thesis using encode_two [of c] by (auto split: list.splits if_splits)
  next
    case 2
    with dec assms(2) show ?thesis using encode_three [of c lo hi] sr by (auto split: list.splits if_splits)
  next
    case 3
    with dec assms(2) show ?thesis using encode_four [of c lo hi] sr by (auto split: list.splits if_splits)
  qed
qed


lemma validate_step:
  assumes "\<not> byte c < 0x80" and "lead_size (byte c) = Some n" and "check_cont (byte c) 1 n cs = None"
  obtains r where "valid_rune r" "c # cs = encode_rune r @ drop (n - 1) cs" "length (encode_rune r) = n"
proof -
  obtain r w where dec: "decode_rune (c # cs) = (r, w)" by fastforce
  have n: "n \<in> {2, 3, 4}" using lead_size_SomeD [OF assms(2)] by simp
  have w: "w = n" using check_cont_decode [OF assms(2)] assms(3) dec by simp
  then have e: "valid_rune r" "encode_rune r = take n (c # cs)" using encode_decode [OF dec] n by auto
  have "n \<le> length (c # cs)" using decode_rune_width_le [of "c # cs"] dec w by simp
  moreover have "drop n (c # cs) = drop (n - 1) cs" using n by auto
  ultimately show ?thesis
    using that [of r] e append_take_drop_id [of n "c # cs"] by simp
qed

text \<open>The reported offset is the end of a valid prefix, and everything is accepted only if valid.\<close>

lemma validate_sound:
  "let res = validate_loop i s in
   i \<le> u8validUpTo res \<and> u8validUpTo res \<le> i + length s \<and> valid_utf8 (take (u8validUpTo res - i) s) \<and>
   (u8ok res \<longrightarrow> u8validUpTo res = i + length s)"
proof (induction i s rule: validate_loop.induct)
  case (1 i)
  then show ?case by simp
next
  case (2 i c cs)
  show ?case
  proof (cases "byte c < 0x80")
    case True
    have "valid_utf8 [c]" using True valid_utf8_ascii [of "[c]"] by simp
    with 2(1) [OF True] True show ?thesis
      using valid_utf8_append [of "[c]"] by (auto simp: Let_def take_Cons' Suc_diff_Suc)
  next
    case False
    show ?thesis
    proof (cases "\<exists>n. lead_size (byte c) = Some n \<and> check_cont (byte c) 1 n cs = None")
      case True
      then obtain n where n: "lead_size (byte c) = Some n" "check_cont (byte c) 1 n cs = None" by blast
      from validate_step [OF False n] obtain r where
        r: "valid_rune r" "c # cs = encode_rune r @ drop (n - 1) cs" "length (encode_rune r) = n" .
      have loop: "validate_loop i (c # cs) = validate_loop (i + n) (drop (n - 1) cs)" using False n by simp
      define res where "res = validate_loop (i + n) (drop (n - 1) cs)"
      have ih: "i + n \<le> u8validUpTo res" "u8validUpTo res \<le> i + n + length (drop (n - 1) cs)"
        "valid_utf8 (take (u8validUpTo res - (i + n)) (drop (n - 1) cs))"
        "u8ok res \<longrightarrow> u8validUpTo res = i + n + length (drop (n - 1) cs)"
        using 2(2) [OF False n] unfolding res_def Let_def by blast+
      have len: "length (c # cs) = n + length (drop (n - 1) cs)" using r(2,3) by (metis length_append)
      have tk: "take (u8validUpTo res - i) (c # cs) = encode_rune r @ take (u8validUpTo res - (i + n)) (drop (n - 1) cs)"
        unfolding r(2) using ih(1) r(3) by (simp add: diff_diff_left)
      have "valid_utf8 (encode_rune r)" using valid_utf8_encode [of "[r]"] r(1) by (simp add: encode_runes_Cons)
      from valid_utf8_append [OF this ih(3)] have "valid_utf8 (take (u8validUpTo res - i) (c # cs))" unfolding tk .
      with ih(1,2,4) len show ?thesis unfolding loop Let_def res_def [symmetric] by linarith
    next
      case no: False
      then have "u8validUpTo (validate_loop i (c # cs)) = i \<and> \<not> u8ok (validate_loop i (c # cs))"
        using False by (auto split: option.splits)
      then show ?thesis by (simp add: Let_def)
    qed
  qed
qed

lemma validateUTF8_ok_iff: "u8ok (validateUTF8 b) \<longleftrightarrow> valid_utf8 b"
proof
  assume "u8ok (validateUTF8 b)"
  then show "valid_utf8 b" using validate_sound [of 0 b] by (auto simp: validateUTF8_def Let_def)
next
  assume "valid_utf8 b"
  then show "u8ok (validateUTF8 b)"
    using validate_encode_runes [of _ 0 "[]"] by (auto simp: validateUTF8_def valid_utf8_iff)
qed

lemma validateUTF8_prefix_ok: "u8ok (validateUTF8 (take (u8validUpTo (validateUTF8 b)) b))"
  using validate_sound [of 0 b] by (simp add: validateUTF8_ok_iff) (simp add: validateUTF8_def Let_def)

text \<open>A buffer that can be continued to valid UTF-8 is never reported as invalid.\<close>

lemma encode_runes_split:
  "encode_runes rs = b @ rest \<Longrightarrow>
   \<exists>ps t. b = encode_runes ps @ t \<and> (\<exists>qs. rs = ps @ qs) \<and> (t = [] \<or> (\<exists>q \<in> set rs. \<exists>u. encode_rune q = t @ u \<and> u \<noteq> []))"
proof (induction rs arbitrary: b)
  case Nil
  then show ?case by simp
next
  case (Cons r rs)
  show ?case
  proof (cases "length (encode_rune r) \<le> length b")
    case True
    then obtain b' where b': "b = encode_rune r @ b'" "encode_runes rs = b' @ rest"
      using Cons.prems by (auto simp: encode_runes_Cons append_eq_append_conv2)
    from Cons.IH [OF b'(2)] obtain ps t where pt: "b' = encode_runes ps @ t" "\<exists>qs. rs = ps @ qs"
      "t = [] \<or> (\<exists>q \<in> set rs. \<exists>u. encode_rune q = t @ u \<and> u \<noteq> [])" by blast
    then show ?thesis
      by (intro exI [of _ "r # ps"] exI [of _ t]) (auto simp: b'(1) encode_runes_Cons)
  next
    case False
    then have "\<exists>u. encode_rune r = b @ u \<and> u \<noteq> []"
      using Cons.prems by (auto simp: encode_runes_Cons append_eq_append_conv2)
    then show ?thesis by (intro exI [of _ "[]"] exI [of _ b]) auto
  qed
qed

lemma validateUTF8_continued:
  assumes "valid_utf8 (b @ rest)" and "\<not> u8ok (validateUTF8 b)"
  shows "u8errorLen (validateUTF8 b) = 0"
proof -
  from assms(1) obtain rs where rs: "list_all valid_rune rs" "encode_runes rs = b @ rest"
    by (auto simp: valid_utf8_iff)
  from encode_runes_split [OF rs(2)] obtain ps t where pt: "b = encode_runes ps @ t" "\<exists>qs. rs = ps @ qs"
    "t = [] \<or> (\<exists>q \<in> set rs. \<exists>u. encode_rune q = t @ u \<and> u \<noteq> [])" by blast
  have ps: "list_all valid_rune ps" using pt(2) rs(1) by auto
  have v: "validateUTF8 b = validate_loop (length (encode_runes ps)) t"
    using validate_encode_runes [OF ps, of 0 t] pt(1) by (simp add: validateUTF8_def)
  with assms(2) have "t \<noteq> []" by auto
  with pt(3) obtain q u where q: "q \<in> set rs" "encode_rune q = t @ u" "u \<noteq> []" by blast
  have "valid_rune q" using q(1) rs(1) by (auto simp: list_all_iff)
  from validate_truncated [OF this q(2) \<open>t \<noteq> []\<close> q(3)] v show ?thesis by simp
qed


section \<open>Byte chunks\<close>

lemma valid_utf8_suffix: "valid_utf8 (a @ b) \<Longrightarrow> valid_utf8 a \<Longrightarrow> valid_utf8 b"
  by (simp add: valid_utf8_def runes_append encode_runes_append)

text \<open>
  One push on a buffer that can be continued to valid UTF-8: some valid prefix of the buffer (maybe empty)
  is handed to the wrapped parser, and the rest stays buffered.
\<close>

lemma PushBytes_valid:
  assumes "valid_utf8 (u8Pending u @ b @ rest)"
  obtains (skip) "Utf8StreamParser_PushBytes push u b = Some (Inr empty_stream_chunk, u\<lparr>u8Pending := u8Pending u @ b\<rparr>)"
  | (push) pre post where "u8Pending u @ b = pre @ post" "valid_utf8 pre"
      "Utf8StreamParser_PushBytes push u b =
         map_option (\<lambda>(out, s). (Inr out, \<lparr>u8Inner = s, u8Pending = post\<rparr>)) (push (u8Inner u) pre)"
proof (cases "u8ok (validateUTF8 (u8Pending u @ b))")
  case True
  then show ?thesis
    by (intro push [of "u8Pending u @ b" "[]"]) (simp_all add: validateUTF8_ok_iff Utf8StreamParser_PushBytes_def Let_def)
next
  case False
  let ?buf = "u8Pending u @ b"
  let ?v = "u8validUpTo (validateUTF8 ?buf)"
  have e: "u8errorLen (validateUTF8 ?buf) = 0" using validateUTF8_continued [of ?buf rest] assms False by simp
  show ?thesis
  proof (cases "?v = 0")
    case True
    then show ?thesis using False e by (intro skip) (simp add: Utf8StreamParser_PushBytes_def Let_def)
  next
    case v: False
    have ok: "u8ok (validateUTF8 (take ?v ?buf))" by (rule validateUTF8_prefix_ok)
    show ?thesis
    proof (rule push [of "take ?v ?buf" "drop ?v ?buf"])
      show "?buf = take ?v ?buf @ drop ?v ?buf" by (rule append_take_drop_id [symmetric])
      show "valid_utf8 (take ?v ?buf)" using ok validateUTF8_ok_iff by blast
      show "Utf8StreamParser_PushBytes push u b =
          map_option (\<lambda>(out, s). (Inr out, \<lparr>u8Inner = s, u8Pending = drop ?v ?buf\<rparr>)) (push (u8Inner u) (take ?v ?buf))"
        using False e v ok unfolding Utf8StreamParser_PushBytes_def Let_def by simp
    qed
  qed
qed

locale utf8_wrapped = stream_text_parser +
  assumes valid_ok: "valid_utf8 t \<Longrightarrow> ok t"
begin

lemma byte_feed_finish:
  assumes "inv (u8Inner u)" and "valid_utf8 (u8Pending u)"
  shows "\<exists>c. byte_feed push finish u [] = Some (Inr c) \<and> VisibleText c = VisibleText (meaning (u8Inner u) (u8Pending u)) \<and>
           norm (Extracted c) = norm (Extracted (meaning (u8Inner u) (u8Pending u)))"
proof -
  have "list_all ok (if u8Pending u = [] then [] else [u8Pending u])"
    and "concat (if u8Pending u = [] then [] else [u8Pending u]) = u8Pending u"
    using valid_ok [OF assms(2)] by simp_all
  with feed_meaning [OF assms(1)]
  obtain c where c: "feed push finish (u8Inner u) (if u8Pending u = [] then [] else [u8Pending u]) = Some c"
    "VisibleText c = VisibleText (meaning (u8Inner u) (u8Pending u))"
    "norm (Extracted c) = norm (Extracted (meaning (u8Inner u) (u8Pending u)))"
    by metis
  moreover have "byte_feed push finish u [] = map_option Inr (feed push finish (u8Inner u) (if u8Pending u = [] then [] else [u8Pending u]))"
    using assms(2) by (cases "push (u8Inner u) (u8Pending u)")
      (auto simp: Utf8StreamParser_Finish_def feed_def validateUTF8_ok_iff Let_def case_prod_beta)
  ultimately show ?thesis by auto
qed

lemma byte_feed_meaning:
  "inv (u8Inner u) \<Longrightarrow> valid_utf8 (u8Pending u @ concat bs) \<Longrightarrow>
   \<exists>c. byte_feed push finish u bs = Some (Inr c) \<and>
     VisibleText c = VisibleText (meaning (u8Inner u) (u8Pending u @ concat bs)) \<and>
     norm (Extracted c) = norm (Extracted (meaning (u8Inner u) (u8Pending u @ concat bs)))"
proof (induction bs arbitrary: u)
  case Nil
  then show ?case using byte_feed_finish by simp
next
  case (Cons b bs)
  have "valid_utf8 (u8Pending u @ b @ concat bs)" using Cons.prems(2) by simp
  then show ?case
  proof (cases rule: PushBytes_valid [where push = push])
    case skip
    have "\<exists>c. byte_feed push finish (u\<lparr>u8Pending := u8Pending u @ b\<rparr>) bs = Some (Inr c) \<and>
        VisibleText c = VisibleText (meaning (u8Inner u) (u8Pending u @ b @ concat bs)) \<and>
        norm (Extracted c) = norm (Extracted (meaning (u8Inner u) (u8Pending u @ b @ concat bs)))"
      using Cons.IH [of "u\<lparr>u8Pending := u8Pending u @ b\<rparr>"] Cons.prems by simp
    then show ?thesis using skip by auto
  next
    case (push pre post)
    from push_meaning [OF Cons.prems(1) valid_ok [OF push(2)]] obtain c s' where
      c: "push (u8Inner u) pre = Some (c, s')" "inv s'"
      and m: "\<And>rest. ok rest \<Longrightarrow>
        VisibleText (meaning (u8Inner u) (pre @ rest)) = VisibleText c @ VisibleText (meaning s' rest) \<and>
        norm (Extracted (meaning (u8Inner u) (pre @ rest))) = norm (Extracted c @ Extracted (meaning s' rest))"
      by blast
    have buf: "u8Pending u @ concat (b # bs) = pre @ post @ concat bs" using push(1) by simp
    have rest: "valid_utf8 (post @ concat bs)" using Cons.prems(2) push(2) valid_utf8_suffix unfolding buf by blast
    from Cons.IH [of "\<lparr>u8Inner = s', u8Pending = post\<rparr>"] c(2) rest obtain d where
      d: "byte_feed push finish \<lparr>u8Inner = s', u8Pending = post\<rparr> bs = Some (Inr d)"
      "VisibleText d = VisibleText (meaning s' (post @ concat bs))"
      "norm (Extracted d) = norm (Extracted (meaning s' (post @ concat bs)))"
      by auto
    have "norm (Extracted c @ Extracted d) = norm (Extracted c @ Extracted (meaning s' (post @ concat bs)))"
      using d(3) norm_append_cong by blast
    then show ?thesis using push(3) c(1) d m [OF valid_ok [OF rest]] unfolding buf by simp
  qed
qed

end

interpretation citation_bytes: utf8_wrapped CitationStreamParser_PushStr CitationStreamParser_Finish
  citation_inv citation_meaning "\<lambda>xs. xs" "\<lambda>_. True"
  by unfold_locales simp

interpretation plan_bytes: utf8_wrapped "\<lambda>p t. Some (ProposedPlanParser_PushStr p t)" ProposedPlanParser_Finish
  plan_inv plan_meaning plan_norm valid_utf8
  by unfold_locales simp


text \<open>
  C14. Byte streams: if the bytes of all chunks together are valid UTF-8, then feeding them chunk by chunk to
  the byte adapter around the citation parser, with any cuts (also inside a code point or a tag),
  reports no error, returns, and yields the visible text and citations of one pass over the whole text.
  If a push reports invalid bytes, the adapter and the wrapped parser are as before the push.
\<close>

theorem citation_bytes_correct:
  "(valid_utf8 (concat bs) \<longrightarrow>
      (\<exists>p. NewCitationStreamParser = Some p \<and>
        byte_feed CitationStreamParser_PushStr CitationStreamParser_Finish (NewUtf8StreamParser p) bs =
          Some (Inr (mapExtractedToContent (hide citationSpecs None (concat bs)))))) \<and>
   (Utf8StreamParser_PushBytes CitationStreamParser_PushStr u b = Some (Inl e, u') \<longrightarrow>
      u' = u \<and> (\<forall>rest. \<not> valid_utf8 (u8Pending u @ b @ rest)))"
proof (intro conjI impI)
  assume "valid_utf8 (concat bs)"
  moreover obtain p where p: "NewCitationStreamParser = Some p" "citation_inv p"
    "\<And>t. citation_meaning p t = mapExtractedToContent (hide citationSpecs None t)"
    using citation_parser_new by blast
  ultimately show "\<exists>p. NewCitationStreamParser = Some p \<and>
        byte_feed CitationStreamParser_PushStr CitationStreamParser_Finish (NewUtf8StreamParser p) bs =
          Some (Inr (mapExtractedToContent (hide citationSpecs None (concat bs))))"
    using citation_bytes.byte_feed_meaning [of "NewUtf8StreamParser p" bs] by (auto simp: NewUtf8StreamParser_def)
next
  assume a: "Utf8StreamParser_PushBytes CitationStreamParser_PushStr u b = Some (Inl e, u')"
  show "u' = u" using a by (auto simp: Utf8StreamParser_PushBytes_def Let_def split: if_splits)
  show "\<forall>rest. \<not> valid_utf8 (u8Pending u @ b @ rest)"
  proof (intro allI notI)
    fix rest
    assume "valid_utf8 (u8Pending u @ b @ rest)"
    then show False
      using a by (cases rule: PushBytes_valid [where push = CitationStreamParser_PushStr]) auto
  qed
qed

text \<open>The two bytes of U+00E9 in different chunks, and a byte that never occurs in UTF-8.\<close>

theorem citation_bytes_correct_witness:
  "valid_utf8 (concat [[CHR ''x'', CHR 0xC3], [CHR 0xA9]]) \<and>
   (\<exists>p. NewCitationStreamParser = Some p \<and>
      byte_feed CitationStreamParser_PushStr CitationStreamParser_Finish (NewUtf8StreamParser p) [[CHR ''x'', CHR 0xC3], [CHR 0xA9]] =
        Some (Inr \<lparr>VisibleText = [CHR ''x'', CHR 0xC3, CHR 0xA9], Extracted = []\<rparr>)) \<and>
   (\<forall>p. Utf8StreamParser_PushBytes CitationStreamParser_PushStr \<lparr>u8Inner = p, u8Pending = []\<rparr> [CHR 0xFF] =
        Some (Inl (Utf8InvalidUtf8 0 1), \<lparr>u8Inner = p, u8Pending = []\<rparr>) \<and>
      \<not> valid_utf8 ([CHR 0xFF] @ ''a''))"
proof -
  let ?bs = "[[CHR ''x'', CHR 0xC3], [CHR 0xA9]]"
  have valid: "valid_utf8 (concat ?bs)"
    unfolding validateUTF8_ok_iff [symmetric]
    by (simp add: validateUTF8_def lead_size_def check_cont.simps second_range_def)
  have hide: "mapExtractedToContent (hide citationSpecs None (concat ?bs)) = \<lparr>VisibleText = [CHR ''x'', CHR 0xC3, CHR 0xA9], Extracted = []\<rparr>"
    by (simp add: citationSpecs_def citationOpen_def opener_at_def HasPrefix_def chunk_append_def visible_def
        mapExtractedToContent_def empty_stream_chunk_def)
  have bad: "Utf8StreamParser_PushBytes CitationStreamParser_PushStr \<lparr>u8Inner = p, u8Pending = []\<rparr> [CHR 0xFF] =
        Some (Inl (Utf8InvalidUtf8 0 1), \<lparr>u8Inner = p, u8Pending = []\<rparr>)" for p
    by (simp add: Utf8StreamParser_PushBytes_def validateUTF8_def lead_size_def Let_def)
  have "\<not> valid_utf8 ([] @ [CHR 0xFF] @ ''a'')"
    using citation_bytes_correct [THEN conjunct2, THEN mp, OF bad, THEN conjunct2, THEN spec, of "\<lparr>citationInner = \<lparr>ihSpecs = citationSpecs, ihPending = [], ihActive = None\<rparr>\<rparr>" "''a''"] by simp
  then show ?thesis
    using citation_bytes_correct [THEN conjunct1, THEN mp, OF valid] valid bad unfolding hide by simp
qed

end
