(* ===== verification/Perm_Types.thy ===== *)
theory Perm_Types
  imports Go_Strings
begin

text \<open>
  Permission types: \<open>src/internal/protocol/permissions.go\<close>, \<open>permission_profile.go\<close> and \<open>sandbox.go\<close>, without
  their JSON codecs, and the projections and overlays of \<open>src/internal/sandbox/runtime.go\<close> and
  \<open>glob_depth.go\<close>. The string-typed enums of Go admit any string, and the decoders do not
  reject unknown access modes and kinds, so each has a constructor for every other string. A pointer
  is an option.
\<close>

section \<open>Policies\<close>

datatype NetworkSandboxPolicy = NetRestricted | NetEnabled | NetOther string

definition NetworkSandboxPolicy_IsEnabled :: "NetworkSandboxPolicy \<Rightarrow> bool" where
  "NetworkSandboxPolicy_IsEnabled n \<longleftrightarrow> n = NetEnabled"

datatype FileSystemAccessMode = ModeRead | ModeWrite | ModeDeny | ModeOther string

definition CanRead :: "FileSystemAccessMode \<Rightarrow> bool" where
  "CanRead m \<longleftrightarrow> m \<noteq> ModeDeny"

definition CanWrite :: "FileSystemAccessMode \<Rightarrow> bool" where
  "CanWrite m \<longleftrightarrow> m = ModeWrite"

datatype FileSystemSpecialPathKind =
  SpRoot | SpMinimal | SpProjectRoots | SpTmpdir | SpSlashTmp | SpUnknown | SpOther string

record FileSystemSpecialPath =
  sp_Kind :: FileSystemSpecialPathKind
  sp_Subpath :: "string option"
  sp_Path :: string

definition special_of :: "FileSystemSpecialPathKind \<Rightarrow> FileSystemSpecialPath" where
  "special_of k = \<lparr>sp_Kind = k, sp_Subpath = None, sp_Path = []\<rparr>"

definition NewProjectRootsSpecialPath :: "string option \<Rightarrow> FileSystemSpecialPath" where
  "NewProjectRootsSpecialPath subpath = \<lparr>sp_Kind = SpProjectRoots, sp_Subpath = subpath, sp_Path = []\<rparr>"

definition NewUnknownSpecialPath :: "string \<Rightarrow> string option \<Rightarrow> FileSystemSpecialPath" where
  "NewUnknownSpecialPath path subpath = \<lparr>sp_Kind = SpUnknown, sp_Subpath = subpath, sp_Path = path\<rparr>"

datatype FileSystemPathType = PtPath | PtGlobPattern | PtSpecial | PtOther string

record FileSystemPath =
  fp_Type :: FileSystemPathType
  fp_Path :: string
  fp_Pattern :: string
  fp_Special :: "FileSystemSpecialPath option"

definition NewFileSystemPath :: "string \<Rightarrow> FileSystemPath" where
  "NewFileSystemPath path = \<lparr>fp_Type = PtPath, fp_Path = path, fp_Pattern = [], fp_Special = None\<rparr>"

definition NewFileSystemGlobPattern :: "string \<Rightarrow> FileSystemPath" where
  "NewFileSystemGlobPattern pattern =
     \<lparr>fp_Type = PtGlobPattern, fp_Path = [], fp_Pattern = pattern, fp_Special = None\<rparr>"

definition NewFileSystemSpecialPath :: "FileSystemSpecialPath \<Rightarrow> FileSystemPath" where
  "NewFileSystemSpecialPath value' =
     \<lparr>fp_Type = PtSpecial, fp_Path = [], fp_Pattern = [], fp_Special = Some value'\<rparr>"

record FileSystemSandboxEntry =
  se_Path :: FileSystemPath
  se_Access :: FileSystemAccessMode

datatype FileSystemSandboxKind = KindRestricted | KindUnrestricted | KindExternalSandbox | KindOther string

record FileSystemSandboxPolicy =
  pol_Kind :: FileSystemSandboxKind
  pol_GlobScanMaxDepth :: "nat option"
  pol_Entries :: "FileSystemSandboxEntry list"

text \<open>A policy literal that names only its kind.\<close>

definition policy_of_kind :: "FileSystemSandboxKind \<Rightarrow> FileSystemSandboxPolicy" where
  "policy_of_kind k = \<lparr>pol_Kind = k, pol_GlobScanMaxDepth = None, pol_Entries = []\<rparr>"

definition DefaultFileSystemSandboxPolicy :: FileSystemSandboxPolicy where
  "DefaultFileSystemSandboxPolicy =
     \<lparr>pol_Kind = KindRestricted, pol_GlobScanMaxDepth = None,
      pol_Entries = [\<lparr>se_Path = NewFileSystemSpecialPath (special_of SpRoot), se_Access = ModeRead\<rparr>]\<rparr>"

section \<open>Overlays\<close>

record FileSystemPermissions =
  perm_Entries :: "FileSystemSandboxEntry list"
  perm_GlobScanMaxDepth :: "nat option"

definition FileSystemPermissions_IsEmpty :: "FileSystemPermissions \<Rightarrow> bool" where
  "FileSystemPermissions_IsEmpty f \<longleftrightarrow> length (perm_Entries f) = 0"

fun legacy_roots_loop ::
  "FileSystemSandboxEntry list \<Rightarrow> string list \<Rightarrow> string list \<Rightarrow> (string list \<times> string list) option" where
  "legacy_roots_loop [] read write = Some (read, write)"
| "legacy_roots_loop (entry # rest) read write =
     (if fp_Type (se_Path entry) \<noteq> PtPath then None
      else case se_Access entry of
          ModeRead \<Rightarrow> legacy_roots_loop rest (read @ [fp_Path (se_Path entry)]) write
        | ModeWrite \<Rightarrow> legacy_roots_loop rest read (write @ [fp_Path (se_Path entry)])
        | _ \<Rightarrow> None)"

definition asLegacyRoots :: "FileSystemPermissions \<Rightarrow> (string list \<times> string list) option" where
  "asLegacyRoots f =
     (if perm_GlobScanMaxDepth f \<noteq> None then None else legacy_roots_loop (perm_Entries f) [] [])"

definition path_entry :: "FileSystemAccessMode \<Rightarrow> string \<Rightarrow> FileSystemSandboxEntry" where
  "path_entry m path = \<lparr>se_Path = NewFileSystemPath path, se_Access = m\<rparr>"

definition fileSystemPermissionsFromReadWrite :: "string list \<Rightarrow> string list \<Rightarrow> FileSystemPermissions" where
  "fileSystemPermissionsFromReadWrite read write =
     \<lparr>perm_Entries = map (path_entry ModeRead) read @ map (path_entry ModeWrite) write,
      perm_GlobScanMaxDepth = None\<rparr>"

record NetworkPermissions =
  np_Enabled :: "bool option"

record AdditionalPermissionProfile =
  ap_Network :: "NetworkPermissions option"
  ap_FileSystem :: "FileSystemPermissions option"

definition AdditionalPermissionProfile_IsEmpty :: "AdditionalPermissionProfile \<Rightarrow> bool" where
  "AdditionalPermissionProfile_IsEmpty p \<longleftrightarrow> ap_Network p = None \<and> ap_FileSystem p = None"

section \<open>Profiles\<close>

datatype SandboxEnforcement = EnforcementManaged | EnforcementDisabled | EnforcementExternal

datatype ManagedKind = ManagedRestricted | ManagedUnrestricted | ManagedOther string

record ManagedFileSystemPermissions =
  mf_Kind :: ManagedKind
  mf_Entries :: "FileSystemSandboxEntry list"
  mf_GlobScanMaxDepth :: "nat option"

definition NewRestrictedManagedFileSystem ::
  "FileSystemSandboxEntry list \<Rightarrow> nat option \<Rightarrow> ManagedFileSystemPermissions" where
  "NewRestrictedManagedFileSystem entries globScanMaxDepth =
     \<lparr>mf_Kind = ManagedRestricted, mf_Entries = entries, mf_GlobScanMaxDepth = globScanMaxDepth\<rparr>"

definition NewUnrestrictedManagedFileSystem :: ManagedFileSystemPermissions where
  "NewUnrestrictedManagedFileSystem =
     \<lparr>mf_Kind = ManagedUnrestricted, mf_Entries = [], mf_GlobScanMaxDepth = None\<rparr>"

definition ToSandboxPolicy :: "ManagedFileSystemPermissions \<Rightarrow> FileSystemSandboxPolicy" where
  "ToSandboxPolicy m =
     (case mf_Kind m of
        ManagedRestricted \<Rightarrow>
          \<lparr>pol_Kind = KindRestricted, pol_GlobScanMaxDepth = mf_GlobScanMaxDepth m, pol_Entries = mf_Entries m\<rparr>
      | _ \<Rightarrow> policy_of_kind KindUnrestricted)"

datatype PermissionProfileKind = ProfileManaged | ProfileDisabled | ProfileExternal | ProfileOther string

record PermissionProfile =
  pp_Kind :: PermissionProfileKind
  pp_FileSystem :: ManagedFileSystemPermissions
  pp_Network :: NetworkSandboxPolicy

text \<open>The zero value of the managed half, in profiles that do not use it.\<close>

definition zero_managed :: ManagedFileSystemPermissions where
  "zero_managed = \<lparr>mf_Kind = ManagedOther [], mf_Entries = [], mf_GlobScanMaxDepth = None\<rparr>"

definition NewManagedPermissionProfile ::
  "ManagedFileSystemPermissions \<Rightarrow> NetworkSandboxPolicy \<Rightarrow> PermissionProfile" where
  "NewManagedPermissionProfile fileSystem network =
     \<lparr>pp_Kind = ProfileManaged, pp_FileSystem = fileSystem, pp_Network = network\<rparr>"

definition NewDisabledPermissionProfile :: PermissionProfile where
  "NewDisabledPermissionProfile =
     \<lparr>pp_Kind = ProfileDisabled, pp_FileSystem = zero_managed, pp_Network = NetOther []\<rparr>"

definition NewExternalPermissionProfile :: "NetworkSandboxPolicy \<Rightarrow> PermissionProfile" where
  "NewExternalPermissionProfile network =
     \<lparr>pp_Kind = ProfileExternal, pp_FileSystem = zero_managed, pp_Network = network\<rparr>"

definition DefaultPermissionProfile :: PermissionProfile where
  "DefaultPermissionProfile =
     NewManagedPermissionProfile (NewRestrictedManagedFileSystem [] None) NetRestricted"

definition Enforcement :: "PermissionProfile \<Rightarrow> SandboxEnforcement" where
  "Enforcement p =
     (case pp_Kind p of
        ProfileManaged \<Rightarrow> EnforcementManaged
      | ProfileDisabled \<Rightarrow> EnforcementDisabled
      | _ \<Rightarrow> EnforcementExternal)"

definition fileSystemSandboxPolicyFromPermissions :: "FileSystemPermissions \<Rightarrow> FileSystemSandboxPolicy" where
  "fileSystemSandboxPolicyFromPermissions perms =
     \<lparr>pol_Kind = KindRestricted, pol_GlobScanMaxDepth = perm_GlobScanMaxDepth perms, pol_Entries = perm_Entries perms\<rparr>"

definition permissionProfileFromRuntime ::
  "FileSystemSandboxPolicy \<Rightarrow> NetworkSandboxPolicy \<Rightarrow> PermissionProfile" where
  "permissionProfileFromRuntime fsPolicy network =
     (case pol_Kind fsPolicy of
        KindExternalSandbox \<Rightarrow> NewExternalPermissionProfile network
      | KindUnrestricted \<Rightarrow> NewManagedPermissionProfile NewUnrestrictedManagedFileSystem network
      | _ \<Rightarrow> NewManagedPermissionProfile
               (NewRestrictedManagedFileSystem (pol_Entries fsPolicy) (pol_GlobScanMaxDepth fsPolicy)) network)"

section \<open>Legacy policies (protocol/sandbox.go)\<close>

datatype NetworkAccess = NetworkAccessRestricted | NetworkAccessEnabled | NetworkAccessOther string

datatype SandboxPolicyType = DangerFullAccess | ReadOnly | ExternalSandbox | WorkspaceWrite | PolicyTypeOther string

record SandboxPolicy =
  lp_Type :: SandboxPolicyType
  lp_NetworkAccessBool :: bool
  lp_NetworkAccess :: NetworkAccess
  lp_WritableRoots :: "string list"
  lp_ExcludeTmpdirEnvVar :: bool
  lp_ExcludeSlashTmp :: bool

definition zero_SandboxPolicy :: "SandboxPolicyType \<Rightarrow> SandboxPolicy" where
  "zero_SandboxPolicy t =
     \<lparr>lp_Type = t, lp_NetworkAccessBool = False, lp_NetworkAccess = NetworkAccessOther [], lp_WritableRoots = [],
      lp_ExcludeTmpdirEnvVar = False, lp_ExcludeSlashTmp = False\<rparr>"

definition NewReadOnlySandboxPolicy :: "bool \<Rightarrow> SandboxPolicy" where
  "NewReadOnlySandboxPolicy networkAccess = (zero_SandboxPolicy ReadOnly)\<lparr>lp_NetworkAccessBool := networkAccess\<rparr>"

definition NewDangerFullAccessSandboxPolicy :: SandboxPolicy where
  "NewDangerFullAccessSandboxPolicy = zero_SandboxPolicy DangerFullAccess"

record WritableRoot =
  wr_Root :: string
  wr_ReadOnlySubpaths :: "string list"
  wr_ProtectedMetadataNames :: "string list"

section \<open>Runtime projections (sandbox/runtime.go)\<close>

definition profileFileSystemSandboxPolicy :: "PermissionProfile \<Rightarrow> FileSystemSandboxPolicy" where
  "profileFileSystemSandboxPolicy p =
     (case pp_Kind p of
        ProfileManaged \<Rightarrow> ToSandboxPolicy (pp_FileSystem p)
      | ProfileExternal \<Rightarrow> policy_of_kind KindExternalSandbox
      | _ \<Rightarrow> policy_of_kind KindUnrestricted)"

definition profileNetworkSandboxPolicy :: "PermissionProfile \<Rightarrow> NetworkSandboxPolicy" where
  "profileNetworkSandboxPolicy p =
     (case pp_Kind p of
        ProfileManaged \<Rightarrow> pp_Network p
      | ProfileExternal \<Rightarrow> pp_Network p
      | _ \<Rightarrow> NetEnabled)"

definition profileRuntimePermissions ::
  "PermissionProfile \<Rightarrow> FileSystemSandboxPolicy \<times> NetworkSandboxPolicy" where
  "profileRuntimePermissions p = (profileFileSystemSandboxPolicy p, profileNetworkSandboxPolicy p)"

definition managedFromSandboxPolicy :: "FileSystemSandboxPolicy \<Rightarrow> ManagedFileSystemPermissions" where
  "managedFromSandboxPolicy fsPolicy =
     (case pol_Kind fsPolicy of
        KindUnrestricted \<Rightarrow> NewUnrestrictedManagedFileSystem
      | _ \<Rightarrow> NewRestrictedManagedFileSystem (pol_Entries fsPolicy) (pol_GlobScanMaxDepth fsPolicy))"

definition profileFromRuntimeWithEnforcement ::
  "SandboxEnforcement \<Rightarrow> FileSystemSandboxPolicy \<Rightarrow> NetworkSandboxPolicy \<Rightarrow> PermissionProfile" where
  "profileFromRuntimeWithEnforcement enforcement fsPolicy network =
     (case pol_Kind fsPolicy of
        KindExternalSandbox \<Rightarrow> NewExternalPermissionProfile network
      | KindUnrestricted \<Rightarrow>
          if enforcement = EnforcementDisabled then NewDisabledPermissionProfile
          else NewManagedPermissionProfile (managedFromSandboxPolicy fsPolicy) network
      | _ \<Rightarrow> NewManagedPermissionProfile (managedFromSandboxPolicy fsPolicy) network)"

section \<open>Glob scan depth (sandbox/glob\_depth.go)\<close>

datatype globScanDepth = Bounded nat | Unbounded

definition hasDenyGlobEntry :: "FileSystemSandboxEntry list \<Rightarrow> bool" where
  "hasDenyGlobEntry entries \<longleftrightarrow>
     list_ex (\<lambda>e. se_Access e = ModeDeny \<and> fp_Type (se_Path e) = PtGlobPattern) entries"

definition effectiveGlobScanDepth :: "FileSystemSandboxEntry list \<Rightarrow> nat option \<Rightarrow> globScanDepth option" where
  "effectiveGlobScanDepth entries depth =
     (if \<not> hasDenyGlobEntry entries then None
      else case depth of Some d \<Rightarrow> Some (Bounded d) | None \<Rightarrow> Some Unbounded)"

definition mergeGlobScanMaxDepth ::
  "FileSystemSandboxEntry list \<Rightarrow> nat option \<Rightarrow> FileSystemSandboxEntry list \<Rightarrow> nat option \<Rightarrow> nat option" where
  "mergeGlobScanMaxDepth leftEntries leftDepth rightEntries rightDepth =
     (case (effectiveGlobScanDepth leftEntries leftDepth, effectiveGlobScanDepth rightEntries rightDepth) of
        (Some Unbounded, _) \<Rightarrow> None
      | (_, Some Unbounded) \<Rightarrow> None
      | (Some (Bounded l), Some (Bounded r)) \<Rightarrow> Some (max l r)
      | (Some (Bounded l), None) \<Rightarrow> Some l
      | (None, Some (Bounded r)) \<Rightarrow> Some r
      | (None, None) \<Rightarrow> None)"

section \<open>Overlay folding (sandbox/runtime.go)\<close>

definition specialPathsEqual :: "FileSystemSpecialPath option \<Rightarrow> FileSystemSpecialPath option \<Rightarrow> bool" where
  "specialPathsEqual a b =
     (case (a, b) of
        (None, None) \<Rightarrow> True
      | (Some x, Some y) \<Rightarrow>
          if sp_Kind x \<noteq> sp_Kind y then False
          else (case sp_Kind x of
              SpProjectRoots \<Rightarrow> sp_Subpath x = sp_Subpath y
            | SpUnknown \<Rightarrow> sp_Path x = sp_Path y \<and> sp_Subpath x = sp_Subpath y
            | _ \<Rightarrow> True)
      | _ \<Rightarrow> False)"

definition filesystemPathsEqual :: "FileSystemPath \<Rightarrow> FileSystemPath \<Rightarrow> bool" where
  "filesystemPathsEqual a b =
     (if fp_Type a \<noteq> fp_Type b then False
      else case fp_Type a of
          PtPath \<Rightarrow> fp_Path a = fp_Path b
        | PtGlobPattern \<Rightarrow> fp_Pattern a = fp_Pattern b
        | _ \<Rightarrow> specialPathsEqual (fp_Special a) (fp_Special b))"

definition entriesEqual :: "FileSystemSandboxEntry \<Rightarrow> FileSystemSandboxEntry \<Rightarrow> bool" where
  "entriesEqual a b \<longleftrightarrow> se_Access a = se_Access b \<and> filesystemPathsEqual (se_Path a) (se_Path b)"

definition containsEntry :: "FileSystemSandboxEntry list \<Rightarrow> FileSystemSandboxEntry \<Rightarrow> bool" where
  "containsEntry entries target \<longleftrightarrow> list_ex (\<lambda>e. entriesEqual e target) entries"

fun merge_entries :: "FileSystemSandboxEntry list \<Rightarrow> FileSystemSandboxEntry list \<Rightarrow> FileSystemSandboxEntry list" where
  "merge_entries entries [] = entries"
| "merge_entries entries (e # rest) =
     merge_entries (if containsEntry entries e then entries else entries @ [e]) rest"

definition mergeFileSystemPolicyWithAdditional ::
  "FileSystemSandboxPolicy \<Rightarrow> FileSystemPermissions \<Rightarrow> FileSystemSandboxPolicy" where
  "mergeFileSystemPolicyWithAdditional base overlay =
     (if pol_Kind base \<noteq> KindRestricted then base
      else
        \<lparr>pol_Kind = KindRestricted,
         pol_GlobScanMaxDepth =
           mergeGlobScanMaxDepth (pol_Entries base) (pol_GlobScanMaxDepth base)
             (perm_Entries overlay) (perm_GlobScanMaxDepth overlay),
         pol_Entries = merge_entries (pol_Entries base) (perm_Entries overlay)\<rparr>)"

definition effectiveFileSystemSandboxPolicy ::
  "FileSystemSandboxPolicy \<Rightarrow> AdditionalPermissionProfile option \<Rightarrow> FileSystemSandboxPolicy" where
  "effectiveFileSystemSandboxPolicy base additional =
     (case additional of
        None \<Rightarrow> base
      | Some a \<Rightarrow>
          (case ap_FileSystem a of
             None \<Rightarrow> base
           | Some overlay \<Rightarrow>
               if FileSystemPermissions_IsEmpty overlay then base
               else mergeFileSystemPolicyWithAdditional base overlay))"

definition mergeNetworkAccess :: "bool \<Rightarrow> AdditionalPermissionProfile \<Rightarrow> bool" where
  "mergeNetworkAccess baseEnabled additional =
     (if baseEnabled then True
      else case ap_Network additional of
          None \<Rightarrow> False
        | Some n \<Rightarrow> np_Enabled n = Some True)"

definition effectiveNetworkSandboxPolicy ::
  "NetworkSandboxPolicy \<Rightarrow> AdditionalPermissionProfile option \<Rightarrow> NetworkSandboxPolicy" where
  "effectiveNetworkSandboxPolicy base additional =
     (case additional of
        Some a \<Rightarrow>
          if mergeNetworkAccess (NetworkSandboxPolicy_IsEnabled base) a then NetEnabled else NetRestricted
      | None \<Rightarrow> base)"

text \<open>sandbox/preference.go: the profile a command runs under.\<close>

definition EffectivePermissionProfile ::
  "PermissionProfile \<Rightarrow> AdditionalPermissionProfile option \<Rightarrow> PermissionProfile" where
  "EffectivePermissionProfile base additional =
     (let (fsPolicy, networkPolicy) = profileRuntimePermissions base;
          effectiveFS = effectiveFileSystemSandboxPolicy fsPolicy additional;
          effectiveNet = effectiveNetworkSandboxPolicy networkPolicy additional in
      profileFromRuntimeWithEnforcement (Enforcement base) effectiveFS effectiveNet)"

section \<open>Basic lemmas\<close>

lemma CanWrite_simps [simp]:
  "CanWrite ModeWrite" "\<not> CanWrite ModeRead" "\<not> CanWrite ModeDeny" "\<not> CanWrite (ModeOther s)"
  by (simp_all add: CanWrite_def)

lemma CanRead_simps [simp]:
  "CanRead ModeWrite" "CanRead ModeRead" "\<not> CanRead ModeDeny" "CanRead (ModeOther s)"
  by (simp_all add: CanRead_def)

lemma filesystemPathsEqual_refl [simp]: "filesystemPathsEqual p p"
  by (simp add: filesystemPathsEqual_def specialPathsEqual_def
      split: FileSystemPathType.split option.split FileSystemSpecialPathKind.split)

lemma merge_entries_extends: "\<exists>more'. merge_entries entries new = entries @ more' \<and> set more' \<subseteq> set new"
proof (induction entries new rule: merge_entries.induct)
  case (2 entries e rest)
  show ?case
  proof (cases "containsEntry entries e")
    case True
    with 2 show ?thesis by auto
  next
    case False
    with 2 obtain m where "merge_entries (entries @ [e]) rest = (entries @ [e]) @ m" "set m \<subseteq> set rest" by auto
    with False show ?thesis by (intro exI [of _ "e # m"]) auto
  qed
qed simp

lemma set_merge_entries_subset:
  "set entries \<subseteq> set (merge_entries entries new)"
  "set (merge_entries entries new) \<subseteq> set entries \<union> set new"
  using merge_entries_extends [of entries new] by auto

lemma containsEntry_mono: "containsEntry es e \<Longrightarrow> set es \<subseteq> set fs \<Longrightarrow> containsEntry fs e"
  by (auto simp: containsEntry_def list_ex_iff)

lemma merge_entries_contains:
  "e \<in> set new \<Longrightarrow> containsEntry (merge_entries entries new) e"
proof (induction entries new rule: merge_entries.induct)
  case (2 entries x rest)
  define e1 where "e1 = (if containsEntry entries x then entries else entries @ [x])"
  have "containsEntry e1 x" by (simp add: e1_def containsEntry_def entriesEqual_def)
  then have "containsEntry (merge_entries e1 rest) x"
    using containsEntry_mono set_merge_entries_subset(1) by blast
  moreover have "merge_entries entries (x # rest) = merge_entries e1 rest" by (simp add: e1_def)
  ultimately show ?case using 2 by (auto simp: e1_def [symmetric])
qed simp

text \<open>The legacy read and write lists hold the same entries, reads first.\<close>

definition legacy_entry :: "FileSystemSandboxEntry \<Rightarrow> bool" where
  "legacy_entry e \<longleftrightarrow>
     fp_Type (se_Path e) = PtPath \<and> (se_Access e = ModeRead \<or> se_Access e = ModeWrite)"

definition paths_with_access :: "FileSystemAccessMode \<Rightarrow> FileSystemSandboxEntry list \<Rightarrow> string list" where
  "paths_with_access m es = map (\<lambda>e. fp_Path (se_Path e)) (filter (\<lambda>e. se_Access e = m) es)"

lemma legacy_roots_loop_eq:
  "legacy_roots_loop es r w =
     (if list_all legacy_entry es
      then Some (r @ paths_with_access ModeRead es, w @ paths_with_access ModeWrite es) else None)"
  by (induction es r w rule: legacy_roots_loop.induct)
    (auto simp: legacy_entry_def paths_with_access_def split: FileSystemAccessMode.splits)

text \<open>Without an overlay the effective profile of a well-formed profile is that profile.\<close>

definition profile_wf :: "PermissionProfile \<Rightarrow> bool" where
  "profile_wf p \<longleftrightarrow>
     (\<exists>entries d n. p = NewManagedPermissionProfile (NewRestrictedManagedFileSystem entries d) n) \<or>
     (\<exists>n. p = NewManagedPermissionProfile NewUnrestrictedManagedFileSystem n) \<or>
     p = NewDisabledPermissionProfile \<or> (\<exists>n. p = NewExternalPermissionProfile n)"

lemmas profile_defs =
  NewManagedPermissionProfile_def NewDisabledPermissionProfile_def NewExternalPermissionProfile_def
  NewRestrictedManagedFileSystem_def NewUnrestrictedManagedFileSystem_def ToSandboxPolicy_def policy_of_kind_def
  profileFileSystemSandboxPolicy_def profileNetworkSandboxPolicy_def profileRuntimePermissions_def
  managedFromSandboxPolicy_def profileFromRuntimeWithEnforcement_def Enforcement_def
  effectiveFileSystemSandboxPolicy_def effectiveNetworkSandboxPolicy_def EffectivePermissionProfile_def

lemma EffectivePermissionProfile_None: "profile_wf p \<Longrightarrow> EffectivePermissionProfile p None = p"
  by (auto simp: profile_wf_def profile_defs)

end
