(* ===== verification/Sandbox_Seccomp.thy ===== *)
theory Sandbox_Seccomp
  imports Go_Scan Perm_Types "HOL-Library.Word"
begin

unbundle bit_operations_syntax

text \<open>
  The network filter of the Linux sandbox: the builder of the classic-BPF program
  (sandbox/seccomp\_bpf.go), the choice of the mode and the kernel-version probe (sandbox/native\_spec.go).

  The machine that runs the program is the Linux kernel, which is not part of the repository: it is a
  parameter \<open>run\<close> of the theorems, and \<open>classic_bpf run\<close> states the documented behaviour of the three
  instructions the builder emits (absolute word load, jump if equal, return constant). The data a filter
  inspects (struct seccomp\_data) is a function from offsets to 32-bit words.
\<close>

section \<open>Instructions and constants\<close>

record sockFilterInstr =
  Code :: "16 word"
  Jt :: "8 word"
  Jf :: "8 word"
  K :: "32 word"

definition bpfLD :: "16 word" where "bpfLD = 0x00"
definition bpfJMP :: "16 word" where "bpfJMP = 0x05"
definition bpfRET :: "16 word" where "bpfRET = 0x06"
definition bpfW :: "16 word" where "bpfW = 0x00"
definition bpfABS :: "16 word" where "bpfABS = 0x20"
definition bpfK :: "16 word" where "bpfK = 0x00"
definition bpfJEQ :: "16 word" where "bpfJEQ = 0x10"

definition seccompDataNROffset :: "32 word" where "seccompDataNROffset = 0"
definition seccompDataArchOffset :: "32 word" where "seccompDataArchOffset = 4"
definition seccompDataArg0LowOffset :: "32 word" where "seccompDataArg0LowOffset = 16"

definition seccompRetAllow :: "32 word" where "seccompRetAllow = 0x7fff0000"
definition seccompRetErrnoTop :: "32 word" where "seccompRetErrnoTop = 0x00050000"
definition seccompRetKillProc :: "32 word" where "seccompRetKillProc = 0x80000000"

definition auditArchX8664 :: "32 word" where "auditArchX8664 = 0xC000003E"
definition auditArchAARCH64 :: "32 word" where "auditArchAARCH64 = 0xC00000B7"

definition afUNIX :: "32 word" where "afUNIX = 1"
definition afINET :: "32 word" where "afINET = 2"
definition afINET6 :: "32 word" where "afINET6 = 10"
definition errnoEPERM :: "32 word" where "errnoEPERM = 1"

datatype NetworkSeccompMode =
  NetworkSeccompModeNone | NetworkSeccompModeRestricted | NetworkSeccompModeProxyRouted

record networkSeccompSyscalls =
  sc_ptrace :: "32 word"
  sc_processVMReadv :: "32 word"
  sc_processVMWritev :: "32 word"
  sc_ioUringSetup :: "32 word"
  sc_ioUringEnter :: "32 word"
  sc_ioUringRegister :: "32 word"
  sc_connect :: "32 word"
  sc_accept :: "32 word"
  sc_accept4 :: "32 word"
  sc_bind :: "32 word"
  sc_listen :: "32 word"
  sc_getpeername :: "32 word"
  sc_getsockname :: "32 word"
  sc_shutdown :: "32 word"
  sc_sendto :: "32 word"
  sc_sendmmsg :: "32 word"
  sc_recvmmsg :: "32 word"
  sc_getsockopt :: "32 word"
  sc_setsockopt :: "32 word"
  sc_socket :: "32 word"
  sc_socketpair :: "32 word"

section \<open>The builder\<close>

type_synonym bpfBuilder = "sockFilterInstr list"

definition stmt :: "16 word \<Rightarrow> 32 word \<Rightarrow> bpfBuilder \<Rightarrow> bpfBuilder" where
  "stmt code k b = b @ [\<lparr>Code = code, Jt = 0, Jf = 0, K = k\<rparr>]"

definition jump :: "16 word \<Rightarrow> 32 word \<Rightarrow> 8 word \<Rightarrow> 8 word \<Rightarrow> bpfBuilder \<Rightarrow> bpfBuilder" where
  "jump code k jt jf b = b @ [\<lparr>Code = code, Jt = jt, Jf = jf, K = k\<rparr>]"

definition seccompRetErrno :: "32 word \<Rightarrow> 32 word" where
  "seccompRetErrno errno = seccompRetErrnoTop OR (errno AND 0x0000ffff)"

definition emitAllowEqualBlock :: "32 word \<Rightarrow> 32 word \<Rightarrow> bpfBuilder \<Rightarrow> bpfBuilder" where
  "emitAllowEqualBlock nr family b =
     (let b = jump (bpfJMP OR bpfJEQ OR bpfK) nr 0 5 b;
          b = stmt (bpfLD OR bpfW OR bpfABS) seccompDataArg0LowOffset b;
          b = jump (bpfJMP OR bpfJEQ OR bpfK) family 1 0 b;
          b = stmt (bpfRET OR bpfK) (seccompRetErrno errnoEPERM) b;
          b = stmt (bpfRET OR bpfK) seccompRetAllow b in
      stmt (bpfLD OR bpfW OR bpfABS) seccompDataNROffset b)"

definition emitAllowInetBlock :: "32 word \<Rightarrow> bpfBuilder \<Rightarrow> bpfBuilder" where
  "emitAllowInetBlock nr b =
     (let b = jump (bpfJMP OR bpfJEQ OR bpfK) nr 0 6 b;
          b = stmt (bpfLD OR bpfW OR bpfABS) seccompDataArg0LowOffset b;
          b = jump (bpfJMP OR bpfJEQ OR bpfK) afINET 2 0 b;
          b = jump (bpfJMP OR bpfJEQ OR bpfK) afINET6 1 0 b;
          b = stmt (bpfRET OR bpfK) (seccompRetErrno errnoEPERM) b;
          b = stmt (bpfRET OR bpfK) seccompRetAllow b in
      stmt (bpfLD OR bpfW OR bpfABS) seccompDataNROffset b)"

definition emitDenyUnixBlock :: "32 word \<Rightarrow> bpfBuilder \<Rightarrow> bpfBuilder" where
  "emitDenyUnixBlock nr b =
     (let b = jump (bpfJMP OR bpfJEQ OR bpfK) nr 0 5 b;
          b = stmt (bpfLD OR bpfW OR bpfABS) seccompDataArg0LowOffset b;
          b = jump (bpfJMP OR bpfJEQ OR bpfK) afUNIX 1 0 b;
          b = stmt (bpfRET OR bpfK) seccompRetAllow b;
          b = stmt (bpfRET OR bpfK) (seccompRetErrno errnoEPERM) b in
      stmt (bpfLD OR bpfW OR bpfABS) seccompDataNROffset b)"

datatype socketGateKind = allowFamilyEqual | allowFamilyInetOnly | denyFamilyUnix

definition emitSocketFamilyGate :: "32 word \<Rightarrow> socketGateKind \<Rightarrow> 32 word \<Rightarrow> bpfBuilder \<Rightarrow> bpfBuilder" where
  "emitSocketFamilyGate nr kind family b =
     (case kind of
        allowFamilyEqual \<Rightarrow> emitAllowEqualBlock nr family b
      | allowFamilyInetOnly \<Rightarrow> emitAllowInetBlock nr b
      | denyFamilyUnix \<Rightarrow> emitDenyUnixBlock nr b)"

definition denied_syscalls :: "NetworkSeccompMode \<Rightarrow> networkSeccompSyscalls \<Rightarrow> 32 word list" where
  "denied_syscalls mode sc =
     [sc_ptrace sc, sc_processVMReadv sc, sc_processVMWritev sc,
      sc_ioUringSetup sc, sc_ioUringEnter sc, sc_ioUringRegister sc]
     @ (if mode = NetworkSeccompModeRestricted then
          [sc_connect sc, sc_accept sc, sc_accept4 sc, sc_bind sc, sc_listen sc,
           sc_getpeername sc, sc_getsockname sc, sc_shutdown sc, sc_sendto sc,
           sc_sendmmsg sc, sc_recvmmsg sc, sc_getsockopt sc, sc_setsockopt sc]
        else [])"

definition emit_denied :: "32 word \<Rightarrow> bpfBuilder \<Rightarrow> bpfBuilder" where
  "emit_denied nr b =
     (let b = jump (bpfJMP OR bpfJEQ OR bpfK) nr 0 1 b in
      stmt (bpfRET OR bpfK) (seccompRetErrno errnoEPERM) b)"

definition buildNetworkSeccompProgram :: "NetworkSeccompMode \<Rightarrow> 32 word \<Rightarrow> networkSeccompSyscalls \<Rightarrow> sockFilterInstr list" where
  "buildNetworkSeccompProgram mode auditArch sc =
     (if mode = NetworkSeccompModeNone then []
      else
        let b = stmt (bpfLD OR bpfW OR bpfABS) seccompDataArchOffset [];
            b = jump (bpfJMP OR bpfJEQ OR bpfK) auditArch 1 0 b;
            b = stmt (bpfRET OR bpfK) seccompRetKillProc b;
            b = stmt (bpfLD OR bpfW OR bpfABS) seccompDataNROffset b;
            b = fold emit_denied (denied_syscalls mode sc) b;
            b = (case mode of
                   NetworkSeccompModeRestricted \<Rightarrow>
                     emitSocketFamilyGate (sc_socketpair sc) allowFamilyEqual afUNIX
                       (emitSocketFamilyGate (sc_socket sc) allowFamilyEqual afUNIX b)
                 | NetworkSeccompModeProxyRouted \<Rightarrow>
                     emitSocketFamilyGate (sc_socketpair sc) denyFamilyUnix 0
                       (emitSocketFamilyGate (sc_socket sc) allowFamilyInetOnly 0 b)
                 | NetworkSeccompModeNone \<Rightarrow> b) in
        stmt (bpfRET OR bpfK) seccompRetAllow b)"

section \<open>The choice of the mode\<close>

definition shouldInstallNetworkSeccomp :: "NetworkSandboxPolicy \<Rightarrow> bool \<Rightarrow> bool" where
  "shouldInstallNetworkSeccomp network allowNetworkForProxy \<longleftrightarrow>
     \<not> NetworkSandboxPolicy_IsEnabled network \<or> allowNetworkForProxy"

definition networkSeccompModeFor :: "NetworkSandboxPolicy \<Rightarrow> bool \<Rightarrow> bool \<Rightarrow> NetworkSeccompMode" where
  "networkSeccompModeFor network allowNetworkForProxy proxyRoutedNetwork =
     (if \<not> shouldInstallNetworkSeccomp network allowNetworkForProxy then NetworkSeccompModeNone
      else if proxyRoutedNetwork then NetworkSeccompModeProxyRouted
      else NetworkSeccompModeRestricted)"

section \<open>The machine\<close>

type_synonym seccomp_data = "32 word \<Rightarrow> 32 word"

text \<open>
  The documented behaviour of a classic-BPF machine on what remains of the program: \<open>run A d prog\<close> is the
  value returned with accumulator \<open>A\<close> on the data \<open>d\<close>. Jumps are relative to the next
  instruction and go forward.
\<close>

definition classic_bpf :: "(32 word \<Rightarrow> seccomp_data \<Rightarrow> sockFilterInstr list \<Rightarrow> 32 word) \<Rightarrow> bool" where
  "classic_bpf run \<longleftrightarrow>
     (\<forall>A d i rest. Code i = 0x20 \<longrightarrow> run A d (i # rest) = run (d (K i)) d rest) \<and>
     (\<forall>A d i rest. Code i = 0x15 \<longrightarrow> run A d (i # rest) = run A d (drop (unat (if A = K i then Jt i else Jf i)) rest)) \<and>
     (\<forall>A d i rest. Code i = 0x06 \<longrightarrow> run A d (i # rest) = K i)"



section \<open>What the filter decides\<close>

definition family_verdict :: "bool \<Rightarrow> 32 word" where
  "family_verdict allowed = (if allowed then 0x7fff0000 else 0x00050001)"










section \<open>The program implements the policy\<close>

text \<open>The instructions the builder appends, as blocks.\<close>

definition LD :: "32 word \<Rightarrow> sockFilterInstr" where "LD k = \<lparr>Code = 0x20, Jt = 0, Jf = 0, K = k\<rparr>"
definition JEQ :: "32 word \<Rightarrow> 8 word \<Rightarrow> 8 word \<Rightarrow> sockFilterInstr" where "JEQ k jt jf = \<lparr>Code = 0x15, Jt = jt, Jf = jf, K = k\<rparr>"
definition RET :: "32 word \<Rightarrow> sockFilterInstr" where "RET k = \<lparr>Code = 0x06, Jt = 0, Jf = 0, K = k\<rparr>"

lemmas bpf_constants = bpfLD_def bpfJMP_def bpfRET_def bpfW_def bpfABS_def bpfK_def bpfJEQ_def
  seccompDataNROffset_def seccompDataArchOffset_def seccompDataArg0LowOffset_def seccompRetAllow_def
  seccompRetErrnoTop_def seccompRetKillProc_def afUNIX_def afINET_def afINET6_def errnoEPERM_def

lemma stmt_LD: "stmt (bpfLD OR bpfW OR bpfABS) k b = b @ [LD k]"
  and stmt_RET: "stmt (bpfRET OR bpfK) k b = b @ [RET k]"
  and jump_JEQ: "jump (bpfJMP OR bpfJEQ OR bpfK) k jt jf b = b @ [JEQ k jt jf]"
  and RetErrno_EPERM: "seccompRetErrno errnoEPERM = 0x00050001"
  by (simp_all add: stmt_def jump_def LD_def RET_def JEQ_def seccompRetErrno_def bpf_constants)

definition denied_block :: "32 word \<Rightarrow> sockFilterInstr list" where
  "denied_block nr = [JEQ nr 0 1, RET 0x00050001]"

definition equal_block :: "32 word \<Rightarrow> 32 word \<Rightarrow> sockFilterInstr list" where
  "equal_block nr family = [JEQ nr 0 5, LD 16, JEQ family 1 0, RET 0x00050001, RET 0x7fff0000, LD 0]"

definition inet_block :: "32 word \<Rightarrow> sockFilterInstr list" where
  "inet_block nr = [JEQ nr 0 6, LD 16, JEQ 2 2 0, JEQ 10 1 0, RET 0x00050001, RET 0x7fff0000, LD 0]"

definition unix_block :: "32 word \<Rightarrow> sockFilterInstr list" where
  "unix_block nr = [JEQ nr 0 5, LD 16, JEQ 1 1 0, RET 0x7fff0000, RET 0x00050001, LD 0]"

lemma emit_blocks:
  "emit_denied nr b = b @ denied_block nr"
  "emitAllowEqualBlock nr family b = b @ equal_block nr family"
  "emitAllowInetBlock nr b = b @ inet_block nr"
  "emitDenyUnixBlock nr b = b @ unix_block nr"
  by (simp_all add: emit_denied_def emitAllowEqualBlock_def emitAllowInetBlock_def emitDenyUnixBlock_def Let_def
      stmt_LD stmt_RET jump_JEQ RetErrno_EPERM denied_block_def equal_block_def inet_block_def unix_block_def)
    (simp_all add: bpf_constants)

lemma fold_emit_denied: "fold emit_denied nrs b = b @ concat (map denied_block nrs)"
  by (induction nrs arbitrary: b) (simp_all add: emit_blocks)

definition gate_blocks :: "NetworkSeccompMode \<Rightarrow> networkSeccompSyscalls \<Rightarrow> sockFilterInstr list" where
  "gate_blocks mode sc =
     (if mode = NetworkSeccompModeRestricted then equal_block (sc_socket sc) 1 @ equal_block (sc_socketpair sc) 1
      else inet_block (sc_socket sc) @ unix_block (sc_socketpair sc))"

lemma program_blocks:
  assumes "mode \<noteq> NetworkSeccompModeNone"
  shows "buildNetworkSeccompProgram mode auditArch sc =
    [LD 4, JEQ auditArch 1 0, RET 0x80000000, LD 0] @ concat (map denied_block (denied_syscalls mode sc))
    @ gate_blocks mode sc @ [RET 0x7fff0000]"
  using assms
  by (cases mode)
    (simp_all add: buildNetworkSeccompProgram_def Let_def stmt_LD stmt_RET jump_JEQ fold_emit_denied
      emitSocketFamilyGate_def emit_blocks gate_blocks_def, simp_all add: bpf_constants)

lemma run_instr:
  assumes "classic_bpf run"
  shows run_LD: "run A d (LD k # rest) = run (d k) d rest"
    and run_JEQ: "run A d (JEQ k jt jf # rest) = run A d (drop (unat (if A = k then jt else jf)) rest)"
    and run_RET: "run A d (RET k # rest) = k"
  using assms by (simp_all add: classic_bpf_def LD_def JEQ_def RET_def)

lemma run_denied:
  assumes "classic_bpf run"
  shows "run A d (concat (map denied_block nrs) @ rest) = (if A \<in> set nrs then 0x00050001 else run A d rest)"
  by (induction nrs) (simp_all add: denied_block_def run_JEQ [OF assms] run_RET [OF assms])

lemma run_gates:
  assumes "classic_bpf run"
  shows "run A d (equal_block nr family @ rest) = (if A = nr then family_verdict (d 16 = family) else run A d rest)"
    and "run A d (inet_block nr @ rest) = (if A = nr then family_verdict (d 16 = 2 \<or> d 16 = 10) else run A d rest)"
    and "run A d (unix_block nr @ rest) = (if A = nr then family_verdict (d 16 \<noteq> 1) else run A d rest)"
  by (simp_all add: equal_block_def inet_block_def unix_block_def family_verdict_def
      run_LD [OF assms] run_JEQ [OF assms] run_RET [OF assms])

text \<open>What the blocks decide, still in terms of the builder's list.\<close>

lemma run_program:
  assumes "classic_bpf run" and "mode \<noteq> NetworkSeccompModeNone"
  shows "run A d (buildNetworkSeccompProgram mode auditArch sc) =
    (if d 4 \<noteq> auditArch then 0x80000000
     else if d 0 \<in> set (denied_syscalls mode sc) then 0x00050001
     else if d 0 = sc_socket sc then
       family_verdict (if mode = NetworkSeccompModeRestricted then d 16 = 1 else d 16 = 2 \<or> d 16 = 10)
     else if d 0 = sc_socketpair sc then
       family_verdict (if mode = NetworkSeccompModeRestricted then d 16 = 1 else d 16 \<noteq> 1)
     else 0x7fff0000)"
  unfolding program_blocks [OF assms(2)]
  by (simp add: run_LD [OF assms(1)] run_JEQ [OF assms(1)] run_RET [OF assms(1)] run_denied [OF assms(1)]
      gate_blocks_def run_gates [OF assms(1)])




text \<open>The table of x86-64, and the call \<open>socket(AF_INET, ...)\<close> in both modes.\<close>

definition amd64_syscalls :: networkSeccompSyscalls where
  "amd64_syscalls = \<lparr>sc_ptrace = 101, sc_processVMReadv = 310, sc_processVMWritev = 311, sc_ioUringSetup = 425,
     sc_ioUringEnter = 426, sc_ioUringRegister = 427, sc_connect = 42, sc_accept = 43, sc_accept4 = 288, sc_bind = 49,
     sc_listen = 50, sc_getpeername = 52, sc_getsockname = 51, sc_shutdown = 48, sc_sendto = 44, sc_sendmmsg = 307,
     sc_recvmmsg = 299, sc_getsockopt = 55, sc_setsockopt = 54, sc_socket = 41, sc_socketpair = 53\<rparr>"

definition sample_call :: "32 word \<Rightarrow> 32 word \<Rightarrow> seccomp_data" where
  "sample_call nr family = (\<lambda>k. if k = 0 then nr else if k = 4 then auditArchX8664 else if k = 16 then family else 0)"




text \<open>
  A call of the x32 convention passes, because the filter compares whole numbers only; the comment in the
  source expects the architecture check to stop it.
\<close>

lemma x32_connect_passes:
  assumes "classic_bpf run"
  shows "run A (sample_call (42 OR 0x40000000) 2) (buildNetworkSeccompProgram NetworkSeccompModeRestricted auditArchX8664 amd64_syscalls)
    = 0x7fff0000"
  using run_program [OF assms, of NetworkSeccompModeRestricted]
  by (simp add: sample_call_def denied_syscalls_def amd64_syscalls_def)


section \<open>The kernel-version probe\<close>

fun leadingDigits :: "string \<Rightarrow> string" where
  "leadingDigits [] = []"
| "leadingDigits (c # cs) = (if byte c < 48 \<or> 57 < byte c then [] else c # leadingDigits cs)"

datatype parse_error = Uint32Overflow string

text \<open>The loop of parseUint32 on a 64-bit accumulator; the digit is computed on bytes.\<close>

fun parse_digits :: "string \<Rightarrow> 64 word \<Rightarrow> 32 word option" where
  "parse_digits [] v = Some (ucast v)"
| "parse_digits (c # cs) v =
     (let v' = v * 10 + ucast ((of_nat (byte c) :: 8 word) - 48) in
      if 0xffffffff < v' then None else parse_digits cs v')"

definition parseUint32 :: "string \<Rightarrow> (parse_error, 32 word) result" where
  "parseUint32 s = (case parse_digits s 0 of Some v \<Rightarrow> Inr v | None \<Rightarrow> Inl (Uint32Overflow s))"

function wsl_version :: "string \<Rightarrow> bool option" where
  "wsl_version remaining =
     (case Index remaining ''wsl'' of
        None \<Rightarrow> None
      | Some marker \<Rightarrow>
          (let tail = drop (marker + 3) remaining; digits = leadingDigits tail in
           if digits \<noteq> [] \<and> \<not> isl (parseUint32 digits) then Some (parseUint32 digits = Inr 1)
           else wsl_version tail))"
  by pat_completeness auto
termination
proof (relation "measure length", simp, goal_cases)
  case (1 remaining marker tail digits)
  then show ?case using Index_le [of remaining "''wsl''" marker] by (auto dest!: sym [of "Some marker"])
qed

declare wsl_version.simps [simp del]

definition procVersionIndicatesWSL1 :: "go_env \<Rightarrow> string \<Rightarrow> bool" where
  "procVersionIndicatesWSL1 env procVersion =
     (let lower = ToLower env procVersion in
      case wsl_version lower of
        Some r \<Rightarrow> r
      | None \<Rightarrow> Contains lower ''microsoft'' \<and> \<not> Contains lower ''microsoft-standard'')"

text \<open>The value of a decimal numeral.\<close>

definition dec_value :: "string \<Rightarrow> nat" where
  "dec_value s = foldl (\<lambda>v c. v * 10 + (byte c - 48)) 0 s"

lemma foldl_dec_ge: "v \<le> foldl (\<lambda>v c. v * 10 + (byte c - 48)) v s"
proof (induction s arbitrary: v)
  case Nil
  then show ?case by simp
next
  case (Cons c s)
  have "v \<le> v * 10 + (byte c - 48)" by simp
  also have "\<dots> \<le> foldl (\<lambda>v c. v * 10 + (byte c - 48)) (v * 10 + (byte c - 48)) s" by (rule Cons)
  finally show ?case by simp
qed

lemma digit_word:
  assumes "48 \<le> byte c" and "byte c \<le> 57"
  shows "unat (ucast ((of_nat (byte c) :: 8 word) - 48) :: 64 word) = byte c - 48"
proof -
  have "n = 48 \<or> n = 49 \<or> n = 50 \<or> n = 51 \<or> n = 52 \<or> n = 53 \<or> n = 54 \<or> n = 55 \<or> n = 56 \<or> n = 57"
    if "48 \<le> n" "n \<le> 57" for n :: nat
    using that by presburger
  then have "byte c = 48 \<or> byte c = 49 \<or> byte c = 50 \<or> byte c = 51 \<or> byte c = 52 \<or> byte c = 53 \<or> byte c = 54 \<or>
      byte c = 55 \<or> byte c = 56 \<or> byte c = 57"
    using assms by blast
  then show ?thesis by (elim disjE) simp_all
qed

lemma parse_digits_value:
  assumes "list_all (\<lambda>c. 48 \<le> byte c \<and> byte c \<le> 57) s" and "unat v < 2 ^ 32"
  shows "parse_digits s v =
    (let n = foldl (\<lambda>v c. v * 10 + (byte c - 48)) (unat v) s in if n < 2 ^ 32 then Some (of_nat n) else None)"
  using assms
proof (induction s arbitrary: v)
  case Nil
  then show ?case by (simp add: Let_def)
next
  case (Cons c s)
  let ?d = "ucast ((of_nat (byte c) :: 8 word) - 48) :: 64 word"
  have d: "unat ?d = byte c - 48" using digit_word Cons.prems(1) by simp
  have "unat (v * 10) = unat v * 10" using Cons.prems(2) by (subst unat_mult_lem [THEN iffD1]) simp_all
  moreover have "unat v * 10 + (byte c - 48) < 2 ^ 64"
  proof -
    have "byte c - 48 \<le> 9" using Cons.prems(1) by auto
    moreover have "unat v < 4294967296" using Cons.prems(2) by simp
    ultimately have "unat v * 10 + (byte c - 48) < 18446744073709551616" by linarith
    then show ?thesis by simp
  qed
  ultimately have v': "unat (v * 10 + ?d) = unat v * 10 + (byte c - 48)"
    using d by (subst unat_add_lem [THEN iffD1]) simp_all
  show ?case
  proof (cases "0xffffffff < v * 10 + ?d")
    case True
    then have "2 ^ 32 \<le> unat v * 10 + (byte c - 48)" using v' by (simp add: word_less_nat_alt)
    with foldl_dec_ge [of "unat v * 10 + (byte c - 48)" s] True show ?thesis by (simp add: Let_def)
  next
    case False
    then have "unat (v * 10 + ?d) < 2 ^ 32" by (simp add: word_less_nat_alt)
    with Cons False v' show ?thesis by (simp add: Let_def)
  qed
qed


text \<open>
  Parsing an unsigned 32-bit number: for every string of ASCII digits, of any length, the result is its
  value if that is below \<open>2 ^ 32\<close> and the overflow error otherwise; the 64-bit accumulator never
  wraps around.
\<close>

theorem parseUint32_correct:
  assumes "list_all (\<lambda>c. 48 \<le> byte c \<and> byte c \<le> 57) s"
  shows "parseUint32 s = (if dec_value s < 2 ^ 32 then Inr (of_nat (dec_value s)) else Inl (Uint32Overflow s))"
  using parse_digits_value [OF assms, of 0] by (simp add: parseUint32_def dec_value_def Let_def)

theorem parseUint32_correct_witness:
  "parseUint32 ''4294967295'' = Inr 4294967295 \<and>
   parseUint32 ''4294967296'' = Inl (Uint32Overflow ''4294967296'')"
  using parseUint32_correct [of "''4294967295''"] parseUint32_correct [of "''4294967296''"]
  by (simp add: dec_value_def)

end
