(* ===== verification/Go_Netip.thy ===== *)
theory Go_Netip
  imports Go_Scan "HOL-Library.Word"
begin

unbundle bit_operations_syntax

text \<open>
  What the network proxy uses of package net/netip: IP addresses, the parser ParseAddr for dotted
  IPv4 and for IPv6 with ellipsis, embedded IPv4 and zone, and the classification methods. As in the Go
  version the module requires, the methods look through IPv4-mapped IPv6 addresses. Error texts are not
  modelled; the proxy only tests for an error.
\<close>

section \<open>Addresses\<close>

text \<open>An IPv6 address has sixteen bytes and a zone, empty for none.\<close>

datatype Addr = Addr4 "8 word" "8 word" "8 word" "8 word" | Addr6 "8 word list" string

fun Is4 :: "Addr \<Rightarrow> bool" where
  "Is4 (Addr4 a b c d) = True"
| "Is4 (Addr6 bs zone) = False"

fun Zone :: "Addr \<Rightarrow> string" where
  "Zone (Addr4 a b c d) = []"
| "Zone (Addr6 bs zone) = zone"

definition mapped_prefix :: "8 word list" where
  "mapped_prefix = replicate 10 0 @ [0xff, 0xff]"

fun Is4In6 :: "Addr \<Rightarrow> bool" where
  "Is4In6 (Addr4 a b c d) = False"
| "Is4In6 (Addr6 bs zone) = (take 12 bs = mapped_prefix)"

fun Unmap :: "Addr \<Rightarrow> Addr" where
  "Unmap (Addr4 a b c d) = Addr4 a b c d"
| "Unmap (Addr6 bs zone) =
     (if Is4In6 (Addr6 bs zone) then Addr4 (bs ! 12) (bs ! 13) (bs ! 14) (bs ! 15) else Addr6 bs zone)"

definition IsLoopback :: "Addr \<Rightarrow> bool" where
  "IsLoopback ip =
     (case Unmap ip of
        Addr4 a b c d \<Rightarrow> a = 127
      | Addr6 bs zone \<Rightarrow> bs = replicate 15 0 @ [1])"

definition IsPrivate :: "Addr \<Rightarrow> bool" where
  "IsPrivate ip =
     (case Unmap ip of
        Addr4 a b c d \<Rightarrow> a = 10 \<or> (a = 172 \<and> b AND 0xf0 = 16) \<or> (a = 192 \<and> b = 168)
      | Addr6 bs zone \<Rightarrow> bs ! 0 AND 0xfe = 0xfc)"

definition IsLinkLocalUnicast :: "Addr \<Rightarrow> bool" where
  "IsLinkLocalUnicast ip =
     (case Unmap ip of
        Addr4 a b c d \<Rightarrow> a = 169 \<and> b = 254
      | Addr6 bs zone \<Rightarrow> bs ! 0 = 0xfe \<and> bs ! 1 AND 0xc0 = 0x80)"

definition IsLinkLocalMulticast :: "Addr \<Rightarrow> bool" where
  "IsLinkLocalMulticast ip =
     (case Unmap ip of
        Addr4 a b c d \<Rightarrow> a = 224 \<and> b = 0 \<and> c = 0
      | Addr6 bs zone \<Rightarrow> bs ! 0 = 0xff \<and> bs ! 1 AND 0x0f = 0x02)"

text \<open>The unspecified addresses are compared with their zone and are not looked up through the mapping.\<close>

definition IsUnspecified :: "Addr \<Rightarrow> bool" where
  "IsUnspecified ip \<longleftrightarrow> ip = Addr4 0 0 0 0 \<or> ip = Addr6 (replicate 16 0) []"

definition IsMulticast :: "Addr \<Rightarrow> bool" where
  "IsMulticast ip =
     (case Unmap ip of
        Addr4 a b c d \<Rightarrow> a AND 0xf0 = 0xe0
      | Addr6 bs zone \<Rightarrow> bs ! 0 = 0xff)"

section \<open>Parsing\<close>

definition is_digit :: "char \<Rightarrow> bool" where
  "is_digit c \<longleftrightarrow> 48 \<le> byte c \<and> byte c \<le> 57"

text \<open>
  The loop of parseIPv4Fields on the remaining text, the octets read so far, the value and the number of digits
  of the current octet. A dot is refused at the start, at the end and after a dot, which means without
  digits since the last octet or with nothing after it.
\<close>

fun ipv4_loop :: "string \<Rightarrow> 8 word list \<Rightarrow> nat \<Rightarrow> nat \<Rightarrow> 8 word list option" where
  "ipv4_loop [] octets val digLen =
     (if length octets < 3 then None else Some (octets @ [of_nat val]))"
| "ipv4_loop (c # s) octets val digLen =
     (if is_digit c then
        if digLen = 1 \<and> val = 0 then None
        else let val' = val * 10 + (byte c - 48) in
             if 255 < val' then None else ipv4_loop s octets val' (digLen + 1)
      else if c = CHR ''.'' then
        if digLen = 0 \<or> s = [] then None
        else if length octets = 3 then None
        else ipv4_loop s (octets @ [of_nat val]) 0 0
      else None)"

definition parseIPv4Fields :: "string \<Rightarrow> 8 word list option" where
  "parseIPv4Fields s = ipv4_loop s [] 0 0"

definition parseIPv4 :: "string \<Rightarrow> Addr option" where
  "parseIPv4 s =
     (case parseIPv4Fields s of
        Some [a, b, c, d] \<Rightarrow> Some (Addr4 a b c d)
      | _ \<Rightarrow> None)"

definition hex_value :: "char \<Rightarrow> nat option" where
  "hex_value c =
     (if is_digit c then Some (byte c - 48)
      else if 97 \<le> byte c \<and> byte c \<le> 102 then Some (byte c - 97 + 10)
      else if 65 \<le> byte c \<and> byte c \<le> 70 then Some (byte c - 65 + 10)
      else None)"

text \<open>One group: its value, the number of digits and the rest; \<open>None\<close> for more than four digits.\<close>

fun hex_group :: "string \<Rightarrow> nat \<Rightarrow> nat \<Rightarrow> (nat \<times> nat \<times> string) option" where
  "hex_group [] off acc = Some (acc, off, [])"
| "hex_group (c # s) off acc =
     (case hex_value c of
        None \<Rightarrow> Some (acc, off, c # s)
      | Some v \<Rightarrow> if 3 < off then None else hex_group s (off + 1) (acc * 16 + v))"

lemma hex_group_shorter: "hex_group s off acc = Some (v, off', rest) \<Longrightarrow> length rest + off' = length s + off"
  by (induction s off acc rule: hex_group.induct) (auto split: option.splits if_splits)

text \<open>
  The loop of parseIPv6 over the groups: the bytes written so far, the position of the ellipsis, and the rest
  of the text. It returns the bytes, the ellipsis and what is left of the text.
\<close>

function ipv6_loop :: "string \<Rightarrow> 8 word list \<Rightarrow> nat option \<Rightarrow> (8 word list \<times> nat option \<times> string) option" where
  "ipv6_loop s ip ellipsis =
     (if 16 \<le> length ip then Some (ip, ellipsis, s)
      else
        (case hex_group s 0 0 of
           None \<Rightarrow> None
         | Some (acc, off, rest) \<Rightarrow>
             if off = 0 then None
             else if rest \<noteq> [] \<and> hd rest = CHR ''.'' then
               if ellipsis = None \<and> length ip \<noteq> 12 then None
               else if 16 < length ip + 4 then None
               else (case parseIPv4Fields s of
                       None \<Rightarrow> None
                     | Some v4 \<Rightarrow> Some (ip @ v4, ellipsis, []))
             else
               let ip' = ip @ [of_nat (acc div 256), of_nat (acc mod 256)] in
               (case rest of
                  [] \<Rightarrow> Some (ip', ellipsis, [])
                | c # s1 \<Rightarrow>
                    if c \<noteq> CHR '':'' then None
                    else if s1 = [] then None
                    else if hd s1 = CHR '':'' then
                      if ellipsis \<noteq> None then None
                      else if tl s1 = [] then Some (ip', Some (length ip'), [])
                      else ipv6_loop (tl s1) ip' (Some (length ip'))
                    else ipv6_loop s1 ip' ellipsis)))"
  by pat_completeness auto
termination
  by (relation "measure (\<lambda>(s, ip, ellipsis). length s)") (auto dest!: hex_group_shorter sym [of "Some _"])

declare ipv6_loop.simps [simp del]

text \<open>The end of parseIPv6: the whole text is used, and an ellipsis stands for at least one zero.\<close>

definition ipv6_finish :: "8 word list \<Rightarrow> nat option \<Rightarrow> string \<Rightarrow> string \<Rightarrow> Addr option" where
  "ipv6_finish ip ellipsis s zone =
     (if s \<noteq> [] then None
      else case ellipsis of
             None \<Rightarrow> if length ip < 16 then None else Some (Addr6 ip zone)
           | Some e \<Rightarrow> if length ip < 16 then Some (Addr6 (take e ip @ replicate (16 - length ip) 0 @ drop e ip) zone)
                       else None)"

definition parseIPv6_address :: "string \<Rightarrow> string \<Rightarrow> Addr option" where
  "parseIPv6_address s zone =
     (if HasPrefix s ''::'' then
        (if drop 2 s = [] then Some (Addr6 (replicate 16 0) zone)
         else case ipv6_loop (drop 2 s) [] (Some 0) of
                None \<Rightarrow> None
              | Some (ip, ellipsis, rest) \<Rightarrow> ipv6_finish ip ellipsis rest zone)
      else case ipv6_loop s [] None of
             None \<Rightarrow> None
           | Some (ip, ellipsis, rest) \<Rightarrow> ipv6_finish ip ellipsis rest zone)"

definition parseIPv6 :: "string \<Rightarrow> Addr option" where
  "parseIPv6 s =
     (case Cut s (CHR ''%'') of
        Some (addr, zone) \<Rightarrow> if zone = [] then None else parseIPv6_address addr zone
      | None \<Rightarrow> parseIPv6_address s [])"

definition ParseAddr :: "string \<Rightarrow> Addr option" where
  "ParseAddr s =
     (case find (\<lambda>c. c = CHR ''.'' \<or> c = CHR '':'' \<or> c = CHR ''%'') s of
        Some c \<Rightarrow> if c = CHR ''.'' then parseIPv4 s else if c = CHR '':'' then parseIPv6 s else None
      | None \<Rightarrow> None)"

section \<open>Properties of parsed addresses\<close>

definition wf_addr :: "Addr \<Rightarrow> bool" where
  "wf_addr ip = (case ip of Addr4 a b c d \<Rightarrow> True | Addr6 bs zone \<Rightarrow> length bs = 16)"

lemma ipv4_loop_length: "ipv4_loop s octets val digLen = Some bs \<Longrightarrow> length octets \<le> 3 \<Longrightarrow> length bs = 4"
  by (induction s octets val digLen rule: ipv4_loop.induct) (auto simp: Let_def split: if_splits)

lemma parseIPv4Fields_length: "parseIPv4Fields s = Some bs \<Longrightarrow> length bs = 4"
  using ipv4_loop_length [of s "[]"] by (simp add: parseIPv4Fields_def)

lemma ipv6_loop_length:
  "ipv6_loop s ip ellipsis = Some (ip', ellipsis', rest) \<Longrightarrow> length ip \<le> 16 \<Longrightarrow> even (length ip) \<Longrightarrow>
   (\<forall>e. ellipsis = Some e \<longrightarrow> e \<le> length ip) \<Longrightarrow>
   length ip' \<le> 16 \<and> (\<forall>e. ellipsis' = Some e \<longrightarrow> e \<le> length ip')"
proof (induction "length s" arbitrary: s ip ellipsis rule: less_induct)
  case less
  note IH = less.hyps and start = less.prems(2-4)
  show ?case
  proof (cases "16 \<le> length ip")
    case True
    then show ?thesis using less.prems by (simp add: ipv6_loop.simps)
  next
    case False
    then have room: "length ip + 2 \<le> 16" using start(2) by presburger
    obtain acc off r where g: "hex_group s 0 0 = Some (acc, off, r)" and "off \<noteq> 0"
      using less.prems(1) False by (subst (asm) ipv6_loop.simps) (auto split: option.splits if_splits)
    then have shorter: "length r < length s" using hex_group_shorter [OF g] by simp
    define ip1 where "ip1 = ip @ [of_nat (acc div 256), of_nat (acc mod 256)]"
    have ip1: "length ip1 = length ip + 2" by (simp add: ip1_def)
    have rec: ?thesis if "ipv6_loop t ip1 el = Some (ip', ellipsis', rest)" "length t < length s"
      "el = ellipsis \<or> el = Some (length ip1)" for t el
    proof -
      have "\<forall>e. el = Some e \<longrightarrow> e \<le> length ip1" using that(3) start(3) by (auto simp: ip1)
      then show ?thesis using IH [OF that(2,1)] room start(2) by (simp add: ip1)
    qed
    from less.prems(1) False g \<open>off \<noteq> 0\<close> show ?thesis
      apply (subst (asm) ipv6_loop.simps)
      apply (simp add: Let_def flip: ip1_def split: if_splits option.splits list.splits)
      using start room shorter rec ip1
      by (auto dest!: parseIPv4Fields_length)
  qed
qed

lemma ipv6_finish_wf:
  assumes "ipv6_loop s [] ellipsis = Some (bs, ellipsis', rest)" "ellipsis = None \<or> ellipsis = Some 0"
    "ipv6_finish bs ellipsis' rest zone = Some ip"
  shows "wf_addr ip"
  using assms(3) ipv6_loop_length [OF assms(1)] assms(2)
  by (auto simp: ipv6_finish_def wf_addr_def split: if_splits option.splits)

lemma ParseAddr_wf: "ParseAddr s = Some ip \<Longrightarrow> wf_addr ip"
  unfolding ParseAddr_def parseIPv4_def parseIPv6_def parseIPv6_address_def
  by (auto simp: wf_addr_def [of "Addr4 a b c d" for a b c d] wf_addr_def [of "Addr6 (replicate 16 0) zone" for zone]
      intro: ipv6_finish_wf split: option.splits if_splits list.splits prod.splits)

text \<open>Examples of the documented behaviour.\<close>

lemma ParseAddr_examples:
  "ParseAddr ''127.0.0.1'' = Some (Addr4 127 0 0 1)"
  "ParseAddr ''127.0.0.01'' = None"
  "ParseAddr ''256.0.0.1'' = None"
  "ParseAddr ''::1'' = Some (Addr6 (replicate 14 0 @ [0, 1]) [])"
  "ParseAddr ''fe80::1%lo0'' = Some (Addr6 ([0xfe, 0x80] @ replicate 12 0 @ [0, 1]) ''lo0'')"
  "ParseAddr ''::ffff:10.0.0.1'' = Some (Addr6 (replicate 10 0 @ [0xff, 0xff, 10, 0, 0, 1]) [])"
  "ParseAddr ''1::2::3'' = None"
  "ParseAddr ''example.com'' = None"
  by (simp_all add: ParseAddr_def parseIPv4_def parseIPv4Fields_def is_digit_def parseIPv6_def parseIPv6_address_def
      ipv6_loop.simps hex_value_def ipv6_finish_def HasPrefix_def Let_def upt_rec)

end
