(* ===== verification/Net_Glob.thy ===== *)
theory Net_Glob
  imports Go_Scan
begin

text \<open>
  Glob matching of the network proxy (networkproxy/glob.go, globMatch and matchClass). The matcher
  is an iterative loop that remembers only the last \<open>*\<close> and backtracks to it. Positions are represented by
  the remaining suffixes of the pattern and of the candidate; the loop is a partial function, with \<open>None\<close>
  for a loop that does not end or an index out of range. It is proved to return, for every
  pattern and candidate and with both treatments of the path separator, the answer of the
  declarative reading of the pattern: forgetting all but the last star loses no match.
\<close>

section \<open>Code\<close>

text \<open>The test for a range like \<open>a-z\<close>, on what follows its first byte: the upper end and the rest.\<close>

definition class_range :: "string \<Rightarrow> (char \<times> string) option" where
  "class_range r =
     (case r of
        d # hi # r' \<Rightarrow> if d = CHR ''-'' \<and> hi \<noteq> CHR '']'' then Some (hi, r') else None
      | _ \<Rightarrow> None)"

lemma class_range_SomeD: "class_range r = Some (hi, r') \<Longrightarrow> length r = length r' + 2 \<and> r' = drop 2 r"
  by (auto simp: class_range_def split: list.splits if_splits)

text \<open>
  The loop of matchClass from position \<open>i\<close>, where the list is what remains of the pattern: whether the byte
  matched, and the bytes consumed (0 for a class that is not terminated).
\<close>

function class_loop :: "char \<Rightarrow> string \<Rightarrow> nat \<Rightarrow> bool \<Rightarrow> bool \<Rightarrow> bool \<Rightarrow> bool \<times> nat" where
  "class_loop ch [] i negate matched first = (False, 0)"
| "class_loop ch (x # r) i negate matched first =
     (if x = CHR '']'' \<and> \<not> first then (if negate then \<not> matched else matched, i + 1)
      else
        (case class_range r of
           Some (hi, r') \<Rightarrow> class_loop ch r' (i + 3) negate (matched \<or> (byte x \<le> byte ch \<and> byte ch \<le> byte hi)) False
         | None \<Rightarrow> class_loop ch r (i + 1) negate (matched \<or> x = ch) False))"
  by pat_completeness auto
termination
  by (relation "measure (\<lambda>(ch, xs, i, negate, matched, first). length xs)") (auto dest!: class_range_SomeD sym [of "Some _"])

definition matchClass :: "string \<Rightarrow> char \<Rightarrow> bool \<times> nat" where
  "matchClass pattern ch =
     (case pattern of
        c # xs \<Rightarrow>
          if c \<noteq> CHR ''['' then (False, 0)
          else (case xs of
                  x # r \<Rightarrow> if x = CHR ''!'' \<or> x = CHR ''^'' then class_loop ch r 2 True False True
                           else class_loop ch xs 1 False False True
                | [] \<Rightarrow> class_loop ch xs 1 False False True)
      | [] \<Rightarrow> (False, 0))"

text \<open>What the switch does at one position: advance both, enter a star, or fall through to backtracking.\<close>

datatype glob_move = Advance string | EnterStar string | Mismatch

definition drop_stars :: "string \<Rightarrow> string" where
  "drop_stars p = dropWhile (\<lambda>q. q = CHR ''*'') p"

definition glob_step :: "bool \<Rightarrow> string \<Rightarrow> char \<Rightarrow> glob_move" where
  "glob_step literalSeparator p c =
     (case p of
        [] \<Rightarrow> Mismatch
      | q # qs \<Rightarrow>
          if q = CHR ''?'' then (if \<not> literalSeparator \<or> c \<noteq> CHR ''/'' then Advance qs else Mismatch)
          else if q = CHR ''*'' then EnterStar (drop_stars p)
          else if q = CHR ''['' then
            (case matchClass p c of
               (matched, next) \<Rightarrow>
                 if matched \<and> (\<not> literalSeparator \<or> c \<noteq> CHR ''/'') then Advance (drop next p)
                 else if \<not> matched \<and> 0 < next then Mismatch
                 else if q = c then Advance qs else Mismatch)
          else if q = c then Advance qs else Mismatch)"

partial_function (option) glob_loop :: "bool \<Rightarrow> string \<Rightarrow> string \<Rightarrow> (string \<times> string) option \<Rightarrow> bool option" where
  [code]: "glob_loop literalSeparator p s star =
     (case s of
        [] \<Rightarrow> Some (drop_stars p = [])
      | c # cs \<Rightarrow>
          (case glob_step literalSeparator p c of
             Advance p' \<Rightarrow> glob_loop literalSeparator p' cs star
           | EnterStar p' \<Rightarrow> glob_loop literalSeparator p' s (Some (p', s))
           | Mismatch \<Rightarrow>
               (case star of
                  None \<Rightarrow> Some False
                | Some (starP, starS) \<Rightarrow>
                    (case starS of
                       [] \<Rightarrow> None
                     | d # ds \<Rightarrow>
                         if literalSeparator \<and> d = CHR ''/'' then Some False
                         else glob_loop literalSeparator starP ds (Some (starP, ds))))))"

definition globMatch :: "string \<Rightarrow> string \<Rightarrow> bool \<Rightarrow> bool option" where
  "globMatch pattern candidate literalSeparator = glob_loop literalSeparator pattern candidate None"

section \<open>The declarative reading of a pattern\<close>

datatype glob_token = TStar | TAny | TLit char | TClass bool "(char \<times> char) list"

text \<open>The members of a class up to its closing bracket (the first member may be a bracket), and what follows it.\<close>

function class_members :: "bool \<Rightarrow> string \<Rightarrow> ((char \<times> char) list \<times> string) option" where
  "class_members first [] = None"
| "class_members first (x # r) =
     (if x = CHR '']'' \<and> \<not> first then Some ([], r)
      else
        (case class_range r of
           Some (hi, r') \<Rightarrow> map_option (apfst ((#) (x, hi))) (class_members False r')
         | None \<Rightarrow> map_option (apfst ((#) (x, x))) (class_members False r)))"
  by pat_completeness auto
termination
  by (relation "measure (\<lambda>(first, xs). length xs)") (auto dest!: class_range_SomeD sym [of "Some _"])

definition parse_class :: "string \<Rightarrow> (bool \<times> (char \<times> char) list \<times> string) option" where
  "parse_class xs =
     (case xs of
        x # r \<Rightarrow> if x = CHR ''!'' \<or> x = CHR ''^'' then map_option (Pair True) (class_members True r)
                 else map_option (Pair False) (class_members True xs)
      | [] \<Rightarrow> None)"

lemma class_members_suffix: "class_members first xs = Some (ms, rest) \<Longrightarrow> \<exists>c. c \<noteq> [] \<and> xs = c @ rest"
proof (induction first xs arbitrary: ms rest rule: class_members.induct)
  case (1 first)
  then show ?case by simp
next
  case (2 first x r)
  show ?case
  proof (cases "x = CHR '']'' \<and> \<not> first")
    case True
    with 2(3) have "rest = r" by auto
    then show ?thesis by (intro exI [of _ "[x]"]) simp
  next
    case False
    show ?thesis
    proof (cases "class_range r")
      case None
      have "class_members first (x # r) = map_option (apfst ((#) (x, x))) (class_members False r)"
        unfolding class_members.simps if_not_P [OF False] None by simp
      with 2(3) have "map_option (apfst ((#) (x, x))) (class_members False r) = Some (ms, rest)" by simp
      then obtain ms' where "class_members False r = Some (ms', rest)" by auto
      from 2(1) [OF False None this] obtain c where "r = c @ rest" by blast
      then show ?thesis by (intro exI [of _ "x # c"]) simp
    next
      case (Some a)
      obtain hi r' where a: "a = (hi, r')" by (cases a)
      have "class_members first (x # r) = map_option (apfst ((#) (x, hi))) (class_members False r')"
        unfolding class_members.simps if_not_P [OF False] Some a by simp
      with 2(3) have "map_option (apfst ((#) (x, hi))) (class_members False r') = Some (ms, rest)" by simp
      then obtain ms' where "class_members False r' = Some (ms', rest)" by auto
      from 2(2) [OF False Some [unfolded a] refl this] obtain c where "r' = c @ rest" by blast
      moreover have "r = take 2 r @ r'" using class_range_SomeD [OF Some [unfolded a]] by (metis append_take_drop_id)
      ultimately have "x # r = (x # take 2 r @ c) @ rest" by simp
      then show ?thesis by blast
    qed
  qed
qed

lemma class_members_length: "class_members first xs = Some (ms, rest) \<Longrightarrow> length rest < length xs"
  using class_members_suffix by fastforce

lemma parse_class_length: "parse_class xs = Some (negate, ms, rest) \<Longrightarrow> length rest < length xs"
proof (cases xs)
  case (Cons x r)
  assume "parse_class xs = Some (negate, ms, rest)"
  then have "class_members True r = Some (ms, rest) \<or> class_members True xs = Some (ms, rest)"
    using Cons by (auto simp: parse_class_def split: if_splits)
  then show ?thesis using class_members_length [of True r ms rest] class_members_length [of True xs ms rest] Cons by auto
qed (simp add: parse_class_def)

function tokens :: "string \<Rightarrow> glob_token list" where
  "tokens [] = []"
| "tokens (q # qs) =
     (if q = CHR ''?'' then TAny # tokens qs
      else if q = CHR ''*'' then TStar # tokens qs
      else if q = CHR ''['' then
        (case parse_class qs of
           Some (negate, ms, rest) \<Rightarrow> TClass negate ms # tokens rest
         | None \<Rightarrow> TLit q # tokens qs)
      else TLit q # tokens qs)"
  by pat_completeness auto
termination
  by (relation "measure length") (auto dest!: parse_class_length sym [of "Some _"])

text \<open>A separator is matched by itself only, if separators are literal.\<close>

definition sep_ok :: "bool \<Rightarrow> char \<Rightarrow> bool" where
  "sep_ok lit c \<longleftrightarrow> \<not> lit \<or> c \<noteq> CHR ''/''"

definition in_class :: "(char \<times> char) list \<Rightarrow> char \<Rightarrow> bool" where
  "in_class ms c \<longleftrightarrow> (\<exists>(lo, hi) \<in> set ms. byte lo \<le> byte c \<and> byte c \<le> byte hi)"

fun token_ok :: "bool \<Rightarrow> glob_token \<Rightarrow> char \<Rightarrow> bool" where
  "token_ok lit TStar c = False"
| "token_ok lit TAny c = sep_ok lit c"
| "token_ok lit (TLit d) c = (d = c)"
| "token_ok lit (TClass negate ms) c = (sep_ok lit c \<and> (negate \<noteq> in_class ms c))"

fun glob_matches :: "bool \<Rightarrow> glob_token list \<Rightarrow> string \<Rightarrow> bool" where
  "glob_matches lit [] s = (s = [])"
| "glob_matches lit (TStar # ts) [] = glob_matches lit ts []"
| "glob_matches lit (TStar # ts) (c # cs) = (glob_matches lit ts (c # cs) \<or> (sep_ok lit c \<and> glob_matches lit (TStar # ts) cs))"
| "glob_matches lit (t # ts) [] = False"
| "glob_matches lit (t # ts) (c # cs) = (token_ok lit t c \<and> glob_matches lit ts cs)"


section \<open>Classes\<close>

lemma in_class_simps [simp]:
  "in_class [] ch = False" "in_class ((lo, hi) # ms) ch = ((byte lo \<le> byte ch \<and> byte ch \<le> byte hi) \<or> in_class ms ch)"
  by (simp_all add: in_class_def)

lemma byte_le_both: "byte x \<le> byte ch \<and> byte ch \<le> byte x \<longleftrightarrow> x = ch"
  by (metis char_of_char order_antisym order_refl)

text \<open>The result of the loop: the members decide, and the consumed bytes end where the class ends.\<close>

definition class_result :: "char \<Rightarrow> nat \<Rightarrow> bool \<Rightarrow> bool \<Rightarrow> string \<Rightarrow> ((char \<times> char) list \<times> string) option \<Rightarrow> bool \<times> nat" where
  "class_result ch i negate matched xs r =
     (case r of None \<Rightarrow> (False, 0) | Some (ms, rest) \<Rightarrow> (negate \<noteq> (matched \<or> in_class ms ch), i + (length xs - length rest)))"

lemma class_loop_result:
  "class_loop ch xs i negate matched first = class_result ch i negate matched xs (class_members first xs)"
proof (induction ch xs i negate matched first rule: class_loop.induct)
  case (1 ch i negate matched first)
  then show ?case by (simp add: class_result_def)
next
  case (2 ch x r i negate matched first)
  show ?case
  proof (cases "x = CHR '']'' \<and> \<not> first")
    case True
    then show ?thesis by (simp add: class_result_def)
  next
    case False
    note unfold = class_loop.simps class_members.simps if_not_P [OF False]
    show ?thesis
    proof (cases "class_range r")
      case None
      from 2(1) [OF False None] show ?thesis
        unfolding unfold None using class_members_length [of False r] byte_le_both [of x ch]
        by (cases "class_members False r") (auto simp: class_result_def Suc_diff_le less_imp_le)
    next
      case (Some a)
      obtain hi r' where a: "a = (hi, r')" by (cases a)
      have len: "length r = length r' + 2" using class_range_SomeD [OF Some [unfolded a]] by blast
      from 2(2) [OF False Some [unfolded a] refl] show ?thesis
        unfolding unfold Some a using class_members_length [of False r'] len
        by (cases "class_members False r'") (auto simp: class_result_def)
    qed
  qed
qed

lemma matchClass_parse:
  "matchClass (CHR ''['' # xs) ch =
     (case parse_class xs of
        None \<Rightarrow> (False, 0)
      | Some (negate, ms, rest) \<Rightarrow> (negate \<noteq> in_class ms ch, Suc (length xs - length rest)))"
proof (cases xs)
  case Nil
  then show ?thesis by (simp add: matchClass_def parse_class_def)
next
  case (Cons x r)
  then show ?thesis
    using class_members_length [of True r] class_members_length [of True xs]
    by (auto simp: matchClass_def parse_class_def class_loop_result class_result_def Suc_diff_le
        split: option.splits)
qed

lemma parse_class_suffix: "parse_class xs = Some (negate, ms, rest) \<Longrightarrow> drop (length xs - length rest) xs = rest"
proof (cases xs)
  case (Cons x r)
  assume "parse_class xs = Some (negate, ms, rest)"
  then have "class_members True r = Some (ms, rest) \<or> class_members True xs = Some (ms, rest)"
    using Cons by (auto simp: parse_class_def split: if_splits)
  then obtain c where "xs = c @ rest" using class_members_suffix Cons by (metis append_Cons)
  then show ?thesis by simp
qed (simp add: parse_class_def)


section \<open>Steps and tokens\<close>

lemma glob_step_token:
  assumes "q \<noteq> CHR ''*''"
  shows "\<exists>t p'. tokens (q # qs) = t # tokens p' \<and> t \<noteq> TStar \<and> length p' \<le> length qs \<and>
    (\<forall>c. glob_step lit (q # qs) c = (if token_ok lit t c then Advance p' else Mismatch))"
proof (cases "q = CHR ''['' \<and> parse_class qs \<noteq> None")
  case True
  then obtain negate ms rest where pc: "parse_class qs = Some (negate, ms, rest)" by auto
  have "length rest < length qs" using parse_class_length [OF pc] .
  moreover have "drop (length qs - length rest) qs = rest" using parse_class_suffix [OF pc] .
  ultimately show ?thesis using True pc
    by (intro exI [of _ "TClass negate ms"] exI [of _ rest])
      (auto simp: glob_step_def matchClass_parse sep_ok_def)
next
  case False
  then have pc: "parse_class qs = None" if "q = CHR ''[''" using that by blast
  show ?thesis
  proof (cases "q = CHR ''[''")
    case True
    then show ?thesis by (intro exI [of _ "TLit q"] exI [of _ qs]) (simp add: glob_step_def matchClass_parse pc)
  next
    case False
    then show ?thesis using assms
      by (intro exI [of _ "if q = CHR ''?'' then TAny else TLit q"] exI [of _ qs])
        (auto simp: glob_step_def sep_ok_def)
  qed
qed

lemma drop_stars_simps [simp]:
  "drop_stars [] = []" "drop_stars (CHR ''*'' # p) = drop_stars p" "q \<noteq> CHR ''*'' \<Longrightarrow> drop_stars (q # p) = q # p"
  by (simp_all add: drop_stars_def)

lemma drop_stars_length: "length (drop_stars p) \<le> length p"
  by (simp add: drop_stars_def length_dropWhile_le)

lemma glob_matches_two_stars: "glob_matches lit (TStar # TStar # ts) s = glob_matches lit (TStar # ts) s"
  by (induction s) auto

lemma glob_matches_drop_stars:
  "glob_matches lit (TStar # tokens p) s = glob_matches lit (TStar # tokens (drop_stars p)) s"
proof (induction p)
  case Nil
  then show ?case by simp
next
  case (Cons q p)
  show ?case
  proof (cases "q = CHR ''*''")
    case True
    then have "glob_matches lit (TStar # tokens (q # p)) s = glob_matches lit (TStar # tokens p) s"
      using glob_matches_two_stars [of lit "tokens p" s] by simp
    with Cons True show ?thesis by simp
  qed simp
qed

lemma glob_matches_no_stars: "glob_matches lit (tokens p) [] \<longleftrightarrow> drop_stars p = []"
proof (induction p)
  case Nil
  then show ?case by simp
next
  case (Cons q p)
  show ?case
  proof (cases "q = CHR ''*''")
    case True
    with Cons show ?thesis by simp
  next
    case False
    from glob_step_token [OF False, of p lit] obtain t p' where t: "tokens (q # p) = t # tokens p'" "t \<noteq> TStar" by blast
    have "\<not> glob_matches lit (t # tokens p') []" using t(2) by (cases t) simp_all
    then show ?thesis using False t(1) by (simp del: tokens.simps)
  qed
qed

section \<open>Stars\<close>

definition solid :: "glob_token list \<Rightarrow> bool" where
  "solid ts \<longleftrightarrow> TStar \<notin> set ts"

fun weight :: "glob_token list \<Rightarrow> nat" where
  "weight [] = 0"
| "weight (t # ts) = (if t = TStar then 0 else 1) + weight ts"

lemma weight_append [simp]: "weight (xs @ ys) = weight xs + weight ys"
  by (induction xs) auto

lemma weight_solid: "solid ts \<Longrightarrow> weight ts = length ts"
  by (induction ts) (auto simp: solid_def)

lemma glob_matches_weight: "glob_matches lit ts s \<Longrightarrow> weight ts \<le> length s"
  by (induction lit ts s rule: glob_matches.induct) auto

lemma glob_matches_star:
  "glob_matches lit (TStar # ts) s \<longleftrightarrow> (\<exists>k \<le> length s. list_all (sep_ok lit) (take k s) \<and> glob_matches lit ts (drop k s))"
proof (induction s)
  case Nil
  then show ?case by simp
next
  case (Cons c s)
  have "(\<exists>k \<le> length (c # s). list_all (sep_ok lit) (take k (c # s)) \<and> glob_matches lit ts (drop k (c # s))) \<longleftrightarrow>
      glob_matches lit ts (c # s) \<or> (\<exists>k \<le> length s. sep_ok lit c \<and> list_all (sep_ok lit) (take k s) \<and> glob_matches lit ts (drop k s))"
    by (auto simp: Ex_less_Suc2 less_Suc_eq_le [symmetric])
  with Cons show ?case by auto
qed

lemma glob_matches_solid:
  "solid w \<Longrightarrow> glob_matches lit (w @ ts) s \<longleftrightarrow>
     length w \<le> length s \<and> list_all2 (token_ok lit) w (take (length w) s) \<and> glob_matches lit ts (drop (length w) s)"
proof (induction w arbitrary: s)
  case Nil
  then show ?case by simp
next
  case (Cons t w)
  then have "t \<noteq> TStar" "solid w" by (auto simp: solid_def)
  with Cons.IH show ?case by (cases s; cases t) auto
qed

text \<open>With literal separators only the literal separator matches one.\<close>

lemma token_ok_sep: "token_ok True t CHR ''/'' \<Longrightarrow> t = TLit CHR ''/''"
  by (cases t) (auto simp: sep_ok_def)

text \<open>
  If the tokens \<open>w\<close> match at the beginning and again after \<open>k\<close> bytes that a star may consume, then a star may
  consume all bytes up to the end of the second occurrence.
\<close>

lemma no_sep_between:
  assumes "list_all2 (token_ok True) w (take (length w) x)" and "list_all2 (token_ok True) w (take (length w) (drop k x))"
    and "list_all (sep_ok True) (take k x)" and "0 < k" and "k + length w \<le> length x"
  shows "j < k + length w \<Longrightarrow> x ! j \<noteq> CHR ''/''"
proof (induction j rule: less_induct)
  case (less j)
  show ?case
  proof (cases "j < k")
    case True
    then have "sep_ok True (take k x ! j)" using assms(3,5) by (auto simp: list_all_length)
    then show ?thesis using True by (simp add: sep_ok_def)
  next
    case False
    let ?i = "j - k"
    have i: "?i < length w" using less.prems False by simp
    have first: "token_ok True (w ! ?i) (x ! ?i)" and second: "token_ok True (w ! ?i) (x ! j)"
      using list_all2_nthD [OF assms(1) i] list_all2_nthD [OF assms(2) i] i False assms(5) by simp_all
    have "x ! ?i \<noteq> CHR ''/''" using less.IH [of ?i] False assms(4) less.prems by simp
    then show ?thesis using first second token_ok_sep by fastforce
  qed
qed

lemma star_commit:
  assumes "solid w" and "list_all2 (token_ok lit) w u" and "glob_matches lit (TStar # w @ TStar # ts) (u @ s)"
  shows "glob_matches lit (TStar # ts) s"
proof -
  let ?x = "u @ s"
  have lu: "length w = length u" using assms(2) by (rule list_all2_lengthD)
  from assms(3) obtain k where k: "k \<le> length ?x" "list_all (sep_ok lit) (take k ?x)"
    "glob_matches lit (w @ TStar # ts) (drop k ?x)" unfolding glob_matches_star [of lit "w @ TStar # ts"] by blast
  then have w: "length w \<le> length ?x - k" "list_all2 (token_ok lit) w (take (length w) (drop k ?x))"
    "glob_matches lit (TStar # ts) (drop (length w) (drop k ?x))"
    unfolding glob_matches_solid [OF assms(1)] by auto
  have "drop (length w) (drop k ?x) = drop k s" unfolding drop_drop lu by simp
  with w(3) have rest: "glob_matches lit (TStar # ts) (drop k s)" by simp
  have "list_all (sep_ok lit) (take k s)"
  proof (cases "lit \<and> 0 < k")
    case True
    have "take (length w) ?x = u" using lu by simp
    then have "?x ! j \<noteq> CHR ''/''" if "j < k + length w" for j
      using no_sep_between [of w ?x k j] assms(2) w(1,2) k(2) True k(1) that by simp
    then have "s ! i \<noteq> CHR ''/''" if "i < k" for i
      using that lu by (metis add.commute nat_add_left_cancel_less nth_append_length_plus)
    then show ?thesis by (auto simp: list_all_length sep_ok_def)
  qed (auto simp: sep_ok_def list_all_iff)
  moreover have "k \<le> length s" using w(1) lu k(1) by simp
  moreover obtain k' where "k' \<le> length (drop k s)" "list_all (sep_ok lit) (take k' (drop k s))" "glob_matches lit ts (drop k' (drop k s))"
    using rest unfolding glob_matches_star [of lit ts] by blast
  moreover have "drop k' (drop k s) = drop (k + k') s" by (simp add: add.commute)
  ultimately have "k + k' \<le> length s \<and> list_all (sep_ok lit) (take (k + k') s) \<and> glob_matches lit ts (drop (k + k') s)"
    by (simp only: take_add list_all_append) simp
  then show ?thesis unfolding glob_matches_star [of lit ts] by blast
qed


section \<open>The loop finds a match exactly if there is one\<close>

text \<open>
  The remembered star: the tokens after it begin with tokens that match what was read since, and the
  remaining pattern and candidate follow.
\<close>

definition star_inv :: "bool \<Rightarrow> string \<Rightarrow> string \<Rightarrow> (string \<times> string) option \<Rightarrow> bool" where
  "star_inv lit p s star \<longleftrightarrow>
     (case star of
        None \<Rightarrow> True
      | Some (sp, ss) \<Rightarrow>
          length p \<le> length sp \<and>
          (\<exists>w u. ss = u @ s \<and> tokens sp = w @ tokens p \<and> solid w \<and> list_all2 (token_ok lit) w u))"

definition star_matches :: "bool \<Rightarrow> string \<Rightarrow> string \<Rightarrow> (string \<times> string) option \<Rightarrow> bool" where
  "star_matches lit p s star =
     (case star of None \<Rightarrow> glob_matches lit (tokens p) s | Some (sp, ss) \<Rightarrow> glob_matches lit (TStar # tokens sp) ss)"

definition loop_measure :: "string \<times> string \<times> (string \<times> string) option \<Rightarrow> nat \<times> nat \<times> nat" where
  "loop_measure = (\<lambda>(p, s, star).
     case star of None \<Rightarrow> (Suc (length p), 0, length s) | Some (sp, ss) \<Rightarrow> (length sp, length ss, length s))"

lemma star_inv_matches:
  assumes "star_inv lit p s (Some (sp, ss))"
  shows "glob_matches lit (tokens sp) ss = glob_matches lit (tokens p) s"
proof -
  from assms obtain w u where "ss = u @ s" "tokens sp = w @ tokens p" "solid w" "list_all2 (token_ok lit) w u"
    by (auto simp: star_inv_def)
  then show ?thesis using glob_matches_solid [of w lit "tokens p" "u @ s"] list_all2_lengthD by fastforce
qed

lemma loop_end:
  assumes "star_inv lit p [] star"
  shows "star_matches lit p [] star \<longleftrightarrow> drop_stars p = []"
proof (cases star)
  case None
  then show ?thesis by (simp add: star_matches_def glob_matches_no_stars)
next
  case (Some a)
  obtain sp ss where a: "star = Some (sp, ss)" using Some by (cases a) auto
  with assms obtain w where w: "tokens sp = w @ tokens p" "solid w" "list_all2 (token_ok lit) w ss"
    by (auto simp: star_inv_def)
  have le: "glob_matches lit (tokens sp) ss \<Longrightarrow> glob_matches lit (TStar # tokens sp) ss" by (cases ss) auto
  have "weight (tokens p) = 0" if "glob_matches lit (TStar # tokens sp) ss"
    using glob_matches_weight [OF that] w weight_solid [OF w(2)] list_all2_lengthD [OF w(3)] by simp
  moreover have "drop_stars p = []" if "weight (tokens p) = 0"
    using that
  proof (induction p)
    case (Cons q p)
    have "q = CHR ''*''"
    proof (rule ccontr)
      assume "q \<noteq> CHR ''*''"
      from glob_step_token [OF this, of p lit] Cons.prems show False by (auto simp del: tokens.simps)
    qed
    with Cons show ?case by simp
  qed simp
  ultimately show ?thesis
    using star_inv_matches [OF assms [unfolded a]] le glob_matches_no_stars [of lit p] a by (auto simp: star_matches_def)
qed

lemma loop_enter_star:
  assumes "star_inv lit (CHR ''*'' # p) s star"
  shows "star_matches lit (CHR ''*'' # p) s star \<longleftrightarrow> glob_matches lit (TStar # tokens (drop_stars p)) s"
proof (cases star)
  case None
  then show ?thesis using glob_matches_drop_stars by (simp add: star_matches_def)
next
  case (Some a)
  obtain sp ss where a: "star = Some (sp, ss)" using Some by (cases a) auto
  with assms obtain w u where w: "ss = u @ s" "tokens sp = w @ TStar # tokens p" "solid w" "list_all2 (token_ok lit) w u"
    by (auto simp: star_inv_def)
  have "glob_matches lit (TStar # tokens sp) ss \<longleftrightarrow> glob_matches lit (TStar # tokens p) s"
  proof
    assume "glob_matches lit (TStar # tokens sp) ss"
    then show "glob_matches lit (TStar # tokens p) s" using star_commit [OF w(3,4)] w(1,2) by simp
  next
    assume "glob_matches lit (TStar # tokens p) s"
    then have "glob_matches lit (tokens sp) ss" using star_inv_matches [OF assms [unfolded a]] by simp
    then show "glob_matches lit (TStar # tokens sp) ss" by (cases ss) auto
  qed
  then show ?thesis using a glob_matches_drop_stars by (simp add: star_matches_def)
qed

lemma star_inv_advance:
  assumes "star_inv lit p (c # cs) star" and "tokens p = t # tokens p'" and "t \<noteq> TStar" and "token_ok lit t c"
    and "length p' \<le> length p"
  shows "star_inv lit p' cs star"
proof (cases star)
  case None
  then show ?thesis by (simp add: star_inv_def)
next
  case (Some a)
  obtain sp ss where a: "star = Some (sp, ss)" using Some by (cases a) auto
  with assms obtain w u where w: "ss = u @ c # cs" "tokens sp = w @ t # tokens p'" "solid w" "list_all2 (token_ok lit) w u"
    "length p \<le> length sp"
    by (auto simp: star_inv_def)
  have "ss = (u @ [c]) @ cs \<and> tokens sp = (w @ [t]) @ tokens p' \<and> solid (w @ [t]) \<and> list_all2 (token_ok lit) (w @ [t]) (u @ [c])"
    using w assms(3,4) by (auto simp: solid_def list_all2_appendI)
  then show ?thesis using a w(5) assms(5) unfolding star_inv_def by fastforce
qed


lemma glob_loop_correct:
  "star_inv lit p s star \<Longrightarrow> glob_loop lit p s star = Some (star_matches lit p s star)"
proof (induction "(p, s, star)" arbitrary: p s star
    rule: wf_induct_rule [OF wf_inv_image [OF wf_lex_prod [OF wf_less_than wf_lex_prod [OF wf_less_than wf_less_than]], of loop_measure]])
  case (1 p s star)
  show ?case
  proof (cases s)
    case Nil
    then show ?thesis using loop_end 1(2) by (subst glob_loop.simps) simp
  next
    case (Cons c cs)
    have mismatch: ?thesis if "glob_step lit p c = Mismatch" "\<not> glob_matches lit (tokens p) s"
    proof (cases star)
      case None
      then show ?thesis using that Cons by (subst glob_loop.simps) (simp add: star_matches_def)
    next
      case (Some a)
      obtain sp ss where a: "star = Some (sp, ss)" using Some by (cases a) auto
      then obtain d ds where ss: "ss = d # ds" using 1(2) Cons by (cases ss) (auto simp: star_inv_def)
      have "star_matches lit p s star \<longleftrightarrow> sep_ok lit d \<and> glob_matches lit (TStar # tokens sp) ds"
        using star_inv_matches [OF 1(2) [unfolded a]] that(2) by (simp add: star_matches_def a ss)
      moreover have "((sp, ds, Some (sp, ds)), (p, s, star)) \<in> inv_image (less_than <*lex*> less_than <*lex*> less_than) loop_measure"
        by (simp add: loop_measure_def a ss)
      moreover have "star_inv lit sp ds (Some (sp, ds))" by (auto simp: star_inv_def solid_def)
      ultimately show ?thesis
        using 1(1) [of sp ds "Some (sp, ds)"] that(1) Cons a ss
        by (subst glob_loop.simps) (simp add: star_matches_def sep_ok_def)
    qed
    consider (star) p' where "p = CHR ''*'' # p'" | (stop) "p = []"
      | (token) q qs where "p = q # qs" "q \<noteq> CHR ''*''" by (cases p) auto
    then show ?thesis
    proof cases
      case star
      let ?p = "drop_stars p'"
      have "glob_loop lit p s star = glob_loop lit ?p s (Some (?p, s))"
        using star Cons by (subst glob_loop.simps) (simp add: glob_step_def)
      moreover have "((?p, s, Some (?p, s)), (p, s, star)) \<in> inv_image (less_than <*lex*> less_than <*lex*> less_than) loop_measure"
        using drop_stars_length [of p'] 1(2) star
        by (auto simp: loop_measure_def star_inv_def split: option.splits)
      moreover have "star_inv lit ?p s (Some (?p, s))" by (auto simp: star_inv_def solid_def)
      ultimately have "glob_loop lit p s star = Some (glob_matches lit (TStar # tokens ?p) s)"
        using 1(1) [of ?p s "Some (?p, s)"] by (simp add: star_matches_def)
      then show ?thesis using loop_enter_star [of lit p' s star] 1(2) star by simp
    next
      case stop
      then show ?thesis using mismatch Cons by (simp add: glob_step_def)
    next
      case token
      from glob_step_token [OF token(2), of qs lit] obtain t p' where
        t: "tokens p = t # tokens p'" "t \<noteq> TStar" "length p' \<le> length qs"
        "glob_step lit p c = (if token_ok lit t c then Advance p' else Mismatch)"
        using token(1) by blast
      have m: "glob_matches lit (tokens p) s \<longleftrightarrow> token_ok lit t c \<and> glob_matches lit (tokens p') cs"
        using t(1,2) Cons by (cases t) simp_all
      show ?thesis
      proof (cases "token_ok lit t c")
        case True
        have "glob_loop lit p s star = glob_loop lit p' cs star"
          using t(4) True Cons by (subst glob_loop.simps) simp
        moreover have inv: "star_inv lit p' cs star"
          using star_inv_advance [OF 1(2) [unfolded Cons] t(1,2) True] t(3) token(1) by simp
        moreover have "((p', cs, star), (p, s, star)) \<in> inv_image (less_than <*lex*> less_than <*lex*> less_than) loop_measure"
          using t(3) token(1) Cons by (auto simp: loop_measure_def split: option.splits)
        ultimately have "glob_loop lit p s star = Some (star_matches lit p' cs star)" using 1(1) by simp
        moreover have "star_matches lit p' cs star = star_matches lit p s star"
          using m True by (simp add: star_matches_def split: option.splits)
        ultimately show ?thesis by simp
      next
        case False
        then show ?thesis using mismatch t(4) m by simp
      qed
    qed
  qed
qed

lemma globMatch_reference:
  "globMatch pattern candidate literalSeparator = Some (glob_matches literalSeparator (tokens pattern) candidate)"
  using glob_loop_correct [of literalSeparator pattern candidate None]
  by (simp add: globMatch_def star_inv_def star_matches_def)

text \<open>
  C28. Glob matching: for every pattern, every candidate and both settings for the path separator, the
  matching loop ends without an index out of range and answers true exactly if the candidate
  can be divided among the pattern's tokens (stars taking any run of allowed bytes); backtracking to the
  last star only is complete.
\<close>

theorem globMatch_correct:
  "globMatch pattern candidate literalSeparator = Some (glob_matches literalSeparator (tokens pattern) candidate)"
  by (rule globMatch_reference)

end
