(* ===== verification/Net_Host.thy ===== *)
theory Net_Host
  imports Go_Netip Net_Glob
begin

unbundle bit_operations_syntax

text \<open>
  Hosts and domain patterns of the network proxy: normalization of hosts and the classification of
  addresses (networkproxy/host.go), parsed domain patterns and the comparison of a user's pattern with a
  managed one (domainpattern.go), and the compiled sets of glob patterns (glob.go). For ordinary
  domain names the comparison is exactly the inclusion of the sets of matching hosts, and the address classes
  are given as ranges of numbers.

  The host of a URL (url.Parse followed by Hostname) is the parameter \<open>url_hostname\<close>, with \<open>None\<close>
  for a parse error.
\<close>

section \<open>Host normalization\<close>

definition isUnscopedIP :: "string \<Rightarrow> bool" where
  "isUnscopedIP s = (case ParseAddr s of None \<Rightarrow> False | Some addr \<Rightarrow> Zone addr = [])"

text \<open>One iteration of the loop over the scope delimiters.\<close>

definition scoped_literal :: "string \<Rightarrow> string \<Rightarrow> string option" where
  "scoped_literal host delimiter =
     (case Index host delimiter of
        None \<Rightarrow> None
      | Some idx \<Rightarrow>
          if isUnscopedIP (take idx host) then Some (take idx host @ ''%'' @ drop (idx + length delimiter) host)
          else None)"

definition normalizeIPLiteral :: "string \<Rightarrow> string option" where
  "normalizeIPLiteral host =
     (case scoped_literal host ''%25'' of
        Some r \<Rightarrow> Some r
      | None \<Rightarrow>
          (case scoped_literal host ''%'' of
             Some r \<Rightarrow> Some r
           | None \<Rightarrow> if isUnscopedIP host then Some host else None))"

definition normalizeDNSHostOrIPLiteral :: "go_env \<Rightarrow> string \<Rightarrow> string" where
  "normalizeDNSHostOrIPLiteral env host =
     (let h = TrimRight (ToLower env host) (CHR ''.'') in
      case normalizeIPLiteral h of Some ip \<Rightarrow> ip | None \<Rightarrow> h)"

definition NormalizeHost :: "go_env \<Rightarrow> string \<Rightarrow> string" where
  "NormalizeHost env host =
     (let h = TrimSpace host in
      case (if HasPrefix h ''['' then Cut h (CHR '']'') else None) of
        Some (a, b) \<Rightarrow> normalizeDNSHostOrIPLiteral env (drop 1 a)
      | None \<Rightarrow>
          if length (filter ((=) (CHR '':'')) h) = 1
          then (case Cut h (CHR '':'') of
                  Some (a, b) \<Rightarrow> normalizeDNSHostOrIPLiteral env a
                | None \<Rightarrow> normalizeDNSHostOrIPLiteral env h)
          else normalizeDNSHostOrIPLiteral env h)"

definition unscopedIPLiteral :: "string \<Rightarrow> string option" where
  "unscopedIPLiteral host =
     (case Cut host (CHR ''%'') of
        None \<Rightarrow> None
      | Some (ip, scope) \<Rightarrow> if ParseAddr ip = None then None else Some ip)"

definition net_parseHost :: "go_env \<Rightarrow> string \<Rightarrow> string option" where
  "net_parseHost env input = (let n = NormalizeHost env input in if n = [] then None else Some n)"

definition isLoopbackHost :: "string \<Rightarrow> bool" where
  "isLoopbackHost host =
     (let h = (case unscopedIPLiteral host of Some ip \<Rightarrow> ip | None \<Rightarrow> host) in
      h = ''localhost'' \<or> (case ParseAddr h of Some addr \<Rightarrow> IsLoopback addr | None \<Rightarrow> False))"

section \<open>Address classes\<close>

definition toU32 :: "8 word \<Rightarrow> 8 word \<Rightarrow> 8 word \<Rightarrow> 8 word \<Rightarrow> 32 word" where
  "toU32 a b c d = push_bit 24 (ucast a) OR push_bit 16 (ucast b) OR push_bit 8 (ucast c) OR ucast d"

definition ipv4InCIDR :: "32 word \<Rightarrow> 32 word \<Rightarrow> nat \<Rightarrow> bool" where
  "ipv4InCIDR ip base prefix =
     (let mask = (if prefix = 0 then 0 else push_bit (32 - prefix) (NOT 0)) in ip AND mask = base AND mask)"

text \<open>The method is called on IPv4 addresses only; As4 of any other address panics.\<close>

definition isNonPublicIPv4 :: "Addr \<Rightarrow> bool" where
  "isNonPublicIPv4 addr \<longleftrightarrow>
     IsLoopback addr \<or> IsPrivate addr \<or> IsLinkLocalUnicast addr \<or> IsLinkLocalMulticast addr \<or>
     IsUnspecified addr \<or> IsMulticast addr \<or>
     (case addr of
        Addr6 bs zone \<Rightarrow> False
      | Addr4 a b c d \<Rightarrow>
          (a = 255 \<and> b = 255 \<and> c = 255 \<and> d = 255) \<or>
          ipv4InCIDR (toU32 a b c d) (toU32 0 0 0 0) 8 \<or>
          ipv4InCIDR (toU32 a b c d) (toU32 100 64 0 0) 10 \<or>
          ipv4InCIDR (toU32 a b c d) (toU32 192 0 0 0) 24 \<or>
          ipv4InCIDR (toU32 a b c d) (toU32 192 0 2 0) 24 \<or>
          ipv4InCIDR (toU32 a b c d) (toU32 198 18 0 0) 15 \<or>
          ipv4InCIDR (toU32 a b c d) (toU32 198 51 100 0) 24 \<or>
          ipv4InCIDR (toU32 a b c d) (toU32 203 0 113 0) 24 \<or>
          ipv4InCIDR (toU32 a b c d) (toU32 240 0 0 0) 4)"

definition isNonPublicIPv6 :: "Addr \<Rightarrow> bool" where
  "isNonPublicIPv6 addr \<longleftrightarrow>
     IsLoopback addr \<or> IsUnspecified addr \<or> IsMulticast addr \<or> IsPrivate addr \<or> IsLinkLocalUnicast addr"

definition isNonPublicIP :: "Addr \<Rightarrow> bool" where
  "isNonPublicIP addr =
     (if Is4In6 addr then isNonPublicIPv4 (Unmap addr) \<or> IsLoopback addr
      else if Is4 addr then isNonPublicIPv4 addr
      else isNonPublicIPv6 addr)"

section \<open>Domain patterns\<close>

datatype domainPatternKind = domainExact | domainSubdomainsOnly | domainApexAndSubdomains

record domainPattern =
  dpKind :: domainPatternKind
  dpDomain :: string

definition exact_empty :: domainPattern where
  "exact_empty = \<lparr>dpKind = domainExact, dpDomain = []\<rparr>"

definition parseDomainKind :: "string \<Rightarrow> domainPatternKind \<Rightarrow> domainPattern" where
  "parseDomainKind domain kind =
     (let d = TrimSpace domain in if d = [] then exact_empty else \<lparr>dpKind = kind, dpDomain = d\<rparr>)"

definition parseDomainPattern :: "string \<Rightarrow> domainPattern" where
  "parseDomainPattern input =
     (let s = TrimSpace input in
      if s = [] then exact_empty
      else case CutPrefix s ''**.'' of
             Some rest \<Rightarrow> parseDomainKind rest domainApexAndSubdomains
           | None \<Rightarrow>
               (case CutPrefix s ''*.'' of
                  Some rest \<Rightarrow> parseDomainKind rest domainSubdomainsOnly
                | None \<Rightarrow> \<lparr>dpKind = domainExact, dpDomain = s\<rparr>))"

definition ContainsAny :: "string \<Rightarrow> string \<Rightarrow> bool" where
  "ContainsAny s chars = list_ex (\<lambda>c. c \<in> set chars) s"

definition parseDomainForConstraints :: "go_env \<Rightarrow> (string \<Rightarrow> string option) \<Rightarrow> string \<Rightarrow> string" where
  "parseDomainForConstraints env url_hostname input =
     (let domain = TrimRight (TrimSpace input) (CHR ''.'') in
      if domain = [] then []
      else
        let host = (if HasPrefix domain ''['' \<and> HasSuffix domain '']'' then butlast (tl domain) else domain) in
        if ContainsAny host ''*?%'' then domain
        else case url_hostname host of
               None \<Rightarrow> []
             | Some h \<Rightarrow> if h = [] then [] else ToLower env h)"

definition parseDomainPatternForConstraints :: "go_env \<Rightarrow> (string \<Rightarrow> string option) \<Rightarrow> string \<Rightarrow> domainPattern" where
  "parseDomainPatternForConstraints env url_hostname input =
     (let s = TrimSpace input in
      if s = [] then exact_empty
      else case CutPrefix s ''**.'' of
             Some rest \<Rightarrow> \<lparr>dpKind = domainApexAndSubdomains, dpDomain = parseDomainForConstraints env url_hostname rest\<rparr>
           | None \<Rightarrow>
               (case CutPrefix s ''*.'' of
                  Some rest \<Rightarrow> \<lparr>dpKind = domainSubdomainsOnly, dpDomain = parseDomainForConstraints env url_hostname rest\<rparr>
                | None \<Rightarrow> \<lparr>dpKind = domainExact, dpDomain = parseDomainForConstraints env url_hostname s\<rparr>))"

definition normalizeDomain :: "go_env \<Rightarrow> string \<Rightarrow> string" where
  "normalizeDomain env domain = ToLower env (TrimRight domain (CHR ''.''))"

definition domainEq :: "go_env \<Rightarrow> string \<Rightarrow> string \<Rightarrow> bool" where
  "domainEq env left right \<longleftrightarrow> normalizeDomain env left = normalizeDomain env right"

definition isSubdomainOrEqual :: "go_env \<Rightarrow> string \<Rightarrow> string \<Rightarrow> bool" where
  "isSubdomainOrEqual env child parent \<longleftrightarrow>
     normalizeDomain env child = normalizeDomain env parent \<or>
     HasSuffix (normalizeDomain env child) (''.'' @ normalizeDomain env parent)"

definition isStrictSubdomain :: "go_env \<Rightarrow> string \<Rightarrow> string \<Rightarrow> bool" where
  "isStrictSubdomain env child parent \<longleftrightarrow>
     normalizeDomain env child \<noteq> normalizeDomain env parent \<and>
     HasSuffix (normalizeDomain env child) (''.'' @ normalizeDomain env parent)"

definition allows :: "go_env \<Rightarrow> domainPattern \<Rightarrow> domainPattern \<Rightarrow> bool" where
  "allows env p candidate =
     (case dpKind p of
        domainExact \<Rightarrow> dpKind candidate = domainExact \<and> domainEq env (dpDomain candidate) (dpDomain p)
      | domainSubdomainsOnly \<Rightarrow>
          (case dpKind candidate of
             domainExact \<Rightarrow> isStrictSubdomain env (dpDomain candidate) (dpDomain p)
           | domainSubdomainsOnly \<Rightarrow> isSubdomainOrEqual env (dpDomain candidate) (dpDomain p)
           | domainApexAndSubdomains \<Rightarrow> isStrictSubdomain env (dpDomain candidate) (dpDomain p))
      | domainApexAndSubdomains \<Rightarrow> isSubdomainOrEqual env (dpDomain candidate) (dpDomain p))"

section \<open>Compiled pattern sets\<close>

type_synonym domainGlobSet = "string list"

text \<open>Matching always returns (\<open>globMatch_reference\<close>), so the test for \<open>Some True\<close> loses nothing.\<close>

definition globset_match :: "go_env \<Rightarrow> domainGlobSet \<Rightarrow> string \<Rightarrow> bool" where
  "globset_match env patterns host = list_ex (\<lambda>p. globMatch p (ToLower env host) False = Some True) patterns"

datatype globalWildcardPolicy = globalWildcardAllow | globalWildcardReject

definition normalizePattern :: "go_env \<Rightarrow> string \<Rightarrow> string" where
  "normalizePattern env pattern =
     (let p = TrimSpace pattern in
      if p = ''*'' then ''*''
      else case CutPrefix p ''**.'' of
             Some rest \<Rightarrow> ''**.'' @ NormalizeHost env rest
           | None \<Rightarrow>
               (case CutPrefix p ''*.'' of
                  Some rest \<Rightarrow> ''*.'' @ NormalizeHost env rest
                | None \<Rightarrow> NormalizeHost env p))"

definition expandDomainPattern :: "string \<Rightarrow> string list" where
  "expandDomainPattern pattern =
     (let dp = parseDomainPattern pattern in
      case dpKind dp of
        domainExact \<Rightarrow> [dpDomain dp]
      | domainSubdomainsOnly \<Rightarrow> [''?*.'' @ dpDomain dp]
      | domainApexAndSubdomains \<Rightarrow> [dpDomain dp, ''?*.'' @ dpDomain dp])"

definition isGlobalWildcardDomainPattern :: "go_env \<Rightarrow> string \<Rightarrow> bool" where
  "isGlobalWildcardDomainPattern env pattern = list_ex ((=) ''*'') (expandDomainPattern (normalizePattern env pattern))"

definition add_candidate :: "go_env \<Rightarrow> string \<Rightarrow> string list \<Rightarrow> string list" where
  "add_candidate env candidate compiled =
     (let lc = ToLower env candidate in if lc \<in> set compiled then compiled else compiled @ [lc])"

definition global_wildcard_error :: string where
  "global_wildcard_error = ''unsupported global wildcard domain pattern '' @ [CHR 0x22] @ ''*'' @ [CHR 0x22]
     @ ''; use exact hosts or scoped wildcards like *.example.com or **.example.com''"

fun compile_patterns :: "go_env \<Rightarrow> globalWildcardPolicy \<Rightarrow> string list \<Rightarrow> string list \<Rightarrow> (string, domainGlobSet) result" where
  "compile_patterns env policy [] compiled = Inr compiled"
| "compile_patterns env policy (pattern # rest) compiled =
     (if policy = globalWildcardReject \<and> isGlobalWildcardDomainPattern env pattern then Inl global_wildcard_error
      else compile_patterns env policy rest
             (fold (add_candidate env) (expandDomainPattern (normalizePattern env pattern)) compiled))"

definition compileGlobsetWithPolicy :: "go_env \<Rightarrow> string list \<Rightarrow> globalWildcardPolicy \<Rightarrow> (string, domainGlobSet) result" where
  "compileGlobsetWithPolicy env patterns policy = compile_patterns env policy patterns []"

definition compileAllowlistGlobset :: "go_env \<Rightarrow> string list \<Rightarrow> (string, domainGlobSet) result" where
  "compileAllowlistGlobset env patterns = compileGlobsetWithPolicy env patterns globalWildcardAllow"

definition compileDenylistGlobset :: "go_env \<Rightarrow> string list \<Rightarrow> (string, domainGlobSet) result" where
  "compileDenylistGlobset env patterns = compileGlobsetWithPolicy env patterns globalWildcardReject"

definition globsetMatchesHostOrUnscoped :: "go_env \<Rightarrow> domainGlobSet \<Rightarrow> string \<Rightarrow> bool" where
  "globsetMatchesHostOrUnscoped env globs host \<longleftrightarrow>
     globset_match env globs host \<or>
     (case unscopedIPLiteral host of Some ip \<Rightarrow> globset_match env globs ip | None \<Rightarrow> False)"

section \<open>The special IPv4 ranges\<close>

lemma bit_toU32:
  "bit (toU32 a b c d) n \<longleftrightarrow>
     (if n < 8 then bit d n else if n < 16 then bit c (n - 8) else if n < 24 then bit b (n - 16)
      else n < 32 \<and> bit a (n - 24))"
proof -
  have high: "8 \<le> m \<Longrightarrow> \<not> bit x m" for x :: "8 word" and m
    using bit_imp_le_length [of x m] by auto
  show ?thesis by (auto simp: toU32_def bit_simps high)
qed

lemma toU32_and: "toU32 a b c d AND toU32 a' b' c' d' = toU32 (a AND a') (b AND b') (c AND c') (d AND d')"
  by (rule bit_eqI) (simp add: bit_toU32 bit_and_iff)

lemma toU32_eq_iff: "toU32 a b c d = toU32 a' b' c' d' \<longleftrightarrow> a = a' \<and> b = b' \<and> c = c' \<and> d = d'"
proof
  assume e: "toU32 a b c d = toU32 a' b' c' d'"
  have bits: "bit (toU32 a b c d) n = bit (toU32 a' b' c' d') n" for n by (simp add: e)
  have "a = a'"
  proof (rule bit_word_eqI)
    fix n assume "n < LENGTH(8)"
    then show "bit a n = bit a' n" using bits [of "n + 24"] by (simp add: bit_toU32)
  qed
  moreover have "b = b'"
  proof (rule bit_word_eqI)
    fix n assume "n < LENGTH(8)"
    then show "bit b n = bit b' n" using bits [of "n + 16"] by (simp add: bit_toU32)
  qed
  moreover have "c = c'"
  proof (rule bit_word_eqI)
    fix n assume "n < LENGTH(8)"
    then show "bit c n = bit c' n" using bits [of "n + 8"] by (simp add: bit_toU32)
  qed
  moreover have "d = d'"
  proof (rule bit_word_eqI)
    fix n assume "n < LENGTH(8)"
    then show "bit d n = bit d' n" using bits [of "n + 0"] by (simp add: bit_toU32)
  qed
  ultimately show "a = a' \<and> b = b' \<and> c = c' \<and> d = d'" by simp
qed simp

lemma masks_toU32:
  "push_bit 24 (NOT 0) = toU32 255 0 0 0" "push_bit 22 (NOT 0) = toU32 255 192 0 0"
  "push_bit 17 (NOT 0) = toU32 255 254 0 0" "push_bit 8 (NOT 0) = toU32 255 255 255 0"
  "push_bit 28 (NOT 0) = toU32 240 0 0 0"
  by (simp_all add: toU32_def push_bit_eq_mult)

lemma cidr_masks:
  "ipv4InCIDR x y 8 \<longleftrightarrow> x AND toU32 255 0 0 0 = y AND toU32 255 0 0 0"
  "ipv4InCIDR x y 10 \<longleftrightarrow> x AND toU32 255 192 0 0 = y AND toU32 255 192 0 0"
  "ipv4InCIDR x y 15 \<longleftrightarrow> x AND toU32 255 254 0 0 = y AND toU32 255 254 0 0"
  "ipv4InCIDR x y 24 \<longleftrightarrow> x AND toU32 255 255 255 0 = y AND toU32 255 255 255 0"
  "ipv4InCIDR x y 4 \<longleftrightarrow> x AND toU32 240 0 0 0 = y AND toU32 240 0 0 0"
  unfolding ipv4InCIDR_def Let_def by (simp_all flip: masks_toU32)

lemma byte_high_bits:
  fixes b :: "8 word"
  shows "b AND 0xf0 = 0x10 \<longleftrightarrow> unat b div 16 = 1" "b AND 0xf0 = 0xe0 \<longleftrightarrow> unat b div 16 = 14"
    "b AND 0xf0 = 0xf0 \<longleftrightarrow> unat b div 16 = 15"
    "b AND 0xc0 = 0x40 \<longleftrightarrow> unat b div 64 = 1" "b AND 0xfe = 18 \<longleftrightarrow> unat b div 2 = 9"
    "b AND 0xfe = 0xfc \<longleftrightarrow> unat b div 2 = 126" "b AND 0xc0 = 0x80 \<longleftrightarrow> unat b div 64 = 2"
proof -
  have d: "unat b div 2 ^ k = v \<longleftrightarrow> drop_bit k b = of_nat v" if "v < 256" for k v
  proof -
    have "unat (drop_bit k b) = unat b div 2 ^ k"
      by (simp add: unat_drop_bit_eq flip: drop_bit_eq_div)
    moreover have "unat (of_nat v :: 8 word) = v" using that by (simp add: take_bit_nat_def unsigned_of_nat)
    ultimately show ?thesis by (metis word_unat_eq_iff)
  qed
  have w: "x = y \<longleftrightarrow> (\<forall>n \<in> {0, 1, 2, 3, 4, 5, 6, 7}. bit x n = bit y n)" for x y :: "8 word"
  proof
    assume a: "\<forall>n \<in> {0, 1, 2, 3, 4, 5, 6, 7}. bit x n = bit y n"
    show "x = y"
    proof (rule bit_word_eqI)
      fix n assume "n < LENGTH(8)"
      then have "n \<in> {0, 1, 2, 3, 4, 5, 6, 7}" by auto
      with a show "bit x n = bit y n" by blast
    qed
  qed simp
  have h: "\<not> bit b 8" "\<not> bit b 9" "\<not> bit b 10" "\<not> bit b 11" "\<not> bit b 12" "\<not> bit b 13"
    by (auto dest: bit_imp_le_length)
  show "b AND 0xf0 = 0x10 \<longleftrightarrow> unat b div 16 = 1"
    using d [of 1 4] by (simp add: w h bit_simps bit_1_iff)
  show "b AND 0xf0 = 0xe0 \<longleftrightarrow> unat b div 16 = 14"
    using d [of 14 4] by (simp add: w h bit_simps)
  show "b AND 0xf0 = 0xf0 \<longleftrightarrow> unat b div 16 = 15"
    using d [of 15 4] by (simp add: w h bit_simps)
  show "b AND 0xc0 = 0x40 \<longleftrightarrow> unat b div 64 = 1"
    using d [of 1 6] by (simp add: w h bit_simps bit_1_iff)
  show "b AND 0xfe = 18 \<longleftrightarrow> unat b div 2 = 9"
    using d [of 9 1] by (simp add: w h bit_simps flip: numeral_2_eq_2)
  show "b AND 0xfe = 0xfc \<longleftrightarrow> unat b div 2 = 126"
    using d [of 126 1] by (simp add: w h bit_simps flip: numeral_2_eq_2)
  show "b AND 0xc0 = 0x80 \<longleftrightarrow> unat b div 64 = 2"
    using d [of 2 6] by (simp add: w h bit_simps)
qed

text \<open>The number of an address and the blocks that are not globally routable, first and last address.\<close>

definition quad :: "nat \<Rightarrow> nat \<Rightarrow> nat \<Rightarrow> nat \<Rightarrow> nat" where
  "quad a b c d = a * 2 ^ 24 + b * 2 ^ 16 + c * 2 ^ 8 + d"

definition special_ranges :: "(nat \<times> nat) list" where
  "special_ranges =
     [(quad 0 0 0 0, quad 0 255 255 255),
      (quad 10 0 0 0, quad 10 255 255 255),
      (quad 100 64 0 0, quad 100 127 255 255),
      (quad 127 0 0 0, quad 127 255 255 255),
      (quad 169 254 0 0, quad 169 254 255 255),
      (quad 172 16 0 0, quad 172 31 255 255),
      (quad 192 0 0 0, quad 192 0 0 255),
      (quad 192 0 2 0, quad 192 0 2 255),
      (quad 192 168 0 0, quad 192 168 255 255),
      (quad 198 18 0 0, quad 198 19 255 255),
      (quad 198 51 100 0, quad 198 51 100 255),
      (quad 203 0 113 0, quad 203 0 113 255),
      (quad 224 0 0 0, quad 255 255 255 255)]"

lemma quad_le_iff:
  assumes "b \<le> 255" "c \<le> 255" "d \<le> 255" "b' \<le> 255" "c' \<le> 255" "d' \<le> 255"
  shows "quad a b c d \<le> quad a' b' c' d' \<longleftrightarrow>
     a < a' \<or> (a = a' \<and> (b < b' \<or> (b = b' \<and> (c < c' \<or> (c = c' \<and> d \<le> d')))))"
  using assms unfolding quad_def
  apply (cases "a < a'"; cases "a = a'"; cases "b < b'"; cases "b = b'"; cases "c < c'"; cases "c = c'")
  by simp_all


lemma quad_ranges:
  assumes "a \<le> 255" "b \<le> 255" "c \<le> 255" "d \<le> 255"
  shows "quad x 0 0 0 \<le> quad a b c d \<and> quad a b c d \<le> quad x 255 255 255 \<longleftrightarrow> a = x"
    and "y \<le> 255 \<Longrightarrow> z \<le> 255 \<Longrightarrow>
      quad x y 0 0 \<le> quad a b c d \<and> quad a b c d \<le> quad x z 255 255 \<longleftrightarrow> a = x \<and> y \<le> b \<and> b \<le> z"
    and "y \<le> 255 \<Longrightarrow> z \<le> 255 \<Longrightarrow>
      quad x y z 0 \<le> quad a b c d \<and> quad a b c d \<le> quad x y z 255 \<longleftrightarrow> a = x \<and> b = y \<and> c = z"
    and "quad 224 0 0 0 \<le> quad a b c d \<and> quad a b c d \<le> quad 255 255 255 255 \<longleftrightarrow> 224 \<le> a"
  using assms by (auto simp: quad_le_iff)

lemma special_ranges_iff:
  assumes "a \<le> 255" "b \<le> 255" "c \<le> 255" "d \<le> 255"
  shows "(\<exists>(lo, hi) \<in> set special_ranges. lo \<le> quad a b c d \<and> quad a b c d \<le> hi) \<longleftrightarrow>
     a = 0 \<or> a = 10 \<or> a = 127 \<or> (a = 100 \<and> b div 64 = 1) \<or> (a = 169 \<and> b = 254) \<or> (a = 172 \<and> b div 16 = 1) \<or>
     (a = 192 \<and> b = 0 \<and> c = 0) \<or> (a = 192 \<and> b = 0 \<and> c = 2) \<or> (a = 192 \<and> b = 168) \<or> (a = 198 \<and> b div 2 = 9) \<or>
     (a = 198 \<and> b = 51 \<and> c = 100) \<or> (a = 203 \<and> b = 0 \<and> c = 113) \<or> 224 \<le> a"
proof -
  have d: "b div 64 = 1 \<longleftrightarrow> 64 \<le> b \<and> b \<le> 127" "b div 16 = 1 \<longleftrightarrow> 16 \<le> b \<and> b \<le> 31"
    "b div 2 = 9 \<longleftrightarrow> 18 \<le> b \<and> b \<le> 19" "b = 254 \<longleftrightarrow> 254 \<le> b \<and> b \<le> 254" "b = 168 \<longleftrightarrow> 168 \<le> b \<and> b \<le> 168"
    by linarith+
  show ?thesis unfolding special_ranges_def d
    by (simp add: quad_ranges [OF assms]) argo
qed

definition special_ipv4 :: "8 word \<Rightarrow> 8 word \<Rightarrow> 8 word \<Rightarrow> 8 word \<Rightarrow> bool" where
  "special_ipv4 a b c d \<longleftrightarrow>
     (\<exists>(lo, hi) \<in> set special_ranges.
        lo \<le> quad (unat a) (unat b) (unat c) (unat d) \<and> quad (unat a) (unat b) (unat c) (unat d) \<le> hi)"

lemma isNonPublicIPv4_iff: "isNonPublicIPv4 (Addr4 a b c d) \<longleftrightarrow> special_ipv4 a b c d"
proof -
  have byte: "unat x \<le> 255" for x :: "8 word" using unsigned_less [of x, where 'a = nat] by simp
  have num: "unat x = n \<longleftrightarrow> x = of_nat n" if "n < 256" for x :: "8 word" and n
    using that by (auto simp: take_bit_nat_def unsigned_of_nat)
  have top: "unat a div 16 = 14 \<or> unat a div 16 = 15 \<longleftrightarrow> 224 \<le> unat a" using byte [of a] by linarith
  have all: "x AND 255 = x" for x :: "8 word"
  proof -
    have "(255 :: 8 word) = - 1" by simp
    then show ?thesis by (metis and.right_neutral)
  qed
  have single: "a = 255 \<longrightarrow> unat a div 16 = 15" "a = 224 \<longrightarrow> unat a div 16 = 14" by simp_all
  show ?thesis
    unfolding special_ipv4_def special_ranges_iff [OF byte byte byte byte]
    unfolding isNonPublicIPv4_def IsLoopback_def IsPrivate_def IsLinkLocalUnicast_def IsLinkLocalMulticast_def
      IsUnspecified_def IsMulticast_def cidr_masks top [symmetric]
    by (simp add: toU32_and toU32_eq_iff byte_high_bits num all) (insert single, argo)
qed

text \<open>
  C40. Addresses that the proxy treats as local: an IPv4 address, also when it is mapped into IPv6, is
  non-public exactly if its number lies in one of the listed ranges; any other IPv6 address exactly if it is the
  loopback address, the unspecified address without zone, unique local (fc00::/7), link local
  (fe80::/10) or multicast (ff00::/8).
\<close>

theorem isNonPublicIP_correct:
  "(isNonPublicIP (Addr4 a b c d) \<longleftrightarrow> special_ipv4 a b c d) \<and>
   (isNonPublicIP (Addr6 (mapped_prefix @ [a, b, c, d]) zone) \<longleftrightarrow> special_ipv4 a b c d) \<and>
   (take 12 bs \<noteq> mapped_prefix \<longrightarrow>
      (isNonPublicIP (Addr6 bs zone) \<longleftrightarrow>
         bs = replicate 15 0 @ [1] \<or> (bs = replicate 16 0 \<and> zone = []) \<or>
         unat (bs ! 0) div 2 = 0xfc div 2 \<or> (bs ! 0 = 0xfe \<and> unat (bs ! 1) div 64 = 0x80 div 64) \<or> bs ! 0 = 0xff))"
proof (intro conjI impI)
  show "isNonPublicIP (Addr4 a b c d) \<longleftrightarrow> special_ipv4 a b c d"
    by (simp add: isNonPublicIP_def isNonPublicIPv4_iff)
  have "Unmap (Addr6 (mapped_prefix @ [a, b, c, d]) zone) = Addr4 a b c d"
    by (simp add: mapped_prefix_def nth_append)
  moreover have "IsLoopback (Addr4 a b c d) \<Longrightarrow> isNonPublicIPv4 (Addr4 a b c d)" by (simp add: isNonPublicIPv4_def)
  ultimately show "isNonPublicIP (Addr6 (mapped_prefix @ [a, b, c, d]) zone) \<longleftrightarrow> special_ipv4 a b c d"
    by (auto simp: isNonPublicIP_def isNonPublicIPv4_iff IsLoopback_def mapped_prefix_def)
next
  assume "take 12 bs \<noteq> mapped_prefix"
  then show "isNonPublicIP (Addr6 bs zone) \<longleftrightarrow>
         bs = replicate 15 0 @ [1] \<or> (bs = replicate 16 0 \<and> zone = []) \<or>
         unat (bs ! 0) div 2 = 0xfc div 2 \<or> (bs ! 0 = 0xfe \<and> unat (bs ! 1) div 64 = 0x80 div 64) \<or> bs ! 0 = 0xff"
    unfolding isNonPublicIP_def isNonPublicIPv6_def IsLoopback_def IsUnspecified_def IsMulticast_def IsPrivate_def
      IsLinkLocalUnicast_def
    by (simp add: byte_high_bits) argo
qed

theorem isNonPublicIP_correct_witness:
  "isNonPublicIP (Addr4 10 0 0 1) \<and> isNonPublicIP (Addr6 (mapped_prefix @ [127, 0, 0, 1]) [])
   \<and> \<not> isNonPublicIP (Addr4 93 184 216 34) \<and> \<not> isNonPublicIP (Addr6 [0x20, 0x01, 0x0d, 0xb8, 0, 0, 0, 0, 0, 0, 0, 0, 0, 0, 0, 1] [])"
proof -
  have r: "x # xs \<noteq> replicate n y" if "x \<noteq> y" for x y :: "8 word" and xs n
    using that by (cases n) auto
  show ?thesis
    using isNonPublicIP_correct [of 10 0 0 1 "[]" "[]"] isNonPublicIP_correct [of 127 0 0 1 "[]" "[]"]
      isNonPublicIP_correct [of 93 184 216 34 "[]" "[0x20, 0x01, 0x0d, 0xb8, 0, 0, 0, 0, 0, 0, 0, 0, 0, 0, 0, 1]"]
    by (simp add: special_ipv4_def special_ranges_def quad_def mapped_prefix_def r)
qed

section \<open>Ordinary domain names\<close>

definition label_char :: "char \<Rightarrow> bool" where
  "label_char c \<longleftrightarrow> (97 \<le> byte c \<and> byte c \<le> 122) \<or> (48 \<le> byte c \<and> byte c \<le> 57) \<or> byte c = 45 \<or> byte c = 95"

definition plain_domain :: "string \<Rightarrow> bool" where
  "plain_domain d \<longleftrightarrow>
     d \<noteq> [] \<and> list_all (\<lambda>c. label_char c \<or> c = CHR ''.'') d \<and> hd d \<noteq> CHR ''.'' \<and> last d \<noteq> CHR ''.''"

lemma plain_domain_char:
  assumes "plain_domain d" "c \<in> set d"
  shows "byte c < 0x80" "plain_char c" "\<not> (0x41 \<le> byte c \<and> byte c \<le> 0x5A)"
    "c \<notin> set ''[]:*?%/''"
proof -
  define n where "n = byte c"
  have "label_char c \<or> c = CHR ''.''" using assms unfolding plain_domain_def list_all_iff by blast
  then have "label_char c \<or> n = 46" by (auto simp: n_def)
  then have r: "45 \<le> n" "n \<le> 122" "n < 58 \<or> n = 95 \<or> 97 \<le> n" "n \<noteq> 47"
    unfolding label_char_def n_def [symmetric] by linarith+
  then show "byte c < 0x80" "\<not> (0x41 \<le> byte c \<and> byte c \<le> 0x5A)" unfolding n_def [symmetric] by auto
  have "\<not> is_space n" using r(1,2) by (auto simp: is_space_def)
  then show "plain_char c" using r(2) by (simp add: plain_char_def n_def)
  show "c \<notin> set ''[]:*?%/''" using r unfolding n_def by auto
qed

lemma ToLower_plain:
  assumes "\<forall>c \<in> set d. byte c < 0x80 \<and> \<not> (0x41 \<le> byte c \<and> byte c \<le> 0x5A)"
  shows "ToLower env d = d"
proof -
  have "map (\<lambda>c. char_of (rune_to_lower env (byte c))) d = d"
    by (rule map_idI) (use assms in \<open>auto simp: rune_to_lower_def\<close>)
  then show ?thesis using assms by (simp add: ToLower_def list_all_iff)
qed

lemma TrimRight_last: "d \<noteq> [] \<Longrightarrow> last d \<noteq> x \<Longrightarrow> TrimRight d x = d"
  by (cases d rule: rev_cases) (simp_all add: TrimRight_def)

lemma Cut_None: "x \<notin> set s \<Longrightarrow> Cut s x = None"
  by (induction s) auto

lemma Index_char_None: "x \<notin> set s \<Longrightarrow> Index s (x # xs) = None"
  by (induction s) (auto simp: HasPrefix_iff)

lemma TrimSpace_plain_string: "s \<noteq> [] \<Longrightarrow> plain_char (hd s) \<Longrightarrow> plain_char (last s) \<Longrightarrow> TrimSpace s = s"
  by (cases s) (simp_all add: TrimSpace_plain)

lemma plain_domain_props:
  assumes "plain_domain d"
  shows "ToLower env d = d" "TrimRight d (CHR ''.'') = d" "TrimSpace d = d"
    "x \<in> set ''[]:*?%/'' \<Longrightarrow> x \<notin> set d"
proof -
  have d: "d \<noteq> []" "hd d \<in> set d" "last d \<in> set d" "last d \<noteq> CHR ''.''"
    using assms by (auto simp: plain_domain_def)
  show "ToLower env d = d" using plain_domain_char [OF assms] by (intro ToLower_plain) blast
  show "TrimRight d (CHR ''.'') = d" using d by (intro TrimRight_last)
  show "TrimSpace d = d" using d plain_domain_char(2) [OF assms] by (intro TrimSpace_plain_string) blast+
  show "x \<in> set ''[]:*?%/'' \<Longrightarrow> x \<notin> set d" using plain_domain_char(4) [OF assms] by blast
qed

lemma NormalizeHost_plain:
  assumes "plain_domain d"
  shows "NormalizeHost env d = d"
proof -
  note p = plain_domain_props [OF assms]
  have n: "CHR ''['' \<notin> set d" "CHR '':'' \<notin> set d" "CHR ''%'' \<notin> set d" by (rule p(4), simp)+
  then have "\<not> HasPrefix d ''[''" by (auto simp: HasPrefix_iff)
  moreover have "filter ((=) (CHR '':'')) d = []" using n(2) by (auto simp: filter_empty_conv)
  moreover have "normalizeIPLiteral d = Some d \<or> normalizeIPLiteral d = None"
    using n(3) by (simp add: normalizeIPLiteral_def scoped_literal_def Index_char_None)
  ultimately show ?thesis
    by (auto simp: NormalizeHost_def p normalizeDNSHostOrIPLiteral_def Let_def)
qed

text \<open>The text of a pattern, and the hosts it stands for.\<close>

fun pattern_text :: "domainPatternKind \<times> string \<Rightarrow> string" where
  "pattern_text (domainExact, d) = d"
| "pattern_text (domainSubdomainsOnly, d) = ''*.'' @ d"
| "pattern_text (domainApexAndSubdomains, d) = ''**.'' @ d"

definition subdomains :: "string \<Rightarrow> string set" where
  "subdomains d = {x @ ''.'' @ d | x. x \<noteq> []}"

fun pattern_hosts :: "domainPatternKind \<times> string \<Rightarrow> string set" where
  "pattern_hosts (domainExact, d) = {d}"
| "pattern_hosts (domainSubdomainsOnly, d) = subdomains d"
| "pattern_hosts (domainApexAndSubdomains, d) = insert d (subdomains d)"

lemma CutPrefix_star_None: "CHR ''*'' \<notin> set d \<Longrightarrow> CutPrefix d (CHR ''*'' # r) = None"
  by (auto simp: CutPrefix_None_iff)

lemma plain_CutPrefix:
  assumes "plain_domain d"
  shows "CutPrefix d ''**.'' = None" "CutPrefix d ''*.'' = None" "CutPrefix (''*.'' @ d) ''**.'' = None"
  using plain_domain_props(4) [OF assms, of "CHR ''*''"] by (auto simp: CutPrefix_star_None)

lemma TrimSpace_pattern_text: "plain_domain (snd p) \<Longrightarrow> TrimSpace (pattern_text p) = pattern_text p"
proof -
  assume p: "plain_domain (snd p)"
  then have "plain_char (last (snd p))" "snd p \<noteq> []"
    using plain_domain_char(2) [OF p, of "last (snd p)"] by (auto simp: plain_domain_def)
  moreover have "plain_char (CHR ''*'')" by (simp add: plain_char_def is_space_def)
  ultimately show ?thesis using plain_domain_props(3) [OF p]
    by (cases p rule: pattern_text.cases) (simp_all add: TrimSpace_plain_string)
qed

lemma expand_pattern_text:
  assumes "plain_domain (snd p)"
  shows "normalizePattern env (pattern_text p) = pattern_text p"
    and "expandDomainPattern (pattern_text p) =
       (case fst p of domainExact \<Rightarrow> [snd p] | domainSubdomainsOnly \<Rightarrow> [''?*.'' @ snd p]
        | domainApexAndSubdomains \<Rightarrow> [snd p, ''?*.'' @ snd p])"
proof -
  note t = TrimSpace_pattern_text [OF assms] and n = NormalizeHost_plain [OF assms] and c = plain_CutPrefix [OF assms]
    and d = plain_domain_props(3) [OF assms]
  have ne: "snd p \<noteq> []" using assms by (simp add: plain_domain_def)
  have star: "snd p \<noteq> ''*''" using plain_domain_props(4) [OF assms, of "CHR ''*''"] by auto
  show "normalizePattern env (pattern_text p) = pattern_text p"
    using t n c ne star by (cases p rule: pattern_text.cases) (simp_all add: normalizePattern_def)
  show "expandDomainPattern (pattern_text p) =
       (case fst p of domainExact \<Rightarrow> [snd p] | domainSubdomainsOnly \<Rightarrow> [''?*.'' @ snd p]
        | domainApexAndSubdomains \<Rightarrow> [snd p, ''?*.'' @ snd p])"
    using t n c ne star d by (cases p rule: pattern_text.cases)
      (simp_all add: expandDomainPattern_def parseDomainPattern_def parseDomainKind_def)
qed


lemma tokens_plain: "CHR ''?'' \<notin> set d \<Longrightarrow> CHR ''*'' \<notin> set d \<Longrightarrow> CHR ''['' \<notin> set d \<Longrightarrow> tokens d = map TLit d"
  by (induction d) auto

lemma glob_matches_literal: "glob_matches lit (map TLit d) s \<longleftrightarrow> s = d"
proof (induction d arbitrary: s)
  case Nil
  then show ?case by simp
next
  case (Cons c d)
  then show ?case by (cases s) auto
qed

lemma glob_matches_star_literal: "glob_matches False (TStar # map TLit d) s \<longleftrightarrow> (\<exists>x. s = x @ d)"
proof (induction s)
  case Nil
  then show ?case using glob_matches_literal [of False d "[]"] by auto
next
  case (Cons c s)
  then show ?case using glob_matches_literal [of False d "c # s"]
    by (auto simp: sep_ok_def Cons_eq_append_conv)
qed

lemma globMatch_plain:
  assumes "plain_domain d"
  shows "globMatch d h False = Some True \<longleftrightarrow> h = d"
    and "globMatch (''?*.'' @ d) h False = Some True \<longleftrightarrow> h \<in> subdomains d"
proof -
  have n: "CHR ''?'' \<notin> set d" "CHR ''*'' \<notin> set d" "CHR ''['' \<notin> set d"
    by (rule plain_domain_props(4) [OF assms], simp)+
  then have t: "tokens d = map TLit d" by (rule tokens_plain)
  then show "globMatch d h False = Some True \<longleftrightarrow> h = d"
    by (simp add: globMatch_reference glob_matches_literal)
  have "tokens (''?*.'' @ d) = TAny # TStar # map TLit (''.'' @ d)" using t by simp
  moreover have "glob_matches False (TAny # TStar # map TLit (''.'' @ d)) h \<longleftrightarrow> h \<in> subdomains d"
  proof (cases h)
    case Nil
    then show ?thesis by (simp add: subdomains_def)
  next
    case (Cons c s)
    then show ?thesis using glob_matches_star_literal [of "''.'' @ d" s]
      by (auto simp: subdomains_def sep_ok_def Cons_eq_append_conv)
  qed
  ultimately show "globMatch (''?*.'' @ d) h False = Some True \<longleftrightarrow> h \<in> subdomains d"
    by (simp add: globMatch_reference)
qed

definition globs_of :: "domainPatternKind \<times> string \<Rightarrow> string list" where
  "globs_of p = (case fst p of domainExact \<Rightarrow> [snd p] | domainSubdomainsOnly \<Rightarrow> [''?*.'' @ snd p]
     | domainApexAndSubdomains \<Rightarrow> [snd p, ''?*.'' @ snd p])"

lemma globs_of_match:
  assumes "plain_domain (snd p)"
  shows "(\<exists>g \<in> set (globs_of p). globMatch g h False = Some True) \<longleftrightarrow> h \<in> pattern_hosts p"
  using globMatch_plain [OF assms, of h] by (cases p rule: pattern_text.cases) (auto simp: globs_of_def)

lemma ToLower_glob: "plain_domain d \<Longrightarrow> ToLower env (''?*.'' @ d) = ''?*.'' @ d"
proof -
  assume "plain_domain d"
  then have "\<forall>c \<in> set d. byte c < 0x80 \<and> \<not> (0x41 \<le> byte c \<and> byte c \<le> 0x5A)"
    using plain_domain_char by blast
  then show ?thesis by (intro ToLower_plain) auto
qed

lemma set_fold_add_candidate: "set (fold (add_candidate env) cs compiled) = ToLower env ` set cs \<union> set compiled"
  by (induction cs arbitrary: compiled) (auto simp: add_candidate_def Let_def)

lemma plain_not_global:
  assumes "plain_domain (snd p)"
  shows "\<not> isGlobalWildcardDomainPattern env (pattern_text p)"
proof -
  have "CHR ''*'' \<notin> set (snd p)" by (rule plain_domain_props(4) [OF assms]) simp
  then have "''*'' \<notin> set (globs_of p)"
    by (cases p rule: pattern_text.cases) (auto simp: globs_of_def)
  then show ?thesis using expand_pattern_text(1) [OF assms, of env] expand_pattern_text(2) [OF assms]
    by (simp add: isGlobalWildcardDomainPattern_def globs_of_def list_ex_iff)
qed

lemma compile_patterns_plain:
  assumes "\<forall>p \<in> set ps. plain_domain (snd p)"
  shows "\<exists>g. compile_patterns env policy (map pattern_text ps) compiled = Inr g \<and>
     set g = set compiled \<union> (\<Union>p \<in> set ps. set (globs_of p))"
  using assms
proof (induction ps arbitrary: compiled)
  case Nil
  then show ?case by simp
next
  case (Cons p ps)
  then have p: "plain_domain (snd p)" by simp
  have e: "expandDomainPattern (normalizePattern env (pattern_text p)) = globs_of p"
    using expand_pattern_text [OF p] by (simp add: globs_of_def)
  have low: "ToLower env ` set (globs_of p) = set (globs_of p)"
    using ToLower_glob [OF p] plain_domain_props(1) [OF p]
    by (cases p rule: pattern_text.cases) (simp_all add: globs_of_def)
  have "\<not> isGlobalWildcardDomainPattern env (pattern_text p)" by (rule plain_not_global [OF p])
  then show ?case
    using Cons.IH [of "fold (add_candidate env) (globs_of p) compiled"] Cons.prems
    by (auto simp: e set_fold_add_candidate low)
qed

lemma compiled_match:
  assumes "\<forall>p \<in> set ps. plain_domain (snd p)"
  shows "\<exists>g. compileGlobsetWithPolicy env (map pattern_text ps) policy = Inr g \<and>
     (\<forall>h. globset_match env g h \<longleftrightarrow> (\<exists>p \<in> set ps. ToLower env h \<in> pattern_hosts p))"
proof -
  obtain g where g: "compileGlobsetWithPolicy env (map pattern_text ps) policy = Inr g"
    "set g = (\<Union>p \<in> set ps. set (globs_of p))"
    using compile_patterns_plain [OF assms, of env policy "[]"] by (auto simp: compileGlobsetWithPolicy_def)
  then have "globset_match env g h \<longleftrightarrow> (\<exists>p \<in> set ps. ToLower env h \<in> pattern_hosts p)" for h
    using globs_of_match assms by (fastforce simp: globset_match_def list_ex_iff)
  then show ?thesis using g(1) by blast
qed


section \<open>Comparing patterns\<close>

lemma normalizeDomain_plain: "plain_domain d \<Longrightarrow> normalizeDomain env d = d"
  by (simp add: normalizeDomain_def plain_domain_props)

lemma suffix_subdomain:
  assumes "plain_domain c"
  shows "HasSuffix c (''.'' @ d) \<longleftrightarrow> c \<in> subdomains d"
proof -
  have "hd c \<noteq> CHR ''.''" using assms by (simp add: plain_domain_def)
  then have "r \<noteq> []" if "c = r @ ''.'' @ d" for r using that by auto
  then show ?thesis unfolding HasSuffix_iff subdomains_def by blast
qed

lemma self_not_subdomain: "d \<notin> subdomains d"
  by (auto simp: subdomains_def dest: arg_cong [of _ _ length])

lemma subdomains_trans: "c \<in> subdomains d \<Longrightarrow> subdomains c \<subseteq> subdomains d"
  by (fastforce simp: subdomains_def)

text \<open>A long subdomain without dots shows what the set of subdomains is contained in.\<close>

lemma long_subdomain:
  assumes "plain_domain c" and "n = Suc (length d)" and "replicate n (CHR ''a'') @ ''.'' @ c \<in> insert d (subdomains d)"
  shows "c = d \<or> c \<in> subdomains d"
proof -
  let ?x = "replicate n (CHR ''a'')"
  have "?x @ ''.'' @ c \<noteq> d" using assms(2) by (auto dest: arg_cong [of _ _ length])
  then obtain y where y: "?x @ ''.'' @ c = y @ ''.'' @ d" using assms(3) by (auto simp: subdomains_def)
  then consider z where "?x = y @ z" "''.'' @ d = z @ ''.'' @ c" | z where "y = ?x @ z" "''.'' @ c = z @ ''.'' @ d"
    by (auto simp: append_eq_append_conv2)
  then show ?thesis
  proof cases
    case (1 z)
    have "set z \<subseteq> {CHR ''a''}" using 1(1) by (metis Un_subset_iff set_append set_replicate_Suc assms(2) order_refl)
    then have "z = []" using 1(2) by (cases z) auto
    then show ?thesis using 1(2) by simp
  next
    case (2 z)
    show ?thesis
    proof (cases z)
      case Nil
      then show ?thesis using 2(2) by simp
    next
      case (Cons a z')
      then have "c = z' @ ''.'' @ d" using 2(2) by simp
      moreover have "z' \<noteq> []" using calculation assms(1) by (auto simp: plain_domain_def)
      ultimately show ?thesis by (auto simp: subdomains_def)
    qed
  qed
qed

lemma subdomains_subset_iff:
  assumes "plain_domain c"
  shows "subdomains c \<subseteq> insert d (subdomains d) \<longleftrightarrow> c = d \<or> c \<in> subdomains d"
    and "subdomains c \<subseteq> subdomains d \<longleftrightarrow> c = d \<or> c \<in> subdomains d"
    and "\<not> subdomains c \<subseteq> {d}"
proof -
  let ?h = "replicate (Suc (length d)) (CHR ''a'') @ ''.'' @ c"
  have h: "?h \<in> subdomains c" by (auto simp: subdomains_def)
  show "subdomains c \<subseteq> insert d (subdomains d) \<longleftrightarrow> c = d \<or> c \<in> subdomains d"
    using h long_subdomain [OF assms refl, of d] subdomains_trans [of c d] by blast
  show "subdomains c \<subseteq> subdomains d \<longleftrightarrow> c = d \<or> c \<in> subdomains d"
    using h long_subdomain [OF assms refl, of d] subdomains_trans [of c d] by blast
  have "?h \<noteq> d" by (auto dest: arg_cong [of _ _ length])
  then show "\<not> subdomains c \<subseteq> {d}" using h by blast
qed

lemma allows_iff_subset:
  assumes "plain_domain d" and "plain_domain c"
  shows "allows env \<lparr>dpKind = k, dpDomain = d\<rparr> \<lparr>dpKind = k', dpDomain = c\<rparr> \<longleftrightarrow>
     pattern_hosts (k', c) \<subseteq> pattern_hosts (k, d)"
proof -
  note n = normalizeDomain_plain [OF assms(1)] normalizeDomain_plain [OF assms(2)]
  have eq: "domainEq env c d \<longleftrightarrow> c = d" "isSubdomainOrEqual env c d \<longleftrightarrow> c = d \<or> c \<in> subdomains d"
    "isStrictSubdomain env c d \<longleftrightarrow> c \<noteq> d \<and> c \<in> subdomains d"
    using suffix_subdomain [OF assms(2), of d]
    by (simp_all add: domainEq_def isSubdomainOrEqual_def isStrictSubdomain_def n)
  have ne: "c \<in> subdomains d \<Longrightarrow> c \<noteq> d" using self_not_subdomain by blast
  show ?thesis
    using subdomains_subset_iff [OF assms(2), of d] subdomains_trans [of c d] ne
    by (cases k; cases k') (auto simp: allows_def eq)
qed

text \<open>Reading a pattern for the comparison, if URLs with an ordinary host have that host.\<close>

definition url_plain :: "(string \<Rightarrow> string option) \<Rightarrow> bool" where
  "url_plain url_hostname \<longleftrightarrow> (\<forall>d. plain_domain d \<longrightarrow> url_hostname d = Some d)"

lemma parse_for_constraints_plain:
  assumes "url_plain url_hostname" and "plain_domain (snd p)"
  shows "parseDomainPatternForConstraints env url_hostname (pattern_text p) = \<lparr>dpKind = fst p, dpDomain = snd p\<rparr>"
proof -
  let ?d = "snd p"
  note q = plain_domain_props [OF assms(2)] and c = plain_CutPrefix [OF assms(2)]
  have ne: "?d \<noteq> []" using assms(2) by (simp add: plain_domain_def)
  have n: "CHR ''['' \<notin> set ?d" "CHR ''*'' \<notin> set ?d" "CHR ''?'' \<notin> set ?d" "CHR ''%'' \<notin> set ?d"
    by (rule q(4), simp)+
  then have "\<not> HasPrefix ?d ''[''" by (auto simp: HasPrefix_iff)
  moreover have "\<not> ContainsAny ?d ''*?%''" using n by (auto simp: ContainsAny_def list_ex_iff)
  moreover have "url_hostname ?d = Some ?d" using assms by (simp add: url_plain_def)
  ultimately have d: "parseDomainForConstraints env url_hostname ?d = ?d"
    using ne q by (simp add: parseDomainForConstraints_def)
  show ?thesis using TrimSpace_pattern_text [OF assms(2)] ne c d
    by (cases p rule: pattern_text.cases) (simp_all add: parseDomainPatternForConstraints_def)
qed

end
