(* ===== verification/Net_Config.thy ===== *)
theory Net_Config
  imports Net_Host Abs_Path "HOL-Library.Char_ord" "HOL-Library.List_Lexorder"
begin

text \<open>
  The settings of the network proxy (networkproxy/config.go), the overlay of exec-policy rules
  (execpolicy.go), the validation of unix-socket paths (unixsocket.go) and the managed constraints that a user's
  settings must respect (constraints.go). For ordinary domain patterns, settings that pass the
  validation never allow a host that the managed list does not allow; a pattern with a colon and a wildcard
  defeats the check.

  The record \<open>net_env\<close> collects what comes from outside: the platform, the working directory, symbolic links, the
  URL parser, and the validation and compilation of the interception hooks (mitmhook.go), which are arbitrary
  functions of the settings here.
\<close>

section \<open>Settings\<close>

type_synonym NetworkMode = string

definition NetworkModeLimited :: NetworkMode where "NetworkModeLimited = ''limited''"
definition NetworkModeFull :: NetworkMode where "NetworkModeFull = ''full''"
definition DefaultNetworkMode :: NetworkMode where "DefaultNetworkMode = NetworkModeFull"

definition AllowsMethod :: "NetworkMode \<Rightarrow> string \<Rightarrow> bool" where
  "AllowsMethod m method =
     (if m = NetworkModeLimited then method = ''GET'' \<or> method = ''HEAD'' \<or> method = ''OPTIONS'' else True)"

definition mode_normalized :: "NetworkMode \<Rightarrow> NetworkMode" where
  "mode_normalized m = (if m = [] then DefaultNetworkMode else m)"

datatype NetworkDomainPermission = DomainPermissionNone | DomainPermissionAllow | DomainPermissionDeny

fun permission_rank :: "NetworkDomainPermission \<Rightarrow> nat" where
  "permission_rank DomainPermissionNone = 0"
| "permission_rank DomainPermissionAllow = 1"
| "permission_rank DomainPermissionDeny = 2"

record NetworkDomainPermissionEntry =
  entryPattern :: string
  entryPermission :: NetworkDomainPermission

type_synonym NetworkDomainPermissions = "NetworkDomainPermissionEntry list"

text \<open>
  The loop of effectiveEntries. The map of effective permissions and the list of patterns in the order of their
  first occurrence are one association list.
\<close>

fun update_effective :: "string \<Rightarrow> NetworkDomainPermission \<Rightarrow> (string \<times> NetworkDomainPermission) list
    \<Rightarrow> (string \<times> NetworkDomainPermission) list" where
  "update_effective pattern perm [] = [(pattern, perm)]"
| "update_effective pattern perm ((p, q) # rest) =
     (if p = pattern then (p, if permission_rank q < permission_rank perm then perm else q) # rest
      else (p, q) # update_effective pattern perm rest)"

definition effectiveEntries :: "NetworkDomainPermissions \<Rightarrow> NetworkDomainPermissionEntry list" where
  "effectiveEntries entries =
     map (\<lambda>(p, q). \<lparr>entryPattern = p, entryPermission = q\<rparr>)
       (fold (\<lambda>e. update_effective (entryPattern e) (entryPermission e)) entries [])"

definition UnixSocketPermissionAllow :: string where "UnixSocketPermissionAllow = ''allow''"
definition UnixSocketPermissionDeny :: string where "UnixSocketPermissionDeny = ''deny''"

text \<open>The map of unix-socket permissions is an association list with distinct keys.\<close>

record 'c NetworkProxySettings =
  setEnabled :: bool
  setProxyURL :: string
  setEnableSocks5 :: bool
  setSocksURL :: string
  setEnableSocks5UDP :: bool
  setAllowUpstreamProxy :: bool
  setDangerouslyAllowNonLoopbackProxy :: bool
  setDangerouslyAllowAllUnixSockets :: bool
  setMode :: NetworkMode
  setDomains :: "NetworkDomainPermissions option"
  setUnixSockets :: "(string \<times> string) list option"
  setAllowLocalBinding :: bool
  setMitm :: bool
  setMitmHooks :: "'c list"

definition defaultProxyURL :: string where "defaultProxyURL = ''http://127.0.0.1:3128''"
definition defaultSocksURL :: string where "defaultSocksURL = ''http://127.0.0.1:8081''"

definition DefaultNetworkProxySettings :: "'c NetworkProxySettings" where
  "DefaultNetworkProxySettings =
     \<lparr>setEnabled = False, setProxyURL = defaultProxyURL, setEnableSocks5 = True, setSocksURL = defaultSocksURL,
      setEnableSocks5UDP = True, setAllowUpstreamProxy = True, setDangerouslyAllowNonLoopbackProxy = False,
      setDangerouslyAllowAllUnixSockets = False, setMode = DefaultNetworkMode, setDomains = None,
      setUnixSockets = None, setAllowLocalBinding = False, setMitm = False, setMitmHooks = []\<rparr>"

record 'c NetworkProxyConfig =
  cfgNetwork :: "'c NetworkProxySettings"

definition domainEntries :: "'c NetworkProxySettings \<Rightarrow> NetworkDomainPermission \<Rightarrow> string list" where
  "domainEntries s permission =
     (case setDomains s of
        None \<Rightarrow> []
      | Some ds \<Rightarrow> map entryPattern (filter (\<lambda>e. entryPermission e = permission) (effectiveEntries ds)))"

definition AllowedDomains :: "'c NetworkProxySettings \<Rightarrow> string list" where
  "AllowedDomains s = domainEntries s DomainPermissionAllow"

definition DeniedDomains :: "'c NetworkProxySettings \<Rightarrow> string list" where
  "DeniedDomains s = domainEntries s DomainPermissionDeny"

definition AllowUnixSockets :: "'c NetworkProxySettings \<Rightarrow> string list" where
  "AllowUnixSockets s =
     (case setUnixSockets s of
        None \<Rightarrow> []
      | Some m \<Rightarrow> sort (map fst (filter (\<lambda>(path, perm). perm = UnixSocketPermissionAllow) m)))"

definition cloneDomains :: "'c NetworkProxySettings \<Rightarrow> NetworkDomainPermissions" where
  "cloneDomains s = (case setDomains s of None \<Rightarrow> [] | Some ds \<Rightarrow> ds)"

definition withDomainEntries :: "'c NetworkProxySettings \<Rightarrow> string list \<Rightarrow> NetworkDomainPermission \<Rightarrow> 'c NetworkProxySettings" where
  "withDomainEntries s entries permission =
     (let kept = fold (\<lambda>entry kept. if list_ex (\<lambda>e. entryPattern e = entry \<and> entryPermission e = permission) kept
                                     then kept else kept @ [\<lparr>entryPattern = entry, entryPermission = permission\<rparr>])
                   entries (filter (\<lambda>e. entryPermission e \<noteq> permission) (cloneDomains s)) in
      s\<lparr>setDomains := if kept = [] then None else Some kept\<rparr>)"

definition WithAllowedDomains :: "'c NetworkProxySettings \<Rightarrow> string list \<Rightarrow> 'c NetworkProxySettings" where
  "WithAllowedDomains s domains = withDomainEntries s domains DomainPermissionAllow"

definition WithDeniedDomains :: "'c NetworkProxySettings \<Rightarrow> string list \<Rightarrow> 'c NetworkProxySettings" where
  "WithDeniedDomains s domains = withDomainEntries s domains DomainPermissionDeny"

definition WithUpsertDomainPermission :: "go_env \<Rightarrow> 'c NetworkProxySettings \<Rightarrow> string \<Rightarrow> NetworkDomainPermission \<Rightarrow> 'c NetworkProxySettings" where
  "WithUpsertDomainPermission env s host permission =
     s\<lparr>setDomains := Some (filter (\<lambda>e. NormalizeHost env (entryPattern e) \<noteq> NormalizeHost env host) (cloneDomains s)
          @ [\<lparr>entryPattern = host, entryPermission = permission\<rparr>])\<rparr>"

fun map_insert :: "'k \<Rightarrow> 'v \<Rightarrow> ('k \<times> 'v) list \<Rightarrow> ('k \<times> 'v) list" where
  "map_insert k v [] = [(k, v)]"
| "map_insert k v ((k', v') # m) = (if k' = k then (k, v) # m else (k', v') # map_insert k v m)"

definition WithAllowUnixSockets :: "'c NetworkProxySettings \<Rightarrow> string list \<Rightarrow> 'c NetworkProxySettings" where
  "WithAllowUnixSockets s paths =
     (let old = (case setUnixSockets s of None \<Rightarrow> []
                 | Some m \<Rightarrow> filter (\<lambda>(path, perm). perm \<noteq> UnixSocketPermissionAllow) m);
          entries = fold (\<lambda>path. map_insert path UnixSocketPermissionAllow) paths old in
      s\<lparr>setUnixSockets := if entries = [] then None else Some entries\<rparr>)"

section \<open>Overlay of exec-policy rules\<close>

text \<open>The loop of upsertNetworkDomains with the set of hosts already seen.\<close>

fun upsert_loop :: "go_env \<Rightarrow> NetworkDomainPermission \<Rightarrow> string list \<Rightarrow> string set \<Rightarrow> 'c NetworkProxySettings \<Rightarrow> 'c NetworkProxySettings" where
  "upsert_loop env permission [] seen network = network"
| "upsert_loop env permission (host # hosts) seen network =
     (if host \<in> seen then upsert_loop env permission hosts seen network
      else upsert_loop env permission hosts (insert host seen) (WithUpsertDomainPermission env network host permission))"

definition upsertNetworkDomains :: "go_env \<Rightarrow> 'c NetworkProxySettings \<Rightarrow> string list \<Rightarrow> NetworkDomainPermission \<Rightarrow> 'c NetworkProxySettings" where
  "upsertNetworkDomains env network hosts permission = upsert_loop env permission hosts {} network"

definition ApplyExecPolicyNetworkRules :: "go_env \<Rightarrow> 'c NetworkProxyConfig \<Rightarrow> string list \<Rightarrow> string list \<Rightarrow> 'c NetworkProxyConfig" where
  "ApplyExecPolicyNetworkRules env config allowedDomains deniedDomains =
     (let n1 = upsertNetworkDomains env (cfgNetwork config) allowedDomains DomainPermissionAllow in
      config\<lparr>cfgNetwork := upsertNetworkDomains env n1 deniedDomains DomainPermissionDeny\<rparr>)"

section \<open>Outside world and errors\<close>

record ('c, 'h) net_env =
  ne_go :: go_env
  ne_darwin :: bool
  ne_getwd :: "(string, string) result"
  ne_eval_symlinks :: "string \<Rightarrow> string option"
  ne_url_hostname :: "string \<Rightarrow> string option"
  ne_validate_hooks :: "'c NetworkProxyConfig \<Rightarrow> string option"
  ne_compile_hooks :: "'c NetworkProxyConfig \<Rightarrow> (string, string \<rightharpoonup> 'h) result"

datatype net_error = NetworkProxyConstraintError string string string | NetError string

fun net_error_text :: "net_error \<Rightarrow> string" where
  "net_error_text (NetworkProxyConstraintError fieldName candidate allowed) =
     ''invalid value for '' @ fieldName @ '': '' @ candidate @ '' (allowed '' @ allowed @ '')''"
| "net_error_text (NetError text) = text"

definition invalidValue :: "string \<Rightarrow> string \<Rightarrow> string \<Rightarrow> net_error" where
  "invalidValue fieldName candidate allowed = NetworkProxyConstraintError fieldName candidate allowed"

text \<open>The verb \<open>%q\<close> on a list of strings.\<close>

definition quote_list :: "go_env \<Rightarrow> string list \<Rightarrow> string" where
  "quote_list env xs = ''['' @ join '' '' (map (Quote env) xs) @ '']''"

section \<open>Unix-socket paths\<close>

datatype validatedUnixSocketPath = unixPathNative string string | unixPathUnixStyleAbsolute string

definition parseValidatedUnixSocketPath :: "('c, 'h) net_env \<Rightarrow> string \<Rightarrow> (net_error, validatedUnixSocketPath) result" where
  "parseValidatedUnixSocketPath ne socketPath =
     (if filepath_IsAbs (ne_go ne) socketPath then
        (case FromAbsolutePath (env_windows (ne_go ne)) (env_home (ne_go ne)) (ne_getwd ne) socketPath of
           Inl e \<Rightarrow> Inl (NetError (''failed to normalize unix socket path '' @ Quote (ne_go ne) socketPath @ '': '' @ cwd_error_text (ne_go ne) e))
         | Inr native \<Rightarrow> Inr (unixPathNative native socketPath))
      else if HasPrefix socketPath ''/'' then Inr (unixPathUnixStyleAbsolute socketPath)
      else Inl (NetError (''expected an absolute path, got '' @ Quote (ne_go ne) socketPath)))"

fun validate_socket_paths :: "('c, 'h) net_env \<Rightarrow> nat \<Rightarrow> string list \<Rightarrow> net_error option" where
  "validate_socket_paths ne index [] = None"
| "validate_socket_paths ne index (socketPath # rest) =
     (case parseValidatedUnixSocketPath ne socketPath of
        Inl e \<Rightarrow> Some (NetError (''invalid network.allow_unix_sockets['' @ itoa (int index) @ '']: '' @ net_error_text e))
      | Inr v \<Rightarrow> validate_socket_paths ne (index + 1) rest)"

definition validateUnixSocketAllowlistPaths :: "('c, 'h) net_env \<Rightarrow> 'c NetworkProxyConfig \<Rightarrow> net_error option" where
  "validateUnixSocketAllowlistPaths ne cfg = validate_socket_paths ne 0 (AllowUnixSockets (cfgNetwork cfg))"

definition unixSocketPermissionsSupported :: "('c, 'h) net_env \<Rightarrow> bool" where
  "unixSocketPermissionsSupported ne = ne_darwin ne"

end
