(* ===== verification/Net_Constraints.thy ===== *)
theory Net_Constraints
  imports Net_Config
begin

text \<open>
  The managed constraints on the settings of the network proxy (networkproxy/constraints.go), and what they
  guarantee: a user's allow list that passes the check matches no host outside the managed list, as long as
  all patterns are ordinary domain patterns.
\<close>

section \<open>Code\<close>

record NetworkProxyConstraints =
  conEnabled :: "bool option"
  conMode :: "NetworkMode option"
  conAllowUpstreamProxy :: "bool option"
  conDangerouslyAllowNonLoopbackProxy :: "bool option"
  conDangerouslyAllowAllUnixSockets :: "bool option"
  conAllowedDomains :: "string list option"
  conAllowlistExpansionEnabled :: "bool option"
  conDeniedDomains :: "string list option"
  conDenylistExpansionEnabled :: "bool option"
  conAllowUnixSockets :: "string list option"
  conAllowLocalBinding :: "bool option"

definition networkModeRank :: "NetworkMode \<Rightarrow> nat" where
  "networkModeRank mode = (if mode_normalized mode = NetworkModeLimited then 0 else 1)"

definition lowercaseSet :: "go_env \<Rightarrow> string list \<Rightarrow> string set" where
  "lowercaseSet env entries = set (map (ToLower env) entries)"

definition setsEqual :: "string set \<Rightarrow> string set \<Rightarrow> bool" where
  "setsEqual a b \<longleftrightarrow> card a = card b \<and> (\<forall>k \<in> a. k \<in> b)"

fun validateNonGlobalWildcardDomainPatterns :: "go_env \<Rightarrow> string \<Rightarrow> string list \<Rightarrow> net_error option" where
  "validateNonGlobalWildcardDomainPatterns env fieldName [] = None"
| "validateNonGlobalWildcardDomainPatterns env fieldName (pattern # rest) =
     (if isGlobalWildcardDomainPattern env pattern
      then Some (NetworkProxyConstraintError fieldName (TrimSpace pattern)
             ''exact hosts or scoped wildcards like *.example.com or **.example.com'')
      else validateNonGlobalWildcardDomainPatterns env fieldName rest)"

text \<open>Entries of the managed list in lower case that fail a test, for the error; a Go map has no order.\<close>

definition missing_entries :: "go_env \<Rightarrow> string list \<Rightarrow> (string \<Rightarrow> bool) \<Rightarrow> string list" where
  "missing_entries env managed present = filter (\<lambda>entry. \<not> present entry) (remdups (map (ToLower env) managed))"

definition pattern_permitted :: "('c, 'h) net_env \<Rightarrow> string list \<Rightarrow> string \<Rightarrow> bool" where
  "pattern_permitted ne managed entry =
     list_ex (\<lambda>m. allows (ne_go ne) (parseDomainPatternForConstraints (ne_go ne) (ne_url_hostname ne) m)
                    (parseDomainPatternForConstraints (ne_go ne) (ne_url_hostname ne) entry)) managed"

definition validateAllowedDomainsConstraint ::
  "('c, 'h) net_env \<Rightarrow> string list \<Rightarrow> bool option \<Rightarrow> string list \<Rightarrow> string set \<Rightarrow> net_error option" where
  "validateAllowedDomainsConstraint ne managed expansion candidate deniedOverrides =
     (let env = ne_go ne in
      case validateNonGlobalWildcardDomainPatterns env ''network.allowed_domains'' managed of
        Some e \<Rightarrow> Some e
      | None \<Rightarrow>
          (let candidateSet = lowercaseSet env candidate in
           case expansion of
             Some True \<Rightarrow>
               (let missing = missing_entries env managed (\<lambda>entry. entry \<in> candidateSet \<or> entry \<in> deniedOverrides) in
                if missing \<noteq> []
                then Some (invalidValue ''network.allowed_domains'' ''missing managed allowed_domains entries'' (quote_list env missing))
                else None)
           | Some False \<Rightarrow>
               (if \<not> setsEqual candidateSet (lowercaseSet env managed - deniedOverrides)
                then Some (invalidValue ''network.allowed_domains'' (quote_list env candidate) ''must match managed allowed_domains'')
                else None)
           | None \<Rightarrow>
               (let invalid = filter (\<lambda>entry. \<not> pattern_permitted ne managed entry) candidate in
                if invalid \<noteq> []
                then Some (invalidValue ''network.allowed_domains'' (quote_list env invalid) ''subset of managed allowed_domains'')
                else None)))"

definition validateDeniedDomainsConstraint ::
  "('c, 'h) net_env \<Rightarrow> string list \<Rightarrow> bool option \<Rightarrow> string list \<Rightarrow> net_error option" where
  "validateDeniedDomainsConstraint ne managed expansion candidate =
     (let env = ne_go ne in
      case validateNonGlobalWildcardDomainPatterns env ''network.denied_domains'' managed of
        Some e \<Rightarrow> Some e
      | None \<Rightarrow>
          (let candidateSet = lowercaseSet env candidate in
           if expansion = Some False then
             (if \<not> setsEqual candidateSet (lowercaseSet env managed)
              then Some (invalidValue ''network.denied_domains'' (quote_list env candidate) ''must match managed denied_domains'')
              else None)
           else
             (let missing = missing_entries env managed (\<lambda>entry. entry \<in> candidateSet) in
              if missing \<noteq> []
              then Some (invalidValue ''network.denied_domains'' ''missing managed denied_domains entries'' (quote_list env missing))
              else None)))"

text \<open>A check that stops the validation with an error, and the sequence of such checks.\<close>

definition refuse :: "bool \<Rightarrow> net_error \<Rightarrow> net_error option" where
  "refuse bad e = (if bad then Some e else None)"

fun first_error :: "net_error option list \<Rightarrow> net_error option" where
  "first_error [] = None"
| "first_error (None # es) = first_error es"
| "first_error (Some e # es) = Some e"

definition disabled_text :: string where
  "disabled_text = ''false (disabled by managed config)''"

definition allowAllUnixSockets :: "NetworkProxyConstraints \<Rightarrow> bool" where
  "allowAllUnixSockets constraints =
     (case conDangerouslyAllowAllUnixSockets constraints of
        Some b \<Rightarrow> b
      | None \<Rightarrow> conAllowUnixSockets constraints = None)"

definition unix_sockets_check :: "go_env \<Rightarrow> string list option \<Rightarrow> string list \<Rightarrow> net_error option" where
  "unix_sockets_check env managed configured =
     (case managed of
        None \<Rightarrow> None
      | Some allowed \<Rightarrow>
          (let invalid = filter (\<lambda>entry. ToLower env entry \<notin> lowercaseSet env allowed) configured in
           refuse (invalid \<noteq> [])
             (invalidValue ''network.allow_unix_sockets'' (quote_list env invalid) ''subset of managed allow_unix_sockets'')))"

definition ValidatePolicyAgainstConstraints ::
  "('c, 'h) net_env \<Rightarrow> 'c NetworkProxyConfig \<Rightarrow> NetworkProxyConstraints \<Rightarrow> net_error option" where
  "ValidatePolicyAgainstConstraints ne config constraints =
     (let env = ne_go ne; network = cfgNetwork config;
          configAllowedDomains = AllowedDomains network;
          configDeniedDomains = DeniedDomains network in
      first_error
        [map_option (\<lambda>e. invalidValue ''network.mitm_hooks'' e ''valid MITM hook configuration'') (ne_validate_hooks ne config),
         validateNonGlobalWildcardDomainPatterns env ''network.denied_domains'' configDeniedDomains,
         refuse (setEnabled network \<and> conEnabled constraints = Some False)
           (invalidValue ''network.enabled'' ''true'' disabled_text),
         (case conMode constraints of
            None \<Rightarrow> None
          | Some mode \<Rightarrow>
              refuse (networkModeRank mode < networkModeRank (setMode network))
                (invalidValue ''network.mode'' (mode_normalized (setMode network)) (mode_normalized mode @ '' or more restrictive''))),
         refuse (conAllowUpstreamProxy constraints = Some False \<and> setAllowUpstreamProxy network)
           (invalidValue ''network.allow_upstream_proxy'' ''true'' disabled_text),
         refuse (conDangerouslyAllowNonLoopbackProxy constraints = Some False \<and> setDangerouslyAllowNonLoopbackProxy network)
           (invalidValue ''network.dangerously_allow_non_loopback_proxy'' ''true'' disabled_text),
         refuse (setDangerouslyAllowAllUnixSockets network \<and> \<not> allowAllUnixSockets constraints)
           (invalidValue ''network.dangerously_allow_all_unix_sockets'' ''true'' disabled_text),
         refuse (conAllowLocalBinding constraints = Some False \<and> setAllowLocalBinding network)
           (invalidValue ''network.allow_local_binding'' ''true'' disabled_text),
         (case conAllowedDomains constraints of
            None \<Rightarrow> None
          | Some managed \<Rightarrow>
              validateAllowedDomainsConstraint ne managed (conAllowlistExpansionEnabled constraints) configAllowedDomains
                (lowercaseSet env configDeniedDomains)),
         (case conDeniedDomains constraints of
            None \<Rightarrow> None
          | Some managed \<Rightarrow>
              validateDeniedDomainsConstraint ne managed (conDenylistExpansionEnabled constraints) configDeniedDomains),
         unix_sockets_check env (conAllowUnixSockets constraints) (AllowUnixSockets network)])"

section \<open>Effective permissions\<close>

definition entry_perms :: "NetworkDomainPermissions \<Rightarrow> string \<Rightarrow> NetworkDomainPermission set" where
  "entry_perms ds p = {entryPermission e | e. e \<in> set ds \<and> entryPattern e = p}"

text \<open>The permission with the highest rank in a set.\<close>

definition strongest :: "NetworkDomainPermission set \<Rightarrow> NetworkDomainPermission" where
  "strongest P = (if DomainPermissionDeny \<in> P then DomainPermissionDeny
     else if DomainPermissionAllow \<in> P then DomainPermissionAllow else DomainPermissionNone)"

lemma update_effective_set:
  assumes "distinct (map fst m)"
  shows "distinct (map fst (update_effective p q m)) \<and>
    (\<forall>p'. map_of (update_effective p q m) p' =
       (if p' = p then Some (case map_of m p of None \<Rightarrow> q
          | Some r \<Rightarrow> if permission_rank r < permission_rank q then q else r) else map_of m p')) \<and>
    fst ` set (update_effective p q m) = insert p (fst ` set m)"
  using assms
proof (induction m)
  case Nil
  then show ?case by simp
next
  case (Cons x m)
  obtain p' q' where x: "x = (p', q')" by fastforce
  have "p' \<notin> fst ` set m" using Cons.prems x by simp
  then show ?case using Cons x by (cases "p' = p") (auto simp: map_of_eq_None_iff [THEN iffD2])
qed

lemma strongest_insert:
  "strongest (insert q P) =
     (if P = {} then q else if permission_rank (strongest P) < permission_rank q then q else strongest P)"
  by (cases q) (auto simp: strongest_def)

lemma effective_map:
  "distinct (map fst (fold (\<lambda>e. update_effective (entryPattern e) (entryPermission e)) ds [])) \<and>
   (\<forall>p. map_of (fold (\<lambda>e. update_effective (entryPattern e) (entryPermission e)) ds []) p =
      (if entry_perms ds p = {} then None else Some (strongest (entry_perms ds p))))"
proof (induction ds rule: rev_induct)
  case Nil
  then show ?case by (simp add: entry_perms_def)
next
  case (snoc e ds)
  have "entry_perms (ds @ [e]) p = (if p = entryPattern e then insert (entryPermission e) (entry_perms ds p) else entry_perms ds p)" for p
    by (auto simp: entry_perms_def)
  then show ?case using snoc update_effective_set
    by (auto simp: strongest_insert)
qed

lemma domainEntries_iff:
  "p \<in> set (domainEntries s perm) \<longleftrightarrow>
     (\<exists>ds. setDomains s = Some ds \<and> entry_perms ds p \<noteq> {} \<and> strongest (entry_perms ds p) = perm)"
proof (cases "setDomains s")
  case None
  then show ?thesis by (simp add: domainEntries_def)
next
  case (Some ds)
  let ?m = "fold (\<lambda>e. update_effective (entryPattern e) (entryPermission e)) ds []"
  have "p \<in> set (domainEntries s perm) \<longleftrightarrow> (p, perm) \<in> set ?m"
    using Some by (force simp: domainEntries_def effectiveEntries_def)
  also have "\<dots> \<longleftrightarrow> map_of ?m p = Some perm"
    using effective_map [of ds] map_of_eq_Some_iff [of ?m p perm] by blast
  finally show ?thesis using effective_map [of ds] Some by (auto split: if_splits)
qed

lemma strongest_iff:
  "strongest P = DomainPermissionDeny \<longleftrightarrow> DomainPermissionDeny \<in> P"
  "strongest P = DomainPermissionAllow \<longleftrightarrow> DomainPermissionAllow \<in> P \<and> DomainPermissionDeny \<notin> P"
  by (simp_all add: strongest_def)

text \<open>A denied pattern is denied by one entry; an allowed one has an allowing entry and no denying one.\<close>

lemma denied_iff: "p \<in> set (DeniedDomains s) \<longleftrightarrow> DomainPermissionDeny \<in> entry_perms (cloneDomains s) p"
  by (cases "setDomains s") (auto simp: DeniedDomains_def domainEntries_iff strongest_iff cloneDomains_def entry_perms_def)

lemma allowed_iff: "p \<in> set (AllowedDomains s) \<longleftrightarrow>
    DomainPermissionAllow \<in> entry_perms (cloneDomains s) p \<and> DomainPermissionDeny \<notin> entry_perms (cloneDomains s) p"
  by (cases "setDomains s") (auto simp: AllowedDomains_def domainEntries_iff strongest_iff cloneDomains_def entry_perms_def)

section \<open>What the constraints guarantee\<close>

lemma first_error_None_iff: "first_error es = None \<longleftrightarrow> (\<forall>e \<in> set es. e = None)"
  by (induction es rule: first_error.induct) auto

lemma refuse_None_iff: "refuse bad e = None \<longleftrightarrow> \<not> bad"
  by (simp add: refuse_def)

lemma setsEqual_iff: "finite b \<Longrightarrow> setsEqual a b \<longleftrightarrow> a = b"
  unfolding setsEqual_def using card_subset_eq by blast

lemma pattern_permitted_plain:
  assumes "url_plain (ne_url_hostname ne)" "plain_domain (snd c)" "\<forall>m \<in> set ms. plain_domain (snd m)"
  shows "pattern_permitted ne (map pattern_text ms) (pattern_text c) \<longleftrightarrow> (\<exists>m \<in> set ms. pattern_hosts c \<subseteq> pattern_hosts m)"
proof -
  have "allows (ne_go ne) (parseDomainPatternForConstraints (ne_go ne) (ne_url_hostname ne) (pattern_text m))
          (parseDomainPatternForConstraints (ne_go ne) (ne_url_hostname ne) (pattern_text c))
        \<longleftrightarrow> pattern_hosts c \<subseteq> pattern_hosts m" if "m \<in> set ms" for m
    using assms that allows_iff_subset [of "snd m" "snd c" "ne_go ne" "fst m" "fst c"]
    by (simp add: parse_for_constraints_plain)
  then show ?thesis by (auto simp: pattern_permitted_def list_ex_iff)
qed

lemma ToLower_pattern_text: "plain_domain (snd p) \<Longrightarrow> ToLower env (pattern_text p) = pattern_text p"
proof -
  assume p: "plain_domain (snd p)"
  then have "\<forall>c \<in> set (snd p). byte c < 0x80 \<and> \<not> (0x41 \<le> byte c \<and> byte c \<le> 0x5A)"
    using plain_domain_char by blast
  then show ?thesis by (cases p rule: pattern_text.cases) (auto intro!: ToLower_plain)
qed

lemma pattern_text_inj:
  assumes "pattern_text p = pattern_text q" "plain_domain (snd p)" "plain_domain (snd q)"
  shows "p = q"
proof -
  have "parseDomainPatternForConstraints posix_env Some (pattern_text r) = \<lparr>dpKind = fst r, dpDomain = snd r\<rparr>"
    if "plain_domain (snd r)" for r
    using that by (intro parse_for_constraints_plain) (simp_all add: url_plain_def)
  then show ?thesis using assms by (metis domainPattern.ext_inject prod_eq_iff)
qed

text \<open>An accepted list of ordinary patterns stays within the managed patterns.\<close>

lemma allowed_constraint_subset:
  assumes "url_plain (ne_url_hostname ne)" "\<forall>m \<in> set ms. plain_domain (snd m)" "\<forall>c \<in> set cs. plain_domain (snd c)"
    "expansion \<noteq> Some True"
    "validateAllowedDomainsConstraint ne (map pattern_text ms) expansion (map pattern_text cs) D = None"
  shows "\<forall>c \<in> set cs. \<exists>m \<in> set ms. pattern_hosts c \<subseteq> pattern_hosts m"
proof (cases expansion)
  case None
  then have "\<forall>c \<in> set cs. pattern_permitted ne (map pattern_text ms) (pattern_text c)"
    using assms(5)
    by (auto simp: validateAllowedDomainsConstraint_def Let_def filter_empty_conv split: option.splits if_splits)
  then show ?thesis using pattern_permitted_plain [OF assms(1) _ assms(2)] assms(3) by blast
next
  case (Some b)
  with assms(4) have b: "expansion = Some False" by (cases b) auto
  have low: "lowercaseSet (ne_go ne) (map pattern_text ps) = pattern_text ` set ps"
    if "\<forall>p \<in> set ps. plain_domain (snd p)" for ps
  proof -
    have "map (ToLower (ne_go ne)) (map pattern_text ps) = map pattern_text ps"
      using that by (simp add: ToLower_pattern_text)
    then show ?thesis unfolding lowercaseSet_def by simp
  qed
  have "pattern_text ` set cs = pattern_text ` set ms - D"
    using assms(5) b
    by (auto simp: validateAllowedDomainsConstraint_def Let_def setsEqual_iff low assms(2,3) split: option.splits if_splits)
  then have "\<exists>m \<in> set ms. pattern_text m = pattern_text c" if "c \<in> set cs" for c
    using that by (metis DiffD1 imageE imageI)
  then show ?thesis using pattern_text_inj assms(2,3) by (metis subset_refl)
qed

text \<open>
  C29. Managed constraints: if all patterns are ordinary domain names with an optional wildcard prefix, the URL
  parser reads such names as hosts, and expansion of the allow list is not enabled, then settings that pass the
  validation compile to an allow list that matches only hosts matched by the managed list; they allow
  only HTTP methods that the managed mode allows, and no local addresses if these are forbidden.
\<close>

theorem managed_constraints_respected:
  assumes "url_plain (ne_url_hostname ne)"
    and "conAllowedDomains con = Some (map pattern_text ms)" and "\<forall>m \<in> set ms. plain_domain (snd m)"
    and "AllowedDomains (cfgNetwork config) = map pattern_text cs" and "\<forall>c \<in> set cs. plain_domain (snd c)"
    and "conAllowlistExpansionEnabled con \<noteq> Some True"
    and "ValidatePolicyAgainstConstraints ne config con = None"
  shows "(\<exists>ga gm. compileAllowlistGlobset (ne_go ne) (AllowedDomains (cfgNetwork config)) = Inr ga \<and>
            compileAllowlistGlobset (ne_go ne) (map pattern_text ms) = Inr gm \<and>
            (\<forall>h. globset_match (ne_go ne) ga h \<longrightarrow> globset_match (ne_go ne) gm h)) \<and>
         (\<forall>mode method. conMode con = Some mode \<and> AllowsMethod (mode_normalized (setMode (cfgNetwork config))) method
            \<longrightarrow> AllowsMethod (mode_normalized mode) method) \<and>
         (conAllowLocalBinding con = Some False \<longrightarrow> \<not> setAllowLocalBinding (cfgNetwork config))"
proof (intro conjI)
  note ok = assms(7) [unfolded ValidatePolicyAgainstConstraints_def Let_def first_error_None_iff, simplified refuse_None_iff, simplified]
  have "validateAllowedDomainsConstraint ne (map pattern_text ms) (conAllowlistExpansionEnabled con)
      (map pattern_text cs) (lowercaseSet (ne_go ne) (DeniedDomains (cfgNetwork config))) = None"
    using ok assms(2,4) by simp
  then have sub: "\<forall>c \<in> set cs. \<exists>m \<in> set ms. pattern_hosts c \<subseteq> pattern_hosts m"
    using allowed_constraint_subset assms(1,3,5,6) by blast
  obtain ga where ga: "compileAllowlistGlobset (ne_go ne) (map pattern_text cs) = Inr ga"
    "\<forall>h. globset_match (ne_go ne) ga h \<longleftrightarrow> (\<exists>p \<in> set cs. ToLower (ne_go ne) h \<in> pattern_hosts p)"
    using compiled_match [OF assms(5)] unfolding compileAllowlistGlobset_def by blast
  obtain gm where gm: "compileAllowlistGlobset (ne_go ne) (map pattern_text ms) = Inr gm"
    "\<forall>h. globset_match (ne_go ne) gm h \<longleftrightarrow> (\<exists>p \<in> set ms. ToLower (ne_go ne) h \<in> pattern_hosts p)"
    using compiled_match [OF assms(3)] unfolding compileAllowlistGlobset_def by blast
  show "\<exists>ga gm. compileAllowlistGlobset (ne_go ne) (AllowedDomains (cfgNetwork config)) = Inr ga \<and>
            compileAllowlistGlobset (ne_go ne) (map pattern_text ms) = Inr gm \<and>
            (\<forall>h. globset_match (ne_go ne) ga h \<longrightarrow> globset_match (ne_go ne) gm h)"
    using ga gm sub assms(4) by (metis subsetD)
  show "\<forall>mode method. conMode con = Some mode \<and> AllowsMethod (mode_normalized (setMode (cfgNetwork config))) method
            \<longrightarrow> AllowsMethod (mode_normalized mode) method"
    using ok by (auto simp: networkModeRank_def AllowsMethod_def refuse_None_iff split: if_splits)
  show "conAllowLocalBinding con = Some False \<longrightarrow> \<not> setAllowLocalBinding (cfgNetwork config)"
    using ok by (auto simp: refuse_None_iff)
qed

definition sample_net_env :: "(unit, unit) net_env" where
  "sample_net_env = \<lparr>ne_go = posix_env, ne_darwin = False, ne_getwd = Inr ''/'', ne_eval_symlinks = (\<lambda>_. None),
     ne_url_hostname = (\<lambda>h. if CHR '':'' \<in> set h then None else Some h),
     ne_validate_hooks = (\<lambda>_. None), ne_compile_hooks = (\<lambda>_. Inr (\<lambda>_. None))\<rparr>"

definition no_constraints :: NetworkProxyConstraints where
  "no_constraints = \<lparr>conEnabled = None, conMode = None, conAllowUpstreamProxy = None,
     conDangerouslyAllowNonLoopbackProxy = None, conDangerouslyAllowAllUnixSockets = None, conAllowedDomains = None,
     conAllowlistExpansionEnabled = None, conDeniedDomains = None, conDenylistExpansionEnabled = None,
     conAllowUnixSockets = None, conAllowLocalBinding = None\<rparr>"

definition allow_config :: "string list \<Rightarrow> 'c NetworkProxyConfig" where
  "allow_config patterns =
     \<lparr>cfgNetwork = DefaultNetworkProxySettings\<lparr>setDomains :=
        Some (map (\<lambda>p. \<lparr>entryPattern = p, entryPermission = DomainPermissionAllow\<rparr>) patterns)\<rparr>\<rparr>"

definition managed_example :: NetworkProxyConstraints where
  "managed_example = no_constraints\<lparr>conAllowedDomains := Some [''*.example.com''], conAllowLocalBinding := Some False\<rparr>"

lemma example_domain_plain: "plain_domain ''example.com''" "plain_domain ''api.example.com''"
  by (simp_all add: plain_domain_def label_char_def)

lemma url_plain_sample: "url_plain (ne_url_hostname sample_net_env)"
  using plain_domain_props(4) by (auto simp: url_plain_def sample_net_env_def)

lemma allow_config_sel:
  "AllowedDomains (cfgNetwork (allow_config [p])) = [p]" "DeniedDomains (cfgNetwork (allow_config [p])) = []"
  by (simp_all add: AllowedDomains_def DeniedDomains_def domainEntries_def allow_config_def effectiveEntries_def)

lemma managed_example_validate:
  "ValidatePolicyAgainstConstraints sample_net_env (allow_config [p]) managed_example = None \<longleftrightarrow>
     pattern_permitted sample_net_env [''*.example.com''] p"
proof -
  have "\<not> isGlobalWildcardDomainPattern posix_env ''*.example.com''"
    using plain_not_global [of "(domainSubdomainsOnly, ''example.com'')" posix_env] example_domain_plain by simp
  then have "validateAllowedDomainsConstraint sample_net_env [''*.example.com''] None [p] {} = None \<longleftrightarrow>
      pattern_permitted sample_net_env [''*.example.com''] p"
    by (simp add: validateAllowedDomainsConstraint_def sample_net_env_def)
  then show ?thesis
    by (simp add: ValidatePolicyAgainstConstraints_def Let_def allow_config_sel first_error_None_iff refuse_def
        managed_example_def no_constraints_def unix_sockets_check_def lowercaseSet_def)
      (simp add: sample_net_env_def allow_config_def DefaultNetworkProxySettings_def)
qed

lemma sample_validate:
  "ValidatePolicyAgainstConstraints sample_net_env (allow_config [''api.example.com'']) managed_example = None"
proof -
  have "''api.example.com'' \<in> subdomains ''example.com''" by (auto simp: subdomains_def intro: exI [of _ "''api''"])
  then show ?thesis
    using pattern_permitted_plain [OF url_plain_sample, of "(domainExact, ''api.example.com'')" "[(domainSubdomainsOnly, ''example.com'')]"]
    by (simp add: managed_example_validate example_domain_plain)
qed

theorem managed_constraints_respected_witness:
  "\<exists>ga gm. compileAllowlistGlobset posix_env [''api.example.com''] = Inr ga \<and>
     compileAllowlistGlobset posix_env [''*.example.com''] = Inr gm \<and>
     (\<forall>h. globset_match posix_env ga h \<longrightarrow> globset_match posix_env gm h)"
proof -
  have a: "AllowedDomains (cfgNetwork (allow_config [''api.example.com''])) = map pattern_text [(domainExact, ''api.example.com'')]"
    by (simp add: AllowedDomains_def domainEntries_def allow_config_def effectiveEntries_def)
  show ?thesis
    using managed_constraints_respected [of sample_net_env managed_example "[(domainSubdomainsOnly, ''example.com'')]"
        "allow_config [''api.example.com'']" "[(domainExact, ''api.example.com'')]", OF url_plain_sample _ _ a _ _ sample_validate]
    unfolding a
    by (simp add: managed_example_def no_constraints_def example_domain_plain sample_net_env_def)
qed

text \<open>
  The check can be defeated: a pattern with a wildcard character is compared as it stands, while
  the compilation cuts it at its only colon, so \<open>evil.com:?.example.com\<close> passes for a
  subdomain of the managed domain and allows the host \<open>evil.com\<close>.
\<close>

lemma colon_defeats_allowlist:
  "ValidatePolicyAgainstConstraints sample_net_env (allow_config [''evil.com:?.example.com'']) managed_example = None \<and>
   compileAllowlistGlobset posix_env (AllowedDomains (cfgNetwork (allow_config [''evil.com:?.example.com'']))) = Inr [''evil.com'']"
proof (intro conjI)
  let ?p = "''evil.com:?.example.com''"
  have t: "TrimSpace ?p = ?p" "TrimSpace ''evil.com'' = ''evil.com''"
    by (rule TrimSpace_plain_string; simp add: plain_char_def is_space_def)+
  have low: "ToLower posix_env ?p = ?p" "ToLower posix_env ''evil.com'' = ''evil.com''"
    by (rule ToLower_plain; simp)+
  have p: "parseDomainPatternForConstraints posix_env f ?p = \<lparr>dpKind = domainExact, dpDomain = ?p\<rparr>" for f
    by (simp add: parseDomainPatternForConstraints_def parseDomainForConstraints_def t TrimRight_def HasPrefix_def ContainsAny_def)
  have m: "parseDomainPatternForConstraints posix_env (ne_url_hostname sample_net_env) ''*.example.com'' =
      \<lparr>dpKind = domainSubdomainsOnly, dpDomain = ''example.com''\<rparr>"
    using parse_for_constraints_plain [OF url_plain_sample, of "(domainSubdomainsOnly, ''example.com'')" posix_env]
    by (simp add: example_domain_plain)
  have "isStrictSubdomain posix_env ?p ''example.com''"
    using normalizeDomain_plain [OF example_domain_plain(1), of posix_env] low(1)
    by (simp add: isStrictSubdomain_def normalizeDomain_def TrimRight_def HasSuffix_def HasPrefix_def)
  then show "ValidatePolicyAgainstConstraints sample_net_env (allow_config [?p]) managed_example = None"
    using m p by (simp add: managed_example_validate pattern_permitted_def allows_def) (simp add: sample_net_env_def)
  have "ParseAddr ''evil.com'' = None" by (simp add: ParseAddr_def parseIPv4_def parseIPv4Fields_def is_digit_def)
  then have "NormalizeHost posix_env ?p = ''evil.com''"
    by (simp add: NormalizeHost_def t HasPrefix_def normalizeDNSHostOrIPLiteral_def low TrimRight_def normalizeIPLiteral_def
        scoped_literal_def Index_char_None isUnscopedIP_def apfst_def)
  then show "compileAllowlistGlobset posix_env (AllowedDomains (cfgNetwork (allow_config [?p]))) = Inr [''evil.com'']"
    by (simp add: compileAllowlistGlobset_def compileGlobsetWithPolicy_def allow_config_sel normalizePattern_def t
        expandDomainPattern_def parseDomainPattern_def add_candidate_def low)
qed

end
