(* ===== verification/Net_Policy.thy ===== *)
theory Net_Policy
  imports Net_Constraints
begin

text \<open>
  The live policy of the network proxy: decisions (networkproxy/decision.go, reasons.go, protocol.go), audit
  events (audit.go), blocked requests (blocked.go) and the state with its queries and updates (state.go).
  Every operation holds the state's mutex, so concurrent use is an interleaving of the steps of
  \<open>proxy_step\<close>.

  The resolver is a field of the state, as in the code; the clock is an argument. The sinks for audit events
  and blocked requests are flags, and the operations return what they send to a sink that is set.
\<close>

section \<open>Decisions\<close>

datatype NetworkProtocol = ProtocolHTTP | ProtocolHTTPSConnect | ProtocolSocks5TCP | ProtocolSocks5UDP

fun PolicyProtocol :: "NetworkProtocol \<Rightarrow> string" where
  "PolicyProtocol ProtocolHTTP = ''http''"
| "PolicyProtocol ProtocolHTTPSConnect = ''https_connect''"
| "PolicyProtocol ProtocolSocks5TCP = ''socks5_tcp''"
| "PolicyProtocol ProtocolSocks5UDP = ''socks5_udp''"

definition reasonDenied :: string where "reasonDenied = ''denied''"
definition reasonNotAllowed :: string where "reasonNotAllowed = ''not_allowed''"
definition reasonNotAllowedLocal :: string where "reasonNotAllowedLocal = ''not_allowed_local''"
definition reasonPolicyDenied :: string where "reasonPolicyDenied = ''policy_denied''"

datatype NetworkDecisionSource =
  NetworkDecisionSourceBaselinePolicy | NetworkDecisionSourceModeGuard
  | NetworkDecisionSourceProxyState | NetworkDecisionSourceDecider

fun source_string :: "NetworkDecisionSource \<Rightarrow> string" where
  "source_string NetworkDecisionSourceBaselinePolicy = ''baseline_policy''"
| "source_string NetworkDecisionSourceModeGuard = ''mode_guard''"
| "source_string NetworkDecisionSourceProxyState = ''proxy_state''"
| "source_string NetworkDecisionSourceDecider = ''decider''"

datatype NetworkPolicyDecision = NetworkPolicyDecisionDeny | NetworkPolicyDecisionAsk

fun policy_decision_string :: "NetworkPolicyDecision \<Rightarrow> string" where
  "policy_decision_string NetworkPolicyDecisionDeny = ''deny''"
| "policy_decision_string NetworkPolicyDecisionAsk = ''ask''"

text \<open>An allowing decision has no reason, source or decision.\<close>

datatype NetworkDecision = NetAllow | NetDeny string NetworkDecisionSource NetworkPolicyDecision

record NetworkPolicyRequest =
  reqProtocol :: NetworkProtocol
  reqHost :: string
  reqPort :: "16 word"
  reqClientAddr :: string
  reqMethod :: string
  reqCommand :: string
  reqExecPolicyHint :: string

definition DenyWithSource :: "string \<Rightarrow> NetworkDecisionSource \<Rightarrow> NetworkDecision" where
  "DenyWithSource reason source =
     NetDeny (if reason = [] then reasonPolicyDenied else reason) source NetworkPolicyDecisionDeny"

definition AskWithSource :: "string \<Rightarrow> NetworkDecisionSource \<Rightarrow> NetworkDecision" where
  "AskWithSource reason source =
     NetDeny (if reason = [] then reasonPolicyDenied else reason) source NetworkPolicyDecisionAsk"

definition net_Deny :: "string \<Rightarrow> NetworkDecision" where
  "net_Deny reason = DenyWithSource reason NetworkDecisionSourceDecider"

definition net_Ask :: "string \<Rightarrow> NetworkDecision" where
  "net_Ask reason = AskWithSource reason NetworkDecisionSourceDecider"

fun mapDeciderDecision :: "NetworkDecision \<Rightarrow> NetworkDecision" where
  "mapDeciderDecision NetAllow = NetAllow"
| "mapDeciderDecision (NetDeny reason source decision) = NetDeny reason NetworkDecisionSourceDecider decision"

section \<open>Audit events and blocked requests\<close>

record NetworkProxyAuditMetadata =
  mdConversationID :: string
  mdAppVersion :: string
  mdUserAccountID :: string
  mdAuthMode :: string
  mdOriginator :: string
  mdUserEmail :: string
  mdTerminalType :: string
  mdModel :: string
  mdSlug :: string

record PolicyDecisionAuditEvent =
  evEventName :: string
  evTimestamp :: string
  evMetadata :: NetworkProxyAuditMetadata
  evScope :: string
  evDecision :: string
  evSource :: string
  evReason :: string
  evProtocol :: string
  evServerAddress :: string
  evServerPort :: "16 word"
  evMethod :: string
  evClientAddress :: string
  evOverride :: bool

record policyAuditArgs =
  argScope :: string
  argDecision :: string
  argSource :: string
  argReason :: string
  argProtocol :: NetworkProtocol
  argServerAddress :: string
  argServerPort :: "16 word"
  argMethod :: "string option"
  argClientAddr :: "string option"
  argOverride :: bool

text \<open>The pairs of a text and a flag for its presence are options; a nil sink receives nothing.\<close>

definition emitPolicyAuditEvent :: "bool \<Rightarrow> string \<Rightarrow> NetworkProxyAuditMetadata \<Rightarrow> policyAuditArgs \<Rightarrow> PolicyDecisionAuditEvent option" where
  "emitPolicyAuditEvent sink now metadata args =
     (if \<not> sink then None
      else Some
        \<lparr>evEventName = ''codex.network_proxy.policy_decision'', evTimestamp = now, evMetadata = metadata,
         evScope = argScope args, evDecision = argDecision args, evSource = argSource args, evReason = argReason args,
         evProtocol = PolicyProtocol (argProtocol args), evServerAddress = argServerAddress args,
         evServerPort = argServerPort args,
         evMethod = (case argMethod args of Some m \<Rightarrow> m | None \<Rightarrow> ''none''),
         evClientAddress = (case argClientAddr args of Some c \<Rightarrow> c | None \<Rightarrow> ''unknown''),
         evOverride = argOverride args\<rparr>)"

record BlockedRequestArgs =
  blHost :: string
  blReason :: string
  blClient :: "string option"
  blMethod :: "string option"
  blMode :: "NetworkMode option"
  blProtocol :: string
  blDecision :: "string option"
  blSource :: "string option"
  blPort :: "16 word option"

record BlockedRequest = BlockedRequestArgs +
  blTimestamp :: "64 word"

definition newBlockedRequest :: "64 word \<Rightarrow> BlockedRequestArgs \<Rightarrow> BlockedRequest" where
  "newBlockedRequest now args = BlockedRequestArgs.extend args (BlockedRequest.fields now)"

definition maxBlockedEvents :: nat where "maxBlockedEvents = 200"

section \<open>State\<close>

datatype hostBlockReason = hostBlockDenied | hostBlockNotAllowed | hostBlockNotAllowedLocal

fun reason_asStr :: "hostBlockReason \<Rightarrow> string" where
  "reason_asStr hostBlockDenied = reasonDenied"
| "reason_asStr hostBlockNotAllowed = reasonNotAllowed"
| "reason_asStr hostBlockNotAllowedLocal = reasonNotAllowedLocal"

text \<open>The decision on a host: \<open>None\<close> if it is allowed, else the reason.\<close>

type_synonym hostBlockDecision = "hostBlockReason option"

record ('c, 'h) ConfigState =
  csConfig :: "'c NetworkProxyConfig"
  csAllowSet :: domainGlobSet
  csDenySet :: domainGlobSet
  csMitmEnabled :: bool
  csMitmHooks :: "string \<rightharpoonup> 'h"
  csConstraints :: NetworkProxyConstraints
  csBlocked :: "BlockedRequest list"
  csBlockedTotal :: "64 word"

definition wrap_error :: "string \<Rightarrow> string \<Rightarrow> net_error" where
  "wrap_error what e = NetError (what @ '': '' @ e)"

definition BuildConfigState :: "('c, 'h) net_env \<Rightarrow> 'c NetworkProxyConfig \<Rightarrow> NetworkProxyConstraints
    \<Rightarrow> (net_error, ('c, 'h) ConfigState) result" where
  "BuildConfigState ne config constraints =
     (let env = ne_go ne; allowedDomains = AllowedDomains (cfgNetwork config); deniedDomains = DeniedDomains (cfgNetwork config) in
      case validateUnixSocketAllowlistPaths ne config of
        Some e \<Rightarrow> Inl e
      | None \<Rightarrow>
          (case validateNonGlobalWildcardDomainPatterns env ''network.denied_domains'' deniedDomains of
             Some e \<Rightarrow> Inl e
           | None \<Rightarrow>
               (case compileDenylistGlobset env deniedDomains of
                  Inl e \<Rightarrow> Inl (wrap_error ''compile denylist'' e)
                | Inr denySet \<Rightarrow>
                    (case compileAllowlistGlobset env allowedDomains of
                       Inl e \<Rightarrow> Inl (wrap_error ''compile allowlist'' e)
                     | Inr allowSet \<Rightarrow>
                         (case ne_compile_hooks ne config of
                            Inl e \<Rightarrow> Inl (wrap_error ''compile mitm hooks'' e)
                          | Inr hooks \<Rightarrow>
                              Inr \<lparr>csConfig = config, csAllowSet = allowSet, csDenySet = denySet,
                                   csMitmEnabled = setMitm (cfgNetwork config), csMitmHooks = hooks,
                                   csConstraints = constraints, csBlocked = [], csBlockedTotal = 0\<rparr>)))))"

type_synonym hostLookupFunc = "string \<Rightarrow> 16 word \<Rightarrow> (string, Addr list) result"

record ('c, 'h) NetworkProxyState =
  npState :: "('c, 'h) ConfigState"
  npObserver :: bool
  npAuditSink :: bool
  npMetadata :: NetworkProxyAuditMetadata
  npLookup :: hostLookupFunc

definition empty_metadata :: NetworkProxyAuditMetadata where
  "empty_metadata = \<lparr>mdConversationID = [], mdAppVersion = [], mdUserAccountID = [], mdAuthMode = [], mdOriginator = [],
     mdUserEmail = [], mdTerminalType = [], mdModel = [], mdSlug = []\<rparr>"

text \<open>The default resolver asks the operating system and is an argument.\<close>

definition NewNetworkProxyState :: "hostLookupFunc \<Rightarrow> ('c, 'h) ConfigState \<Rightarrow> ('c, 'h) NetworkProxyState" where
  "NewNetworkProxyState defaultHostLookup state =
     \<lparr>npState = state, npObserver = False, npAuditSink = False, npMetadata = empty_metadata, npLookup = defaultHostLookup\<rparr>"

definition SetBlockedRequestObserver :: "bool \<Rightarrow> ('c, 'h) NetworkProxyState \<Rightarrow> ('c, 'h) NetworkProxyState" where
  "SetBlockedRequestObserver observer s = s\<lparr>npObserver := observer\<rparr>"

definition SetLookupFunc :: "hostLookupFunc \<Rightarrow> hostLookupFunc option \<Rightarrow> ('c, 'h) NetworkProxyState \<Rightarrow> ('c, 'h) NetworkProxyState" where
  "SetLookupFunc defaultHostLookup lookup s =
     s\<lparr>npLookup := (case lookup of Some f \<Rightarrow> f | None \<Rightarrow> defaultHostLookup)\<rparr>"

abbreviation np_network :: "('c, 'h) NetworkProxyState \<Rightarrow> 'c NetworkProxySettings" where
  "np_network s \<equiv> cfgNetwork (csConfig (npState s))"

definition CurrentPatterns :: "('c, 'h) NetworkProxyState \<Rightarrow> string list \<times> string list" where
  "CurrentPatterns s = (AllowedDomains (np_network s), DeniedDomains (np_network s))"

definition NetworkMode_of :: "('c, 'h) NetworkProxyState \<Rightarrow> NetworkMode" where
  "NetworkMode_of s = mode_normalized (setMode (np_network s))"

definition MethodAllowed :: "('c, 'h) NetworkProxyState \<Rightarrow> string \<Rightarrow> bool" where
  "MethodAllowed s method = AllowsMethod (NetworkMode_of s) method"

definition HostHasMitmHooks :: "go_env \<Rightarrow> ('c, 'h) NetworkProxyState \<Rightarrow> string \<Rightarrow> bool" where
  "HostHasMitmHooks env s host \<longleftrightarrow> csMitmHooks (npState s) (NormalizeHost env host) \<noteq> None"

definition SetNetworkMode :: "('c, 'h) net_env \<Rightarrow> NetworkMode \<Rightarrow> ('c, 'h) NetworkProxyState
    \<Rightarrow> (net_error, ('c, 'h) NetworkProxyState) result" where
  "SetNetworkMode ne mode s =
     (let cs = npState s; candidate = csConfig cs\<lparr>cfgNetwork := cfgNetwork (csConfig cs)\<lparr>setMode := mode\<rparr>\<rparr> in
      case ValidatePolicyAgainstConstraints ne candidate (csConstraints cs) of
        Some e \<Rightarrow> Inl (wrap_error ''network.mode constrained by managed config'' (net_error_text e))
      | None \<Rightarrow> Inr (s\<lparr>npState := cs\<lparr>csConfig := candidate\<rparr>\<rparr>))"

definition explicit_entry :: "go_env \<Rightarrow> string \<Rightarrow> string \<Rightarrow> bool" where
  "explicit_entry env host pattern =
     (let p = TrimSpace pattern in
      if p = ''*'' \<or> HasPrefix p ''*.'' \<or> HasPrefix p ''**.'' then False
      else if ContainsAny p ''*?'' then False
      else NormalizeHost env p = host
           \<or> (case unscopedIPLiteral host of Some unscoped \<Rightarrow> NormalizeHost env p = unscoped | None \<Rightarrow> False))"

definition isExplicitLocalAllowlisted :: "go_env \<Rightarrow> string list \<Rightarrow> string \<Rightarrow> bool" where
  "isExplicitLocalAllowlisted env allowedDomains host = list_ex (explicit_entry env host) allowedDomains"

definition hostResolvesToNonPublicIP :: "string \<Rightarrow> 16 word \<Rightarrow> hostLookupFunc \<Rightarrow> bool" where
  "hostResolvesToNonPublicIP host port lookup =
     (case ParseAddr host of
        Some addr \<Rightarrow> isNonPublicIP addr
      | None \<Rightarrow> (case lookup host port of Inl e \<Rightarrow> True | Inr addrs \<Rightarrow> list_ex isNonPublicIP addrs))"

definition is_local_literal :: "string \<Rightarrow> bool" where
  "is_local_literal normalized =
     (let hostNoScope = (case unscopedIPLiteral normalized of Some ip \<Rightarrow> ip | None \<Rightarrow> normalized) in
      if isLoopbackHost normalized then True
      else (case ParseAddr hostNoScope of Some addr \<Rightarrow> isNonPublicIP addr | None \<Rightarrow> False))"

definition hostBlocked :: "go_env \<Rightarrow> ('c, 'h) NetworkProxyState \<Rightarrow> string \<Rightarrow> 16 word \<Rightarrow> hostBlockDecision" where
  "hostBlocked env s host port =
     (case net_parseHost env host of
        None \<Rightarrow> Some hostBlockNotAllowed
      | Some normalized \<Rightarrow>
          (let allowedDomains = AllowedDomains (np_network s) in
           if globsetMatchesHostOrUnscoped env (csDenySet (npState s)) normalized then Some hostBlockDenied
           else
             let isAllowlisted = globsetMatchesHostOrUnscoped env (csAllowSet (npState s)) normalized;
                 local =
                   (\<not> setAllowLocalBinding (np_network s) \<and>
                    (if is_local_literal normalized then \<not> isExplicitLocalAllowlisted env allowedDomains normalized
                     else hostResolvesToNonPublicIP normalized port (npLookup s))) in
             if local then Some hostBlockNotAllowedLocal
             else if allowedDomains = [] \<or> \<not> isAllowlisted then Some hostBlockNotAllowed
             else None))"

text \<open>The loop that drops the oldest blocked requests.\<close>

fun trim_blocked :: "BlockedRequest list \<Rightarrow> BlockedRequest list" where
  "trim_blocked bs = (if maxBlockedEvents < length bs then trim_blocked (tl bs) else bs)"

declare trim_blocked.simps [simp del]

definition RecordBlocked :: "BlockedRequest \<Rightarrow> ('c, 'h) NetworkProxyState \<Rightarrow> ('c, 'h) NetworkProxyState \<times> BlockedRequest option" where
  "RecordBlocked entry s =
     (let cs = npState s in
      (s\<lparr>npState := cs\<lparr>csBlocked := trim_blocked (csBlocked cs @ [entry]), csBlockedTotal := csBlockedTotal cs + 1\<rparr>\<rparr>,
       if npObserver s then Some entry else None))"

definition BlockedSnapshot :: "('c, 'h) NetworkProxyState \<Rightarrow> BlockedRequest list" where
  "BlockedSnapshot s = csBlocked (npState s)"

definition DrainBlocked :: "('c, 'h) NetworkProxyState \<Rightarrow> BlockedRequest list \<times> ('c, 'h) NetworkProxyState" where
  "DrainBlocked s = (csBlocked (npState s), s\<lparr>npState := npState s\<lparr>csBlocked := []\<rparr>\<rparr>)"

definition containsNormalized :: "go_env \<Rightarrow> string list \<Rightarrow> string \<Rightarrow> bool" where
  "containsNormalized env entries normalized = list_ex (\<lambda>e. NormalizeHost env e = normalized) entries"

definition updateDomainList :: "('c, 'h) net_env \<Rightarrow> string \<Rightarrow> NetworkDomainPermission \<Rightarrow> ('c, 'h) NetworkProxyState
    \<Rightarrow> (net_error, ('c, 'h) NetworkProxyState) result" where
  "updateDomainList ne host permission s =
     (let env = ne_go ne; cs = npState s; current = csConfig cs;
          deny = (permission = DomainPermissionDeny);
          allowed = AllowedDomains (cfgNetwork current); denied = DeniedDomains (cfgNetwork current);
          targetEntries = (if deny then denied else allowed);
          oppositeEntries = (if deny then allowed else denied) in
      case net_parseHost env host of
        None \<Rightarrow> Inl (NetError (''invalid network host: '' @ Quote env host))
      | Some normalized \<Rightarrow>
          if containsNormalized env targetEntries normalized \<and> \<not> containsNormalized env oppositeEntries normalized
          then Inr s
          else
            let candidate = current\<lparr>cfgNetwork := WithUpsertDomainPermission env (cfgNetwork current) normalized permission\<rparr> in
            (case ValidatePolicyAgainstConstraints ne candidate (csConstraints cs) of
               Some e \<Rightarrow>
                 Inl (wrap_error ((if deny then ''network.denied_domains'' else ''network.allowed_domains'')
                        @ '' constrained by managed config'') (net_error_text e))
             | None \<Rightarrow>
                 (case BuildConfigState ne candidate (csConstraints cs) of
                    Inl e \<Rightarrow>
                      Inl (wrap_error (''failed to compile updated network '' @ (if deny then ''denylist'' else ''allowlist''))
                             (net_error_text e))
                  | Inr newState \<Rightarrow>
                      Inr (s\<lparr>npState := newState\<lparr>csBlocked := csBlocked cs, csBlockedTotal := csBlockedTotal cs\<rparr>\<rparr>))))"

definition AddAllowedDomain :: "('c, 'h) net_env \<Rightarrow> string \<Rightarrow> ('c, 'h) NetworkProxyState
    \<Rightarrow> (net_error, ('c, 'h) NetworkProxyState) result" where
  "AddAllowedDomain ne host s = updateDomainList ne host DomainPermissionAllow s"

definition AddDeniedDomain :: "('c, 'h) net_env \<Rightarrow> string \<Rightarrow> ('c, 'h) NetworkProxyState
    \<Rightarrow> (net_error, ('c, 'h) NetworkProxyState) result" where
  "AddDeniedDomain ne host s = updateDomainList ne host DomainPermissionDeny s"

definition socket_allowed_by :: "('c, 'h) net_env \<Rightarrow> string \<Rightarrow> string option \<Rightarrow> string \<Rightarrow> bool" where
  "socket_allowed_by ne requestedAbs requestedCanonical allowed =
     (case parseValidatedUnixSocketPath ne allowed of
        Inl e \<Rightarrow> False
      | Inr (unixPathUnixStyleAbsolute raw) \<Rightarrow> False
      | Inr (unixPathNative native raw) \<Rightarrow>
          native = requestedAbs
          \<or> (case requestedCanonical of
               None \<Rightarrow> False
             | Some c \<Rightarrow> c \<noteq> [] \<and> ne_eval_symlinks ne native = Some c))"

definition IsUnixSocketAllowed :: "('c, 'h) net_env \<Rightarrow> ('c, 'h) NetworkProxyState \<Rightarrow> string \<Rightarrow> bool" where
  "IsUnixSocketAllowed ne s path =
     (if \<not> unixSocketPermissionsSupported ne then False
      else if \<not> filepath_IsAbs (ne_go ne) path then False
      else if setDangerouslyAllowAllUnixSockets (np_network s) then True
      else (case FromAbsolutePath (env_windows (ne_go ne)) (env_home (ne_go ne)) (ne_getwd ne) path of
              Inl e \<Rightarrow> False
            | Inr requestedAbs \<Rightarrow>
                list_ex (socket_allowed_by ne requestedAbs (ne_eval_symlinks ne requestedAbs)) (AllowUnixSockets (np_network s))))"

type_synonym NetworkPolicyDecider = "NetworkPolicyRequest \<Rightarrow> NetworkDecision"

definition policy_decision :: "hostBlockDecision \<Rightarrow> NetworkPolicyDecider option \<Rightarrow> NetworkPolicyRequest \<Rightarrow> NetworkDecision \<times> bool" where
  "policy_decision hostDecision decider request =
     (case hostDecision of
        None \<Rightarrow> (NetAllow, False)
      | Some hostBlockNotAllowed \<Rightarrow>
          (case decider of
             Some f \<Rightarrow> (let d = mapDeciderDecision (f request) in (d, d = NetAllow))
           | None \<Rightarrow> (DenyWithSource (reason_asStr hostBlockNotAllowed) NetworkDecisionSourceBaselinePolicy, False))
      | Some reason \<Rightarrow> (DenyWithSource (reason_asStr reason) NetworkDecisionSourceBaselinePolicy, False))"

definition audit_of :: "NetworkDecision \<Rightarrow> bool \<Rightarrow> string \<times> string \<times> string" where
  "audit_of decision policyOverride =
     (case decision of
        NetAllow \<Rightarrow>
          (''allow'',
           if policyOverride then (source_string NetworkDecisionSourceDecider, reason_asStr hostBlockNotAllowed)
           else (source_string NetworkDecisionSourceBaselinePolicy, ''allow''))
      | NetDeny reason source d \<Rightarrow> (policy_decision_string d, source_string source, reason))"

definition some_if_nonempty :: "string \<Rightarrow> string option" where
  "some_if_nonempty x = (if x = [] then None else Some x)"

definition evaluateHostPolicy :: "go_env \<Rightarrow> string \<Rightarrow> ('c, 'h) NetworkProxyState \<Rightarrow> NetworkPolicyDecider option
    \<Rightarrow> NetworkPolicyRequest \<Rightarrow> NetworkDecision \<times> PolicyDecisionAuditEvent option" where
  "evaluateHostPolicy env now s decider request =
     (case policy_decision (hostBlocked env s (reqHost request) (reqPort request)) decider request of
        (decision, policyOverride) \<Rightarrow>
          (case audit_of decision policyOverride of
             (auditDecision, auditSource, auditReason) \<Rightarrow>
               (decision,
                emitPolicyAuditEvent (npAuditSink s) now (npMetadata s)
                  \<lparr>argScope = ''domain'', argDecision = auditDecision, argSource = auditSource, argReason = auditReason,
                   argProtocol = reqProtocol request, argServerAddress = reqHost request, argServerPort = reqPort request,
                   argMethod = some_if_nonempty (reqMethod request), argClientAddr = some_if_nonempty (reqClientAddr request),
                   argOverride = policyOverride\<rparr>)))"

section \<open>Hosts under ordinary patterns\<close>

text \<open>The compiled sets of a state belong to its settings.\<close>

definition compiled_state :: "go_env \<Rightarrow> ('c, 'h) ConfigState \<Rightarrow> bool" where
  "compiled_state env cs \<longleftrightarrow>
     compileDenylistGlobset env (DeniedDomains (cfgNetwork (csConfig cs))) = Inr (csDenySet cs) \<and>
     compileAllowlistGlobset env (AllowedDomains (cfgNetwork (csConfig cs))) = Inr (csAllowSet cs)"

lemma plain_host:
  assumes "plain_domain h"
  shows "net_parseHost env h = Some h" "unscopedIPLiteral h = None"
proof -
  have "CHR ''%'' \<notin> set h" by (rule plain_domain_props(4) [OF assms]) simp
  then show "unscopedIPLiteral h = None" by (simp add: unscopedIPLiteral_def Cut_None)
  have "h \<noteq> []" using assms by (simp add: plain_domain_def)
  then show "net_parseHost env h = Some h" by (simp add: net_parseHost_def NormalizeHost_plain [OF assms])
qed

lemma globset_plain:
  assumes "compileGlobsetWithPolicy env (map pattern_text ps) policy = Inr g" "\<forall>p \<in> set ps. plain_domain (snd p)" "plain_domain h"
  shows "globsetMatchesHostOrUnscoped env g h \<longleftrightarrow> (\<exists>p \<in> set ps. h \<in> pattern_hosts p)"
  using compiled_match [OF assms(2), of env policy] assms(1) plain_host(2) [OF assms(3)] plain_domain_props(1) [OF assms(3)]
  by (auto simp: globsetMatchesHostOrUnscoped_def)

lemma explicit_entry_plain:
  assumes "plain_domain h" "plain_domain (snd p)"
  shows "explicit_entry env h (pattern_text p) \<longleftrightarrow> p = (domainExact, h)"
proof -
  have "CHR ''*'' \<notin> set (snd p)" "CHR ''?'' \<notin> set (snd p)" by (rule plain_domain_props(4) [OF assms(2)], simp)+
  moreover have "\<not> HasPrefix (snd p) (CHR ''*'' # x)" for x using calculation(1) by (auto simp: HasPrefix_iff)
  ultimately show ?thesis
    using TrimSpace_pattern_text [OF assms(2)] NormalizeHost_plain [OF assms(2), of env] plain_host(2) [OF assms(1)]
    by (cases p rule: pattern_text.cases)
      (auto simp: explicit_entry_def Let_def HasPrefix_iff ContainsAny_def list_ex_iff)
qed

lemma local_literal_plain:
  assumes "plain_domain h"
  shows "is_local_literal h \<longleftrightarrow> h = ''localhost'' \<or> (\<exists>a. ParseAddr h = Some a \<and> isNonPublicIP a)"
proof -
  have "isNonPublicIP a" if "IsLoopback a" for a
    using that by (cases a) (auto simp: isNonPublicIP_def isNonPublicIPv4_def isNonPublicIPv6_def)
  then show ?thesis
    by (auto simp: is_local_literal_def isLoopbackHost_def plain_host(2) [OF assms] Let_def split: option.splits)
qed

text \<open>A host that must not be reached while local addresses are forbidden; the flag says whether the host itself is listed.\<close>

definition reaches_local :: "hostLookupFunc \<Rightarrow> bool \<Rightarrow> string \<Rightarrow> 16 word \<Rightarrow> bool" where
  "reaches_local lookup listed h port \<longleftrightarrow>
     (if h = ''localhost'' \<or> (\<exists>a. ParseAddr h = Some a \<and> isNonPublicIP a) then \<not> listed
      else ParseAddr h = None \<and>
           (case lookup h port of Inl e \<Rightarrow> True | Inr addrs \<Rightarrow> \<exists>a \<in> set addrs. isNonPublicIP a))"

lemma hostBlocked_plain:
  assumes "compiled_state env (npState s)" "plain_domain h"
    and "AllowedDomains (np_network s) = map pattern_text as" "\<forall>p \<in> set as. plain_domain (snd p)"
    and "DeniedDomains (np_network s) = map pattern_text ds" "\<forall>p \<in> set ds. plain_domain (snd p)"
  shows "hostBlocked env s h port =
     (if \<exists>p \<in> set ds. h \<in> pattern_hosts p then Some hostBlockDenied
      else if \<not> setAllowLocalBinding (np_network s) \<and> reaches_local (npLookup s) ((domainExact, h) \<in> set as) h port then Some hostBlockNotAllowedLocal
      else if \<exists>p \<in> set as. h \<in> pattern_hosts p then None
      else Some hostBlockNotAllowed)"
proof -
  have d: "globsetMatchesHostOrUnscoped env (csDenySet (npState s)) h \<longleftrightarrow> (\<exists>p \<in> set ds. h \<in> pattern_hosts p)"
    using assms(1,2,5,6) by (intro globset_plain) (auto simp: compiled_state_def compileDenylistGlobset_def)
  have a: "globsetMatchesHostOrUnscoped env (csAllowSet (npState s)) h \<longleftrightarrow> (\<exists>p \<in> set as. h \<in> pattern_hosts p)"
    using assms(1,2,3,4) by (intro globset_plain) (auto simp: compiled_state_def compileAllowlistGlobset_def)
  have e: "isExplicitLocalAllowlisted env (map pattern_text as) h \<longleftrightarrow> (domainExact, h) \<in> set as"
    using explicit_entry_plain [OF assms(2)] assms(4) by (auto simp: isExplicitLocalAllowlisted_def list_ex_iff)
  have l: "(if is_local_literal h then \<not> isExplicitLocalAllowlisted env (map pattern_text as) h
      else hostResolvesToNonPublicIP h port (npLookup s)) \<longleftrightarrow> reaches_local (npLookup s) ((domainExact, h) \<in> set as) h port"
    by (auto simp: local_literal_plain [OF assms(2)] e reaches_local_def hostResolvesToNonPublicIP_def list_ex_iff
        split: option.splits sum.splits)
  have "(map pattern_text as = [] \<or> \<not> (\<exists>p \<in> set as. h \<in> pattern_hosts p)) \<longleftrightarrow> \<not> (\<exists>p \<in> set as. h \<in> pattern_hosts p)"
    by auto
  then show ?thesis
    unfolding hostBlocked_def plain_host(1) [OF assms(2)] option.case Let_def assms(3) d a l by simp
qed

text \<open>
  C38. Host policy: in a state whose compiled sets belong to its settings, with ordinary domain patterns and an
  ordinary host name (or dotted address), a request is denied by the baseline policy, whatever the
  decider says, if the host matches a denied pattern, or if local addresses are forbidden and the host is
  one (and not itself listed) or resolves to one or cannot be resolved. Otherwise a host that
  matches an allowed pattern is allowed, and any other host exactly if there is a decider that allows the request.
\<close>

theorem host_policy_safe:
  assumes "compiled_state env (npState s)" and "plain_domain (reqHost request)"
    and "AllowedDomains (np_network s) = map pattern_text as" and "\<forall>p \<in> set as. plain_domain (snd p)"
    and "DeniedDomains (np_network s) = map pattern_text ds" and "\<forall>p \<in> set ds. plain_domain (snd p)"
  shows "fst (evaluateHostPolicy env now s decider request) =
     (if \<exists>p \<in> set ds. reqHost request \<in> pattern_hosts p
      then NetDeny ''denied'' NetworkDecisionSourceBaselinePolicy NetworkPolicyDecisionDeny
      else if \<not> setAllowLocalBinding (np_network s) \<and> reaches_local (npLookup s) ((domainExact, reqHost request) \<in> set as) (reqHost request) (reqPort request)
      then NetDeny ''not_allowed_local'' NetworkDecisionSourceBaselinePolicy NetworkPolicyDecisionDeny
      else if \<exists>p \<in> set as. reqHost request \<in> pattern_hosts p then NetAllow
      else case decider of
             None \<Rightarrow> NetDeny ''not_allowed'' NetworkDecisionSourceBaselinePolicy NetworkPolicyDecisionDeny
           | Some f \<Rightarrow> mapDeciderDecision (f request))"
  using hostBlocked_plain [OF assms, of "reqPort request"]
  by (auto simp: evaluateHostPolicy_def policy_decision_def DenyWithSource_def reasonDenied_def reasonNotAllowed_def
      reasonNotAllowedLocal_def Let_def split: option.splits prod.splits)

text \<open>One allowed pattern, a resolver with a public answer, and a decider that allows everything.\<close>

definition sample_proxy :: "(unit, unit) NetworkProxyState" where
  "sample_proxy = NewNetworkProxyState (\<lambda>h port. Inr [Addr4 93 184 216 34])
     \<lparr>csConfig = allow_config [''*.example.com''], csAllowSet = [''?*.example.com''], csDenySet = [],
      csMitmEnabled = False, csMitmHooks = (\<lambda>_. None), csConstraints = no_constraints, csBlocked = [], csBlockedTotal = 0\<rparr>"

definition sample_request :: "string \<Rightarrow> NetworkPolicyRequest" where
  "sample_request h = \<lparr>reqProtocol = ProtocolHTTP, reqHost = h, reqPort = 80, reqClientAddr = [], reqMethod = ''GET'',
     reqCommand = [], reqExecPolicyHint = []\<rparr>"

lemma sample_proxy_compiled: "compiled_state posix_env (npState sample_proxy)"
proof -
  have p: "plain_domain (snd (domainSubdomainsOnly, ''example.com''))" by (simp add: example_domain_plain)
  show ?thesis
    using expand_pattern_text(1) [OF p, of posix_env] expand_pattern_text(2) [OF p] ToLower_glob [of "''example.com''" posix_env]
      example_domain_plain(1)
    by (simp add: compiled_state_def sample_proxy_def NewNetworkProxyState_def compileDenylistGlobset_def
        compileAllowlistGlobset_def compileGlobsetWithPolicy_def allow_config_sel add_candidate_def)
qed

theorem host_policy_safe_witness:
  "fst (evaluateHostPolicy posix_env [] sample_proxy (Some (\<lambda>r. NetAllow)) (sample_request ''api.example.com'')) = NetAllow \<and>
   fst (evaluateHostPolicy posix_env [] sample_proxy (Some (\<lambda>r. NetAllow)) (sample_request ''10.0.0.1'')) =
     NetDeny ''not_allowed_local'' NetworkDecisionSourceBaselinePolicy NetworkPolicyDecisionDeny"
proof -
  let ?as = "[(domainSubdomainsOnly, ''example.com'')]"
  have net: "np_network sample_proxy = cfgNetwork (allow_config [''*.example.com''])" "npLookup sample_proxy = (\<lambda>h port. Inr [Addr4 93 184 216 34])"
    "\<not> setAllowLocalBinding (cfgNetwork (allow_config [''*.example.com'']))"
    by (simp_all add: sample_proxy_def NewNetworkProxyState_def allow_config_def DefaultNetworkProxySettings_def)
  have a: "AllowedDomains (np_network sample_proxy) = map pattern_text ?as" "\<forall>p \<in> set ?as. plain_domain (snd p)"
    "DeniedDomains (np_network sample_proxy) = map pattern_text []" "\<forall>p \<in> set []. plain_domain (snd p)"
    by (simp_all add: net allow_config_sel example_domain_plain)
  have ip: "plain_domain ''10.0.0.1''" "ParseAddr ''10.0.0.1'' = Some (Addr4 10 0 0 1)" "isNonPublicIP (Addr4 10 0 0 1)"
    by (simp_all add: plain_domain_def label_char_def ParseAddr_def parseIPv4_def parseIPv4Fields_def is_digit_def
        isNonPublicIP_def isNonPublicIPv4_def IsPrivate_def)
  have nm: "ParseAddr ''api.example.com'' = None" "\<not> isNonPublicIP (Addr4 93 184 216 34)" "''api.example.com'' \<in> subdomains ''example.com''"
    by (simp_all add: ParseAddr_def parseIPv4_def parseIPv4Fields_def is_digit_def
        isNonPublicIP_def isNonPublicIPv4_iff special_ipv4_def special_ranges_def quad_def)
      (auto simp: subdomains_def intro: exI [of _ "''api''"])
  have r: "reqHost (sample_request h) = h" for h by (simp add: sample_request_def)
  show ?thesis
    using host_policy_safe [OF sample_proxy_compiled _ a, of "sample_request ''api.example.com''" "[]" "Some (\<lambda>r. NetAllow)"]
      host_policy_safe [OF sample_proxy_compiled _ a, of "sample_request ''10.0.0.1''" "[]" "Some (\<lambda>r. NetAllow)"]
    by (simp add: r ip nm net reaches_local_def example_domain_plain)
qed

section \<open>The running state\<close>

inductive proxy_step :: "('c, 'h) net_env \<Rightarrow> ('c, 'h) NetworkProxyState \<Rightarrow> ('c, 'h) NetworkProxyState \<Rightarrow> bool"
  for ne where
  set_mode: "SetNetworkMode ne mode s = Inr s' \<Longrightarrow> proxy_step ne s s'"
| add_allowed: "AddAllowedDomain ne host s = Inr s' \<Longrightarrow> proxy_step ne s s'"
| add_denied: "AddDeniedDomain ne host s = Inr s' \<Longrightarrow> proxy_step ne s s'"
| record_blocked: "RecordBlocked entry s = (s', sent) \<Longrightarrow> proxy_step ne s s'"
| drain: "DrainBlocked s = (taken, s') \<Longrightarrow> proxy_step ne s s'"
| set_observer: "proxy_step ne s (SetBlockedRequestObserver observer s)"
| set_lookup: "proxy_step ne s (SetLookupFunc fallback lookup s)"

lemma trim_blocked_drop: "trim_blocked bs = drop (length bs - maxBlockedEvents) bs"
proof (induction bs rule: trim_blocked.induct)
  case (1 bs)
  show ?case
  proof (cases "maxBlockedEvents < length bs")
    case True
    then have "trim_blocked bs = drop (length (tl bs) - maxBlockedEvents) (tl bs)" using 1 by (subst trim_blocked.simps) simp
    also have "\<dots> = drop (length bs - maxBlockedEvents) bs"
      using True by (cases bs) (auto simp: drop_Suc Suc_diff_le)
    finally show ?thesis .
  qed (simp add: trim_blocked.simps)
qed

definition proxy_ok :: "('c, 'h) net_env \<Rightarrow> NetworkProxyConstraints \<Rightarrow> ('c, 'h) NetworkProxyState \<Rightarrow> bool" where
  "proxy_ok ne con s \<longleftrightarrow>
     csConstraints (npState s) = con \<and>
     ValidatePolicyAgainstConstraints ne (csConfig (npState s)) con = None \<and>
     compiled_state (ne_go ne) (npState s) \<and>
     length (csBlocked (npState s)) \<le> maxBlockedEvents"

lemma BuildConfigState_ok:
  assumes "BuildConfigState ne config con = Inr cs"
  shows "csConfig cs = config \<and> csConstraints cs = con \<and> compiled_state (ne_go ne) cs \<and> csBlocked cs = []"
  using assms by (auto simp: BuildConfigState_def compiled_state_def Let_def split: option.splits sum.splits)

lemma compiled_state_cong:
  "csConfig cs' = csConfig cs \<Longrightarrow> csAllowSet cs' = csAllowSet cs \<Longrightarrow> csDenySet cs' = csDenySet cs \<Longrightarrow>
   compiled_state env cs' = compiled_state env cs"
  by (simp add: compiled_state_def)

lemma updateDomainList_ok:
  assumes "proxy_ok ne con s" "updateDomainList ne host perm s = Inr s'"
  shows "proxy_ok ne con s'"
proof (cases "s' = s")
  case False
  with assms(2) obtain candidate newState where
    c: "ValidatePolicyAgainstConstraints ne candidate (csConstraints (npState s)) = None"
    and b: "BuildConfigState ne candidate (csConstraints (npState s)) = Inr newState"
    and s': "s' = s\<lparr>npState := newState\<lparr>csBlocked := csBlocked (npState s), csBlockedTotal := csBlockedTotal (npState s)\<rparr>\<rparr>"
    by (auto simp: updateDomainList_def Let_def split: option.splits sum.splits if_splits)
  then show ?thesis
    using assms(1) BuildConfigState_ok [OF b] by (auto simp: proxy_ok_def compiled_state_def)
qed (use assms in simp)

lemma domains_setMode:
  "AllowedDomains (n\<lparr>setMode := m\<rparr>) = AllowedDomains n" "DeniedDomains (n\<lparr>setMode := m\<rparr>) = DeniedDomains n"
  by (simp_all add: AllowedDomains_def DeniedDomains_def domainEntries_def)

lemma proxy_step_ok: "proxy_step ne s s' \<Longrightarrow> proxy_ok ne con s \<Longrightarrow> proxy_ok ne con s'"
proof (induction rule: proxy_step.induct)
  case (set_mode mode s s')
  let ?c = "csConfig (npState s)\<lparr>cfgNetwork := np_network s\<lparr>setMode := mode\<rparr>\<rparr>"
  have v: "ValidatePolicyAgainstConstraints ne ?c (csConstraints (npState s)) = None"
    using set_mode.hyps unfolding SetNetworkMode_def Let_def by (auto split: option.splits)
  have "s' = s\<lparr>npState := npState s\<lparr>csConfig := ?c\<rparr>\<rparr>"
    using set_mode.hyps unfolding SetNetworkMode_def Let_def v by (simp only: option.case sum.inject)
  note v this
  with set_mode.prems show ?case by (simp add: proxy_ok_def compiled_state_def domains_setMode)
next
  case (add_allowed host s s')
  then show ?case unfolding AddAllowedDomain_def using updateDomainList_ok by blast
next
  case (add_denied host s s')
  then show ?case unfolding AddDeniedDomain_def using updateDomainList_ok by blast
next
  case (record_blocked entry s s' sent)
  then show ?case
    by (auto simp: RecordBlocked_def Let_def proxy_ok_def compiled_state_def trim_blocked_drop)
qed (auto simp: DrainBlocked_def SetBlockedRequestObserver_def SetLookupFunc_def proxy_ok_def compiled_state_def)

text \<open>
  C39. The running proxy: starting from settings that respect the managed constraints and were compiled for
  them, every sequence of updates (mode, allowed and denied domains, blocked requests, drains, observers,
  resolvers) leads to a state whose constraints are unchanged and still respected, whose
  compiled sets belong to its settings, and which keeps at most 200 blocked requests.
\<close>

theorem proxy_state_invariant:
  assumes "BuildConfigState ne config con = Inr cs" and "ValidatePolicyAgainstConstraints ne config con = None"
    and "rtranclp (proxy_step ne) (NewNetworkProxyState lookup cs) s"
  shows "csConstraints (npState s) = con \<and>
     ValidatePolicyAgainstConstraints ne (csConfig (npState s)) con = None \<and>
     compiled_state (ne_go ne) (npState s) \<and> length (BlockedSnapshot s) \<le> 200"
proof -
  have "proxy_ok ne con (NewNetworkProxyState lookup cs)"
    using BuildConfigState_ok [OF assms(1)] assms(2) by (simp add: proxy_ok_def NewNetworkProxyState_def)
  with assms(3) have "proxy_ok ne con s"
    by (induction rule: rtranclp_induct) (blast intro: proxy_step_ok)+
  then show ?thesis by (simp add: proxy_ok_def BlockedSnapshot_def maxBlockedEvents_def)
qed

lemma sample_build:
  "BuildConfigState sample_net_env (allow_config [''api.example.com'']) managed_example =
   Inr \<lparr>csConfig = allow_config [''api.example.com''], csAllowSet = [''api.example.com''], csDenySet = [],
        csMitmEnabled = False, csMitmHooks = (\<lambda>_. None), csConstraints = managed_example, csBlocked = [], csBlockedTotal = 0\<rparr>"
proof -
  have p: "plain_domain (snd (domainExact, ''api.example.com''))" by (simp add: example_domain_plain)
  have c: "compileAllowlistGlobset posix_env [''api.example.com''] = Inr [''api.example.com'']"
    using expand_pattern_text(1) [OF p, of posix_env] expand_pattern_text(2) [OF p] plain_domain_props(1) [OF p, of posix_env]
    by (simp add: compileAllowlistGlobset_def compileGlobsetWithPolicy_def add_candidate_def)
  have d: "compileDenylistGlobset posix_env [] = Inr []"
    by (simp add: compileDenylistGlobset_def compileGlobsetWithPolicy_def)
  have e: "ne_go sample_net_env = posix_env" "ne_compile_hooks sample_net_env cfg = Inr (\<lambda>_. None)" for cfg
    by (simp_all add: sample_net_env_def)
  have f: "setMitm (cfgNetwork (allow_config ps)) = False" "AllowUnixSockets (cfgNetwork (allow_config ps)) = []" for ps
    by (simp_all add: allow_config_def DefaultNetworkProxySettings_def AllowUnixSockets_def)
  show ?thesis
    by (simp add: BuildConfigState_def Let_def allow_config_sel c d e f validateUnixSocketAllowlistPaths_def)
qed

theorem proxy_state_invariant_witness:
  "\<exists>cs. BuildConfigState sample_net_env (allow_config [''api.example.com'']) managed_example = Inr cs \<and>
     (\<forall>s. rtranclp (proxy_step sample_net_env) (NewNetworkProxyState (\<lambda>h port. Inr []) cs) s
        \<longrightarrow> csConstraints (npState s) = managed_example \<and> length (BlockedSnapshot s) \<le> 200)"
  using proxy_state_invariant [OF sample_build sample_validate] sample_build by blast

section \<open>Effect of updates\<close>

definition plain_text :: "string \<Rightarrow> bool" where
  "plain_text x \<longleftrightarrow> (\<exists>p. plain_domain (snd p) \<and> x = pattern_text p)"

definition plain_entries :: "('c, 'h) NetworkProxyState \<Rightarrow> bool" where
  "plain_entries s \<longleftrightarrow> (\<forall>e \<in> set (cloneDomains (np_network s)). plain_text (entryPattern e))"

lemma NormalizeHost_plain_text:
  assumes "plain_text x"
  shows "NormalizeHost env x = x"
proof -
  obtain p where p: "plain_domain (snd p)" "x = pattern_text p" using assms by (auto simp: plain_text_def)
  note q = plain_domain_props(4) [OF p(1)]
  have n: "CHR ''['' \<notin> set x" "CHR '':'' \<notin> set x" "CHR ''%'' \<notin> set x"
    using q [of "CHR ''[''"] q [of "CHR '':''"] q [of "CHR ''%''"] p(2) by (cases p rule: pattern_text.cases, simp_all)+
  then have "\<not> HasPrefix x ''[''" by (auto simp: HasPrefix_iff)
  moreover have "filter ((=) (CHR '':'')) x = []" using n(2) by (auto simp: filter_empty_conv)
  moreover have "normalizeIPLiteral x = Some x \<or> normalizeIPLiteral x = None"
    using n(3) by (simp add: normalizeIPLiteral_def scoped_literal_def Index_char_None)
  moreover have "x \<noteq> []" "last x \<noteq> CHR ''.''"
    using p by (cases p rule: pattern_text.cases; simp add: plain_domain_def)+
  then have "TrimRight x (CHR ''.'') = x" by (rule TrimRight_last)
  ultimately show ?thesis
    using TrimSpace_pattern_text [OF p(1)] ToLower_pattern_text [OF p(1), of env] p(2)
    by (auto simp: NormalizeHost_def normalizeDNSHostOrIPLiteral_def Let_def)
qed

lemma plain_domain_text: "plain_domain h \<Longrightarrow> plain_text h"
  unfolding plain_text_def by (rule exI [of _ "(domainExact, h)"]) simp

lemma plain_text_list: "\<forall>x \<in> set xs. plain_text x \<Longrightarrow> \<exists>ps. xs = map pattern_text ps \<and> (\<forall>p \<in> set ps. plain_domain (snd p))"
proof (induction xs)
  case (Cons x xs)
  then obtain ps p where "xs = map pattern_text ps" "\<forall>p \<in> set ps. plain_domain (snd p)" "plain_domain (snd p)" "x = pattern_text p"
    by (auto simp: plain_text_def)
  then show ?case by (intro exI [of _ "p # ps"]) simp
qed simp

lemma pattern_text_mem:
  "plain_domain (snd p) \<Longrightarrow> \<forall>q \<in> set ps. plain_domain (snd q) \<Longrightarrow> pattern_text p \<in> set (map pattern_text ps) \<longleftrightarrow> p \<in> set ps"
  using pattern_text_inj [of p] by fastforce

text \<open>The decision in terms of the lists of allowed and denied patterns.\<close>

definition covered :: "string list \<Rightarrow> string \<Rightarrow> bool" where
  "covered patterns h \<longleftrightarrow> (\<exists>p. plain_domain (snd p) \<and> pattern_text p \<in> set patterns \<and> h \<in> pattern_hosts p)"

lemma covered_map:
  assumes "\<forall>p \<in> set ps. plain_domain (snd p)"
  shows "covered (map pattern_text ps) h \<longleftrightarrow> (\<exists>p \<in> set ps. h \<in> pattern_hosts p)"
  using pattern_text_mem [OF _ assms] assms unfolding covered_def by blast

lemma hostBlocked_lists:
  assumes "compiled_state env (npState s)" "plain_entries s" "plain_domain h"
  shows "hostBlocked env s h port =
     (if covered (DeniedDomains (np_network s)) h then Some hostBlockDenied
      else if \<not> setAllowLocalBinding (np_network s) \<and>
              reaches_local (npLookup s) (h \<in> set (AllowedDomains (np_network s))) h port then Some hostBlockNotAllowedLocal
      else if covered (AllowedDomains (np_network s)) h then None
      else Some hostBlockNotAllowed)"
proof -
  have "plain_text x" if "x \<in> set (DeniedDomains (np_network s)) \<union> set (AllowedDomains (np_network s))" for x
    using that assms(2) by (auto simp: denied_iff allowed_iff entry_perms_def plain_entries_def)
  then obtain ds as where l: "DeniedDomains (np_network s) = map pattern_text ds" "\<forall>p \<in> set ds. plain_domain (snd p)"
    "AllowedDomains (np_network s) = map pattern_text as" "\<forall>p \<in> set as. plain_domain (snd p)"
    using plain_text_list by (metis UnI1 UnI2)
  have "h \<in> set (map pattern_text as) \<longleftrightarrow> (domainExact, h) \<in> set as"
    using pattern_text_mem [OF _ l(4), of "(domainExact, h)"] assms(3) by simp
  then show ?thesis
    using hostBlocked_plain [OF assms(1,3) l(3,4) l(1,2), of port] unfolding l(1,3) covered_map [OF l(2)] covered_map [OF l(4)]
    by simp
qed

lemma entry_perms_simps:
  "entry_perms (xs @ ys) p = entry_perms xs p \<union> entry_perms ys p"
  "entry_perms [e] p = (if entryPattern e = p then {entryPermission e} else {})"
  "entry_perms (filter (\<lambda>e. entryPattern e \<noteq> h) xs) p = (if p = h then {} else entry_perms xs p)"
  by (auto simp: entry_perms_def)

lemma cloneDomains_upsert:
  assumes "plain_entries s" "plain_domain h"
  shows "cloneDomains (WithUpsertDomainPermission env (np_network s) h perm) =
     filter (\<lambda>e. entryPattern e \<noteq> h) (cloneDomains (np_network s)) @ [\<lparr>entryPattern = h, entryPermission = perm\<rparr>]"
proof -
  have "NormalizeHost env (entryPattern e) = entryPattern e" if "e \<in> set (cloneDomains (np_network s))" for e
    using assms(1) that NormalizeHost_plain_text by (auto simp: plain_entries_def)
  then have "filter (\<lambda>e. NormalizeHost env (entryPattern e) \<noteq> NormalizeHost env h) (cloneDomains (np_network s)) =
      filter (\<lambda>e. entryPattern e \<noteq> h) (cloneDomains (np_network s))"
    using NormalizeHost_plain [OF assms(2), of env] by (intro filter_cong) auto
  then show ?thesis by (simp add: WithUpsertDomainPermission_def cloneDomains_def [of "_\<lparr>setDomains := _\<rparr>"])
qed

text \<open>The result of a successful update: either nothing was to do, or the entry of the host is replaced.\<close>

lemma updateDomainList_cases:
  assumes "updateDomainList ne h perm s = Inr s'" "plain_domain h" "perm \<noteq> DomainPermissionNone"
  shows "(s' = s \<and> containsNormalized (ne_go ne) (domainEntries (np_network s) perm) h \<and>
            (perm = DomainPermissionDeny \<longrightarrow> \<not> containsNormalized (ne_go ne) (AllowedDomains (np_network s)) h) \<and>
            (perm = DomainPermissionAllow \<longrightarrow> \<not> containsNormalized (ne_go ne) (DeniedDomains (np_network s)) h))
       \<or> (np_network s' = WithUpsertDomainPermission (ne_go ne) (np_network s) h perm \<and>
          compiled_state (ne_go ne) (npState s') \<and> npLookup s' = npLookup s)"
proof -
  have d: "(if perm = DomainPermissionDeny then DeniedDomains (np_network s) else AllowedDomains (np_network s)) =
      domainEntries (np_network s) perm"
    using assms(3) by (cases perm) (simp_all add: AllowedDomains_def DeniedDomains_def)
  show ?thesis
  proof (cases "containsNormalized (ne_go ne) (domainEntries (np_network s) perm) h \<and>
      \<not> containsNormalized (ne_go ne)
          (if perm = DomainPermissionDeny then AllowedDomains (np_network s) else DeniedDomains (np_network s)) h")
    case True
    then have "s' = s" using assms(1) unfolding updateDomainList_def Let_def plain_host(1) [OF assms(2)] d by simp
    with True show ?thesis by auto
  next
    case False
    let ?c = "csConfig (npState s)\<lparr>cfgNetwork := WithUpsertDomainPermission (ne_go ne) (np_network s) h perm\<rparr>"
    obtain cs where b: "BuildConfigState ne ?c (csConstraints (npState s)) = Inr cs"
      and s': "s' = s\<lparr>npState := cs\<lparr>csBlocked := csBlocked (npState s), csBlockedTotal := csBlockedTotal (npState s)\<rparr>\<rparr>"
      using assms(1) False unfolding updateDomainList_def Let_def plain_host(1) [OF assms(2)] d
      by (auto split: option.splits sum.splits if_splits)
    show ?thesis using BuildConfigState_ok [OF b] by (auto simp: s' compiled_state_def)
  qed
qed

lemma updateDomainList_domains:
  assumes "updateDomainList ne h perm s = Inr s'" "plain_entries s" "plain_domain h" "perm \<noteq> DomainPermissionNone"
    "compiled_state (ne_go ne) (npState s)"
  shows "set (DeniedDomains (np_network s')) - {h} = set (DeniedDomains (np_network s)) - {h}"
    and "set (AllowedDomains (np_network s')) - {h} = set (AllowedDomains (np_network s)) - {h}"
    and "h \<in> set (DeniedDomains (np_network s')) \<longleftrightarrow> perm = DomainPermissionDeny"
    and "h \<in> set (AllowedDomains (np_network s')) \<longleftrightarrow> perm = DomainPermissionAllow"
    and "plain_entries s'" "compiled_state (ne_go ne) (npState s')"
    and "setAllowLocalBinding (np_network s') = setAllowLocalBinding (np_network s)" "npLookup s' = npLookup s"
proof -
  have n: "containsNormalized (ne_go ne) (domainEntries (np_network s) q) h \<longleftrightarrow> h \<in> set (domainEntries (np_network s) q)"
    if "q = DomainPermissionAllow \<or> q = DomainPermissionDeny" for q
  proof -
    have "NormalizeHost (ne_go ne) x = x" if "x \<in> set (domainEntries (np_network s) q)" for x
      using that \<open>q = _ \<or> q = _\<close> assms(2) NormalizeHost_plain_text denied_iff [of x "np_network s"] allowed_iff [of x "np_network s"]
      by (auto simp: entry_perms_def plain_entries_def AllowedDomains_def DeniedDomains_def)
    then show ?thesis by (auto simp: containsNormalized_def list_ex_iff)
  qed
  have up: "entry_perms (cloneDomains (WithUpsertDomainPermission (ne_go ne) (np_network s) h perm)) p =
      (if p = h then {perm} else entry_perms (cloneDomains (np_network s)) p)" for p
    unfolding cloneDomains_upsert [OF assms(2,3)] by (simp add: entry_perms_simps)
  note c = updateDomainList_cases [OF assms(1,3,4)]
  have perm: "perm = DomainPermissionAllow \<or> perm = DomainPermissionDeny" using assms(4) by (cases perm) auto
  have excl: "\<not> (h \<in> set (DeniedDomains (np_network s)) \<and> h \<in> set (AllowedDomains (np_network s)))"
    by (auto simp: denied_iff allowed_iff)
  have m: "(h \<in> set (DeniedDomains (np_network s)) \<longleftrightarrow> perm = DomainPermissionDeny) \<and>
      (h \<in> set (AllowedDomains (np_network s)) \<longleftrightarrow> perm = DomainPermissionAllow)"
    if "containsNormalized (ne_go ne) (domainEntries (np_network s) perm) h"
    using that n [OF perm] excl perm by (auto simp: AllowedDomains_def DeniedDomains_def)
  show "set (DeniedDomains (np_network s')) - {h} = set (DeniedDomains (np_network s)) - {h}"
    using c up by (auto simp: denied_iff)
  show "set (AllowedDomains (np_network s')) - {h} = set (AllowedDomains (np_network s)) - {h}"
    using c up by (auto simp: allowed_iff)
  show "h \<in> set (DeniedDomains (np_network s')) \<longleftrightarrow> perm = DomainPermissionDeny"
    using c up m by (auto simp: denied_iff)
  show "h \<in> set (AllowedDomains (np_network s')) \<longleftrightarrow> perm = DomainPermissionAllow"
    using c up m perm by (auto simp: allowed_iff)
  show "plain_entries s'"
    using c assms(2) plain_domain_text [OF assms(3)] cloneDomains_upsert [OF assms(2,3)] by (auto simp: plain_entries_def)
  show "compiled_state (ne_go ne) (npState s')" using c assms(5) by auto
  show "setAllowLocalBinding (np_network s') = setAllowLocalBinding (np_network s)" "npLookup s' = npLookup s"
    using c by (auto simp: WithUpsertDomainPermission_def)
qed

lemma covered_other:
  assumes "set A - {h} = set B - {h}" "plain_domain h" "h' \<noteq> h"
  shows "covered A h' \<longleftrightarrow> covered B h'"
proof -
  have "pattern_text p \<noteq> h" if "h' \<in> pattern_hosts p" "plain_domain (snd p)" for p
  proof
    assume "pattern_text p = h"
    then have "p = (domainExact, h)" using pattern_text_inj [of p "(domainExact, h)"] that(2) assms(2) by simp
    then show False using that(1) assms(3) by simp
  qed
  then show ?thesis using assms(1) unfolding covered_def by blast
qed

lemma covered_own: "plain_domain h \<Longrightarrow> h \<in> set xs \<Longrightarrow> covered xs h"
  unfolding covered_def by (rule exI [of _ "(domainExact, h)"]) simp

text \<open>
  C11. Updating the domain lists at run time with a plain name, one of lower-case letters, digits, hyphens, underscores
  and inner dots (no wildcard, no upper case, no address with a colon or a zone), in a state whose
  listed patterns are such names with an optional wildcard prefix: after the name was denied it is blocked by the deny
  list; after it was allowed it is never rejected as unlisted, and it is allowed if no remaining denied
  pattern covers it and it does not lead to a forbidden local address. The decision on every other plain name is
  unchanged. (For scoped addresses this fails: denying one also decides its zoned forms.)
\<close>

theorem domain_update_effect:
  assumes "compiled_state (ne_go ne) (npState s)" and "plain_entries s" and "plain_domain h"
    and "perm \<noteq> DomainPermissionNone" and "updateDomainList ne h perm s = Inr s'"
  shows "(perm = DomainPermissionDeny \<longrightarrow> hostBlocked (ne_go ne) s' h port = Some hostBlockDenied) \<and>
     (perm = DomainPermissionAllow \<longrightarrow> hostBlocked (ne_go ne) s' h port \<noteq> Some hostBlockNotAllowed \<and>
        (\<not> covered (DeniedDomains (np_network s')) h \<and>
         (setAllowLocalBinding (np_network s) \<or> \<not> reaches_local (npLookup s) True h port)
         \<longrightarrow> hostBlocked (ne_go ne) s' h port = None)) \<and>
     (\<forall>h'. plain_domain h' \<and> h' \<noteq> h \<longrightarrow> hostBlocked (ne_go ne) s' h' port = hostBlocked (ne_go ne) s h' port)"
proof (intro conjI impI allI)
  note u = updateDomainList_domains [OF assms(5,2,3,4,1)]
  note b = hostBlocked_lists [OF u(6,5) assms(3), of port]
  show "hostBlocked (ne_go ne) s' h port = Some hostBlockDenied" if "perm = DomainPermissionDeny"
    using that u(3) covered_own [OF assms(3)] by (simp add: b)
  assume "perm = DomainPermissionAllow"
  then have a: "h \<in> set (AllowedDomains (np_network s'))" using u(4) by simp
  then have c: "covered (AllowedDomains (np_network s')) h" by (rule covered_own [OF assms(3)])
  then show "hostBlocked (ne_go ne) s' h port \<noteq> Some hostBlockNotAllowed" by (simp add: b)
  assume "\<not> covered (DeniedDomains (np_network s')) h \<and>
         (setAllowLocalBinding (np_network s) \<or> \<not> reaches_local (npLookup s) True h port)"
  then show "hostBlocked (ne_go ne) s' h port = None" using a c by (auto simp: b u(7,8))
next
  note u = updateDomainList_domains [OF assms(5,2,3,4,1)]
  fix h' assume h': "plain_domain h' \<and> h' \<noteq> h"
  have "h' \<in> set (AllowedDomains (np_network s')) \<longleftrightarrow> h' \<in> set (AllowedDomains (np_network s))" using u(2) h' by blast
  then show "hostBlocked (ne_go ne) s' h' port = hostBlocked (ne_go ne) s h' port"
    using hostBlocked_lists [OF u(6,5), of h' port] hostBlocked_lists [OF assms(1,2), of h' port] h'
      covered_other [OF u(1) assms(3), of h'] covered_other [OF u(2) assms(3), of h'] u(7,8) by simp
qed

theorem domain_update_effect_witness:
  "\<exists>s'. updateDomainList sample_net_env ''example.com'' DomainPermissionDeny sample_proxy = Inr s' \<and>
     hostBlocked posix_env s' ''example.com'' 443 = Some hostBlockDenied \<and>
     hostBlocked posix_env s' ''api.example.com'' 443 = hostBlocked posix_env sample_proxy ''api.example.com'' 443"
proof -
  have e: "ne_go sample_net_env = posix_env" by (simp add: sample_net_env_def)
  have net: "np_network sample_proxy = cfgNetwork (allow_config [''*.example.com''])" "csConstraints (npState sample_proxy) = no_constraints"
    by (simp_all add: sample_proxy_def NewNetworkProxyState_def)
  have pe: "plain_entries sample_proxy"
    using example_domain_plain(1)
    by (auto simp: plain_entries_def net cloneDomains_def allow_config_def plain_text_def
        intro!: exI [of _ domainSubdomainsOnly] exI [of _ "''example.com''"])
  let ?n = "WithUpsertDomainPermission posix_env (np_network sample_proxy) ''example.com'' DomainPermissionDeny"
  let ?c = "csConfig (npState sample_proxy)\<lparr>cfgNetwork := ?n\<rparr>"
  have "cloneDomains ?n = [\<lparr>entryPattern = ''*.example.com'', entryPermission = DomainPermissionAllow\<rparr>,
      \<lparr>entryPattern = ''example.com'', entryPermission = DomainPermissionDeny\<rparr>]"
    unfolding cloneDomains_upsert [OF pe example_domain_plain(1)] by (simp add: net cloneDomains_def allow_config_def)
  then have "setDomains ?n = Some [\<lparr>entryPattern = ''*.example.com'', entryPermission = DomainPermissionAllow\<rparr>,
      \<lparr>entryPattern = ''example.com'', entryPermission = DomainPermissionDeny\<rparr>]"
    by (simp add: cloneDomains_def split: option.splits)
  then have d: "DeniedDomains ?n = map pattern_text [(domainExact, ''example.com'')]"
    "AllowedDomains ?n = map pattern_text [(domainSubdomainsOnly, ''example.com'')]"
    by (simp_all add: DeniedDomains_def AllowedDomains_def domainEntries_def effectiveEntries_def)
  have pl: "\<forall>p \<in> set [(k, ''example.com'')]. plain_domain (snd p)" for k :: domainPatternKind
    by (simp add: example_domain_plain)
  have ng: "validateNonGlobalWildcardDomainPatterns posix_env f [''example.com''] = None" for f
    using plain_not_global [of "(domainExact, ''example.com'')" posix_env] example_domain_plain(1) by simp
  have "ValidatePolicyAgainstConstraints sample_net_env ?c no_constraints = None"
    using ng d by (simp add: ValidatePolicyAgainstConstraints_def Let_def first_error_None_iff refuse_def no_constraints_def
        unix_sockets_check_def allowAllUnixSockets_def e) (simp add: sample_net_env_def)
  moreover have "AllowUnixSockets ?n = []"
    by (simp add: net AllowUnixSockets_def WithUpsertDomainPermission_def allow_config_def DefaultNetworkProxySettings_def)
  then obtain cs where "BuildConfigState sample_net_env ?c no_constraints = Inr cs"
    using compiled_match [OF pl [of domainExact], of posix_env globalWildcardReject]
      compiled_match [OF pl [of domainSubdomainsOnly], of posix_env globalWildcardAllow] ng d
    by (auto simp: BuildConfigState_def Let_def e validateUnixSocketAllowlistPaths_def compileDenylistGlobset_def compileAllowlistGlobset_def)
      (simp add: sample_net_env_def)
  ultimately obtain s' where "updateDomainList sample_net_env ''example.com'' DomainPermissionDeny sample_proxy = Inr s'"
    using plain_host(1) [OF example_domain_plain(1), of posix_env]
    by (simp add: updateDomainList_def Let_def e net allow_config_sel containsNormalized_def)
  then show ?thesis
    using domain_update_effect [of sample_net_env sample_proxy "''example.com''" DomainPermissionDeny s' 443] pe
      sample_proxy_compiled example_domain_plain by (auto simp: e)
qed

end
