(* ===== verification/Sandbox_Paths.thy ===== *)
theory Sandbox_Paths
  imports Abs_Path "HOL-Library.Sublist"
begin

text \<open>
  Path helpers of the sandbox: \<open>src/internal/sandbox/pathutil.go\<close> on Unix, with \<open>firstComponent\<close> of
  policy\_resolve.go. What the operating system answers (working directory, environment, stat, symbolic
  links) is the record \<open>os_env\<close>. The lemmas read every helper on clean absolute paths as an operation on
  lists of segments.
\<close>

record os_env =
  os_home :: "string option"
  os_getwd :: "(string, string) result"
  os_TMPDIR :: string
  os_lstat :: "string \<Rightarrow> bool"
  os_evalSymlinks :: "string \<Rightarrow> string option"
  os_isDir :: "string \<Rightarrow> bool"
  os_isFile :: "string \<Rightarrow> bool"

section \<open>Operations\<close>

definition abs_of :: "os_env \<Rightarrow> string \<Rightarrow> string option" where
  "abs_of os p =
     (case FromAbsolutePath False (os_home os) (os_getwd os) p of Inr a \<Rightarrow> Some a | Inl _ \<Rightarrow> None)"

definition resolveCandidatePath :: "os_env \<Rightarrow> string \<Rightarrow> string \<Rightarrow> string option" where
  "resolveCandidatePath os target cwd =
     (if HasPrefix target ''/'' then abs_of os target
      else case abs_of os cwd of
          None \<Rightarrow> None
        | Some base \<Rightarrow> Some (AbsolutePathBuf_Join False (os_home os) base target))"

definition resolvePathAgainstBase :: "os_env \<Rightarrow> string \<Rightarrow> string \<Rightarrow> string" where
  "resolvePathAgainstBase os target base = ResolvePathAgainstBase False (os_home os) target base"

definition normalizeAbsolute :: "os_env \<Rightarrow> string \<Rightarrow> string" where
  "normalizeAbsolute os p = (case abs_of os p of Some a \<Rightarrow> a | None \<Rightarrow> p)"

definition pathStartsWith :: "string \<Rightarrow> string \<Rightarrow> bool" where
  "pathStartsWith child parent =
     (if parent = [] then False
      else if child = parent then True
      else if parent = ''/'' then HasPrefix child ''/''
      else HasPrefix child (parent @ ''/''))"

definition stripPrefixPath :: "string \<Rightarrow> string \<Rightarrow> string option" where
  "stripPrefixPath child parent =
     (if \<not> pathStartsWith child parent then None
      else if child = parent then Some []
      else if parent = ''/'' then Some (TrimPrefix child ''/'')
      else Some (TrimPrefix child (parent @ ''/'')))"

definition trim_slashes :: "string \<Rightarrow> string" where
  "trim_slashes p = rev (dropWhile (\<lambda>c. c = slash) (rev (dropWhile (\<lambda>c. c = slash) p)))"

definition componentCount :: "string \<Rightarrow> nat" where
  "componentCount p =
     (if p = [] then 0
      else (if HasPrefix p ''/'' then 1 else 0)
         + length (filter (\<lambda>part. part \<noteq> []) (split_on slash (trim_slashes p))))"

definition parentless :: "string \<Rightarrow> bool" where
  "parentless p \<longleftrightarrow>
     p = ''/'' \<or> (length p = 3 \<and> p ! 1 = CHR '':'' \<and> (p ! 2 = backslash \<or> p ! 2 = slash))"

definition filesystemRootForPath :: "os_env \<Rightarrow> string \<Rightarrow> string" where
  "filesystemRootForPath os p =
     (case abs_of os p of
        Some a \<Rightarrow> last (AbsolutePathBuf_Ancestors a)
      | None \<Rightarrow> if HasPrefix p ''/'' then ''/'' else p)"

text \<open>The map \<open>seen\<close> of the Go loop always holds exactly the elements of \<open>out\<close>.\<close>

fun dedup_loop :: "(string \<Rightarrow> string) \<Rightarrow> string list \<Rightarrow> string list \<Rightarrow> string list" where
  "dedup_loop key out [] = out"
| "dedup_loop key out (p # ps) =
     (if key p \<in> set out then dedup_loop key out ps else dedup_loop key (out @ [key p]) ps)"

definition try_ancestor :: "os_env \<Rightarrow> string \<Rightarrow> string \<Rightarrow> string option" where
  "try_ancestor os p ancestor =
     (if os_lstat os ancestor then
        (case os_evalSymlinks os ancestor of
           Some canonical \<Rightarrow> abs_of os (canonical @ TrimPrefix p ancestor)
         | None \<Rightarrow> None)
      else None)"

function effective_loop :: "os_env \<Rightarrow> string \<Rightarrow> string \<Rightarrow> string option" where
  "effective_loop os p ancestor =
     (case try_ancestor os p ancestor of
        Some r \<Rightarrow> Some r
      | None \<Rightarrow>
          if filepath_Dir ancestor = ancestor then None else effective_loop os p (filepath_Dir ancestor))"
  by pat_completeness auto
termination
  by (relation "measure (\<lambda>(os, p, a). dir_measure a)") (auto intro: filepath_Dir_decreases)

declare effective_loop.simps [simp del]

definition normalizeEffectiveAbsolutePath :: "os_env \<Rightarrow> string \<Rightarrow> string" where
  "normalizeEffectiveAbsolutePath os p =
     (case effective_loop os p p of Some r \<Rightarrow> r | None \<Rightarrow> normalizeAbsolute os p)"

definition dedupPaths :: "os_env \<Rightarrow> string list \<Rightarrow> string list" where
  "dedupPaths os paths = dedup_loop (normalizeEffectiveAbsolutePath os) [] paths"

definition dedupPathsNoNormalize :: "string list \<Rightarrow> string list" where
  "dedupPathsNoNormalize paths = dedup_loop (\<lambda>p. p) [] paths"

definition firstComponent :: "string \<Rightarrow> string" where
  "firstComponent rel = takeWhile (\<lambda>c. c \<noteq> slash) (TrimPrefix rel ''/'')"

section \<open>Segments\<close>

lemma join_slash_append: "xs \<noteq> [] \<Longrightarrow> ys \<noteq> [] \<Longrightarrow> join ''/'' (xs @ ys) = join ''/'' xs @ slash # join ''/'' ys"
proof (induction xs)
  case (Cons x xs)
  then show ?case by (cases xs) (auto simp: join_Cons)
qed simp

lemma clean_segs_no_slash: "list_all clean_seg segs \<Longrightarrow> \<forall>x \<in> set segs. slash \<notin> set x"
  by (auto simp: list_all_iff clean_seg_def)

lemma split_join_clean: "list_all clean_seg segs \<Longrightarrow> segs \<noteq> [] \<Longrightarrow> split_on slash (join ''/'' segs) = segs"
  using clean_segs_no_slash split_on_join by fastforce

lemma join_clean_not_Nil: "list_all clean_seg segs \<Longrightarrow> segs \<noteq> [] \<Longrightarrow> join ''/'' segs \<noteq> []"
proof (cases segs)
  case (Cons x xs)
  moreover assume "list_all clean_seg segs"
  ultimately have "x \<noteq> []" by (simp add: clean_seg_def)
  with Cons show ?thesis by (cases xs) auto
qed simp

lemma abs_path_inj: "list_all clean_seg a \<Longrightarrow> list_all clean_seg b \<Longrightarrow> abs_path a = abs_path b \<longleftrightarrow> a = b"
proof
  assume a: "list_all clean_seg a" "list_all clean_seg b" "abs_path a = abs_path b"
  then have "map normal_comp a = map normal_comp b" using parse_abs_path [of a] parse_abs_path [of b] by simp
  moreover have "inj normal_comp" by (simp add: inj_def)
  ultimately show "a = b" by (simp add: inj_map_eq_map)
qed simp

lemma abs_path_eq_root: "list_all clean_seg a \<Longrightarrow> abs_path a = ''/'' \<longleftrightarrow> a = []"
  using abs_path_inj [of a "[]"] by (simp add: abs_path_def)

lemma clean_seg_prefixD: "list_all clean_seg t \<Longrightarrow> prefix r t \<Longrightarrow> list_all clean_seg r"
  by (auto simp: prefix_def)

text \<open>Component-wise prefixes of paths are prefixes of segment lists.\<close>

lemma join_slash_prefix:
  assumes "list_all clean_seg t" "list_all clean_seg r" "r \<noteq> []"
  shows "HasPrefix (join ''/'' t) (join ''/'' r @ ''/'') \<longleftrightarrow> strict_prefix r t"
proof
  assume "HasPrefix (join ''/'' t) (join ''/'' r @ ''/'')"
  then obtain u where u: "join ''/'' t = join ''/'' r @ slash # u" by (auto simp: HasPrefix_iff)
  then have "t \<noteq> []" by auto
  with u assms have "t = r @ split_on slash u"
    using split_join_clean [of t] split_join_clean [of r] by (simp add: split_on_append)
  then show "strict_prefix r t" by (auto simp: strict_prefix_def prefix_def)
next
  assume "strict_prefix r t"
  then obtain u where "t = r @ u" "u \<noteq> []" by (auto simp: strict_prefix_def prefix_def)
  with assms show "HasPrefix (join ''/'' t) (join ''/'' r @ ''/'')"
    by (simp add: join_slash_append HasPrefix_iff)
qed

lemma pathStartsWith_abs:
  assumes "list_all clean_seg t" "list_all clean_seg r"
  shows "pathStartsWith (abs_path t) (abs_path r) \<longleftrightarrow> prefix r t"
proof (cases "r = []")
  case True
  then show ?thesis by (simp add: pathStartsWith_def abs_path_def HasPrefix_iff)
next
  case False
  have "HasPrefix (abs_path t) (abs_path r @ ''/'') \<longleftrightarrow> strict_prefix r t"
    using join_slash_prefix [OF assms False] by (simp add: abs_path_def HasPrefix_iff)
  with False assms abs_path_inj [OF assms] show ?thesis
    by (simp add: pathStartsWith_def abs_path_eq_root) (auto simp: strict_prefix_def abs_path_def)
qed

lemma stripPrefixPath_abs:
  assumes "list_all clean_seg t" "list_all clean_seg r"
  shows "stripPrefixPath (abs_path t) (abs_path r) =
    (if prefix r t then Some (join ''/'' (drop (length r) t)) else None)"
proof (cases "prefix r t")
  case True
  then obtain u where t: "t = r @ u" by (auto simp: prefix_def)
  consider "u = []" | "r = []" "u \<noteq> []" | "r \<noteq> []" "u \<noteq> []" by blast
  then show ?thesis
  proof cases
    case 1
    with t assms show ?thesis by (simp add: stripPrefixPath_def pathStartsWith_abs)
  next
    case 2
    have root: "abs_path [] = ''/''" and trim: "TrimPrefix (abs_path t) ''/'' = join ''/'' t"
      by (simp_all add: abs_path_def TrimPrefix_def)
    have starts: "pathStartsWith (abs_path t) ''/''" using pathStartsWith_abs [OF assms] 2 root by simp
    have "abs_path t \<noteq> ''/''" using assms 2 t by (simp add: abs_path_eq_root)
    with 2 root trim starts show ?thesis by (simp add: stripPrefixPath_def)
  next
    case 3
    have "abs_path (r @ u) = (abs_path r @ ''/'') @ join ''/'' u"
      using 3 by (simp add: abs_path_def join_slash_append)
    then have "TrimPrefix (abs_path t) (abs_path r @ ''/'') = join ''/'' u"
      using TrimPrefix_append [of "abs_path r @ ''/''"] t by metis
    with 3 t assms show ?thesis
      by (auto simp: stripPrefixPath_def pathStartsWith_abs abs_path_inj abs_path_eq_root)
  qed
qed (use assms in \<open>simp add: stripPrefixPath_def pathStartsWith_abs\<close>)

lemma firstComponent_join:
  assumes "list_all clean_seg segs"
  shows "firstComponent (join ''/'' segs) = (case segs of [] \<Rightarrow> [] | s # _ \<Rightarrow> s)"
proof (cases segs)
  case Nil
  then show ?thesis by (simp add: firstComponent_def TrimPrefix_def)
next
  case (Cons s ss)
  with assms obtain c cs where s: "s = c # cs" "c \<noteq> slash" "slash \<notin> set s"
    by (cases s) (auto simp: clean_seg_def)
  then have all: "\<forall>x \<in> set s. x \<noteq> slash" by auto
  then have tw: "takeWhile (\<lambda>c. c \<noteq> slash) s = s" "takeWhile (\<lambda>c. c \<noteq> slash) (s @ slash # u) = s" for u
    using takeWhile_append2 [of s "\<lambda>c. c \<noteq> slash" "slash # u"] by (simp_all add: takeWhile_eq_all_conv)
  have "TrimPrefix (join ''/'' segs) ''/'' = join ''/'' segs"
    using s Cons by (cases ss) (auto simp: TrimPrefix_def)
  with Cons tw show ?thesis by (cases ss) (simp_all add: firstComponent_def)
qed

lemma trim_slashes_abs:
  assumes "list_all clean_seg segs"
  shows "trim_slashes (abs_path segs) = join ''/'' segs"
proof (cases "segs = []")
  case False
  have "\<forall>x \<in> set segs. x \<noteq> [] \<and> slash \<notin> set x" using assms by (auto simp: list_all_iff clean_seg_def)
  with False have "join ''/'' segs \<noteq> [] \<and> last (join ''/'' segs) \<noteq> slash"
  proof (induction segs)
    case (Cons x xs)
    then have "x \<noteq> []" "slash \<notin> set x" by simp_all
    then have "last x \<noteq> slash" by (metis last_in_set)
    with Cons show ?case by (cases xs) (auto simp: join_Cons)
  qed simp
  then have "dropWhile (\<lambda>c. c = slash) (rev (join ''/'' segs)) = rev (join ''/'' segs)"
    by (cases "join ''/'' segs" rule: rev_cases) auto
  with dropWhile_join_slash [OF assms] show ?thesis by (simp add: trim_slashes_def abs_path_def)
qed (simp add: trim_slashes_def abs_path_def)

lemma componentCount_abs: "list_all clean_seg segs \<Longrightarrow> componentCount (abs_path segs) = Suc (length segs)"
proof -
  assume segs: "list_all clean_seg segs"
  have "HasPrefix (abs_path segs) ''/''" "abs_path segs \<noteq> []" by (simp_all add: abs_path_def HasPrefix_iff)
  then show ?thesis
    using split_on_join_slash [OF segs] by (simp add: componentCount_def trim_slashes_abs [OF segs])
qed

lemma clean_segments_abs: "list_all clean_seg segs \<Longrightarrow> clean_segments True (join ''/'' segs) = segs"
proof (cases "segs = []")
  case False
  assume segs: "list_all clean_seg segs"
  have "list_all clean_seg xs \<Longrightarrow> foldl (clean_step True) out xs = out @ xs" for out xs
    by (induction xs arbitrary: out) (auto simp: clean_step_def clean_seg_def)
  from this [OF segs, of "[]"] False segs show ?thesis by (simp add: clean_segments_def split_join_clean)
qed (simp add: clean_segments_def clean_step_def)

lemma path_Clean_abs: "list_all clean_seg segs \<Longrightarrow> path_Clean (abs_path segs) = abs_path segs"
  by (simp add: abs_path_def path_Clean_rooted clean_segments_abs)

lemma path_Join_abs:
  assumes "list_all clean_seg (r @ [name])"
  shows "path_Join [abs_path r, name] = abs_path (r @ [name])"
proof -
  have "abs_path r \<noteq> []" "name \<noteq> []" using assms by (auto simp: abs_path_def clean_seg_def)
  then have "path_Join [abs_path r, name] = path_Clean (abs_path r @ slash # name)"
    by (simp add: path_Join_def)
  also have "\<dots> = abs_path (r @ [name])"
  proof (cases "r = []")
    case True
    with assms show ?thesis
      using clean_segments_abs [of "[name]"]
      by (simp add: abs_path_def path_Clean_rooted clean_segments_slash)
  next
    case False
    then have "abs_path r @ slash # name = abs_path (r @ [name])"
      by (simp add: abs_path_def join_slash_append)
    with assms show ?thesis by (simp only: path_Clean_abs)
  qed
  finally show ?thesis .
qed

section \<open>Resolution\<close>

lemma abs_of_abs_path: "list_all clean_seg segs \<Longrightarrow> abs_of os (abs_path segs) = Some (abs_path segs)"
  by (simp add: abs_of_def FromAbsolutePath_def normalizePathForPlatform_def maybeExpandHomeDirectory_def
      abs_path_def [of segs] isAbsolute_def)
    (simp add: abs_path_def [symmetric] normalizePath_abs_path)

lemma abs_of_absolute: "isAbsolute False p \<Longrightarrow> \<exists>segs. list_all clean_seg segs \<and> abs_of os p = Some (abs_path segs)"
proof -
  assume p: "isAbsolute False p"
  then have "maybeExpandHomeDirectory False (os_home os) p = p"
    by (cases p) (auto simp: maybeExpandHomeDirectory_def isAbsolute_def)
  with p show ?thesis
    using normalizePath_clean_abs [OF p]
    by (auto simp: abs_of_def FromAbsolutePath_def normalizePathForPlatform_def clean_abs_def)
qed

lemma isAbsolute_HasPrefix: "isAbsolute False p \<longleftrightarrow> HasPrefix p ''/''"
  by (cases p) (auto simp: isAbsolute_def HasPrefix_iff)

lemma resolveCandidatePath_abs:
  "list_all clean_seg segs \<Longrightarrow> resolveCandidatePath os (abs_path segs) cwd = Some (abs_path segs)"
  by (simp add: resolveCandidatePath_def abs_of_abs_path isAbsolute_HasPrefix [symmetric])

lemma resolveCandidatePath_clean:
  assumes "isAbsolute False cwd"
  shows "\<exists>segs. list_all clean_seg segs \<and> resolveCandidatePath os target cwd = Some (abs_path segs)"
proof (cases "HasPrefix target ''/''")
  case True
  then show ?thesis using abs_of_absolute [of target os] by (simp add: resolveCandidatePath_def isAbsolute_HasPrefix)
next
  case False
  obtain base where base: "list_all clean_seg base" "abs_of os cwd = Some (abs_path base)"
    using abs_of_absolute [OF assms] by blast
  have "clean_abs (AbsolutePathBuf_Join False (os_home os) (abs_path base) target)"
    by (simp add: AbsolutePathBuf_Join_def ResolvePathAgainstBase_def normalizePathForPlatform_def absolutizeFrom_def
        normalizePath_clean_abs pathWithBase_absolute)
  with False base show ?thesis by (auto simp: resolveCandidatePath_def clean_abs_def)
qed

lemma filesystemRootForPath_abs: "list_all clean_seg segs \<Longrightarrow> filesystemRootForPath os (abs_path segs) = ''/''"
  by (simp add: filesystemRootForPath_def abs_of_abs_path last_Ancestors)

lemma filepath_Dir_abs:
  assumes "list_all clean_seg (segs @ [s])"
  shows "filepath_Dir (abs_path (segs @ [s])) = abs_path segs"
proof -
  have s: "\<forall>x \<in> set (rev s). x \<noteq> slash" using assms by (auto simp: clean_seg_def)
  obtain p where p: "abs_path (segs @ [s]) = p @ slash # s" "p @ ''/'' = ''/'' \<and> segs = [] \<or> p = abs_path segs \<and> segs \<noteq> []"
    by (cases "segs = []") (auto simp: abs_path_def join_slash_append)
  have "rev (dropWhile (\<lambda>c. c \<noteq> slash) (rev (p @ slash # s))) = p @ ''/''"
    using dropWhile_append2 [of "rev s" "\<lambda>c. c \<noteq> slash" "slash # rev p"] s by simp
  then have "filepath_Dir (abs_path (segs @ [s])) = path_Clean (p @ ''/'')"
    by (simp only: filepath_Dir_def p(1))
  also have "\<dots> = abs_path segs"
    using p(2) assms path_Clean_abs [of segs] clean_segments_trailing_slash [of True "join ''/'' segs"]
      clean_segments_abs [of "[]"]
    by (auto simp: abs_path_def path_Clean_rooted clean_segments_abs)
  finally show ?thesis .
qed

text \<open>Without symbolic links the effective path of a clean absolute path is that path.\<close>

definition no_symlinks :: "os_env \<Rightarrow> bool" where
  "no_symlinks os \<longleftrightarrow> (\<forall>a. os_evalSymlinks os a \<in> {None, Some a})"

lemma try_ancestor_plain:
  assumes "no_symlinks os" and "list_all clean_seg p" and "prefix a p"
  shows "try_ancestor os (abs_path p) (abs_path a) \<in> {None, Some (abs_path p)}"
proof -
  have "abs_path a @ TrimPrefix (abs_path p) (abs_path a) = abs_path p"
  proof -
    from assms(3) obtain u where "p = a @ u" by (auto simp: prefix_def)
    then have "\<exists>v. abs_path p = abs_path a @ v"
      by (cases "a = []"; cases "u = []") (auto simp: abs_path_def join_slash_append)
    then show ?thesis by auto
  qed
  moreover have "os_evalSymlinks os (abs_path a) \<in> {None, Some (abs_path a)}"
    using assms(1) by (simp add: no_symlinks_def)
  ultimately show ?thesis using assms(2) by (auto simp: try_ancestor_def abs_of_abs_path)
qed

lemma effective_loop_plain:
  assumes "no_symlinks os" and "list_all clean_seg p" and "prefix a p"
  shows "effective_loop os (abs_path p) (abs_path a) \<in> {None, Some (abs_path p)}"
  using assms(3)
proof (induction a rule: rev_induct)
  case Nil
  have "filepath_Dir (abs_path []) = abs_path []" by (simp add: filepath_Dir_def abs_path_def path_Clean_def clean_segments_def clean_step_def)
  with try_ancestor_plain [OF assms(1,2) Nil] show ?case
    by (subst effective_loop.simps) auto
next
  case (snoc s a)
  then have pre: "prefix a p" and cl: "list_all clean_seg (a @ [s])"
    using assms(2) by (auto dest: append_prefixD clean_seg_prefixD)
  from try_ancestor_plain [OF assms(1,2) snoc.prems] snoc.IH [OF pre] show ?case
    by (subst effective_loop.simps) (auto simp: filepath_Dir_abs [OF cl])
qed

lemma normalizeEffective_abs:
  assumes "no_symlinks os" and "list_all clean_seg p"
  shows "normalizeEffectiveAbsolutePath os (abs_path p) = abs_path p"
  using effective_loop_plain [OF assms(1) assms(2), of p] assms(2)
  by (auto simp: normalizeEffectiveAbsolutePath_def normalizeAbsolute_def abs_of_abs_path)

lemma set_dedup_loop: "set (dedup_loop key out ps) = set out \<union> key ` set ps"
  by (induction key out ps rule: dedup_loop.induct) auto

lemma distinct_dedup_loop: "distinct out \<Longrightarrow> distinct (dedup_loop key out ps)"
  by (induction key out ps rule: dedup_loop.induct) auto

section \<open>The tree of paths\<close>

text \<open>
  What access decisions need of paths: being below a path is a partial order in which the paths above a
  given one form a chain, the depth is strictly monotone, and a named child lies directly below its parent.
\<close>

locale path_tree =
  fixes ok :: "'p \<Rightarrow> bool"
    and below :: "'p \<Rightarrow> 'p \<Rightarrow> bool"
    and depth :: "'p \<Rightarrow> nat"
    and child :: "'p \<Rightarrow> 'n \<Rightarrow> 'p"
    and name_ok :: "'n \<Rightarrow> bool"
  assumes below_refl: "ok a \<Longrightarrow> below a a"
    and below_trans: "ok a \<Longrightarrow> ok b \<Longrightarrow> ok c \<Longrightarrow> below a b \<Longrightarrow> below b c \<Longrightarrow> below a c"
    and below_chain: "ok t \<Longrightarrow> ok a \<Longrightarrow> ok b \<Longrightarrow> below t a \<Longrightarrow> below t b \<Longrightarrow> below a b \<or> below b a"
    and depth_mono: "ok a \<Longrightarrow> ok b \<Longrightarrow> below a b \<Longrightarrow> depth b \<le> depth a"
    and depth_inj: "ok a \<Longrightarrow> ok b \<Longrightarrow> below a b \<Longrightarrow> depth a \<le> depth b \<Longrightarrow> a = b"
    and ok_child: "ok a \<Longrightarrow> name_ok n \<Longrightarrow> ok (child a n)"
    and child_below: "ok a \<Longrightarrow> name_ok n \<Longrightarrow> below (child a n) a"
    and below_child: "ok a \<Longrightarrow> ok b \<Longrightarrow> name_ok n \<Longrightarrow> below (child a n) b \<Longrightarrow> b = child a n \<or> below a b"
begin

text \<open>The entry that decides: deepest, then highest in rank.\<close>

definition decides :: "('e \<Rightarrow> 'p) \<Rightarrow> ('e \<Rightarrow> nat) \<Rightarrow> 'e set \<Rightarrow> 'p \<Rightarrow> 'e \<Rightarrow> bool" where
  "decides path rank es t e \<longleftrightarrow>
     e \<in> es \<and> below t (path e) \<and>
     (\<forall>e' \<in> es. below t (path e') \<longrightarrow>
        depth (path e') < depth (path e) \<or> depth (path e') = depth (path e) \<and> rank e' \<le> rank e)"

lemma decides_above:
  assumes "decides path rank es t e" "e' \<in> es" "below t (path e')" "ok t" "\<forall>x \<in> es. ok (path x)"
  shows "below (path e) (path e')"
proof -
  have ok: "ok (path e)" "ok (path e')" and t: "below t (path e)" and d: "depth (path e') \<le> depth (path e)"
    using assms by (auto simp: decides_def)
  from below_chain [OF assms(4) ok t assms(3)] show ?thesis
    using depth_inj [OF ok(2) ok(1)] d below_refl [OF ok(1)] by (auto dest: depth_mono [OF ok(2) ok(1)])
qed

lemma decides_own_path:
  assumes "decides path rank es t e" "ok t" "\<forall>x \<in> es. ok (path x)"
  shows "decides path rank es (path e) e"
proof -
  have e: "e \<in> es" "below t (path e)" using assms by (auto simp: decides_def)
  have "below t (path e')" if "e' \<in> es" "below (path e) (path e')" for e'
    using that e assms below_trans by blast
  with assms e show ?thesis by (auto simp: decides_def below_refl)
qed

lemma decides_same_depth:
  assumes "decides path rank es t e" "decides path rank es t e'" "ok t" "\<forall>x \<in> es. ok (path x)"
  shows "path e = path e' \<and> rank e = rank e'"
proof -
  have in_es: "e \<in> es" "e' \<in> es" "below t (path e)" "below t (path e')" using assms by (auto simp: decides_def)
  have "depth (path e) = depth (path e')" "rank e = rank e'"
    using assms(1,2) in_es unfolding decides_def by force+
  moreover have "below (path e) (path e')" by (rule decides_above [OF assms(1) in_es(2,4) assms(3,4)])
  ultimately show ?thesis using depth_inj in_es assms(4) by auto
qed

end

definition segs_of :: "string \<Rightarrow> string list" where
  "segs_of p = map compText (tl (parseComponents False p))"

lemma segs_of_abs [simp]: "list_all clean_seg segs \<Longrightarrow> segs_of (abs_path segs) = segs"
  by (simp add: segs_of_def parse_abs_path comp_def)

lemma clean_abs_segs: "clean_abs p \<Longrightarrow> list_all clean_seg (segs_of p) \<and> abs_path (segs_of p) = p"
  by (auto simp: clean_abs_def)

lemma pathStartsWith_clean:
  "clean_abs p \<Longrightarrow> clean_abs q \<Longrightarrow> pathStartsWith p q \<longleftrightarrow> prefix (segs_of q) (segs_of p)"
  by (auto simp: clean_abs_def pathStartsWith_abs)

lemma componentCount_clean: "clean_abs p \<Longrightarrow> componentCount p = Suc (length (segs_of p))"
  by (auto simp: clean_abs_def componentCount_abs)

lemma segs_of_inj: "clean_abs p \<Longrightarrow> clean_abs q \<Longrightarrow> segs_of p = segs_of q \<longleftrightarrow> p = q"
  by (metis clean_abs_segs)

lemma path_Join_clean:
  assumes "clean_abs p" "clean_seg n"
  shows "clean_abs (path_Join [p, n])" "segs_of (path_Join [p, n]) = segs_of p @ [n]"
proof -
  from assms(1) obtain s where s: "list_all clean_seg s" "p = abs_path s" by (auto simp: clean_abs_def)
  with assms(2) have cl: "list_all clean_seg (s @ [n])" by simp
  then have "clean_abs (abs_path (s @ [n]))" unfolding clean_abs_def by blast
  with path_Join_abs [OF cl] s cl
  show "clean_abs (path_Join [p, n])" "segs_of (path_Join [p, n]) = segs_of p @ [n]" by simp_all
qed

interpretation paths: path_tree clean_abs pathStartsWith componentCount "\<lambda>p n. path_Join [p, n]" clean_seg
proof (unfold_locales, goal_cases)
  case 1
  then show ?case by (simp add: pathStartsWith_clean)
next
  case 2
  then show ?case by (auto simp: pathStartsWith_clean intro: prefix_order.trans)
next
  case 3
  then show ?case by (auto simp: pathStartsWith_clean dest: prefix_same_cases)
next
  case 4
  then show ?case by (auto simp: pathStartsWith_clean componentCount_clean dest: prefix_length_le)
next
  case 5
  then show ?case
    by (auto simp: pathStartsWith_clean componentCount_clean segs_of_inj [symmetric] prefix_def)
next
  case 6
  then show ?case by (simp add: path_Join_clean)
next
  case 7
  then show ?case by (simp add: pathStartsWith_clean path_Join_clean)
next
  case 8
  then show ?case by (auto simp: pathStartsWith_clean path_Join_clean segs_of_inj [symmetric])
qed

end
