(* ===== verification/Sandbox_Policy.thy ===== *)
theory Sandbox_Policy
  imports Perm_Types Sandbox_Paths "HOL-Library.List_Lexorder" "HOL-Library.Char_ord"
begin

text \<open>
  Resolution of file system policies: \<open>src/internal/sandbox/policy_resolve.go\<close> on Unix. Which entries
  grant or deny access to a path, which roots the platform sandbox makes writable, and the
  projection to the legacy policy. \<open>os.Getenv\<close>, \<open>os.Stat\<close> and the path functions consult \<open>os_env\<close>.
\<close>

section \<open>Whole-disk predicates\<close>

definition protectedMetadataPathNames :: "string list" where
  "protectedMetadataPathNames = [''.git'', ''.agents'', ''.codexgo'']"

record resolvedEntry =
  re_path :: string
  re_access :: FileSystemAccessMode

definition special_kind :: "FileSystemPath \<Rightarrow> FileSystemSpecialPathKind option" where
  "special_kind p = (if fp_Type p = PtSpecial then map_option sp_Kind (fp_Special p) else None)"

definition fsHasRootAccess :: "FileSystemSandboxPolicy \<Rightarrow> (FileSystemAccessMode \<Rightarrow> bool) \<Rightarrow> bool" where
  "fsHasRootAccess p predicate =
     (if pol_Kind p \<noteq> KindRestricted then False
      else list_ex (\<lambda>e. special_kind (se_Path e) = Some SpRoot \<and> predicate (se_Access e)) (pol_Entries p))"

definition fsHasDeniedReadRestrictions :: "FileSystemSandboxPolicy \<Rightarrow> bool" where
  "fsHasDeniedReadRestrictions p =
     (if pol_Kind p \<noteq> KindRestricted then False
      else list_ex (\<lambda>e. se_Access e = ModeDeny) (pol_Entries p))"

definition fsHasFullDiskReadAccess :: "FileSystemSandboxPolicy \<Rightarrow> bool" where
  "fsHasFullDiskReadAccess p =
     (case pol_Kind p of
        KindUnrestricted \<Rightarrow> True
      | KindExternalSandbox \<Rightarrow> True
      | _ \<Rightarrow> fsHasRootAccess p CanRead \<and> \<not> fsHasDeniedReadRestrictions p)"

definition fsIncludePlatformDefaults :: "FileSystemSandboxPolicy \<Rightarrow> bool" where
  "fsIncludePlatformDefaults p =
     (if fsHasFullDiskReadAccess p \<or> pol_Kind p \<noteq> KindRestricted then False
      else list_ex (\<lambda>e. special_kind (se_Path e) = Some SpMinimal \<and> CanRead (se_Access e)) (pol_Entries p))"

definition accessRank :: "FileSystemAccessMode \<Rightarrow> nat" where
  "accessRank a = (case a of ModeRead \<Rightarrow> 0 | ModeWrite \<Rightarrow> 1 | _ \<Rightarrow> 2)"

definition accessGreater :: "FileSystemAccessMode \<Rightarrow> FileSystemAccessMode \<Rightarrow> bool" where
  "accessGreater a b \<longleftrightarrow> accessRank a > accessRank b"

definition specialPathsShareTarget :: "FileSystemSpecialPath option \<Rightarrow> FileSystemSpecialPath option \<Rightarrow> bool" where
  "specialPathsShareTarget left right =
     (case (left, right) of
        (Some l, Some r) \<Rightarrow>
          if sp_Kind l \<noteq> sp_Kind r then False
          else (case sp_Kind l of
              SpProjectRoots \<Rightarrow> sp_Subpath l = sp_Subpath r
            | SpUnknown \<Rightarrow> sp_Path l = sp_Path r \<and> sp_Subpath l = sp_Subpath r
            | SpOther _ \<Rightarrow> False
            | _ \<Rightarrow> True)
      | _ \<Rightarrow> False)"

definition specialMatchesAbsolutePath :: "FileSystemSpecialPath option \<Rightarrow> string \<Rightarrow> bool" where
  "specialMatchesAbsolutePath value' target =
     (case value' of
        None \<Rightarrow> False
      | Some s \<Rightarrow>
          (case sp_Kind s of
             SpRoot \<Rightarrow> parentless target
           | SpSlashTmp \<Rightarrow> target = ''/tmp''
           | _ \<Rightarrow> False))"

definition pathsShareTarget :: "FileSystemPath \<Rightarrow> FileSystemPath \<Rightarrow> bool" where
  "pathsShareTarget left right =
     (case (fp_Type left, fp_Type right) of
        (PtPath, PtPath) \<Rightarrow> fp_Path left = fp_Path right
      | (PtSpecial, PtSpecial) \<Rightarrow> specialPathsShareTarget (fp_Special left) (fp_Special right)
      | (PtPath, PtSpecial) \<Rightarrow> specialMatchesAbsolutePath (fp_Special right) (fp_Path left)
      | (PtSpecial, PtPath) \<Rightarrow> specialMatchesAbsolutePath (fp_Special left) (fp_Path right)
      | (PtGlobPattern, PtGlobPattern) \<Rightarrow> fp_Pattern left = fp_Pattern right
      | _ \<Rightarrow> False)"

definition fsHasSameTargetWriteOverride :: "FileSystemSandboxPolicy \<Rightarrow> FileSystemSandboxEntry \<Rightarrow> bool" where
  "fsHasSameTargetWriteOverride p entry \<longleftrightarrow>
     list_ex (\<lambda>c. CanWrite (se_Access c) \<and> accessGreater (se_Access c) (se_Access entry)
                \<and> pathsShareTarget (se_Path c) (se_Path entry)) (pol_Entries p)"

definition entry_narrows :: "FileSystemSandboxPolicy \<Rightarrow> FileSystemSandboxEntry \<Rightarrow> bool" where
  "entry_narrows p entry =
     (if CanWrite (se_Access entry) then False
      else case fp_Type (se_Path entry) of
          PtPath \<Rightarrow> \<not> fsHasSameTargetWriteOverride p entry
        | PtGlobPattern \<Rightarrow> True
        | PtSpecial \<Rightarrow>
            (case fp_Special (se_Path entry) of
               None \<Rightarrow> False
             | Some s \<Rightarrow>
                 (case sp_Kind s of
                    SpRoot \<Rightarrow> se_Access entry = ModeDeny
                  | SpMinimal \<Rightarrow> False
                  | SpUnknown \<Rightarrow> False
                  | _ \<Rightarrow> \<not> fsHasSameTargetWriteOverride p entry))
        | PtOther _ \<Rightarrow> False)"

definition fsHasWriteNarrowingEntries :: "FileSystemSandboxPolicy \<Rightarrow> bool" where
  "fsHasWriteNarrowingEntries p =
     (if pol_Kind p \<noteq> KindRestricted then False else list_ex (entry_narrows p) (pol_Entries p))"

definition fsHasFullDiskWriteAccess :: "FileSystemSandboxPolicy \<Rightarrow> bool" where
  "fsHasFullDiskWriteAccess p =
     (case pol_Kind p of
        KindUnrestricted \<Rightarrow> True
      | KindExternalSandbox \<Rightarrow> True
      | _ \<Rightarrow> fsHasRootAccess p CanWrite \<and> \<not> fsHasWriteNarrowingEntries p)"

section \<open>Resolved entries\<close>

definition resolveSpecialPath :: "os_env \<Rightarrow> FileSystemSpecialPath \<Rightarrow> string option \<Rightarrow> string option" where
  "resolveSpecialPath os s cwdAbs =
     (case sp_Kind s of
        SpProjectRoots \<Rightarrow>
          (case cwdAbs of
             None \<Rightarrow> None
           | Some cwd \<Rightarrow>
               (case sp_Subpath s of
                  Some sub \<Rightarrow> Some (resolvePathAgainstBase os sub cwd)
                | None \<Rightarrow> Some cwd))
      | SpTmpdir \<Rightarrow> if os_TMPDIR os = [] then None else Some (normalizeAbsolute os (os_TMPDIR os))
      | SpSlashTmp \<Rightarrow> if os_isDir os ''/tmp'' then Some ''/tmp'' else None
      | _ \<Rightarrow> None)"

definition resolveFileSystemPath :: "os_env \<Rightarrow> FileSystemPath \<Rightarrow> string option \<Rightarrow> string option" where
  "resolveFileSystemPath os p cwdAbs =
     (case fp_Type p of
        PtPath \<Rightarrow> Some (fp_Path p)
      | PtSpecial \<Rightarrow>
          (case fp_Special p of None \<Rightarrow> None | Some s \<Rightarrow> resolveSpecialPath os s cwdAbs)
      | _ \<Rightarrow> None)"

definition resolveEntryPath :: "os_env \<Rightarrow> FileSystemPath \<Rightarrow> string option \<Rightarrow> string option" where
  "resolveEntryPath os p cwdAbs =
     (if special_kind p = Some SpRoot then map_option (filesystemRootForPath os) cwdAbs
      else resolveFileSystemPath os p cwdAbs)"

definition resolve_entry :: "os_env \<Rightarrow> string option \<Rightarrow> FileSystemSandboxEntry \<Rightarrow> resolvedEntry option" where
  "resolve_entry os cwdAbs entry =
     map_option (\<lambda>path. \<lparr>re_path = path, re_access = se_Access entry\<rparr>) (resolveEntryPath os (se_Path entry) cwdAbs)"

definition resolvedEntriesWithCwd :: "os_env \<Rightarrow> FileSystemSandboxPolicy \<Rightarrow> string \<Rightarrow> resolvedEntry list" where
  "resolvedEntriesWithCwd os p cwd =
     List.map_filter (resolve_entry os (resolveCandidatePath os cwd cwd)) (pol_Entries p)"

section \<open>Access decisions\<close>

fun best_loop :: "string \<Rightarrow> (resolvedEntry \<times> nat) option \<Rightarrow> resolvedEntry list \<Rightarrow> (resolvedEntry \<times> nat) option" where
  "best_loop resolved best [] = best"
| "best_loop resolved best (entry # rest) =
     (if \<not> pathStartsWith resolved (re_path entry) then best_loop resolved best rest
      else
        let spec = componentCount (re_path entry) in
        best_loop resolved
          (case best of
             None \<Rightarrow> Some (entry, spec)
           | Some (b, bestSpec) \<Rightarrow>
               if spec > bestSpec \<or> (spec = bestSpec \<and> accessGreater (re_access entry) (re_access b))
               then Some (entry, spec) else best)
          rest)"

definition resolveAccessWithCwd ::
  "os_env \<Rightarrow> FileSystemSandboxPolicy \<Rightarrow> string \<Rightarrow> string \<Rightarrow> FileSystemAccessMode" where
  "resolveAccessWithCwd os p target cwd =
     (if pol_Kind p = KindUnrestricted \<or> pol_Kind p = KindExternalSandbox then ModeWrite
      else case resolveCandidatePath os target cwd of
          None \<Rightarrow> ModeDeny
        | Some resolved \<Rightarrow>
            (case best_loop resolved None (resolvedEntriesWithCwd os p cwd) of
               None \<Rightarrow> ModeDeny
             | Some (best, _) \<Rightarrow> re_access best))"

definition canReadPathWithCwd :: "os_env \<Rightarrow> FileSystemSandboxPolicy \<Rightarrow> string \<Rightarrow> string \<Rightarrow> bool" where
  "canReadPathWithCwd os p target cwd \<longleftrightarrow> CanRead (resolveAccessWithCwd os p target cwd)"

definition metadataPathName :: "string \<Rightarrow> string" where
  "metadataPathName component' =
     (case find (\<lambda>name. component' = name) protectedMetadataPathNames of Some name \<Rightarrow> name | None \<Rightarrow> [])"

definition metadata_child :: "string \<Rightarrow> resolvedEntry \<Rightarrow> (string \<times> string) option" where
  "metadata_child target entry =
     (if \<not> CanWrite (re_access entry) then None
      else case stripPrefixPath target (re_path entry) of
          None \<Rightarrow> None
        | Some rel \<Rightarrow>
            let first = firstComponent rel in
            if first = [] then None
            else let name = metadataPathName first in
              if name = [] then None else Some (path_Join [re_path entry, name], name))"

fun first_some :: "('a \<Rightarrow> 'b option) \<Rightarrow> 'a list \<Rightarrow> 'b option" where
  "first_some f [] = None"
| "first_some f (x # xs) = (case f x of Some y \<Rightarrow> Some y | None \<Rightarrow> first_some f xs)"

definition metadataChildOfWritableRoot ::
  "os_env \<Rightarrow> FileSystemSandboxPolicy \<Rightarrow> string \<Rightarrow> string \<Rightarrow> (string \<times> string) option" where
  "metadataChildOfWritableRoot os p target cwd =
     first_some (metadata_child target) (resolvedEntriesWithCwd os p cwd)"

definition hasExplicitWriteEntryForMetadataPath ::
  "os_env \<Rightarrow> FileSystemSandboxPolicy \<Rightarrow> string \<Rightarrow> string \<Rightarrow> string \<Rightarrow> bool" where
  "hasExplicitWriteEntryForMetadataPath os p protectedPath target cwd \<longleftrightarrow>
     list_ex (\<lambda>entry. CanWrite (re_access entry) \<and> pathStartsWith target (re_path entry)
                \<and> pathStartsWith (re_path entry) protectedPath) (resolvedEntriesWithCwd os p cwd)"

definition isMetadataWriteDenied :: "os_env \<Rightarrow> FileSystemSandboxPolicy \<Rightarrow> string \<Rightarrow> string \<Rightarrow> bool" where
  "isMetadataWriteDenied os p target cwd =
     (if pol_Kind p \<noteq> KindRestricted then False
      else case resolveCandidatePath os target cwd of
          None \<Rightarrow> True
        | Some resolvedTarget \<Rightarrow>
            (case metadataChildOfWritableRoot os p resolvedTarget cwd of
               None \<Rightarrow> False
             | Some (protectedPath, _) \<Rightarrow>
                 \<not> hasExplicitWriteEntryForMetadataPath os p protectedPath resolvedTarget cwd))"

definition canWritePathWithCwd :: "os_env \<Rightarrow> FileSystemSandboxPolicy \<Rightarrow> string \<Rightarrow> string \<Rightarrow> bool" where
  "canWritePathWithCwd os p target cwd =
     (if \<not> CanWrite (resolveAccessWithCwd os p target cwd) then False
      else if fsHasFullDiskWriteAccess p then True
      else \<not> isMetadataWriteDenied os p target cwd)"

section \<open>Roots for the platform sandbox\<close>

definition getReadableRootsWithCwd :: "os_env \<Rightarrow> FileSystemSandboxPolicy \<Rightarrow> string \<Rightarrow> string list" where
  "getReadableRootsWithCwd os p cwd =
     (if fsHasFullDiskReadAccess p then []
      else dedupPaths os
        (map re_path
          (filter (\<lambda>e. CanRead (re_access e) \<and> canReadPathWithCwd os p (re_path e) cwd)
            (resolvedEntriesWithCwd os p cwd))))"

definition protectedMetadataNamesForWritableRoot ::
  "os_env \<Rightarrow> FileSystemSandboxPolicy \<Rightarrow> string \<Rightarrow> string \<Rightarrow> string list" where
  "protectedMetadataNamesForWritableRoot os p root cwd =
     filter (\<lambda>name. \<not> canWritePathWithCwd os p (path_Join [root, name]) cwd) protectedMetadataPathNames"

definition defaultReadOnlySubpathsForWritableRoot :: "os_env \<Rightarrow> string \<Rightarrow> bool \<Rightarrow> string list" where
  "defaultReadOnlySubpathsForWritableRoot os root protectMissingDotCodex =
     (let topGit = path_Join [root, ''.git''];
          topAgents = path_Join [root, ''.agents''];
          topCodex = path_Join [root, ''.codexgo''] in
      dedupPathsNoNormalize
        ((if os_isDir os topGit \<or> os_isFile os topGit then [topGit] else [])
         @ (if os_isDir os topAgents then [topAgents] else [])
         @ (if protectMissingDotCodex \<or> os_isDir os topCodex then [topCodex] else [])))"

definition hasExplicitResolvedPathEntry :: "resolvedEntry list \<Rightarrow> string \<Rightarrow> bool" where
  "hasExplicitResolvedPathEntry entries target \<longleftrightarrow> list_ex (\<lambda>e. re_path e = target) entries"

definition writable_root ::
  "os_env \<Rightarrow> FileSystemSandboxPolicy \<Rightarrow> string \<Rightarrow> resolvedEntry list \<Rightarrow> string \<Rightarrow> WritableRoot" where
  "writable_root os p cwd resolvedEntries root =
     (let protectMissingDotCodex = (resolveCandidatePath os cwd cwd = Some root);
          defaults = filter (\<lambda>sub. \<not> hasExplicitResolvedPathEntry resolvedEntries sub)
            (defaultReadOnlySubpathsForWritableRoot os root protectMissingDotCodex);
          denied = filter (\<lambda>e. \<not> CanWrite (re_access e) \<and> \<not> canWritePathWithCwd os p (re_path e) cwd
              \<and> re_path e \<noteq> root \<and> pathStartsWith (re_path e) root) resolvedEntries in
      \<lparr>wr_Root = root,
       wr_ReadOnlySubpaths = dedupPathsNoNormalize (defaults @ map re_path denied),
       wr_ProtectedMetadataNames = protectedMetadataNamesForWritableRoot os p root cwd\<rparr>)"

definition getWritableRootsWithCwd :: "os_env \<Rightarrow> FileSystemSandboxPolicy \<Rightarrow> string \<Rightarrow> WritableRoot list" where
  "getWritableRootsWithCwd os p cwd =
     (if fsHasFullDiskWriteAccess p then []
      else
        let resolvedEntries = resolvedEntriesWithCwd os p cwd;
            writableEntries = map re_path
              (filter (\<lambda>e. CanWrite (re_access e) \<and> canWritePathWithCwd os p (re_path e) cwd) resolvedEntries) in
        map (writable_root os p cwd resolvedEntries) (dedupPaths os writableEntries))"

definition getUnreadableRootsWithCwd :: "os_env \<Rightarrow> FileSystemSandboxPolicy \<Rightarrow> string \<Rightarrow> string list" where
  "getUnreadableRootsWithCwd os p cwd =
     (if pol_Kind p \<noteq> KindRestricted then []
      else
        let rootPath' = map_option (filesystemRootForPath os) (resolveCandidatePath os cwd cwd) in
        dedupPaths os
          (map re_path
            (filter (\<lambda>e. re_access e = ModeDeny \<and> \<not> canReadPathWithCwd os p (re_path e) cwd
                \<and> rootPath' \<noteq> Some (re_path e))
              (resolvedEntriesWithCwd os p cwd))))"

fun dedup_sorted_loop :: "string option \<Rightarrow> string list \<Rightarrow> string list" where
  "dedup_sorted_loop last' [] = []"
| "dedup_sorted_loop last' (s # rest) =
     (if last' = Some s then dedup_sorted_loop last' rest else s # dedup_sorted_loop (Some s) rest)"

definition dedupSortedStrings :: "string list \<Rightarrow> string list" where
  "dedupSortedStrings xs = dedup_sorted_loop None xs"

definition getUnreadableGlobsWithCwd :: "os_env \<Rightarrow> FileSystemSandboxPolicy \<Rightarrow> string \<Rightarrow> string list" where
  "getUnreadableGlobsWithCwd os p cwd =
     (if pol_Kind p \<noteq> KindRestricted then []
      else dedupSortedStrings
        (sort (map (\<lambda>e. resolvePathAgainstBase os (fp_Pattern (se_Path e)) cwd)
          (filter (\<lambda>e. se_Access e = ModeDeny \<and> fp_Type (se_Path e) = PtGlobPattern) (pol_Entries p)))))"

section \<open>The legacy projection\<close>

datatype legacy_error = ErrLegacyWriteOutsideWorkspace

definition externalSandboxPolicy :: "NetworkSandboxPolicy \<Rightarrow> SandboxPolicy" where
  "externalSandboxPolicy network =
     (zero_SandboxPolicy ExternalSandbox)
       \<lparr>lp_NetworkAccess :=
          (if NetworkSandboxPolicy_IsEnabled network then NetworkAccessEnabled else NetworkAccessRestricted)\<rparr>"

record legacy_scan =
  ls_workspace :: bool
  ls_roots :: "string list"
  ls_tmpdir :: bool
  ls_slashTmp :: bool
  ls_rootWrite :: bool

definition legacy_entry_step :: "os_env \<Rightarrow> string option \<Rightarrow> legacy_scan \<Rightarrow> FileSystemSandboxEntry \<Rightarrow> legacy_scan" where
  "legacy_entry_step os cwdAbs st entry =
     (case fp_Type (se_Path entry) of
        PtPath \<Rightarrow>
          if CanWrite (se_Access entry) then
            (if cwdAbs = Some (fp_Path (se_Path entry)) then st\<lparr>ls_workspace := True\<rparr>
             else st\<lparr>ls_roots := ls_roots st @ [fp_Path (se_Path entry)]\<rparr>)
          else st
      | PtSpecial \<Rightarrow>
          (case fp_Special (se_Path entry) of
             None \<Rightarrow> st
           | Some s \<Rightarrow>
               (case sp_Kind s of
                  SpRoot \<Rightarrow> if se_Access entry = ModeWrite then st\<lparr>ls_rootWrite := True\<rparr> else st
                | SpProjectRoots \<Rightarrow>
                    if sp_Subpath s = None \<and> CanWrite (se_Access entry) then st\<lparr>ls_workspace := True\<rparr>
                    else (case resolveSpecialPath os s cwdAbs of
                        Some resolved \<Rightarrow>
                          if CanWrite (se_Access entry) then st\<lparr>ls_roots := ls_roots st @ [resolved]\<rparr> else st
                      | None \<Rightarrow> st)
                | SpTmpdir \<Rightarrow> if CanWrite (se_Access entry) then st\<lparr>ls_tmpdir := True\<rparr> else st
                | SpSlashTmp \<Rightarrow> if CanWrite (se_Access entry) then st\<lparr>ls_slashTmp := True\<rparr> else st
                | _ \<Rightarrow> st))
      | _ \<Rightarrow> st)"

definition toLegacySandboxPolicy ::
  "os_env \<Rightarrow> FileSystemSandboxPolicy \<Rightarrow> NetworkSandboxPolicy \<Rightarrow> string \<Rightarrow> (legacy_error, SandboxPolicy) result" where
  "toLegacySandboxPolicy os p network cwd =
     (let full = (if NetworkSandboxPolicy_IsEnabled network then Inr NewDangerFullAccessSandboxPolicy
                  else Inr (externalSandboxPolicy NetRestricted)) in
      case pol_Kind p of
        KindExternalSandbox \<Rightarrow> Inr (externalSandboxPolicy network)
      | KindUnrestricted \<Rightarrow> full
      | _ \<Rightarrow>
          let st = foldl (legacy_entry_step os (resolveCandidatePath os cwd cwd))
            \<lparr>ls_workspace = False, ls_roots = [], ls_tmpdir = False, ls_slashTmp = False, ls_rootWrite = False\<rparr>
            (pol_Entries p) in
          if fsHasFullDiskWriteAccess p then full
          else if ls_workspace st then
            Inr \<lparr>lp_Type = WorkspaceWrite, lp_NetworkAccessBool = NetworkSandboxPolicy_IsEnabled network,
                 lp_NetworkAccess = NetworkAccessOther [], lp_WritableRoots = dedupPathsNoNormalize (ls_roots st),
                 lp_ExcludeTmpdirEnvVar = (\<not> ls_tmpdir st), lp_ExcludeSlashTmp = (\<not> ls_slashTmp st)\<rparr>
          else if ls_rootWrite st \<or> ls_roots st \<noteq> [] \<or> ls_tmpdir st \<or> ls_slashTmp st then
            Inl ErrLegacyWriteOutsideWorkspace
          else Inr (NewReadOnlySandboxPolicy (NetworkSandboxPolicy_IsEnabled network)))"

end
