(* ===== verification/Sandbox_Access.thy ===== *)
theory Sandbox_Access
  imports Sandbox_Policy
begin

text \<open>
  Properties of policy resolution: the deepest covering entry decides, whatever the order of the entries;
  protected metadata directories stay read-only; and the writable roots handed to the platform sandbox
  describe the same writes as the check on a single path.
\<close>

section \<open>Which entry decides\<close>

definition entries_clean :: "os_env \<Rightarrow> FileSystemSandboxPolicy \<Rightarrow> string \<Rightarrow> bool" where
  "entries_clean os p cwd \<longleftrightarrow> list_all (\<lambda>e. clean_abs (re_path e)) (resolvedEntriesWithCwd os p cwd)"

abbreviation entry_rank :: "resolvedEntry \<Rightarrow> nat" where
  "entry_rank e \<equiv> accessRank (re_access e)"

abbreviation decides_in :: "resolvedEntry set \<Rightarrow> string \<Rightarrow> resolvedEntry \<Rightarrow> bool" where
  "decides_in es t e \<equiv> paths.decides re_path entry_rank es t e"

text \<open>The loop keeps a covering entry that is maximal so far.\<close>

definition best_so_far :: "string \<Rightarrow> resolvedEntry set \<Rightarrow> (resolvedEntry \<times> nat) option \<Rightarrow> bool" where
  "best_so_far t es best \<longleftrightarrow>
     (case best of None \<Rightarrow> \<forall>e \<in> es. \<not> pathStartsWith t (re_path e)
      | Some (b, n) \<Rightarrow> n = componentCount (re_path b) \<and> decides_in es t b)"

lemma best_loop_decides: "best_so_far t es best \<Longrightarrow> best_so_far t (es \<union> set rest) (best_loop t best rest)"
proof (induction t best rest arbitrary: es rule: best_loop.induct)
  case (2 t best entry rest)
  have un: "es \<union> set (entry # rest) = insert entry es \<union> set rest" by simp
  show ?case
  proof (cases "pathStartsWith t (re_path entry)")
    case False
    have "best_so_far t (insert entry es) best"
      using 2(3) False by (auto simp: best_so_far_def paths.decides_def split: option.splits)
    with 2(1) [OF False, of "insert entry es"] False show ?thesis unfolding un by simp
  next
    case True
    define best' where "best' = (case best of None \<Rightarrow> Some (entry, componentCount (re_path entry))
           | Some (b, bestSpec) \<Rightarrow>
               if componentCount (re_path entry) > bestSpec
                  \<or> (componentCount (re_path entry) = bestSpec \<and> accessGreater (re_access entry) (re_access b))
               then Some (entry, componentCount (re_path entry)) else best)"
    have "best_so_far t (insert entry es) best'"
    proof (cases best)
      case None
      with 2(3) True show ?thesis by (auto simp: best_so_far_def best'_def paths.decides_def)
    next
      case (Some x)
      with 2(3) obtain b where b: "best = Some (b, componentCount (re_path b))" "decides_in es t b"
        by (cases x) (auto simp: best_so_far_def)
      have better: "decides_in (insert entry es) t entry"
        if "componentCount (re_path entry) > componentCount (re_path b) \<or>
            componentCount (re_path entry) = componentCount (re_path b) \<and> entry_rank b < entry_rank entry"
        using that b(2) True unfolding paths.decides_def by fastforce
      have worse: "decides_in (insert entry es) t b"
        if "\<not> (componentCount (re_path entry) > componentCount (re_path b) \<or>
            componentCount (re_path entry) = componentCount (re_path b) \<and> entry_rank b < entry_rank entry)"
        using that b(2) unfolding paths.decides_def by fastforce
      show ?thesis using better worse b(1) by (auto simp: best_so_far_def best'_def accessGreater_def)
    qed
    with 2(2) [of "componentCount (re_path entry)" "insert entry es"] True show ?thesis
      unfolding un by (simp add: best'_def Let_def)
  qed
qed simp

lemma best_loop_start: "best_so_far t (set es) (best_loop t None es)"
  using best_loop_decides [of t "{}" None es] by (simp add: best_so_far_def)

lemma resolveAccess_None:
  assumes "pol_Kind p \<noteq> KindUnrestricted" "pol_Kind p \<noteq> KindExternalSandbox"
    and "resolveCandidatePath os target cwd = Some t"
    and "\<forall>e \<in> set (resolvedEntriesWithCwd os p cwd). \<not> pathStartsWith t (re_path e)"
  shows "resolveAccessWithCwd os p target cwd = ModeDeny"
  using best_loop_start [of t "resolvedEntriesWithCwd os p cwd"] assms
  by (auto simp: best_so_far_def resolveAccessWithCwd_def paths.decides_def split: option.splits)

lemma resolveAccess_Some:
  assumes "pol_Kind p \<noteq> KindUnrestricted" "pol_Kind p \<noteq> KindExternalSandbox"
    and "resolveCandidatePath os target cwd = Some t"
    and "e \<in> set (resolvedEntriesWithCwd os p cwd)" "pathStartsWith t (re_path e)"
  shows "\<exists>b. decides_in (set (resolvedEntriesWithCwd os p cwd)) t b \<and> resolveAccessWithCwd os p target cwd = re_access b"
  using best_loop_start [of t "resolvedEntriesWithCwd os p cwd"] assms
  by (auto simp: best_so_far_def resolveAccessWithCwd_def split: option.splits)

lemma accessRank_write: "accessRank m = 1 \<longleftrightarrow> CanWrite m"
  by (simp add: accessRank_def split: FileSystemAccessMode.split)




section \<open>Protected metadata\<close>

lemma metadata_names_clean [simp]: "n \<in> set protectedMetadataPathNames \<Longrightarrow> clean_seg n"
  by (auto simp: protectedMetadataPathNames_def clean_seg_def)

lemma metadataPathName_eq: "metadataPathName c = (if c \<in> set protectedMetadataPathNames then c else [])"
  by (auto simp: metadataPathName_def protectedMetadataPathNames_def)

lemma metadata_child_iff:
  assumes "clean_abs t" "clean_abs (re_path e)"
  shows "metadata_child t e = Some (pp, n) \<longleftrightarrow>
    CanWrite (re_access e) \<and> n \<in> set protectedMetadataPathNames \<and> pp = path_Join [re_path e, n] \<and> pathStartsWith t pp"
proof -
  obtain ts rs where ts: "list_all clean_seg ts" "t = abs_path ts" and rs: "list_all clean_seg rs" "re_path e = abs_path rs"
    using assms by (auto simp: clean_abs_def)
  have join: "pathStartsWith t (path_Join [re_path e, n]) \<longleftrightarrow> prefix (rs @ [n]) ts"
    if "n \<in> set protectedMetadataPathNames" for n
    using that assms path_Join_clean [of "re_path e" n] ts rs by (simp add: pathStartsWith_clean)
  show ?thesis
  proof (cases "prefix rs ts")
    case True
    then obtain u where u: "ts = rs @ u" by (auto simp: prefix_def)
    with ts have cu: "list_all clean_seg u" by simp
    have strip: "stripPrefixPath t (re_path e) = Some (join ''/'' u)"
      using stripPrefixPath_abs [OF ts(1) rs(1)] True u ts rs by simp
    have ne: "n \<noteq> []" if "n \<in> set protectedMetadataPathNames" for n
      using metadata_names_clean [OF that] by (simp add: clean_seg_def)
    show ?thesis
    proof (cases u)
      case Nil
      with strip join u firstComponent_join [of "[]"] show ?thesis by (auto simp: metadata_child_def)
    next
      case (Cons s us)
      with strip join u cu ne show ?thesis
        by (auto simp: metadata_child_def firstComponent_join metadataPathName_eq Let_def clean_seg_def)
    qed
  next
    case False
    then show ?thesis
      using stripPrefixPath_abs [OF ts(1) rs(1)] ts rs join by (auto simp: metadata_child_def dest: append_prefixD)
  qed
qed

lemma first_some_None_iff: "first_some f xs = None \<longleftrightarrow> (\<forall>x \<in> set xs. f x = None)"
  by (induction xs) (auto split: option.split)

lemma first_some_SomeD: "first_some f xs = Some y \<Longrightarrow> \<exists>x \<in> set xs. f x = Some y"
  by (induction xs) (auto split: option.splits)

text \<open>No write grant reaches into a metadata directory of a write grant.\<close>

definition no_metadata_grants :: "os_env \<Rightarrow> FileSystemSandboxPolicy \<Rightarrow> string \<Rightarrow> bool" where
  "no_metadata_grants os p cwd \<longleftrightarrow>
     list_all (\<lambda>r. list_all (\<lambda>e. list_all (\<lambda>n.
        CanWrite (re_access r) \<and> CanWrite (re_access e) \<longrightarrow>
        \<not> pathStartsWith (re_path e) (path_Join [re_path r, n]))
       protectedMetadataPathNames) (resolvedEntriesWithCwd os p cwd)) (resolvedEntriesWithCwd os p cwd)"

lemma isMetadataWriteDenied_iff:
  assumes "pol_Kind p = KindRestricted" "entries_clean os p cwd" "clean_abs t"
    and "resolveCandidatePath os target cwd = Some t" "no_metadata_grants os p cwd"
  shows "isMetadataWriteDenied os p target cwd \<longleftrightarrow>
    (\<exists>r \<in> set (resolvedEntriesWithCwd os p cwd). CanWrite (re_access r) \<and>
       (\<exists>n \<in> set protectedMetadataPathNames. pathStartsWith t (path_Join [re_path r, n])))"
    (is "_ \<longleftrightarrow> (\<exists>r \<in> ?R. ?md r)")
proof -
  have clean: "clean_abs (re_path e)" if "e \<in> ?R" for e using that assms(2) by (auto simp: entries_clean_def list_all_iff)
  have md: "?md r \<longleftrightarrow> metadata_child t r \<noteq> None" if "r \<in> ?R" for r
    using metadata_child_iff [OF assms(3) clean [OF that]] by auto
  show ?thesis
  proof (cases "metadataChildOfWritableRoot os p t cwd")
    case None
    then have "\<not> isMetadataWriteDenied os p target cwd" using assms(1,4) by (simp add: isMetadataWriteDenied_def)
    moreover have "\<not> ?md r" if "r \<in> ?R" for r
      using None md [OF that] that by (auto simp: metadataChildOfWritableRoot_def first_some_None_iff)
    ultimately show ?thesis by blast
  next
    case (Some pair)
    then obtain pp n where pair: "pair = (pp, n)" by (cases pair)
    with Some obtain r where r: "r \<in> ?R" "metadata_child t r = Some (pp, n)"
      by (auto simp: metadataChildOfWritableRoot_def dest: first_some_SomeD)
    then have pp: "CanWrite (re_access r)" "n \<in> set protectedMetadataPathNames" "pp = path_Join [re_path r, n]"
      using metadata_child_iff [OF assms(3) clean [OF r(1)]] by auto
    have "\<not> pathStartsWith (re_path e) pp" if "e \<in> ?R" "CanWrite (re_access e)" for e
      using assms(5) that r(1) pp unfolding no_metadata_grants_def list_all_iff by blast
    then have "\<not> hasExplicitWriteEntryForMetadataPath os p pp t cwd"
      by (auto simp: hasExplicitWriteEntryForMetadataPath_def list_ex_iff)
    then have "isMetadataWriteDenied os p target cwd"
      using Some assms(1,4) pair by (simp add: isMetadataWriteDenied_def)
    moreover have "?md r" using md [OF r(1)] r(2) by simp
    ultimately show ?thesis using r(1) by blast
  qed
qed


section \<open>Writable roots\<close>

text \<open>What a sandbox enforces for one writable root: everything below it but the carved-out paths.\<close>

definition root_allows :: "WritableRoot \<Rightarrow> string \<Rightarrow> bool" where
  "root_allows w t \<longleftrightarrow>
     pathStartsWith t (wr_Root w) \<and> list_all (\<lambda>s. \<not> pathStartsWith t s) (wr_ReadOnlySubpaths w) \<and>
     list_all (\<lambda>n. \<not> pathStartsWith t (path_Join [wr_Root w, n])) (wr_ProtectedMetadataNames w)"

text \<open>The roots are alternatives: the generated profile has one allow rule per root.\<close>

definition roots_allow :: "WritableRoot list \<Rightarrow> string \<Rightarrow> bool" where
  "roots_allow roots t \<longleftrightarrow> list_ex (\<lambda>w. root_allows w t) roots"

definition nested_roots :: "WritableRoot list \<Rightarrow> bool" where
  "nested_roots roots \<longleftrightarrow>
     list_ex (\<lambda>w. list_ex (\<lambda>w'. wr_Root w \<noteq> wr_Root w' \<and> pathStartsWith (wr_Root w) (wr_Root w')) roots) roots"

lemma default_read_only_names:
  "s \<in> set (defaultReadOnlySubpathsForWritableRoot os root b) \<Longrightarrow>
   \<exists>n \<in> set protectedMetadataPathNames. s = path_Join [root, n]"
  by (auto simp: defaultReadOnlySubpathsForWritableRoot_def dedupPathsNoNormalize_def set_dedup_loop
      protectedMetadataPathNames_def Let_def split: if_splits)

lemma set_read_only_subpaths:
  "set (wr_ReadOnlySubpaths (writable_root os p cwd es root)) =
     {s \<in> set (defaultReadOnlySubpathsForWritableRoot os root (resolveCandidatePath os cwd cwd = Some root)).
        \<not> hasExplicitResolvedPathEntry es s} \<union>
     re_path ` {e \<in> set es. \<not> CanWrite (re_access e) \<and> \<not> canWritePathWithCwd os p (re_path e) cwd
        \<and> re_path e \<noteq> root \<and> pathStartsWith (re_path e) root}"
  by (auto simp: writable_root_def dedupPathsNoNormalize_def set_dedup_loop Let_def)

definition plain_policy :: "os_env \<Rightarrow> FileSystemSandboxPolicy \<Rightarrow> string \<Rightarrow> bool" where
  "plain_policy os p cwd \<longleftrightarrow>
     pol_Kind p = KindRestricted \<and> entries_clean os p cwd \<and> no_metadata_grants os p cwd \<and>
     \<not> fsHasFullDiskWriteAccess p \<and> no_symlinks os"

definition in_metadata :: "os_env \<Rightarrow> FileSystemSandboxPolicy \<Rightarrow> string \<Rightarrow> string \<Rightarrow> bool" where
  "in_metadata os p cwd t \<longleftrightarrow>
     list_ex (\<lambda>r. CanWrite (re_access r) \<and>
        list_ex (\<lambda>n. pathStartsWith t (path_Join [re_path r, n])) protectedMetadataPathNames)
       (resolvedEntriesWithCwd os p cwd)"

abbreviation entry_set :: "os_env \<Rightarrow> FileSystemSandboxPolicy \<Rightarrow> string \<Rightarrow> resolvedEntry set" where
  "entry_set os p cwd \<equiv> set (resolvedEntriesWithCwd os p cwd)"

lemma entry_set_clean: "entries_clean os p cwd \<Longrightarrow> \<forall>x \<in> entry_set os p cwd. clean_abs (re_path x)"
  by (auto simp: entries_clean_def list_all_iff)

lemma plain_policyD:
  assumes "plain_policy os p cwd"
  shows "pol_Kind p = KindRestricted" "\<forall>x \<in> entry_set os p cwd. clean_abs (re_path x)" "entries_clean os p cwd"
    "no_metadata_grants os p cwd" "\<not> fsHasFullDiskWriteAccess p" "no_symlinks os"
  using assms entry_set_clean by (auto simp: plain_policy_def)

lemma resolveCandidatePath_self: "clean_abs t \<Longrightarrow> resolveCandidatePath os t cwd = Some t"
  by (auto simp: clean_abs_def resolveCandidatePath_abs)

lemma resolveAccess_write_iff:
  assumes "pol_Kind p = KindRestricted" "\<forall>x \<in> entry_set os p cwd. clean_abs (re_path x)" "clean_abs t"
    and "resolveCandidatePath os target cwd = Some t"
  shows "CanWrite (resolveAccessWithCwd os p target cwd) \<longleftrightarrow>
    (\<exists>b. decides_in (entry_set os p cwd) t b \<and> CanWrite (re_access b))"
proof (cases "\<exists>e \<in> entry_set os p cwd. pathStartsWith t (re_path e)")
  case True
  then obtain e where e: "e \<in> entry_set os p cwd" "pathStartsWith t (re_path e)" by blast
  obtain b where b: "decides_in (entry_set os p cwd) t b" "resolveAccessWithCwd os p target cwd = re_access b"
    using resolveAccess_Some [OF _ _ assms(4) e] assms(1) by auto
  have "CanWrite (re_access c) \<longleftrightarrow> CanWrite (re_access b)" if "decides_in (entry_set os p cwd) t c" for c
    using paths.decides_same_depth [OF that b(1) assms(3,2)] by (metis accessRank_write)
  with b show ?thesis by metis
next
  case False
  then have "resolveAccessWithCwd os p target cwd = ModeDeny"
    using resolveAccess_None [OF _ _ assms(4)] assms(1) by auto
  with False show ?thesis by (auto simp: paths.decides_def)
qed

lemma canWrite_iff:
  assumes "plain_policy os p cwd" "clean_abs t" "resolveCandidatePath os target cwd = Some t"
  shows "canWritePathWithCwd os p target cwd \<longleftrightarrow>
    (\<exists>b. decides_in (entry_set os p cwd) t b \<and> CanWrite (re_access b)) \<and> \<not> in_metadata os p cwd t"
proof -
  note P = plain_policyD [OF assms(1)]
  have "isMetadataWriteDenied os p target cwd \<longleftrightarrow> in_metadata os p cwd t"
    using isMetadataWriteDenied_iff [OF P(1,3) assms(2,3) P(4)]
    by (simp add: in_metadata_def list_ex_iff)
  then show ?thesis
    using resolveAccess_write_iff [OF P(1,2) assms(2,3)] P(5) by (simp add: canWritePathWithCwd_def)
qed

text \<open>A write grant is itself outside of all metadata directories, so it is a root if it decides its own path.\<close>

lemma grant_not_in_metadata:
  assumes "plain_policy os p cwd" "e \<in> entry_set os p cwd" "CanWrite (re_access e)"
  shows "\<not> in_metadata os p cwd (re_path e)"
  using plain_policyD(4) [OF assms(1)] assms(2,3)
  unfolding no_metadata_grants_def in_metadata_def list_all_iff list_ex_iff by blast

lemma deciding_grant_is_root:
  assumes "plain_policy os p cwd" "decides_in (entry_set os p cwd) t e" "CanWrite (re_access e)" "clean_abs t"
  shows "canWritePathWithCwd os p (re_path e) cwd"
proof -
  note P = plain_policyD [OF assms(1)]
  have e: "e \<in> entry_set os p cwd" using assms(2) by (simp add: paths.decides_def)
  with P(2) have ce: "clean_abs (re_path e)" by blast
  have "decides_in (entry_set os p cwd) (re_path e) e"
    by (rule paths.decides_own_path [OF assms(2,4) P(2)])
  then show ?thesis
    using canWrite_iff [OF assms(1) ce resolveCandidatePath_self [OF ce]] assms(3)
      grant_not_in_metadata [OF assms(1) e assms(3)] by blast
qed

lemma writable_roots_eq:
  assumes "plain_policy os p cwd"
  shows "set (getWritableRootsWithCwd os p cwd) =
    writable_root os p cwd (resolvedEntriesWithCwd os p cwd) `
      re_path ` {e \<in> entry_set os p cwd. CanWrite (re_access e) \<and> canWritePathWithCwd os p (re_path e) cwd}"
proof -
  note P = plain_policyD [OF assms]
  have "normalizeEffectiveAbsolutePath os (re_path e) = re_path e" if "e \<in> entry_set os p cwd" for e
    using that P(2,6) normalizeEffective_abs by (auto simp: clean_abs_def)
  then have "normalizeEffectiveAbsolutePath os ` re_path ` E = re_path ` E" if "E \<subseteq> entry_set os p cwd" for E
    using that by (auto simp: image_iff) (metis subsetD)
  then show ?thesis
    using P(5) by (simp add: getWritableRootsWithCwd_def Let_def dedupPaths_def set_dedup_loop)
qed

lemma wr_Root_writable_root [simp]: "wr_Root (writable_root os p cwd es root) = root"
  by (simp add: writable_root_def Let_def)

lemma protected_names_of_root:
  assumes "plain_policy os p cwd" "r \<in> entry_set os p cwd" "CanWrite (re_access r)"
  shows "wr_ProtectedMetadataNames (writable_root os p cwd es (re_path r)) = protectedMetadataPathNames"
proof -
  note P = plain_policyD [OF assms(1)]
  have "\<not> canWritePathWithCwd os p (path_Join [re_path r, n]) cwd" if n: "n \<in> set protectedMetadataPathNames" for n
  proof -
    have cj: "clean_abs (path_Join [re_path r, n])" using P(2) assms(2) n by (simp add: path_Join_clean)
    have "in_metadata os p cwd (path_Join [re_path r, n])"
      using assms(2,3) n paths.below_refl [OF cj] by (auto simp: in_metadata_def list_ex_iff)
    then show ?thesis using canWrite_iff [OF assms(1) cj resolveCandidatePath_self [OF cj]] by blast
  qed
  then show ?thesis by (simp add: writable_root_def Let_def protectedMetadataNamesForWritableRoot_def filter_id_conv)
qed

lemma write_check_to_root:
  assumes "plain_policy os p cwd" "clean_abs t" "resolveCandidatePath os target cwd = Some t"
    and "canWritePathWithCwd os p target cwd"
  shows "roots_allow (getWritableRootsWithCwd os p cwd) t"
proof -
  note P = plain_policyD [OF assms(1)]
  let ?es = "resolvedEntriesWithCwd os p cwd"
  obtain b where b: "decides_in (set ?es) t b" "CanWrite (re_access b)" and md: "\<not> in_metadata os p cwd t"
    using canWrite_iff [OF assms(1-3)] assms(4) by blast
  have bin: "b \<in> set ?es" "pathStartsWith t (re_path b)" using b(1) by (simp_all add: paths.decides_def)
  let ?w = "writable_root os p cwd ?es (re_path b)"
  have w: "?w \<in> set (getWritableRootsWithCwd os p cwd)"
    unfolding writable_roots_eq [OF assms(1)]
    using bin(1) b(2) deciding_grant_is_root [OF assms(1) b assms(2)] by blast
  have names: "\<not> pathStartsWith t (path_Join [re_path b, n])" if "n \<in> set protectedMetadataPathNames" for n
    using md that bin(1) b(2) by (auto simp: in_metadata_def list_ex_iff)
  have "\<not> pathStartsWith t s" if s: "s \<in> set (wr_ReadOnlySubpaths ?w)" for s
  proof -
    from s consider "s \<in> set (defaultReadOnlySubpathsForWritableRoot os (re_path b) (resolveCandidatePath os cwd cwd = Some (re_path b)))"
      | e where "e \<in> set ?es" "s = re_path e" "re_path e \<noteq> re_path b" "pathStartsWith (re_path e) (re_path b)"
      unfolding set_read_only_subpaths by blast
    then show ?thesis
    proof cases
      case 1
      then show ?thesis using names default_read_only_names by metis
    next
      case 2
      show ?thesis
      proof
        assume "pathStartsWith t s"
        with 2 have "pathStartsWith (re_path b) (re_path e)"
          using paths.decides_above [OF b(1) _ _ assms(2) P(2)] by simp
        with 2 P(2) bin(1) show False
          using paths.depth_inj [of "re_path e" "re_path b"] paths.depth_mono [of "re_path b" "re_path e"] by auto
      qed
    qed
  qed
  then have "root_allows ?w t"
    using bin(2) names protected_names_of_root [OF assms(1) bin(1) b(2)]
    by (simp add: root_allows_def list_all_iff)
  then show ?thesis using w unfolding roots_allow_def list_ex_iff by blast
qed

text \<open>A path whose deciding entry is a write grant lies in metadata only of that grant.\<close>

lemma metadata_of_deciding_grant:
  assumes "plain_policy os p cwd" "clean_abs t" "decides_in (entry_set os p cwd) t b" "CanWrite (re_access b)"
    and "in_metadata os p cwd t"
  shows "\<exists>n \<in> set protectedMetadataPathNames. pathStartsWith t (path_Join [re_path b, n])"
proof -
  note P = plain_policyD [OF assms(1)]
  have bin: "b \<in> entry_set os p cwd" "pathStartsWith t (re_path b)" using assms(3) by (simp_all add: paths.decides_def)
  obtain r n where r: "r \<in> entry_set os p cwd" "CanWrite (re_access r)" and n: "n \<in> set protectedMetadataPathNames"
    and tn: "pathStartsWith t (path_Join [re_path r, n])"
    using assms(5) by (auto simp: in_metadata_def list_ex_iff)
  have cr: "clean_abs (re_path r)" and cb: "clean_abs (re_path b)" and cj: "clean_abs (path_Join [re_path r, n])"
    using P(2) r(1) n bin(1) by (auto simp: path_Join_clean)
  have not_in: "\<not> pathStartsWith (re_path b) (path_Join [re_path r, n])"
    using grant_not_in_metadata [OF assms(1) bin(1) assms(4)] r n by (auto simp: in_metadata_def list_ex_iff)
  then have "pathStartsWith (path_Join [re_path r, n]) (re_path b)"
    using paths.below_chain [OF assms(2) cj cb tn bin(2)] by blast
  then have up: "pathStartsWith (re_path r) (re_path b)"
    using paths.below_child [OF cr cb metadata_names_clean [OF n]] not_in paths.below_refl [OF cj] by auto
  have "pathStartsWith t (re_path r)"
    using paths.below_trans [OF assms(2) cj cr tn] paths.child_below [OF cr metadata_names_clean [OF n]] by blast
  then have "pathStartsWith (re_path b) (re_path r)"
    using paths.decides_above [OF assms(3) r(1) _ assms(2) P(2)] by blast
  with up have "re_path b = re_path r" using paths.depth_inj [OF cb cr] paths.depth_mono [OF cr cb] by blast
  with tn n show ?thesis by auto
qed

lemma root_to_write_check:
  assumes "plain_policy os p cwd" "clean_abs t" "resolveCandidatePath os target cwd = Some t"
    and "roots_allow (getWritableRootsWithCwd os p cwd) t"
  shows "canWritePathWithCwd os p target cwd \<or>
    in_metadata os p cwd t \<and> nested_roots (getWritableRootsWithCwd os p cwd)"
proof -
  note P = plain_policyD [OF assms(1)]
  let ?es = "resolvedEntriesWithCwd os p cwd"
  obtain w where w: "w \<in> set (getWritableRootsWithCwd os p cwd)" "root_allows w t"
    using assms(4) unfolding roots_allow_def list_ex_iff by blast
  obtain r where r: "r \<in> set ?es" "CanWrite (re_access r)" "canWritePathWithCwd os p (re_path r) cwd"
    and wr: "w = writable_root os p cwd ?es (re_path r)"
    using w(1) unfolding writable_roots_eq [OF assms(1)] by blast
  have cov: "pathStartsWith t (re_path r)" using w(2) wr by (simp add: root_allows_def)
  obtain b where b: "decides_in (set ?es) t b"
    using resolveAccess_Some [OF _ _ resolveCandidatePath_self [OF assms(2)] r(1) cov] P(1) by auto
  have bin: "b \<in> set ?es" "pathStartsWith t (re_path b)" using b by (simp_all add: paths.decides_def)
  have cb: "clean_abs (re_path b)" "clean_abs (re_path r)" using P(2) bin(1) r(1) by auto
  have below: "pathStartsWith (re_path b) (re_path r)" by (rule paths.decides_above [OF b r(1) cov assms(2) P(2)])
  have write_b: "CanWrite (re_access b)"
  proof (rule ccontr)
    assume not_write: "\<not> CanWrite (re_access b)"
    have own: "decides_in (set ?es) (re_path b) b" by (rule paths.decides_own_path [OF b assms(2) P(2)])
    have "\<not> CanWrite (re_access c)" if "decides_in (set ?es) (re_path b) c" for c
      using paths.decides_same_depth [OF that own cb(1) P(2)] not_write by (metis accessRank_write)
    then have nb: "\<not> canWritePathWithCwd os p (re_path b) cwd"
      using canWrite_iff [OF assms(1) cb(1) resolveCandidatePath_self [OF cb(1)]] by blast
    with r(3) have "re_path b \<noteq> re_path r" by auto
    with bin(1) not_write nb below have "re_path b \<in> set (wr_ReadOnlySubpaths w)"
      unfolding wr set_read_only_subpaths by blast
    with w(2) bin(2) show False by (auto simp: root_allows_def list_all_iff)
  qed
  show ?thesis
  proof (cases "in_metadata os p cwd t")
    case True
    then obtain n where n: "n \<in> set protectedMetadataPathNames" "pathStartsWith t (path_Join [re_path b, n])"
      using metadata_of_deciding_grant [OF assms(1,2) b write_b] by blast
    have wb: "writable_root os p cwd ?es (re_path b) \<in> set (getWritableRootsWithCwd os p cwd)"
      unfolding writable_roots_eq [OF assms(1)]
      using bin(1) write_b deciding_grant_is_root [OF assms(1) b write_b assms(2)] by blast
    have "re_path b \<noteq> re_path r"
      using w(2) wr n protected_names_of_root [OF assms(1) r(1,2)] by (auto simp: root_allows_def list_all_iff)
    with below wb w(1) wr have "nested_roots (getWritableRootsWithCwd os p cwd)"
      unfolding nested_roots_def list_ex_iff by (metis wr_Root_writable_root)
    with True show ?thesis by simp
  next
    case False
    with b write_b show ?thesis using canWrite_iff [OF assms(1-3)] by blast
  qed
qed

text \<open>
  C15. The writable roots given to the platform sandbox, taken as alternatives the way the generated
  profile takes them, against the check of a single path. For a restricted policy without full-disk
  write access whose entries resolve to clean absolute paths, on a file system without symbolic links,
  where no write grant lies inside the metadata directory of another: a path may be written exactly if
  some root allows it (it is below the root but not below a read-only subpath or protected metadata
  name of the root) and it is not in the protected metadata of any write grant. If no root is nested
  in another, the second condition follows from the first, so the roots alone decide.
\<close>

theorem writable_roots_match_write_check:
  assumes "plain_policy os p cwd" and "isAbsolute False cwd"
    and "resolveCandidatePath os target cwd = Some t"
  shows "(canWritePathWithCwd os p target cwd \<longleftrightarrow>
          roots_allow (getWritableRootsWithCwd os p cwd) t \<and> \<not> in_metadata os p cwd t) \<and>
         (\<not> nested_roots (getWritableRootsWithCwd os p cwd) \<longrightarrow>
          canWritePathWithCwd os p target cwd = roots_allow (getWritableRootsWithCwd os p cwd) t)"
proof -
  have t: "clean_abs t"
    using resolveCandidatePath_clean [OF assms(2), of os target] assms(3) by (auto simp: clean_abs_def)
  have "canWritePathWithCwd os p target cwd \<Longrightarrow> \<not> in_metadata os p cwd t"
    using canWrite_iff [OF assms(1) t assms(3)] by blast
  then show ?thesis
    using write_check_to_root [OF assms(1) t assms(3)] root_to_write_check [OF assms(1) t assms(3)] by blast
qed

section \<open>Concrete policies\<close>

lemma clean_abs_code [code]: "clean_abs p \<longleftrightarrow> list_all clean_seg (segs_of p) \<and> abs_path (segs_of p) = p"
  using clean_abs_segs by (auto simp: clean_abs_def)

definition sample_os :: os_env where
  "sample_os = \<lparr>os_home = None, os_getwd = Inr ''/ws'', os_TMPDIR = [], os_lstat = (\<lambda>_. True),
     os_evalSymlinks = Some, os_isDir = (\<lambda>p. p = ''/ws/.git''), os_isFile = (\<lambda>_. False)\<rparr>"

definition sample_policy :: FileSystemSandboxPolicy where
  "sample_policy = \<lparr>pol_Kind = KindRestricted, pol_GlobScanMaxDepth = None, pol_Entries =
     [\<lparr>se_Path = NewFileSystemSpecialPath (special_of SpRoot), se_Access = ModeRead\<rparr>,
      path_entry ModeWrite ''/ws'', path_entry ModeRead ''/ws/ro'', path_entry ModeWrite ''/ws/sub'']\<rparr>"

lemma sample_plain: "plain_policy sample_os sample_policy ''/ws''"
proof -
  have "no_symlinks sample_os" by (simp add: no_symlinks_def sample_os_def)
  moreover have "entries_clean sample_os sample_policy ''/ws''" by code_simp
  moreover have "no_metadata_grants sample_os sample_policy ''/ws''" by code_simp
  moreover have "\<not> fsHasFullDiskWriteAccess sample_policy" by code_simp
  ultimately show ?thesis by (simp add: plain_policy_def sample_policy_def)
qed

text \<open>The same policy without the grant inside the workspace has no nested roots.\<close>

definition flat_policy :: FileSystemSandboxPolicy where
  "flat_policy = \<lparr>pol_Kind = KindRestricted, pol_GlobScanMaxDepth = None, pol_Entries =
     [\<lparr>se_Path = NewFileSystemSpecialPath (special_of SpRoot), se_Access = ModeRead\<rparr>,
      path_entry ModeWrite ''/ws'', path_entry ModeRead ''/ws/ro'', path_entry ModeWrite ''/data'']\<rparr>"

lemma flat_plain: "plain_policy sample_os flat_policy ''/ws''"
proof -
  have "no_symlinks sample_os" by (simp add: no_symlinks_def sample_os_def)
  moreover have "entries_clean sample_os flat_policy ''/ws''" by code_simp
  moreover have "no_metadata_grants sample_os flat_policy ''/ws''" by code_simp
  moreover have "\<not> fsHasFullDiskWriteAccess flat_policy" by code_simp
  ultimately show ?thesis by (simp add: plain_policy_def flat_policy_def)
qed

theorem writable_roots_match_write_check_witness:
  "canWritePathWithCwd sample_os sample_policy ''sub/x'' ''/ws'' \<and>
   roots_allow (getWritableRootsWithCwd sample_os sample_policy ''/ws'') ''/ws/sub/x'' \<and>
   \<not> canWritePathWithCwd sample_os flat_policy ''ro/x'' ''/ws'' \<and>
   \<not> roots_allow (getWritableRootsWithCwd sample_os flat_policy ''/ws'') ''/ws/ro/x''"
proof -
  have abs: "isAbsolute False ''/ws''" by code_simp
  have res: "resolveCandidatePath sample_os ''sub/x'' ''/ws'' = Some ''/ws/sub/x''"
    "resolveCandidatePath sample_os ''ro/x'' ''/ws'' = Some ''/ws/ro/x''" by code_simp+
  have "canWritePathWithCwd sample_os sample_policy ''sub/x'' ''/ws''"
    "\<not> canWritePathWithCwd sample_os flat_policy ''ro/x'' ''/ws''"
    "\<not> nested_roots (getWritableRootsWithCwd sample_os flat_policy ''/ws'')" by code_simp+
  with writable_roots_match_write_check [OF sample_plain abs res(1)]
    writable_roots_match_write_check [OF flat_plain abs res(2)] show ?thesis by blast
qed


text \<open>
  Two limits of the metadata protection. The union of the roots, which is what the generated sandbox
  profile allows, lets the outer of two nested roots write the inner root's metadata, although the check of
  the path forbids it. And whether a grant inside a metadata directory opens the metadata of a
  further grant below it depends on the order of the entries.
\<close>

lemma nested_root_metadata_writable:
  "\<not> canWritePathWithCwd sample_os sample_policy ''/ws/sub/.git/config'' ''/ws''"
  "list_ex (\<lambda>w. root_allows w ''/ws/sub/.git/config'') (getWritableRootsWithCwd sample_os sample_policy ''/ws'')"
  by code_simp+

definition ordered_policy :: "string list \<Rightarrow> FileSystemSandboxPolicy" where
  "ordered_policy grants = \<lparr>pol_Kind = KindRestricted, pol_GlobScanMaxDepth = None,
     pol_Entries = map (path_entry ModeWrite) grants\<rparr>"

lemma metadata_protection_depends_on_order:
  "canWritePathWithCwd sample_os (ordered_policy [''/ws'', ''/ws/.git/mod'']) ''/ws/.git/mod/.git/x'' ''/ws''"
  "\<not> canWritePathWithCwd sample_os (ordered_policy [''/ws/.git/mod'', ''/ws'']) ''/ws/.git/mod/.git/x'' ''/ws''"
  by code_simp+

text \<open>An access mode that is not one of the three known words permits reading and outranks a write grant.\<close>

lemma unknown_mode_readable:
  "canReadPathWithCwd sample_os
     \<lparr>pol_Kind = KindRestricted, pol_GlobScanMaxDepth = None, pol_Entries = [path_entry (ModeOther ''nothing'') ''/ws'']\<rparr>
     ''/ws/x'' ''/ws''"
  by code_simp

end
