(* ===== verification/Fs_Context.thy ===== *)
theory Fs_Context
  imports Sandbox_Access
begin

text \<open>
  The file system package's own copy of the sandbox predicates: \<open>src/internal/filesystem/policy.go\<close> and
  \<open>sandbox_context.go\<close> (without its JSON codec), on Unix. Its copy of the order of access modes differs from
  the one in the sandbox package; the lemmas say when the two decide alike, and exhibit a policy on
  which they do not.
\<close>

section \<open>Predicates (filesystem/policy.go)\<close>

definition accessModeRank :: "FileSystemAccessMode \<Rightarrow> nat" where
  "accessModeRank mode = (case mode of ModeDeny \<Rightarrow> 0 | ModeRead \<Rightarrow> 1 | ModeWrite \<Rightarrow> 2 | ModeOther _ \<Rightarrow> 0)"

definition accessModeGreater :: "FileSystemAccessMode \<Rightarrow> FileSystemAccessMode \<Rightarrow> bool" where
  "accessModeGreater left right \<longleftrightarrow> accessModeRank left > accessModeRank right"

definition hasRootAccess :: "FileSystemSandboxPolicy \<Rightarrow> (FileSystemAccessMode \<Rightarrow> bool) \<Rightarrow> bool" where
  "hasRootAccess policy predicate =
     (if pol_Kind policy \<noteq> KindRestricted then False
      else list_ex (\<lambda>e. special_kind (se_Path e) = Some SpRoot \<and> predicate (se_Access e)) (pol_Entries policy))"

definition ctx_specialPathsShareTarget :: "FileSystemSpecialPath option \<Rightarrow> FileSystemSpecialPath option \<Rightarrow> bool" where
  "ctx_specialPathsShareTarget left right =
     (case (left, right) of
        (Some l, Some r) \<Rightarrow>
          if sp_Kind l \<noteq> sp_Kind r then False
          else (case sp_Kind l of
              SpRoot \<Rightarrow> True
            | SpMinimal \<Rightarrow> True
            | SpTmpdir \<Rightarrow> True
            | SpSlashTmp \<Rightarrow> True
            | SpProjectRoots \<Rightarrow> sp_Subpath l = sp_Subpath r
            | SpUnknown \<Rightarrow> sp_Path l = sp_Path r \<and> sp_Subpath l = sp_Subpath r
            | SpOther _ \<Rightarrow> False)
      | _ \<Rightarrow> False)"

definition specialPathMatchesAbsolutePath :: "FileSystemSpecialPath option \<Rightarrow> string \<Rightarrow> bool" where
  "specialPathMatchesAbsolutePath value' path =
     (case value' of
        None \<Rightarrow> False
      | Some s \<Rightarrow>
          (case sp_Kind s of
             SpRoot \<Rightarrow> filepath_Dir path = path
           | SpSlashTmp \<Rightarrow> path = ''/tmp''
           | _ \<Rightarrow> False))"

definition fileSystemPathsShareTarget :: "FileSystemPath \<Rightarrow> FileSystemPath \<Rightarrow> bool" where
  "fileSystemPathsShareTarget left right =
     (case (fp_Type left, fp_Type right) of
        (PtPath, PtPath) \<Rightarrow> fp_Path left = fp_Path right
      | (PtSpecial, PtSpecial) \<Rightarrow> ctx_specialPathsShareTarget (fp_Special left) (fp_Special right)
      | (PtPath, PtSpecial) \<Rightarrow> specialPathMatchesAbsolutePath (fp_Special right) (fp_Path left)
      | (PtSpecial, PtPath) \<Rightarrow> specialPathMatchesAbsolutePath (fp_Special left) (fp_Path right)
      | (PtGlobPattern, PtGlobPattern) \<Rightarrow> fp_Pattern left = fp_Pattern right
      | _ \<Rightarrow> False)"

definition hasSameTargetWriteOverride :: "FileSystemSandboxPolicy \<Rightarrow> FileSystemSandboxEntry \<Rightarrow> bool" where
  "hasSameTargetWriteOverride policy entry \<longleftrightarrow>
     list_ex (\<lambda>c. CanWrite (se_Access c) \<and> accessModeGreater (se_Access c) (se_Access entry)
                \<and> fileSystemPathsShareTarget (se_Path c) (se_Path entry)) (pol_Entries policy)"

definition narrowsForSpecial :: "FileSystemSandboxPolicy \<Rightarrow> FileSystemSandboxEntry \<Rightarrow> bool" where
  "narrowsForSpecial policy entry =
     (case fp_Special (se_Path entry) of
        None \<Rightarrow> False
      | Some s \<Rightarrow>
          (case sp_Kind s of
             SpRoot \<Rightarrow> se_Access entry = ModeDeny
           | SpMinimal \<Rightarrow> False
           | SpUnknown \<Rightarrow> False
           | _ \<Rightarrow> \<not> hasSameTargetWriteOverride policy entry))"

definition ctx_entry_narrows :: "FileSystemSandboxPolicy \<Rightarrow> FileSystemSandboxEntry \<Rightarrow> bool" where
  "ctx_entry_narrows policy entry =
     (if CanWrite (se_Access entry) then False
      else case fp_Type (se_Path entry) of
          PtPath \<Rightarrow> \<not> hasSameTargetWriteOverride policy entry
        | PtGlobPattern \<Rightarrow> True
        | PtSpecial \<Rightarrow> narrowsForSpecial policy entry
        | PtOther _ \<Rightarrow> False)"

definition hasWriteNarrowingEntries :: "FileSystemSandboxPolicy \<Rightarrow> bool" where
  "hasWriteNarrowingEntries policy =
     (if pol_Kind policy \<noteq> KindRestricted then False else list_ex (ctx_entry_narrows policy) (pol_Entries policy))"

definition hasFullDiskWriteAccess :: "FileSystemSandboxPolicy \<Rightarrow> bool" where
  "hasFullDiskWriteAccess policy =
     (case pol_Kind policy of
        KindUnrestricted \<Rightarrow> True
      | KindExternalSandbox \<Rightarrow> True
      | _ \<Rightarrow> hasRootAccess policy CanWrite \<and> \<not> hasWriteNarrowingEntries policy)"

section \<open>Contexts (filesystem/sandbox\_context.go)\<close>

record FileSystemSandboxContext =
  fc_Permissions :: PermissionProfile
  fc_Cwd :: "string option"
  fc_WindowsSandboxLevel :: string
  fc_WindowsSandboxPrivateDesktop :: bool
  fc_UseLegacyLandlock :: bool

definition fromPermissionsAndCwd :: "PermissionProfile \<Rightarrow> string option \<Rightarrow> FileSystemSandboxContext" where
  "fromPermissionsAndCwd permissions cwd =
     \<lparr>fc_Permissions = permissions, fc_Cwd = cwd, fc_WindowsSandboxLevel = ''disabled'',
      fc_WindowsSandboxPrivateDesktop = False, fc_UseLegacyLandlock = False\<rparr>"

definition FromPermissionProfile :: "PermissionProfile \<Rightarrow> FileSystemSandboxContext" where
  "FromPermissionProfile permissions = fromPermissionsAndCwd permissions None"

definition FromPermissionProfileWithCwd :: "PermissionProfile \<Rightarrow> string \<Rightarrow> FileSystemSandboxContext" where
  "FromPermissionProfileWithCwd permissions cwd = fromPermissionsAndCwd permissions (Some cwd)"

definition fileSystemSandboxPolicy :: "FileSystemSandboxContext \<Rightarrow> FileSystemSandboxPolicy" where
  "fileSystemSandboxPolicy c =
     (case pp_Kind (fc_Permissions c) of
        ProfileManaged \<Rightarrow> ToSandboxPolicy (pp_FileSystem (fc_Permissions c))
      | ProfileExternal \<Rightarrow> policy_of_kind KindExternalSandbox
      | _ \<Rightarrow> policy_of_kind KindUnrestricted)"

definition ShouldRunInSandbox :: "FileSystemSandboxContext \<Rightarrow> bool" where
  "ShouldRunInSandbox c =
     (let policy = fileSystemSandboxPolicy c in
      pol_Kind policy = KindRestricted \<and> \<not> hasFullDiskWriteAccess policy)"

definition entry_depends_on_cwd :: "FileSystemSandboxEntry \<Rightarrow> bool" where
  "entry_depends_on_cwd entry =
     (case fp_Type (se_Path entry) of
        PtGlobPattern \<Rightarrow> \<not> HasPrefix (fp_Pattern (se_Path entry)) ''/''
      | PtSpecial \<Rightarrow> map_option sp_Kind (fp_Special (se_Path entry)) = Some SpProjectRoots
      | _ \<Rightarrow> False)"

definition fileSystemPolicyHasCwdDependentEntries :: "FileSystemSandboxPolicy \<Rightarrow> bool" where
  "fileSystemPolicyHasCwdDependentEntries policy \<longleftrightarrow> list_ex entry_depends_on_cwd (pol_Entries policy)"

definition HasCwdDependentPermissions :: "FileSystemSandboxContext \<Rightarrow> bool" where
  "HasCwdDependentPermissions c \<longleftrightarrow> fileSystemPolicyHasCwdDependentEntries (fileSystemSandboxPolicy c)"

definition DropCwdIfUnused :: "FileSystemSandboxContext \<Rightarrow> FileSystemSandboxContext" where
  "DropCwdIfUnused c = (if HasCwdDependentPermissions c then c else c\<lparr>fc_Cwd := None\<rparr>)"

section \<open>Agreement with the sandbox package\<close>

text \<open>No entry that is not a read or write grant names the same target as a write grant.\<close>

definition no_deny_beside_write :: "FileSystemSandboxPolicy \<Rightarrow> bool" where
  "no_deny_beside_write p \<longleftrightarrow>
     list_all (\<lambda>e. list_all (\<lambda>c.
       CanWrite (se_Access c) \<and> fileSystemPathsShareTarget (se_Path c) (se_Path e) \<longrightarrow>
       se_Access e = ModeRead \<or> se_Access e = ModeWrite) (pol_Entries p)) (pol_Entries p)"

text \<open>
  Paths are clean and absolute, and not the one Unix path that the sandbox package takes for the root
  of a Windows drive.
\<close>

definition path_entries_clean :: "FileSystemSandboxPolicy \<Rightarrow> bool" where
  "path_entries_clean p \<longleftrightarrow>
     list_all (\<lambda>e. fp_Type (se_Path e) = PtPath \<longrightarrow>
       clean_abs (fp_Path (se_Path e)) \<and> fp_Path (se_Path e) \<noteq> [slash, CHR '':'', backslash]) (pol_Entries p)"

lemma root_tests_agree:
  assumes "clean_abs p" "p \<noteq> [slash, CHR '':'', backslash]"
  shows "filepath_Dir p = p \<longleftrightarrow> parentless p"
proof -
  obtain segs where segs: "list_all clean_seg segs" "p = abs_path segs" using assms(1) by (auto simp: clean_abs_def)
  show ?thesis
  proof (cases segs rule: rev_cases)
    case Nil
    with segs show ?thesis
      by (simp add: abs_path_def parentless_def filepath_Dir_def path_Clean_def clean_segments_def clean_step_def)
  next
    case (snoc ss s)
    with segs have "filepath_Dir p \<noteq> p" using filepath_Dir_abs [of ss s] abs_path_inj [of ss "ss @ [s]"] by auto
    moreover have "\<not> parentless p"
    proof
      assume "parentless p"
      moreover have "p \<noteq> ''/''" using segs snoc abs_path_eq_root by auto
      ultimately have p: "length p = 3" "p ! 1 = CHR '':''" "p ! 2 = backslash \<or> p ! 2 = slash"
        by (auto simp: parentless_def)
      then obtain a b c where abc: "p = [a, b, c]" by (auto simp: length_Suc_conv numeral_eq_Suc)
      then have "a = slash" using segs(2) by (simp add: abs_path_def)
      with p abc assms(2) have "p = ''/:/''" by (simp add: numeral_eq_Suc)
      moreover have "\<not> clean_abs ''/:/''" by code_simp
      ultimately show False using assms(1) by simp
    qed
    ultimately show ?thesis by simp
  qed
qed

lemma share_target_agrees:
  assumes "path_entries_clean p" "c \<in> set (pol_Entries p)" "e \<in> set (pol_Entries p)"
  shows "fileSystemPathsShareTarget (se_Path c) (se_Path e) = pathsShareTarget (se_Path c) (se_Path e)"
proof -
  have "specialPathMatchesAbsolutePath s (fp_Path (se_Path x)) = specialMatchesAbsolutePath s (fp_Path (se_Path x))"
    if "x \<in> set (pol_Entries p)" "fp_Type (se_Path x) = PtPath" for x s
    using assms(1) that root_tests_agree
    by (auto simp: specialPathMatchesAbsolutePath_def specialMatchesAbsolutePath_def path_entries_clean_def list_all_iff
        split: option.splits FileSystemSpecialPathKind.splits)
  moreover have "ctx_specialPathsShareTarget a b = specialPathsShareTarget a b" for a b
    by (simp add: ctx_specialPathsShareTarget_def specialPathsShareTarget_def
        split: option.splits FileSystemSpecialPathKind.splits)
  ultimately show ?thesis
    using assms(2,3)
    by (simp add: fileSystemPathsShareTarget_def pathsShareTarget_def split: FileSystemPathType.splits)
qed

lemma override_agrees:
  assumes "path_entries_clean p" "no_deny_beside_write p" "e \<in> set (pol_Entries p)" "\<not> CanWrite (se_Access e)"
  shows "hasSameTargetWriteOverride p e = fsHasSameTargetWriteOverride p e"
proof -
  have "CanWrite (se_Access c) \<and> accessModeGreater (se_Access c) (se_Access e) \<and> fileSystemPathsShareTarget (se_Path c) (se_Path e)
    \<longleftrightarrow> CanWrite (se_Access c) \<and> accessGreater (se_Access c) (se_Access e) \<and> pathsShareTarget (se_Path c) (se_Path e)"
    if "c \<in> set (pol_Entries p)" for c
    using assms that share_target_agrees [OF assms(1) that assms(3)]
    by (auto simp: no_deny_beside_write_def list_all_iff accessModeGreater_def accessGreater_def accessModeRank_def
        accessRank_def CanWrite_def)
  then show ?thesis
    by (auto simp: hasSameTargetWriteOverride_def fsHasSameTargetWriteOverride_def list_ex_iff)
qed

lemma full_disk_write_agrees:
  assumes "path_entries_clean p" "no_deny_beside_write p"
  shows "hasFullDiskWriteAccess p = fsHasFullDiskWriteAccess p"
proof -
  have "ctx_entry_narrows p e = entry_narrows p e" if "e \<in> set (pol_Entries p)" for e
    using override_agrees [OF assms that]
    by (auto simp: ctx_entry_narrows_def entry_narrows_def narrowsForSpecial_def
        split: FileSystemPathType.splits option.splits FileSystemSpecialPathKind.splits)
  then have "hasWriteNarrowingEntries p = fsHasWriteNarrowingEntries p"
    by (auto simp: hasWriteNarrowingEntries_def fsHasWriteNarrowingEntries_def list_ex_iff)
  moreover have "hasRootAccess p = fsHasRootAccess p"
    by (simp add: fun_eq_iff hasRootAccess_def fsHasRootAccess_def)
  ultimately show ?thesis
    by (simp add: hasFullDiskWriteAccess_def fsHasFullDiskWriteAccess_def split: FileSystemSandboxKind.split)
qed

text \<open>
  The two packages order the access modes differently, so they disagree on a policy that grants the root and
  both grants and denies one path: the sandbox package denies that path, the file system package decides that
  nothing is narrowed and the operation need not run in a sandbox.
\<close>

definition denied_beside_granted :: FileSystemSandboxPolicy where
  "denied_beside_granted = \<lparr>pol_Kind = KindRestricted, pol_GlobScanMaxDepth = None, pol_Entries =
     [\<lparr>se_Path = NewFileSystemSpecialPath (special_of SpRoot), se_Access = ModeWrite\<rparr>,
      path_entry ModeWrite ''/secret'', path_entry ModeDeny ''/secret'']\<rparr>"

lemma packages_disagree_on_denied_path:
  "\<not> canReadPathWithCwd sample_os denied_beside_granted ''/secret/key'' ''/ws''"
  "\<not> fsHasFullDiskWriteAccess denied_beside_granted"
  "\<not> ShouldRunInSandbox (FromPermissionProfile (NewManagedPermissionProfile
      (NewRestrictedManagedFileSystem (pol_Entries denied_beside_granted) None) NetRestricted))"
  by code_simp+

text \<open>Dropping an unused working directory does not change how entries resolve.\<close>

lemma cwd_independent_entry:
  assumes "\<not> entry_depends_on_cwd e" "special_kind (se_Path e) \<noteq> Some SpRoot"
  shows "resolve_entry os a e = resolve_entry os b e"
  using assms
  by (auto simp: entry_depends_on_cwd_def resolve_entry_def resolveEntryPath_def resolveFileSystemPath_def
      resolveSpecialPath_def special_kind_def
      split: FileSystemPathType.splits option.splits FileSystemSpecialPathKind.splits)

end
