(* ===== verification/Turn_Sandbox.thy ===== *)
theory Turn_Sandbox
  imports Sandbox_Access Go_Text "HOL-Library.Word"
begin

text \<open>
  From a turn's settings to sandboxed runs: backend selection (\<open>src/internal/sandbox/preference.go\<close>,
  \<open>spawn.go\<close>, the platform files), the policy of a turn (\<open>src/internal/core/turn_sandbox_policy.go\<close>), approval
  requirements (\<open>approval_decision.go\<close>), the escalation of a denied command (\<open>sandbox_escalation.go\<close>) and the
  attempt loop of the shell tool (\<open>shell_command_executor.go\<close>). Running a command and asking the user are
  parameters that pass a world state.
\<close>

section \<open>Backend selection\<close>

datatype SandboxType = SandboxTypeNone | SandboxTypeMacosSeatbelt | SandboxTypeLinuxSeccomp | SandboxTypeWindowsRestrictedToken

datatype SandboxablePreference = PreferenceAuto | PreferenceRequire | PreferenceForbid

datatype goos = Darwin | Linux | Windows | OtherOS

datatype WindowsSandboxLevel = WslDisabled | WslRestrictedToken | WslElevated | WslOther string

definition platformSandbox :: "goos \<Rightarrow> bool \<Rightarrow> SandboxType option" where
  "platformSandbox os windowsSandboxEnabled =
     (case os of
        Darwin \<Rightarrow> Some SandboxTypeMacosSeatbelt
      | Linux \<Rightarrow> Some SandboxTypeLinuxSeccomp
      | Windows \<Rightarrow> if windowsSandboxEnabled then Some SandboxTypeWindowsRestrictedToken else None
      | OtherOS \<Rightarrow> None)"

definition ShouldRequirePlatformSandbox :: "FileSystemSandboxPolicy \<Rightarrow> NetworkSandboxPolicy \<Rightarrow> bool \<Rightarrow> bool" where
  "ShouldRequirePlatformSandbox fileSystemPolicy networkPolicy hasManagedNetworkRequirements =
     (if hasManagedNetworkRequirements then True
      else if \<not> NetworkSandboxPolicy_IsEnabled networkPolicy then pol_Kind fileSystemPolicy \<noteq> KindExternalSandbox
      else if pol_Kind fileSystemPolicy = KindRestricted then \<not> fsHasFullDiskWriteAccess fileSystemPolicy
      else False)"

definition selectInitial ::
  "goos \<Rightarrow> FileSystemSandboxPolicy \<Rightarrow> NetworkSandboxPolicy \<Rightarrow> SandboxablePreference \<Rightarrow> WindowsSandboxLevel \<Rightarrow> bool
   \<Rightarrow> SandboxType" where
  "selectInitial os fileSystemPolicy networkPolicy pref windowsSandboxLevel hasManagedNetworkRequirements =
     (let platform = (case platformSandbox os (windowsSandboxLevel \<noteq> WslDisabled) of Some st \<Rightarrow> st | None \<Rightarrow> SandboxTypeNone) in
      case pref of
        PreferenceForbid \<Rightarrow> SandboxTypeNone
      | PreferenceRequire \<Rightarrow> platform
      | PreferenceAuto \<Rightarrow>
          if ShouldRequirePlatformSandbox fileSystemPolicy networkPolicy hasManagedNetworkRequirements
          then platform else SandboxTypeNone)"

section \<open>The policy of a turn\<close>

datatype SandboxMode = SmReadOnly | SmWorkspaceWrite | SmDangerFullAccess | SmOther string

datatype AskForApprovalKind = AskUnlessTrusted | AskOnFailure | AskOnRequest | AskGranular | AskNever | AskOther string

record GranularApprovalConfig =
  ga_SandboxApproval :: bool
  ga_Rules :: bool
  ga_SkillApproval :: bool
  ga_RequestPermissions :: bool
  ga_McpElicitations :: bool

record AskForApproval =
  ask_Kind :: AskForApprovalKind
  ask_Granular :: "GranularApprovalConfig option"

text \<open>The fields of TurnContext that decide about sandboxing and approval.\<close>

record TurnContext =
  tc_Cwd :: string
  tc_ApprovalPolicy :: AskForApproval
  tc_SandboxMode :: SandboxMode
  tc_NetworkAccessEnabled :: bool
  tc_WindowsSandboxLevel :: WindowsSandboxLevel

record turnSandboxPolicy =
  tp_SandboxType :: SandboxType
  tp_FileSystem :: FileSystemSandboxPolicy
  tp_Network :: NetworkSandboxPolicy

definition networkSandboxPolicyForFlag :: "bool \<Rightarrow> NetworkSandboxPolicy" where
  "networkSandboxPolicyForFlag enabled = (if enabled then NetEnabled else NetRestricted)"

definition special_entry :: "FileSystemSpecialPath \<Rightarrow> FileSystemAccessMode \<Rightarrow> FileSystemSandboxEntry" where
  "special_entry s m = \<lparr>se_Path = NewFileSystemSpecialPath s, se_Access = m\<rparr>"

definition readOnlyFileSystemSandboxPolicy :: FileSystemSandboxPolicy where
  "readOnlyFileSystemSandboxPolicy =
     \<lparr>pol_Kind = KindRestricted, pol_GlobScanMaxDepth = None,
      pol_Entries = [special_entry (special_of SpRoot) ModeRead]\<rparr>"

definition workspaceWriteFileSystemSandboxPolicy :: FileSystemSandboxPolicy where
  "workspaceWriteFileSystemSandboxPolicy =
     \<lparr>pol_Kind = KindRestricted, pol_GlobScanMaxDepth = None,
      pol_Entries =
        [special_entry (special_of SpRoot) ModeRead,
         special_entry (NewProjectRootsSpecialPath None) ModeWrite,
         special_entry (special_of SpSlashTmp) ModeWrite,
         special_entry (special_of SpTmpdir) ModeWrite]\<rparr>"

definition runtimePermissionsForMode :: "SandboxMode \<Rightarrow> bool \<Rightarrow> FileSystemSandboxPolicy \<times> NetworkSandboxPolicy" where
  "runtimePermissionsForMode mode networkEnabled =
     (case mode of
        SmDangerFullAccess \<Rightarrow> (policy_of_kind KindUnrestricted, NetEnabled)
      | SmWorkspaceWrite \<Rightarrow> (workspaceWriteFileSystemSandboxPolicy, networkSandboxPolicyForFlag networkEnabled)
      | _ \<Rightarrow> (readOnlyFileSystemSandboxPolicy, networkSandboxPolicyForFlag networkEnabled))"

definition resolveTurnSandboxPolicy :: "goos \<Rightarrow> TurnContext option \<Rightarrow> turnSandboxPolicy" where
  "resolveTurnSandboxPolicy os tc =
     (let mode = (case tc of None \<Rightarrow> SmReadOnly
          | Some t \<Rightarrow> if tc_SandboxMode t = SmOther [] then SmReadOnly else tc_SandboxMode t);
          networkEnabled = (case tc of None \<Rightarrow> False | Some t \<Rightarrow> tc_NetworkAccessEnabled t);
          windowsLevel = (case tc of None \<Rightarrow> WslDisabled | Some t \<Rightarrow> tc_WindowsSandboxLevel t);
          (fsPolicy, networkPolicy) = runtimePermissionsForMode mode networkEnabled in
      \<lparr>tp_SandboxType = selectInitial os fsPolicy networkPolicy PreferenceAuto windowsLevel False,
       tp_FileSystem = fsPolicy, tp_Network = networkPolicy\<rparr>)"

section \<open>Approval decisions\<close>

datatype ReviewDecisionKind =
  RdApproved | RdApprovedExecpolicyAmendment | RdApprovedForSession | RdNetworkPolicyAmendment | RdDenied
  | RdTimedOut | RdAbort | RdOther string

datatype NetworkPolicyRuleAction = NetActionAllow | NetActionDeny

record NetworkPolicyAmendment =
  na_Host :: string
  na_Action :: NetworkPolicyRuleAction

record ReviewDecision =
  rd_Kind :: ReviewDecisionKind
  rd_ExecpolicyAmendment :: "string list option"
  rd_NetworkAmendment :: "NetworkPolicyAmendment option"

definition decision_of :: "ReviewDecisionKind \<Rightarrow> ReviewDecision" where
  "decision_of k = \<lparr>rd_Kind = k, rd_ExecpolicyAmendment = None, rd_NetworkAmendment = None\<rparr>"

record NetworkApprovalContext =
  nc_Host :: string
  nc_Protocol :: string

datatype ExecApprovalRequirement =
    ExecApprovalSkip bool "string list option"
  | ExecApprovalNeedsApproval "string option" "string list option"
  | ExecApprovalForbidden string

record FilesystemSandboxState =
  fss_Restricted :: bool
  fss_DeniedReadRestrictions :: bool

definition granularAllowsSandboxApproval :: "GranularApprovalConfig option \<Rightarrow> bool" where
  "granularAllowsSandboxApproval cfg = (case cfg of None \<Rightarrow> False | Some c \<Rightarrow> ga_SandboxApproval c)"

definition granularAllowsRequestPermissions :: "GranularApprovalConfig option \<Rightarrow> bool" where
  "granularAllowsRequestPermissions cfg = (case cfg of None \<Rightarrow> False | Some c \<Rightarrow> ga_RequestPermissions c)"

definition DefaultExecApprovalRequirement :: "AskForApproval \<Rightarrow> FilesystemSandboxState \<Rightarrow> ExecApprovalRequirement" where
  "DefaultExecApprovalRequirement policy fs =
     (let needsApproval =
        (case ask_Kind policy of
           AskOnRequest \<Rightarrow> fss_Restricted fs
         | AskGranular \<Rightarrow> fss_Restricted fs
         | AskUnlessTrusted \<Rightarrow> True
         | _ \<Rightarrow> False) in
      if needsApproval \<and> ask_Kind policy = AskGranular \<and> \<not> granularAllowsSandboxApproval (ask_Granular policy)
      then ExecApprovalForbidden ''approval policy disallowed sandbox approval prompt''
      else if needsApproval then ExecApprovalNeedsApproval None None
      else ExecApprovalSkip False None)"

datatype SandboxOverride = SandboxNoOverride | SandboxBypassFirstAttempt

definition unsandboxedExecutionAllowed :: "FilesystemSandboxState \<Rightarrow> bool" where
  "unsandboxedExecutionAllowed fs \<longleftrightarrow> \<not> fss_DeniedReadRestrictions fs"

definition SandboxOverrideForFirstAttempt ::
  "bool \<Rightarrow> ExecApprovalRequirement \<Rightarrow> FilesystemSandboxState \<Rightarrow> SandboxOverride" where
  "SandboxOverrideForFirstAttempt requiresEscalatedPermissions requirement fs =
     (if \<not> unsandboxedExecutionAllowed fs then SandboxNoOverride
      else if (case requirement of ExecApprovalSkip bypass _ \<Rightarrow> bypass | _ \<Rightarrow> False) then SandboxBypassFirstAttempt
      else if requiresEscalatedPermissions then SandboxBypassFirstAttempt
      else SandboxNoOverride)"

definition networkPolicyAmendmentsFor :: "NetworkApprovalContext option \<Rightarrow> NetworkPolicyAmendment list" where
  "networkPolicyAmendmentsFor ctx =
     (case ctx of None \<Rightarrow> []
      | Some c \<Rightarrow> [\<lparr>na_Host = nc_Host c, na_Action = NetActionAllow\<rparr>, \<lparr>na_Host = nc_Host c, na_Action = NetActionDeny\<rparr>])"

definition DefaultAvailableDecisions ::
  "NetworkApprovalContext option \<Rightarrow> string list option \<Rightarrow> NetworkPolicyAmendment list
   \<Rightarrow> AdditionalPermissionProfile option \<Rightarrow> ReviewDecision list" where
  "DefaultAvailableDecisions networkApprovalContext proposedExecpolicyAmendment proposedNetworkPolicyAmendments
     additionalPermissions =
     (if networkApprovalContext \<noteq> None then
        [decision_of RdApproved, decision_of RdApprovedForSession]
        @ (case find (\<lambda>a. na_Action a = NetActionAllow) proposedNetworkPolicyAmendments of
             Some a \<Rightarrow> [(decision_of RdNetworkPolicyAmendment)\<lparr>rd_NetworkAmendment := Some a\<rparr>] | None \<Rightarrow> [])
        @ [decision_of RdAbort]
      else if additionalPermissions \<noteq> None then [decision_of RdApproved, decision_of RdAbort]
      else [decision_of RdApproved]
        @ (case proposedExecpolicyAmendment of
             Some a \<Rightarrow> [(decision_of RdApprovedExecpolicyAmendment)\<lparr>rd_ExecpolicyAmendment := Some a\<rparr>] | None \<Rightarrow> [])
        @ [decision_of RdAbort])"

section \<open>Approvals remembered for the session\<close>

text \<open>
  Keys are serialized by \<open>json.Marshal\<close>, the parameter \<open>marshal\<close>, with \<open>None\<close> for an error. The prompt is
  the function \<open>fetch\<close> on a world state.
\<close>

type_synonym approval_store = "string \<rightharpoonup> ReviewDecision"

definition store_Get :: "('k \<Rightarrow> string option) \<Rightarrow> approval_store \<Rightarrow> 'k \<Rightarrow> ReviewDecision option" where
  "store_Get marshal mem key = (case marshal key of None \<Rightarrow> None | Some k \<Rightarrow> mem k)"

definition store_Put :: "('k \<Rightarrow> string option) \<Rightarrow> approval_store \<Rightarrow> 'k \<Rightarrow> ReviewDecision \<Rightarrow> approval_store" where
  "store_Put marshal mem key decision = (case marshal key of None \<Rightarrow> mem | Some k \<Rightarrow> mem(k \<mapsto> decision))"

definition isApprovedForSession :: "('k \<Rightarrow> string option) \<Rightarrow> approval_store \<Rightarrow> 'k \<Rightarrow> bool" where
  "isApprovedForSession marshal mem key =
     (case store_Get marshal mem key of None \<Rightarrow> False | Some d \<Rightarrow> rd_Kind d = RdApprovedForSession)"

definition WithCachedApproval ::
  "('k \<Rightarrow> string option) \<Rightarrow> approval_store \<Rightarrow> 'k list \<Rightarrow> ('w \<Rightarrow> ReviewDecision \<times> 'w) \<Rightarrow> 'w
   \<Rightarrow> ReviewDecision \<times> approval_store \<times> 'w" where
  "WithCachedApproval marshal mem keys fetch w =
     (if keys = [] then (let (d, w') = fetch w in (d, mem, w'))
      else if list_all (isApprovedForSession marshal mem) keys then (decision_of RdApprovedForSession, mem, w)
      else
        let (decision, w') = fetch w in
        if rd_Kind decision = RdApprovedForSession
        then (decision, foldl (\<lambda>m key. store_Put marshal m key decision) mem keys, w')
        else (decision, mem, w'))"

section \<open>Escalation\<close>

record ExecApprovalRequest =
  ar_CallID :: string
  ar_ApprovalID :: "string option"
  ar_Command :: "string list"
  ar_Cwd :: string
  ar_Reason :: "string option"

definition EffectiveApprovalID :: "ExecApprovalRequest \<Rightarrow> string" where
  "EffectiveApprovalID r = (case ar_ApprovalID r of Some i \<Rightarrow> i | None \<Rightarrow> ar_CallID r)"

datatype sandboxEscalationDecision = SurfaceDenial | RetryUnsandboxed

definition wantsNoSandboxApproval :: "AskForApproval \<Rightarrow> bool" where
  "wantsNoSandboxApproval policy =
     (case ask_Kind policy of
        AskOnFailure \<Rightarrow> True
      | AskUnlessTrusted \<Rightarrow> True
      | AskNever \<Rightarrow> False
      | AskOnRequest \<Rightarrow> False
      | AskGranular \<Rightarrow> granularAllowsSandboxApproval (ask_Granular policy)
      | AskOther _ \<Rightarrow> False)"

definition shouldBypassNoSandboxApproval :: "AskForApproval \<Rightarrow> bool" where
  "shouldBypassNoSandboxApproval policy \<longleftrightarrow> ask_Kind policy = AskNever"

definition reviewDecisionApproves :: "ReviewDecision \<Rightarrow> bool" where
  "reviewDecisionApproves decision \<longleftrightarrow>
     rd_Kind decision \<in> {RdApproved, RdApprovedForSession, RdApprovedExecpolicyAmendment}"

definition turnApprovalPolicy :: "TurnContext option \<Rightarrow> AskForApproval" where
  "turnApprovalPolicy tc =
     (case tc of
        Some t \<Rightarrow> if ask_Kind (tc_ApprovalPolicy t) \<noteq> AskOther [] then tc_ApprovalPolicy t
                  else \<lparr>ask_Kind = AskOnRequest, ask_Granular = None\<rparr>
      | None \<Rightarrow> \<lparr>ask_Kind = AskOnRequest, ask_Granular = None\<rparr>)"

definition fileSystemPolicyHasDeniedReads :: "FileSystemSandboxPolicy \<Rightarrow> bool" where
  "fileSystemPolicyHasDeniedReads p =
     (if pol_Kind p \<noteq> KindRestricted then False else list_ex (\<lambda>e. se_Access e = ModeDeny) (pol_Entries p))"

definition turnFilesystemSandboxState :: "goos \<Rightarrow> TurnContext option \<Rightarrow> FilesystemSandboxState" where
  "turnFilesystemSandboxState os tc =
     (let fs = tp_FileSystem (resolveTurnSandboxPolicy os tc) in
      \<lparr>fss_Restricted = (pol_Kind fs = KindRestricted), fss_DeniedReadRestrictions = fileSystemPolicyHasDeniedReads fs\<rparr>)"

definition sandboxDenialReason :: string where
  "sandboxDenialReason = ''command failed; retry without sandbox?''"

definition resolveSandboxEscalation ::
  "goos \<Rightarrow> (ExecApprovalRequest \<Rightarrow> 'w \<Rightarrow> ReviewDecision \<times> 'w) option \<Rightarrow> TurnContext option
   \<Rightarrow> string \<Rightarrow> string list \<Rightarrow> string \<Rightarrow> 'w \<Rightarrow> sandboxEscalationDecision \<times> 'w" where
  "resolveSandboxEscalation os sess tc callID command cwd w =
     (let policy = turnApprovalPolicy tc;
          fsState = turnFilesystemSandboxState os tc in
      if \<not> wantsNoSandboxApproval policy then (SurfaceDenial, w)
      else if \<not> unsandboxedExecutionAllowed fsState then (SurfaceDenial, w)
      else if shouldBypassNoSandboxApproval policy then (RetryUnsandboxed, w)
      else case sess of
          None \<Rightarrow> (SurfaceDenial, w)
        | Some ask \<Rightarrow>
            let (decision, w') = ask
                \<lparr>ar_CallID = callID, ar_ApprovalID = None, ar_Command = command, ar_Cwd = cwd,
                 ar_Reason = Some sandboxDenialReason\<rparr> w in
            (if reviewDecisionApproves decision then RetryUnsandboxed else SurfaceDenial, w'))"

definition sandboxDeniedKeywords :: "string list" where
  "sandboxDeniedKeywords =
     [''operation not permitted'', ''permission denied'', ''read-only file system'', ''seccomp'', ''sandbox'',
      ''landlock'', ''failed to write file'']"

definition isLikelySandboxDenied :: "go_env \<Rightarrow> SandboxType \<Rightarrow> int \<Rightarrow> string \<Rightarrow> string \<Rightarrow> string \<Rightarrow> bool" where
  "isLikelySandboxDenied env sandboxType exitCode stdout stderr aggregated =
     (if sandboxType = SandboxTypeNone \<or> exitCode = 0 then False
      else if list_ex (\<lambda>section. list_ex (\<lambda>needle. Contains (ToLower env section) needle) sandboxDeniedKeywords)
          [stderr, stdout, aggregated] then True
      else if exitCode \<in> {2, 126, 127} then False
      else sandboxType = SandboxTypeLinuxSeccomp \<and> exitCode = 128 + 31)"

section \<open>The attempt loop of the shell tool\<close>

record ExecRequest =
  er_Command :: "string list"
  er_Cwd :: string
  er_SandboxType :: SandboxType
  er_FileSystem :: FileSystemSandboxPolicy
  er_Network :: NetworkSandboxPolicy
  er_SandboxPolicyCwd :: string

record ExecResult =
  xr_Stdout :: string
  xr_Stderr :: string
  xr_ExitCode :: "32 word"

definition runShellWithEscalation ::
  "go_env \<Rightarrow> goos \<Rightarrow> (ExecRequest \<Rightarrow> 'w \<Rightarrow> (string, ExecResult) result \<times> 'w)
   \<Rightarrow> (ExecApprovalRequest \<Rightarrow> 'w \<Rightarrow> ReviewDecision \<times> 'w) option \<Rightarrow> TurnContext \<Rightarrow> string
   \<Rightarrow> string list \<Rightarrow> string \<Rightarrow> 'w \<Rightarrow> (string, ExecResult) result \<times> 'w" where
  "runShellWithEscalation env os run sess turn callID argv cwd w =
     (let pol = resolveTurnSandboxPolicy os (Some turn);
          (res, w1) = run
            \<lparr>er_Command = argv, er_Cwd = cwd, er_SandboxType = tp_SandboxType pol, er_FileSystem = tp_FileSystem pol,
             er_Network = tp_Network pol, er_SandboxPolicyCwd = tc_Cwd turn\<rparr> w in
      case res of
        Inl e \<Rightarrow> (Inl e, w1)
      | Inr r \<Rightarrow>
          if \<not> isLikelySandboxDenied env (tp_SandboxType pol) (sint (xr_ExitCode r)) (xr_Stdout r) (xr_Stderr r)
              (xr_Stdout r @ xr_Stderr r) then (Inr r, w1)
          else
            let (decision, w2) = resolveSandboxEscalation os sess (Some turn) callID argv cwd w1 in
            if decision \<noteq> RetryUnsandboxed then (Inr r, w2)
            else run
              \<lparr>er_Command = argv, er_Cwd = cwd, er_SandboxType = SandboxTypeNone,
               er_FileSystem = policy_of_kind (KindOther []), er_Network = NetOther [], er_SandboxPolicyCwd = tc_Cwd turn\<rparr> w2)"

section \<open>What the three modes permit\<close>

lemma filter_Some_simps [simp]:
  "List.map_filter f [] = []"
  "List.map_filter f (x # xs) = (case f x of None \<Rightarrow> List.map_filter f xs | Some y \<Rightarrow> y # List.map_filter f xs)"
  by (simp_all add: List.map_filter_simps)

definition workspace_roots :: "os_env \<Rightarrow> string \<Rightarrow> string list" where
  "workspace_roots os cwdAbs =
     [cwdAbs] @ (if os_isDir os ''/tmp'' then [''/tmp''] else [])
     @ (if os_TMPDIR os = [] then [] else [normalizeAbsolute os (os_TMPDIR os)])"

lemma special_entry_simps [simp]:
  "se_Access (special_entry s m) = m" "fp_Type (se_Path (special_entry s m)) = PtSpecial"
  "fp_Special (se_Path (special_entry s m)) = Some s" "special_kind (se_Path (special_entry s m)) = Some (sp_Kind s)"
  by (simp_all add: special_entry_def NewFileSystemSpecialPath_def special_kind_def)

lemma special_of_simps [simp]:
  "sp_Kind (special_of k) = k" "sp_Subpath (special_of k) = None"
  "sp_Kind (NewProjectRootsSpecialPath u) = SpProjectRoots" "sp_Subpath (NewProjectRootsSpecialPath u) = u"
  by (simp_all add: special_of_def NewProjectRootsSpecialPath_def)

lemma read_only_entries:
  assumes "resolveCandidatePath os cwd cwd = Some cwdAbs" "clean_abs cwdAbs"
  shows "resolvedEntriesWithCwd os readOnlyFileSystemSandboxPolicy cwd = [\<lparr>re_path = ''/'', re_access = ModeRead\<rparr>]"
  using assms filesystemRootForPath_abs
  by (auto simp: resolvedEntriesWithCwd_def readOnlyFileSystemSandboxPolicy_def resolve_entry_def resolveEntryPath_def
      clean_abs_def)

lemma workspace_entries:
  assumes "resolveCandidatePath os cwd cwd = Some cwdAbs" "clean_abs cwdAbs"
  shows "resolvedEntriesWithCwd os workspaceWriteFileSystemSandboxPolicy cwd =
    \<lparr>re_path = ''/'', re_access = ModeRead\<rparr> # map (\<lambda>r. \<lparr>re_path = r, re_access = ModeWrite\<rparr>) (workspace_roots os cwdAbs)"
  using assms filesystemRootForPath_abs
  by (auto simp: resolvedEntriesWithCwd_def workspaceWriteFileSystemSandboxPolicy_def resolve_entry_def
      resolveEntryPath_def resolveFileSystemPath_def resolveSpecialPath_def workspace_roots_def clean_abs_def)

lemma clean_root: "clean_abs ''/''" and clean_tmp: "clean_abs ''/tmp''"
  by code_simp+

lemma below_root: "clean_abs t \<Longrightarrow> pathStartsWith t ''/''"
proof -
  have "segs_of ''/'' = []" by code_simp
  then show "clean_abs t \<Longrightarrow> ?thesis" by (simp add: pathStartsWith_clean clean_root)
qed

lemma workspace_roots_clean:
  assumes "clean_abs cwdAbs" "os_TMPDIR os = [] \<or> isAbsolute False (os_TMPDIR os)" "r \<in> set (workspace_roots os cwdAbs)"
  shows "clean_abs r"
proof -
  have "clean_abs (normalizeAbsolute os (os_TMPDIR os))" if "os_TMPDIR os \<noteq> []"
    using abs_of_absolute [of "os_TMPDIR os" os] assms(2) that by (auto simp: normalizeAbsolute_def clean_abs_def)
  with assms(1,3) clean_tmp show ?thesis by (auto simp: workspace_roots_def split: if_splits)
qed

text \<open>In the workspace policy the deciding entry of a path is a write grant exactly below a writable root.\<close>

lemma workspace_write_iff:
  assumes "resolveCandidatePath os cwd cwd = Some cwdAbs" "clean_abs cwdAbs" "clean_abs t"
    and "os_TMPDIR os = [] \<or> isAbsolute False (os_TMPDIR os)" "resolveCandidatePath os target cwd = Some t"
  shows "CanWrite (resolveAccessWithCwd os workspaceWriteFileSystemSandboxPolicy target cwd) \<longleftrightarrow>
      (\<exists>r \<in> set (workspace_roots os cwdAbs). pathStartsWith t r)"
    and "CanRead (resolveAccessWithCwd os workspaceWriteFileSystemSandboxPolicy target cwd)"
proof -
  let ?p = workspaceWriteFileSystemSandboxPolicy
  let ?R = "entry_set os ?p cwd"
  have kind: "pol_Kind ?p = KindRestricted" by (simp add: workspaceWriteFileSystemSandboxPolicy_def)
  have R: "?R = insert \<lparr>re_path = ''/'', re_access = ModeRead\<rparr>
      ((\<lambda>r. \<lparr>re_path = r, re_access = ModeWrite\<rparr>) ` set (workspace_roots os cwdAbs))"
    by (simp add: workspace_entries [OF assms(1,2)])
  have clean: "\<forall>x \<in> ?R. clean_abs (re_path x)"
    unfolding R using clean_root workspace_roots_clean [OF assms(2,4)] by auto
  obtain b where b: "decides_in ?R t b" "resolveAccessWithCwd os ?p target cwd = re_access b"
    using resolveAccess_Some [OF _ _ assms(5), of ?p "\<lparr>re_path = ''/'', re_access = ModeRead\<rparr>"]
      kind below_root [OF assms(3)] unfolding R by auto
  have bin: "b \<in> ?R" "pathStartsWith t (re_path b)" using b(1) by (simp_all add: paths.decides_def)
  then show "CanRead (resolveAccessWithCwd os ?p target cwd)" using b(2) unfolding R by auto
  have "CanWrite (re_access b)" if r: "r \<in> set (workspace_roots os cwdAbs)" "pathStartsWith t r" for r
  proof (rule ccontr)
    assume "\<not> CanWrite (re_access b)"
    with bin(1) have b_root: "b = \<lparr>re_path = ''/'', re_access = ModeRead\<rparr>" unfolding R by auto
    let ?e = "\<lparr>re_path = r, re_access = ModeWrite\<rparr>"
    have e: "?e \<in> ?R" "pathStartsWith t (re_path ?e)" using r unfolding R by auto
    have "pathStartsWith r ''/''" using below_root [OF workspace_roots_clean [OF assms(2,4) r(1)]] .
    then have "componentCount ''/'' \<le> componentCount r"
      by (rule paths.depth_mono [OF workspace_roots_clean [OF assms(2,4) r(1)] clean_root])
    then show False using b(1) e unfolding paths.decides_def b_root by (force simp: accessRank_def)
  qed
  moreover have "\<exists>r \<in> set (workspace_roots os cwdAbs). pathStartsWith t r" if "CanWrite (re_access b)"
    using that bin unfolding R by auto
  ultimately show "CanWrite (resolveAccessWithCwd os ?p target cwd) \<longleftrightarrow>
      (\<exists>r \<in> set (workspace_roots os cwdAbs). pathStartsWith t r)"
    using b(2) by auto
qed

lemma workspace_not_full: "\<not> fsHasFullDiskWriteAccess workspaceWriteFileSystemSandboxPolicy"
  by code_simp

text \<open>
  C35. The three sandbox modes of a turn permit what they say: read-only mode lets every path be read and
  none be written; workspace-write mode lets every path be read, and a path is written only below the
  workspace, /tmp or $TMPDIR, exactly if it is not in the metadata directory of one of these (unless one
  of them is itself inside such a directory); full access lets every path be written.
\<close>

theorem sandbox_modes_permit:
  assumes "isAbsolute False cwd" "os_TMPDIR os = [] \<or> isAbsolute False (os_TMPDIR os)"
    and "resolveCandidatePath os target cwd = Some t" "resolveCandidatePath os cwd cwd = Some cwdAbs"
    and "W = fst (runtimePermissionsForMode SmWorkspaceWrite n)" "RO = fst (runtimePermissionsForMode SmReadOnly n)"
  shows "(canReadPathWithCwd os RO target cwd \<and> \<not> canWritePathWithCwd os RO target cwd) \<and>
         canReadPathWithCwd os W target cwd \<and>
         (canWritePathWithCwd os W target cwd \<longrightarrow> (\<exists>r \<in> set (workspace_roots os cwdAbs). pathStartsWith t r)) \<and>
         (no_metadata_grants os W cwd \<longrightarrow>
           (canWritePathWithCwd os W target cwd \<longleftrightarrow>
             (\<exists>r \<in> set (workspace_roots os cwdAbs). pathStartsWith t r) \<and> \<not> in_metadata os W cwd t)) \<and>
         canWritePathWithCwd os (fst (runtimePermissionsForMode SmDangerFullAccess n)) target cwd"
proof -
  have t: "clean_abs t" using resolveCandidatePath_clean [OF assms(1), of os target] assms(3) by (auto simp: clean_abs_def)
  have c: "clean_abs cwdAbs" using resolveCandidatePath_clean [OF assms(1), of os cwd] assms(4) by (auto simp: clean_abs_def)
  have W: "W = workspaceWriteFileSystemSandboxPolicy" and RO: "RO = readOnlyFileSystemSandboxPolicy"
    by (simp_all add: assms(5,6) runtimePermissionsForMode_def)
  have ro: "resolveAccessWithCwd os RO target cwd = ModeRead"
    using below_root [OF t]
    by (simp add: RO resolveAccessWithCwd_def read_only_entries [OF assms(4) c] assms(3))
      (simp add: readOnlyFileSystemSandboxPolicy_def)
  note ww = workspace_write_iff [OF assms(4) c t assms(2,3)]
  have kind: "pol_Kind W = KindRestricted" by (simp add: W workspaceWriteFileSystemSandboxPolicy_def)
  have clean: "entries_clean os W cwd"
    unfolding entries_clean_def W workspace_entries [OF assms(4) c]
    using clean_root workspace_roots_clean [OF c assms(2)] by (auto simp: list_all_iff)
  have md: "isMetadataWriteDenied os W target cwd \<longleftrightarrow> in_metadata os W cwd t" if "no_metadata_grants os W cwd"
    using isMetadataWriteDenied_iff [OF kind clean t assms(3) that] by (simp add: in_metadata_def list_ex_iff)
  have cw: "canWritePathWithCwd os W target cwd \<longleftrightarrow>
      (\<exists>r \<in> set (workspace_roots os cwdAbs). pathStartsWith t r) \<and> \<not> isMetadataWriteDenied os W target cwd"
    using ww(1) workspace_not_full by (simp add: canWritePathWithCwd_def W)
  have danger: "canWritePathWithCwd os (fst (runtimePermissionsForMode SmDangerFullAccess n)) target cwd"
    by (simp add: canWritePathWithCwd_def resolveAccessWithCwd_def fsHasFullDiskWriteAccess_def
        runtimePermissionsForMode_def policy_of_kind_def)
  show ?thesis using ro ww(2) cw md danger by (auto simp: canReadPathWithCwd_def canWritePathWithCwd_def W)
qed

definition tmp_os :: os_env where
  "tmp_os = sample_os\<lparr>os_TMPDIR := ''/var/tmp'', os_isDir := (\<lambda>p. p = ''/tmp'')\<rparr>"

theorem sandbox_modes_permit_witness:
  "canWritePathWithCwd tmp_os (fst (runtimePermissionsForMode SmWorkspaceWrite False)) ''../tmp/x'' ''/ws'' \<and>
   \<not> canWritePathWithCwd tmp_os (fst (runtimePermissionsForMode SmReadOnly False)) ''../tmp/x'' ''/ws''"
proof -
  have a: "isAbsolute False ''/ws''" by code_simp
  have b: "os_TMPDIR tmp_os = [] \<or> isAbsolute False (os_TMPDIR tmp_os)" by code_simp
  have c: "resolveCandidatePath tmp_os ''../tmp/x'' ''/ws'' = Some ''/tmp/x''" by code_simp
  have d: "resolveCandidatePath tmp_os ''/ws'' ''/ws'' = Some ''/ws''" by code_simp
  have e: "no_metadata_grants tmp_os (fst (runtimePermissionsForMode SmWorkspaceWrite False)) ''/ws''" by code_simp
  have f: "list_ex (\<lambda>r. pathStartsWith ''/tmp/x'' r) (workspace_roots tmp_os ''/ws'')" by code_simp
  have g: "\<not> in_metadata tmp_os (fst (runtimePermissionsForMode SmWorkspaceWrite False)) ''/ws'' ''/tmp/x''" by code_simp
  from sandbox_modes_permit [OF a b c d refl refl, of False] e f g show ?thesis by (auto simp: list_ex_iff)
qed

section \<open>Leaving the sandbox\<close>

datatype exec_event = Ran ExecRequest | Asked ExecApprovalRequest ReviewDecision

definition log_run ::
  "(ExecRequest \<Rightarrow> 'w \<Rightarrow> 'r \<times> 'w) \<Rightarrow> ExecRequest \<Rightarrow> 'w \<times> exec_event list \<Rightarrow> 'r \<times> ('w \<times> exec_event list)" where
  "log_run run req st = (case st of (w, log) \<Rightarrow> let (r, w') = run req w in (r, (w', log @ [Ran req])))"

definition log_ask ::
  "(ExecApprovalRequest \<Rightarrow> 'w \<Rightarrow> ReviewDecision \<times> 'w) \<Rightarrow> ExecApprovalRequest \<Rightarrow> 'w \<times> exec_event list
   \<Rightarrow> ReviewDecision \<times> ('w \<times> exec_event list)" where
  "log_ask ask req st = (case st of (w, log) \<Rightarrow> let (d, w') = ask req w in (d, (w', log @ [Asked req d])))"

lemma bypass_not_wanted: "wantsNoSandboxApproval policy \<Longrightarrow> \<not> shouldBypassNoSandboxApproval policy"
  by (simp add: wantsNoSandboxApproval_def shouldBypassNoSandboxApproval_def split: AskForApprovalKind.splits)

lemma escalation_log:
  assumes "resolveSandboxEscalation os (map_option log_ask sess) tc callID command cwd (w, log) = (dec, (w', log'))"
  shows "(dec = SurfaceDenial \<and> log' = log) \<or>
    (\<exists>q d. log' = log @ [Asked q d] \<and> ar_Command q = command \<and> ar_Cwd q = cwd \<and> ar_CallID q = callID \<and>
       wantsNoSandboxApproval (turnApprovalPolicy tc) \<and> unsandboxedExecutionAllowed (turnFilesystemSandboxState os tc) \<and>
       (dec = RetryUnsandboxed \<longleftrightarrow> reviewDecisionApproves d))"
  using assms bypass_not_wanted [of "turnApprovalPolicy tc"]
  by (auto simp: resolveSandboxEscalation_def log_ask_def Let_def split: if_splits option.splits prod.splits)

text \<open>The platforms with a sandbox use it in both restricted modes.\<close>

lemma turn_sandboxed:
  assumes "os = Darwin \<or> os = Linux" "tc_SandboxMode turn \<noteq> SmDangerFullAccess"
  shows "tp_SandboxType (resolveTurnSandboxPolicy os (Some turn)) =
    (if os = Darwin then SandboxTypeMacosSeatbelt else SandboxTypeLinuxSeccomp)"
proof -
  have "\<not> fsHasFullDiskWriteAccess readOnlyFileSystemSandboxPolicy" by code_simp
  moreover have "pol_Kind readOnlyFileSystemSandboxPolicy = KindRestricted"
    "pol_Kind workspaceWriteFileSystemSandboxPolicy = KindRestricted" by code_simp+
  ultimately show ?thesis
    using assms workspace_not_full
    by (cases "tc_SandboxMode turn")
      (auto simp: resolveTurnSandboxPolicy_def runtimePermissionsForMode_def selectInitial_def platformSandbox_def
        ShouldRequirePlatformSandbox_def networkSandboxPolicyForFlag_def Let_def)
qed

text \<open>
  C32. The shell tool leaves the sandbox only with the user's approval: every command is first run under the
  sandbox of the turn (on macOS and Linux the platform sandbox, unless the mode is full access); it is
  run again without a sandbox at most once, only after that first run, only under an approval policy that
  permits asking, and only if the user was asked about exactly this command and directory and approved.
\<close>

theorem unsandboxed_run_needs_approval:
  assumes "runShellWithEscalation env os (log_run run) (map_option log_ask sess) turn callID argv cwd (w, []) =
    (res, (w', log))"
  shows "\<exists>first rest. log = Ran first # rest \<and> er_Command first = argv \<and>
      er_SandboxType first = tp_SandboxType (resolveTurnSandboxPolicy os (Some turn)) \<and>
      ((os = Darwin \<or> os = Linux) \<and> tc_SandboxMode turn \<noteq> SmDangerFullAccess \<longrightarrow> er_SandboxType first \<noteq> SandboxTypeNone) \<and>
      (rest = [] \<or>
       (\<exists>q d. ar_Command q = argv \<and> ar_Cwd q = cwd \<and> wantsNoSandboxApproval (turnApprovalPolicy (Some turn)) \<and>
          (rest = [Asked q d] \<and> \<not> reviewDecisionApproves d \<or>
           (\<exists>second. rest = [Asked q d, Ran second] \<and> reviewDecisionApproves d \<and> er_Command second = argv \<and>
              er_Cwd second = cwd \<and> er_SandboxType second = SandboxTypeNone))))"
proof -
  let ?pol = "resolveTurnSandboxPolicy os (Some turn)"
  define first where "first = \<lparr>er_Command = argv, er_Cwd = cwd, er_SandboxType = tp_SandboxType ?pol,
      er_FileSystem = tp_FileSystem ?pol, er_Network = tp_Network ?pol, er_SandboxPolicyCwd = tc_Cwd turn\<rparr>"
  define second where "second = \<lparr>er_Command = argv, er_Cwd = cwd, er_SandboxType = SandboxTypeNone,
      er_FileSystem = policy_of_kind (KindOther []), er_Network = NetOther [], er_SandboxPolicyCwd = tc_Cwd turn\<rparr>"
  obtain r w1 where r: "run first w = (r, w1)" by (cases "run first w")
  have step1: "log_run run first (w, []) = (r, (w1, [Ran first]))" by (simp add: log_run_def r)
  have sandboxed: "(os = Darwin \<or> os = Linux) \<and> tc_SandboxMode turn \<noteq> SmDangerFullAccess \<longrightarrow>
      er_SandboxType first \<noteq> SandboxTypeNone"
    using turn_sandboxed by (auto simp: first_def)
  obtain dec w2 log2 where esc:
    "resolveSandboxEscalation os (map_option log_ask sess) (Some turn) callID argv cwd (w1, [Ran first]) = (dec, (w2, log2))"
    by (metis prod.exhaust)
  have log: "log = [Ran first] \<or> (dec \<noteq> RetryUnsandboxed \<and> log = log2) \<or> (dec = RetryUnsandboxed \<and> log = log2 @ [Ran second])"
    using assms
    by (auto simp: runShellWithEscalation_def Let_def first_def [symmetric] second_def [symmetric] step1 esc
        log_run_def [of run second] split: sum.splits if_splits prod.splits)
  show ?thesis
    using log escalation_log [OF esc] sandboxed
    by (elim disjE exE conjE; force simp: first_def second_def)
qed

definition sample_turn :: TurnContext where
  "sample_turn = \<lparr>tc_Cwd = ''/ws'', tc_ApprovalPolicy = \<lparr>ask_Kind = AskOnFailure, ask_Granular = None\<rparr>,
     tc_SandboxMode = SmReadOnly, tc_NetworkAccessEnabled = False, tc_WindowsSandboxLevel = WslDisabled\<rparr>"

definition sample_run :: "ExecRequest \<Rightarrow> unit \<Rightarrow> (string, ExecResult) result \<times> unit" where
  "sample_run req w =
     (if er_SandboxType req = SandboxTypeNone then (Inr \<lparr>xr_Stdout = ''ok'', xr_Stderr = [], xr_ExitCode = 0\<rparr>, w)
      else (Inr \<lparr>xr_Stdout = [], xr_Stderr = [], xr_ExitCode = 159\<rparr>, w))"

definition sample_ask :: "ExecApprovalRequest \<Rightarrow> unit \<Rightarrow> ReviewDecision \<times> unit" where
  "sample_ask req w = (decision_of RdApproved, w)"

theorem unsandboxed_run_needs_approval_witness:
  "\<exists>first q d second.
     snd (snd (runShellWithEscalation posix_env Linux (log_run sample_run) (map_option log_ask (Some sample_ask))
       sample_turn ''c1'' [''touch'', ''f''] ''/ws'' ((), []))) = [Ran first, Asked q d, Ran second] \<and>
     er_SandboxType first = SandboxTypeLinuxSeccomp \<and> reviewDecisionApproves d \<and> er_Command second = [''touch'', ''f'']"
proof -
  let ?r = "runShellWithEscalation posix_env Linux (log_run sample_run) (map_option log_ask (Some sample_ask))
       sample_turn ''c1'' [''touch'', ''f''] ''/ws'' ((), [])"
  have denied: "isLikelySandboxDenied posix_env SandboxTypeLinuxSeccomp (sint (159 :: 32 word)) [] [] []"
    by (simp add: isLikelySandboxDenied_def sandboxDeniedKeywords_def ToLower_def)
  have ty: "tp_SandboxType (resolveTurnSandboxPolicy Linux (Some sample_turn)) = SandboxTypeLinuxSeccomp" by code_simp
  have esc: "wantsNoSandboxApproval (turnApprovalPolicy (Some sample_turn))"
    "unsandboxedExecutionAllowed (turnFilesystemSandboxState Linux (Some sample_turn))"
    "\<not> shouldBypassNoSandboxApproval (turnApprovalPolicy (Some sample_turn))" by code_simp+
  have len: "length (snd (snd ?r)) = 3"
    using denied esc
    by (simp add: runShellWithEscalation_def resolveSandboxEscalation_def log_run_def log_ask_def sample_run_def
        sample_ask_def ty Let_def decision_of_def reviewDecisionApproves_def)
  obtain res w' log where r: "?r = (res, (w', log))" by (metis prod.exhaust)
  with len have "length log = 3" by simp
  with unsandboxed_run_needs_approval [OF r] ty
  show ?thesis unfolding r snd_conv by (elim exE conjE disjE) auto
qed

text \<open>
  The remembered approvals: the prompt is skipped only if all keys were approved for the session, and a key
  becomes approved for the session only by such an answer to a prompt that included it.
\<close>

lemma foldl_store_Put:
  "isApprovedForSession marshal (foldl (\<lambda>m key. store_Put marshal m key d) mem keys) k \<longleftrightarrow>
     (if marshal k \<noteq> None \<and> marshal k \<in> marshal ` set keys then rd_Kind d = RdApprovedForSession
      else isApprovedForSession marshal mem k)"
proof (induction keys arbitrary: mem)
  case (Cons key keys)
  have one: "isApprovedForSession marshal (store_Put marshal mem key d) k \<longleftrightarrow>
     (if marshal k \<noteq> None \<and> marshal k = marshal key then rd_Kind d = RdApprovedForSession
      else isApprovedForSession marshal mem k)"
    by (auto simp: isApprovedForSession_def store_Get_def store_Put_def split: option.splits)
  show ?case by (auto simp: Cons one)
qed simp

lemma WithCachedApproval_memory:
  assumes "WithCachedApproval marshal mem keys fetch w = (d, mem', w')"
  shows "isApprovedForSession marshal mem' k \<longleftrightarrow>
    isApprovedForSession marshal mem k \<or>
    (rd_Kind d = RdApprovedForSession \<and> fetch w = (d, w') \<and> marshal k \<noteq> None \<and> marshal k \<in> marshal ` set keys \<and>
     \<not> list_all (isApprovedForSession marshal mem) keys)"
  using assms
  by (auto simp: WithCachedApproval_def Let_def foldl_store_Put split: if_splits prod.splits)

end
