(* ===== verification/Patch_Tool.thy ===== *)
theory Patch_Tool
  imports Patch_OS Patch_Roundtrip Turn_Sandbox
begin

text \<open>
  The apply\_patch tool of a turn: \<open>applyPatchExecutor\<close> of \<open>src/internal/core/tool_executors.go\<close>, over the patch
  engine. JSON decoding of the arguments is a parameter. The tool never consults the turn's sandbox mode or
  approval policy; the last lemma exhibits the consequence.
\<close>

datatype ToolPayload = PayloadFunction string | PayloadCustom string | PayloadOther

datatype tool_error = RespondToModelError string | FatalError string

record json_decoders =
  jd_input :: "string \<Rightarrow> (string, string) result"
  jd_bare :: "string \<Rightarrow> string option"

definition extractPatch :: "json_decoders \<Rightarrow> ToolPayload \<Rightarrow> (tool_error, string) result" where
  "extractPatch dec p =
     (case p of
        PayloadCustom input \<Rightarrow> Inr input
      | PayloadFunction arguments \<Rightarrow>
          (case jd_input dec arguments of
             Inr input \<Rightarrow> Inr input
           | Inl err \<Rightarrow>
               (case jd_bare dec arguments of
                  Some bare \<Rightarrow> Inr bare
                | None \<Rightarrow> Inl (RespondToModelError (''failed to parse apply_patch arguments: '' @ err))))
      | PayloadOther \<Rightarrow> Inl (FatalError ''apply_patch invoked with incompatible payload''))"

definition applyPatchExecutor_Handle ::
  "go_env \<Rightarrow> json_decoders \<Rightarrow> os_env \<Rightarrow> 's FileSystem \<Rightarrow> TurnContext \<Rightarrow> ToolPayload \<Rightarrow> 's
   \<Rightarrow> 's \<times> (tool_error, string) result" where
  "applyPatchExecutor_Handle env dec os fs turn payload s =
     (case extractPatch dec payload of
        Inl e \<Rightarrow> (s, Inl e)
      | Inr patch \<Rightarrow>
          if TrimSpace patch = [] then (s, Inl (RespondToModelError ''apply_patch requires a non-empty patch''))
          else case FromAbsolutePath False (os_home os) (os_getwd os) (tc_Cwd turn) of
              Inl cerr \<Rightarrow> (s, Inl (RespondToModelError (''invalid cwd for apply_patch: '' @ cwd_error_text env cerr)))
            | Inr cwd \<Rightarrow>
                (case ApplyPatch fs (\<lambda>p. ResolvePathAgainstBase False (os_home os) p cwd) buffer_writer patch s [] [] of
                   (s', stdout, stderr, Inl failure) \<Rightarrow>
                     let msg = TrimSpace stderr in
                     (s', Inl (RespondToModelError (if msg = [] then apply_error_text (afErr failure) else msg)))
                 | (s', stdout, stderr, Inr _) \<Rightarrow>
                     let out = TrimSpace stdout in
                     (s', Inr (if out = [] then ''Patch applied.'' else out))))"

text \<open>
  In read-only mode with an approval policy that always asks, the tool writes a file that the policy of
  the turn does not let be written.
\<close>

definition untrusted_turn :: TurnContext where
  "untrusted_turn = \<lparr>tc_Cwd = ''/ws'', tc_ApprovalPolicy = \<lparr>ask_Kind = AskUnlessTrusted, ask_Granular = None\<rparr>,
     tc_SandboxMode = SmReadOnly, tc_NetworkAccessEnabled = False, tc_WindowsSandboxLevel = WslDisabled\<rparr>"

definition add_hunk :: Hunk where
  "add_hunk = \<lparr>hunkKind = HunkAddFile, hunkPath = ''f'', hunkContents = ''x'' @ nl, hunkMovePath = [],
     hunkHasMovePath = False, hunkChunks = []\<rparr>"

definition ws_disk :: disk where
  "ws_disk = \<lparr>nodes = [(''/'', NDir), (''/ws'', NDir)], unreadable = [], readonly = []\<rparr>"

definition no_json :: json_decoders where
  "no_json = \<lparr>jd_input = (\<lambda>_. Inl []), jd_bare = (\<lambda>_. None)\<rparr>"

lemma add_hunk_wf: "list_all wf_hunk [add_hunk]" "wf_env None"
  by (simp_all add: add_hunk_def wf_env_def wf_hunk_def wf_path_def wf_contents_def wf_chunk_def wf_line_def content_lines_def
      drop_trailing_empty_def HasSuffix_def HasPrefix_def TrimSpace_plain plain_char_def is_space_def markers)

lemma add_hunk_applied:
  "fst (applyHunksToFiles OSFileSystem (\<lambda>p. ResolvePathAgainstBase False None p ''/ws'') [add_hunk] ws_disk emptyAppliedPatchDelta) =
     ws_disk\<lparr>nodes := (''/ws/f'', NFile (''x'' @ nl)) # nodes ws_disk\<rparr>"
proof -
  have res: "ResolvePathAgainstBase False None ''f'' ''/ws'' = ''/ws/f''" by code_simp
  have par: "parentDir ''/ws/f'' = Some ''/ws''" "parentDir ''/ws'' = Some ''/''" by code_simp+
  show ?thesis
    by (simp add: applyHunksToFiles_def add_hunk_def apply_hunk_def apply_add_def res
      note_affected_def TargetPath_def emptyAppliedPatchDelta_def noteExistingPathDeltaSupport_def
      readFileTextOK_def ensureNotDirectory_def readOptionalFileTextForDelta_def
      writeFileWithMissingParentRetry_def OSFileSystem_def os_Lstat_def lookup_node_def ws_disk_def
      OSFileSystem_ReadFileText_def os_ReadFile_def follow_links.simps os_Remove_def os_WriteFile_def
      delete_node_def par utf8_Valid_ascii numeral_eq_Suc Let_def)
qed

lemma patch_tool_ignores_read_only_mode:
  "fst (applyPatchExecutor_Handle posix_env no_json sample_os OSFileSystem untrusted_turn
     (PayloadCustom (print_patch None [add_hunk])) ws_disk) =
   ws_disk\<lparr>nodes := (''/ws/f'', NFile (''x'' @ nl)) # nodes ws_disk\<rparr>"
  "\<not> canWritePathWithCwd sample_os (tp_FileSystem (resolveTurnSandboxPolicy Linux (Some untrusted_turn))) ''/ws/f'' ''/ws''"
proof -
  have cwd: "FromAbsolutePath False (os_home sample_os) (os_getwd sample_os) (tc_Cwd untrusted_turn) = Inr ''/ws''" by code_simp
  have home: "os_home sample_os = None" by code_simp
  have ne: "print_patch None [add_hunk] \<noteq> []" by code_simp
  have parse: "ParsePatch (print_patch None [add_hunk]) = Inr \<lparr>prPatch = print_patch None [add_hunk], prHunks = [add_hunk],
      prWorkdir = None, prEnvironmentID = None\<rparr>"
    unfolding ParsePatch_def using add_hunk_wf by (intro parsePatchText_printed)
  obtain d r where app: "applyHunksToFiles OSFileSystem (\<lambda>p. ResolvePathAgainstBase False None p ''/ws'') [add_hunk] ws_disk
      emptyAppliedPatchDelta = (ws_disk\<lparr>nodes := (''/ws/f'', NFile (''x'' @ nl)) # nodes ws_disk\<rparr>, d, r)"
    using add_hunk_applied by (metis prod.collapse)
  show "fst (applyPatchExecutor_Handle posix_env no_json sample_os OSFileSystem untrusted_turn
     (PayloadCustom (print_patch None [add_hunk])) ws_disk) =
   ws_disk\<lparr>nodes := (''/ws/f'', NFile (''x'' @ nl)) # nodes ws_disk\<rparr>"
    unfolding applyPatchExecutor_Handle_def extractPatch_def ApplyPatch_def
    by (simp add: cwd [unfolded home] home parse TrimSpace_print_patch ne ApplyHunks_def app Let_def split: sum.split prod.split option.split)
  show "\<not> canWritePathWithCwd sample_os (tp_FileSystem (resolveTurnSandboxPolicy Linux (Some untrusted_turn))) ''/ws/f'' ''/ws''"
    by code_simp
qed

end
