(* ===== verification/Text_Truncate.thy ===== *)
theory Text_Truncate
  imports Go_Scan
begin

text \<open>
  The truncation helpers of \<open>src/internal/utils/truncation\<close> (tokens.go, policy.go, truncate\_string.go,
  truncation.go and the items of content\_item.go without their JSON methods) and the second copy of the string
  helpers in \<open>src/internal/utils/strutil\<close> (truncate.go, TakeBytesAtCharBoundary of strutil.go). Go's \<open>int\<close> is an
  integer of 64 bits; where the code relies on overflow, wrap-around is written out (\<open>wrap64\<close>). The ellipsis
  of the markers is the three bytes of its UTF-8 encoding.
\<close>

section \<open>Arithmetic of 64-bit integers\<close>

definition maxInt :: int where "maxInt = 2 ^ 63 - 1"

definition minInt :: int where "minInt = - (2 ^ 63)"

definition wrap64 :: "int \<Rightarrow> int" where
  "wrap64 x = (x + 2 ^ 63) mod 2 ^ 64 - 2 ^ 63"

text \<open>Go's integer division truncates toward zero; its result wraps (\<open>minInt / -1\<close>).\<close>

definition go_div :: "int \<Rightarrow> int \<Rightarrow> int" where
  "go_div a b = wrap64 (sgn a * sgn b * (\<bar>a\<bar> div \<bar>b\<bar>))"

definition saturatingAddInt :: "int \<Rightarrow> int \<Rightarrow> int" where
  "saturatingAddInt a b =
     (let sum = wrap64 (a + b) in
      if (a > 0 \<and> b > 0 \<and> sum < 0) \<or> (a > wrap64 (maxInt - b) \<and> b > 0) then maxInt
      else if (a < 0 \<and> b < 0 \<and> sum \<ge> 0) \<or> (a < wrap64 (minInt - b) \<and> b < 0) then minInt
      else sum)"

definition saturatingMulInt :: "int \<Rightarrow> int \<Rightarrow> int" where
  "saturatingMulInt a b =
     (if a = 0 \<or> b = 0 then 0
      else
        let product = wrap64 (a * b) in
        if go_div product b \<noteq> a then (if (a > 0) = (b > 0) then maxInt else minInt)
        else product)"

definition saturatingSubInt :: "int \<Rightarrow> int \<Rightarrow> int" where
  "saturatingSubInt a b = (if a < b then 0 else a - b)"

definition approxBytesPerToken :: int where "approxBytesPerToken = 4"

definition ceilDivInt :: "int \<Rightarrow> int \<Rightarrow> int" where
  "ceilDivInt n d = (if n \<le> 0 then 0 else go_div (saturatingAddInt n (d - 1)) d)"

text \<open>The unsigned variant works on values below \<open>2 ^ 64\<close>.\<close>

definition ceilDivUint64 :: "int \<Rightarrow> int \<Rightarrow> int" where
  "ceilDivUint64 n d =
     (let add = d - 1;
          n' = (if n > (2 ^ 64 - 1) - add then 2 ^ 64 - 1 else n + add) in
      n' div d)"

definition ApproxTokenCount :: "string \<Rightarrow> int" where
  "ApproxTokenCount text' = ceilDivInt (int (length text')) approxBytesPerToken"

definition ApproxBytesForTokens :: "int \<Rightarrow> int" where
  "ApproxBytesForTokens tokens = saturatingMulInt tokens approxBytesPerToken"

definition ApproxTokensFromByteCount :: "int \<Rightarrow> int" where
  "ApproxTokensFromByteCount bytes = ceilDivUint64 bytes approxBytesPerToken"

definition ApproxTokensFromByteCountI64 :: "int \<Rightarrow> int" where
  "ApproxTokensFromByteCountI64 bytes =
     (if bytes \<le> 0 then 0
      else
        let tokens = ApproxTokensFromByteCount bytes in
        if tokens > 2 ^ 63 - 1 then 2 ^ 63 - 1 else tokens)"

section \<open>Policies\<close>

datatype PolicyMode = ModeBytes | ModeTokens

record TruncationPolicy =
  tp_mode :: PolicyMode
  tp_limit :: int

definition BytesPolicy :: "int \<Rightarrow> TruncationPolicy" where
  "BytesPolicy bytes = \<lparr>tp_mode = ModeBytes, tp_limit = (if bytes < 0 then 0 else bytes)\<rparr>"

definition TokensPolicy :: "int \<Rightarrow> TruncationPolicy" where
  "TokensPolicy tokens = \<lparr>tp_mode = ModeTokens, tp_limit = (if tokens < 0 then 0 else tokens)\<rparr>"

definition TokenBudget :: "TruncationPolicy \<Rightarrow> int" where
  "TokenBudget p =
     (case tp_mode p of
        ModeBytes \<Rightarrow>
          (let tokens = ApproxTokensFromByteCount (tp_limit p) in
           if tokens > maxInt then maxInt else tokens)
      | ModeTokens \<Rightarrow> tp_limit p)"

definition ByteBudget :: "TruncationPolicy \<Rightarrow> int" where
  "ByteBudget p =
     (case tp_mode p of ModeBytes \<Rightarrow> tp_limit p | ModeTokens \<Rightarrow> ApproxBytesForTokens (tp_limit p))"

section \<open>Removing the middle of a string\<close>

definition splitBudget :: "int \<Rightarrow> int \<times> int" where
  "splitBudget budget = (let left = go_div budget 2 in (left, budget - left))"

text \<open>
  The loop of splitString. \<open>rest\<close> is the string from position \<open>idx\<close>, \<open>pe\<close> is prefixEnd, \<open>sf\<close> is suffixStart once
  it is set. The two packages differ in how wide they take a code point to be (\<open>wd\<close>): truncation uses the width
  that was decoded, strutil the length of the encoding of the decoded code point.
\<close>

function split_loop ::
  "(rune \<times> nat \<Rightarrow> int) \<Rightarrow> int \<Rightarrow> int \<Rightarrow> string \<Rightarrow> nat \<Rightarrow> int \<Rightarrow> nat option \<Rightarrow> nat \<Rightarrow> int \<times> nat option \<times> nat" where
  "split_loop wd b ts rest idx pe sf removed =
     (if rest = [] then (pe, sf, removed)
      else
        let d = decode_rune rest;
            charEnd = int idx + wd d;
            rest' = drop (snd d) rest;
            idx' = idx + snd d in
        if charEnd \<le> b then split_loop wd b ts rest' idx' charEnd sf removed
        else if int idx \<ge> ts
        then split_loop wd b ts rest' idx' pe (Some (case sf of None \<Rightarrow> idx | Some i \<Rightarrow> i)) removed
        else split_loop wd b ts rest' idx' pe sf (removed + 1))"
  by pat_completeness auto
termination
  by (relation "measure (\<lambda>(wd, b, ts, rest, _). length rest)") (auto simp: decode_rune_width_pos)

declare split_loop.simps [simp del]

definition split_with :: "(rune \<times> nat \<Rightarrow> int) \<Rightarrow> string \<Rightarrow> int \<Rightarrow> int \<Rightarrow> nat \<times> string \<times> string" where
  "split_with wd s beginningBytes endBytes =
     (if s = [] then (0, [], [])
      else
        let n = int (length s);
            tailStartTarget = saturatingSubInt n endBytes in
        case split_loop wd beginningBytes tailStartTarget s 0 0 None 0 of
          (prefixEnd, sf, removed) \<Rightarrow>
            let suffixStart = (case sf of None \<Rightarrow> n | Some i \<Rightarrow> int i);
                suffixStart' = (if suffixStart < prefixEnd then prefixEnd else suffixStart) in
            (removed, take (nat prefixEnd) s, drop (nat suffixStart') s))"

definition splitString :: "string \<Rightarrow> int \<Rightarrow> int \<Rightarrow> nat \<times> string \<times> string" where
  "splitString = split_with (\<lambda>d. int (snd d))"

definition ellipsis :: string where
  "ellipsis = [CHR 0xE2, CHR 0x80, CHR 0xA6]"

definition formatTruncationMarker :: "bool \<Rightarrow> int \<Rightarrow> string" where
  "formatTruncationMarker useTokens removedCount =
     ellipsis @ itoa removedCount @ (if useTokens then '' tokens truncated'' else '' chars truncated'') @ ellipsis"

definition removedUnits :: "bool \<Rightarrow> int \<Rightarrow> int \<Rightarrow> int" where
  "removedUnits useTokens removedBytes removedChars =
     (if useTokens then ApproxTokensFromByteCount (if removedBytes < 0 then 0 else removedBytes)
      else if removedChars < 0 then 0 else removedChars)"

definition assembleTruncatedOutput :: "string \<Rightarrow> string \<Rightarrow> string \<Rightarrow> string" where
  "assembleTruncatedOutput pre suf marker = pre @ marker @ suf"

definition truncateWithByteEstimate :: "string \<Rightarrow> int \<Rightarrow> bool \<Rightarrow> string" where
  "truncateWithByteEstimate s maxBytes useTokens =
     (if s = [] then []
      else
        let totalChars = int (length (runes s)) in
        if maxBytes = 0
        then formatTruncationMarker useTokens (removedUnits useTokens (int (length s)) totalChars)
        else if int (length s) \<le> maxBytes then s
        else
          let totalBytes = int (length s) in
          case splitBudget maxBytes of (leftBudget, rightBudget) \<Rightarrow>
          (case splitString s leftBudget rightBudget of (removedChars, left, right) \<Rightarrow>
             let marker = formatTruncationMarker useTokens
                   (removedUnits useTokens (saturatingSubInt totalBytes maxBytes) (int removedChars)) in
             assembleTruncatedOutput left right marker))"

definition TruncateMiddleChars :: "string \<Rightarrow> int \<Rightarrow> string" where
  "TruncateMiddleChars s maxBytes = truncateWithByteEstimate s maxBytes False"

text \<open>The second result is \<open>None\<close> where the code returns ok = false.\<close>

definition TruncateMiddleWithTokenBudget :: "string \<Rightarrow> int \<Rightarrow> string \<times> int option" where
  "TruncateMiddleWithTokenBudget s maxTokens =
     (if s = [] then ([], None)
      else if maxTokens > 0 \<and> int (length s) \<le> ApproxBytesForTokens maxTokens then (s, None)
      else
        let truncated = truncateWithByteEstimate s (ApproxBytesForTokens maxTokens) True;
            totalTokens = ApproxTokenCount s in
        if truncated = s then (truncated, None) else (truncated, Some totalTokens))"

section \<open>Truncating texts and tool output\<close>

definition TruncateText :: "string \<Rightarrow> TruncationPolicy \<Rightarrow> string" where
  "TruncateText content policy =
     (case tp_mode policy of
        ModeBytes \<Rightarrow> TruncateMiddleChars content (tp_limit policy)
      | ModeTokens \<Rightarrow> fst (TruncateMiddleWithTokenBudget content (tp_limit policy)))"

fun count_lines_loop :: "string \<Rightarrow> nat \<Rightarrow> bool \<Rightarrow> nat" where
  "count_lines_loop [] n pending = (if pending then n + 1 else n)"
| "count_lines_loop (c # cs) n pending =
     (if c = CHR ''\<newline>'' then count_lines_loop cs (n + 1) False else count_lines_loop cs n True)"

definition countLines :: "string \<Rightarrow> nat" where
  "countLines s = (if s = [] then 0 else count_lines_loop s 0 False)"

definition FormattedTruncateText :: "string \<Rightarrow> TruncationPolicy \<Rightarrow> string" where
  "FormattedTruncateText content policy =
     (if int (length content) \<le> ByteBudget policy then content
      else ''Total output lines: '' @ itoa (int (countLines content)) @ [CHR ''\<newline>'', CHR ''\<newline>'']
        @ TruncateText content policy)"

datatype FunctionCallOutputContentItem =
    InputText string
  | InputImage string "string option"
  | EncryptedContent string

fun is_text_item :: "FunctionCallOutputContentItem \<Rightarrow> bool" where
  "is_text_item (InputText _) \<longleftrightarrow> True"
| "is_text_item _ \<longleftrightarrow> False"

fun combine_texts :: "string \<Rightarrow> FunctionCallOutputContentItem list \<Rightarrow> string" where
  "combine_texts acc [] = acc"
| "combine_texts acc (InputText t # items) =
     combine_texts (acc @ (if acc \<noteq> [] then [CHR ''\<newline>''] else []) @ t) items"
| "combine_texts acc (_ # items) = combine_texts acc items"

definition FormattedTruncateTextContentItemsWithPolicy ::
  "FunctionCallOutputContentItem list \<Rightarrow> TruncationPolicy \<Rightarrow> FunctionCallOutputContentItem list \<times> int option" where
  "FormattedTruncateTextContentItemsWithPolicy items policy =
     (if \<not> list_ex is_text_item items then (items, None)
      else
        let combined = combine_texts [] items in
        if int (length combined) \<le> ByteBudget policy then (items, None)
        else (InputText (FormattedTruncateText combined policy) # filter (\<lambda>i. \<not> is_text_item i) items,
              Some (ApproxTokenCount combined)))"

definition text_cost :: "TruncationPolicy \<Rightarrow> string \<Rightarrow> int" where
  "text_cost policy text' =
     (case tp_mode policy of ModeBytes \<Rightarrow> int (length text') | ModeTokens \<Rightarrow> ApproxTokenCount text')"

fun spend_loop ::
  "TruncationPolicy \<Rightarrow> int \<Rightarrow> nat \<Rightarrow> FunctionCallOutputContentItem list \<Rightarrow> FunctionCallOutputContentItem list \<times> nat" where
  "spend_loop policy remaining omitted [] = ([], omitted)"
| "spend_loop policy remaining omitted (InputText t # items) =
     (if remaining = 0 then spend_loop policy remaining (omitted + 1) items
      else if text_cost policy t \<le> remaining
      then (case spend_loop policy (saturatingSubInt remaining (text_cost policy t)) omitted items of
              (out, om) \<Rightarrow> (InputText t # out, om))
      else
        let snippetPolicy = (case tp_mode policy of
              ModeBytes \<Rightarrow> BytesPolicy remaining | ModeTokens \<Rightarrow> TokensPolicy remaining);
            snippet = TruncateText t snippetPolicy in
        if snippet = [] then spend_loop policy 0 (omitted + 1) items
        else (case spend_loop policy 0 omitted items of (out, om) \<Rightarrow> (InputText snippet # out, om)))"
| "spend_loop policy remaining omitted (item # items) =
     (case spend_loop policy remaining omitted items of (out, om) \<Rightarrow> (item # out, om))"

definition TruncateFunctionOutputItemsWithPolicy ::
  "FunctionCallOutputContentItem list \<Rightarrow> TruncationPolicy \<Rightarrow> FunctionCallOutputContentItem list" where
  "TruncateFunctionOutputItemsWithPolicy items policy =
     (let remainingBudget = (case tp_mode policy of ModeBytes \<Rightarrow> ByteBudget policy | ModeTokens \<Rightarrow> TokenBudget policy) in
      case spend_loop policy remainingBudget 0 items of (out, omittedTextItems) \<Rightarrow>
        if omittedTextItems > 0
        then out @ [InputText (''[omitted '' @ itoa (int omittedTextItems) @ '' text items ...]'')]
        else out)"

section \<open>The copy in strutil\<close>

text \<open>utf8.RuneLen.\<close>

definition RuneLen :: "rune \<Rightarrow> int" where
  "RuneLen r =
     (if r \<le> 0x7F then 1 else if r \<le> 0x7FF then 2
      else if 0xD800 \<le> r \<and> r \<le> 0xDFFF then - 1
      else if r \<le> 0xFFFF then 3 else if r \<le> 0x10FFFF then 4 else - 1)"

definition strutil_splitString :: "string \<Rightarrow> int \<Rightarrow> int \<Rightarrow> nat \<times> string \<times> string" where
  "strutil_splitString = split_with (\<lambda>d. RuneLen (fst d))"

definition strutil_ApproxTokensFromByteCount :: "int \<Rightarrow> int" where
  "strutil_ApproxTokensFromByteCount bytes = ((bytes mod 2 ^ 64 + 3) mod 2 ^ 64) div 4"

definition strutil_removedUnits :: "bool \<Rightarrow> int \<Rightarrow> int \<Rightarrow> int" where
  "strutil_removedUnits useTokens removedBytes removedChars =
     (if useTokens then strutil_ApproxTokensFromByteCount removedBytes
      else if removedChars < 0 then 0 else removedChars)"

definition strutil_truncateWithByteEstimate :: "string \<Rightarrow> int \<Rightarrow> bool \<Rightarrow> string" where
  "strutil_truncateWithByteEstimate s maxBytes useTokens =
     (if s = [] then []
      else
        let totalChars = int (length (runes s)) in
        if maxBytes \<le> 0
        then formatTruncationMarker useTokens (strutil_removedUnits useTokens (int (length s)) totalChars)
        else if int (length s) \<le> maxBytes then s
        else
          let totalBytes = int (length s) in
          case splitBudget maxBytes of (leftBudget, rightBudget) \<Rightarrow>
          (case strutil_splitString s leftBudget rightBudget of (removedChars, left, right) \<Rightarrow>
             let marker = formatTruncationMarker useTokens
                   (strutil_removedUnits useTokens (saturatingSubInt totalBytes maxBytes) (int removedChars)) in
             assembleTruncatedOutput left right marker))"

definition strutil_TruncateMiddleChars :: "string \<Rightarrow> int \<Rightarrow> string" where
  "strutil_TruncateMiddleChars s maxBytes = strutil_truncateWithByteEstimate s maxBytes False"

function take_boundary_loop :: "string \<Rightarrow> int \<Rightarrow> nat \<Rightarrow> int \<Rightarrow> int" where
  "take_boundary_loop rest maxBytes i lastOK =
     (if rest = [] then lastOK
      else
        let d = decode_rune rest;
            nb = int i + RuneLen (fst d) in
        if nb > maxBytes then lastOK
        else take_boundary_loop (drop (snd d) rest) maxBytes (i + snd d) nb)"
  by pat_completeness auto
termination
  by (relation "measure (\<lambda>(rest, _). length rest)") (auto simp: decode_rune_width_pos)

declare take_boundary_loop.simps [simp del]

definition TakeBytesAtCharBoundary :: "string \<Rightarrow> int \<Rightarrow> string" where
  "TakeBytesAtCharBoundary s maxBytes =
     (if int (length s) \<le> maxBytes then s
      else take (nat (take_boundary_loop s maxBytes 0 0)) s)"

section \<open>What is kept\<close>

lemma decode_rune_prefix:
  assumes "x \<noteq> []" "snd (decode_rune (x @ y)) \<le> length x"
  shows "decode_rune (x @ y) = decode_rune x"
proof -
  obtain c cs where x: "x = c # cs" using assms(1) by (cases x) auto
  consider "cs = []" | c1 where "cs = [c1]" | c1 c2 where "cs = [c1, c2]" | c1 c2 c3 ds where "cs = c1 # c2 # c3 # ds"
    by (metis list.exhaust)
  then show ?thesis
  proof cases
    case 1
    then show ?thesis using assms(2) by (cases y) (auto simp: x decode_rune.simps(2) Let_def split: list.splits prod.splits if_splits)
  next
    case 2
    then show ?thesis using assms(2) by (cases y) (auto simp: x decode_rune.simps(2) Let_def split: list.splits prod.splits if_splits)
  next
    case 3
    then show ?thesis using assms(2) by (cases y) (auto simp: x decode_rune.simps(2) Let_def split: list.splits prod.splits if_splits)
  next
    case 4
    then show ?thesis by (cases "second_range (byte c)") (simp add: x decode_rune.simps(2) Let_def)
  qed
qed

lemma runes_step:
  "s \<noteq> [] \<Longrightarrow> runes s = fst (decode_rune s) # runes (drop (snd (decode_rune s)) s)"
  by (subst runes.simps) simp

lemma runes_append_step:
  assumes "rest \<noteq> []" "rest = take (snd (decode_rune rest)) rest @ mid @ after"
  shows "runes (take (snd (decode_rune rest)) rest @ mid) = fst (decode_rune rest) # runes mid"
proof -
  let ?w = "snd (decode_rune rest)" and ?x = "take (snd (decode_rune rest)) rest @ mid"
  have w: "0 < ?w" "?w \<le> length rest" using assms(1) by (simp_all add: decode_rune_width_pos decode_rune_width_le)
  have nonempty: "?x \<noteq> []" using w assms(1) by simp
  have "decode_rune (?x @ after) = decode_rune ?x"
    using decode_rune_prefix [OF nonempty, of after] w assms(2) by simp
  moreover have "?x @ after = rest" using assms(2) by simp
  ultimately have "decode_rune ?x = decode_rune rest" by simp
  then show ?thesis using w by (simp add: runes_step [OF nonempty])
qed

abbreviation width :: "rune \<times> nat \<Rightarrow> int" where
  "width \<equiv> (\<lambda>d. int (snd d))"

lemma suffix_phase:
  assumes "rest \<noteq> [] \<Longrightarrow> b < int idx + width (decode_rune rest)" "ts \<le> int idx"
  shows "split_loop width b ts rest idx pe (Some j) removed = (pe, Some j, removed)"
  using assms
proof (induction width b ts rest idx pe "Some j" removed rule: split_loop.induct)
  case (1 b ts rest idx pe removed)
  show ?case
  proof (cases "rest = []")
    case False
    have "split_loop width b ts (drop (snd (decode_rune rest)) rest) (idx + snd (decode_rune rest)) pe (Some j) removed
        = (pe, Some j, removed)"
      using 1(2) [OF False refl refl refl refl _ _ _] 1(4,5) False decode_rune_width_pos by (force simp: not_le)
    then show ?thesis using 1(4,5) False by (subst split_loop.simps) (simp add: Let_def not_le)
  qed (subst split_loop.simps, simp)
qed

text \<open>
  The part that is removed is cut at code points, and no more is removed than the budget of the suffix
  requires: its last code point starts before the target position of the suffix.
\<close>

lemma removal_phase:
  assumes "rest \<noteq> [] \<Longrightarrow> b < int idx + width (decode_rune rest)"
  shows "\<exists>mid after. rest = mid @ after \<and> runes rest = runes mid @ runes after \<and>
    split_loop width b ts rest idx pe None removed =
      (pe, if after = [] then None else Some (idx + length mid), removed + length (runes mid)) \<and>
    (after \<noteq> [] \<longrightarrow> ts \<le> int (idx + length mid)) \<and>
    (mid \<noteq> [] \<longrightarrow> (\<exists>m1 r. mid = m1 @ r \<and> length (runes mid) = length (runes m1) + 1 \<and> int (idx + length m1) < ts))"
  using assms
proof (induction "length rest" arbitrary: rest idx removed rule: less_induct)
  case less
  let ?w = "snd (decode_rune rest)"
  show ?case
  proof (cases "rest = []")
    case True
    then show ?thesis by (intro exI [of _ "[]"]) (simp add: split_loop.simps)
  next
    case False
    have w: "0 < ?w" "?w \<le> length rest" using False by (simp_all add: decode_rune_width_pos decode_rune_width_le)
    have b: "b < int idx + int ?w" using less.prems False by simp
    have next_wide: "b < int (idx + ?w) + width (decode_rune (drop ?w rest))" using b by simp
    then have wide: "drop ?w rest \<noteq> [] \<Longrightarrow> b < int (idx + ?w) + width (decode_rune (drop ?w rest))" by simp
    have shorter: "length (drop ?w rest) < length rest" using w by simp
    show ?thesis
    proof (cases "ts \<le> int idx")
      case True
      have "split_loop width b ts (drop ?w rest) (idx + ?w) pe (Some idx) removed = (pe, Some idx, removed)"
        by (rule suffix_phase) (use next_wide True in auto)
      then have "split_loop width b ts rest idx pe None removed = (pe, Some idx, removed)"
        using False b True by (subst split_loop.simps) (simp add: Let_def)
      then show ?thesis using True False by (intro exI [of _ "[]"] exI [of _ rest]) simp
    next
      case ts: False
      obtain mid after where *: "drop ?w rest = mid @ after" "runes (drop ?w rest) = runes mid @ runes after"
        "split_loop width b ts (drop ?w rest) (idx + ?w) pe None (removed + 1) =
          (pe, if after = [] then None else Some (idx + ?w + length mid), removed + 1 + length (runes mid))"
        "after \<noteq> [] \<longrightarrow> ts \<le> int (idx + ?w + length mid)"
        "mid \<noteq> [] \<longrightarrow> (\<exists>m1 r. mid = m1 @ r \<and> length (runes mid) = length (runes m1) + 1 \<and> int (idx + ?w + length m1) < ts)"
        using less.hyps [OF shorter wide, of "removed + 1"] by blast
      let ?mid = "take ?w rest @ mid"
      have split: "rest = take ?w rest @ mid @ after" using *(1) by (metis append_take_drop_id)
      have mid: "runes ?mid = fst (decode_rune rest) # runes mid" by (rule runes_append_step [OF False split])
      have loop: "split_loop width b ts rest idx pe None removed =
          split_loop width b ts (drop ?w rest) (idx + ?w) pe None (removed + 1)"
        using False b ts by (subst split_loop.simps) (simp add: Let_def)
      have "\<exists>m1 r. ?mid = m1 @ r \<and> length (runes ?mid) = length (runes m1) + 1 \<and> int (idx + length m1) < ts"
      proof (cases "mid = []")
        case True
        show ?thesis by (rule exI [of _ "[]"], rule exI [of _ ?mid]) (use ts mid True in simp)
      next
        case nonempty: False
        obtain m1 r where m1: "mid = m1 @ r" "length (runes mid) = length (runes m1) + 1" "int (idx + ?w + length m1) < ts"
          using *(5) nonempty by auto
        have "rest = take ?w rest @ m1 @ (r @ after)" using split m1(1) by simp
        from runes_append_step [OF False this] show ?thesis
          using m1 mid w by (intro exI [of _ "take ?w rest @ m1"] exI [of _ r]) (simp add: min_absorb2)
      qed
      then show ?thesis using * loop mid split w runes_step [OF False]
        by (intro exI [of _ ?mid] exI [of _ after]) (auto simp: min_absorb2 add.assoc)
    qed
  qed
qed

lemma prefix_phase:
  "\<exists>pre rest'. rest = pre @ rest' \<and> runes rest = runes pre @ runes rest' \<and>
     split_loop width b ts rest idx (int idx) None removed =
       split_loop width b ts rest' (idx + length pre) (int (idx + length pre)) None removed \<and>
     (pre \<noteq> [] \<longrightarrow> int (idx + length pre) \<le> b) \<and>
     (rest' \<noteq> [] \<longrightarrow> b < int (idx + length pre) + width (decode_rune rest'))"
proof (induction "length rest" arbitrary: rest idx rule: less_induct)
  case less
  let ?w = "snd (decode_rune rest)"
  show ?case
  proof (cases "rest \<noteq> [] \<and> int idx + int ?w \<le> b")
    case False
    then show ?thesis by (intro exI [of _ "[]"] exI [of _ rest]) (auto simp: not_le)
  next
    case True
    have w: "0 < ?w" "?w \<le> length rest" using True by (simp_all add: decode_rune_width_pos decode_rune_width_le)
    have shorter: "length (drop ?w rest) < length rest" using w by simp
    obtain pre rest' where *: "drop ?w rest = pre @ rest'" "runes (drop ?w rest) = runes pre @ runes rest'"
      "split_loop width b ts (drop ?w rest) (idx + ?w) (int (idx + ?w)) None removed =
         split_loop width b ts rest' (idx + ?w + length pre) (int (idx + ?w + length pre)) None removed"
      "pre \<noteq> [] \<longrightarrow> int (idx + ?w + length pre) \<le> b"
      "rest' \<noteq> [] \<longrightarrow> b < int (idx + ?w + length pre) + width (decode_rune rest')"
      using less.hyps [OF shorter, of "idx + ?w"] by blast
    have split: "rest = take ?w rest @ pre @ rest'" using *(1) by (metis append_take_drop_id)
    have loop: "split_loop width b ts rest idx (int idx) None removed =
        split_loop width b ts (drop ?w rest) (idx + ?w) (int (idx + ?w)) None removed"
      using True by (subst split_loop.simps) (simp add: Let_def)
    show ?thesis
    proof (intro exI conjI)
      show "rest = (take ?w rest @ pre) @ rest'" using split by simp
      show "runes rest = runes (take ?w rest @ pre) @ runes rest'"
        using runes_append_step [OF _ split] True runes_step [of rest] *(2) by simp
    qed (use * loop w True in \<open>auto simp: min_absorb2 add.assoc\<close>)
  qed
qed

lemma splitString_spec:
  assumes "0 \<le> b" "0 \<le> e"
  shows "\<exists>before mid after. splitString s b e = (length (runes mid), before, after) \<and>
    s = before @ mid @ after \<and> runes s = runes before @ runes mid @ runes after \<and>
    int (length before) \<le> b \<and> int (length after) \<le> e \<and>
    (mid @ after \<noteq> [] \<longrightarrow> b < int (length before) + width (decode_rune (mid @ after))) \<and>
    (mid \<noteq> [] \<longrightarrow> (\<exists>m1 r. mid = m1 @ r \<and> length (runes mid) = length (runes m1) + 1 \<and> e < int (length (r @ after))))"
proof (cases "s = []")
  case True
  then show ?thesis using assms by (intro exI [of _ "[]"]) (simp add: splitString_def split_with_def)
next
  case False
  let ?ts = "saturatingSubInt (int (length s)) e"
  obtain before rest where pre: "s = before @ rest" "runes s = runes before @ runes rest"
    "split_loop width b ?ts s 0 0 None 0 = split_loop width b ?ts rest (length before) (int (length before)) None 0"
    "before \<noteq> [] \<longrightarrow> int (length before) \<le> b"
    "rest \<noteq> [] \<longrightarrow> b < int (length before) + width (decode_rune rest)"
    using prefix_phase [of s b ?ts 0 0, unfolded add_0 of_nat_0] by blast
  have wide: "rest \<noteq> [] \<Longrightarrow> b < int (length before) + width (decode_rune rest)" using pre(5) by simp
  obtain mid after where mid: "rest = mid @ after" "runes rest = runes mid @ runes after"
    "split_loop width b ?ts rest (length before) (int (length before)) None 0 =
      (int (length before), if after = [] then None else Some (length before + length mid), 0 + length (runes mid))"
    "after \<noteq> [] \<longrightarrow> ?ts \<le> int (length before + length mid)"
    "mid \<noteq> [] \<longrightarrow> (\<exists>m1 r. mid = m1 @ r \<and> length (runes mid) = length (runes m1) + 1 \<and> int (length before + length m1) < ?ts)"
    using removal_phase [OF wide, of ?ts "int (length before)" 0] by blast
  have n: "length s = length before + length mid + length after" using pre(1) mid(1) by simp
  have res: "splitString s b e = (length (runes mid), before, after)"
    unfolding splitString_def split_with_def Let_def pre(3) mid(3) using False pre(1) mid(1) n
    by (auto simp: nat_add_distrib)
  show ?thesis
  proof (intro exI conjI)
    show "splitString s b e = (length (runes mid), before, after)" by (rule res)
    show "s = before @ mid @ after" "runes s = runes before @ runes mid @ runes after"
      using pre(1,2) mid(1,2) by simp_all
    show "int (length before) \<le> b" using pre(4) assms(1) by (cases "before = []") auto
    show "int (length after) \<le> e"
      using mid(4) assms(2) n by (cases "after = []") (auto simp: saturatingSubInt_def split: if_splits)
    show "mid @ after \<noteq> [] \<longrightarrow> b < int (length before) + width (decode_rune (mid @ after))" using pre(5) mid(1) by simp
    show "mid \<noteq> [] \<longrightarrow> (\<exists>m1 r. mid = m1 @ r \<and> length (runes mid) = length (runes m1) + 1 \<and> e < int (length (r @ after)))"
    proof
      assume "mid \<noteq> []"
      then obtain m1 r where m: "mid = m1 @ r" "length (runes mid) = length (runes m1) + 1"
        "int (length before + length m1) < ?ts" using mid(5) by auto
      then show "\<exists>m1 r. mid = m1 @ r \<and> length (runes mid) = length (runes m1) + 1 \<and> e < int (length (r @ after))"
        using n by (intro exI [of _ m1] exI [of _ r]) (auto simp: saturatingSubInt_def split: if_splits)
    qed
  qed
qed

lemma splitBudget_nonneg: "0 \<le> n \<Longrightarrow> n \<le> maxInt \<Longrightarrow> splitBudget n = (n div 2, n - n div 2)"
  by (auto simp: splitBudget_def go_div_def wrap64_def maxInt_def sgn_if Let_def)

text \<open>
  C2. Truncating a text to a byte budget: a text that fits is not changed. Otherwise what is removed is one
  stretch of whole code points in the middle, replaced by a marker that gives their number; the kept beginning
  takes at most half of the budget and the kept end at most the rest, and neither could have been extended by the
  next code point. With no budget only the marker is left.
\<close>

theorem TruncateMiddleChars_keeps_ends:
  assumes "0 \<le> maxBytes" "maxBytes \<le> maxInt"
  shows "if int (length s) \<le> maxBytes then TruncateMiddleChars s maxBytes = s
    else if maxBytes = 0
    then TruncateMiddleChars s maxBytes = formatTruncationMarker False (int (length (runes s)))
    else \<exists>before mid after.
      TruncateMiddleChars s maxBytes = before @ formatTruncationMarker False (int (length (runes mid))) @ after \<and>
      s = before @ mid @ after \<and> mid \<noteq> [] \<and> runes s = runes before @ runes mid @ runes after \<and>
      int (length before) \<le> maxBytes div 2 \<and> int (length after) \<le> maxBytes - maxBytes div 2 \<and>
      maxBytes div 2 < int (length before + snd (decode_rune (mid @ after))) \<and>
      (\<exists>m1 r. mid = m1 @ r \<and> length (runes mid) = length (runes m1) + 1 \<and>
         maxBytes - maxBytes div 2 < int (length (r @ after)))"
proof (cases "int (length s) \<le> maxBytes \<or> maxBytes = 0")
  case True
  then show ?thesis
    by (auto simp: TruncateMiddleChars_def truncateWithByteEstimate_def Let_def removedUnits_def)
next
  case False
  let ?b = "maxBytes div 2" and ?e = "maxBytes - maxBytes div 2"
  have "s \<noteq> []" using False assms(1) by auto
  have nn: "0 \<le> ?b" "0 \<le> ?e" using assms(1) by (simp, linarith)
  obtain before mid after where *: "splitString s ?b ?e = (length (runes mid), before, after)"
    "s = before @ mid @ after" "runes s = runes before @ runes mid @ runes after"
    "int (length before) \<le> ?b" "int (length after) \<le> ?e"
    "mid @ after \<noteq> [] \<longrightarrow> ?b < int (length before) + width (decode_rune (mid @ after))"
    "mid \<noteq> [] \<longrightarrow> (\<exists>m1 r. mid = m1 @ r \<and> length (runes mid) = length (runes m1) + 1 \<and> ?e < int (length (r @ after)))"
    using splitString_spec [OF nn, of s] by blast
  have nonempty: "mid \<noteq> []" using False *(2,4,5) by auto
  have result: "TruncateMiddleChars s maxBytes = before @ formatTruncationMarker False (int (length (runes mid))) @ after"
    unfolding TruncateMiddleChars_def truncateWithByteEstimate_def splitBudget_nonneg [OF assms] Let_def prod.case *(1)
    using False \<open>s \<noteq> []\<close> by (simp add: removedUnits_def assembleTruncatedOutput_def)
  have "maxBytes div 2 < int (length before + snd (decode_rune (mid @ after)))" using *(6) nonempty by simp
  then have "\<exists>before mid after.
      TruncateMiddleChars s maxBytes = before @ formatTruncationMarker False (int (length (runes mid))) @ after \<and>
      s = before @ mid @ after \<and> mid \<noteq> [] \<and> runes s = runes before @ runes mid @ runes after \<and>
      int (length before) \<le> ?b \<and> int (length after) \<le> ?e \<and> ?b < int (length before + snd (decode_rune (mid @ after))) \<and>
      (\<exists>m1 r. mid = m1 @ r \<and> length (runes mid) = length (runes m1) + 1 \<and> ?e < int (length (r @ after)))"
    using result nonempty *(2-5) *(7) by blast
  then show ?thesis using False by simp
qed

theorem TruncateMiddleChars_keeps_ends_witness:
  "\<exists>before mid after.
      TruncateMiddleChars ''abcdefgh'' 5 = before @ formatTruncationMarker False (int (length (runes mid))) @ after \<and>
      ''abcdefgh'' = before @ mid @ after \<and> mid \<noteq> [] \<and> int (length before) \<le> 2 \<and> int (length after) \<le> 3"
  using TruncateMiddleChars_keeps_ends [of 5 "''abcdefgh''"] by (auto simp: maxInt_def)

section \<open>Saturating arithmetic\<close>

lemma wrap64_id: "minInt \<le> x \<Longrightarrow> x \<le> maxInt \<Longrightarrow> wrap64 x = x"
  by (simp add: wrap64_def minInt_def maxInt_def mod_pos_pos_trivial)

lemma wrap64_range: "minInt \<le> wrap64 x" "wrap64 x \<le> maxInt"
  using pos_mod_bound [of "2 ^ 64" "x + 2 ^ 63"] by (simp_all add: wrap64_def minInt_def maxInt_def)

lemma wrap64_cong: "2 ^ 64 dvd wrap64 x - x"
proof -
  have "(x + 2 ^ 63) - (x + 2 ^ 63) mod 2 ^ 64 = 2 ^ 64 * ((x + 2 ^ 63) div 2 ^ 64)"
    by (simp add: minus_mod_eq_mult_div)
  then have "wrap64 x - x = 2 ^ 64 * - ((x + 2 ^ 63) div 2 ^ 64)" unfolding wrap64_def by linarith
  then show ?thesis by (metis dvd_triv_left)
qed

lemma saturatingAddInt_clamps:
  assumes "minInt \<le> a" "a \<le> maxInt" "minInt \<le> b" "b \<le> maxInt"
  shows "saturatingAddInt a b = max minInt (min maxInt (a + b))"
proof -
  have up: "b > 0 \<Longrightarrow> wrap64 (maxInt - b) = maxInt - b" and down: "b < 0 \<Longrightarrow> wrap64 (minInt - b) = minInt - b"
    using assms by (auto intro!: wrap64_id simp: minInt_def maxInt_def)
  have range: "minInt \<le> a + b \<Longrightarrow> a + b \<le> maxInt \<Longrightarrow> wrap64 (a + b) = a + b" by (rule wrap64_id)
  show ?thesis using assms up down range
    by (cases "b = 0"; cases "b > 0") (auto simp: saturatingAddInt_def Let_def minInt_def maxInt_def max_def min_def not_le)
qed

lemma go_div_pos:
  assumes "minInt \<le> p" "p \<le> maxInt" "0 < b"
  shows "go_div p b = (if p < 0 then - (- p div b) else p div b)"
proof -
  have le: "\<bar>p\<bar> div b \<le> \<bar>p\<bar>" using assms(3) by (smt (verit) div_by_1 zdiv_mono2)
  have "0 \<le> \<bar>p\<bar> div b" using assms(3) by (simp add: pos_imp_zdiv_nonneg_iff)
  then have "minInt \<le> sgn p * (\<bar>p\<bar> div b)" "sgn p * (\<bar>p\<bar> div b) \<le> maxInt"
    using le assms by (auto simp: sgn_if minInt_def maxInt_def)
  then show ?thesis using assms(3) by (cases p "0::int" rule: linorder_cases) (auto simp: go_div_def wrap64_id)
qed

lemma go_div_close:
  assumes "minInt \<le> p" "p \<le> maxInt" "0 < b"
  shows "\<bar>p - go_div p b * b\<bar> < b"
proof -
  have "- p - - p div b * b = - p mod b" "p - p div b * b = p mod b" by (simp_all only: minus_div_mult_eq_mod)
  then have "p - go_div p b * b = (if p < 0 then - (- p mod b) else p mod b)"
    unfolding go_div_pos [OF assms] by auto
  then show ?thesis using assms(3) by simp
qed

lemma saturatingMulInt_clamps:
  assumes "minInt \<le> a" "a \<le> maxInt" "0 < b" "b \<le> maxInt"
  shows "saturatingMulInt a b = max minInt (min maxInt (a * b))"
proof (cases "minInt \<le> a * b \<and> a * b \<le> maxInt")
  case True
  then have "go_div (a * b) b = a"
    using assms(3) go_div_pos [of "a * b" b] nonzero_mult_div_cancel_right [of b "- a"] by (auto simp: mult_less_0_iff)
  then show ?thesis using True assms by (auto simp: saturatingMulInt_def Let_def wrap64_id minInt_def maxInt_def)
next
  case False
  let ?p = "wrap64 (a * b)"
  have "go_div ?p b \<noteq> a"
  proof
    assume "go_div ?p b = a"
    then have small: "\<bar>?p - a * b\<bar> < b" using go_div_close [OF wrap64_range assms(3), of "a * b"] by simp
    have "b < 2 ^ 64" using assms(4) by (simp add: maxInt_def)
    then have "?p - a * b = 0" using small wrap64_cong [of "a * b"] zdvd_imp_le [of "2 ^ 64" "\<bar>?p - a * b\<bar>"]
      by (cases "?p - a * b = 0") auto
    then show False using wrap64_range [of "a * b"] False by auto
  qed
  moreover have "a \<noteq> 0" using False by (auto simp: minInt_def maxInt_def)
  moreover have "(a > 0) \<longleftrightarrow> a * b > 0" using assms(3) by (simp add: zero_less_mult_iff)
  ultimately show ?thesis using False assms(3)
    by (auto simp: saturatingMulInt_def Let_def max_def min_def minInt_def maxInt_def not_le)
qed

lemma ApproxBytesForTokens_clamps:
  "0 \<le> n \<Longrightarrow> n \<le> maxInt \<Longrightarrow> ApproxBytesForTokens n = min maxInt (4 * n)"
  by (simp add: ApproxBytesForTokens_def saturatingMulInt_clamps approxBytesPerToken_def minInt_def maxInt_def)

lemma ApproxTokenCount_eq:
  assumes "int (length s) \<le> maxInt - 3"
  shows "ApproxTokenCount s = (int (length s) + 3) div 4"
proof -
  have "saturatingAddInt (int (length s)) 3 = int (length s) + 3"
    using saturatingAddInt_clamps [of "int (length s)" 3] assms by (simp add: minInt_def maxInt_def)
  then show ?thesis using go_div_pos [of "int (length s) + 3" 4] assms
    by (auto simp: ApproxTokenCount_def ceilDivInt_def approxBytesPerToken_def minInt_def)
qed

section \<open>The two copies\<close>

lemma RuneLen_encode: "valid_rune r \<Longrightarrow> RuneLen r = int (length (encode_rune r))"
  by (auto simp: RuneLen_def encode_rune_def valid_rune_def Let_def)

lemma split_loop_copies:
  "list_all valid_rune rs \<Longrightarrow>
     split_loop (\<lambda>d. RuneLen (fst d)) b ts (encode_runes rs) idx pe sf removed =
     split_loop width b ts (encode_runes rs) idx pe sf removed"
proof (induction rs arbitrary: idx pe sf removed)
  case Nil
  show ?case by (simp add: split_loop.simps)
next
  case (Cons r rs)
  then have "valid_rune r" by simp
  then have d: "decode_rune (encode_runes (r # rs)) = (r, length (encode_rune r))" "encode_runes (r # rs) \<noteq> []"
    using decode_encode by (simp_all add: encode_runes_def)
  have rest: "drop (length (encode_rune r)) (encode_runes (r # rs)) = encode_runes rs" by (simp add: encode_runes_def)
  show ?case
    using Cons d rest \<open>valid_rune r\<close>
    by (simp add: split_loop.simps [of _ b ts "encode_runes (r # rs)"] Let_def RuneLen_encode)
qed

text \<open>
  On valid UTF-8 the two packages agree; on other texts strutil counts every undecodable byte as three bytes
  wide and may cut inside a character, which \<open>strutil_splits_a_character\<close> shows.
\<close>

lemma truncation_copies_agree:
  assumes "valid_utf8 s" "0 \<le> maxBytes"
  shows "strutil_TruncateMiddleChars s maxBytes = TruncateMiddleChars s maxBytes"
proof -
  obtain rs where "list_all valid_rune rs" "s = encode_runes rs" using assms(1) by (auto simp: valid_utf8_iff)
  then have "strutil_splitString s b e = splitString s b e" for b e
    by (simp add: strutil_splitString_def splitString_def split_with_def split_loop_copies)
  then show ?thesis using assms(2)
    by (simp add: strutil_TruncateMiddleChars_def strutil_truncateWithByteEstimate_def TruncateMiddleChars_def
        truncateWithByteEstimate_def strutil_removedUnits_def removedUnits_def Let_def)
qed

lemma strutil_splits_a_character:
  "TakeBytesAtCharBoundary [CHR 0xFF, CHR 0xF0, CHR 0x9F, CHR 0x98, CHR 0x80] 3 = [CHR 0xFF, CHR 0xF0, CHR 0x9F]"
  by (simp add: TakeBytesAtCharBoundary_def take_boundary_loop.simps decode_rune.simps(2) second_range_def
      cont_byte_def RuneLen_def rune_error_def)

lemma truncated_longer_than_limit:
  "length (strutil_TruncateMiddleChars ''abcdefgh'' 4) > length ''abcdefgh''"
  by (simp add: strutil_TruncateMiddleChars_def strutil_truncateWithByteEstimate_def splitBudget_def go_div_def wrap64_def
      strutil_splitString_def split_with_def split_loop.simps decode_rune_ascii saturatingSubInt_def RuneLen_def Let_def
      assembleTruncatedOutput_def formatTruncationMarker_def ellipsis_def)

section \<open>Tool output\<close>

lemma spend_loop_other_items:
  "filter (\<lambda>i. \<not> is_text_item i) (fst (spend_loop policy n om items)) = filter (\<lambda>i. \<not> is_text_item i) items"
  by (induction policy n om items rule: spend_loop.induct) (auto simp: Let_def split: prod.splits)

lemma truncated_output_keeps_images:
  "filter (\<lambda>i. \<not> is_text_item i) (TruncateFunctionOutputItemsWithPolicy items policy) =
     filter (\<lambda>i. \<not> is_text_item i) items"
  using spend_loop_other_items by (auto simp: TruncateFunctionOutputItemsWithPolicy_def Let_def split: prod.splits)
    (metis fst_conv)+

end
