(* ===== verification/Core_Items.thy ===== *)
theory Core_Items
  imports Text_Truncate "HOL-Library.Word"
begin

text \<open>
  The conversation of a session: the items of \<open>src/internal/protocol/response_item.go\<close> and models\_response.go, the token
  and rate-limit records of event.go, and from \<open>src/internal/core\<close> the history (history.go), the window of automatic
  compaction (auto\_compact\_window.go), the session state (session\_state.go) and the agent status derived from events
  (session.go). Items and events are datatypes with one constructor per variant the engine treats differently; JSON
  values are kept as their text, and the time stamps and generated identifiers of events are left out.
\<close>

section \<open>Items\<close>

datatype ContentItem =
    CInputText string
  | CInputImage string "string option"
  | COutputText string
  | COther string

datatype FunctionCallOutputPayload =
    PayloadText string "bool option"
  | PayloadItems "FunctionCallOutputContentItem list" "bool option"

datatype WebSearchAction =
    WsSearch "string option" "string list option"
  | WsOpenPage "string option"
  | WsFindInPage "string option" "string option"
  | WsOther

text \<open>The kind of a reasoning content entry is \<open>reasoning_text\<close> (\<open>True\<close>) or another one.\<close>

datatype ResponseItem =
    Message (msg_id: "string option") (msg_role: string) (msg_content: "ContentItem list") (msg_phase: "string option")
  | Reasoning (rs_id: string) (rs_summary: "string list") (rs_content: "(bool \<times> string) list option") (rs_encrypted: "string option")
  | FunctionCall (fc_name: string) (fc_namespace: "string option") (fc_arguments: string) (fc_call: string)
  | CustomToolCall (cc_name: string) (cc_input: string) (cc_call: string)
  | ToolSearchCall (ts_call: "string option") (ts_execution: string) (ts_arguments: string)
  | FunctionCallOutput (fo_call: string) (fo_output: FunctionCallOutputPayload)
  | CustomToolCallOutput (co_call: string) (co_name: "string option") (co_output: FunctionCallOutputPayload)
  | ToolSearchOutput (to_call: "string option") (to_status: string) (to_execution: string) (to_tools: "string list")
  | WebSearchCall (ws_id: "string option") (ws_action: "WebSearchAction option")
  | ImageGenerationCall (ig_id: string) (ig_status: string) (ig_revised: "string option") (ig_result: string)
  | Compaction (cp_encrypted: string)
  | ContextCompaction (cx_encrypted: "string option")
  | OtherItem (ot_kind: string)

definition IsUserMessage :: "ResponseItem \<Rightarrow> bool" where
  "IsUserMessage r \<longleftrightarrow> (case r of Message _ role _ _ \<Rightarrow> role = ''user'' | _ \<Rightarrow> False)"

section \<open>Token usage\<close>

record TokenUsage =
  InputTokens :: int
  CachedInputTokens :: int
  OutputTokens :: int
  ReasoningOutputTokens :: int
  TotalTokens :: int

definition zeroUsage :: TokenUsage where
  "zeroUsage = \<lparr>InputTokens = 0, CachedInputTokens = 0, OutputTokens = 0, ReasoningOutputTokens = 0, TotalTokens = 0\<rparr>"

record TokenUsageInfo =
  TotalTokenUsage :: TokenUsage
  LastTokenUsage :: TokenUsage
  ModelContextWindow :: "int option"

definition addTokenUsage :: "TokenUsage \<Rightarrow> TokenUsage \<Rightarrow> TokenUsage" where
  "addTokenUsage a b =
     \<lparr>InputTokens = wrap64 (InputTokens a + InputTokens b),
      CachedInputTokens = wrap64 (CachedInputTokens a + CachedInputTokens b),
      OutputTokens = wrap64 (OutputTokens a + OutputTokens b),
      ReasoningOutputTokens = wrap64 (ReasoningOutputTokens a + ReasoningOutputTokens b),
      TotalTokens = wrap64 (TotalTokens a + TotalTokens b)\<rparr>"

record RateLimitSnapshot =
  rl_LimitID :: "string option"
  rl_LimitName :: "string option"
  rl_Primary :: "string option"
  rl_Secondary :: "string option"
  rl_Credits :: "string option"
  rl_PlanType :: "string option"
  rl_ReachedType :: "string option"

section \<open>History\<close>

record ConversationHistory =
  h_items :: "ResponseItem list"
  h_tokenInfo :: "TokenUsageInfo option"

definition NewConversationHistory :: ConversationHistory where
  "NewConversationHistory = \<lparr>h_items = [], h_tokenInfo = None\<rparr>"

definition history_RecordItems :: "ResponseItem list \<Rightarrow> ConversationHistory \<Rightarrow> ConversationHistory" where
  "history_RecordItems items h = (if items = [] then h else h\<lparr>h_items := h_items h @ items\<rparr>)"

definition history_Replace :: "ResponseItem list \<Rightarrow> ConversationHistory \<Rightarrow> ConversationHistory" where
  "history_Replace items h = h\<lparr>h_items := items\<rparr>"

definition history_SetTokenInfo :: "TokenUsageInfo option \<Rightarrow> ConversationHistory \<Rightarrow> ConversationHistory" where
  "history_SetTokenInfo info h = h\<lparr>h_tokenInfo := info\<rparr>"

definition history_UpdateTokenInfoFromUsage ::
  "TokenUsage \<Rightarrow> int option \<Rightarrow> ConversationHistory \<Rightarrow> ConversationHistory" where
  "history_UpdateTokenInfoFromUsage usage modelContextWindow h =
     (let prev = (case h_tokenInfo h of None \<Rightarrow> zeroUsage | Some info \<Rightarrow> TotalTokenUsage info);
          total = addTokenUsage prev usage;
          window = (case (modelContextWindow, h_tokenInfo h) of
              (None, Some info) \<Rightarrow> ModelContextWindow info | (w, _) \<Rightarrow> w) in
      h\<lparr>h_tokenInfo := Some \<lparr>TotalTokenUsage = total, LastTokenUsage = usage, ModelContextWindow = window\<rparr>\<rparr>)"

section \<open>The window of automatic compaction\<close>

datatype prefillKind = prefillNone | prefillServerObserved | prefillEstimated

record autoCompactWindow =
  acw_ordinal :: "64 word"
  acw_prefill :: int
  acw_via :: prefillKind

definition newAutoCompactWindow :: autoCompactWindow where
  "newAutoCompactWindow = \<lparr>acw_ordinal = 1, acw_prefill = 0, acw_via = prefillNone\<rparr>"

definition clearPrefill :: "autoCompactWindow \<Rightarrow> autoCompactWindow" where
  "clearPrefill w = w\<lparr>acw_prefill := 0, acw_via := prefillNone\<rparr>"

definition startNext :: "autoCompactWindow \<Rightarrow> autoCompactWindow" where
  "startNext w =
     clearPrefill (if acw_ordinal w = - 1 then w else w\<lparr>acw_ordinal := acw_ordinal w + 1\<rparr>)"

definition ensureServerObservedPrefillFromUsage :: "TokenUsage \<Rightarrow> autoCompactWindow \<Rightarrow> autoCompactWindow" where
  "ensureServerObservedPrefillFromUsage usage w =
     (if acw_via w = prefillServerObserved then w
      else w\<lparr>acw_prefill := max (InputTokens usage) 0, acw_via := prefillServerObserved\<rparr>)"

definition setEstimatedPrefill :: "int \<Rightarrow> autoCompactWindow \<Rightarrow> autoCompactWindow" where
  "setEstimatedPrefill tokens w =
     (if acw_via w = prefillServerObserved then w
      else w\<lparr>acw_prefill := max tokens 0, acw_via := prefillEstimated\<rparr>)"

text \<open>The snapshot: the ordinal and the baseline, \<open>None\<close> before one is known.\<close>

definition acw_snapshot :: "autoCompactWindow \<Rightarrow> 64 word \<times> int option" where
  "acw_snapshot w = (acw_ordinal w, if acw_via w \<noteq> prefillNone then Some (acw_prefill w) else None)"

section \<open>Session state\<close>

record PreviousTurnSettings =
  pts_Model :: string
  pts_RealtimeActive :: "bool option"

record SessionState =
  ss_History :: ConversationHistory
  ss_RateLimits :: "RateLimitSnapshot option"
  ss_ReasoningIncluded :: bool
  ss_PreviousTurn :: "PreviousTurnSettings option"
  ss_Window :: autoCompactWindow
  ss_NextTurnIsFirst :: bool

definition NewSessionState :: SessionState where
  "NewSessionState =
     \<lparr>ss_History = NewConversationHistory, ss_RateLimits = None, ss_ReasoningIncluded = False,
      ss_PreviousTurn = None, ss_Window = newAutoCompactWindow, ss_NextTurnIsFirst = True\<rparr>"

definition TakeNextTurnIsFirst :: "SessionState \<Rightarrow> bool \<times> SessionState" where
  "TakeNextTurnIsFirst s = (ss_NextTurnIsFirst s, s\<lparr>ss_NextTurnIsFirst := False\<rparr>)"

definition TokenInfo :: "SessionState \<Rightarrow> TokenUsageInfo option" where
  "TokenInfo s = h_tokenInfo (ss_History s)"

definition UpdateTokenInfoFromUsage :: "TokenUsage \<Rightarrow> int option \<Rightarrow> SessionState \<Rightarrow> SessionState" where
  "UpdateTokenInfoFromUsage usage modelContextWindow s =
     s\<lparr>ss_History := history_UpdateTokenInfoFromUsage usage modelContextWindow (ss_History s),
       ss_Window := ensureServerObservedPrefillFromUsage usage (ss_Window s)\<rparr>"

definition mergeRateLimitFields :: "RateLimitSnapshot option \<Rightarrow> RateLimitSnapshot \<Rightarrow> RateLimitSnapshot" where
  "mergeRateLimitFields previous snapshot =
     (let s1 = (if rl_LimitID snapshot = None then snapshot\<lparr>rl_LimitID := Some ''codex''\<rparr> else snapshot);
          s2 = (case previous of
              Some p \<Rightarrow> if rl_Credits s1 = None then s1\<lparr>rl_Credits := rl_Credits p\<rparr> else s1 | None \<Rightarrow> s1) in
      case previous of
        Some p \<Rightarrow> if rl_PlanType s2 = None then s2\<lparr>rl_PlanType := rl_PlanType p\<rparr> else s2
      | None \<Rightarrow> s2)"

definition SetRateLimits :: "RateLimitSnapshot \<Rightarrow> SessionState \<Rightarrow> SessionState" where
  "SetRateLimits snapshot s = s\<lparr>ss_RateLimits := Some (mergeRateLimitFields (ss_RateLimits s) snapshot)\<rparr>"

definition SetServerReasoningIncluded :: "bool \<Rightarrow> SessionState \<Rightarrow> SessionState" where
  "SetServerReasoningIncluded v s = s\<lparr>ss_ReasoningIncluded := v\<rparr>"

definition SetPreviousTurnSettings :: "PreviousTurnSettings option \<Rightarrow> SessionState \<Rightarrow> SessionState" where
  "SetPreviousTurnSettings settings s = s\<lparr>ss_PreviousTurn := settings\<rparr>"

definition SetAutoCompactWindowEstimatedPrefill :: "int \<Rightarrow> SessionState \<Rightarrow> SessionState" where
  "SetAutoCompactWindowEstimatedPrefill tokens s = s\<lparr>ss_Window := setEstimatedPrefill tokens (ss_Window s)\<rparr>"

definition StartNextAutoCompactWindow :: "SessionState \<Rightarrow> SessionState" where
  "StartNextAutoCompactWindow s = s\<lparr>ss_Window := startNext (ss_Window s)\<rparr>"

definition ReplaceHistory :: "ResponseItem list \<Rightarrow> SessionState \<Rightarrow> SessionState" where
  "ReplaceHistory items s =
     s\<lparr>ss_History := history_Replace items (ss_History s), ss_Window := clearPrefill (ss_Window s)\<rparr>"

section \<open>Turn items and events\<close>

datatype UserInput = UText string | UImage string "string option" | UOther string

datatype TurnItem =
    TiUserMessage "UserInput list"
  | TiAgentMessage "string option" "string list" "string option"
  | TiReasoning string "string list" "string list"
  | TiWebSearch string string WebSearchAction
  | TiImageGeneration string string "string option" string
  | TiHookPrompt "string option" "(string \<times> string) list"
  | TiContextCompaction

datatype TurnAbortReason = AbortInterrupted | AbortBudgetLimited | AbortOther string

datatype EventMsg =
    EvTurnStarted
  | EvTurnComplete "string option"
  | EvTurnAborted TurnAbortReason
  | EvError string
  | EvWarning string
  | EvShutdownComplete
  | EvItemStarted TurnItem
  | EvItemCompleted TurnItem
  | EvAgentMessage string
  | EvAgentMessageDelta string string
  | EvReasoning string
  | EvReasoningRaw string
  | EvReasoningDelta string string int
  | EvReasoningRawDelta string string int
  | EvReasoningSectionBreak string int
  | EvTokenCount "TokenUsageInfo option" "RateLimitSnapshot option"
  | EvContextCompacted
  | EvOther string

datatype AgentStatus =
    AgentPendingInit
  | AgentRunning
  | AgentInterrupted
  | AgentCompleted "string option"
  | AgentErrored string
  | AgentShutdown
  | AgentNotFound

fun reason_text :: "TurnAbortReason \<Rightarrow> string" where
  "reason_text AbortInterrupted = ''interrupted''"
| "reason_text AbortBudgetLimited = ''budget_limited''"
| "reason_text (AbortOther s) = s"

fun agentStatusFromEvent :: "EventMsg \<Rightarrow> AgentStatus option" where
  "agentStatusFromEvent EvTurnStarted = Some AgentRunning"
| "agentStatusFromEvent (EvTurnComplete last') = Some (AgentCompleted last')"
| "agentStatusFromEvent (EvTurnAborted reason) =
     (if reason = AbortInterrupted \<or> reason = AbortBudgetLimited then Some AgentInterrupted
      else Some (AgentErrored (reason_text reason)))"
| "agentStatusFromEvent (EvError m) = Some (AgentErrored m)"
| "agentStatusFromEvent EvShutdownComplete = Some AgentShutdown"
| "agentStatusFromEvent _ = None"

fun isFinalAgentStatus :: "AgentStatus \<Rightarrow> bool" where
  "isFinalAgentStatus AgentPendingInit = False"
| "isFinalAgentStatus AgentRunning = False"
| "isFinalAgentStatus AgentInterrupted = False"
| "isFinalAgentStatus _ = True"

section \<open>Accounting\<close>

lemma h_items_UpdateTokenInfo [simp]:
  "h_items (history_UpdateTokenInfoFromUsage u w h) = h_items h"
  by (simp add: history_UpdateTokenInfoFromUsage_def Let_def)

lemma h_items_RecordItems [simp]: "h_items (history_RecordItems items h) = h_items h @ items"
  by (simp add: history_RecordItems_def)

lemma h_tokenInfo_RecordItems [simp]: "h_tokenInfo (history_RecordItems items h) = h_tokenInfo h"
  by (simp add: history_RecordItems_def)

lemma session_items [simp]:
  "h_items (ss_History (UpdateTokenInfoFromUsage u w s)) = h_items (ss_History s)"
  "ss_History (SetRateLimits r s) = ss_History s"
  "ss_History (SetServerReasoningIncluded b s) = ss_History s"
  "ss_History (SetPreviousTurnSettings p s) = ss_History s"
  "ss_History (SetAutoCompactWindowEstimatedPrefill n s) = ss_History s"
  "ss_History (StartNextAutoCompactWindow s) = ss_History s"
  "h_items (ss_History (ReplaceHistory items s)) = items"
  "h_tokenInfo (ss_History (ReplaceHistory items s)) = h_tokenInfo (ss_History s)"
  by (simp_all add: UpdateTokenInfoFromUsage_def SetRateLimits_def SetServerReasoningIncluded_def
      SetPreviousTurnSettings_def SetAutoCompactWindowEstimatedPrefill_def StartNextAutoCompactWindow_def
      ReplaceHistory_def history_Replace_def)

text \<open>A baseline reported by the server is kept until the next window starts.\<close>

lemma server_prefill_sticky:
  "acw_via w = prefillServerObserved \<Longrightarrow>
     setEstimatedPrefill n w = w \<and> ensureServerObservedPrefillFromUsage u w = w"
  by (simp add: setEstimatedPrefill_def ensureServerObservedPrefillFromUsage_def)

lemma ordinal_monotone: "acw_ordinal w \<le> acw_ordinal (startNext w)"
  using inc_less_eq_self_iff_eq [of "acw_ordinal w"] by (auto simp: startNext_def clearPrefill_def intro: le_cases)

end
