(* ===== verification/Core_Compact.thy ===== *)
theory Core_Compact
  imports Core_Items
begin

text \<open>
  From \<open>src/internal/core\<close>: the projection of conversation items to turn items (event\_mapping.go and its helpers)
  and the pure part of compaction (event\_compact\_helpers.go), which rebuilds a short history from the user messages
  and a summary. The XML decoder that recognizes hook prompts is the parameter \<open>hook_xml\<close>: the text and run id of
  the first \<open>hook_prompt\<close> element, \<open>None\<close> when decoding fails.
\<close>

type_synonym hook_xml = "string \<Rightarrow> (string \<times> string) option"

section \<open>Items as the client sees them\<close>

definition contextualDeveloperPrefixes :: "string list" where
  "contextualDeveloperPrefixes =
     [''<permissions instructions>'', ''<model_switch>'', ''<collaboration_mode>'', ''<realtime_conversation>'',
      ''<personality_spec>'']"

definition isImageOpenTagText :: "string \<Rightarrow> bool" where
  "isImageOpenTagText t \<longleftrightarrow> t = ''<image>''"

definition isImageCloseTagText :: "string \<Rightarrow> bool" where
  "isImageCloseTagText t \<longleftrightarrow> t = ''</image>''"

definition isLocalImageOpenTagText :: "string \<Rightarrow> bool" where
  "isLocalImageOpenTagText t =
     (case CutPrefix t ''<image name='' of None \<Rightarrow> False | Some rest \<Rightarrow> HasSuffix rest ''>'')"

text \<open>
  strings.EqualFold of two texts of the same length, one of them ASCII: a longer code point that folds to an ASCII
  letter would make the texts differ in length.
\<close>

definition ascii_fold :: "char \<Rightarrow> char" where
  "ascii_fold c = (if 0x41 \<le> byte c \<and> byte c \<le> 0x5A then char_of (byte c + 0x20) else c)"

definition hasPrefixFold :: "string \<Rightarrow> string \<Rightarrow> bool" where
  "hasPrefixFold s pre =
     (if length s < length pre then False
      else map ascii_fold (take (length pre) s) = map ascii_fold pre)"

definition isStandardContextualUserText :: "string \<Rightarrow> bool" where
  "isStandardContextualUserText t =
     (let trimmed = dropWhile (\<lambda>c. c \<in> {CHR '' '', CHR 0x09, CHR 0x0D, CHR 0x0A}) t in
      list_ex (hasPrefixFold trimmed) contextualDeveloperPrefixes)"

definition parseHookPromptFragment :: "hook_xml \<Rightarrow> string \<Rightarrow> (string \<times> string) option" where
  "parseHookPromptFragment hx t =
     (let trimmed = TrimSpace t in
      if trimmed = [] then None
      else case hx trimmed of
          None \<Rightarrow> None
        | Some (txt, run) \<Rightarrow> if TrimSpace run = [] then None else Some (txt, run))"

definition isContextualUserFragment :: "hook_xml \<Rightarrow> ContentItem \<Rightarrow> bool" where
  "isContextualUserFragment hx item =
     (case item of
        CInputText t \<Rightarrow> parseHookPromptFragment hx t \<noteq> None \<or> isStandardContextualUserText t
      | _ \<Rightarrow> False)"

definition isContextualUserMessageContent :: "hook_xml \<Rightarrow> ContentItem list \<Rightarrow> bool" where
  "isContextualUserMessageContent hx content = list_ex (isContextualUserFragment hx) content"

fun is_input_image :: "ContentItem \<Rightarrow> bool" where
  "is_input_image (CInputImage _ _) = True"
| "is_input_image _ = False"

definition isImageMarkerToSkip :: "ContentItem list \<Rightarrow> nat \<Rightarrow> string \<Rightarrow> bool" where
  "isImageMarkerToSkip content idx t =
     (let openMatches = (isLocalImageOpenTagText t \<or> isImageOpenTagText t) \<and>
            idx + 1 < length content \<and> is_input_image (content ! (idx + 1));
          closeMatches = idx > 0 \<and> isImageCloseTagText t \<and> is_input_image (content ! (idx - 1)) in
      openMatches \<or> closeMatches)"

definition user_input_at :: "ContentItem list \<Rightarrow> nat \<times> ContentItem \<Rightarrow> UserInput list" where
  "user_input_at content p =
     (case p of (idx, item) \<Rightarrow>
      (case item of
         CInputText t \<Rightarrow> if isImageMarkerToSkip content idx t then [] else [UText t]
       | CInputImage url detail \<Rightarrow> [UImage url detail]
       | _ \<Rightarrow> []))"

definition parseUserMessage :: "hook_xml \<Rightarrow> ContentItem list \<Rightarrow> UserInput list option" where
  "parseUserMessage hx content =
     (if isContextualUserMessageContent hx content then None
      else Some (concat (map (user_input_at content) (enumerate 0 content))))"

definition parseAgentMessage :: "string option \<Rightarrow> ContentItem list \<Rightarrow> string option \<Rightarrow> TurnItem" where
  "parseAgentMessage id' content phase =
     TiAgentMessage (case id' of Some i \<Rightarrow> if i = [] then None else Some i | None \<Rightarrow> None)
       (concat (map (\<lambda>item. case item of CInputText t \<Rightarrow> [t] | COutputText t \<Rightarrow> [t] | _ \<Rightarrow> []) content)) phase"

fun hook_fragments :: "hook_xml \<Rightarrow> ContentItem list \<Rightarrow> (string \<times> string) list option" where
  "hook_fragments hx [] = Some []"
| "hook_fragments hx (CInputText t # rest) =
     (case parseHookPromptFragment hx t of
        Some frag \<Rightarrow> map_option ((#) frag) (hook_fragments hx rest)
      | None \<Rightarrow> if isStandardContextualUserText t then hook_fragments hx rest else None)"
| "hook_fragments hx (_ # rest) = None"

definition parseVisibleHookPromptMessage :: "hook_xml \<Rightarrow> string option \<Rightarrow> ContentItem list \<Rightarrow> TurnItem option" where
  "parseVisibleHookPromptMessage hx id' content =
     (case hook_fragments hx content of
        None \<Rightarrow> None
      | Some fragments \<Rightarrow>
          if fragments = [] then None
          else Some (TiHookPrompt (case id' of Some i \<Rightarrow> if i = [] then None else Some i | None \<Rightarrow> None) fragments))"

definition searchActionDetail :: "string option \<Rightarrow> string list option \<Rightarrow> string" where
  "searchActionDetail query queries =
     (case query of
        Some q \<Rightarrow> if q \<noteq> [] then q else
          (case queries of None \<Rightarrow> [] | Some qs \<Rightarrow>
             (case qs of [] \<Rightarrow> [] | first # others \<Rightarrow> if others \<noteq> [] \<and> first \<noteq> [] then first @ '' ...'' else first))
      | None \<Rightarrow>
          (case queries of None \<Rightarrow> [] | Some qs \<Rightarrow>
             (case qs of [] \<Rightarrow> [] | first # others \<Rightarrow> if others \<noteq> [] \<and> first \<noteq> [] then first @ '' ...'' else first)))"

definition quote_mark :: string where "quote_mark = [CHR 0x27]"

fun webSearchActionDetail :: "WebSearchAction \<Rightarrow> string" where
  "webSearchActionDetail (WsSearch query queries) = searchActionDetail query queries"
| "webSearchActionDetail (WsOpenPage url) = (case url of Some u \<Rightarrow> u | None \<Rightarrow> [])"
| "webSearchActionDetail (WsFindInPage pattern' url) =
     (case (pattern', url) of
        (Some p, Some u) \<Rightarrow> quote_mark @ p @ quote_mark @ '' in '' @ u
      | (Some p, None) \<Rightarrow> quote_mark @ p @ quote_mark
      | (None, Some u) \<Rightarrow> u
      | (None, None) \<Rightarrow> [])"
| "webSearchActionDetail WsOther = []"

definition parseReasoningTurnItem :: "string \<Rightarrow> string list \<Rightarrow> (bool \<times> string) list option \<Rightarrow> TurnItem" where
  "parseReasoningTurnItem id' summary content =
     TiReasoning id' summary (case content of None \<Rightarrow> [] | Some cs \<Rightarrow> map snd cs)"

definition parseWebSearchTurnItem :: "string option \<Rightarrow> WebSearchAction option \<Rightarrow> TurnItem" where
  "parseWebSearchTurnItem id' action =
     TiWebSearch (case id' of Some i \<Rightarrow> i | None \<Rightarrow> [])
       (case action of Some a \<Rightarrow> webSearchActionDetail a | None \<Rightarrow> [])
       (case action of Some a \<Rightarrow> a | None \<Rightarrow> WsOther)"

definition parseMessageTurnItem ::
  "hook_xml \<Rightarrow> string option \<Rightarrow> string \<Rightarrow> ContentItem list \<Rightarrow> string option \<Rightarrow> TurnItem option" where
  "parseMessageTurnItem hx id' role content phase =
     (if role = ''user'' then
        (case parseVisibleHookPromptMessage hx id' content of
           Some hookItem \<Rightarrow> Some hookItem
         | None \<Rightarrow> map_option TiUserMessage (parseUserMessage hx content))
      else if role = ''assistant'' then Some (parseAgentMessage id' content phase)
      else None)"

fun parseTurnItem :: "hook_xml \<Rightarrow> ResponseItem \<Rightarrow> TurnItem option" where
  "parseTurnItem hx (Message id' role content phase) = parseMessageTurnItem hx id' role content phase"
| "parseTurnItem hx (Reasoning id' summary content enc) = Some (parseReasoningTurnItem id' summary content)"
| "parseTurnItem hx (WebSearchCall id' action) = Some (parseWebSearchTurnItem id' action)"
| "parseTurnItem hx (ImageGenerationCall id' status revised res) = Some (TiImageGeneration id' status revised res)"
| "parseTurnItem hx _ = None"

definition userMessageText :: "UserInput list \<Rightarrow> string" where
  "userMessageText content = concat (map (\<lambda>i. case i of UText t \<Rightarrow> t | _ \<Rightarrow> []) content)"

section \<open>Rebuilding the history\<close>

definition SummaryPrefix :: string where
  "SummaryPrefix =
     ''Another language model started to solve this problem and produced a summary of its thinking process. You also '' @
     ''have access to the state of the tools that were used by that language model. Use this to build on the work '' @
     ''that has already been done and avoid duplicating work. Here is the summary produced by the other language '' @
     ''model, use the information in this summary to assist with your own analysis:''"

definition compactUserMessageMaxTokens :: int where "compactUserMessageMaxTokens = 20000"

definition noSummaryAvailablePlaceholder :: string where
  "noSummaryAvailablePlaceholder = ''(no summary available)''"

definition assistantMessageText :: "ContentItem list \<Rightarrow> string" where
  "assistantMessageText content = concat (map (\<lambda>c. case c of COutputText t \<Rightarrow> t | _ \<Rightarrow> []) content)"

fun last_assistant_text :: "ResponseItem list \<Rightarrow> string" where
  "last_assistant_text [] = []"
| "last_assistant_text (Message _ role content _ # older) =
     (if role \<noteq> ''assistant'' then last_assistant_text older
      else if TrimSpace (assistantMessageText content) = [] then last_assistant_text older
      else assistantMessageText content)"
| "last_assistant_text (_ # older) = last_assistant_text older"

definition getLastAssistantMessageFromTurn :: "ResponseItem list \<Rightarrow> string" where
  "getLastAssistantMessageFromTurn items = last_assistant_text (rev items)"

definition isSummaryMessage :: "string \<Rightarrow> bool" where
  "isSummaryMessage message = HasPrefix message (SummaryPrefix @ [CHR 0x0A])"

definition user_text :: "hook_xml \<Rightarrow> ResponseItem \<Rightarrow> string option" where
  "user_text hx item =
     (case parseTurnItem hx item of
        Some (TiUserMessage content) \<Rightarrow> Some (userMessageText content)
      | _ \<Rightarrow> None)"

definition collectUserMessages :: "hook_xml \<Rightarrow> ResponseItem list \<Rightarrow> string list" where
  "collectUserMessages hx items = filter (\<lambda>m. \<not> isSummaryMessage m) (List.map_filter (user_text hx) items)"

definition saturatingSub :: "int \<Rightarrow> int \<Rightarrow> int" where
  "saturatingSub a b = (if b \<ge> a then 0 else a - b)"

text \<open>The messages are given newest first and are selected in this order.\<close>

fun select_messages :: "int \<Rightarrow> string list \<Rightarrow> string list" where
  "select_messages remaining [] = []"
| "select_messages remaining (message # older) =
     (if remaining = 0 then []
      else
        let tokens = ApproxTokenCount message in
        if tokens \<le> remaining then message # select_messages (saturatingSub remaining tokens) older
        else [TruncateText message (TokensPolicy remaining)])"

definition userTextMessage :: "string \<Rightarrow> ResponseItem" where
  "userTextMessage t = Message None ''user'' [CInputText t] None"

definition developerTextMessage :: "string \<Rightarrow> ResponseItem" where
  "developerTextMessage t = Message None ''developer'' [CInputText t] None"

definition buildCompactedHistoryWithLimit ::
  "ResponseItem list \<Rightarrow> string list \<Rightarrow> string \<Rightarrow> int \<Rightarrow> ResponseItem list" where
  "buildCompactedHistoryWithLimit history userMessages summaryText maxTokens =
     (let selected = (if maxTokens > 0 then rev (select_messages maxTokens (rev userMessages)) else []);
          summary = (if summaryText = [] then noSummaryAvailablePlaceholder else summaryText) in
      history @ map userTextMessage selected @ [userTextMessage summary])"

definition buildCompactedHistory :: "ResponseItem list \<Rightarrow> string list \<Rightarrow> string \<Rightarrow> ResponseItem list" where
  "buildCompactedHistory initialContext userMessages summaryText =
     buildCompactedHistoryWithLimit initialContext userMessages summaryText compactUserMessageMaxTokens"

text \<open>The scan for user messages, over positions from the last one down.\<close>

fun scan_users :: "hook_xml \<Rightarrow> nat option \<Rightarrow> (nat \<times> ResponseItem) list \<Rightarrow> nat option \<times> nat option" where
  "scan_users hx lastUserOrSummary [] = (lastUserOrSummary, None)"
| "scan_users hx lastUserOrSummary ((i, item) # older) =
     (case user_text hx item of
        None \<Rightarrow> scan_users hx lastUserOrSummary older
      | Some t \<Rightarrow>
          let last' = (case lastUserOrSummary of None \<Rightarrow> Some i | Some j \<Rightarrow> Some j) in
          if \<not> isSummaryMessage t then (last', Some i) else scan_users hx last' older)"

fun is_compaction_item :: "ResponseItem \<Rightarrow> bool" where
  "is_compaction_item (Compaction _) = True"
| "is_compaction_item (ContextCompaction _) = True"
| "is_compaction_item _ = False"

definition insertInitialContextBeforeLastRealUserOrSummary ::
  "hook_xml \<Rightarrow> ResponseItem list \<Rightarrow> ResponseItem list \<Rightarrow> ResponseItem list" where
  "insertInitialContextBeforeLastRealUserOrSummary hx compacted initialContext =
     (let positions = rev (enumerate 0 compacted);
          (lastUserOrSummary, lastRealUser) = scan_users hx None positions;
          lastCompaction = map_option fst (find (\<lambda>(i, item). is_compaction_item item) positions);
          insertIdx = (case lastRealUser of Some i \<Rightarrow> Some i | None \<Rightarrow>
             (case lastUserOrSummary of Some i \<Rightarrow> Some i | None \<Rightarrow> lastCompaction)) in
      case insertIdx of
        None \<Rightarrow> compacted @ initialContext
      | Some i \<Rightarrow> take i compacted @ initialContext @ drop i compacted)"

definition approxHistoryTokens :: "ResponseItem list \<Rightarrow> int" where
  "approxHistoryTokens items =
     foldl (\<lambda>total item. case item of
         Message _ _ content _ \<Rightarrow>
           foldl (\<lambda>n c. case c of
               CInputText t \<Rightarrow> wrap64 (n + ApproxTokenCount t)
             | COutputText t \<Rightarrow> wrap64 (n + ApproxTokenCount t)
             | _ \<Rightarrow> n) total content
       | _ \<Rightarrow> total) 0 items"

section \<open>What compaction keeps\<close>

lemma ApproxTokenCount_nonneg: "0 \<le> ApproxTokenCount s"
proof -
  let ?n = "int (length s)"
  have "0 \<le> saturatingAddInt ?n 3 \<and> saturatingAddInt ?n 3 \<le> maxInt"
  proof (cases "?n \<le> maxInt")
    case True
    then show ?thesis using saturatingAddInt_clamps [of ?n 3] by (simp add: minInt_def maxInt_def)
  next
    case False
    have "wrap64 (maxInt - 3) = maxInt - 3" by (rule wrap64_id) (simp_all add: minInt_def maxInt_def)
    then show ?thesis using False by (simp add: saturatingAddInt_def Let_def maxInt_def)
  qed
  then show ?thesis using go_div_pos [of "saturatingAddInt ?n 3" 4]
    by (simp add: ApproxTokenCount_def ceilDivInt_def approxBytesPerToken_def minInt_def pos_imp_zdiv_nonneg_iff)
qed

definition token_sum :: "string list \<Rightarrow> int" where
  "token_sum ms = sum_list (map ApproxTokenCount ms)"

lemma token_sum_simps [simp]:
  "token_sum [] = 0" "token_sum (m # ms) = ApproxTokenCount m + token_sum ms"
  "token_sum (ms @ ms') = token_sum ms + token_sum ms'" "token_sum (rev ms) = token_sum ms"
  by (simp_all add: token_sum_def rev_map [symmetric] sum_list_rev)

lemma select_messages_spec:
  "0 \<le> n \<Longrightarrow> \<exists>whole rest. msgs = whole @ rest \<and> token_sum whole \<le> n \<and>
     (select_messages n msgs = whole \<and> (rest = [] \<or> token_sum whole = n) \<or>
      (\<exists>m older. rest = m # older \<and> n - token_sum whole < ApproxTokenCount m \<and> token_sum whole < n \<and>
         select_messages n msgs = whole @ [TruncateText m (TokensPolicy (n - token_sum whole))]))"
proof (induction n msgs rule: select_messages.induct)
  case (1 n)
  show ?case by (intro exI [of _ "[]"]) (use 1 in simp)
next
  case (2 n m older)
  let ?t = "ApproxTokenCount m"
  have t: "0 \<le> ?t" by (rule ApproxTokenCount_nonneg)
  show ?case
  proof (cases "n = 0 \<or> n < ?t")
    case True
    then show ?thesis by (intro exI [of _ "[]"] exI [of _ "m # older"]) (use 2 in auto)
  next
    case False
    then have sub: "saturatingSub n ?t = n - ?t" and ge: "0 \<le> n - ?t" by (auto simp: saturatingSub_def)
    obtain whole rest where *: "older = whole @ rest" "token_sum whole \<le> n - ?t"
      "select_messages (n - ?t) older = whole \<and> (rest = [] \<or> token_sum whole = n - ?t) \<or>
       (\<exists>m' os. rest = m' # os \<and> n - ?t - token_sum whole < ApproxTokenCount m' \<and> token_sum whole < n - ?t \<and>
         select_messages (n - ?t) older = whole @ [TruncateText m' (TokensPolicy (n - ?t - token_sum whole))])"
      using 2(1) [OF _ refl, unfolded sub] False ge by (auto simp: not_less)
    have "select_messages n (m # older) = m # select_messages (n - ?t) older" using False sub by simp
    then show ?thesis using *
      by (intro exI [of _ "m # whole"] exI [of _ rest]) (auto simp: algebra_simps)
  qed
qed

text \<open>
  A text that is taken for a message of the user again: no hook prompt, no contextual prefix, no summary.
\<close>

definition plain_user_text :: "hook_xml \<Rightarrow> string \<Rightarrow> bool" where
  "plain_user_text hx t \<longleftrightarrow>
     parseHookPromptFragment hx t = None \<and> \<not> isStandardContextualUserText t \<and> \<not> isSummaryMessage t"

lemma user_text_userTextMessage:
  assumes "parseHookPromptFragment hx t = None" "\<not> isStandardContextualUserText t"
  shows "user_text hx (userTextMessage t) = Some t"
  using assms
  by (simp add: user_text_def userTextMessage_def parseMessageTurnItem_def parseVisibleHookPromptMessage_def
      parseUserMessage_def isContextualUserMessageContent_def isContextualUserFragment_def user_input_at_def
      isImageMarkerToSkip_def userMessageText_def)

lemma summary_not_contextual:
  "\<not> isStandardContextualUserText (SummaryPrefix @ s)" "isSummaryMessage (SummaryPrefix @ CHR 0x0A # s)"
  by (simp_all add: isStandardContextualUserText_def SummaryPrefix_def contextualDeveloperPrefixes_def hasPrefixFold_def
      ascii_fold_def isSummaryMessage_def HasPrefix_def)

lemma collectUserMessages_append [simp]:
  "collectUserMessages hx (xs @ ys) = collectUserMessages hx xs @ collectUserMessages hx ys"
  by (simp add: collectUserMessages_def List.map_filter_def)

lemma collect_plain:
  "\<forall>m \<in> set ms. plain_user_text hx m \<Longrightarrow> collectUserMessages hx (map userTextMessage ms) = ms"
  by (induction ms)
    (auto simp: collectUserMessages_def plain_user_text_def user_text_userTextMessage map_filter_simps)

lemma collect_summary:
  assumes "parseHookPromptFragment hx (SummaryPrefix @ CHR 0x0A # s) = None"
  shows "collectUserMessages hx [userTextMessage (SummaryPrefix @ CHR 0x0A # s)] = []"
  using user_text_userTextMessage [OF assms summary_not_contextual(1)] summary_not_contextual(2)
  by (simp add: collectUserMessages_def map_filter_simps)


text \<open>
  C24. Compaction replaces the history by the latest messages of the user, in their order, and the summary. Counted
  from the newest, messages are kept whole while they fit into the budget of 20000 tokens; the first one that does
  not fit is shortened to what is left, and older ones are dropped. Compacting again finds the same messages, and
  not the summary, as long as none of them reads like a contextual fragment.
\<close>

theorem compaction_keeps_recent_messages:
  assumes "new = buildCompactedHistory [] (collectUserMessages hx old) (SummaryPrefix @ CHR 0x0A # summary)"
  shows "\<exists>kept whole dropped.
    new = map userTextMessage kept @ [userTextMessage (SummaryPrefix @ CHR 0x0A # summary)] \<and>
    token_sum whole \<le> 20000 \<and>
    (collectUserMessages hx old = dropped @ whole \<and> kept = whole \<and> (dropped = [] \<or> token_sum whole = 20000) \<or>
     (\<exists>m. collectUserMessages hx old = dropped @ m # whole \<and> 20000 < ApproxTokenCount m + token_sum whole \<and>
        kept = TruncateText m (TokensPolicy (20000 - token_sum whole)) # whole)) \<and>
    ((\<forall>m \<in> set kept. plain_user_text hx m) \<and> parseHookPromptFragment hx (SummaryPrefix @ CHR 0x0A # summary) = None \<longrightarrow>
       collectUserMessages hx new = kept)"
proof -
  let ?msgs = "collectUserMessages hx old" and ?s = "SummaryPrefix @ CHR 0x0A # summary"
  define kept where "kept = rev (select_messages 20000 (rev ?msgs))"
  have new: "new = map userTextMessage kept @ [userTextMessage ?s]"
    using assms by (simp add: buildCompactedHistory_def buildCompactedHistoryWithLimit_def compactUserMessageMaxTokens_def kept_def)
  have collect: "(\<forall>m \<in> set kept. plain_user_text hx m) \<and> parseHookPromptFragment hx ?s = None \<longrightarrow>
      collectUserMessages hx new = kept"
    unfolding new by (simp add: collect_plain collect_summary)
  obtain whole rest where *: "rev ?msgs = whole @ rest" "token_sum whole \<le> 20000"
    "select_messages 20000 (rev ?msgs) = whole \<and> (rest = [] \<or> token_sum whole = 20000) \<or>
     (\<exists>m older. rest = m # older \<and> 20000 - token_sum whole < ApproxTokenCount m \<and> token_sum whole < 20000 \<and>
         select_messages 20000 (rev ?msgs) = whole @ [TruncateText m (TokensPolicy (20000 - token_sum whole))])"
    using select_messages_spec [of 20000 "rev ?msgs", OF zero_le_numeral] by blast
  have msgs: "?msgs = rev rest @ rev whole" using *(1) by (metis rev_append rev_rev_ident)
  consider (fits) "select_messages 20000 (rev ?msgs) = whole" "rest = [] \<or> token_sum whole = 20000"
    | (cut) m older where "rest = m # older" "20000 - token_sum whole < ApproxTokenCount m"
      "select_messages 20000 (rev ?msgs) = whole @ [TruncateText m (TokensPolicy (20000 - token_sum whole))]"
    using *(3) by blast
  then show ?thesis
  proof cases
    case fits
    then show ?thesis using new collect msgs *(2) kept_def
      by (intro exI [of _ kept] exI [of _ "rev whole"] exI [of _ "rev rest"]) auto
  next
    case (cut m older)
    then have "?msgs = rev older @ m # rev whole" using msgs by simp
    moreover have "kept = TruncateText m (TokensPolicy (20000 - token_sum (rev whole))) # rev whole"
      using cut(3) kept_def by simp
    ultimately show ?thesis using new collect *(2) cut(2)
      by (intro exI [of _ kept] exI [of _ "rev whole"] exI [of _ "rev older"]) auto
  qed
qed

theorem compaction_keeps_recent_messages_witness:
  "\<exists>kept whole dropped.
    buildCompactedHistory [] (collectUserMessages (\<lambda>_. None) [userTextMessage ''fix it'', FunctionCall ''f'' None [] ''c''])
      (SummaryPrefix @ CHR 0x0A # ''done'') =
    map userTextMessage kept @ [userTextMessage (SummaryPrefix @ CHR 0x0A # ''done'')] \<and> token_sum whole \<le> 20000 \<and>
    (dropped @ whole = [''fix it''] \<or> (\<exists>m. dropped @ m # whole = [''fix it'']))"
proof -
  have "collectUserMessages (\<lambda>_. None) [userTextMessage ''fix it'', FunctionCall ''f'' None [] ''c''] = [''fix it'']"
    by (simp add: collectUserMessages_def map_filter_simps user_text_def userTextMessage_def parseMessageTurnItem_def
        parseVisibleHookPromptMessage_def parseUserMessage_def isContextualUserMessageContent_def isContextualUserFragment_def
        user_input_at_def isImageMarkerToSkip_def userMessageText_def parseHookPromptFragment_def isStandardContextualUserText_def
        contextualDeveloperPrefixes_def hasPrefixFold_def isSummaryMessage_def HasPrefix_def SummaryPrefix_def Let_def
        ascii_fold_def)
  then show ?thesis
    using compaction_keeps_recent_messages [OF refl, of "\<lambda>_. None"
        "[userTextMessage ''fix it'', FunctionCall ''f'' None [] ''c'']" "''done''"] by metis
qed

end
