(* ===== verification/Core_Turn.thy ===== *)
theory Core_Turn
  imports Core_Compact
begin

text \<open>
  The engine of \<open>src/internal/core\<close> that runs a turn: the tool router (tools.go), the handling of streamed output
  (turn\_output.go, turn\_events.go), the sampling loop (turn\_run.go), inline compaction (event\_compact.go) and the
  life cycle of a task (turn\_spawn.go). What the engine is given is the parameter \<open>services\<close>: the model client, the
  tool executors, the hooks, the rollout recorder and the cancellation of the context, all functions of an
  abstract world. A stream is the list of what the \<open>select\<close> of the reading loop takes: an event, or the
  cancellation of the context at that point; the list ends where the channel is closed.
\<close>

section \<open>Tools\<close>

record ToolName =
  tn_Name :: string
  tn_Namespace :: "string option"

definition ToolName_String :: "ToolName \<Rightarrow> string" where
  "ToolName_String t = (case tn_Namespace t of Some ns \<Rightarrow> ns @ tn_Name t | None \<Rightarrow> tn_Name t)"

definition PlainToolName :: "string \<Rightarrow> ToolName" where
  "PlainToolName name = \<lparr>tn_Name = name, tn_Namespace = None\<rparr>"

datatype ToolPayload = FunctionPayload string | CustomPayload string | ToolSearchPayload string

datatype FunctionCallError = RespondToModelError string | FatalError string

fun FunctionCallError_Error :: "FunctionCallError \<Rightarrow> string" where
  "FunctionCallError_Error (FatalError m) = ''Fatal error: '' @ m"
| "FunctionCallError_Error (RespondToModelError m) = m"

text \<open>
  The outputs of the built-in executors: text, JSON, the text of apply\_patch, the rendered response of unified exec,
  the result of an MCP tool (its content and its error flag) and the tools found by tool\_search.
\<close>

datatype ToolOutput =
    TextOutput string "bool option"
  | JsonOutput string "bool option"
  | ApplyPatchOutput string
  | UnifiedExecOutput string
  | McpOutput string "bool option"
  | SearchOutput "string list"

datatype ResponseInputItem =
    RiFunctionCallOutput string FunctionCallOutputPayload
  | RiMcpToolCallOutput string string
  | RiCustomToolCallOutput string "string option" FunctionCallOutputPayload
  | RiToolSearchOutput string string string "string list"

fun SuccessForLogging :: "ToolOutput \<Rightarrow> bool" where
  "SuccessForLogging (TextOutput _ success) = (case success of None \<Rightarrow> True | Some b \<Rightarrow> b)"
| "SuccessForLogging (JsonOutput _ success) = (case success of None \<Rightarrow> True | Some b \<Rightarrow> b)"
| "SuccessForLogging (ApplyPatchOutput _) = True"
| "SuccessForLogging (UnifiedExecOutput _) = True"
| "SuccessForLogging (McpOutput _ isError) = (case isError of None \<Rightarrow> True | Some e \<Rightarrow> \<not> e)"
| "SuccessForLogging (SearchOutput _) = True"

definition text_response :: "string \<Rightarrow> ToolPayload \<Rightarrow> string \<Rightarrow> bool option \<Rightarrow> ResponseInputItem" where
  "text_response callID payload t success =
     (case payload of
        CustomPayload _ \<Rightarrow> RiCustomToolCallOutput callID None (PayloadText t success)
      | _ \<Rightarrow> RiFunctionCallOutput callID (PayloadText t success))"

fun ToResponseItem :: "ToolOutput \<Rightarrow> string \<Rightarrow> ToolPayload \<Rightarrow> ResponseInputItem" where
  "ToResponseItem (TextOutput t success) callID payload = text_response callID payload t success"
| "ToResponseItem (JsonOutput t success) callID payload = text_response callID payload t success"
| "ToResponseItem (ApplyPatchOutput t) callID payload = text_response callID payload t (Some True)"
| "ToResponseItem (UnifiedExecOutput t) callID payload = text_response callID payload t (Some True)"
| "ToResponseItem (McpOutput content isError) callID payload = RiMcpToolCallOutput callID content"
| "ToResponseItem (SearchOutput found) callID payload = RiToolSearchOutput callID ''completed'' ''client'' found"

record AnyToolResult =
  any_CallID :: string
  any_Payload :: ToolPayload
  any_Output :: ToolOutput

record ToolResult =
  tr_Output :: string
  tr_Success :: bool

definition IntoResponse :: "AnyToolResult \<Rightarrow> ResponseInputItem" where
  "IntoResponse r = ToResponseItem (any_Output r) (any_CallID r) (any_Payload r)"

fun functionOutputText :: "FunctionCallOutputPayload \<Rightarrow> string" where
  "functionOutputText (PayloadText t _) = t"
| "functionOutputText (PayloadItems items _) = concat (map (\<lambda>i. case i of InputText t \<Rightarrow> t | _ \<Rightarrow> []) items)"

definition toolOutputText :: "ToolOutput \<Rightarrow> string \<Rightarrow> ToolPayload \<Rightarrow> string" where
  "toolOutputText out callID payload =
     (case ToResponseItem out callID payload of
        RiFunctionCallOutput _ p \<Rightarrow> functionOutputText p
      | RiCustomToolCallOutput _ _ p \<Rightarrow> functionOutputText p
      | _ \<Rightarrow> [])"

definition ToToolResult :: "AnyToolResult \<Rightarrow> ToolResult" where
  "ToToolResult r =
     \<lparr>tr_Output = toolOutputText (any_Output r) (any_CallID r) (any_Payload r),
      tr_Success = SuccessForLogging (any_Output r)\<rparr>"

record ParsedToolCall =
  pc_ToolName :: ToolName
  pc_CallID :: string
  pc_Payload :: ToolPayload

text \<open>Decoding the arguments of tool\_search is the parameter \<open>parse\<close>, with the text of its error.\<close>

fun BuildToolCall :: "(string \<Rightarrow> string + string) \<Rightarrow> ResponseItem \<Rightarrow> FunctionCallError + ParsedToolCall option" where
  "BuildToolCall parse (FunctionCall name ns arguments call) =
     Inr (Some \<lparr>pc_ToolName = \<lparr>tn_Name = name, tn_Namespace = ns\<rparr>, pc_CallID = call, pc_Payload = FunctionPayload arguments\<rparr>)"
| "BuildToolCall parse (ToolSearchCall call execution arguments) =
     (case call of
        None \<Rightarrow> Inr None
      | Some c \<Rightarrow>
          if execution \<noteq> ''client'' then Inr None
          else
            let params = (if arguments \<noteq> [] \<and> arguments \<noteq> ''null'' then parse arguments else Inr []) in
            case params of
              Inl err \<Rightarrow> Inl (RespondToModelError (''failed to parse tool_search arguments: '' @ err))
            | Inr p \<Rightarrow> Inr (Some \<lparr>pc_ToolName = PlainToolName ''tool_search'', pc_CallID = c, pc_Payload = ToolSearchPayload p\<rparr>))"
| "BuildToolCall parse (CustomToolCall name inp call) =
     Inr (Some \<lparr>pc_ToolName = PlainToolName name, pc_CallID = call, pc_Payload = CustomPayload inp\<rparr>)"
| "BuildToolCall parse _ = Inr None"

definition unsupportedToolCallMessage :: "ToolPayload \<Rightarrow> ToolName \<Rightarrow> string" where
  "unsupportedToolCallMessage payload name =
     (case payload of
        CustomPayload _ \<Rightarrow> ''unsupported custom tool call: '' @ ToolName_String name
      | _ \<Rightarrow> ''unsupported call: '' @ ToolName_String name)"

section \<open>The session and what it is given\<close>

text \<open>The fields of TurnContext the engine reads; those that govern the sandbox are in \<open>Turn_Sandbox\<close>.\<close>

record TurnRun =
  tu_SubID :: string
  tu_RealtimeActive :: bool
  tu_ModelSlug :: string
  tu_ModelContextWindow :: "int option"
  tu_AutoCompactTokenLimit :: "int option"
  tu_Tools :: "string list"
  tu_DeveloperInstructions :: "string option"
  tu_UserInstructions :: "string option"
  tu_CompactPrompt :: "string option"
  tu_BaseInstructions :: string
  tu_FinalOutputJSONSchema :: "string option"

record Prompt =
  p_Input :: "ResponseItem list"
  p_Tools :: "string list"
  p_BaseInstructionsOverride :: "string option"
  p_OutputSchema :: "string option"

datatype ResponseEvent =
    RevCreated
  | RevOutputItemDone "ResponseItem option"
  | RevOutputItemAdded "ResponseItem option"
  | RevServerReasoningIncluded bool
  | RevCompleted "TokenUsage option" "bool option"
  | RevOutputTextDelta string
  | RevReasoningSummaryDelta string int
  | RevReasoningContentDelta string int
  | RevReasoningSummaryPartAdded int
  | RevRateLimits "RateLimitSnapshot option"
  | RevIgnored string

datatype stream_step = StreamEvent ResponseEvent | ContextDone

text \<open>The errors of a model client, by what the engine asks of them: errors.Is and errors.As.\<close>

datatype ModelError =
    ModelCanceled
  | ModelContextWindow string
  | ModelHTTP string string
  | ModelFailure string

fun ModelError_Error :: "ModelError \<Rightarrow> string" where
  "ModelError_Error ModelCanceled = ''context canceled''"
| "ModelError_Error (ModelContextWindow m) = m"
| "ModelError_Error (ModelHTTP body m) = m"
| "ModelError_Error (ModelFailure m) = m"

datatype turn_error = ErrTurnAborted | StreamFailed string ModelError | TurnFailure string

fun turn_error_text :: "turn_error \<Rightarrow> string" where
  "turn_error_text ErrTurnAborted = ''core: turn aborted''"
| "turn_error_text (StreamFailed what e) = what @ '': '' @ ModelError_Error e"
| "turn_error_text (TurnFailure m) = m"

fun modelFacingErrorMessage :: "turn_error \<Rightarrow> string" where
  "modelFacingErrorMessage (StreamFailed what (ModelHTTP body m)) =
     (if body \<noteq> [] then body else turn_error_text (StreamFailed what (ModelHTTP body m)))"
| "modelFacingErrorMessage e = turn_error_text e"

definition is_aborted :: "turn_error \<Rightarrow> bool" where
  "is_aborted e \<longleftrightarrow> e = ErrTurnAborted \<or> (\<exists>what. e = StreamFailed what ModelCanceled)"

lemma is_aborted_code [code]:
  "is_aborted ErrTurnAborted = True"
  "is_aborted (StreamFailed what e) = (e = ModelCanceled)"
  "is_aborted (TurnFailure m) = False"
  by (auto simp: is_aborted_def)

record handler_call =
  hc_CallID :: string
  hc_ToolName :: ToolName
  hc_Payload :: ToolPayload

text \<open>
  An executor may emit events of its own, named by the strings it returns; they do not affect the status. The code
  hands it the session; what else it does there is part of the world, and it leaves the history alone.
\<close>

record 'w executor =
  ex_MatchesPayload :: "ToolPayload \<Rightarrow> bool"
  ex_Handle :: "handler_call \<Rightarrow> 'w \<Rightarrow> (FunctionCallError + ToolOutput) \<times> string list \<times> 'w"

datatype rollout_item = RolloutCompacted string "ResponseItem list" | RolloutTurnContext

record 'w services =
  sv_Stream :: "Prompt \<Rightarrow> 'w \<Rightarrow> (ModelError + stream_step list) \<times> 'w"
  sv_Cancelled :: "'w \<Rightarrow> bool"
  sv_Executors :: "string \<Rightarrow> 'w executor option"
  sv_SearchParams :: "string \<Rightarrow> string + string"
  sv_HookXML :: hook_xml
  sv_FireHook :: "string \<Rightarrow> 'w \<Rightarrow> 'w"
  sv_Record :: "rollout_item \<Rightarrow> 'w \<Rightarrow> 'w"

text \<open>
  \<open>se_ToolCalls\<close> is the counter of the active turn, \<open>None\<close> when no turn is active. \<open>se_Events\<close> are the events
  put on the event queue. The select of SendEvent takes the send or, once the session's context is
  done, gives up on the event; which of the two happens at the \<open>k\<close>-th select is \<open>se_Select s k\<close> (true: sent), an
  arbitrary function, and \<open>se_Sent\<close> counts the selects. A send that waits for room in the queue is
  one that is eventually taken.
\<close>

record 'w Session =
  se_State :: SessionState
  se_Status :: AgentStatus
  se_Events :: "(string \<times> EventMsg) list"
  se_Select :: "nat \<Rightarrow> bool"
  se_Sent :: nat
  se_ToolCalls :: "64 word option"
  se_World :: 'w

definition SendEvent :: "string \<Rightarrow> EventMsg \<Rightarrow> 'w Session \<Rightarrow> 'w Session" where
  "SendEvent id' msg s =
     s\<lparr>se_Status := (case agentStatusFromEvent msg of Some st \<Rightarrow> st | None \<Rightarrow> se_Status s),
       se_Events := (if se_Select s (se_Sent s) then se_Events s @ [(id', msg)] else se_Events s),
       se_Sent := se_Sent s + 1\<rparr>"

definition WithState :: "(SessionState \<Rightarrow> SessionState) \<Rightarrow> 'w Session \<Rightarrow> 'w Session" where
  "WithState f s = s\<lparr>se_State := f (se_State s)\<rparr>"

definition RecordItems :: "ResponseItem list \<Rightarrow> 'w Session \<Rightarrow> 'w Session" where
  "RecordItems items = WithState (\<lambda>st. st\<lparr>ss_History := history_RecordItems items (ss_History st)\<rparr>)"

definition HistoryItems :: "'w Session \<Rightarrow> ResponseItem list" where
  "HistoryItems s = h_items (ss_History (se_State s))"

definition IncToolCalls :: "'w Session \<Rightarrow> 'w Session" where
  "IncToolCalls s = s\<lparr>se_ToolCalls := map_option (\<lambda>n. n + 1) (se_ToolCalls s)\<rparr>"

section \<open>Dispatching a tool call\<close>

definition router_dispatch ::
  "'w services \<Rightarrow> TurnRun \<Rightarrow> string \<Rightarrow> ToolName \<Rightarrow> ToolPayload \<Rightarrow> 'w Session \<Rightarrow> (FunctionCallError + AnyToolResult) \<times> 'w Session" where
  "router_dispatch sv tc callID name payload s0 =
     (let s = IncToolCalls s0 in
      case sv_Executors sv (ToolName_String name) of
        None \<Rightarrow> (Inl (RespondToModelError (unsupportedToolCallMessage payload name)), s)
      | Some ex \<Rightarrow>
          if \<not> ex_MatchesPayload ex payload
          then (Inl (FatalError (''tool '' @ ToolName_String name @ '' invoked with incompatible payload'')), s)
          else
            case ex_Handle ex \<lparr>hc_CallID = callID, hc_ToolName = name, hc_Payload = payload\<rparr> (se_World s) of
              (res, evs, w) \<Rightarrow>
                let s' = foldl (\<lambda>s e. SendEvent (tu_SubID tc) (EvOther e) s) (s\<lparr>se_World := w\<rparr>) evs in
                (case res of
                   Inl err \<Rightarrow> (Inl err, s')
                 | Inr out \<Rightarrow> (Inr \<lparr>any_CallID = callID, any_Payload = payload, any_Output = out\<rparr>, s')))"

definition DispatchWithSession ::
  "'w services \<Rightarrow> TurnRun \<Rightarrow> string \<Rightarrow> ToolName \<Rightarrow> ToolPayload \<Rightarrow> 'w Session \<Rightarrow> (FunctionCallError + ToolResult) \<times> 'w Session" where
  "DispatchWithSession sv tc callID name payload s =
     (case router_dispatch sv tc callID name payload s of
        (Inl err, s') \<Rightarrow> (Inl err, s')
      | (Inr res, s') \<Rightarrow> (Inr (ToToolResult res), s'))"

definition functionCallOutputItem :: "string \<Rightarrow> ToolResult \<Rightarrow> ResponseItem" where
  "functionCallOutputItem callID result = FunctionCallOutput callID (PayloadText (tr_Output result) (Some (tr_Success result)))"

definition customToolCallOutputItem :: "string \<Rightarrow> ToolResult \<Rightarrow> ResponseItem" where
  "customToolCallOutputItem callID result = CustomToolCallOutput callID None (PayloadText (tr_Output result) (Some (tr_Success result)))"

text \<open>An MCP result has no output payload, so it is recorded with the empty one.\<close>

fun responseItemFromInput :: "ResponseInputItem \<Rightarrow> ResponseItem" where
  "responseItemFromInput (RiToolSearchOutput callID status execution found) = ToolSearchOutput (Some callID) status execution found"
| "responseItemFromInput (RiCustomToolCallOutput callID name out) = CustomToolCallOutput callID name out"
| "responseItemFromInput (RiFunctionCallOutput callID out) = FunctionCallOutput callID out"
| "responseItemFromInput (RiMcpToolCallOutput callID content) = FunctionCallOutput callID (PayloadItems [] None)"

definition dispatch_result :: "FunctionCallError + ToolResult \<Rightarrow> ToolResult" where
  "dispatch_result r =
     (case r of
        Inl err \<Rightarrow> \<lparr>tr_Output = ''tool dispatch error: '' @ FunctionCallError_Error err, tr_Success = False\<rparr>
      | Inr result \<Rightarrow> result)"

section \<open>Streamed output\<close>

record streamState =
  st_needsFollowUp :: bool
  st_lastAgentMessage :: "string option"
  st_toolOutputs :: "ResponseItem list"
  st_activeItem :: "ResponseItem option"
  st_shouldEmitTokens :: bool
  st_completedTokenUsage :: "TokenUsage option"

definition initial_stream :: streamState where
  "initial_stream =
     \<lparr>st_needsFollowUp = False, st_lastAgentMessage = None, st_toolOutputs = [], st_activeItem = None,
      st_shouldEmitTokens = False, st_completedTokenUsage = None\<rparr>"

definition add_output :: "ResponseItem \<Rightarrow> streamState \<Rightarrow> streamState" where
  "add_output item st = st\<lparr>st_toolOutputs := st_toolOutputs st @ [item], st_needsFollowUp := True\<rparr>"

definition toolNameFor :: "string \<Rightarrow> string option \<Rightarrow> ToolName" where
  "toolNameFor name ns = (case ns of Some n \<Rightarrow> \<lparr>tn_Name = name, tn_Namespace = Some n\<rparr> | None \<Rightarrow> PlainToolName name)"

definition dispatchFunctionCall ::
  "'w services \<Rightarrow> TurnRun \<Rightarrow> string \<Rightarrow> string option \<Rightarrow> string \<Rightarrow> string \<Rightarrow> streamState \<Rightarrow> 'w Session \<Rightarrow> streamState \<times> 'w Session" where
  "dispatchFunctionCall sv tc name ns arguments callID st s0 =
     (let s1 = IncToolCalls (RecordItems [FunctionCall name ns arguments callID] s0) in
      case DispatchWithSession sv tc callID (toolNameFor name ns) (FunctionPayload arguments) s1 of
        (r, s2) \<Rightarrow> (add_output (functionCallOutputItem callID (dispatch_result r)) st, s2))"

definition dispatchCustomToolCall ::
  "'w services \<Rightarrow> TurnRun \<Rightarrow> string \<Rightarrow> string \<Rightarrow> string \<Rightarrow> streamState \<Rightarrow> 'w Session \<Rightarrow> streamState \<times> 'w Session" where
  "dispatchCustomToolCall sv tc name inp callID st s0 =
     (let s1 = IncToolCalls (RecordItems [CustomToolCall name inp callID] s0) in
      case DispatchWithSession sv tc callID (PlainToolName name) (CustomPayload inp) s1 of
        (r, s2) \<Rightarrow> (add_output (customToolCallOutputItem callID (dispatch_result r)) st, s2))"

definition dispatchToolSearchCall ::
  "'w services \<Rightarrow> TurnRun \<Rightarrow> ResponseItem \<Rightarrow> streamState \<Rightarrow> 'w Session \<Rightarrow> streamState \<times> 'w Session" where
  "dispatchToolSearchCall sv tc item st s0 =
     (let s1 = RecordItems [item] s0 in
      case BuildToolCall (sv_SearchParams sv) item of
        Inl err \<Rightarrow>
          (case ts_call item of
             Some c \<Rightarrow> (add_output (functionCallOutputItem c
                 \<lparr>tr_Output = FunctionCallError_Error err, tr_Success = False\<rparr>) st, s1)
           | None \<Rightarrow> (st, s1))
      | Inr None \<Rightarrow> (st, s1)
      | Inr (Some call) \<Rightarrow>
          let s2 = IncToolCalls s1 in
          (case router_dispatch sv tc (pc_CallID call) (pc_ToolName call) (pc_Payload call) s2 of
             (Inl err, s3) \<Rightarrow>
               (add_output (functionCallOutputItem (pc_CallID call)
                  \<lparr>tr_Output = ''tool dispatch error: '' @ FunctionCallError_Error err, tr_Success = False\<rparr>) st, s3)
           | (Inr res, s3) \<Rightarrow> (add_output (responseItemFromInput (IntoResponse res)) st, s3)))"

fun streamedItemID :: "ResponseItem \<Rightarrow> string" where
  "streamedItemID (Message id' _ _ _) = (case id' of Some i \<Rightarrow> i | None \<Rightarrow> [])"
| "streamedItemID (Reasoning id' _ _ _) = id'"
| "streamedItemID _ = []"

fun turnItemForStreamed :: "ResponseItem \<Rightarrow> TurnItem option" where
  "turnItemForStreamed (Message id' role _ phase) =
     (if role \<noteq> ''assistant'' then None
      else Some (TiAgentMessage (Some (case id' of Some i \<Rightarrow> i | None \<Rightarrow> [])) [] phase))"
| "turnItemForStreamed (Reasoning id' _ _ _) = Some (TiReasoning id' [] [])"
| "turnItemForStreamed _ = None"

definition emitItemStarted :: "TurnRun \<Rightarrow> ResponseItem \<Rightarrow> 'w Session \<Rightarrow> 'w Session" where
  "emitItemStarted tc item s =
     (case turnItemForStreamed item of
        None \<Rightarrow> s
      | Some ti \<Rightarrow> SendEvent (tu_SubID tc) (EvItemStarted ti) s)"

fun is_message :: "ResponseItem \<Rightarrow> bool" where
  "is_message (Message _ _ _ _) = True"
| "is_message _ = False"

definition emitAgentMessageDelta :: "TurnRun \<Rightarrow> ResponseItem option \<Rightarrow> string \<Rightarrow> 'w Session \<Rightarrow> 'w Session" where
  "emitAgentMessageDelta tc active delta s =
     (case active of
        None \<Rightarrow> s
      | Some item \<Rightarrow>
          if delta = [] \<or> \<not> is_message item then s
          else SendEvent (tu_SubID tc) (EvAgentMessageDelta (streamedItemID item) delta) s)"

definition emitReasoningSummaryDelta :: "TurnRun \<Rightarrow> ResponseItem option \<Rightarrow> string \<Rightarrow> int \<Rightarrow> 'w Session \<Rightarrow> 'w Session" where
  "emitReasoningSummaryDelta tc active delta summaryIndex s =
     (case active of
        None \<Rightarrow> s
      | Some item \<Rightarrow>
          if delta = [] then s
          else SendEvent (tu_SubID tc) (EvReasoningDelta (streamedItemID item) delta summaryIndex) s)"

definition emitReasoningRawDelta :: "TurnRun \<Rightarrow> ResponseItem option \<Rightarrow> string \<Rightarrow> int \<Rightarrow> 'w Session \<Rightarrow> 'w Session" where
  "emitReasoningRawDelta tc active delta contentIndex s =
     (case active of
        None \<Rightarrow> s
      | Some item \<Rightarrow>
          if delta = [] then s
          else SendEvent (tu_SubID tc) (EvReasoningRawDelta (streamedItemID item) delta contentIndex) s)"

definition emitReasoningSectionBreak :: "TurnRun \<Rightarrow> ResponseItem option \<Rightarrow> int \<Rightarrow> 'w Session \<Rightarrow> 'w Session" where
  "emitReasoningSectionBreak tc active summaryIndex s =
     (case active of
        None \<Rightarrow> s
      | Some item \<Rightarrow> SendEvent (tu_SubID tc) (EvReasoningSectionBreak (streamedItemID item) summaryIndex) s)"

definition emitAgentMessage :: "TurnRun \<Rightarrow> string \<Rightarrow> 'w Session \<Rightarrow> 'w Session" where
  "emitAgentMessage tc t s = (if t = [] then s else SendEvent (tu_SubID tc) (EvAgentMessage t) s)"

definition emitTurnItemStarted :: "TurnRun \<Rightarrow> TurnItem \<Rightarrow> 'w Session \<Rightarrow> 'w Session" where
  "emitTurnItemStarted tc item = SendEvent (tu_SubID tc) (EvItemStarted item)"

definition emitTurnItemCompleted :: "TurnRun \<Rightarrow> TurnItem \<Rightarrow> 'w Session \<Rightarrow> 'w Session" where
  "emitTurnItemCompleted tc item = SendEvent (tu_SubID tc) (EvItemCompleted item)"

definition emitItemCompletedAgentMessage ::
  "TurnRun \<Rightarrow> string option \<Rightarrow> string option \<Rightarrow> string \<Rightarrow> 'w Session \<Rightarrow> 'w Session" where
  "emitItemCompletedAgentMessage tc id' phase t =
     emitTurnItemCompleted tc (TiAgentMessage (Some (case id' of Some i \<Rightarrow> i | None \<Rightarrow> [])) [t] phase)"

definition reasoningSummaryText :: "string list \<Rightarrow> string" where
  "reasoningSummaryText summary = concat summary"

definition reasoningRawText :: "(bool \<times> string) list option \<Rightarrow> string" where
  "reasoningRawText content = (case content of None \<Rightarrow> [] | Some cs \<Rightarrow> concat (map snd (filter fst cs)))"

definition emitReasoning :: "TurnRun \<Rightarrow> string list \<Rightarrow> (bool \<times> string) list option \<Rightarrow> 'w Session \<Rightarrow> 'w Session" where
  "emitReasoning tc summary content s0 =
     (let t = reasoningSummaryText summary;
          s1 = (if t \<noteq> [] then SendEvent (tu_SubID tc) (EvReasoning t) s0 else s0);
          raw = reasoningRawText content in
      if raw \<noteq> [] then SendEvent (tu_SubID tc) (EvReasoningRaw raw) s1 else s1)"

fun handleOutputItemDone ::
  "'w services \<Rightarrow> TurnRun \<Rightarrow> ResponseItem \<Rightarrow> streamState \<Rightarrow> 'w Session \<Rightarrow> streamState \<times> 'w Session" where
  "handleOutputItemDone sv tc (Message id' role content phase) st s0 =
     (let s1 = RecordItems [Message id' role content phase] s0 in
      if role = ''assistant'' then
        let t = assistantMessageText content;
            s2 = emitItemCompletedAgentMessage tc id' phase t (emitAgentMessage tc t s1) in
        (if t \<noteq> [] then st\<lparr>st_lastAgentMessage := Some t\<rparr> else st, s2)
      else (st, s1))"
| "handleOutputItemDone sv tc (Reasoning id' summary content enc) st s0 =
     (let s1 = RecordItems [Reasoning id' summary content enc] s0 in
      (st, emitTurnItemCompleted tc (parseReasoningTurnItem id' summary content) (emitReasoning tc summary content s1)))"
| "handleOutputItemDone sv tc (FunctionCall name ns arguments callID) st s0 =
     dispatchFunctionCall sv tc name ns arguments callID st s0"
| "handleOutputItemDone sv tc (CustomToolCall name inp callID) st s0 =
     dispatchCustomToolCall sv tc name inp callID st s0"
| "handleOutputItemDone sv tc (ToolSearchCall call execution arguments) st s0 =
     dispatchToolSearchCall sv tc (ToolSearchCall call execution arguments) st s0"
| "handleOutputItemDone sv tc item st s0 = (st, RecordItems [item] s0)"

text \<open>The first component is the result \<open>done\<close>.\<close>

fun handleStreamEvent ::
  "'w services \<Rightarrow> TurnRun \<Rightarrow> ResponseEvent \<Rightarrow> streamState \<Rightarrow> 'w Session \<Rightarrow> bool \<times> streamState \<times> 'w Session" where
  "handleStreamEvent sv tc RevCreated st s = (False, st, s)"
| "handleStreamEvent sv tc (RevOutputItemAdded item) st s =
     (case item of
        None \<Rightarrow> (False, st, s)
      | Some it \<Rightarrow> (False, st\<lparr>st_activeItem := Some it\<rparr>, emitItemStarted tc it s))"
| "handleStreamEvent sv tc (RevOutputTextDelta delta) st s = (False, st, emitAgentMessageDelta tc (st_activeItem st) delta s)"
| "handleStreamEvent sv tc (RevReasoningSummaryDelta delta i) st s =
     (False, st, emitReasoningSummaryDelta tc (st_activeItem st) delta i s)"
| "handleStreamEvent sv tc (RevReasoningContentDelta delta i) st s =
     (False, st, emitReasoningRawDelta tc (st_activeItem st) delta i s)"
| "handleStreamEvent sv tc (RevReasoningSummaryPartAdded i) st s =
     (False, st, emitReasoningSectionBreak tc (st_activeItem st) i s)"
| "handleStreamEvent sv tc (RevOutputItemDone item) st s =
     (case item of
        None \<Rightarrow> (False, st, s)
      | Some it \<Rightarrow>
          (case handleOutputItemDone sv tc it st s of
             (st', s') \<Rightarrow> (False, st'\<lparr>st_activeItem := None\<rparr>, s')))"
| "handleStreamEvent sv tc (RevRateLimits rl) st s =
     (False, st\<lparr>st_shouldEmitTokens := True\<rparr>, case rl of None \<Rightarrow> s | Some r \<Rightarrow> WithState (SetRateLimits r) s)"
| "handleStreamEvent sv tc (RevServerReasoningIncluded b) st s = (False, st, WithState (SetServerReasoningIncluded b) s)"
| "handleStreamEvent sv tc (RevCompleted usage endTurn) st s =
     (True, st\<lparr>st_completedTokenUsage := usage, st_shouldEmitTokens := True,
        st_needsFollowUp := (st_needsFollowUp st \<or> endTurn = Some False)\<rparr>, s)"
| "handleStreamEvent sv tc (RevIgnored _) st s = (False, st, s)"

definition accountAndEmitTokenCount :: "TurnRun \<Rightarrow> TokenUsage option \<Rightarrow> 'w Session \<Rightarrow> 'w Session" where
  "accountAndEmitTokenCount tc usage s0 =
     (let s1 = (case usage of None \<Rightarrow> s0
          | Some u \<Rightarrow> WithState (UpdateTokenInfoFromUsage u (tu_ModelContextWindow tc)) s0) in
      SendEvent (tu_SubID tc) (EvTokenCount (TokenInfo (se_State s1)) (ss_RateLimits (se_State s1))) s1)"

section \<open>A sampling request\<close>

definition buildPrompt :: "TurnRun \<Rightarrow> 'w Session \<Rightarrow> Prompt" where
  "buildPrompt tc s =
     \<lparr>p_Input = HistoryItems s, p_Tools = tu_Tools tc,
      p_BaseInstructionsOverride = (if tu_BaseInstructions tc \<noteq> [] then Some (tu_BaseInstructions tc) else None),
      p_OutputSchema = tu_FinalOutputJSONSchema tc\<rparr>"

record samplingResult =
  sr_NeedsFollowUp :: bool
  sr_LastAgentMessage :: "string option"

fun sampling_loop ::
  "'w services \<Rightarrow> TurnRun \<Rightarrow> streamState \<Rightarrow> 'w Session \<Rightarrow> stream_step list \<Rightarrow> (turn_error + samplingResult) \<times> 'w Session" where
  "sampling_loop sv tc st s [] = (Inl (TurnFailure ''core: stream closed before response.completed''), s)"
| "sampling_loop sv tc st s (ContextDone # rest) = (Inl ErrTurnAborted, s)"
| "sampling_loop sv tc st s (StreamEvent ev # rest) =
     (case handleStreamEvent sv tc ev st s of
        (finished, st', s') \<Rightarrow>
          if \<not> finished then sampling_loop sv tc st' s' rest
          else
            let s1 = (if st_toolOutputs st' \<noteq> [] then RecordItems (st_toolOutputs st') s' else s');
                s2 = (if st_shouldEmitTokens st' then accountAndEmitTokenCount tc (st_completedTokenUsage st') s1 else s1) in
            if sv_Cancelled sv (se_World s2) then (Inl ErrTurnAborted, s2)
            else (Inr \<lparr>sr_NeedsFollowUp = st_needsFollowUp st', sr_LastAgentMessage = st_lastAgentMessage st'\<rparr>, s2))"

definition runSamplingRequest ::
  "'w services \<Rightarrow> TurnRun \<Rightarrow> 'w Session \<Rightarrow> (turn_error + samplingResult) \<times> 'w Session" where
  "runSamplingRequest sv tc s =
     (case sv_Stream sv (buildPrompt tc s) (se_World s) of
        (Inl err, w) \<Rightarrow> (Inl (StreamFailed ''core: model stream failed'' err), s\<lparr>se_World := w\<rparr>)
      | (Inr steps, w) \<Rightarrow> sampling_loop sv tc initial_stream (s\<lparr>se_World := w\<rparr>) steps)"

definition emitTurnError :: "TurnRun \<Rightarrow> turn_error \<Rightarrow> 'w Session \<Rightarrow> 'w Session" where
  "emitTurnError tc err = SendEvent (tu_SubID tc) (EvError (modelFacingErrorMessage err))"

section \<open>Inline compaction\<close>

fun handleCompactStreamEvent :: "TurnRun \<Rightarrow> ResponseEvent \<Rightarrow> 'w Session \<Rightarrow> bool \<times> 'w Session" where
  "handleCompactStreamEvent tc (RevOutputItemDone item) s =
     (False, case item of None \<Rightarrow> s | Some it \<Rightarrow> RecordItems [it] s)"
| "handleCompactStreamEvent tc (RevServerReasoningIncluded b) s = (False, WithState (SetServerReasoningIncluded b) s)"
| "handleCompactStreamEvent tc (RevRateLimits rl) s =
     (False, case rl of None \<Rightarrow> s | Some r \<Rightarrow> WithState (SetRateLimits r) s)"
| "handleCompactStreamEvent tc (RevCompleted usage endTurn) s =
     (True, case usage of None \<Rightarrow> s | Some u \<Rightarrow> WithState (UpdateTokenInfoFromUsage u (tu_ModelContextWindow tc)) s)"
| "handleCompactStreamEvent tc _ s = (False, s)"

fun compact_stream_loop :: "TurnRun \<Rightarrow> 'w Session \<Rightarrow> stream_step list \<Rightarrow> turn_error option \<times> 'w Session" where
  "compact_stream_loop tc s [] = (Some (TurnFailure ''core: stream closed before response.completed''), s)"
| "compact_stream_loop tc s (ContextDone # rest) = (Some ErrTurnAborted, s)"
| "compact_stream_loop tc s (StreamEvent ev # rest) =
     (case handleCompactStreamEvent tc ev s of
        (finished, s') \<Rightarrow> if finished then (None, s') else compact_stream_loop tc s' rest)"

definition drainCompactStreamOnce ::
  "'w services \<Rightarrow> TurnRun \<Rightarrow> Prompt \<Rightarrow> 'w Session \<Rightarrow> turn_error option \<times> 'w Session" where
  "drainCompactStreamOnce sv tc prompt s =
     (case sv_Stream sv prompt (se_World s) of
        (Inl err, w) \<Rightarrow> (Some (StreamFailed ''core: compaction stream failed'' err), s\<lparr>se_World := w\<rparr>)
      | (Inr steps, w) \<Rightarrow> compact_stream_loop tc (s\<lparr>se_World := w\<rparr>) steps)"

fun is_context_window :: "turn_error \<Rightarrow> bool" where
  "is_context_window (StreamFailed _ (ModelContextWindow _)) = True"
| "is_context_window _ = False"

text \<open>The loop trims the oldest item of the request until it fits; with one item left it gives up.\<close>

function drainCompactToCompleted ::
  "'w services \<Rightarrow> TurnRun \<Rightarrow> ResponseItem list \<Rightarrow> 'w Session \<Rightarrow> turn_error option \<times> 'w Session" where
  "drainCompactToCompleted sv tc history s =
     (if sv_Cancelled sv (se_World s) then (Some ErrTurnAborted, s)
      else
        let prompt = \<lparr>p_Input = history, p_Tools = [],
              p_BaseInstructionsOverride = (if tu_BaseInstructions tc \<noteq> [] then Some (tu_BaseInstructions tc) else None),
              p_OutputSchema = None\<rparr> in
        case drainCompactStreamOnce sv tc prompt s of
          (None, s') \<Rightarrow> (None, s')
        | (Some err, s') \<Rightarrow>
            if is_aborted err then (Some ErrTurnAborted, s')
            else if is_context_window err then
              (if length history > 1 then drainCompactToCompleted sv tc (tl history) s' else (Some err, s'))
            else (Some err, s'))"
  by pat_completeness auto
termination
  by (relation "measure (\<lambda>(sv, tc, history, s). length history)") auto

declare drainCompactToCompleted.simps [simp del]

fun content_of_input :: "UserInput \<Rightarrow> ContentItem list" where
  "content_of_input (UText t) = (if t \<noteq> [] then [CInputText t] else [])"
| "content_of_input (UImage url detail) = (if url \<noteq> [] then [CInputImage url detail] else [])"
| "content_of_input (UOther t) = (if t \<noteq> [] then [CInputText t] else [])"

definition userInputToResponseItem :: "UserInput list \<Rightarrow> ResponseItem option" where
  "userInputToResponseItem content =
     (let items = concat (map content_of_input content) in
      if items = [] then None else Some (Message None ''user'' items None))"

datatype InitialContextInjection = InjectBeforeLastUserMessage | DoNotInjectInitialContext

definition buildInitialContext :: "TurnRun \<Rightarrow> ResponseItem list" where
  "buildInitialContext tc =
     (case tu_DeveloperInstructions tc of Some t \<Rightarrow> if t \<noteq> [] then [developerTextMessage t] else [] | None \<Rightarrow> [])
     @ (case tu_UserInstructions tc of Some t \<Rightarrow> if t \<noteq> [] then [userTextMessage t] else [] | None \<Rightarrow> [])"

definition recordRollout :: "'w services \<Rightarrow> rollout_item \<Rightarrow> 'w Session \<Rightarrow> 'w Session" where
  "recordRollout sv item s = s\<lparr>se_World := sv_Record sv item (se_World s)\<rparr>"

definition replaceCompactedHistory ::
  "'w services \<Rightarrow> ResponseItem list \<Rightarrow> bool \<Rightarrow> rollout_item \<Rightarrow> 'w Session \<Rightarrow> 'w Session" where
  "replaceCompactedHistory sv newHistory hasReference compacted s0 =
     (let s1 = WithState (\<lambda>st. StartNextAutoCompactWindow (ReplaceHistory newHistory st)) s0;
          s2 = recordRollout sv compacted s1 in
      if hasReference then recordRollout sv RolloutTurnContext s2 else s2)"

definition recomputeTokenUsage :: "'w Session \<Rightarrow> 'w Session" where
  "recomputeTokenUsage s =
     (let estimated = approxHistoryTokens (HistoryItems s) in
      WithState (SetAutoCompactWindowEstimatedPrefill estimated) s)"

definition longThreadWarningMessage :: string where
  "longThreadWarningMessage =
     ''Heads up: Long threads and multiple compactions can cause the model to be less accurate. Start a new '' @
     ''thread when possible to keep threads small and targeted.''"

definition runCompactTaskImpl ::
  "'w services \<Rightarrow> TurnRun \<Rightarrow> UserInput list \<Rightarrow> InitialContextInjection \<Rightarrow> 'w Session \<Rightarrow> (turn_error + string) \<times> 'w Session" where
  "runCompactTaskImpl sv tc inp injection s0 =
     (let s1 = emitTurnItemStarted tc TiContextCompaction s0;
          cloned = HistoryItems s1 @ (case userInputToResponseItem inp of Some item \<Rightarrow> [item] | None \<Rightarrow> []) in
      case drainCompactToCompleted sv tc cloned s1 of
        (Some err, s2) \<Rightarrow> (Inl err, if is_aborted err then s2 else emitTurnError tc err s2)
      | (None, s2) \<Rightarrow>
          let historyItems = HistoryItems s2;
              summarySuffix = getLastAssistantMessageFromTurn historyItems;
              summaryText = SummaryPrefix @ [CHR 0x0A] @ summarySuffix;
              userMessages = collectUserMessages (sv_HookXML sv) historyItems;
              compacted = buildCompactedHistory [] userMessages summaryText;
              newHistory = (if injection = InjectBeforeLastUserMessage
                then insertInitialContextBeforeLastRealUserOrSummary (sv_HookXML sv) compacted (buildInitialContext tc)
                else compacted);
              s3 = replaceCompactedHistory sv newHistory (injection = InjectBeforeLastUserMessage)
                (RolloutCompacted summaryText newHistory) s2;
              s4 = emitTurnItemCompleted tc TiContextCompaction (recomputeTokenUsage s3);
              s5 = SendEvent (tu_SubID tc) EvContextCompacted s4 in
          (Inr summarySuffix, SendEvent (tu_SubID tc) (EvWarning longThreadWarningMessage) s5))"

definition fireCompactHook :: "'w services \<Rightarrow> string \<Rightarrow> 'w Session \<Rightarrow> 'w Session" where
  "fireCompactHook sv phase s = s\<lparr>se_World := sv_FireHook sv phase (se_World s)\<rparr>"

definition runCompactTaskInner ::
  "'w services \<Rightarrow> TurnRun \<Rightarrow> UserInput list \<Rightarrow> InitialContextInjection \<Rightarrow> 'w Session \<Rightarrow> turn_error option \<times> 'w Session" where
  "runCompactTaskInner sv tc inp injection s0 =
     (case runCompactTaskImpl sv tc inp injection (fireCompactHook sv ''pre_compact'' s0) of
        (Inl err, s) \<Rightarrow> (Some err, s)
      | (Inr _, s) \<Rightarrow> (None, fireCompactHook sv ''post_compact'' s))"

definition defaultSummarizationPrompt :: string where
  "defaultSummarizationPrompt =
     ''Summarize the conversation so far, preserving all facts, decisions, and open tasks needed to continue.''"

definition CompactPromptText :: "TurnRun \<Rightarrow> string" where
  "CompactPromptText tc =
     (case tu_CompactPrompt tc of Some p \<Rightarrow> if p \<noteq> [] then p else defaultSummarizationPrompt
      | None \<Rightarrow> defaultSummarizationPrompt)"

definition runInlineAutoCompactTask ::
  "'w services \<Rightarrow> TurnRun \<Rightarrow> InitialContextInjection \<Rightarrow> 'w Session \<Rightarrow> turn_error option \<times> 'w Session" where
  "runInlineAutoCompactTask sv tc injection = runCompactTaskInner sv tc [UText (CompactPromptText tc)] injection"

definition runCompactTask ::
  "'w services \<Rightarrow> TurnRun \<Rightarrow> UserInput list \<Rightarrow> 'w Session \<Rightarrow> turn_error option \<times> 'w Session" where
  "runCompactTask sv tc inp s =
     runCompactTaskInner sv tc inp DoNotInjectInitialContext (SendEvent (tu_SubID tc) EvTurnStarted s)"

definition shouldAutoCompact :: "int \<Rightarrow> int option \<Rightarrow> bool" where
  "shouldAutoCompact totalTokens limit = (case limit of None \<Rightarrow> False | Some l \<Rightarrow> l > 0 \<and> totalTokens \<ge> l)"

definition running_total :: "'w Session \<Rightarrow> int" where
  "running_total s = (case TokenInfo (se_State s) of None \<Rightarrow> 0 | Some info \<Rightarrow> TotalTokens (TotalTokenUsage info))"

definition maybePreSamplingAutoCompact :: "'w services \<Rightarrow> TurnRun \<Rightarrow> 'w Session \<Rightarrow> 'w Session" where
  "maybePreSamplingAutoCompact sv tc s =
     (case tu_AutoCompactTokenLimit tc of
        None \<Rightarrow> s
      | Some l \<Rightarrow>
          if l \<le> 0 then s
          else if \<not> shouldAutoCompact (running_total s) (tu_AutoCompactTokenLimit tc) then s
          else if sv_Cancelled sv (se_World s) then s
          else snd (runInlineAutoCompactTask sv tc DoNotInjectInitialContext s))"

section \<open>The turn\<close>

datatype turnInput = InputItem ResponseItem | InputContent "UserInput list"

definition turn_input_items :: "turnInput \<Rightarrow> ResponseItem list" where
  "turn_input_items inp =
     (case inp of
        InputItem item \<Rightarrow> [item]
      | InputContent content \<Rightarrow>
          if content \<noteq> [] then (case userInputToResponseItem content of Some item \<Rightarrow> [item] | None \<Rightarrow> []) else [])"

definition recordTurnInput :: "turnInput list \<Rightarrow> 'w Session \<Rightarrow> 'w Session" where
  "recordTurnInput inp s =
     (let items = concat (map turn_input_items inp) in if items \<noteq> [] then RecordItems items s else s)"

text \<open>
  The loop of runTurn need not end, so its result is an option. The first component tells at which of the returns
  of the code the loop was left.
\<close>

datatype turn_exit = TurnCancelled | TurnFailed turn_error | TurnFinished

partial_function (option) turn_loop ::
  "'w services \<Rightarrow> TurnRun \<Rightarrow> string option \<Rightarrow> 'w Session \<Rightarrow> (turn_exit \<times> string option \<times> 'w Session) option" where
  "turn_loop sv tc lastMsg s =
     (if sv_Cancelled sv (se_World s) then Some (TurnCancelled, lastMsg, s)
      else
        case runSamplingRequest sv tc s of
          (Inl err, s') \<Rightarrow>
            if is_aborted err then Some (TurnFailed err, lastMsg, s')
            else Some (TurnFailed err, lastMsg, emitTurnError tc err s')
        | (Inr out, s') \<Rightarrow>
            let lastMsg' = (case sr_LastAgentMessage out of Some m \<Rightarrow> Some m | None \<Rightarrow> lastMsg) in
            if \<not> sr_NeedsFollowUp out then Some (TurnFinished, lastMsg', s')
            else turn_loop sv tc lastMsg' s')"

declare turn_loop.simps [code]

definition runTurn ::
  "'w services \<Rightarrow> TurnRun \<Rightarrow> turnInput list \<Rightarrow> 'w Session \<Rightarrow> (turn_exit \<times> string option \<times> 'w Session) option" where
  "runTurn sv tc inp s0 =
     (let s1 = maybePreSamplingAutoCompact sv tc (recordTurnInput inp s0);
          s2 = WithState (SetPreviousTurnSettings (Some \<lparr>pts_Model = tu_ModelSlug tc,
                 pts_RealtimeActive = Some (tu_RealtimeActive tc)\<rparr>)) s1 in
      turn_loop sv tc None s2)"

text \<open>
  The goroutine of spawnTask for a regular turn, from the start event to the terminal one. The turn gets a fresh
  counter of tool calls, and the slot is cleared at the end.
\<close>

definition run_task ::
  "'w services \<Rightarrow> TurnRun \<Rightarrow> turnInput list \<Rightarrow> 'w Session \<Rightarrow> 'w Session option" where
  "run_task sv tc inp s0 =
     (let s1 = SendEvent (tu_SubID tc) EvTurnStarted (s0\<lparr>se_ToolCalls := Some 0\<rparr>);
          s2 = s1\<lparr>se_World := sv_FireHook sv ''turn_start'' (se_World s1)\<rparr> in
      case runTurn sv tc inp s2 of
        None \<Rightarrow> None
      | Some (_, lastMsg, s3) \<Rightarrow>
          let s4 = s3\<lparr>se_World := sv_FireHook sv ''turn_end'' (se_World s3)\<rparr>;
              s5 = (if sv_Cancelled sv (se_World s4) then SendEvent (tu_SubID tc) (EvTurnAborted AbortInterrupted) s4
                    else SendEvent (tu_SubID tc) (EvTurnComplete lastMsg) s4) in
          Some (s5\<lparr>se_ToolCalls := None\<rparr>))"

end
