(* ===== verification/Core_Turn_Props.thy ===== *)
theory Core_Turn_Props
  imports Core_Turn
begin

text \<open>
  Properties of the engine in \<open>Core_Turn\<close>: what a turn leaves in the history, that the calls of the model are
  answered, what of a tool's output the model sees, and the events that mark a turn.
\<close>

section \<open>Effects on the session\<close>

lemma session_effects [simp]:
  "HistoryItems (SendEvent i m s) = HistoryItems s"
  "HistoryItems (RecordItems items s) = HistoryItems s @ items"
  "HistoryItems (IncToolCalls s) = HistoryItems s"
  "HistoryItems (s\<lparr>se_World := w\<rparr>) = HistoryItems s"
  "HistoryItems (s\<lparr>se_ToolCalls := n\<rparr>) = HistoryItems s"
  "HistoryItems (WithState (SetRateLimits r) s) = HistoryItems s"
  "HistoryItems (WithState (SetServerReasoningIncluded b) s) = HistoryItems s"
  "HistoryItems (WithState (UpdateTokenInfoFromUsage u win) s) = HistoryItems s"
  "HistoryItems (WithState (SetPreviousTurnSettings p) s) = HistoryItems s"
  "HistoryItems (WithState (SetAutoCompactWindowEstimatedPrefill n') s) = HistoryItems s"
  by (simp_all add: HistoryItems_def SendEvent_def RecordItems_def WithState_def IncToolCalls_def)

lemma world_effects [simp]:
  "se_World (SendEvent i m s) = se_World s"
  "se_World (RecordItems items s) = se_World s"
  "se_World (IncToolCalls s) = se_World s"
  "se_World (WithState f s) = se_World s"
  by (simp_all add: SendEvent_def RecordItems_def WithState_def IncToolCalls_def)

lemma HistoryItems_foldl_events [simp]:
  "HistoryItems (foldl (\<lambda>s e. SendEvent i (f e) s) s evs) = HistoryItems s"
  by (induction evs arbitrary: s) simp_all

lemma emit_history [simp]:
  "HistoryItems (emitItemStarted tc item s) = HistoryItems s"
  "HistoryItems (emitAgentMessageDelta tc act d s) = HistoryItems s"
  "HistoryItems (emitReasoningSummaryDelta tc act d n s) = HistoryItems s"
  "HistoryItems (emitReasoningRawDelta tc act d n s) = HistoryItems s"
  "HistoryItems (emitReasoningSectionBreak tc act n s) = HistoryItems s"
  "HistoryItems (emitAgentMessage tc t s) = HistoryItems s"
  "HistoryItems (emitTurnItemStarted tc ti s) = HistoryItems s"
  "HistoryItems (emitTurnItemCompleted tc ti s) = HistoryItems s"
  "HistoryItems (emitItemCompletedAgentMessage tc i p t s) = HistoryItems s"
  "HistoryItems (emitReasoning tc sm c s) = HistoryItems s"
  "HistoryItems (emitTurnError tc e s) = HistoryItems s"
  "HistoryItems (accountAndEmitTokenCount tc u s) = HistoryItems s"
  by (simp_all add: emitItemStarted_def emitAgentMessageDelta_def emitReasoningSummaryDelta_def emitReasoningRawDelta_def
      emitReasoningSectionBreak_def emitAgentMessage_def emitTurnItemStarted_def emitTurnItemCompleted_def
      emitItemCompletedAgentMessage_def emitReasoning_def emitTurnError_def accountAndEmitTokenCount_def Let_def
      split: option.split)

lemma router_dispatch_history:
  "router_dispatch sv tc c name payload s = (r, s') \<Longrightarrow> HistoryItems s' = HistoryItems s"
  by (auto simp: router_dispatch_def Let_def split: option.splits if_splits prod.splits sum.splits)

lemma DispatchWithSession_history:
  "DispatchWithSession sv tc c name payload s = (r, s') \<Longrightarrow> HistoryItems s' = HistoryItems s"
  by (auto simp: DispatchWithSession_def split: prod.splits sum.splits dest: router_dispatch_history)

section \<open>Calls and their outputs\<close>

text \<open>The call an item makes of the engine, and the call an item answers.\<close>

fun answered_call :: "ResponseItem \<Rightarrow> string option" where
  "answered_call (FunctionCall _ _ _ c) = Some c"
| "answered_call (CustomToolCall _ _ c) = Some c"
| "answered_call (ToolSearchCall c execution _) = (if execution = ''client'' then c else None)"
| "answered_call _ = None"

fun output_call :: "ResponseItem \<Rightarrow> string option" where
  "output_call (FunctionCallOutput c _) = Some c"
| "output_call (CustomToolCallOutput c _ _) = Some c"
| "output_call (ToolSearchOutput c _ _ _) = c"
| "output_call _ = None"

text \<open>What a stream brings before it completes or breaks off, and the end-of-turn flag when it completes.\<close>

fun recorded :: "stream_step list \<Rightarrow> ResponseItem list" where
  "recorded [] = []"
| "recorded (ContextDone # rest) = []"
| "recorded (StreamEvent ev # rest) =
     (case ev of
        RevOutputItemDone (Some item) \<Rightarrow> item # recorded rest
      | RevCompleted _ _ \<Rightarrow> []
      | _ \<Rightarrow> recorded rest)"

fun completion :: "stream_step list \<Rightarrow> bool option option" where
  "completion [] = None"
| "completion (ContextDone # rest) = None"
| "completion (StreamEvent ev # rest) = (case ev of RevCompleted _ endTurn \<Rightarrow> Some endTurn | _ \<Rightarrow> completion rest)"

lemma add_output_simps [simp]:
  "st_toolOutputs (add_output o' st) = st_toolOutputs st @ [o']"
  "st_needsFollowUp (add_output o' st) = True"
  by (simp_all add: add_output_def)

lemma output_call_IntoResponse [simp]: "output_call (responseItemFromInput (IntoResponse r)) = Some (any_CallID r)"
  by (cases "any_Output r"; cases "any_Payload r") (simp_all add: IntoResponse_def text_response_def)

lemma router_dispatch_CallID: "router_dispatch sv tc c name payload s = (Inr r, s') \<Longrightarrow> any_CallID r = c"
  by (auto simp: router_dispatch_def Let_def split: option.splits if_splits prod.splits sum.splits)

lemma output_items [simp]:
  "output_call (functionCallOutputItem c r) = Some c" "output_call (customToolCallOutputItem c r) = Some c"
  by (simp_all add: functionCallOutputItem_def customToolCallOutputItem_def)

definition item_handled :: "ResponseItem \<Rightarrow> streamState \<Rightarrow> 'w Session \<Rightarrow> streamState \<times> 'w Session \<Rightarrow> bool" where
  "item_handled item st s res \<longleftrightarrow>
     HistoryItems (snd res) = HistoryItems s @ [item] \<and>
     (\<exists>out. st_toolOutputs (fst res) = st_toolOutputs st @ out \<and>
        map output_call out = (case answered_call item of None \<Rightarrow> [] | Some c \<Rightarrow> [Some c]) \<and>
        st_needsFollowUp (fst res) = (st_needsFollowUp st \<or> out \<noteq> []))"

lemma tool_search_handled:
  "item_handled (ToolSearchCall call execution arguments) st s
     (dispatchToolSearchCall sv tc (ToolSearchCall call execution arguments) st s)"
proof (cases "call = None \<or> execution \<noteq> ''client''")
  case True
  then show ?thesis by (auto simp: item_handled_def dispatchToolSearchCall_def Let_def split: option.split)
next
  case False
  then obtain c where c: "call = Some c" "execution = ''client''" by auto
  let ?item = "ToolSearchCall call execution arguments" and ?s = "IncToolCalls (RecordItems [ToolSearchCall call execution arguments] s)"
  show ?thesis
  proof (cases "BuildToolCall (sv_SearchParams sv) ?item")
    case (Inl err)
    then show ?thesis using c by (auto simp: item_handled_def dispatchToolSearchCall_def Let_def)
  next
    case (Inr b)
    then obtain pc where pc: "BuildToolCall (sv_SearchParams sv) ?item = Inr (Some pc)" "pc_CallID pc = c"
      using c by (auto simp: Let_def split: sum.splits)
    obtain r s' where rs: "router_dispatch sv tc c (pc_ToolName pc) (pc_Payload pc) ?s = (r, s')" by fastforce
    show ?thesis using c pc rs router_dispatch_history [OF rs] router_dispatch_CallID [of sv tc c _ _ ?s _ s']
      by (cases r) (auto simp: item_handled_def dispatchToolSearchCall_def Let_def simp del: BuildToolCall.simps)
  qed
qed

lemma handleOutputItemDone_handled: "item_handled item st s (handleOutputItemDone sv tc item st s)"
proof (cases item)
  case (FunctionCall name ns arguments c)
  let ?s = "IncToolCalls (RecordItems [item] s)"
  obtain r s' where "DispatchWithSession sv tc c (toolNameFor name ns) (FunctionPayload arguments) ?s = (r, s')" by fastforce
  then show ?thesis using FunctionCall DispatchWithSession_history [of sv tc c _ _ ?s r s']
    by (auto simp: item_handled_def dispatchFunctionCall_def Let_def)
next
  case (CustomToolCall name inp c)
  let ?s = "IncToolCalls (RecordItems [item] s)"
  obtain r s' where "DispatchWithSession sv tc c (PlainToolName name) (CustomPayload inp) ?s = (r, s')" by fastforce
  then show ?thesis using CustomToolCall DispatchWithSession_history [of sv tc c _ _ ?s r s']
    by (auto simp: item_handled_def dispatchCustomToolCall_def Let_def)
next
  case (ToolSearchCall call execution arguments)
  then show ?thesis by (simp add: tool_search_handled)
qed (auto simp: item_handled_def Let_def)

lemma handleStreamEvent_handled:
  assumes "handleStreamEvent sv tc ev st s = (finished, st', s')"
  shows "finished = (case ev of RevCompleted _ _ \<Rightarrow> True | _ \<Rightarrow> False) \<and>
    (\<exists>out. HistoryItems s' = HistoryItems s @ (case ev of RevOutputItemDone (Some item) \<Rightarrow> [item] | _ \<Rightarrow> []) \<and>
      st_toolOutputs st' = st_toolOutputs st @ out \<and>
      map output_call out = (case ev of RevOutputItemDone (Some item) \<Rightarrow>
          (case answered_call item of None \<Rightarrow> [] | Some c \<Rightarrow> [Some c]) | _ \<Rightarrow> []) \<and>
      st_needsFollowUp st' = (st_needsFollowUp st \<or> out \<noteq> [] \<or> (case ev of RevCompleted _ e \<Rightarrow> e = Some False | _ \<Rightarrow> False)))"
proof (cases ev)
  case (RevOutputItemDone item)
  then show ?thesis
  proof (cases item)
    case (Some it)
    obtain st1 s1 where "handleOutputItemDone sv tc it st s = (st1, s1)" by fastforce
    then show ?thesis using assms RevOutputItemDone Some handleOutputItemDone_handled [of it st s sv tc]
      by (auto simp: item_handled_def)
  qed (use assms in auto)
qed (use assms in \<open>auto split: option.splits\<close>)

text \<open>The result of the loop over a stream, from any state of its accumulators.\<close>

lemma sampling_loop_effect:
  assumes "sampling_loop sv tc st s steps = (res, s')"
  shows "case completion steps of
      None \<Rightarrow> (\<exists>e. res = Inl e) \<and> HistoryItems s' = HistoryItems s @ recorded steps
    | Some endTurn \<Rightarrow>
        \<exists>outs. HistoryItems s' = HistoryItems s @ recorded steps @ st_toolOutputs st @ outs \<and>
          map output_call outs = map Some (List.map_filter answered_call (recorded steps)) \<and>
          (res = Inl ErrTurnAborted \<or>
           (\<exists>out. res = Inr out \<and> sr_NeedsFollowUp out = (st_needsFollowUp st \<or> outs \<noteq> [] \<or> endTurn = Some False)))"
  using assms
proof (induction sv tc st s steps rule: sampling_loop.induct)
  case (3 sv tc st s ev rest)
  obtain finished st1 s1 where ev: "handleStreamEvent sv tc ev st s = (finished, st1, s1)"
    by (metis prod_cases3)
  note h = handleStreamEvent_handled [OF ev]
  show ?case
  proof (cases finished)
    case True
    then obtain u e where c: "ev = RevCompleted u e" using h by (auto split: ResponseEvent.splits)
    then show ?thesis using 3(2) ev True by (auto simp: Let_def split: if_splits intro!: exI [of _ "[]"])
  next
    case False
    then have loop: "sampling_loop sv tc st1 s1 rest = (res, s')" using 3(2) ev by simp
    note IH = 3(1) [OF ev [symmetric] refl _ loop]
    have nc: "\<nexists>u e. ev = RevCompleted u e" using False h by (auto split: ResponseEvent.splits)
    then have comp: "completion (StreamEvent ev # rest) = completion rest" by (auto split: ResponseEvent.split)
    obtain out where out: "HistoryItems s1 = HistoryItems s @ (case ev of RevOutputItemDone (Some item) \<Rightarrow> [item] | _ \<Rightarrow> [])"
      "st_toolOutputs st1 = st_toolOutputs st @ out"
      "map output_call out = (case ev of RevOutputItemDone (Some item) \<Rightarrow>
          (case answered_call item of None \<Rightarrow> [] | Some c \<Rightarrow> [Some c]) | _ \<Rightarrow> [])"
      "st_needsFollowUp st1 = (st_needsFollowUp st \<or> out \<noteq> [])"
      using h nc by (auto split: ResponseEvent.splits)
    have recd: "recorded (StreamEvent ev # rest) =
        (case ev of RevOutputItemDone (Some item) \<Rightarrow> [item] | _ \<Rightarrow> []) @ recorded rest"
      using nc by (auto split: ResponseEvent.split option.split)
    have calls: "map output_call out @ map Some (List.map_filter answered_call (recorded rest)) =
        map Some (List.map_filter answered_call (recorded (StreamEvent ev # rest)))"
      unfolding recd out(3) by (auto simp: List.map_filter_def split: ResponseEvent.split option.split)
    show ?thesis
    proof (cases "completion rest")
      case None
      then show ?thesis using IH False out(1) recd comp by simp
    next
      case (Some endTurn)
      then obtain outs where outs: "HistoryItems s' = HistoryItems s1 @ recorded rest @ st_toolOutputs st1 @ outs"
        "map output_call outs = map Some (List.map_filter answered_call (recorded rest))"
        "res = Inl ErrTurnAborted \<or>
         (\<exists>o'. res = Inr o' \<and> sr_NeedsFollowUp o' = (st_needsFollowUp st1 \<or> outs \<noteq> [] \<or> endTurn = Some False))"
        using IH False by auto
      have "map output_call (out @ outs) = map Some (List.map_filter answered_call (recorded (StreamEvent ev # rest)))"
        using calls outs(2) by simp
      moreover have "HistoryItems s' = HistoryItems s @ recorded (StreamEvent ev # rest) @ st_toolOutputs st @ (out @ outs)"
        using outs(1) out(1,2) recd by simp
      moreover have "res = Inl ErrTurnAborted \<or> (\<exists>o'. res = Inr o' \<and>
          sr_NeedsFollowUp o' = (st_needsFollowUp st \<or> out @ outs \<noteq> [] \<or> endTurn = Some False))"
        using outs(3) out(4) by auto
      ultimately show ?thesis using comp Some by auto
    qed
  qed
qed auto


section \<open>A request\<close>

text \<open>
  C37. A sampling request appends to the history the items of the stream in their order. If the stream completes,
  they are followed by the outputs of the tool calls among them, one per call, in order and under the same
  identifiers; the turn goes on exactly if there were calls or the model asked to continue. If the stream breaks off,
  the request fails and no output is recorded, also of calls that were carried out.
\<close>

theorem sampling_request_answers_calls:
  assumes "runSamplingRequest sv tc s = (res, s')"
    and "sv_Stream sv (buildPrompt tc s) (se_World s) = (Inr steps, w)"
  shows "case completion steps of
      None \<Rightarrow> (\<exists>e. res = Inl e) \<and> HistoryItems s' = HistoryItems s @ recorded steps
    | Some endTurn \<Rightarrow>
        \<exists>outs. HistoryItems s' = HistoryItems s @ recorded steps @ outs \<and>
          map output_call outs = map Some (List.map_filter answered_call (recorded steps)) \<and>
          (res = Inl ErrTurnAborted \<or>
           (\<exists>out. res = Inr out \<and>
              sr_NeedsFollowUp out = (List.map_filter answered_call (recorded steps) \<noteq> [] \<or> endTurn = Some False)))"
proof -
  have "sampling_loop sv tc initial_stream (s\<lparr>se_World := w\<rparr>) steps = (res, s')"
    using assms by (simp add: runSamplingRequest_def)
  note effect = sampling_loop_effect [OF this]
  show ?thesis
  proof (cases "completion steps")
    case None
    then show ?thesis using effect by simp
  next
    case (Some endTurn)
    then obtain outs where outs: "HistoryItems s' = HistoryItems s @ recorded steps @ outs"
      "map output_call outs = map Some (List.map_filter answered_call (recorded steps))"
      "res = Inl ErrTurnAborted \<or> (\<exists>out. res = Inr out \<and> sr_NeedsFollowUp out = (outs \<noteq> [] \<or> endTurn = Some False))"
      using effect by (auto simp: initial_stream_def)
    moreover have "outs \<noteq> [] \<longleftrightarrow> List.map_filter answered_call (recorded steps) \<noteq> []"
      using outs(2) by (metis map_is_Nil_conv)
    ultimately show ?thesis using Some by auto
  qed
qed


text \<open>Sample services: one tool, and a model that calls it once and then answers.\<close>

definition echo_executor :: "nat executor" where
  "echo_executor =
     \<lparr>ex_MatchesPayload = (\<lambda>p. True), ex_Handle = (\<lambda>h w. (Inr (TextOutput ''ok'' None), [''exec_command_begin''], w))\<rparr>"

definition sample_services :: "stream_step list \<Rightarrow> nat services" where
  "sample_services first =
     \<lparr>sv_Stream = (\<lambda>p w. (Inr (if w = 0 \<and> p_Tools p \<noteq> [] then first
          else [StreamEvent (RevOutputItemDone (Some (Message None ''assistant'' [COutputText ''done''] None))),
                StreamEvent (RevCompleted None None)]), w + 1)),
      sv_Cancelled = (\<lambda>w. False), sv_Executors = (\<lambda>n. if n = ''echo'' then Some echo_executor else None),
      sv_SearchParams = Inr, sv_HookXML = (\<lambda>t. None), sv_FireHook = (\<lambda>p w. w), sv_Record = (\<lambda>i w. w)\<rparr>"

definition sample_run :: TurnRun where
  "sample_run =
     \<lparr>tu_SubID = ''1'', tu_RealtimeActive = False, tu_ModelSlug = ''m'', tu_ModelContextWindow = None,
      tu_AutoCompactTokenLimit = None, tu_Tools = [''echo''], tu_DeveloperInstructions = None, tu_UserInstructions = None,
      tu_CompactPrompt = None, tu_BaseInstructions = [], tu_FinalOutputJSONSchema = None\<rparr>"

definition sample_session :: "nat Session" where
  "sample_session =
     \<lparr>se_State = NewSessionState, se_Status = AgentPendingInit, se_Events = [], se_Select = (\<lambda>_. True),
      se_Sent = 0, se_ToolCalls = None, se_World = 0\<rparr>"

abbreviation echo_call :: "stream_step list \<Rightarrow> stream_step list" where
  "echo_call rest \<equiv> StreamEvent (RevOutputItemDone (Some (FunctionCall ''echo'' None ''{}'' ''c1''))) # rest"

theorem sampling_request_answers_calls_witness:
  "\<exists>outs. HistoryItems (snd (runSamplingRequest (sample_services (echo_call [StreamEvent (RevCompleted None None)]))
        sample_run sample_session)) =
      HistoryItems sample_session @ [FunctionCall ''echo'' None ''{}'' ''c1''] @ outs \<and> map output_call outs = [Some ''c1'']"
proof -
  let ?steps = "echo_call [StreamEvent (RevCompleted None None)]"
  obtain res s' where r: "runSamplingRequest (sample_services ?steps) sample_run sample_session = (res, s')" by fastforce
  have "sv_Stream (sample_services ?steps) (buildPrompt sample_run sample_session) (se_World sample_session) = (Inr ?steps, 1)"
    by (simp add: sample_services_def sample_session_def buildPrompt_def sample_run_def)
  from sampling_request_answers_calls [OF r this] show ?thesis using r by (auto simp: map_filter_simps)
qed

text \<open>
  A call whose stream breaks off stays in the history without an output although the tool ran, and the history is
  sent unchanged with the next request.
\<close>

lemma interrupted_call_stays_unanswered:
  "HistoryItems (snd (runSamplingRequest (sample_services (echo_call [ContextDone])) sample_run sample_session)) =
     [FunctionCall ''echo'' None ''{}'' ''c1'']"
  by code_simp

section \<open>Turns keep the conversation answered\<close>

definition all_answered :: "ResponseItem list \<Rightarrow> bool" where
  "all_answered h \<longleftrightarrow>
     (\<forall>i < length h. \<forall>c. answered_call (h ! i) = Some c \<longrightarrow> (\<exists>j. i < j \<and> j < length h \<and> output_call (h ! j) = Some c))"

lemma output_is_no_call: "output_call item = Some c \<Longrightarrow> answered_call item = None"
  by (cases item) auto

lemma all_answered_append:
  assumes "all_answered h" "map output_call outs = map Some (List.map_filter answered_call items)"
  shows "all_answered (h @ items @ outs)"
  unfolding all_answered_def
proof (intro allI impI)
  fix i c
  let ?h = "h @ items @ outs"
  assume i: "i < length ?h" "answered_call (?h ! i) = Some c"
  consider (old) "i < length h" | (new) "length h \<le> i" "i < length h + length items" | (out) "length h + length items \<le> i"
    by linarith
  then show "\<exists>j. i < j \<and> j < length ?h \<and> output_call (?h ! j) = Some c"
  proof cases
    case old
    then obtain j where "i < j" "j < length h" "output_call (h ! j) = Some c"
      using assms(1) i(2) by (auto simp: all_answered_def nth_append)
    then show ?thesis by (intro exI [of _ j]) (auto simp: nth_append)
  next
    case new
    then have lt: "i - length h < length items" by linarith
    then have item: "answered_call (items ! (i - length h)) = Some c" using new i(2) by (simp add: nth_append)
    then have "c \<in> set (List.map_filter answered_call items)"
      using lt by (auto simp: List.map_filter_def image_iff intro!: exI [of _ "items ! (i - length h)"])
    then have "Some c \<in> set (map output_call outs)" using assms(2) by simp
    then obtain k where "k < length outs" "output_call (outs ! k) = Some c" by (auto simp: in_set_conv_nth)
    then show ?thesis using new by (intro exI [of _ "length h + length items + k"]) (auto simp: nth_append)
  next
    case out
    let ?k = "i - (length h + length items)"
    have k: "?k < length outs" using i(1) out by simp
    then have "output_call (outs ! ?k) \<in> set (map Some (List.map_filter answered_call items))"
      using assms(2) by (metis nth_mem length_map nth_map)
    then have "answered_call (outs ! ?k) = None" by (auto dest: output_is_no_call)
    moreover have "?h ! i = outs ! ?k"
      using out nth_append [of "h @ items" outs i] by simp
    ultimately show ?thesis using i(2) by simp
  qed
qed

lemma all_answered_no_calls:
  "all_answered h \<Longrightarrow> \<forall>item \<in> set items. answered_call item = None \<Longrightarrow> all_answered (h @ items)"
  using all_answered_append [of h "[]" items] by (simp add: List.map_filter_def filter_empty_conv)

lemma request_keeps_answered:
  assumes "runSamplingRequest sv tc s = (Inr out, s')" "all_answered (HistoryItems s)"
  shows "all_answered (HistoryItems s')"
proof -
  obtain steps w where st: "sv_Stream sv (buildPrompt tc s) (se_World s) = (Inr steps, w)"
    "sampling_loop sv tc initial_stream (s\<lparr>se_World := w\<rparr>) steps = (Inr out, s')"
    using assms(1) by (auto simp: runSamplingRequest_def split: prod.splits sum.splits)
  from sampling_loop_effect [OF st(2)] obtain outs where "HistoryItems s' = HistoryItems s @ recorded steps @ outs"
    "map output_call outs = map Some (List.map_filter answered_call (recorded steps))"
    by (cases "completion steps") (auto simp: initial_stream_def)
  then show ?thesis using all_answered_append assms(2) by metis
qed

lemma turn_loop_answered:
  assumes "turn_loop sv tc m s = Some r"
  shows "all_answered (HistoryItems s) \<longrightarrow> (\<forall>e. fst r \<noteq> TurnFailed e) \<longrightarrow> all_answered (HistoryItems (snd (snd r)))"
proof (rule turn_loop.raw_induct [OF _ assms])
  fix loop :: "'a services \<Rightarrow> TurnRun \<Rightarrow> string option \<Rightarrow> 'a Session \<Rightarrow> (turn_exit \<times> string option \<times> 'a Session) option"
    and sv tc m s r
  assume IH: "\<And>sv tc m s r. loop sv tc m s = Some r \<Longrightarrow>
      all_answered (HistoryItems s) \<longrightarrow> (\<forall>e. fst r \<noteq> TurnFailed e) \<longrightarrow> all_answered (HistoryItems (snd (snd r)))"
    and eq: "(if sv_Cancelled sv (se_World s) then Some (TurnCancelled, m, s)
        else case runSamplingRequest sv tc s of
            (Inl err, s') \<Rightarrow>
              if is_aborted err then Some (TurnFailed err, m, s') else Some (TurnFailed err, m, emitTurnError tc err s')
          | (Inr out, s') \<Rightarrow>
              let lastMsg' = (case sr_LastAgentMessage out of Some m \<Rightarrow> Some m | None \<Rightarrow> m) in
              if \<not> sr_NeedsFollowUp out then Some (TurnFinished, lastMsg', s') else loop sv tc lastMsg' s') = Some r"
  show "all_answered (HistoryItems s) \<longrightarrow> (\<forall>e. fst r \<noteq> TurnFailed e) \<longrightarrow> all_answered (HistoryItems (snd (snd r)))"
  proof (intro impI)
    assume ok: "all_answered (HistoryItems s)" and nf: "\<forall>e. fst r \<noteq> TurnFailed e"
    obtain res s' where req: "runSamplingRequest sv tc s = (res, s')" by fastforce
    show "all_answered (HistoryItems (snd (snd r)))"
    proof (cases "sv_Cancelled sv (se_World s)")
      case True
      then show ?thesis using eq ok by auto
    next
      case False
      then obtain out where out: "res = Inr out" using eq nf req by (cases res) (auto split: if_splits)
      then have "all_answered (HistoryItems s')" using request_keeps_answered req ok by metis
      then show ?thesis using IH eq nf req out False by (auto simp: Let_def split: if_splits)
    qed
  qed
qed


text \<open>A model that is offered no tools calls none; this is what the program relies on during compaction.\<close>

definition no_calls_without_tools :: "'w services \<Rightarrow> bool" where
  "no_calls_without_tools sv \<longleftrightarrow>
     (\<forall>p w steps w'. p_Tools p = [] \<and> sv_Stream sv p w = (Inr steps, w') \<longrightarrow>
        (\<forall>item \<in> set (recorded steps). answered_call item = None))"

lemma compact_stream_loop_history:
  "compact_stream_loop tc s steps = (e, s') \<Longrightarrow> HistoryItems s' = HistoryItems s @ recorded steps"
proof (induction tc s steps rule: compact_stream_loop.induct)
  case (3 tc s ev rest)
  show ?case
  proof (cases ev)
    case (RevOutputItemDone item)
    then show ?thesis using 3 by (cases item) auto
  next
    case (RevCompleted u e)
    then show ?thesis using 3 by (auto split: option.splits)
  next
    case (RevRateLimits r)
    then show ?thesis using 3 by (cases r) auto
  qed (use 3 in auto)
qed auto

lemma drainCompactStreamOnce_history:
  assumes "drainCompactStreamOnce sv tc p s = (e, s')" "no_calls_without_tools sv" "p_Tools p = []"
  shows "\<exists>items. HistoryItems s' = HistoryItems s @ items \<and> (\<forall>item \<in> set items. answered_call item = None)"
proof -
  obtain r w where r: "sv_Stream sv p (se_World s) = (r, w)" by fastforce
  show ?thesis
  proof (cases r)
    case (Inl err)
    then show ?thesis using assms(1) r by (auto simp: drainCompactStreamOnce_def)
  next
    case (Inr steps)
    have "compact_stream_loop tc (s\<lparr>se_World := w\<rparr>) steps = (e, s')"
      using assms(1) r Inr by (simp add: drainCompactStreamOnce_def)
    then have "HistoryItems s' = HistoryItems s @ recorded steps" by (auto dest: compact_stream_loop_history)
    then show ?thesis using assms(2,3) r Inr by (auto simp: no_calls_without_tools_def)
  qed
qed

lemma drainCompactToCompleted_history:
  assumes "no_calls_without_tools sv" "drainCompactToCompleted sv tc history s = (e, s')"
  shows "\<exists>items. HistoryItems s' = HistoryItems s @ items \<and> (\<forall>item \<in> set items. answered_call item = None)"
  using assms(2)
proof (induction "length history" arbitrary: history s rule: less_induct)
  case less
  define p where "p = \<lparr>p_Input = history, p_Tools = [],
      p_BaseInstructionsOverride = (if tu_BaseInstructions tc \<noteq> [] then Some (tu_BaseInstructions tc) else None),
      p_OutputSchema = None\<rparr>"
  obtain e1 s1 where once: "drainCompactStreamOnce sv tc p s = (e1, s1)" by fastforce
  obtain items where items: "HistoryItems s1 = HistoryItems s @ items" "\<forall>item \<in> set items. answered_call item = None"
    using drainCompactStreamOnce_history [OF once assms(1)] by (auto simp: p_def)
  note eq = less(2) [unfolded drainCompactToCompleted.simps [of sv tc history s] Let_def p_def [symmetric] once prod.case]
  consider (stop) "s' = s" | (once) "s' = s1"
    | (again) "drainCompactToCompleted sv tc (tl history) s1 = (e, s')" "length history > 1"
    using eq by (auto split: if_splits option.splits)
  then show ?case
  proof cases
    case stop
    then show ?thesis by auto
  next
    case once
    then show ?thesis using items by auto
  next
    case again
    then obtain more where "HistoryItems s' = HistoryItems s1 @ more" "\<forall>item \<in> set more. answered_call item = None"
      using less(1) [OF _ again(1)] by (metis diff_less length_greater_0_conv length_tl list.size(3) not_less_zero zero_less_one)
    then show ?thesis using items by (intro exI [of _ "items @ more"]) auto
  qed
qed


lemma buildCompactedHistory_no_calls:
  "item \<in> set (buildCompactedHistory [] msgs summary) \<Longrightarrow> answered_call item = None"
  by (auto simp: buildCompactedHistory_def buildCompactedHistoryWithLimit_def Let_def userTextMessage_def)

lemma HistoryItems_replaced [simp]:
  "HistoryItems (replaceCompactedHistory sv items b r s) = items"
  "HistoryItems (recomputeTokenUsage s) = HistoryItems s"
  "HistoryItems (fireCompactHook sv ph s) = HistoryItems s"
  by (simp_all add: replaceCompactedHistory_def recordRollout_def Let_def recomputeTokenUsage_def fireCompactHook_def)
    (simp_all add: HistoryItems_def WithState_def)

lemma auto_compact_answered:
  assumes "no_calls_without_tools sv" "all_answered (HistoryItems s)"
  shows "all_answered (HistoryItems (snd (runInlineAutoCompactTask sv tc DoNotInjectInitialContext s)))"
proof -
  let ?s0 = "emitTurnItemStarted tc TiContextCompaction (fireCompactHook sv ''pre_compact'' s)"
  define cloned where "cloned = HistoryItems ?s0 @ (case userInputToResponseItem [UText (CompactPromptText tc)] of
      Some item \<Rightarrow> [item] | None \<Rightarrow> [])"
  obtain e s2 where d: "drainCompactToCompleted sv tc cloned ?s0 = (e, s2)" by fastforce
  obtain items where items: "HistoryItems s2 = HistoryItems s @ items" "\<forall>item \<in> set items. answered_call item = None"
    using drainCompactToCompleted_history [OF assms(1) d] by auto
  have "all_answered []" by (simp add: all_answered_def)
  then have compacted: "all_answered (buildCompactedHistory [] msgs summary)" for msgs summary
    using all_answered_no_calls [of "[]"] buildCompactedHistory_no_calls by (metis append_Nil)
  show ?thesis
    unfolding runInlineAutoCompactTask_def runCompactTaskInner_def runCompactTaskImpl_def Let_def cloned_def [symmetric]
      d prod.case
    using items compacted all_answered_no_calls [OF assms(2) items(2)] by (cases e) auto
qed

text \<open>
  C30. The conversation stays answered: if every call in the history has its output after it and the turn's input
  makes no calls, then the same holds after the turn, over all its requests, tool runs and an automatic compaction,
  unless the turn failed.
\<close>

theorem turn_keeps_conversation_answered:
  assumes "runTurn sv tc inp s = Some (exit, msg, s')" "\<forall>e. exit \<noteq> TurnFailed e"
    and "all_answered (HistoryItems s)" "no_calls_without_tools sv"
    and "\<forall>i \<in> set inp. \<forall>item \<in> set (turn_input_items i). answered_call item = None"
  shows "all_answered (HistoryItems s')"
proof -
  let ?s1 = "recordTurnInput inp s"
  have "all_answered (HistoryItems ?s1)"
    using assms(3,5) by (auto simp: recordTurnInput_def Let_def intro!: all_answered_no_calls)
  then have "all_answered (HistoryItems (maybePreSamplingAutoCompact sv tc ?s1))"
    using auto_compact_answered [OF assms(4)] by (auto simp: maybePreSamplingAutoCompact_def split: option.split)
  then show ?thesis using assms(1,2) turn_loop_answered by (fastforce simp: runTurn_def Let_def)
qed

abbreviation echo_services :: "nat services" where
  "echo_services \<equiv> sample_services (echo_call [StreamEvent (RevCompleted None None)])"

lemma sample_services_no_calls: "no_calls_without_tools (sample_services first)"
  by (auto simp: no_calls_without_tools_def sample_services_def split: if_splits)

theorem turn_keeps_conversation_answered_witness:
  "all_answered (HistoryItems (snd (snd (the (runTurn echo_services sample_run [InputContent [UText ''hi'']] sample_session))))) \<and>
   length (HistoryItems (snd (snd (the (runTurn echo_services sample_run [InputContent [UText ''hi'']] sample_session))))) = 4"
proof -
  let ?t = "runTurn echo_services sample_run [InputContent [UText ''hi'']] sample_session"
  have run: "map_option fst ?t = Some TurnFinished" "length (HistoryItems (snd (snd (the ?t)))) = 4" by code_simp+
  then obtain m s' where t: "?t = Some (TurnFinished, m, s')" by (cases ?t) auto
  have "all_answered (HistoryItems sample_session)"
    by (simp add: all_answered_def sample_session_def HistoryItems_def NewSessionState_def NewConversationHistory_def)
  moreover have "\<forall>i \<in> set [InputContent [UText ''hi'']]. \<forall>item \<in> set (turn_input_items i). answered_call item = None"
    by (simp add: turn_input_items_def userInputToResponseItem_def)
  ultimately have "all_answered (HistoryItems s')"
    using turn_keeps_conversation_answered [OF t _ _ sample_services_no_calls] by blast
  then show ?thesis using t run(2) by simp
qed


section \<open>The events of a turn\<close>

fun mid_event :: "EventMsg \<Rightarrow> bool" where
  "mid_event EvTurnStarted = False"
| "mid_event (EvTurnComplete _) = False"
| "mid_event (EvTurnAborted _) = False"
| "mid_event EvShutdownComplete = False"
| "mid_event _ = True"

text \<open>The events of a list that are put on the queue when the first of them meets the \<open>k\<close>-th select.\<close>

fun selected :: "(nat \<Rightarrow> bool) \<Rightarrow> nat \<Rightarrow> 'e list \<Rightarrow> 'e list" where
  "selected sel k [] = []"
| "selected sel k (e # es) = (if sel k then e # selected sel (k + 1) es else selected sel (k + 1) es)"

lemma selected_append [simp]:
  "selected sel k (xs @ ys) = selected sel k xs @ selected sel (k + length xs) ys"
  by (induction xs arbitrary: k) simp_all

lemma selected_all: "(\<And>k. sel k) \<Longrightarrow> selected sel k es = es"
  by (induction es arbitrary: k) simp_all

definition emits :: "string \<Rightarrow> 'w Session \<Rightarrow> 'w Session \<Rightarrow> bool" where
  "emits i s s' \<longleftrightarrow> se_Select s' = se_Select s \<and>
     (\<exists>evs. se_Events s' = se_Events s @ selected (se_Select s) (se_Sent s) (map (Pair i) evs) \<and>
        se_Sent s' = se_Sent s + length evs \<and> list_all mid_event evs)"

named_theorems emits_intros \<open>which events the operations of the engine emit\<close>

lemma emits_same:
  "se_Events s' = se_Events s \<Longrightarrow> se_Select s' = se_Select s \<Longrightarrow> se_Sent s' = se_Sent s \<Longrightarrow> emits i s s'"
  by (simp add: emits_def)

lemma emits_refl [emits_intros]: "emits i s s"
  by (simp add: emits_same)

lemma emits_trans:
  assumes "emits i s s'" and "emits i s' s''"
  shows "emits i s s''"
proof -
  obtain e1 where 1: "se_Select s' = se_Select s" "se_Sent s' = se_Sent s + length e1" "list_all mid_event e1"
    "se_Events s' = se_Events s @ selected (se_Select s) (se_Sent s) (map (Pair i) e1)"
    using assms(1) by (auto simp: emits_def)
  obtain e2 where 2: "se_Select s'' = se_Select s'" "se_Sent s'' = se_Sent s' + length e2" "list_all mid_event e2"
    "se_Events s'' = se_Events s' @ selected (se_Select s') (se_Sent s') (map (Pair i) e2)"
    using assms(2) by (auto simp: emits_def)
  show ?thesis unfolding emits_def using 1 2 by (auto intro!: exI [of _ "e1 @ e2"])
qed

lemma emits_send: "mid_event e \<Longrightarrow> emits i s (SendEvent i e s)"
  by (auto simp: emits_def SendEvent_def intro!: exI [of _ "[e]"])

lemma emits_step [emits_intros]:
  "mid_event e \<Longrightarrow> emits i s s' \<Longrightarrow> emits i s (SendEvent i e s')"
  "emits i s s' \<Longrightarrow> emits i s (WithState f s')"
  "emits i s s' \<Longrightarrow> emits i s (RecordItems items s')"
  "emits i s s' \<Longrightarrow> emits i s (IncToolCalls s')"
  "emits i s s' \<Longrightarrow> emits i s (s'\<lparr>se_World := w\<rparr>)"
  by (erule (1) emits_trans [OF _ emits_send],
      (erule emits_trans, rule emits_same; simp add: WithState_def RecordItems_def IncToolCalls_def)+)

lemma emits_foldl [emits_intros]:
  "emits i s s' \<Longrightarrow> emits i s (foldl (\<lambda>s e. SendEvent i (EvOther (f e)) s) s' evs)"
  by (induction evs arbitrary: s') (simp_all add: emits_step(1))

lemma emits_emit [emits_intros]:
  "emits (tu_SubID tc) s s' \<Longrightarrow> emits (tu_SubID tc) s (emitItemStarted tc item s')"
  "emits (tu_SubID tc) s s' \<Longrightarrow> emits (tu_SubID tc) s (emitAgentMessageDelta tc act d s')"
  "emits (tu_SubID tc) s s' \<Longrightarrow> emits (tu_SubID tc) s (emitReasoningSummaryDelta tc act d n s')"
  "emits (tu_SubID tc) s s' \<Longrightarrow> emits (tu_SubID tc) s (emitReasoningRawDelta tc act d n s')"
  "emits (tu_SubID tc) s s' \<Longrightarrow> emits (tu_SubID tc) s (emitReasoningSectionBreak tc act n s')"
  "emits (tu_SubID tc) s s' \<Longrightarrow> emits (tu_SubID tc) s (emitAgentMessage tc t s')"
  "emits (tu_SubID tc) s s' \<Longrightarrow> emits (tu_SubID tc) s (emitTurnItemStarted tc ti s')"
  "emits (tu_SubID tc) s s' \<Longrightarrow> emits (tu_SubID tc) s (emitTurnItemCompleted tc ti s')"
  "emits (tu_SubID tc) s s' \<Longrightarrow> emits (tu_SubID tc) s (emitItemCompletedAgentMessage tc j p t s')"
  "emits (tu_SubID tc) s s' \<Longrightarrow> emits (tu_SubID tc) s (emitReasoning tc sm c s')"
  "emits (tu_SubID tc) s s' \<Longrightarrow> emits (tu_SubID tc) s (emitTurnError tc e s')"
  "emits (tu_SubID tc) s s' \<Longrightarrow> emits (tu_SubID tc) s (accountAndEmitTokenCount tc u s')"
  "emits (tu_SubID tc) s s' \<Longrightarrow> emits (tu_SubID tc) s (recordRollout sv r s')"
  "emits (tu_SubID tc) s s' \<Longrightarrow> emits (tu_SubID tc) s (fireCompactHook sv ph s')"
  "emits (tu_SubID tc) s s' \<Longrightarrow> emits (tu_SubID tc) s (recomputeTokenUsage s')"
  "emits (tu_SubID tc) s s' \<Longrightarrow> emits (tu_SubID tc) s (replaceCompactedHistory sv items b r s')"
  by (auto simp: emitItemStarted_def emitAgentMessageDelta_def emitReasoningSummaryDelta_def emitReasoningRawDelta_def
      emitReasoningSectionBreak_def emitAgentMessage_def emitTurnItemStarted_def emitTurnItemCompleted_def
      emitItemCompletedAgentMessage_def emitReasoning_def emitTurnError_def accountAndEmitTokenCount_def Let_def
      recordRollout_def fireCompactHook_def recomputeTokenUsage_def replaceCompactedHistory_def
      split: option.split intro!: emits_intros)

lemma emits_router: "emits (tu_SubID tc) s (snd (router_dispatch sv tc c name payload s))"
  by (auto simp: router_dispatch_def Let_def split: option.split prod.split sum.split intro!: emits_intros)

lemma emits_dispatch: "emits (tu_SubID tc) s (snd (DispatchWithSession sv tc c name payload s))"
  using emits_router [of tc s sv c name payload] by (auto simp: DispatchWithSession_def split: prod.split sum.split)


lemma emits_handleOutputItemDone: "emits (tu_SubID tc) s (snd (handleOutputItemDone sv tc item st s))"
proof (cases item)
  case (FunctionCall name ns arguments c)
  let ?s = "IncToolCalls (RecordItems [FunctionCall name ns arguments c] s)"
  have "emits (tu_SubID tc) s ?s" by (intro emits_intros)
  from emits_trans [OF this emits_dispatch [of tc ?s sv c "toolNameFor name ns" "FunctionPayload arguments"]]
  show ?thesis by (simp add: FunctionCall dispatchFunctionCall_def Let_def case_prod_beta)
next
  case (CustomToolCall name inp c)
  let ?s = "IncToolCalls (RecordItems [CustomToolCall name inp c] s)"
  have "emits (tu_SubID tc) s ?s" by (intro emits_intros)
  from emits_trans [OF this emits_dispatch [of tc ?s sv c "PlainToolName name" "CustomPayload inp"]]
  show ?thesis by (simp add: CustomToolCall dispatchCustomToolCall_def Let_def case_prod_beta)
next
  case (ToolSearchCall call execution arguments)
  let ?s = "IncToolCalls (RecordItems [ToolSearchCall call execution arguments] s)"
  have "emits (tu_SubID tc) s ?s" by (intro emits_intros)
  then have "emits (tu_SubID tc) s (snd (router_dispatch sv tc c name payload ?s))" for c name payload
    using emits_trans emits_router by blast
  then show ?thesis
    by (auto simp: ToolSearchCall dispatchToolSearchCall_def Let_def simp del: BuildToolCall.simps
        split: sum.split option.split prod.split intro!: emits_intros)
      (metis snd_conv)+
qed (auto simp: Let_def intro!: emits_intros)

lemma emits_handleStreamEvent: "emits (tu_SubID tc) s (snd (snd (handleStreamEvent sv tc ev st s)))"
proof (cases ev)
  case (RevOutputItemDone item)
  then show ?thesis
  proof (cases item)
    case (Some it)
    then show ?thesis using RevOutputItemDone emits_handleOutputItemDone [of tc s sv it st]
      by (simp add: case_prod_beta)
  qed (auto intro: emits_intros)
qed (auto intro!: emits_intros split: option.split)

lemma emits_sampling_loop: "emits (tu_SubID tc) s (snd (sampling_loop sv tc st s steps))"
proof (induction sv tc st s steps rule: sampling_loop.induct)
  case (3 sv tc st s ev rest)
  obtain finished st1 s1 where ev: "handleStreamEvent sv tc ev st s = (finished, st1, s1)" by (metis prod_cases3)
  then have "emits (tu_SubID tc) s s1" using emits_handleStreamEvent [of tc s sv ev st] by simp
  then show ?case using ev 3 [OF ev [symmetric] refl] emits_trans
    by (auto simp: Let_def intro!: emits_intros)
qed (auto intro: emits_intros)

lemma emits_request: "emits (tu_SubID tc) s (snd (runSamplingRequest sv tc s))"
  using emits_trans [OF emits_step(5) [OF emits_refl] emits_sampling_loop]
  by (auto simp: runSamplingRequest_def intro: emits_intros split: prod.split sum.split)

lemma emits_compact_loop: "emits (tu_SubID tc) s (snd (compact_stream_loop tc s steps))"
proof (induction tc s steps rule: compact_stream_loop.induct)
  case (3 tc s ev rest)
  have "emits (tu_SubID tc) s (snd (handleCompactStreamEvent tc ev s))"
    by (cases ev) (auto intro!: emits_intros split: option.split)
  then show ?case using 3 emits_trans by (fastforce split: prod.split)
qed (auto intro: emits_intros)

lemma emits_drain_once: "emits (tu_SubID tc) s (snd (drainCompactStreamOnce sv tc p s))"
  using emits_trans [OF emits_step(5) [OF emits_refl] emits_compact_loop]
  by (auto simp: drainCompactStreamOnce_def intro: emits_intros split: prod.split sum.split)

lemma emits_drain:
  assumes "drainCompactToCompleted sv tc history s = (e, s')"
  shows "emits (tu_SubID tc) s s'"
  using assms
proof (induction "length history" arbitrary: history s rule: less_induct)
  case less
  define p where "p = \<lparr>p_Input = history, p_Tools = [],
      p_BaseInstructionsOverride = (if tu_BaseInstructions tc \<noteq> [] then Some (tu_BaseInstructions tc) else None),
      p_OutputSchema = None\<rparr>"
  obtain e1 s1 where once: "drainCompactStreamOnce sv tc p s = (e1, s1)" by fastforce
  then have s1: "emits (tu_SubID tc) s s1" using emits_drain_once [of tc s sv p] by simp
  note eq = less(2) [unfolded drainCompactToCompleted.simps [of sv tc history s] Let_def p_def [symmetric] once prod.case]
  consider (stop) "s' = s" | (once) "s' = s1"
    | (again) "drainCompactToCompleted sv tc (tl history) s1 = (e, s')" "length (tl history) < length history"
    using eq by (auto split: if_splits option.splits)
  then show ?case
  proof cases
    case again
    then show ?thesis using less(1) [OF again(2,1)] s1 emits_trans by blast
  qed (use s1 in \<open>auto intro: emits_intros\<close>)
qed

lemma emits_auto_compact: "emits (tu_SubID tc) s (snd (runInlineAutoCompactTask sv tc injection s))"
proof -
  let ?s0 = "emitTurnItemStarted tc TiContextCompaction (fireCompactHook sv ''pre_compact'' s)"
  define cloned where "cloned = HistoryItems ?s0 @ (case userInputToResponseItem [UText (CompactPromptText tc)] of
      Some item \<Rightarrow> [item] | None \<Rightarrow> [])"
  obtain e s2 where d: "drainCompactToCompleted sv tc cloned ?s0 = (e, s2)" by fastforce
  have "emits (tu_SubID tc) s ?s0" by (intro emits_intros)
  then have "emits (tu_SubID tc) s s2" using emits_trans emits_drain [OF d] by blast
  then show ?thesis
    unfolding runInlineAutoCompactTask_def runCompactTaskInner_def runCompactTaskImpl_def Let_def cloned_def [symmetric]
      d prod.case
    by (cases e) (auto intro!: emits_intros)
qed


lemma turn_loop_emits:
  assumes "turn_loop sv tc m s = Some r"
  shows "emits (tu_SubID tc) s (snd (snd r))"
proof (rule turn_loop.raw_induct [OF _ assms])
  fix loop :: "'a services \<Rightarrow> TurnRun \<Rightarrow> string option \<Rightarrow> 'a Session \<Rightarrow> (turn_exit \<times> string option \<times> 'a Session) option"
    and sv tc m s r
  assume IH: "\<And>sv tc m s r. loop sv tc m s = Some r \<Longrightarrow> emits (tu_SubID tc) s (snd (snd r))"
    and eq: "(if sv_Cancelled sv (se_World s) then Some (TurnCancelled, m, s)
        else case runSamplingRequest sv tc s of
            (Inl err, s') \<Rightarrow>
              if is_aborted err then Some (TurnFailed err, m, s') else Some (TurnFailed err, m, emitTurnError tc err s')
          | (Inr out, s') \<Rightarrow>
              let lastMsg' = (case sr_LastAgentMessage out of Some m \<Rightarrow> Some m | None \<Rightarrow> m) in
              if \<not> sr_NeedsFollowUp out then Some (TurnFinished, lastMsg', s') else loop sv tc lastMsg' s') = Some r"
  obtain res s' where req: "runSamplingRequest sv tc s = (res, s')" by fastforce
  then have s': "emits (tu_SubID tc) s s'" using emits_request [of tc s sv] by simp
  then show "emits (tu_SubID tc) s (snd (snd r))"
    using eq req IH emits_trans [OF s']
    by (cases res) (auto simp: Let_def intro: emits_intros split: if_splits)
qed

lemma turn_loop_returns:
  assumes "\<And>s out s'. runSamplingRequest sv tc s = (Inr out, s') \<Longrightarrow> sr_NeedsFollowUp out \<Longrightarrow> (rounds s' :: nat) < rounds s"
  shows "\<exists>r. turn_loop sv tc m s = Some r"
proof (induction "rounds s" arbitrary: s m rule: less_induct)
  case less
  obtain res s' where req: "runSamplingRequest sv tc s = (res, s')" by fastforce
  show ?case
  proof (cases res)
    case (Inr out)
    then show ?thesis using less [of s'] assms req by (subst turn_loop.simps) (auto simp: Let_def)
  qed (subst turn_loop.simps, simp add: req)
qed

text \<open>
  C27. Every started turn ends: if each request that asks for a follow-up uses up one of finitely many rounds, the
  task returns, whatever the tools, the compaction and the stream do. The events it sends, all under the id of the turn,
  begin with the start event and end with one terminal event, with no other such event between; the terminal event
  says completed or, if the task was cancelled, interrupted, and the status of the agent is left accordingly, even
  if an event is lost. The queue receives exactly the sent events whose select took the send: all of them, in
  order, unless the session's context is done, when any of them, the terminal one included, can be lost.
\<close>

theorem turn_starts_and_ends:
  assumes "\<And>s out s'. runSamplingRequest sv tc s = (Inr out, s') \<Longrightarrow> sr_NeedsFollowUp out \<Longrightarrow> (rounds s' :: nat) < rounds s"
  shows "\<exists>s' evs lastMsg terminal. run_task sv tc inp s = Some s' \<and>
    se_Events s' = se_Events s @
      selected (se_Select s) (se_Sent s) (map (Pair (tu_SubID tc)) (EvTurnStarted # evs @ [terminal])) \<and>
    ((\<forall>k. se_Select s k) \<longrightarrow>
      se_Events s' = se_Events s @ map (Pair (tu_SubID tc)) (EvTurnStarted # evs @ [terminal])) \<and>
    list_all mid_event evs \<and>
    (terminal = EvTurnComplete lastMsg \<and> se_Status s' = AgentCompleted lastMsg \<or>
     terminal = EvTurnAborted AbortInterrupted \<and> se_Status s' = AgentInterrupted \<and> sv_Cancelled sv (se_World s')) \<and>
    se_ToolCalls s' = None"
proof -
  let ?i = "tu_SubID tc"
  define s1 where "s1 = SendEvent ?i EvTurnStarted (s\<lparr>se_ToolCalls := Some 0\<rparr>)"
  define s2 where "s2 = s1\<lparr>se_World := sv_FireHook sv ''turn_start'' (se_World s1)\<rparr>"
  define s3 where "s3 = WithState (SetPreviousTurnSettings (Some \<lparr>pts_Model = tu_ModelSlug tc,
      pts_RealtimeActive = Some (tu_RealtimeActive tc)\<rparr>)) (maybePreSamplingAutoCompact sv tc (recordTurnInput inp s2))"
  have "\<exists>r. turn_loop sv tc None s3 = Some r" by (rule turn_loop_returns [where rounds = rounds]) (rule assms)
  then obtain ex m s4 where loop: "turn_loop sv tc None s3 = Some (ex, m, s4)" by auto
  define s5 where "s5 = s4\<lparr>se_World := sv_FireHook sv ''turn_end'' (se_World s4)\<rparr>"
  have input: "emits ?i s1 (recordTurnInput inp s2)"
    by (auto simp: recordTurnInput_def Let_def s2_def intro!: emits_intros)
  have "emits ?i s1 (maybePreSamplingAutoCompact sv tc (recordTurnInput inp s2))"
    using input emits_trans [OF input emits_auto_compact] by (auto simp: maybePreSamplingAutoCompact_def split: option.split)
  then have "emits ?i s1 s3" by (simp add: s3_def emits_step(2))
  then have "emits ?i s1 s4" using turn_loop_emits [OF loop] emits_trans by (metis snd_conv)
  then have "emits ?i s1 s5" by (simp add: s5_def emits_step(5))
  then obtain evs where evs: "list_all mid_event evs"
    and q: "se_Events s5 = se_Events s @ selected (se_Select s) (se_Sent s) (map (Pair ?i) (EvTurnStarted # evs))"
      "se_Select s5 = se_Select s" "se_Sent s5 = se_Sent s + Suc (length evs)"
    by (auto simp: emits_def s1_def SendEvent_def)
  have last: "se_Events (SendEvent ?i e s5) =
      se_Events s @ selected (se_Select s) (se_Sent s) (map (Pair ?i) (EvTurnStarted # evs @ [e]))" for e
    using q by (simp add: SendEvent_def)
  have all: "selected (se_Select s) (se_Sent s) (map (Pair ?i) es) = map (Pair ?i) es" if "\<forall>k. se_Select s k" for es
    using that by (simp add: selected_all)
  define e where "e = (if sv_Cancelled sv (se_World s5) then EvTurnAborted AbortInterrupted else EvTurnComplete m)"
  define s' where "s' = (SendEvent ?i e s5)\<lparr>se_ToolCalls := None\<rparr>"
  have "run_task sv tc inp s = Some s'"
    using loop by (simp add: run_task_def runTurn_def Let_def s1_def s2_def s3_def s5_def s'_def e_def)
  moreover have "se_Events s' = se_Events s @ selected (se_Select s) (se_Sent s) (map (Pair ?i) (EvTurnStarted # evs @ [e]))"
    using last by (simp add: s'_def)
  moreover have "e = EvTurnComplete m \<and> se_Status s' = AgentCompleted m \<or>
     e = EvTurnAborted AbortInterrupted \<and> se_Status s' = AgentInterrupted \<and> sv_Cancelled sv (se_World s')"
    by (simp add: s'_def e_def SendEvent_def)
  moreover have "se_ToolCalls s' = None" by (simp add: s'_def)
  ultimately show ?thesis
    using evs all [of "EvTurnStarted # evs @ [e]"]
    by (intro exI [of _ s'] exI [of _ evs] exI [of _ m] exI [of _ e] conjI) auto
qed

lemma request_world:
  assumes "runSamplingRequest echo_services tc s = (Inr out, s')" "sr_NeedsFollowUp out"
  shows "se_World s = 0 \<and> se_World s' \<noteq> 0"
proof (cases "se_World s = 0 \<and> tu_Tools tc \<noteq> []")
  case True
  then show ?thesis using assms(1)
    by (auto simp: runSamplingRequest_def sample_services_def buildPrompt_def dispatchFunctionCall_def DispatchWithSession_def
        router_dispatch_def toolNameFor_def PlainToolName_def ToolName_String_def echo_executor_def accountAndEmitTokenCount_def
        Let_def)
next
  case False
  then have "\<not> sr_NeedsFollowUp out" using assms(1)
    by (auto simp: runSamplingRequest_def sample_services_def buildPrompt_def initial_stream_def Let_def split: if_splits)
  then show ?thesis using assms(2) by simp
qed

theorem turn_starts_and_ends_witness:
  "\<exists>s' evs terminal. run_task echo_services sample_run [InputContent [UText ''hi'']] sample_session = Some s' \<and>
     map snd (se_Events s') = EvTurnStarted # evs @ [terminal] \<and> list_all mid_event evs \<and> se_ToolCalls s' = None"
proof -
  have "\<exists>s' evs lastMsg terminal. run_task echo_services sample_run [InputContent [UText ''hi'']] sample_session = Some s' \<and>
    se_Events s' = se_Events sample_session @ selected (se_Select sample_session) (se_Sent sample_session)
      (map (Pair (tu_SubID sample_run)) (EvTurnStarted # evs @ [terminal])) \<and>
    ((\<forall>k. se_Select sample_session k) \<longrightarrow>
      se_Events s' = se_Events sample_session @ map (Pair (tu_SubID sample_run)) (EvTurnStarted # evs @ [terminal])) \<and>
    list_all mid_event evs \<and>
    (terminal = EvTurnComplete lastMsg \<and> se_Status s' = AgentCompleted lastMsg \<or>
     terminal = EvTurnAborted AbortInterrupted \<and> se_Status s' = AgentInterrupted \<and> sv_Cancelled echo_services (se_World s')) \<and>
    se_ToolCalls s' = None"
    by (rule turn_starts_and_ends [where rounds = "\<lambda>s. if se_World s = 0 then 1 else 0"]) (simp add: request_world)
  then obtain s' evs lastMsg terminal where r:
    "run_task echo_services sample_run [InputContent [UText ''hi'']] sample_session = Some s'"
    and ev: "(\<forall>k. se_Select sample_session k) \<longrightarrow>
      se_Events s' = se_Events sample_session @ map (Pair (tu_SubID sample_run)) (EvTurnStarted # evs @ [terminal])"
    and mid: "list_all mid_event evs" and n: "se_ToolCalls s' = None"
    by (elim exE conjE)
  have "map snd (se_Events s') = EvTurnStarted # evs @ [terminal]"
    using ev by (simp add: sample_session_def comp_def)
  then show ?thesis using r mid n by (intro exI [of _ s'] exI [of _ evs] exI [of _ terminal] conjI)
qed


section \<open>What the model sees of a tool\<close>







section \<open>Divergences\<close>

text \<open>A tool call counts twice: once where the item is handled and once more in the router.\<close>

lemma foldl_events_ToolCalls [simp]: "se_ToolCalls (foldl (\<lambda>s e. SendEvent i (f e) s) s evs) = se_ToolCalls s"
  by (induction evs arbitrary: s) (simp_all add: SendEvent_def)

lemma router_dispatch_counts:
  "se_ToolCalls (snd (router_dispatch sv tc c name payload s)) = map_option (\<lambda>n. n + 1) (se_ToolCalls s)"
  by (simp add: router_dispatch_def IncToolCalls_def Let_def split: option.split prod.split sum.split)

lemma function_call_counted_twice:
  "se_ToolCalls (snd (handleOutputItemDone sv tc (FunctionCall name ns arguments c) st s)) =
     map_option (\<lambda>n. n + 2) (se_ToolCalls s)"
  using router_dispatch_counts [of sv tc c "toolNameFor name ns" "FunctionPayload arguments"
      "IncToolCalls (RecordItems [FunctionCall name ns arguments c] s)"]
  by (auto simp: dispatchFunctionCall_def DispatchWithSession_def IncToolCalls_def RecordItems_def WithState_def Let_def
      option.map_comp comp_def add.assoc split: prod.split sum.split)

text \<open>
  Compaction does not lower the total that triggers it: what follows the stream of the summary leaves the total as it
  is. A session past the limit compacts again before every turn.
\<close>

lemma compaction_keeps_total:
  "running_total (recomputeTokenUsage (replaceCompactedHistory sv items ref compacted s)) = running_total s"
  by (simp add: recomputeTokenUsage_def replaceCompactedHistory_def running_total_def recordRollout_def WithState_def
      StartNextAutoCompactWindow_def ReplaceHistory_def SetAutoCompactWindowEstimatedPrefill_def TokenInfo_def history_Replace_def Let_def)

text \<open>
  A compaction whose stream breaks off fails, and the items the stream brought stay in the history of the session.
\<close>

lemma failed_compaction_leaves_items:
  "fst (compact_stream_loop tc s [StreamEvent (RevOutputItemDone (Some item)), ContextDone]) = Some ErrTurnAborted"
  "HistoryItems (snd (compact_stream_loop tc s [StreamEvent (RevOutputItemDone (Some item)), ContextDone])) =
     HistoryItems s @ [item]"
  by simp_all

end
