(* ===== verification/Core_Approvals.thy ===== *)
theory Core_Approvals
  imports Turn_Sandbox "HOL-Library.Multiset"
begin

text \<open>
  Pending approvals (core/turn.go, approval\_waiters.go, approvals.go, and their callers in submission\_loop.go and
  turn\_spawn.go). A tool that needs an answer registers a channel under a key, emits an event and waits; the
  answer arrives through a Notify method in another goroutine, while interrupts and new turns close the
  channels of a turn. The model has a heap of channels, the registries, and the goroutines with their program
  counters; a step is one access to shared state, so every interleaving is a run.
\<close>

section \<open>Answers\<close>

datatype PermissionGrantScope = ScopeTurn | ScopeSession

record RequestPermissionsResponse =
  pr_Network :: "NetworkPermissions option"
  pr_FileSystem :: "FileSystemPermissions option"
  pr_Scope :: PermissionGrantScope
  pr_StrictAutoReview :: bool

datatype ElicitationAction = ElicitationAccept | ElicitationDecline | ElicitationCancel

record ElicitationResponse =
  el_Decision :: ElicitationAction
  el_Content :: string
  el_Meta :: string

datatype reply =
    ReviewReply ReviewDecision
  | PermissionsReply RequestPermissionsResponse
  | UserInputReply "(string \<times> string list) list"
  | ElicitationReply ElicitationResponse

definition emptyPermissionsResponse :: RequestPermissionsResponse where
  "emptyPermissionsResponse = \<lparr>pr_Network = None, pr_FileSystem = None, pr_Scope = ScopeTurn, pr_StrictAutoReview = False\<rparr>"

definition emptyUserInputResponse :: "(string \<times> string list) list" where
  "emptyUserInputResponse = []"

definition emptyElicitationResponse :: ElicitationResponse where
  "emptyElicitationResponse = \<lparr>el_Decision = ElicitationCancel, el_Content = [], el_Meta = []\<rparr>"

datatype RequestId = RequestIdString string | RequestIdInteger int

fun RequestId_String :: "RequestId \<Rightarrow> string" where
  "RequestId_String (RequestIdString s) = s"
| "RequestId_String (RequestIdInteger i) = itoa i"

definition elicitationKey :: "string \<Rightarrow> RequestId \<Rightarrow> string" where
  "elicitationKey serverName id' = serverName @ [CHR 0x00] @ RequestId_String id'"

section \<open>Channels and registries\<close>

text \<open>A channel holds at most one value; the capacity is 1, or 0 for the channel of a request without a turn.\<close>

record chan =
  ch_cap :: nat
  ch_buf :: "reply option"
  ch_closed :: bool

definition make_chan :: "nat \<Rightarrow> chan" where
  "make_chan cap = \<lparr>ch_cap = cap, ch_buf = None, ch_closed = False\<rparr>"

text \<open>The map of pending approvals of a turn, and the three maps of the registry of the session.\<close>

datatype registry = PendingApprovals nat | PermissionWaiters | UserInputWaiters | ElicitationWaiters

datatype kind = Review | Permission | Input | Elicit

text \<open>
  What the goroutines share: the channels, the entries of all registries, the number of turns started so far, the
  slot of the active turn, the request events, and whether a goroutine has panicked.
\<close>

record shared =
  sh_chans :: "chan list"
  sh_waiters :: "((registry \<times> string) \<times> nat) list"
  sh_turns :: nat
  sh_active :: "nat option"
  sh_events :: "(kind \<times> string) list"
  sh_panicked :: bool

definition lookup_waiter :: "registry \<Rightarrow> string \<Rightarrow> shared \<Rightarrow> nat option" where
  "lookup_waiter r key sh = map_of (sh_waiters sh) (r, key)"

definition insert_waiter :: "registry \<Rightarrow> string \<Rightarrow> shared \<Rightarrow> nat \<times> nat option \<times> shared" where
  "insert_waiter r key sh =
     (let ch = length (sh_chans sh) in
      (ch, lookup_waiter r key sh,
       sh\<lparr>sh_chans := sh_chans sh @ [make_chan 1],
          sh_waiters := ((r, key), ch) # filter (\<lambda>e. fst e \<noteq> (r, key)) (sh_waiters sh)\<rparr>))"

definition remove_waiter :: "registry \<Rightarrow> string \<Rightarrow> shared \<Rightarrow> nat option \<times> shared" where
  "remove_waiter r key sh =
     (lookup_waiter r key sh, sh\<lparr>sh_waiters := filter (\<lambda>e. fst e \<noteq> (r, key)) (sh_waiters sh)\<rparr>)"

definition InsertPendingApproval :: "nat \<Rightarrow> string \<Rightarrow> shared \<Rightarrow> nat \<times> nat option \<times> shared" where
  "InsertPendingApproval t = insert_waiter (PendingApprovals t)"

definition insertPendingPermissions :: "string \<Rightarrow> shared \<Rightarrow> nat \<times> nat option \<times> shared" where
  "insertPendingPermissions = insert_waiter PermissionWaiters"

definition removePendingPermissions :: "string \<Rightarrow> shared \<Rightarrow> nat option \<times> shared" where
  "removePendingPermissions = remove_waiter PermissionWaiters"

definition insertPendingUserInput :: "string \<Rightarrow> shared \<Rightarrow> nat \<times> nat option \<times> shared" where
  "insertPendingUserInput = insert_waiter UserInputWaiters"

definition removePendingUserInput :: "string \<Rightarrow> shared \<Rightarrow> nat option \<times> shared" where
  "removePendingUserInput = remove_waiter UserInputWaiters"

definition insertPendingElicitation :: "string \<Rightarrow> shared \<Rightarrow> nat \<times> nat option \<times> shared" where
  "insertPendingElicitation = insert_waiter ElicitationWaiters"

definition removePendingElicitation :: "string \<Rightarrow> shared \<Rightarrow> nat option \<times> shared" where
  "removePendingElicitation = remove_waiter ElicitationWaiters"

text \<open>The part of ResolvePendingApproval that holds the mutex; the send follows outside of it.\<close>

definition take_pending_approval :: "nat \<Rightarrow> string \<Rightarrow> shared \<Rightarrow> nat option \<times> shared" where
  "take_pending_approval t = remove_waiter (PendingApprovals t)"

fun insert_pending :: "registry \<Rightarrow> string \<Rightarrow> shared \<Rightarrow> nat \<times> nat option \<times> shared" where
  "insert_pending (PendingApprovals t) = InsertPendingApproval t"
| "insert_pending PermissionWaiters = insertPendingPermissions"
| "insert_pending UserInputWaiters = insertPendingUserInput"
| "insert_pending ElicitationWaiters = insertPendingElicitation"

fun remove_pending :: "registry \<Rightarrow> string \<Rightarrow> shared \<Rightarrow> nat option \<times> shared" where
  "remove_pending (PendingApprovals t) = take_pending_approval t"
| "remove_pending PermissionWaiters = removePendingPermissions"
| "remove_pending UserInputWaiters = removePendingUserInput"
| "remove_pending ElicitationWaiters = removePendingElicitation"

text \<open>Closing a closed channel and sending on one panic; a send to a full buffer blocks.\<close>

definition close_chan :: "nat \<Rightarrow> shared \<Rightarrow> shared" where
  "close_chan c sh =
     (if ch_closed (sh_chans sh ! c) then sh\<lparr>sh_panicked := True\<rparr>
      else sh\<lparr>sh_chans := (sh_chans sh)[c := (sh_chans sh ! c)\<lparr>ch_closed := True\<rparr>]\<rparr>)"

definition send_chan :: "nat \<Rightarrow> reply \<Rightarrow> shared \<Rightarrow> shared option" where
  "send_chan c v sh =
     (if ch_closed (sh_chans sh ! c) then Some (sh\<lparr>sh_panicked := True\<rparr>)
      else if ch_buf (sh_chans sh ! c) = None \<and> ch_cap (sh_chans sh ! c) > 0
      then Some (sh\<lparr>sh_chans := (sh_chans sh)[c := (sh_chans sh ! c)\<lparr>ch_buf := Some v\<rparr>]\<rparr>)
      else None)"

definition ClearPendingWaiters :: "nat \<Rightarrow> shared \<Rightarrow> shared" where
  "ClearPendingWaiters t sh =
     (let cleared = filter (\<lambda>e. fst (fst e) = PendingApprovals t) (sh_waiters sh) in
      foldl (\<lambda>s e. close_chan (snd e) s)
        (sh\<lparr>sh_waiters := filter (\<lambda>e. fst (fst e) \<noteq> PendingApprovals t) (sh_waiters sh)\<rparr>) cleared)"

section \<open>Goroutines\<close>

text \<open>What a goroutine was started to do.\<close>

datatype job =
    RequestApproval string
  | RequestPermissions AskForApproval string
  | RequestUserInput string
  | RequestElicitation string RequestId
  | NotifyApproval string ReviewDecision
  | HandleApproval string "ReviewDecision option"
  | NotifyPermissions string RequestPermissionsResponse
  | NotifyUserInput string "(string \<times> string list) list"
  | NotifyElicitation string RequestId ElicitationResponse
  | HandleInterrupt
  | SpawnTask
  | ClearActiveTurnIf nat

datatype outcome = Done | Notified bool | Answer "reply option"

text \<open>
  Where it is: the next access to shared state. \<open>Wait\<close> is the select of a request, with the channel it receives
  from; the value at \<open>Detach\<close> is the answer returned afterwards, and the flag tells that the code goes on to notify.
  The requests of all four kinds share the program counters, and \<open>kind\<close> is the registry a request uses, with the
  turn of a review left open, since the code reads the slot again for every access.
\<close>

datatype pc =
    ReadSlot string
  | Insert registry string
  | CloseReplaced kind string nat nat
  | Emit kind string nat
  | Wait kind string nat
  | Detach registry string "reply option" bool
  | NotifySlot string reply outcome
  | Resolve registry string reply outcome
  | Send nat reply outcome
  | ReadTask bool
  | Clear nat bool
  | Install
  | Uninstall nat
  | Finished outcome

fun kind_of :: "registry \<Rightarrow> kind" where
  "kind_of (PendingApprovals t) = Review"
| "kind_of PermissionWaiters = Permission"
| "kind_of UserInputWaiters = Input"
| "kind_of ElicitationWaiters = Elicit"

definition abort_decision :: reply where
  "abort_decision = ReviewReply (decision_of RdAbort)"

definition timeout_decision :: reply where
  "timeout_decision = ReviewReply (decision_of RdTimedOut)"

definition prompts_for_permissions :: "AskForApproval \<Rightarrow> bool" where
  "prompts_for_permissions policy =
     (case ask_Kind policy of
        AskNever \<Rightarrow> False
      | AskGranular \<Rightarrow> granularAllowsRequestPermissions (ask_Granular policy)
      | _ \<Rightarrow> True)"

fun start :: "job \<Rightarrow> pc" where
  "start (RequestApproval key) = ReadSlot key"
| "start (RequestPermissions policy key) =
     (if prompts_for_permissions policy then Insert PermissionWaiters key
      else Finished (Answer (Some (PermissionsReply emptyPermissionsResponse))))"
| "start (RequestUserInput key) = Insert UserInputWaiters key"
| "start (RequestElicitation server id') = Insert ElicitationWaiters (elicitationKey server id')"
| "start (NotifyApproval key d) = NotifySlot key (ReviewReply d) Done"
| "start (HandleApproval key d) = (case d of None \<Rightarrow> Finished Done | Some d \<Rightarrow> NotifySlot key (ReviewReply d) Done)"
| "start (NotifyPermissions key v) = Resolve PermissionWaiters key (PermissionsReply v) Done"
| "start (NotifyUserInput key v) = Resolve UserInputWaiters key (UserInputReply v) Done"
| "start (NotifyElicitation server id' v) = Resolve ElicitationWaiters (elicitationKey server id') (ElicitationReply v) (Notified True)"
| "start HandleInterrupt = ReadTask False"
| "start SpawnTask = ReadTask True"
| "start (ClearActiveTurnIf t) = Uninstall t"

text \<open>What a request answers when its channel is closed, its context is cancelled, or its time is over.\<close>

fun closed_answer :: "kind \<Rightarrow> reply option" where
  "closed_answer Review = Some abort_decision"
| "closed_answer Permission = None"
| "closed_answer Input = Some (UserInputReply emptyUserInputResponse)"
| "closed_answer Elicit = Some (ElicitationReply emptyElicitationResponse)"

fun cancelled :: "kind \<Rightarrow> string \<Rightarrow> pc" where
  "cancelled Review key = NotifySlot key abort_decision (Answer (Some abort_decision))"
| "cancelled Permission key = Detach PermissionWaiters key None False"
| "cancelled Input key = Detach UserInputWaiters key (Some (UserInputReply emptyUserInputResponse)) True"
| "cancelled Elicit key = Detach ElicitationWaiters key (Some (ElicitationReply emptyElicitationResponse)) False"

fun timed_out :: "kind \<Rightarrow> string \<Rightarrow> pc" where
  "timed_out Review key = NotifySlot key timeout_decision (Answer (Some timeout_decision))"
| "timed_out Permission key = Detach PermissionWaiters key (Some (PermissionsReply emptyPermissionsResponse)) False"
| "timed_out Input key = Detach UserInputWaiters key (Some (UserInputReply emptyUserInputResponse)) False"
| "timed_out Elicit key = Detach ElicitationWaiters key (Some (ElicitationReply emptyElicitationResponse)) False"

text \<open>
  The select takes any of its cases that is ready; the context and the timer may be ready at any time. A goroutine
  without a step is blocked or finished.
\<close>

datatype choice = TakeReply | TakeCancel | TakeTimeout

definition receive :: "kind \<Rightarrow> nat \<Rightarrow> shared \<Rightarrow> (shared \<times> pc) option" where
  "receive k c sh =
     (case ch_buf (sh_chans sh ! c) of
        Some v \<Rightarrow> Some (sh\<lparr>sh_chans := (sh_chans sh)[c := (sh_chans sh ! c)\<lparr>ch_buf := None\<rparr>]\<rparr>, Finished (Answer (Some v)))
      | None \<Rightarrow> if ch_closed (sh_chans sh ! c) then Some (sh, Finished (Answer (closed_answer k))) else None)"

fun gstep :: "choice \<Rightarrow> shared \<Rightarrow> pc \<Rightarrow> (shared \<times> pc) option" where
  "gstep ch sh (ReadSlot key) =
     (case sh_active sh of
        None \<Rightarrow> Some (sh\<lparr>sh_chans := sh_chans sh @ [(make_chan 0)\<lparr>ch_closed := True\<rparr>]\<rparr>, Emit Review key (length (sh_chans sh)))
      | Some t \<Rightarrow> Some (sh, Insert (PendingApprovals t) key))"
| "gstep ch sh (Insert r key) =
     (case insert_pending r key sh of
        (c, None, sh') \<Rightarrow> Some (sh', Emit (kind_of r) key c)
      | (c, Some replaced, sh') \<Rightarrow> Some (sh', CloseReplaced (kind_of r) key c replaced))"
| "gstep ch sh (CloseReplaced k key c replaced) = Some (close_chan replaced sh, Emit k key c)"
| "gstep ch sh (Emit k key c) =
     Some (sh\<lparr>sh_events := sh_events sh @ [(k, key)]\<rparr>, Wait k key c)"
| "gstep ch sh (Wait k key c) =
     (case ch of
        TakeReply \<Rightarrow> receive k c sh
      | TakeCancel \<Rightarrow> Some (sh, cancelled k key)
      | TakeTimeout \<Rightarrow> Some (sh, timed_out k key))"
| "gstep ch sh (Detach r key answer notify) =
     (let sh' = snd (remove_pending r key sh) in
      Some (sh', if notify then Resolve r key (UserInputReply emptyUserInputResponse) (Answer answer) else Finished (Answer answer)))"
| "gstep ch sh (NotifySlot key v out) =
     (case sh_active sh of
        None \<Rightarrow> Some (sh, Finished out)
      | Some t \<Rightarrow> Some (sh, Resolve (PendingApprovals t) key v out))"
| "gstep ch sh (Resolve r key v out) =
     (case remove_pending r key sh of
        (None, sh') \<Rightarrow> Some (sh', Finished (case out of Notified _ \<Rightarrow> Notified False | _ \<Rightarrow> out))
      | (Some c, sh') \<Rightarrow> Some (sh', Send c v out))"
| "gstep ch sh (Send c v out) = (case send_chan c v sh of None \<Rightarrow> None | Some sh' \<Rightarrow> Some (sh', Finished out))"
| "gstep ch sh (ReadTask spawn) =
     Some (sh, case sh_active sh of
        None \<Rightarrow> if spawn then Install else Finished Done
      | Some t \<Rightarrow> Clear t spawn)"
| "gstep ch sh (Clear t spawn) = Some (ClearPendingWaiters t sh, if spawn then Install else Finished Done)"
| "gstep ch sh Install = Some (sh\<lparr>sh_active := Some (sh_turns sh), sh_turns := sh_turns sh + 1\<rparr>, Finished Done)"
| "gstep ch sh (Uninstall t) =
     Some (if sh_active sh = Some t then sh\<lparr>sh_active := None\<rparr> else sh, Finished Done)"
| "gstep ch sh (Finished out) = None"

type_synonym goroutine = "job \<times> pc"

type_synonym system = "shared \<times> goroutine list"

text \<open>A run starts without goroutines and waiters; a step starts a goroutine or takes a step of one.\<close>

definition initial_system :: system where
  "initial_system =
     (\<lparr>sh_chans = [], sh_waiters = [], sh_turns = 0, sh_active = None, sh_events = [], sh_panicked = False\<rparr>, [])"

inductive reachable :: "system \<Rightarrow> bool" where
  initial: "reachable initial_system"
| start: "reachable (sh, gs) \<Longrightarrow> reachable (sh, gs @ [(job, start job)])"
| step: "reachable (sh, gs) \<Longrightarrow> i < length gs \<Longrightarrow> gs ! i = (job, p) \<Longrightarrow> gstep ch sh p = Some (sh', p') \<Longrightarrow>
    reachable (sh', gs[i := (job, p')])"


lemma step_lemmas: "insert_pending r = insert_waiter r" "remove_pending r = remove_waiter r"
  by (cases r; simp add: InsertPendingApproval_def insertPendingPermissions_def insertPendingUserInput_def
      insertPendingElicitation_def take_pending_approval_def removePendingPermissions_def removePendingUserInput_def
      removePendingElicitation_def)+

text \<open>Runs as schedules, to execute them.\<close>

datatype action = Start job | Step nat choice

fun run :: "action list \<Rightarrow> system \<Rightarrow> system option" where
  "run [] s = Some s"
| "run (Start job # rest) (sh, gs) = run rest (sh, gs @ [(job, start job)])"
| "run (Step i ch # rest) (sh, gs) =
     (if i < length gs then
        (case gstep ch sh (snd (gs ! i)) of
           None \<Rightarrow> None
         | Some (sh', p') \<Rightarrow> run rest (sh', gs[i := (fst (gs ! i), p')]))
      else None)"

lemma run_reachable: "reachable s \<Longrightarrow> run acts s = Some s' \<Longrightarrow> reachable s'"
proof (induction acts s rule: run.induct)
  case (3 i ch rest sh gs)
  obtain sh1 p1 where g: "i < length gs" "gstep ch sh (snd (gs ! i)) = Some (sh1, p1)"
    using 3(3) by (auto split: if_splits option.splits prod.splits)
  have "reachable (sh1, gs[i := (fst (gs ! i), p1)])"
    by (rule reachable.step [OF 3(2) g(1) _ g(2)]) simp
  then show ?case using 3(1) [OF g(1,2) refl] 3(3) g by simp
qed (auto intro: reachable.intros)

section \<open>The registries\<close>

text \<open>
  The four registries keep the same contract: a request registers a fresh channel, the next request or answer for
  its key finds it, and other keys are not disturbed.
\<close>

locale waiter_registry =
  fixes ins :: "string \<Rightarrow> shared \<Rightarrow> nat \<times> nat option \<times> shared"
    and rem :: "string \<Rightarrow> shared \<Rightarrow> nat option \<times> shared"
    and look :: "string \<Rightarrow> shared \<Rightarrow> nat option"
  assumes ins_look: "ins key sh = (c, replaced, sh') \<Longrightarrow>
      look key' sh' = (if key' = key then Some c else look key' sh) \<and> replaced = look key sh"
    and ins_fresh: "ins key sh = (c, replaced, sh') \<Longrightarrow> sh_chans sh' = sh_chans sh @ [make_chan 1] \<and> c = length (sh_chans sh)"
    and rem_look: "rem key sh = (found, sh') \<Longrightarrow> look key' sh' = (if key' = key then None else look key' sh) \<and> found = look key sh"
    and rem_chans: "rem key sh = (found, sh') \<Longrightarrow> sh_chans sh' = sh_chans sh"
begin

text \<open>An answer reaches the latest request for its key, once, whatever other keys did in between.\<close>

lemma answer_finds_latest:
  assumes "ins key sh = (c, replaced, sh1)" "rem other sh1 = (d, sh2)" "other \<noteq> key" "rem key sh2 = (e, sh3)"
  shows "e = Some c" "look key sh3 = None" "sh_chans sh3 ! c = make_chan 1"
  using ins_look [OF assms(1), of key] ins_fresh [OF assms(1)] rem_look [OF assms(2), of key] rem_chans [OF assms(2)]
    rem_look [OF assms(4), of key] rem_chans [OF assms(4)] assms(3) by auto

lemma second_request_replaces:
  "ins key sh = (c, replaced, sh1) \<Longrightarrow> ins key sh1 = (d, replaced', sh2) \<Longrightarrow> replaced' = Some c \<and> d \<noteq> c"
  using ins_look [of key sh c replaced sh1 key] ins_look [of key sh1 d replaced' sh2 key] ins_fresh [of key sh c replaced sh1]
    ins_fresh [of key sh1 d replaced' sh2] by auto

end

lemma waiter_lookup_filter: "map_of (filter (\<lambda>e. fst e \<noteq> k) m) k' = (if k' = k then None else map_of m k')"
  by (induction m) auto

lemma waiters_registry: "waiter_registry (insert_waiter r) (remove_waiter r) (lookup_waiter r)"
  by unfold_locales
    (auto simp: insert_waiter_def remove_waiter_def lookup_waiter_def Let_def waiter_lookup_filter)

interpretation approvals: waiter_registry "InsertPendingApproval t" "take_pending_approval t" "lookup_waiter (PendingApprovals t)" for t
  unfolding InsertPendingApproval_def take_pending_approval_def by (rule waiters_registry)

interpretation permissions: waiter_registry insertPendingPermissions removePendingPermissions "lookup_waiter PermissionWaiters"
  unfolding insertPendingPermissions_def removePendingPermissions_def by (rule waiters_registry)

interpretation user_input: waiter_registry insertPendingUserInput removePendingUserInput "lookup_waiter UserInputWaiters"
  unfolding insertPendingUserInput_def removePendingUserInput_def by (rule waiters_registry)

interpretation elicitation: waiter_registry insertPendingElicitation removePendingElicitation "lookup_waiter ElicitationWaiters"
  unfolding insertPendingElicitation_def removePendingElicitation_def by (rule waiters_registry)


section \<open>Channels have one owner\<close>

text \<open>
  A channel that may still be closed or sent to is registered, or was taken out by one goroutine that is about to
  close it or to send: these are its owners.
\<close>

fun held :: "pc \<Rightarrow> nat list" where
  "held (CloseReplaced _ _ _ replaced) = [replaced]"
| "held (Send c _ _) = [c]"
| "held _ = []"

definition registered :: "shared \<Rightarrow> nat multiset" where
  "registered sh = mset (map snd (sh_waiters sh))"

definition usable :: "chan \<Rightarrow> bool" where
  "usable ch \<longleftrightarrow> ch_cap ch > 0 \<and> ch_buf ch = None \<and> \<not> ch_closed ch"

definition owners_ok :: "shared \<Rightarrow> nat multiset \<Rightarrow> bool" where
  "owners_ok sh owned \<longleftrightarrow> \<not> sh_panicked sh \<and> (\<forall>c. count owned c \<le> 1) \<and>
     (\<forall>c. c \<in># owned \<longrightarrow> c < length (sh_chans sh) \<and> usable (sh_chans sh ! c))"

definition all_held :: "goroutine list \<Rightarrow> nat multiset" where
  "all_held gs = (\<Sum>(job, p) \<leftarrow> gs. mset (held p))"

lemma all_held_split:
  assumes "i < length gs" "gs ! i = (job, p)"
  obtains rest where "all_held gs = rest + mset (held p)" "\<And>p'. all_held (gs[i := (job, p')]) = rest + mset (held p')"
proof
  have mid: "all_held (xs @ (job, q) # ys) = (all_held xs + all_held ys) + mset (held q)" for xs ys q
    by (simp add: all_held_def ac_simps)
  show "all_held gs = (all_held (take i gs) + all_held (drop (Suc i) gs)) + mset (held p)"
    using arg_cong [OF id_take_nth_drop [OF assms(1)], of all_held] assms(2) mid by simp
  show "all_held (gs[i := (job, p')]) = (all_held (take i gs) + all_held (drop (Suc i) gs)) + mset (held p')" for p'
    unfolding upd_conv_take_nth_drop [OF assms(1)] by (rule mid)
qed

lemma owners_shrink:
  assumes "owners_ok sh owned" "owned' \<subseteq># owned" "sh_panicked sh' = sh_panicked sh"
    "length (sh_chans sh) \<le> length (sh_chans sh')" "\<And>c. c \<in># owned' \<Longrightarrow> sh_chans sh' ! c = sh_chans sh ! c"
  shows "owners_ok sh' owned'"
proof -
  have "count owned' c \<le> 1" for c
    using assms(1) mset_subset_eq_count [OF assms(2), of c] by (force simp: owners_ok_def intro: order_trans)
  moreover have "c < length (sh_chans sh') \<and> usable (sh_chans sh' ! c)" if "c \<in># owned'" for c
    using assms(1,4) mset_subset_eqD [OF assms(2) that] assms(5) [OF that] by (auto simp: owners_ok_def)
  ultimately show ?thesis using assms(1,3) by (simp add: owners_ok_def)
qed

lemma owners_grow:
  assumes "owners_ok sh owned" "owned' \<subseteq># add_mset (length (sh_chans sh)) owned" "sh_panicked sh' = sh_panicked sh"
    "sh_chans sh' = sh_chans sh @ [make_chan 1]"
  shows "owners_ok sh' owned'"
proof -
  have new: "length (sh_chans sh) \<notin># owned" using assms(1) by (auto simp: owners_ok_def)
  have "owners_ok sh' (add_mset (length (sh_chans sh)) owned)"
    using assms(1,3,4) new by (auto simp: owners_ok_def nth_append make_chan_def usable_def not_in_iff)
  from owners_shrink [OF this assms(2) refl order_refl refl] show ?thesis .
qed

text \<open>Taking an entry out of the registries.\<close>

lemma registered_filter: "registered (sh\<lparr>sh_waiters := filter P (sh_waiters sh)\<rparr>) \<subseteq># registered sh"
  by (simp add: registered_def image_mset_subseteq_mono flip: mset_map)
    (metis image_mset_subseteq_mono mset_filter multiset_filter_subset mset_map)

lemma registered_remove:
  assumes "lookup_waiter r key sh = Some c"
  shows "add_mset c (registered (sh\<lparr>sh_waiters := filter (\<lambda>e. fst e \<noteq> (r, key)) (sh_waiters sh)\<rparr>)) \<subseteq># registered sh"
proof -
  let ?P = "\<lambda>e :: (registry \<times> string) \<times> nat. fst e \<noteq> (r, key)"
  have "((r, key), c) \<in> set (sh_waiters sh)" using assms by (simp add: lookup_waiter_def map_of_SomeD)
  then have "((r, key), c) \<in># filter_mset (\<lambda>e. \<not> ?P e) (mset (sh_waiters sh))" by simp
  then have "{#((r, key), c)#} + filter_mset ?P (mset (sh_waiters sh)) \<subseteq># mset (sh_waiters sh)"
    using multiset_partition [of "mset (sh_waiters sh)" ?P]
    by (metis (no_types, lifting) add.commute mset_subset_eq_mono_add_left_cancel single_subset_iff)
  from image_mset_subseteq_mono [OF this, of snd] show ?thesis
    by (simp add: registered_def mset_filter)
qed

lemma close_all:
  assumes "distinct cs" "\<And>c. c \<in> set cs \<Longrightarrow> c < length (sh_chans sh) \<and> \<not> ch_closed (sh_chans sh ! c)"
  shows "sh_panicked (foldl (\<lambda>s c. close_chan c s) sh cs) = sh_panicked sh \<and>
    length (sh_chans (foldl (\<lambda>s c. close_chan c s) sh cs)) = length (sh_chans sh) \<and>
    (\<forall>d. d \<notin> set cs \<longrightarrow> sh_chans (foldl (\<lambda>s c. close_chan c s) sh cs) ! d = sh_chans sh ! d) \<and>
    (\<forall>d. ch_buf (sh_chans (foldl (\<lambda>s c. close_chan c s) sh cs) ! d) = ch_buf (sh_chans sh ! d)) \<and>
    sh_waiters (foldl (\<lambda>s c. close_chan c s) sh cs) = sh_waiters sh"
  using assms
proof (induction cs arbitrary: sh)
  case (Cons c cs)
  let ?s = "close_chan c sh"
  have c: "c < length (sh_chans sh)" "\<not> ch_closed (sh_chans sh ! c)" using Cons(3) by auto
  then have s: "sh_panicked ?s = sh_panicked sh" "length (sh_chans ?s) = length (sh_chans sh)" "sh_waiters ?s = sh_waiters sh"
    "\<And>d. d \<noteq> c \<Longrightarrow> sh_chans ?s ! d = sh_chans sh ! d" "\<And>d. ch_buf (sh_chans ?s ! d) = ch_buf (sh_chans sh ! d)"
    by (auto simp: close_chan_def nth_list_update)
  have "d < length (sh_chans ?s) \<and> \<not> ch_closed (sh_chans ?s ! d)" if "d \<in> set cs" for d
  proof -
    have "d \<noteq> c" using that Cons(2) by auto
    then show ?thesis using that Cons(3) [of d] s(2) s(4) [of d] by simp
  qed
  from Cons(1) [OF _ this] Cons(2) show ?case using s by auto
qed simp


lemma owners_same:
  "owners_ok sh owned \<Longrightarrow> sh_panicked sh' = sh_panicked sh \<Longrightarrow> sh_chans sh' = sh_chans sh \<Longrightarrow> owners_ok sh' owned"
  by (simp add: owners_ok_def)

lemma owners_release:
  assumes "owners_ok sh (add_mset c owned)" "sh_panicked sh' = sh_panicked sh"
    "sh_chans sh' = (sh_chans sh)[c := x]"
  shows "owners_ok sh' owned"
proof (rule owners_shrink [OF assms(1) _ assms(2)])
  have "count (add_mset c owned) c \<le> 1" using assms(1) by (simp only: owners_ok_def)
  then have "c \<notin># owned" by (simp add: not_in_iff)
  then show "sh_chans sh' ! d = sh_chans sh ! d" if "d \<in># owned" for d
    using that assms(3) by (metis nth_list_update_neq)
qed (simp_all add: assms(3))

lemma owned_usable: "owners_ok sh (add_mset c owned) \<Longrightarrow> usable (sh_chans sh ! c)"
  by (simp add: owners_ok_def)

lemma gstep_insert_owners:
  assumes ok: "owners_ok sh (registered sh + rest)" and st: "gstep ch sh (Insert r key) = Some (sh', p')"
  shows "owners_ok sh' (registered sh' + (rest + mset (held p')))"
proof (rule owners_grow [OF ok])
  let ?sh = "sh\<lparr>sh_waiters := filter (\<lambda>e. fst e \<noteq> (r, key)) (sh_waiters sh)\<rparr>"
  have reg: "registered sh' = add_mset (length (sh_chans sh)) (registered ?sh)"
    using st by (auto simp: step_lemmas insert_waiter_def registered_def Let_def split: option.splits)
  have "registered ?sh + mset (held p') \<subseteq># registered sh"
    using st registered_remove [of r key sh] registered_filter [of "\<lambda>e. fst e \<noteq> (r, key)" sh]
    by (auto simp: step_lemmas insert_waiter_def Let_def split: option.splits)
  then have "(registered ?sh + mset (held p')) + rest \<subseteq># registered sh + rest" by simp
  then show "registered sh' + (rest + mset (held p')) \<subseteq># add_mset (length (sh_chans sh)) (registered sh + rest)"
    unfolding reg by (simp add: ac_simps)
qed (use st in \<open>auto simp: step_lemmas insert_waiter_def Let_def split: option.splits\<close>)

lemma remove_owners:
  assumes ok: "owners_ok sh (registered sh + rest)" and rm: "remove_waiter r key sh = (found, sh')"
  shows "owners_ok sh' (registered sh' + rest + (case found of None \<Rightarrow> {#} | Some c \<Rightarrow> {#c#}))"
proof (rule owners_shrink [OF ok])
  have "registered sh' + (case found of None \<Rightarrow> {#} | Some c \<Rightarrow> {#c#}) \<subseteq># registered sh"
    using rm registered_remove [of r key sh] registered_filter [of "\<lambda>e. fst e \<noteq> (r, key)" sh]
    by (auto simp: remove_waiter_def split: option.split)
  then have "(registered sh' + (case found of None \<Rightarrow> {#} | Some c \<Rightarrow> {#c#})) + rest \<subseteq># registered sh + rest" by simp
  then show "registered sh' + rest + (case found of None \<Rightarrow> {#} | Some c \<Rightarrow> {#c#}) \<subseteq># registered sh + rest"
    by (simp add: ac_simps)
qed (use rm in \<open>auto simp: remove_waiter_def\<close>)

lemma clear_as_foldl:
  "ClearPendingWaiters t sh =
     foldl (\<lambda>s c. close_chan c s) (sh\<lparr>sh_waiters := filter (\<lambda>e. fst (fst e) \<noteq> PendingApprovals t) (sh_waiters sh)\<rparr>)
       (map snd (filter (\<lambda>e. fst (fst e) = PendingApprovals t) (sh_waiters sh)))"
  by (simp add: ClearPendingWaiters_def Let_def foldl_map)

lemma distinct_count: "(\<And>c. count (mset xs) c \<le> 1) \<Longrightarrow> distinct xs"
proof (induction xs)
  case (Cons x xs)
  have "count (mset xs) c \<le> 1" for c by (rule order_trans [OF _ Cons(2) [of c]]) simp
  moreover have "x \<notin> set xs" using Cons(2) [of x] by (simp add: count_mset_0_iff [symmetric] del: count_mset_0_iff)
  ultimately show ?case using Cons(1) by simp
qed simp

lemma clear_owners:
  assumes ok: "owners_ok sh (registered sh + rest)"
  shows "owners_ok (ClearPendingWaiters t sh) (registered (ClearPendingWaiters t sh) + rest)"
proof -
  let ?P = "\<lambda>e :: (registry \<times> string) \<times> nat. fst (fst e) = PendingApprovals t"
  define cs where "cs = map snd (filter ?P (sh_waiters sh))"
  define sh1 where "sh1 = sh\<lparr>sh_waiters := filter (\<lambda>e. \<not> ?P e) (sh_waiters sh)\<rparr>"
  have split: "registered sh = registered sh1 + mset cs"
    unfolding registered_def cs_def sh1_def
    by (simp add: add.commute) (metis image_mset_union multiset_partition)
  have one: "count (mset cs) c + count (registered sh1 + rest) c \<le> 1" for c
    using ok by (simp add: owners_ok_def split) (metis add.assoc add.commute)
  have dist: "distinct cs"
    by (rule distinct_count) (meson one add_leD1)
  have use: "c < length (sh_chans sh1) \<and> \<not> ch_closed (sh_chans sh1 ! c)" if "c \<in> set cs" for c
    using ok that by (simp add: owners_ok_def split sh1_def usable_def)
  have clear: "ClearPendingWaiters t sh = foldl (\<lambda>s c. close_chan c s) sh1 cs"
    by (simp add: clear_as_foldl cs_def sh1_def)
  note closed = close_all [OF dist use]
  have reg: "registered (ClearPendingWaiters t sh) = registered sh1" by (simp add: clear closed registered_def)
  have disj: "c \<notin> set cs" if "c \<in># registered sh1 + rest" for c
  proof
    assume "c \<in> set cs"
    then have "count (mset cs) c \<ge> 1" by (simp add: Suc_le_eq)
    moreover have "count (registered sh1 + rest) c \<ge> 1" using that by (simp only: count_greater_eq_one_iff)
    ultimately show False using one [of c] by linarith
  qed
  show ?thesis unfolding reg
  proof (rule owners_shrink [OF ok])
    show "registered sh1 + rest \<subseteq># registered sh + rest" by (simp add: split)
    show "sh_chans (ClearPendingWaiters t sh) ! c = sh_chans sh ! c" if "c \<in># registered sh1 + rest" for c
      using disj [OF that] closed by (simp add: clear sh1_def)
  qed (use closed in \<open>simp_all add: clear sh1_def\<close>)
qed


lemma receive_owners:
  assumes ok: "owners_ok sh owned" and rc: "receive k c sh = Some (sh', p')"
  shows "owners_ok sh' owned \<and> sh_waiters sh' = sh_waiters sh \<and> held p' = []"
proof (cases "ch_buf (sh_chans sh ! c)")
  case None
  then show ?thesis using ok rc by (auto simp: receive_def split: if_splits)
next
  case (Some v)
  then have "c \<notin># owned" using ok by (auto simp: owners_ok_def usable_def)
  then have "owners_ok (sh\<lparr>sh_chans := (sh_chans sh)[c := x]\<rparr>) owned" for x
    by (intro owners_shrink [OF ok]) (auto intro!: nth_list_update_neq)
  then show ?thesis using rc Some by (auto simp: receive_def)
qed

lemma gstep_owners:
  assumes ok: "owners_ok sh (registered sh + (rest + mset (held p)))" and st: "gstep ch sh p = Some (sh', p')"
  shows "owners_ok sh' (registered sh' + (rest + mset (held p')))"
proof -
  have frame: ?thesis if "sh_panicked sh' = sh_panicked sh" "sh_chans sh' = sh_chans sh" "sh_waiters sh' = sh_waiters sh"
      "held p' = held p"
    using owners_same [OF ok that(1,2)] that(3,4) by (simp add: registered_def)
  show ?thesis
  proof (cases p)
    case (ReadSlot key)
    then have "owners_ok sh (registered sh + rest)" using ok by simp
    then have "owners_ok (sh\<lparr>sh_chans := sh_chans sh @ [x]\<rparr>) (registered sh + rest)" for x
      by (auto simp: owners_ok_def nth_append)
    then show ?thesis using ReadSlot ok st by (auto simp: registered_def split: option.splits)
  next
    case (Insert r key)
    then show ?thesis using gstep_insert_owners ok st by simp
  next
    case (CloseReplaced k key c replaced)
    then have ok': "owners_ok sh (add_mset replaced (registered sh + rest))" using ok by (simp add: ac_simps)
    from owned_usable [OF this] have "\<not> ch_closed (sh_chans sh ! replaced)" by (simp add: usable_def)
    then show ?thesis using CloseReplaced st owners_release [OF ok', of sh'] by (auto simp: close_chan_def registered_def)
  next
    case (Wait k key c)
    have "held (cancelled k key) = []" "held (timed_out k key) = []" by (cases k; simp)+
    then show ?thesis using Wait ok st receive_owners [of sh _ k c sh' p']
      by (auto simp: registered_def split: choice.splits)
  next
    case (Detach r key answer notify)
    obtain found sh1 where rm: "remove_waiter r key sh = (found, sh1)" by fastforce
    have "owners_ok sh1 (registered sh1 + rest + (case found of None \<Rightarrow> {#} | Some c \<Rightarrow> {#c#}))"
      using remove_owners [OF _ rm, of rest] ok Detach by simp
    then have "owners_ok sh1 (registered sh1 + rest)" by (rule owners_shrink) auto
    then show ?thesis using Detach st rm by (auto simp: step_lemmas Let_def)
  next
    case (Resolve r key v out)
    obtain found sh1 where rm: "remove_waiter r key sh = (found, sh1)" by fastforce
    have "owners_ok sh1 (registered sh1 + rest + (case found of None \<Rightarrow> {#} | Some c \<Rightarrow> {#c#}))"
      using remove_owners [OF _ rm, of rest] ok Resolve by simp
    then show ?thesis using Resolve st rm by (auto simp: step_lemmas split: option.splits)
  next
    case (Send c v out)
    then have ok': "owners_ok sh (add_mset c (registered sh + rest))" using ok by (simp add: ac_simps)
    from owned_usable [OF this] show ?thesis using Send st owners_release [OF ok', of sh']
      by (auto simp: send_chan_def registered_def usable_def)
  next
    case (Clear t spawn)
    then show ?thesis using clear_owners [of sh rest t] ok st by auto
  qed (rule frame; use st in \<open>auto split: option.splits if_splits\<close>)+
qed

definition channels_safe :: "system \<Rightarrow> bool" where
  "channels_safe s \<longleftrightarrow> owners_ok (fst s) (registered (fst s) + all_held (snd s))"

lemma held_start [simp]: "held (start job) = []"
  by (cases job) (auto split: option.split)

lemma reachable_channels_safe: "reachable s \<Longrightarrow> channels_safe s"
proof (induction rule: reachable.induct)
  case initial
  then show ?case by (simp add: channels_safe_def initial_system_def owners_ok_def registered_def all_held_def)
next
  case (start sh gs job)
  then show ?case by (simp add: channels_safe_def all_held_def)
next
  case (step sh gs i job p ch sh' p')
  obtain rest where rest: "all_held gs = rest + mset (held p)" "\<And>p'. all_held (gs[i := (job, p')]) = rest + mset (held p')"
    using all_held_split [OF step(2,3)] by blast
  show ?case using gstep_owners [OF _ step(4), of rest] step(5) by (simp add: channels_safe_def rest)
qed


section \<open>No panic, no blocking\<close>

text \<open>A bound on the steps a goroutine has left.\<close>

fun rank :: "pc \<Rightarrow> nat" where
  "rank (ReadSlot _) = 8"
| "rank (Insert _ _) = 7"
| "rank (CloseReplaced _ _ _ _) = 6"
| "rank (Emit _ _ _) = 5"
| "rank (Wait _ _ _) = 4"
| "rank (Detach _ _ _ _) = 3"
| "rank (NotifySlot _ _ _) = 3"
| "rank (Resolve _ _ _ _) = 2"
| "rank (Send _ _ _) = 1"
| "rank (ReadTask _) = 3"
| "rank (Clear _ _) = 2"
| "rank Install = 1"
| "rank (Uninstall _) = 1"
| "rank (Finished _) = 0"

lemma gstep_rank: "gstep ch sh p = Some (sh', p') \<Longrightarrow> rank p' < rank p"
proof (cases p)
  case (Wait k key c)
  have "rank (cancelled k key) = 3" "rank (timed_out k key) = 3" by (cases k; simp)+
  then show "gstep ch sh p = Some (sh', p') \<Longrightarrow> rank p' < rank p"
    using Wait by (auto simp: receive_def split: choice.splits option.splits if_splits)
qed (auto simp: Let_def split: option.splits prod.splits if_splits)

lemma gstep_enabled:
  assumes "channels_safe (sh, gs)" "(job, p) \<in> set gs" "\<nexists>out. p = Finished out"
  shows "gstep TakeTimeout sh p \<noteq> None"
proof (cases p)
  case (Send c v out)
  then have "c \<in># all_held gs" using assms(2) by (force simp: all_held_def sum_list_map_remove1 [OF assms(2)])
  then have "usable (sh_chans sh ! c)" using assms(1) by (simp add: channels_safe_def owners_ok_def)
  then show ?thesis using Send by (simp add: send_chan_def usable_def)
qed (use assms(3) in \<open>auto simp: Let_def split: option.split prod.split\<close>)

text \<open>
  In every interleaving of requests, answers, interrupts, new and ending turns: no goroutine closes a closed
  channel or sends on one, none is blocked in a send, and each goroutine can take its next step, waiting requests by
  their timeout, until it has returned after at most eight steps of its own.
\<close>

theorem approvals_never_panic_or_block:
  assumes "reachable (sh, gs)" "i < length gs" "gs ! i = (job, p)"
  shows "\<not> sh_panicked sh \<and> rank p \<le> 8 \<and>
    (rank p > 0 \<longrightarrow> (\<exists>sh' p'. gstep TakeTimeout sh p = Some (sh', p'))) \<and>
    (\<forall>ch sh' p'. gstep ch sh p = Some (sh', p') \<longrightarrow> rank p' < rank p \<and> reachable (sh', gs[i := (job, p')]) \<and> \<not> sh_panicked sh')"
proof -
  have safe: "channels_safe (sh, gs)" using reachable_channels_safe [OF assms(1)] .
  have unpanicked: "\<not> sh_panicked sh1" if "reachable (sh1, gs1)" for sh1 gs1
    using reachable_channels_safe [OF that] by (simp add: channels_safe_def owners_ok_def)
  have "(job, p) \<in> set gs" using assms(2,3) by (metis nth_mem)
  then have "\<exists>sh' p'. gstep TakeTimeout sh p = Some (sh', p')" if "rank p > 0"
    using gstep_enabled [OF safe, of job p] that by (metis not_None_eq old.prod.exhaust rank.simps(14) less_irrefl)
  moreover have "rank p \<le> 8" by (cases p) simp_all
  moreover have "rank p' < rank p \<and> reachable (sh', gs[i := (job, p')]) \<and> \<not> sh_panicked sh'"
    if "gstep ch sh p = Some (sh', p')" for ch sh' p'
    using gstep_rank [OF that] reachable.step [OF assms that] unpanicked by blast
  ultimately show ?thesis using unpanicked [OF assms(1)] by blast
qed

text \<open>A turn in which a command waits for approval under the key \<open>k\<close>, and what happens next.\<close>

definition asked :: "action list" where
  "asked = [Start SpawnTask, Step 0 TakeReply, Step 0 TakeReply, Start (RequestApproval ''k''),
     Step 1 TakeReply, Step 1 TakeReply, Step 1 TakeReply]"

theorem approvals_never_panic_or_block_witness:
  "\<exists>sh gs. run asked initial_system = Some (sh, gs) \<and> gs ! 1 = (RequestApproval ''k'', Wait Review ''k'' 0) \<and>
     \<not> sh_panicked sh \<and> (\<exists>sh' p'. gstep TakeTimeout sh (Wait Review ''k'' 0) = Some (sh', p'))"
proof -
  define s where "s = the (run asked initial_system)"
  have r: "run asked initial_system = Some (fst s, snd s)" unfolding s_def by code_simp
  have g: "snd s ! 1 = (RequestApproval ''k'', Wait Review ''k'' 0)" "1 < length (snd s)" unfolding s_def by code_simp+
  have "reachable (fst s, snd s)" using run_reachable [OF reachable.initial r] .
  from approvals_never_panic_or_block [OF this g(2,1)] show ?thesis
    using r g(1) by (intro exI [of _ "fst s"] exI [of _ "snd s"]) auto
qed


section \<open>Answers come from those asked\<close>

text \<open>The question of a request, the answers a job gives to a question, and the answers given by nobody.\<close>

fun question :: "job \<Rightarrow> (kind \<times> string) option" where
  "question (RequestApproval key) = Some (Review, key)"
| "question (RequestPermissions _ key) = Some (Permission, key)"
| "question (RequestUserInput key) = Some (Input, key)"
| "question (RequestElicitation server id') = Some (Elicit, elicitationKey server id')"
| "question _ = None"

fun answers :: "job \<Rightarrow> ((kind \<times> string) \<times> reply) option" where
  "answers (NotifyApproval key d) = Some ((Review, key), ReviewReply d)"
| "answers (HandleApproval key (Some d)) = Some ((Review, key), ReviewReply d)"
| "answers (NotifyPermissions key v) = Some ((Permission, key), PermissionsReply v)"
| "answers (NotifyUserInput key v) = Some ((Input, key), UserInputReply v)"
| "answers (NotifyElicitation server id' v) = Some ((Elicit, elicitationKey server id'), ElicitationReply v)"
| "answers _ = None"

fun fallback :: "kind \<Rightarrow> reply set" where
  "fallback Review = {abort_decision, timeout_decision}"
| "fallback Permission = {PermissionsReply emptyPermissionsResponse}"
| "fallback Input = {UserInputReply emptyUserInputResponse}"
| "fallback Elicit = {ElicitationReply emptyElicitationResponse}"

definition given :: "job set \<Rightarrow> kind \<Rightarrow> string \<Rightarrow> reply \<Rightarrow> bool" where
  "given J k key v \<longleftrightarrow> v \<in> fallback k \<or> (\<exists>job \<in> J. answers job = Some ((k, key), v))"

definition answer_ok :: "job set \<Rightarrow> kind \<Rightarrow> string \<Rightarrow> reply option \<Rightarrow> bool" where
  "answer_ok J k key a \<longleftrightarrow> (case a of None \<Rightarrow> k = Permission | Some v \<Rightarrow> given J k key v)"

definition outcome_ok :: "job set \<Rightarrow> job \<Rightarrow> outcome \<Rightarrow> bool" where
  "outcome_ok J job out \<longleftrightarrow>
     (\<forall>a. out = Answer a \<longrightarrow> (\<exists>k key. question job = Some (k, key) \<and> answer_ok J k key a))"

fun pc_ok :: "job set \<Rightarrow> job \<Rightarrow> pc \<Rightarrow> bool" where
  "pc_ok J job (ReadSlot key) = (question job = Some (Review, key))"
| "pc_ok J job (Insert r key) = (question job = Some (kind_of r, key))"
| "pc_ok J job (CloseReplaced k key _ _) = (question job = Some (k, key))"
| "pc_ok J job (Emit k key _) = (question job = Some (k, key))"
| "pc_ok J job (Wait k key _) = (question job = Some (k, key))"
| "pc_ok J job (Detach r key a notify) =
     (question job = Some (kind_of r, key) \<and> answer_ok J (kind_of r) key a \<and> (notify \<longrightarrow> r = UserInputWaiters))"
| "pc_ok J job (NotifySlot key v out) = (given J Review key v \<and> outcome_ok J job out)"
| "pc_ok J job (Resolve r key v out) = (given J (kind_of r) key v \<and> outcome_ok J job out)"
| "pc_ok J job (Send _ _ out) = outcome_ok J job out"
| "pc_ok J job (Finished out) = outcome_ok J job out"
| "pc_ok J job _ = True"

fun waits_on :: "pc \<Rightarrow> (kind \<times> string \<times> nat) option" where
  "waits_on (CloseReplaced k key c _) = Some (k, key, c)"
| "waits_on (Emit k key c) = Some (k, key, c)"
| "waits_on (Wait k key c) = Some (k, key, c)"
| "waits_on _ = None"

text \<open>Where the channel of a waiting request is registered, and what is sent to it and in it.\<close>

definition waiter_ok :: "job set \<Rightarrow> shared \<Rightarrow> pc set \<Rightarrow> kind \<Rightarrow> string \<Rightarrow> nat \<Rightarrow> bool" where
  "waiter_ok J sh P k key c \<longleftrightarrow> c < length (sh_chans sh) \<and>
     (\<forall>r key'. ((r, key'), c) \<in> set (sh_waiters sh) \<longrightarrow> kind_of r = k \<and> key' = key) \<and>
     (\<forall>v out. Send c v out \<in> P \<longrightarrow> given J k key v) \<and>
     (\<forall>v. ch_buf (sh_chans sh ! c) = Some v \<longrightarrow> given J k key v)"

definition waiters_ok :: "job set \<Rightarrow> shared \<Rightarrow> pc set \<Rightarrow> bool" where
  "waiters_ok J sh P \<longleftrightarrow> (\<forall>p \<in> P. \<forall>k key c. waits_on p = Some (k, key, c) \<longrightarrow> waiter_ok J sh P k key c)"

lemma given_mono: "given J k key v \<Longrightarrow> J \<subseteq> J' \<Longrightarrow> given J' k key v"
  by (auto simp: given_def)

lemma answer_ok_mono: "answer_ok J k key a \<Longrightarrow> J \<subseteq> J' \<Longrightarrow> answer_ok J' k key a"
  by (auto simp: answer_ok_def intro: given_mono split: option.splits)

lemma outcome_ok_mono: "outcome_ok J job out \<Longrightarrow> J \<subseteq> J' \<Longrightarrow> outcome_ok J' job out"
  unfolding outcome_ok_def using answer_ok_mono by blast

lemma pc_ok_mono: "pc_ok J job p \<Longrightarrow> J \<subseteq> J' \<Longrightarrow> pc_ok J' job p"
  by (cases p) (auto intro: given_mono answer_ok_mono outcome_ok_mono)

lemma pc_ok_start: "job \<in> J \<Longrightarrow> pc_ok J job (start job)"
  by (cases job) (auto simp: given_def outcome_ok_def answer_ok_def split: option.split intro!: bexI)

lemma pc_ok_gstep:
  assumes "pc_ok J job p" "gstep ch sh p = Some (sh', p')"
    and "\<And>k key c v. p = Wait k key c \<Longrightarrow> ch_buf (sh_chans sh ! c) = Some v \<Longrightarrow> given J k key v"
  shows "pc_ok J job p'"
proof (cases p)
  case (Wait k key c)
  have "answer_ok J k key (closed_answer k)" "pc_ok J job (cancelled k key)" "pc_ok J job (timed_out k key)"
    using assms(1) Wait by (cases k; simp add: answer_ok_def given_def outcome_ok_def)+
  then show ?thesis using assms Wait
    by (auto simp: receive_def outcome_ok_def answer_ok_def split: choice.splits option.splits if_splits)
qed (use assms in \<open>auto simp: step_lemmas Let_def given_def outcome_ok_def split: option.splits prod.splits if_splits outcome.splits\<close>)


lemma waiter_kept:
  assumes "waiter_ok J sh P k key c" "length (sh_chans sh) \<le> length (sh_chans sh')"
    and "\<And>e. e \<in> set (sh_waiters sh') \<Longrightarrow> e \<in> set (sh_waiters sh) \<or> snd e \<ge> length (sh_chans sh)"
    and "\<And>v. ch_buf (sh_chans sh' ! c) = Some v \<Longrightarrow> ch_buf (sh_chans sh ! c) = Some v \<or> (\<exists>out. Send c v out \<in> P)"
    and "\<And>v out. p' = Send c v out \<Longrightarrow> \<exists>r key. ((r, key), c) \<in> set (sh_waiters sh) \<and> given J (kind_of r) key v"
  shows "waiter_ok J sh' (insert p' P) k key c"
proof -
  have ok: "c < length (sh_chans sh)" "\<And>r key'. ((r, key'), c) \<in> set (sh_waiters sh) \<Longrightarrow> kind_of r = k \<and> key' = key"
    "\<And>v out. Send c v out \<in> P \<Longrightarrow> given J k key v" "\<And>v. ch_buf (sh_chans sh ! c) = Some v \<Longrightarrow> given J k key v"
    using assms(1) by (auto simp: waiter_ok_def)
  have "kind_of r = k \<and> key' = key" if "((r, key'), c) \<in> set (sh_waiters sh')" for r key'
    using assms(3) [OF that] ok(1,2) by auto
  moreover have "given J k key v" if "Send c v out \<in> insert p' P" for v out
    using that ok(2,3) assms(5) by blast
  moreover have "given J k key v" if "ch_buf (sh_chans sh' ! c) = Some v" for v
    using assms(4) [OF that] ok(3,4) by blast
  ultimately show ?thesis using ok(1) assms(2) by (auto simp: waiter_ok_def)
qed

lemma receive_effect:
  "receive k c sh = Some (sh', p') \<Longrightarrow> length (sh_chans sh') = length (sh_chans sh) \<and> sh_waiters sh' = sh_waiters sh \<and>
     (\<forall>d v. ch_buf (sh_chans sh' ! d) = Some v \<longrightarrow> ch_buf (sh_chans sh ! d) = Some v) \<and> (\<exists>out. p' = Finished out)"
  by (auto simp: receive_def nth_list_update split: option.splits if_splits)
    (metis chan.select_convs(2) chan.surjective chan.update_convs(2) linorder_not_less list_update_beyond nth_list_update option.distinct(1))+

lemma close_effect [simp]:
  "length (sh_chans (close_chan c sh)) = length (sh_chans sh)" "sh_waiters (close_chan c sh) = sh_waiters sh"
  "ch_buf (sh_chans (close_chan c sh) ! d) = ch_buf (sh_chans sh ! d)"
  by (auto simp: close_chan_def) (cases "c < length (sh_chans sh)"; cases "c = d"; simp add: nth_list_update list_update_beyond not_less)

lemma send_effect:
  assumes "send_chan c v sh = Some sh'"
  shows "length (sh_chans sh') = length (sh_chans sh) \<and> sh_waiters sh' = sh_waiters sh \<and>
    (\<forall>d w. ch_buf (sh_chans sh' ! d) = Some w \<longrightarrow> ch_buf (sh_chans sh ! d) = Some w \<or> d = c \<and> w = v)"
proof -
  have "ch_buf ((sh_chans sh)[c := (sh_chans sh ! c)\<lparr>ch_buf := Some v\<rparr>] ! d) = Some w \<Longrightarrow>
      ch_buf (sh_chans sh ! d) = Some w \<or> d = c \<and> w = v" for d w
    by (cases "d = c"; cases "c < length (sh_chans sh)") (auto simp: list_update_beyond not_less)
  note buf = this
  show ?thesis
  proof (cases "ch_closed (sh_chans sh ! c)")
    case False
    then have "sh' = sh\<lparr>sh_chans := (sh_chans sh)[c := (sh_chans sh ! c)\<lparr>ch_buf := Some v\<rparr>]\<rparr>"
      using assms by (auto simp: send_chan_def split: if_splits)
    then show ?thesis using buf by simp
  qed (use assms in \<open>auto simp: send_chan_def\<close>)
qed

lemma foldl_close_effect [simp]:
  "length (sh_chans (foldl (\<lambda>s e. close_chan (snd e) s) sh es)) = length (sh_chans sh)"
  "sh_waiters (foldl (\<lambda>s e. close_chan (snd e) s) sh es) = sh_waiters sh"
  "ch_buf (sh_chans (foldl (\<lambda>s e. close_chan (snd e) s) sh es) ! d) = ch_buf (sh_chans sh ! d)"
  by (induction es arbitrary: sh) auto


text \<open>One step changes the channels and entries in one of the ways \<open>waiter_kept\<close> allows.\<close>

definition step_allowed :: "job set \<Rightarrow> pc set \<Rightarrow> shared \<Rightarrow> pc \<Rightarrow> shared \<Rightarrow> pc \<Rightarrow> bool" where
  "step_allowed J P sh p sh' p' \<longleftrightarrow> length (sh_chans sh) \<le> length (sh_chans sh') \<and>
     (\<forall>e. e \<in> set (sh_waiters sh') \<longrightarrow> e \<in> set (sh_waiters sh) \<or> snd e \<ge> length (sh_chans sh)) \<and>
     (\<forall>c v. c < length (sh_chans sh) \<longrightarrow> ch_buf (sh_chans sh' ! c) = Some v \<longrightarrow>
        ch_buf (sh_chans sh ! c) = Some v \<or> (\<exists>out. Send c v out \<in> P)) \<and>
     (\<forall>c v out. p' = Send c v out \<longrightarrow> (\<exists>r key. ((r, key), c) \<in> set (sh_waiters sh) \<and> given J (kind_of r) key v)) \<and>
     (\<forall>k key c. waits_on p' = Some (k, key, c) \<longrightarrow> waits_on p = Some (k, key, c) \<or>
        c = length (sh_chans sh) \<and> c < length (sh_chans sh') \<and> ch_buf (sh_chans sh' ! c) = None \<and>
        (\<forall>r key'. ((r, key'), c) \<in> set (sh_waiters sh') \<longrightarrow> ((r, key'), c) \<in> set (sh_waiters sh) \<or> kind_of r = k \<and> key' = key))"

lemma gstep_allowed:
  assumes "gstep ch sh p = Some (sh', p')" "pc_ok J job p" "p \<in> P"
  shows "step_allowed J P sh p sh' p'"
proof (cases p)
  case (Wait k key c)
  have "waits_on (cancelled k key) = None" "waits_on (timed_out k key) = None"
    "cancelled k key \<noteq> Send d v out" "timed_out k key \<noteq> Send d v out" for d v out by (cases k; simp)+
  then show ?thesis using assms(1) Wait receive_effect [of k c sh sh' p']
    by (auto simp: step_allowed_def split: choice.splits)
next
  case (Send c v out)
  then show ?thesis using assms send_effect [of c v sh sh'] by (auto simp: step_allowed_def split: option.splits)
next
  case (Resolve r key v out)
  then show ?thesis using assms
    by (auto simp: step_allowed_def step_lemmas remove_waiter_def lookup_waiter_def dest: map_of_SomeD split: option.splits)
next
  case (Insert r key)
  then show ?thesis using assms
    by (auto simp: step_allowed_def step_lemmas insert_waiter_def make_chan_def nth_append Let_def split: option.splits)
next
  case (ReadSlot key)
  then show ?thesis using assms by (auto simp: step_allowed_def make_chan_def nth_append split: option.splits)
next
  case (Clear t spawn)
  then show ?thesis using assms by (auto simp: step_allowed_def ClearPendingWaiters_def Let_def split: if_splits)
qed (use assms in \<open>auto simp: step_allowed_def step_lemmas remove_waiter_def Let_def split: option.splits if_splits\<close>)

lemma waiters_ok_step:
  assumes ok: "waiters_ok J sh P" and "p \<in> P" and allowed: "step_allowed J P sh p sh' p'"
    and bound: "\<And>e. e \<in> set (sh_waiters sh) \<Longrightarrow> snd e < length (sh_chans sh)"
      "\<And>c v out. Send c v out \<in> P \<Longrightarrow> c < length (sh_chans sh)"
  shows "waiters_ok J sh' (insert p' P)"
  unfolding waiters_ok_def
proof (intro ballI allI impI)
  fix q k key c
  assume q: "q \<in> insert p' P" "waits_on q = Some (k, key, c)"
  have kept: "waiter_ok J sh' (insert p' P) k key c" if w: "waiter_ok J sh P k key c"
  proof (rule waiter_kept [OF w])
    note a = allowed [unfolded step_allowed_def]
    have "c < length (sh_chans sh)" using w by (simp add: waiter_ok_def)
    then show "ch_buf (sh_chans sh ! c) = Some v \<or> (\<exists>out. Send c v out \<in> P)" if "ch_buf (sh_chans sh' ! c) = Some v" for v
      using a that by blast
    show "length (sh_chans sh) \<le> length (sh_chans sh')" using a by blast
    show "e \<in> set (sh_waiters sh) \<or> length (sh_chans sh) \<le> snd e" if "e \<in> set (sh_waiters sh')" for e
      using a that by blast
    show "\<exists>r key. ((r, key), c) \<in> set (sh_waiters sh) \<and> given J (kind_of r) key v" if "p' = Send c v out" for v out
      using a that by blast
  qed
  consider (old) "\<exists>q \<in> P. waits_on q = Some (k, key, c)" | (new) "q = p'" "waits_on p \<noteq> Some (k, key, c)"
    using q assms(2) by auto
  then show "waiter_ok J sh' (insert p' P) k key c"
  proof cases
    case old
    then show ?thesis using ok kept by (auto simp: waiters_ok_def)
  next
    case new
    then have c: "c = length (sh_chans sh)" "c < length (sh_chans sh')" "ch_buf (sh_chans sh' ! c) = None"
      "\<And>r key'. ((r, key'), c) \<in> set (sh_waiters sh') \<Longrightarrow> ((r, key'), c) \<in> set (sh_waiters sh) \<or> kind_of r = k \<and> key' = key"
      using allowed q(2) by (auto simp: step_allowed_def)
    have "Send c v out \<notin> insert p' P" for v out
      using bound(2) [of c v out] c(1) new(1) q(2) by auto
    moreover have "kind_of r = k \<and> key' = key" if "((r, key'), c) \<in> set (sh_waiters sh')" for r key'
      using c(4) [OF that] bound(1) [of "((r, key'), c)"] c(1) by auto
    ultimately show ?thesis using c(2,3) by (auto simp: waiter_ok_def)
  qed
qed


definition answers_traced :: "system \<Rightarrow> bool" where
  "answers_traced s \<longleftrightarrow>
     (\<forall>(job, p) \<in> set (snd s). pc_ok (fst ` set (snd s)) job p) \<and> waiters_ok (fst ` set (snd s)) (fst s) (snd ` set (snd s))"

lemma waiters_ok_subset: "waiters_ok J sh P \<Longrightarrow> P' \<subseteq> P \<Longrightarrow> waiters_ok J sh P'"
  unfolding waiters_ok_def waiter_ok_def by blast

lemma waiters_ok_mono: "waiters_ok J sh P \<Longrightarrow> J \<subseteq> J' \<Longrightarrow> waiters_ok J' sh P"
  unfolding waiters_ok_def waiter_ok_def using given_mono by meson

lemma waiters_ok_insert:
  assumes "waiters_ok J sh P" "waits_on p = None" "\<And>c v out. p \<noteq> Send c v out"
  shows "waiters_ok J sh (insert p P)"
proof -
  have "Send c v out \<in> insert p P \<longleftrightarrow> Send c v out \<in> P" for c v out using assms(3) by (metis insert_iff)
  then have "waiter_ok J sh (insert p P) k key c = waiter_ok J sh P k key c" for k key c
    by (simp only: waiter_ok_def)
  then show ?thesis using assms(1,2) by (simp add: waiters_ok_def)
qed

lemma start_waits: "waits_on (start job) = None \<and> (\<forall>c v out. start job \<noteq> Send c v out)"
  by (cases job) (auto split: option.split)

lemma safe_bounds:
  assumes "channels_safe (sh, gs)"
  shows "e \<in> set (sh_waiters sh) \<Longrightarrow> snd e < length (sh_chans sh)"
    and "(job, Send c v out) \<in> set gs \<Longrightarrow> c < length (sh_chans sh)"
proof -
  show "e \<in> set (sh_waiters sh) \<Longrightarrow> snd e < length (sh_chans sh)"
    using assms by (auto simp: channels_safe_def owners_ok_def registered_def)
  assume "(job, Send c v out) \<in> set gs"
  then have "c \<in># all_held gs" by (auto simp: all_held_def sum_list_map_remove1)
  then show "c < length (sh_chans sh)" using assms by (auto simp: channels_safe_def owners_ok_def)
qed

lemma fst_image_update: "i < length gs \<Longrightarrow> gs ! i = (job, p) \<Longrightarrow> fst ` set (gs[i := (job, p')]) = fst ` set gs"
  by (metis fst_conv list.set_map list_update_id map_update)

lemma reachable_answers_traced: "reachable s \<Longrightarrow> answers_traced s"
proof (induction rule: reachable.induct)
  case initial
  then show ?case by (simp add: answers_traced_def initial_system_def waiters_ok_def)
next
  case (start sh gs job)
  let ?J = "fst ` set gs" and ?J' = "insert job (fst ` set gs)"
  have "waiters_ok ?J' sh (snd ` set gs)"
    using start(2) waiters_ok_mono [of ?J sh _ ?J'] by (auto simp: answers_traced_def)
  then have "waiters_ok ?J' sh (insert (start job) (snd ` set gs))"
    using start_waits [of job] by (simp add: waiters_ok_insert)
  moreover have "pc_ok ?J' job' p" if "(job', p) \<in> set gs" for job' p
    using start(2) that pc_ok_mono [of ?J job' p ?J'] by (auto simp: answers_traced_def)
  ultimately show ?case using pc_ok_start [of job ?J'] by (auto simp: answers_traced_def)
next
  case (step sh gs i job p ch sh' p')
  let ?J = "fst ` set gs" and ?P = "snd ` set gs" and ?gs = "gs[i := (job, p')]"
  have inp: "(job, p) \<in> set gs" using step(2,3) by (metis nth_mem)
  have w: "waiters_ok ?J sh ?P" and pcs: "\<And>job p. (job, p) \<in> set gs \<Longrightarrow> pc_ok ?J job p"
    using step(5) by (auto simp: answers_traced_def)
  note safe = safe_bounds [OF reachable_channels_safe [OF step(1)]]
  have p: "p \<in> ?P" using inp by force
  have pc': "pc_ok ?J job p'"
  proof (rule pc_ok_gstep [OF pcs [OF inp] step(4)])
    show "given ?J k key v" if "p = Wait k key c" "ch_buf (sh_chans sh ! c) = Some v" for k key c v
      using w p that by (fastforce simp: waiters_ok_def waiter_ok_def)
  qed
  have w': "waiters_ok ?J sh' (insert p' ?P)"
    by (rule waiters_ok_step [OF w p gstep_allowed [OF step(4) pcs [OF inp] p]]) (use safe in auto)
  have sub: "set ?gs \<subseteq> insert (job, p') (set gs)" by (rule set_update_subset_insert)
  have "snd ` set ?gs \<subseteq> insert p' ?P" using image_mono [OF sub, of snd] by simp
  from waiters_ok_subset [OF w' this] have "waiters_ok ?J sh' (snd ` set ?gs)" .
  moreover have "pc_ok ?J job' q" if "(job', q) \<in> set ?gs" for job' q
    using that sub pcs pc' by auto
  ultimately show ?case using fst_image_update [OF step(2,3)] by (auto simp: answers_traced_def)
qed

text \<open>
  A request is answered only by those who were asked this question: in every interleaving the answer it returns
  is the fallback of its kind (abort or timed out for an approval, nothing or the empty answer for the others) or was
  passed to a notification of the same kind under the same key. A command is approved only if its own approval was
  answered that way.
\<close>

theorem answers_come_from_notifications:
  assumes "reachable (sh, gs)" "(job, Finished (Answer a)) \<in> set gs"
  shows "\<exists>k key. question job = Some (k, key) \<and>
    (a = None \<and> k = Permission \<or>
     (\<exists>v. a = Some v \<and> (v \<in> fallback k \<or> (\<exists>job' p'. (job', p') \<in> set gs \<and> answers job' = Some ((k, key), v)))))"
proof -
  have "pc_ok (fst ` set gs) job (Finished (Answer a))"
    using reachable_answers_traced [OF assms(1)] assms(2) by (auto simp: answers_traced_def)
  then obtain k key where "question job = Some (k, key)" "answer_ok (fst ` set gs) k key a"
    by (auto simp: outcome_ok_def)
  then show ?thesis by (cases a) (fastforce simp: answer_ok_def given_def)+
qed

text \<open>The command is approved, and the answer carries the decision.\<close>

definition approved_run :: "action list" where
  "approved_run = asked @ [Start (HandleApproval ''k'' (Some (decision_of RdApproved))), Step 2 TakeReply, Step 2 TakeReply,
     Step 2 TakeReply, Step 1 TakeReply]"

theorem answers_come_from_notifications_witness:
  "\<exists>sh gs. run approved_run initial_system = Some (sh, gs) \<and>
     (RequestApproval ''k'', Finished (Answer (Some (ReviewReply (decision_of RdApproved))))) \<in> set gs \<and>
     (\<exists>job' p'. (job', p') \<in> set gs \<and> answers job' = Some ((Review, ''k''), ReviewReply (decision_of RdApproved)))"
proof -
  define s where "s = the (run approved_run initial_system)"
  have r: "run approved_run initial_system = Some (fst s, snd s)" unfolding s_def by code_simp
  have g: "(RequestApproval ''k'', Finished (Answer (Some (ReviewReply (decision_of RdApproved))))) \<in> set (snd s)"
    unfolding s_def by code_simp
  have "reachable (fst s, snd s)" using run_reachable [OF reachable.initial r] .
  from answers_come_from_notifications [OF this g]
  have "\<exists>job' p'. (job', p') \<in> set (snd s) \<and> answers job' = Some ((Review, ''k''), ReviewReply (decision_of RdApproved))"
    by (auto simp: abort_decision_def timeout_decision_def decision_of_def)
  with r g show ?thesis by (intro exI [of _ "fst s"] exI [of _ "snd s"]) auto
qed


section \<open>What the keys do not keep apart\<close>

text \<open>
  The cleanup of a cancelled request looks its key up again, in the turn that is active by then. If another request has
  taken the key in the meantime, the cleanup resolves that one: here the second request is aborted although it was
  neither answered nor cancelled nor timed out.
\<close>

lemma stale_cancel_aborts_newer_request:
  "map_option (\<lambda>(sh, gs). gs ! 2)
     (run (asked @ [Start (RequestApproval ''k''), Step 2 TakeReply, Step 2 TakeReply, Step 2 TakeReply, Step 2 TakeReply,
        Step 1 TakeCancel, Step 1 TakeReply, Step 1 TakeReply, Step 1 TakeReply, Step 2 TakeReply]) initial_system) =
   Some (RequestApproval ''k'', Finished (Answer (Some abort_decision)))"
  by code_simp

text \<open>
  A request for user input is registered under the id of its turn, so a turn has room for one: a second request
  closes the channel of the first, which returns the empty answer.
\<close>

lemma second_user_input_drops_first:
  "map_option (\<lambda>(sh, gs). gs ! 0)
     (run [Start (RequestUserInput ''turn''), Step 0 TakeReply, Step 0 TakeReply, Start (RequestUserInput ''turn''),
        Step 1 TakeReply, Step 1 TakeReply, Step 0 TakeReply] initial_system) =
   Some (RequestUserInput ''turn'', Finished (Answer (Some (UserInputReply emptyUserInputResponse))))"
  by code_simp

end
