(* ===== verification/Core_Status.thy ===== *)
theory Core_Status
  imports Core_Items
begin

text \<open>
  The status of an agent and its watchers (core/session.go): setAgentStatus, SubscribeAgentStatus and the unsubscribe
  function it returns. The slice of watchers is kept with its backing array, because setAgentStatus goes over it after
  giving up the mutex while unsubscribe shifts the elements in place.
\<close>

section \<open>State\<close>

record status_chan =
  sc_buf :: "AgentStatus list"
  sc_closed :: bool

text \<open>A slice is a backing array and a length; an array is as long as its capacity.\<close>

record status_state =
  wt_status :: AgentStatus
  wt_arrays :: "nat list list"
  wt_slice :: "nat \<times> nat"
  wt_chans :: "status_chan list"
  wt_panicked :: bool

definition watcher_capacity :: nat where
  "watcher_capacity = 16"

definition slice_items :: "nat list list \<Rightarrow> nat \<times> nat \<Rightarrow> nat list" where
  "slice_items arrays s = take (snd s) (arrays ! fst s)"

definition watchers :: "status_state \<Rightarrow> nat list" where
  "watchers st = slice_items (wt_arrays st) (wt_slice st)"

definition new_status_state :: status_state where
  "new_status_state =
     \<lparr>wt_status = AgentPendingInit, wt_arrays = [[]], wt_slice = (0, 0), wt_chans = [], wt_panicked = False\<rparr>"

text \<open>An append within the capacity writes to the array of the slice, any other to a new one of twice the size, as
  the runtime does for small slices.\<close>

definition append_watcher :: "nat \<Rightarrow> status_state \<Rightarrow> status_state" where
  "append_watcher c st =
     (case wt_slice st of (a, n) \<Rightarrow>
        if n < length (wt_arrays st ! a)
        then st\<lparr>wt_arrays := (wt_arrays st)[a := (wt_arrays st ! a)[n := c]], wt_slice := (a, n + 1)\<rparr>
        else st\<lparr>wt_arrays := wt_arrays st @ [take n (wt_arrays st ! a) @ c # replicate (n - 1) 0],
                wt_slice := (length (wt_arrays st), n + 1)\<rparr>)"

definition SubscribeAgentStatus :: "status_state \<Rightarrow> AgentStatus \<times> nat \<times> status_state" where
  "SubscribeAgentStatus st =
     (let c = length (wt_chans st) in
      (wt_status st, c, append_watcher c (st\<lparr>wt_chans := wt_chans st @ [\<lparr>sc_buf = [], sc_closed = False\<rparr>]\<rparr>)))"

fun index_of :: "nat \<Rightarrow> nat list \<Rightarrow> nat option" where
  "index_of c [] = None"
| "index_of c (x # xs) = (if x = c then Some 0 else map_option Suc (index_of c xs))"

text \<open>append(ws[:i], ws[i+1:]...): the elements after \<open>i\<close> move down by one, the last one stays where it was.\<close>

definition remove_at :: "nat \<Rightarrow> status_state \<Rightarrow> status_state" where
  "remove_at i st =
     (case wt_slice st of (a, n) \<Rightarrow>
        let arr = wt_arrays st ! a in
        st\<lparr>wt_arrays := (wt_arrays st)[a := take i arr @ take (n - Suc i) (drop (Suc i) arr) @ drop (n - 1) arr],
           wt_slice := (a, n - 1)\<rparr>)"

definition close_status :: "nat \<Rightarrow> status_state \<Rightarrow> status_state" where
  "close_status c st =
     (if sc_closed (wt_chans st ! c) then st\<lparr>wt_panicked := True\<rparr>
      else st\<lparr>wt_chans := (wt_chans st)[c := (wt_chans st ! c)\<lparr>sc_closed := True\<rparr>]\<rparr>)"

definition unsubscribe :: "nat \<Rightarrow> status_state \<Rightarrow> status_state" where
  "unsubscribe c st = (case index_of c (watchers st) of None \<Rightarrow> st | Some i \<Rightarrow> close_status c (remove_at i st))"

text \<open>A send that drops the value if the buffer is full; a send on a closed channel panics.\<close>

definition offer :: "AgentStatus \<Rightarrow> nat \<Rightarrow> status_state \<Rightarrow> status_state" where
  "offer v c st =
     (if sc_closed (wt_chans st ! c) then st\<lparr>wt_panicked := True\<rparr>
      else if length (sc_buf (wt_chans st ! c)) < watcher_capacity
      then st\<lparr>wt_chans := (wt_chans st)[c := (wt_chans st ! c)\<lparr>sc_buf := sc_buf (wt_chans st ! c) @ [v]\<rparr>]\<rparr>
      else st)"

section \<open>Setting the status without interference\<close>

definition setAgentStatus :: "AgentStatus \<Rightarrow> status_state \<Rightarrow> status_state" where
  "setAgentStatus v st = (let st' = st\<lparr>wt_status := v\<rparr> in foldl (\<lambda>s c. offer v c s) st' (watchers st'))"

text \<open>The watchers are distinct open channels, and the slice lies in its array.\<close>

definition watchers_ok :: "status_state \<Rightarrow> bool" where
  "watchers_ok st \<longleftrightarrow> \<not> wt_panicked st \<and> fst (wt_slice st) < length (wt_arrays st) \<and>
     snd (wt_slice st) \<le> length (wt_arrays st ! fst (wt_slice st)) \<and> distinct (watchers st) \<and>
     (\<forall>c \<in> set (watchers st). c < length (wt_chans st) \<and> \<not> sc_closed (wt_chans st ! c))"

lemma watchers_ok_new: "watchers_ok new_status_state"
  by (simp add: watchers_ok_def new_status_state_def watchers_def slice_items_def)

lemma watchers_append:
  assumes "fst (wt_slice st) < length (wt_arrays st)" "snd (wt_slice st) \<le> length (wt_arrays st ! fst (wt_slice st))"
  shows "watchers (append_watcher c st) = watchers st @ [c] \<and> fst (wt_slice (append_watcher c st)) < length (wt_arrays (append_watcher c st)) \<and>
    snd (wt_slice (append_watcher c st)) \<le> length (wt_arrays (append_watcher c st) ! fst (wt_slice (append_watcher c st))) \<and>
    wt_chans (append_watcher c st) = wt_chans st \<and> wt_panicked (append_watcher c st) = wt_panicked st"
proof -
  obtain a n where s: "wt_slice st = (a, n)" by fastforce
  show ?thesis
  proof (cases "n < length (wt_arrays st ! a)")
    case True
    then have "take (n + 1) ((wt_arrays st ! a)[n := c]) = take n (wt_arrays st ! a) @ [c]"
      by (simp add: take_Suc_conv_app_nth)
    then show ?thesis using True assms s by (simp add: append_watcher_def watchers_def slice_items_def)
  next
    case False
    then show ?thesis using assms s by (auto simp: append_watcher_def watchers_def slice_items_def nth_append)
  qed
qed

lemma SubscribeAgentStatus_ok:
  assumes "watchers_ok st" "SubscribeAgentStatus st = (cur, c, st')"
  shows "watchers_ok st' \<and> watchers st' = watchers st @ [c] \<and> cur = wt_status st \<and> wt_chans st' ! c = \<lparr>sc_buf = [], sc_closed = False\<rparr>"
proof -
  let ?st = "st\<lparr>wt_chans := wt_chans st @ [\<lparr>sc_buf = [], sc_closed = False\<rparr>]\<rparr>"
  have st': "st' = append_watcher c ?st" "c = length (wt_chans st)" "cur = wt_status st"
    using assms(2) by (auto simp: SubscribeAgentStatus_def Let_def)
  have "watchers ?st = watchers st" by (simp add: watchers_def)
  then show ?thesis using assms(1) watchers_append [of ?st c] unfolding st' 
    by (auto simp: watchers_ok_def nth_append)
qed

lemma offer_effect:
  assumes "c < length (wt_chans st)" "\<not> sc_closed (wt_chans st ! c)"
  shows "wt_panicked (offer v c st) = wt_panicked st" "length (wt_chans (offer v c st)) = length (wt_chans st)"
    "wt_status (offer v c st) = wt_status st" "wt_arrays (offer v c st) = wt_arrays st" "wt_slice (offer v c st) = wt_slice st"
    "sc_closed (wt_chans (offer v c st) ! d) = sc_closed (wt_chans st ! d)"
    "sc_buf (wt_chans (offer v c st) ! d) =
       (if d = c \<and> length (sc_buf (wt_chans st ! d)) < watcher_capacity then sc_buf (wt_chans st ! d) @ [v] else sc_buf (wt_chans st ! d))"
  using assms by (auto simp: offer_def nth_list_update)

text \<open>
  A status that is set while no watcher unsubscribes reaches each watcher once, unless its buffer is full, and nothing
  panics.
\<close>

lemma offers_effect:
  assumes "distinct cs" "\<forall>c \<in> set cs. c < length (wt_chans st) \<and> \<not> sc_closed (wt_chans st ! c)"
  shows "let st' = foldl (\<lambda>s c. offer v c s) st cs in
    wt_panicked st' = wt_panicked st \<and> length (wt_chans st') = length (wt_chans st) \<and> wt_status st' = wt_status st \<and>
    wt_arrays st' = wt_arrays st \<and> wt_slice st' = wt_slice st \<and>
    (\<forall>d. sc_closed (wt_chans st' ! d) = sc_closed (wt_chans st ! d) \<and>
      sc_buf (wt_chans st' ! d) = (if d \<in> set cs \<and> length (sc_buf (wt_chans st ! d)) < watcher_capacity
        then sc_buf (wt_chans st ! d) @ [v] else sc_buf (wt_chans st ! d)))"
  using assms
proof (induction cs arbitrary: st)
  case (Cons c cs)
  then have c: "c < length (wt_chans st)" "\<not> sc_closed (wt_chans st ! c)" by auto
  note o = offer_effect [OF c, of v]
  have "\<forall>d \<in> set cs. d < length (wt_chans (offer v c st)) \<and> \<not> sc_closed (wt_chans (offer v c st) ! d)"
    using Cons(3) o by auto
  from Cons(1) [OF _ this] Cons(2) show ?case using o by (auto simp: Let_def)
qed simp

lemma setAgentStatus_delivers:
  assumes "watchers_ok st"
  shows "watchers_ok (setAgentStatus v st) \<and> wt_status (setAgentStatus v st) = v \<and> watchers (setAgentStatus v st) = watchers st \<and>
    (\<forall>c \<in> set (watchers st). sc_buf (wt_chans (setAgentStatus v st) ! c) =
       (if length (sc_buf (wt_chans st ! c)) < watcher_capacity then sc_buf (wt_chans st ! c) @ [v] else sc_buf (wt_chans st ! c)))"
proof -
  have "watchers (st\<lparr>wt_status := v\<rparr>) = watchers st" by (simp add: watchers_def)
  then show ?thesis
    using offers_effect [of "watchers st" "st\<lparr>wt_status := v\<rparr>" v] assms
    by (auto simp: setAgentStatus_def watchers_ok_def watchers_def Let_def)
qed

lemma index_of_Some: "index_of c xs = Some i \<Longrightarrow> i < length xs \<and> xs ! i = c"
  by (induction xs arbitrary: i) (auto split: if_splits)

lemma index_of_None: "index_of c xs = None \<longleftrightarrow> c \<notin> set xs"
  by (induction xs) auto

lemma watchers_remove_at:
  assumes "i < length (watchers st)" "fst (wt_slice st) < length (wt_arrays st)"
    "snd (wt_slice st) \<le> length (wt_arrays st ! fst (wt_slice st))"
  shows "watchers (remove_at i st) = take i (watchers st) @ drop (Suc i) (watchers st)"
proof -
  obtain a n where s: "wt_slice st = (a, n)" by fastforce
  have "i < n" "n \<le> length (wt_arrays st ! a)" using assms s by (auto simp: watchers_def slice_items_def)
  then have "take (n - 1) (take i arr @ take (n - Suc i) (drop (Suc i) arr) @ drop (n - 1) arr) =
      take i arr @ take (n - Suc i) (drop (Suc i) arr)" if "arr = wt_arrays st ! a" for arr
    using that by simp
  moreover have "take i (take n (wt_arrays st ! a)) = take i (wt_arrays st ! a)" using \<open>i < n\<close> by simp
  ultimately show ?thesis using assms(2) s
    by (simp add: remove_at_def watchers_def slice_items_def Let_def drop_take)
qed

text \<open>Unsubscribing removes the watcher and closes its channel; a second call does nothing.\<close>

lemma unsubscribe_ok:
  assumes ok: "watchers_ok st"
  shows "watchers_ok (unsubscribe c st) \<and> set (watchers (unsubscribe c st)) = set (watchers st) - {c} \<and>
    unsubscribe c (unsubscribe c st) = unsubscribe c st"
proof (cases "index_of c (watchers st)")
  case None
  then have "unsubscribe c st = st" by (simp add: unsubscribe_def)
  moreover have "c \<notin> set (watchers st)" using None index_of_None by blast
  ultimately show ?thesis using ok by simp
next
  case (Some i)
  define st1 where "st1 = remove_at i st"
  have i: "i < length (watchers st)" "watchers st ! i = c" using index_of_Some [OF Some] by auto
  have w: "watchers st1 = take i (watchers st) @ drop (Suc i) (watchers st)"
    using watchers_remove_at [OF i(1)] ok by (simp add: watchers_ok_def st1_def)
  have split: "watchers st = take i (watchers st) @ c # drop (Suc i) (watchers st)"
    using id_take_nth_drop [OF i(1)] i(2) by simp
  have dist: "distinct (take i (watchers st) @ c # drop (Suc i) (watchers st))" using ok split by (simp add: watchers_ok_def)
  have set: "set (watchers st1) = set (watchers st) - {c}" unfolding w using dist arg_cong [OF split, of set] by auto
  have frame: "wt_chans st1 = wt_chans st" "wt_panicked st1 = wt_panicked st"
    "fst (wt_slice st1) < length (wt_arrays st1)" "snd (wt_slice st1) \<le> length (wt_arrays st1 ! fst (wt_slice st1))"
    using ok i(1) by (auto simp: st1_def remove_at_def watchers_ok_def watchers_def slice_items_def Let_def split: prod.split)
  have open': "c < length (wt_chans st)" "\<not> sc_closed (wt_chans st ! c)" using ok nth_mem [OF i(1)] i(2) by (auto simp: watchers_ok_def)
  have un: "unsubscribe c st = st1\<lparr>wt_chans := (wt_chans st)[c := (wt_chans st ! c)\<lparr>sc_closed := True\<rparr>]\<rparr>"
    using Some open' frame(1) by (simp add: unsubscribe_def st1_def [symmetric] close_status_def)
  have ws: "watchers (unsubscribe c st) = watchers st1" by (simp add: un watchers_def)
  have "watchers_ok (unsubscribe c st)"
    using ok frame dist w set ws by (auto simp: watchers_ok_def un)
  moreover have "unsubscribe c (unsubscribe c st) = unsubscribe c st"
    using set ws index_of_None [of c "watchers st1"] by (simp add: unsubscribe_def [of c "unsubscribe c st"])
  ultimately show ?thesis using set ws by simp
qed

section \<open>Interleavings\<close>

text \<open>
  setAgentStatus gives up the mutex before it goes over its copy of the slice header, so an unsubscribe may come
  between any two of its steps. The steps: reading the slice, reading the next element, offering the status to it.
\<close>

datatype setter =
    Snapshot AgentStatus
  | ReadNext AgentStatus "nat \<times> nat" nat
  | Offer AgentStatus "nat \<times> nat" nat nat
  | SetterDone

fun setter_step :: "status_state \<Rightarrow> setter \<Rightarrow> status_state \<times> setter" where
  "setter_step st (Snapshot v) = (st\<lparr>wt_status := v\<rparr>, ReadNext v (wt_slice st) 0)"
| "setter_step st (ReadNext v s j) =
     (st, if j < snd s then Offer v s j (wt_arrays st ! fst s ! j) else SetterDone)"
| "setter_step st (Offer v s j c) = (offer v c st, ReadNext v s (j + 1))"
| "setter_step st SetterDone = (st, SetterDone)"

text \<open>Run alone, the steps are the function above.\<close>

fun run_setter :: "nat \<Rightarrow> status_state \<times> setter \<Rightarrow> status_state \<times> setter" where
  "run_setter 0 x = x"
| "run_setter (Suc n) x = run_setter n (setter_step (fst x) (snd x))"

lemma offer_frame: "wt_arrays (offer v c st) = wt_arrays st"
  by (simp add: offer_def)

lemma run_setter_rest:
  assumes "j \<le> snd s" "snd s \<le> length (wt_arrays st ! fst s)"
  shows "run_setter (Suc (2 * (snd s - j))) (st, ReadNext v s j) =
    (foldl (\<lambda>x c. offer v c x) st (drop j (slice_items (wt_arrays st) s)), SetterDone)"
  using assms
proof (induction "snd s - j" arbitrary: j st)
  case 0
  then show ?case by (simp add: slice_items_def)
next
  case (Suc n)
  then have j: "j < snd s" by simp
  have items: "drop j (slice_items (wt_arrays st) s) = wt_arrays st ! fst s ! j # drop (j + 1) (slice_items (wt_arrays st) s)"
    using j Suc(4) by (simp add: slice_items_def Cons_nth_drop_Suc [symmetric])
  have "run_setter (Suc (2 * (snd s - (j + 1)))) (offer v (wt_arrays st ! fst s ! j) st, ReadNext v s (j + 1)) =
      (foldl (\<lambda>x c. offer v c x) (offer v (wt_arrays st ! fst s ! j) st)
        (drop (j + 1) (slice_items (wt_arrays st) s)), SetterDone)"
    using Suc(1) [of "j + 1" "offer v (wt_arrays st ! fst s ! j) st"] Suc(2,4) j by (simp add: offer_frame)
  moreover have "Suc (2 * (snd s - j)) = Suc (Suc (Suc (2 * (snd s - (j + 1)))))" using j by simp
  ultimately show ?case using items j by (simp del: mult_Suc_right)
qed

lemma setter_alone:
  assumes "watchers_ok st"
  shows "run_setter (Suc (Suc (2 * length (watchers st)))) (st, Snapshot v) = (setAgentStatus v st, SetterDone)"
proof -
  have "length (watchers st) = snd (wt_slice st)" using assms by (simp add: watchers_ok_def watchers_def slice_items_def)
  then show ?thesis
    using run_setter_rest [of 0 "wt_slice st" "st\<lparr>wt_status := v\<rparr>" v] assms
    by (simp add: setAgentStatus_def watchers_def Let_def watchers_ok_def)
qed

text \<open>Two watchers; a status is being set.\<close>

definition two_watchers :: status_state where
  "two_watchers = snd (snd (SubscribeAgentStatus (snd (snd (SubscribeAgentStatus new_status_state)))))"

text \<open>A watcher that unsubscribes after the setter has read its channel makes the setter panic.\<close>

lemma send_on_closed_channel:
  "let (st, p) = run_setter 2 (two_watchers, Snapshot AgentRunning) in
   wt_panicked (fst (setter_step (unsubscribe 0 st) p))"
  by code_simp

text \<open>
  A watcher that unsubscribes before the setter has come to the next one moves that one down to a place already
  visited: it does not get the status, unless the stale last element names it again.
\<close>

lemma watcher_is_skipped:
  "let st0 = snd (snd (SubscribeAgentStatus two_watchers));
       (st, p) = run_setter 3 (st0, Snapshot AgentRunning);
       st' = fst (run_setter 5 (unsubscribe 0 st, p)) in
   \<not> wt_panicked st' \<and> watchers st' = [1, 2] \<and> sc_buf (wt_chans st' ! 1) = [] \<and>
   sc_buf (wt_chans st' ! 2) = [AgentRunning, AgentRunning]"
  by code_simp

end
