(* ===== verification/Spec2Isabelle.thy ===== *)
theory Spec2Isabelle
  imports Patch_Roundtrip Patch_Update_Props Patch_OS Exec_Builder Agent_Registry Agent_Graph
    Head_Tail Lru_Cache Stream_Assistant Stream_Utf8 Sandbox_Seccomp Net_Policy
    Fs_Context Patch_Tool Core_Turn_Props Core_Approvals Core_Status
begin

text \<open>
  A verification library for \<^bold>\<open>codexgo\<close>, a Go implementation of a terminal coding agent. All sources named
  below are under \<open>src/internal\<close>.

  \<^bold>\<open>The program.\<close> The agent runs a model in a loop; the model calls tools, and the tools change the
  machine. Before a command runs, the policy engine (execpolicy) decides from Starlark policy files
  whether it is allowed, needs approval or is forbidden. The patch tool (applypatch) parses a textual
  patch and applies it to the file system, on absolute paths (utils/abspath). Long-running commands
  write to a capped buffer (unifiedexec). A session spawns further agents, addressed by agent paths
  (protocol, multiagent), bounded by a registry (multiagent) and recorded in a thread graph
  (agentgraph). Sandboxed commands reach the network only through a filtering proxy (networkproxy), and on
  Linux a seccomp filter closes the other ways out (sandbox). Which files a command may read or write follows from a
  permission profile (protocol, sandbox, filesystem), and leaving the sandbox needs the user's approval (core). Streamed model output is cut into visible text and
  hidden markup (utils/streamparser), text too long for the model is truncated (utils/truncation), and a
  conversation too long for it is replaced by a summary (core). Helpers such as the LRU cache (utils/cache) serve several packages. The
  development models these components, each from its data types to its operations, and proves what makes
  them correct.

  \<^bold>\<open>Common conventions.\<close> A Go string is a list of bytes (type \<open>string\<close>), an enum or tagged struct is a
  datatype, any other struct a record. A function that returns an error returns a sum whose left side
  is the error; a run-time panic is the value \<open>None\<close>, or an error value of its own (\<open>RuntimePanic\<close>,
  \<open>ComputePanic\<close>, \<open>ErrPanic\<close> in the patch tool), where a slice, an index or a channel operation can be out of bounds. A mutated receiver is
  passed in and returned. A Go map is a partial map, or an association list where the iteration order is
  observable in the code. Loops are structural recursions on what they consume, or functions with a proved
  measure; no fuel is used. The loop of a turn, which ends only if the model stops calling tools, is a
  \<open>partial_function\<close> into \<open>option\<close>, with a theorem that it returns. Machine integers are words where they can wrap (the registry's 64-bit
  counter) and \<open>int\<close> or \<open>nat\<close> where the values are lengths of data in memory.

  \<^bold>\<open>Prelude.\<close> \<open>Go_Base\<close> has the result type, index loops, slice expressions and decimal printing;
  \<open>Go_Strings\<close> UTF-8 decoding, white space, trimming, splitting and joining; \<open>Go_Text\<close> UTF-8 encoding (with the
  proof that decoding inverts it), searching, lower case, quoting (\<open>%q\<close>) and file names; \<open>Go_Scan\<close> the
  first occurrence of a tag in a text and what is stable when the text grows; \<open>Go_Netip\<close> the addresses of Go's
  net/netip (parsing, unmapping, the classification predicates); \<open>Go_Path\<close> path.Clean, path.Join and
  filepath.Dir. What depends on the platform or on the
  Unicode tables beyond Latin-1 is a field of the parameter \<open>go_env\<close>.

  \<^bold>\<open>Patches (applypatch).\<close>
  \<^item> \<open>Patch_Parser\<close>: parser.go, hunk.go, markers.go and the parse errors of errors.go.
    \<open>Patch_Roundtrip\<close>: printing well-formed hunks and parsing them is the identity in both modes (C1);
    no text makes the parser panic, and reported line numbers lie in the patch (C13); lenient mode only adds heredoc stripping (\<open>lenient_heredoc\<close>).
  \<^item> \<open>Patch_Replace\<close>: seek\_sequence.go and replacements.go. \<open>Patch_Update_Props\<close>: the four-pass
    search is sound, complete and prefers verbatim hits (C4); no slice or index goes out of range, in the search
    or in the edits (C5); the descending in-place edits are one forward splice (C6); a single chunk without context line
    and end-of-file mark does what it says, up to a blank last line (C7); the lemmas
    \<open>trailing_blank_line_lost\<close> and \<open>addition_lost_by_overlap\<close> exhibit two losses of lines.
  \<^item> \<open>Patch_Apply\<close>: apply.go, apply\_types.go and the FileSystem interface of filesystem.go as a record of
    operations. \<open>Patch_Delta\<close>: the locale \<open>file_system\<close> states what the patcher needs of a file system and
    proves that an exact delta replays and undoes the mutations. \<open>Patch_OS\<close>: OSFileSystem over a model of the os
    calls, which interprets the locale (C12), the absence of panics (\<open>ApplyPatch_never_panics\<close>), the inertness of unparsable
    patches (\<open>parse_failure_changes_nothing\<close>), and a move onto itself, which deletes the file (\<open>move_onto_itself_deletes\<close>). Symbolic links among parent directories are not modelled.

  \<^bold>\<open>Paths (utils/abspath).\<close> \<open>Abs_Path\<close>: both platform grammars, normalization, home expansion, resolution.
  On Unix resolution yields clean absolute paths and is idempotent (C10), and parents drop one
  segment. The working directory is an argument of the constructors that read it; symlink
  canonicalization is left out.

  \<^bold>\<open>Command policy (execpolicy).\<close>
  \<^item> \<open>Exec_Shlex\<close>: shlex.go. Tokenizing inverts quoting (C16) except for one combination of characters
    (\<open>exclamation_mark_not_read_back\<close>).
  \<^item> \<open>Exec_Rules\<close>: decision.go, error.go, rule.go, network\_rule.go, executable\_name.go; decisions are a
    linear order by severity; round trips of the spellings.
  \<^item> \<open>Exec_Policy\<close>: policy.go. The locale \<open>policy_rule\<close> is the Go interface Rule with its laws,
    interpreted by PrefixRule. The strictest decision wins (C18); overlays and further arguments never
    loosen a decision (C19, C20); an added rule takes effect and nothing else changes (C21); the
    basename fallback is gated (C22); compiled network domains follow the last rule of a host
    (\<open>CompiledNetworkDomains_refines\<close>).
  \<^item> \<open>Exec_Builder\<close>: parse\_helpers.go, parser.go, builder.go, validate.go. Starlark (go.starlark.net) is a
    parameter: a record of observers of values, unpacked arguments for the builtins, and an evaluation
    function for files. The index by program equals a scan (\<open>indexed_matching_equals_scan\<close>), loading succeeds exactly when the self-tests
    hold, each against its own rule (C25), and all reachable builders are well formed (C26, by rule induction over \<open>builder_step\<close>); a
    decision passed by position is ignored (\<open>positional_decision_ignored\<close>) and a trailing dot hides a port
    (\<open>trailing_dot_hides_port\<close>).

  \<^bold>\<open>Agents (protocol, multiagent, agentgraph).\<close>
  \<^item> \<open>Agent_Path\<close>: AgentPath of protocol/ids.go and multiagent/agentpath.go; paths are lists of names
    (\<open>agent_paths_are_name_lists\<close>).
  \<^item> \<open>Agent_Registry\<close>: multiagent/registry.go and metadata.go. The interleavings of concurrent
    callers, each with its own reservation handles, are the runs of \<open>registry_step\<close>; the sub-agent limit holds in all of
    them (C31); nicknames are fresh and not given back (\<open>nickname_reservation\<close>).
  \<^item> \<open>Agent_Graph\<close>: agentgraph/inmemory.go, with the locale \<open>agent_graph_store\<close> for the interface
    AgentGraphStore. Descendants are listed breadth first and completely (C36); a thread has one parent
    (\<open>children_have_one_parent\<close>).
    The SQLite store is not modelled.

  \<^bold>\<open>Buffers and caches.\<close> \<open>Head_Tail\<close>: unifiedexec/headtail.go keeps exactly a prefix and a suffix (C33).
  \<open>Lru_Cache\<close>: utils/cache/lru.go and cache.go; the linked list with its index refines a list in order of use
  (C34), and the wrapper memoizes (\<open>GetOrInsertWith_memoizes\<close>) through the locale \<open>cache\<close>.

  \<^bold>\<open>Network proxy (networkproxy).\<close>
  \<^item> \<open>Net_Glob\<close>: glob.go, the compiled glob matcher; the backtracking search terminates and agrees with a
    direct reference definition of matching (C28).
  \<^item> \<open>Net_Host\<close>: host.go, domainpattern.go and the glob sets; the list of non-public address ranges is right
    for every address (C40). \<open>Net_Config\<close>: config.go, execpolicy.go, unixsocket.go; what the proxy takes from
    net/url and from the MITM hook compiler is a field of the parameter \<open>net_env\<close>.
  \<^item> \<open>Net_Constraints\<close>: constraints.go; a configuration accepted under managed constraints never exceeds them
    (C29), unless they allow expanding the list, and one way around the domain allowlist is exhibited (\<open>colon_defeats_allowlist\<close>).
  \<^item> \<open>Net_Policy\<close>: decision.go, audit.go, blocked.go and state.go. The state is a record; the methods hold a
    mutex, so concurrent use is a run of the inductive relation \<open>proxy_step\<close>, with its invariant (C39). A host
    is let through only if the lists allow it and it is not local (C38); a domain update has exactly its
    documented effect on plain names (C11). Resolver, clock and decider are parameters.

  \<^bold>\<open>Linux sandbox (sandbox).\<close> \<open>Sandbox_Seccomp\<close>: seccomp\_bpf.go. The generated program returns, for every
  native system call, the verdict that the purpose of the call and the network mode determine, on every machine with
  the documented behaviour of classic BPF (C17); a call of the x32 convention passes it
  (\<open>x32_connect_passes\<close>); the number parser for its environment setting is exact at 32 bits (\<open>parseUint32_correct\<close>).

  \<^bold>\<open>File permissions (protocol, sandbox, filesystem).\<close>
  \<^item> \<open>Perm_Types\<close>: the types of protocol/permissions.go, permission\_profile.go and sandbox.go with their operations
    (the JSON methods are left out), and the overlays of additional permissions of sandbox/runtime.go.
  \<^item> \<open>Sandbox_Paths\<close>: sandbox/pathutil.go; the locale \<open>path_tree\<close> states what the resolution needs of the prefix
    order on paths, and clean absolute paths interpret it. The operating system (TMPDIR, which paths exist, what
    symbolic links resolve to) is the parameter \<open>os_env\<close>.
  \<^item> \<open>Sandbox_Policy\<close>: sandbox/policy\_resolve.go. \<open>Sandbox_Access\<close>: the deepest entry above a path decides, and
    among equally deep ones deny before write before read (C3); the writable roots handed to the platform sandbox,
    taken as alternatives, allow exactly what the write check allows, except for the protected metadata of
    nested roots (C15), which the lemma \<open>nested_root_metadata_writable\<close> shows to be writable; the lemmas \<open>metadata_protection_depends_on_order\<close> and \<open>unknown_mode_readable\<close> exhibit two
    oddities.
  \<^item> \<open>Fs_Context\<close>: filesystem/policy.go and sandbox\_context.go, a second copy of parts of the resolution; full
    disk write access agrees with the first (\<open>full_disk_write_agrees\<close>), the order of access modes does not
    (\<open>packages_disagree_on_denied_path\<close>).

  \<^bold>\<open>Approvals (core).\<close> \<open>Turn_Sandbox\<close>: the sandbox of a turn, the approval cache and the escalation of a denied
  command. What the three modes permit (C35); a command runs without sandbox only after the user approved
  that (C32). Running a command and asking the user are parameters over an abstract world. \<open>Patch_Tool\<close>: the
  apply\_patch tool, which consults neither (\<open>patch_tool_ignores_read_only_mode\<close>).

  \<^bold>\<open>Stream parsers (utils/streamparser).\<close> The locale \<open>stream_text_parser\<close> of \<open>Stream_Text\<close> is the Go interface
  StreamTextParser with its law (the output does not depend on how the input is cut), interpreted by the
  inline-tag parser (\<open>Stream_Inline\<close>, C8) and the tagged-line parser (\<open>Stream_Lines\<close>, C9); \<open>Stream_Assistant\<close>
  composes them, and \<open>Stream_Utf8\<close> wraps a parser to take bytes (locale \<open>utf8_wrapped\<close>, C14).

  \<^bold>\<open>Truncation (utils/truncation, utils/strutil).\<close> \<open>Text_Truncate\<close>: token estimates with their 64-bit
  wrap-around, policies, truncation in the middle of a text and of the items of a tool output. A beginning and an end
  are kept within the budget and cut at characters, and the marker counts what is missing (C2); the two copies of the
  code agree (\<open>truncation_copies_agree\<close>), but the helper of strutil can cut a character
  (\<open>strutil_splits_a_character\<close>).

  \<^bold>\<open>The turn engine (core).\<close>
  \<^item> \<open>Core_Items\<close>: the items of a conversation and the events (protocol), history.go, auto\_compact\_window.go,
    session\_state.go, and the status of the agent as a function of the events (session.go).
  \<^item> \<open>Core_Compact\<close>: event\_mapping.go and the helpers of compaction. The replacement keeps the latest messages of
    the user within the budget, and the summary (C24). Decoding the XML of a hook prompt is the parameter \<open>hook_xml\<close>.
  \<^item> \<open>Core_Turn\<close>: tools.go, turn\_output.go, turn\_events.go, turn\_run.go, event\_compact.go and the task of
    turn\_spawn.go. Model client, tool executors, hooks, rollout recorder and cancellation are the parameter
    \<open>services\<close>, functions of an abstract world; a stream is the list of what the reading loop takes from its
    channels, so that every point of cancellation is covered.
  \<^item> \<open>Core_Turn_Props\<close>: a request answers every call of a completed stream and no other (C37), so the
    conversation stays answered over a turn (C30); what of a tool's output the model sees (C23); a started turn ends and sends
    one terminal event, which the queue receives unless the session is shut down (C27). The lemmas \<open>interrupted_call_stays_unanswered\<close>, \<open>function_call_counted_twice\<close>,
    \<open>compaction_keeps_total\<close> and \<open>failed_compaction_leaves_items\<close> exhibit what the code does not keep.
  \<^item> \<open>Core_Approvals\<close>: the requests a tool sends to the user and waits on (the waiters of turn.go and
    approval\_waiters.go, approvals.go, the answers of submission\_loop.go, interruption and the slot of turn\_spawn.go), as
    interleavings of goroutines over a store of channels. No step panics or blocks on a channel
    (\<open>approvals_never_panic_or_block\<close>) and a request returns only an answer that was given to it or the
    default (\<open>answers_come_from_notifications\<close>); the locale \<open>waiter_registry\<close> is the contract of the four registries.
    \<open>stale_cancel_aborts_newer_request\<close> and \<open>second_user_input_drops_first\<close> exhibit two races.
  \<^item> \<open>Core_Status\<close>: the status watchers of session.go over a backing array. Without interference each watcher gets the
    status (\<open>setAgentStatus_delivers\<close>); since the mutex is given up before the loop, a concurrent
    unsubscribe makes it panic or skip a watcher (\<open>send_on_closed_channel\<close>, \<open>watcher_is_skipped\<close>).

  \<^bold>\<open>Not modelled.\<close> Terminal UI, command line, model and service clients, servers and their wire types, login
  and key storage, telemetry, and everything else whose substance is input/output, JSON or a
  third-party engine. Also left out, although parts of them are pure: the display diff
  (applypatch/diff.go), goal accounting (ext/goal), gitignore matching (filesearch), the interception hooks
  (networkproxy) and the control plane over the registry (multiagent); no modelled component calls them.
\<close>

end
